(* ===== verification/RR_Prelude.thy ===== *)
theory RR_Prelude
  imports Main "HOL-Library.AList" "HOL-Library.Word"
begin

text \<open>
  What every component of the development shares: the result type of a fallible Rust
  function (\<open>Ok\<close>, \<open>Err\<close> with its message, or a panic), saturating arithmetic on machine
  words, the association lists that stand for \<open>HashMap\<close> and the first-match update that
  stands for \<open>iter_mut().find(..)\<close>.
\<close>

section \<open>Proof collections\<close>

named_theorems store_simps \<open>one-step facts about guarded store operations\<close>
named_theorems str_simps \<open>facts about the model of Rust strings\<close>
named_theorems pure_ops \<open>the clean-mutation facts of the store operations\<close>

section \<open>Results of fallible functions\<close>

text \<open>
  \<open>anyhow::Result<T>\<close> is \<open>Ok v\<close> or \<open>Err msg\<close>; \<open>Panic\<close> is a Rust panic (an index out of
  a string's character boundaries, an \<open>unwrap\<close> of a poisoned lock).
\<close>

datatype 'a res = Ok 'a | Err string | Panic

fun res_bind :: "'a res \<Rightarrow> ('a \<Rightarrow> 'b res) \<Rightarrow> 'b res" where
  "res_bind (Ok v) f = f v"
| "res_bind (Err e) f = Err e"
| "res_bind Panic f = Panic"

fun res_map :: "('a \<Rightarrow> 'b) \<Rightarrow> 'a res \<Rightarrow> 'b res" where
  "res_map f (Ok v) = Ok (f v)"
| "res_map f (Err e) = Err e"
| "res_map f Panic = Panic"

fun is_ok :: "'a res \<Rightarrow> bool" where
  "is_ok (Ok v) = True"
| "is_ok (Err e) = False"
| "is_ok Panic = False"

fun_cases is_okE: "is_ok r"

lemma is_ok_iff: "is_ok r \<longleftrightarrow> (\<exists>v. r = Ok v)"
  by (cases r) auto

text \<open>
  The result type differs from call to call; a relation between the states before and after
  a call keeps only whether it was an error and whether it panicked.
\<close>

datatype outcome = Done | Failed string | Panicked

fun outcome_of :: "'a res \<Rightarrow> outcome" where
  "outcome_of (Ok v) = Done"
| "outcome_of (Err e) = Failed e"
| "outcome_of Panic = Panicked"

lemma outcome_of_iff [simp]:
  "outcome_of r = Panicked \<longleftrightarrow> r = Panic"
  "outcome_of r = Failed err \<longleftrightarrow> r = Err err"
  "outcome_of r = Done \<longleftrightarrow> is_ok r"
  by (cases r; simp)+

lemma res_bind_Ok_iff: "res_bind r f = Ok v \<longleftrightarrow> (\<exists>u. r = Ok u \<and> f u = Ok v)"
  by (cases r) auto

lemma res_map_Ok_iff: "res_map f r = Ok v \<longleftrightarrow> (\<exists>u. r = Ok u \<and> v = f u)"
  by (cases r) auto

lemma res_map_Panic_iff [simp]: "res_map f r = Panic \<longleftrightarrow> r = Panic"
  by (cases r) auto

lemma res_map_Err_iff [simp]: "res_map f r = Err e \<longleftrightarrow> r = Err e"
  by (cases r) auto

lemma res_bind_Panic_iff: "res_bind r f = Panic \<longleftrightarrow> r = Panic \<or> (\<exists>v. r = Ok v \<and> f v = Panic)"
  by (cases r) auto

lemma res_bind_Err_iff: "res_bind r f = Err e \<longleftrightarrow> r = Err e \<or> (\<exists>v. r = Ok v \<and> f v = Err e)"
  by (cases r) auto

text \<open>A \<open>for\<close> loop whose body can fail.\<close>

fun res_fold :: "('a \<Rightarrow> 's \<Rightarrow> 's res) \<Rightarrow> 'a list \<Rightarrow> 's \<Rightarrow> 's res" where
  "res_fold f [] s = Ok s"
| "res_fold f (x # xs) s = res_bind (f x s) (res_fold f xs)"

text \<open>Each round succeeds: so does the loop.\<close>

lemma res_fold_ok:
  assumes "\<And>x s. x \<in> set xs \<Longrightarrow> \<exists>s'. f x s = Ok s'"
  shows "\<exists>s'. res_fold f xs s = Ok s'"
  using assms
proof (induction xs arbitrary: s)
  case (Cons x xs)
  obtain s1 where "f x s = Ok s1" using Cons.prems [of x s] by auto
  with Cons.IH [of s1] Cons.prems show ?case by auto
qed simp

text \<open>A call that checks its arguments first: it is refused, or it runs on what the checks gave.\<close>

lemma prepared_cases [consumes 1, case_names NoPanic Refused Run]:
  assumes "(case p of Ok x \<Rightarrow> F x | Err err \<Rightarrow> (st, Err err) | Panic \<Rightarrow> (st, Panic)) = (st', r)"
    and "p \<noteq> Panic"
  obtains err where "st' = st" "r = Err err" | x where "p = Ok x" "F x = (st', r)"
  using assms by (cases p) auto

section \<open>Saturating machine arithmetic\<close>

type_synonym u64 = "64 word"
type_synonym u32 = "32 word"
type_synonym i32 = "32 word"

definition sat_add :: "'a::len word \<Rightarrow> 'a word \<Rightarrow> 'a word" where
  "sat_add a b = (if a + b < a then - 1 else a + b)"

definition sat_sub :: "'a::len word \<Rightarrow> 'a word \<Rightarrow> 'a word" where
  "sat_sub a b = (if a \<le> b then 0 else a - b)"

lemma sat_add_ge: "a \<le> sat_add a b"
  by (auto simp: sat_add_def not_less)

lemma unat_plus_lt_iff: "a + b < (a::'a::len word) \<longleftrightarrow> 2 ^ LENGTH('a) \<le> unat a + unat b"
proof -
  have bounds: "unat a < 2 ^ LENGTH('a)" "unat b < 2 ^ LENGTH('a)"
    by auto
  show ?thesis
  proof (cases "unat a + unat b < 2 ^ LENGTH('a)")
    case True
    then have "unat (a + b) = unat a + unat b"
      by (simp add: unat_word_ariths)
    with True show ?thesis by (simp add: word_less_nat_alt)
  next
    case False
    have "unat (a + b) = (unat a + unat b) mod 2 ^ LENGTH('a)"
      by (simp add: unat_word_ariths)
    also have "\<dots> = unat a + unat b - 2 ^ LENGTH('a)"
      using False bounds by (subst le_mod_geq) (linarith, rule mod_less, linarith)
    finally have "unat (a + b) = unat a + unat b - 2 ^ LENGTH('a)" .
    moreover have "unat a + unat b - 2 ^ LENGTH('a) < unat a"
      using False bounds by linarith
    ultimately show ?thesis using False by (simp add: word_less_nat_alt)
  qed
qed

lemma unat_max_word: "unat (- 1 :: 'a::len word) = 2 ^ LENGTH('a) - 1"
  by (simp add: unsigned_minus_1_eq_mask mask_eq_exp_minus_1)

lemma unat_sat_add: "unat (sat_add a b) = min (unat a + unat b) (2 ^ LENGTH('a) - 1)"
  for a b :: "'a::len word"
proof (cases "a + b < a")
  case True
  then have "2 ^ LENGTH('a) \<le> unat a + unat b"
    by (simp add: unat_plus_lt_iff)
  with True show ?thesis
    by (simp add: sat_add_def unat_max_word)
next
  case False
  then have lt: "unat a + unat b < 2 ^ LENGTH('a)"
    by (simp add: unat_plus_lt_iff)
  then have "unat (a + b) = unat a + unat b"
    by (simp add: unat_word_ariths)
  with False lt show ?thesis by (simp add: sat_add_def)
qed

lemma sat_add_gt: "0 < b \<Longrightarrow> a \<noteq> - 1 \<Longrightarrow> a < sat_add a b"
  for a b :: "'a::len word"
proof -
  assume b: "0 < b" and a: "a \<noteq> - 1"
  have "unat a \<noteq> 2 ^ LENGTH('a) - 1"
  proof
    assume "unat a = 2 ^ LENGTH('a) - 1"
    then have "unat a = unat (- 1 :: 'a word)"
      by (simp add: unat_max_word)
    with a show False by (simp only: word_unat_eq_iff)
  qed
  moreover have "unat a < 2 ^ LENGTH('a)" by (rule unsigned_less)
  moreover have "0 < unat b" using b by (simp add: word_less_nat_alt)
  ultimately have "unat a < min (unat a + unat b) (2 ^ LENGTH('a) - 1)"
    by linarith
  then have "unat a < unat (sat_add a b)"
    by (simp only: unat_sat_add)
  then show ?thesis by (simp add: word_less_nat_alt)
qed

lemma unat_sat_sub: "unat (sat_sub a b) = unat a - unat b"
  for a b :: "'a::len word"
proof (cases "a \<le> b")
  case True
  then show ?thesis by (simp add: sat_sub_def word_le_nat_alt)
next
  case False
  then show ?thesis
    by (simp add: sat_sub_def not_le unat_sub_if' word_less_nat_alt)
qed

lemma unat_inc: "(a::'a::len word) < b \<Longrightarrow> unat (a + 1) = Suc (unat a)"
proof -
  assume ab: "a < b"
  have "unat b < 2 ^ LENGTH('a)" by (rule unsigned_less)
  moreover have "unat a < unat b" using ab by (simp add: word_less_nat_alt)
  ultimately have "Suc (unat a) < 2 ^ LENGTH('a)" by linarith
  then show ?thesis by (simp add: unat_word_ariths)
qed

lemma word_inc_le: "(a::'a::len word) < b \<Longrightarrow> a + 1 \<le> b"
  by (simp add: word_le_nat_alt unat_inc) (simp add: word_less_nat_alt)

lemma word_inc_gt: "(a::'a::len word) < b \<Longrightarrow> a < a + 1"
  by (simp add: word_less_nat_alt [of a "a + 1"] unat_inc)

text \<open>Signed readings of 64-bit words.\<close>

lemma sint_small:
  assumes "(a::u64) < 2 ^ 63"
  shows "sint a = int (unat a)"
proof -
  have u: "0 \<le> uint a" "uint a < 2 ^ 63" using assms by (simp_all add: word_less_def)
  have "signed_take_bit 63 (uint a) = uint a"
    by (rule signed_take_bit_int_eq_self) (use u in linarith)+
  then show ?thesis by (simp add: sint_uint)
qed

lemma sint_add:
  assumes "- (2 ^ 63) \<le> sint a + sint (b::u64)" and "sint a + sint b < 2 ^ 63"
  shows "sint (a + b) = sint a + sint b"
proof -
  have "sint (a + b) = signed_take_bit 63 (sint a + sint b)"
    by (simp add: sint_word_ariths)
  also have "\<dots> = sint a + sint b"
    using assms by (rule signed_take_bit_int_eq_self)
  finally show ?thesis .
qed

lemma sint_nonneg:
  assumes "0 \<le> sint (a::u64)"
  shows "sint a = int (unat a)"
proof -
  have "sint a < 2 ^ 63" using sint_lt [of a] by simp
  then have "sint a < 2 ^ 64" by simp
  with assms have "take_bit 64 (sint a) = sint a"
    by (intro take_bit_int_eq_self)
  moreover have "uint a = take_bit 64 (sint a)" by (simp add: uint_sint)
  ultimately show ?thesis by simp
qed

section \<open>Hash maps as association lists\<close>

text \<open>
  A \<open>HashMap<K, V>\<close> is an association list with distinct keys: its order stands for the
  unspecified iteration order of the hash map, so that what iterates over \<open>values()\<close> is
  modelled for every such order.
\<close>

type_synonym ('k, 'v) hmap = "('k \<times> 'v) list"

abbreviation hget :: "('k, 'v) hmap \<Rightarrow> 'k \<Rightarrow> 'v option" where
  "hget \<equiv> map_of"

abbreviation hput :: "'k \<Rightarrow> 'v \<Rightarrow> ('k, 'v) hmap \<Rightarrow> ('k, 'v) hmap" where
  "hput \<equiv> AList.update"

abbreviation hdel :: "'k \<Rightarrow> ('k, 'v) hmap \<Rightarrow> ('k, 'v) hmap" where
  "hdel \<equiv> AList.delete"

abbreviation hvalues :: "('k, 'v) hmap \<Rightarrow> 'v list" where
  "hvalues \<equiv> map snd"

text \<open>Keyed: the keys are distinct and each value is stored under its own key.\<close>

definition keyed :: "('v \<Rightarrow> 'k) \<Rightarrow> ('k, 'v) hmap \<Rightarrow> bool" where
  "keyed key m \<longleftrightarrow> distinct (map fst m) \<and> (\<forall>(k, v) \<in> set m. key v = k)"

lemma keyed_Nil [simp]: "keyed key []"
  by (simp add: keyed_def)

lemma keyed_distinct: "keyed key m \<Longrightarrow> distinct (map fst m)"
  by (simp add: keyed_def)

lemma keyed_map_key: "keyed key m \<Longrightarrow> map key (hvalues m) = map fst m"
  by (auto simp: keyed_def)

lemma keyed_distinct_key: "keyed key m \<Longrightarrow> distinct (map key (hvalues m))"
  by (simp only: keyed_map_key keyed_distinct)

lemma keyed_getD: "keyed key m \<Longrightarrow> hget m k = Some v \<Longrightarrow> key v = k"
  by (auto simp: keyed_def dest: map_of_SomeD)

lemma keyed_values:
  assumes k: "keyed key m"
  shows "v \<in> set (hvalues m) \<longleftrightarrow> hget m (key v) = Some v"
proof
  assume "v \<in> set (hvalues m)"
  then obtain k where "(k, v) \<in> set m" by auto
  with k show "hget m (key v) = Some v"
    by (auto simp: keyed_def)
next
  assume "hget m (key v) = Some v"
  then have "(key v, v) \<in> set m" by (rule map_of_SomeD)
  then show "v \<in> set (hvalues m)" by force
qed

lemma set_AList_update: "set (AList.update k v m) \<subseteq> insert (k, v) (set m)"
  by (induction m) auto

lemma keyed_hput: "keyed key m \<Longrightarrow> key v = k \<Longrightarrow> keyed key (hput k v m)"
  using set_AList_update [of k v m]
  by (auto simp: keyed_def distinct_update)

lemma keyed_hdel: "keyed key m \<Longrightarrow> keyed key (hdel k m)"
    unfolding keyed_def by (intro conjI distinct_delete) (auto simp: AList.delete_eq distinct_delete)

lemma keyed_filter: "keyed key m \<Longrightarrow> keyed key (filter P m)"
  by (auto simp: keyed_def distinct_map_filter)

text \<open>Loading a snapshot: \<open>list.into_iter().map(|v| (key, v)).collect()\<close> (a later entry wins).\<close>

definition hcollect :: "('v \<Rightarrow> 'k) \<Rightarrow> 'v list \<Rightarrow> ('k, 'v) hmap" where
  "hcollect key vs = fold (\<lambda>v m. hput (key v) v m) vs []"

lemma keyed_fold_hput: "keyed key m \<Longrightarrow> keyed key (fold (\<lambda>v m. hput (key v) v m) vs m)"
  by (induction vs arbitrary: m) (auto simp: keyed_hput)

lemma keyed_hcollect: "keyed key (hcollect key vs)"
  by (simp add: hcollect_def keyed_fold_hput)

lemma hput_new: "k \<notin> fst ` set m \<Longrightarrow> hput k v m = m @ [(k, v)]"
  by (induction m) auto

lemma hcollect_hvalues: "keyed key m \<Longrightarrow> hcollect key (hvalues m) = m"
proof -
  have "keyed key (pre @ m) \<Longrightarrow> fold (\<lambda>v m. hput (key v) v m) (hvalues m) pre = pre @ m" for pre
  proof (induction m arbitrary: pre)
    case (Cons kv m)
    obtain k v where kv: "kv = (k, v)" by (cases kv)
    from Cons.prems kv have "key v = k" and "k \<notin> fst ` set pre"
      by (auto simp: keyed_def)
    then have "hput (key v) v pre = pre @ [(k, v)]"
      by (simp add: hput_new)
    with Cons.IH [of "pre @ [kv]"] Cons.prems kv show ?case by simp
  qed simp
  from this [of "[]"] show "keyed key m \<Longrightarrow> hcollect key (hvalues m) = m"
    by (simp add: hcollect_def)
qed

lemma hget_hvalues: "hget m k = Some v \<Longrightarrow> v \<in> set (hvalues m)"
  by (force dest: map_of_SomeD)

text \<open>A keyed map all of whose values satisfy a predicate: the invariant of most stores.\<close>

definition wf_map :: "('v \<Rightarrow> 'k) \<Rightarrow> ('v \<Rightarrow> bool) \<Rightarrow> ('k, 'v) hmap \<Rightarrow> bool" where
  "wf_map key P m \<longleftrightarrow> keyed key m \<and> (\<forall>k v. hget m k = Some v \<longrightarrow> P v)"

lemma wf_map_Nil [simp]: "wf_map key P []"
  by (simp add: wf_map_def)

lemma wf_map_get: "wf_map key P m \<Longrightarrow> hget m k = Some v \<Longrightarrow> P v \<and> key v = k"
  by (auto simp: wf_map_def dest: keyed_getD)

lemma wf_map_keyed: "wf_map key P m \<Longrightarrow> keyed key m"
  by (simp add: wf_map_def)

lemma wf_map_value: "wf_map key P m \<Longrightarrow> v \<in> set (hvalues m) \<Longrightarrow> P v"
  using keyed_values [of key m v] by (auto simp: wf_map_def simp del: set_map)

lemma wf_map_put: "wf_map key P m \<Longrightarrow> P v \<Longrightarrow> key v = k \<Longrightarrow> wf_map key P (hput k v m)"
  by (auto simp: wf_map_def keyed_hput update_conv' split: if_splits)

lemma wf_map_update:
  assumes "wf_map key P m" and "hget m k = Some v" and "key v' = key v" and "P v \<Longrightarrow> P v'"
  shows "wf_map key P (hput k v' m)"
  using wf_map_get [OF assms(1,2)] assms(3,4) by (intro wf_map_put [OF assms(1)]) auto

lemma wf_map_delete: "wf_map key P m \<Longrightarrow> wf_map key P (hdel k m)"
  by (auto simp: wf_map_def keyed_hdel delete_conv' split: if_splits)

lemma hget_filter:
  "distinct (map fst m) \<Longrightarrow>
     hget (filter (\<lambda>(k, v). Q k v) m) k
     = (case hget m k of None \<Rightarrow> None | Some v \<Rightarrow> if Q k v then Some v else None)"
  by (induction m) (auto simp: map_of_eq_None_iff rev_image_eqI split: option.splits)

lemma wf_map_filter:
  assumes "wf_map key P m"
  shows "wf_map key P (filter (\<lambda>(k, v). Q k v) m)"
proof -
  have "distinct (map fst m)" using assms by (simp add: wf_map_def keyed_def)
  with assms show ?thesis
    by (auto simp: wf_map_def keyed_filter hget_filter split: option.splits if_splits)
qed

lemma hdel_absent: "hget m k = None \<Longrightarrow> hdel k m = m"
  by (simp add: map_of_eq_None_iff delete_idem)

lemma hget_hput [simp]: "hget (hput k v m) j = (if k = j then Some v else hget m j)"
  by (auto simp: update_conv')

lemma hget_hdel [simp]: "hget (hdel k m) j = (if k = j then None else hget m j)"
  by (auto simp: delete_conv')

section \<open>The first match of a vector, updated in place\<close>

fun modify_first :: "('a \<Rightarrow> bool) \<Rightarrow> ('a \<Rightarrow> 'a) \<Rightarrow> 'a list \<Rightarrow> 'a list" where
  "modify_first P f [] = []"
| "modify_first P f (x # xs) = (if P x then f x # xs else x # modify_first P f xs)"

lemma length_modify_first [simp]: "length (modify_first P f xs) = length xs"
  by (induction xs) auto

lemma map_modify_first [simp]:
  "(\<And>x. P x \<Longrightarrow> g (f x) = g x) \<Longrightarrow> map g (modify_first P f xs) = map g xs"
  by (induction xs) auto

lemma find_modify_first:
  "(\<And>x. P (f x) = P x) \<Longrightarrow> find P (modify_first P f xs) = map_option f (find P xs)"
  by (induction xs) auto

lemma find_modify_first_other:
  "(\<And>x. Q (f x) = Q x) \<Longrightarrow> (\<And>x. P x \<Longrightarrow> \<not> Q x)
    \<Longrightarrow> find Q (modify_first P f xs) = find Q xs"
  by (induction xs) auto

lemma modify_first_id: "find P xs = None \<Longrightarrow> modify_first P f xs = xs"
  by (induction xs) (auto split: if_splits)

lemma set_modify_first_subset: "set (modify_first P f xs) \<subseteq> set xs \<union> f ` {x \<in> set xs. P x}"
  by (induction xs) auto

lemma list_all_modify_first:
  "list_all Q xs \<Longrightarrow> (\<And>x. P x \<Longrightarrow> Q x \<Longrightarrow> Q (f x)) \<Longrightarrow> list_all Q (modify_first P f xs)"
  by (induction xs) auto

text \<open>The update of the one element that was found: the closure saw \<open>x\<close> itself.\<close>

lemma modify_first_cong_found:
  "find P xs = Some x \<Longrightarrow> f x = g x \<Longrightarrow> modify_first P f xs = modify_first P g xs"
  by (induction xs) (auto split: if_splits)

lemma list_all_modify_found:
  "list_all Q xs \<Longrightarrow> find P xs = Some x \<Longrightarrow> Q (f x) \<Longrightarrow> list_all Q (modify_first P f xs)"
  by (induction xs) (auto split: if_splits)

lemma find_SomeD: "find P xs = Some x \<Longrightarrow> x \<in> set xs \<and> P x"
  by (induction xs) (auto split: if_splits)

lemma find_NoneD: "find P xs = None \<Longrightarrow> x \<in> set xs \<Longrightarrow> \<not> P x"
  by (induction xs) (auto split: if_splits)

lemma find_unique:
  assumes "x \<in> set xs" and "P x" and "\<And>y. y \<in> set xs \<Longrightarrow> P y \<Longrightarrow> y = x"
  shows "find P xs = Some x"
proof (cases "find P xs")
  case None
  with assms show ?thesis by (blast dest: find_NoneD)
next
  case (Some y)
  with assms(3) show ?thesis by (blast dest: find_SomeD)
qed

section \<open>Retaining\<close>

text \<open>\<open>retain\<close> reports a change exactly when the length changed.\<close>

lemma filter_length_id: "length (filter P xs) = length xs \<Longrightarrow> filter P xs = xs"
proof (induction xs)
  case (Cons x xs)
  show ?case
  proof (cases "P x")
    case True
    with Cons show ?thesis by simp
  next
    case False
    with Cons.prems have "length (filter P xs) = Suc (length xs)" by simp
    moreover have "length (filter P xs) \<le> length xs" by (rule length_filter_le)
    ultimately show ?thesis by simp
  qed
qed simp

lemma find_filter: "find P (filter Q xs) = find (\<lambda>x. Q x \<and> P x) xs"
  by (induction xs) auto

lemma find_append: "find P (xs @ ys) = (case find P xs of None \<Rightarrow> find P ys | Some x \<Rightarrow> Some x)"
  by (induction xs) auto

section \<open>The first value of a map with a property\<close>

lemma find_hvalues: "find P (hvalues m) = map_option snd (find (\<lambda>(k, v). P v) m)"
  by (induction m) auto

lemma find_value_get:
  assumes "keyed key m" and "find P (hvalues m) = Some v"
  shows "hget m (key v) = Some v \<and> P v"
  using find_SomeD [OF assms(2)] keyed_values [OF assms(1), of v] by simp

text \<open>\<open>values_mut().find(..)\<close> changes the entry in place, as a \<open>get_mut\<close> of its key does.\<close>

lemma modify_first_hput:
  "distinct (map fst m) \<Longrightarrow> find (\<lambda>(k, v). P v) m = Some (k, v) \<Longrightarrow>
     modify_first (\<lambda>(k, v). P v) (\<lambda>(k, v). (k, f v)) m = hput k (f v) m"
proof (induction m)
  case (Cons kv m)
  obtain k' v' where kv: "kv = (k', v')" by (cases kv)
  show ?case
  proof (cases "P v'")
    case False
    with Cons.prems kv have "(k, v) \<in> set m" by (auto dest: find_SomeD)
    with Cons.prems kv have "k' \<noteq> k" by force
    with Cons False kv show ?thesis by simp
  qed (use Cons.prems kv in auto)
qed simp

lemma modify_value_hput:
  assumes "keyed key m" and "find P (hvalues m) = Some v"
  shows "modify_first (\<lambda>(k, v). P v) (\<lambda>(k, v). (k, f v)) m = hput (key v) (f v) m"
proof -
  obtain k where kv: "find (\<lambda>(k, v). P v) m = Some (k, v)"
    using assms(2) by (auto simp: find_hvalues)
  then have "k = key v" using assms(1) by (auto simp: keyed_def dest: find_SomeD)
  with modify_first_hput [OF keyed_distinct [OF assms(1)] kv] show ?thesis by simp
qed

end
