(* ===== verification/Rust_Str.thy ===== *)
theory Rust_Str
  imports RR_Prelude "HOL-Library.Sublist"
begin

text \<open>
  The part of \<open>std\<close>'s strings the program uses. A \<open>String\<close> or \<open>&str\<close> is its UTF-8 byte
  sequence, a HOL \<open>string\<close> whose characters are bytes: \<open>len()\<close> is \<open>length\<close>, equality and
  \<open>starts_with\<close> compare bytes as Rust does, and slicing off a character boundary panics.
\<close>

section \<open>Bytes and character boundaries\<close>

definition is_cont_byte :: "char \<Rightarrow> bool" where
  "is_cont_byte c \<longleftrightarrow> 128 \<le> (of_char c :: nat) \<and> (of_char c :: nat) < 192"

definition is_char_boundary :: "string \<Rightarrow> nat \<Rightarrow> bool" where
  "is_char_boundary s i \<longleftrightarrow>
     i = 0 \<or> i = length s \<or> (i < length s \<and> \<not> is_cont_byte (s ! i))"

text \<open>\<open>&s[i..]\<close>: a panic unless \<open>i\<close> is a character boundary.\<close>

definition slice_from :: "string \<Rightarrow> nat \<Rightarrow> string res" where
  "slice_from s i = (if is_char_boundary s i then Ok (drop i s) else Panic)"

text \<open>\<open>s.chars().count()\<close> and \<open>s.chars().take(n).collect::<String>()\<close>.\<close>

definition chars_count :: "string \<Rightarrow> nat" where
  "chars_count s = length (filter (\<lambda>c. \<not> is_cont_byte c) s)"

fun chars_take :: "nat \<Rightarrow> string \<Rightarrow> string" where
  "chars_take n [] = []"
| "chars_take n (c # cs) =
     (if is_cont_byte c then c # chars_take n cs
      else case n of 0 \<Rightarrow> [] | Suc m \<Rightarrow> c # chars_take m cs)"

lemma length_dropWhile_less [termination_simp]: "length (dropWhile P xs) < Suc (length xs)"
  by (simp add: le_imp_less_Suc length_dropWhile_le)

text \<open>\<open>s.chars()\<close>: the encodings of the characters, in order.\<close>

fun chars_of :: "string \<Rightarrow> string list" where
  "chars_of [] = []"
| "chars_of (c # cs) = (c # takeWhile is_cont_byte cs) # chars_of (dropWhile is_cont_byte cs)"

lemma concat_chars_of [simp]: "concat (chars_of s) = s"
  by (induction s rule: chars_of.induct) auto

lemma chars_of_ascii:
  "list_all (\<lambda>c. \<not> is_cont_byte c) s \<Longrightarrow> chars_of s = map (\<lambda>c. [c]) s"
proof (induction s)
  case (Cons c cs)
  then have "takeWhile is_cont_byte cs = []" and "dropWhile is_cont_byte cs = cs"
    by (cases cs; simp)+
  with Cons show ?case by simp
qed simp

text \<open>The offset of the first occurrence of an ASCII character.\<close>

fun find_char :: "char \<Rightarrow> string \<Rightarrow> nat option" where
  "find_char c [] = None"
| "find_char c (d # ds) = (if d = c then Some 0 else map_option Suc (find_char c ds))"

lemma find_char_SomeD: "find_char c s = Some i \<Longrightarrow> i < length s \<and> s ! i = c"
  by (induction s arbitrary: i) (auto split: if_splits)

lemma find_char_None [str_simps]: "find_char c s = None \<longleftrightarrow> c \<notin> set s"
  by (induction s) auto

text \<open>What follows the last occurrence of a character, the whole string without one
  (\<open>s.rsplit(c).next()\<close>).\<close>

definition after_last :: "char \<Rightarrow> string \<Rightarrow> string" where
  "after_last c s = rev (takeWhile (\<lambda>d. d \<noteq> c) (rev s))"

lemma chars_take_count: "chars_count (chars_take n s) \<le> n"
  by (induction n s rule: chars_take.induct)
     (auto simp: chars_count_def split: nat.splits)

lemma chars_take_prefix: "prefix (chars_take n s) s"
  by (induction n s rule: chars_take.induct) (auto split: nat.splits)

lemma chars_take_all: "chars_count s \<le> n \<Longrightarrow> chars_take n s = s"
  by (induction n s rule: chars_take.induct)
     (auto simp: chars_count_def split: nat.splits if_splits)

section \<open>ASCII case\<close>

definition ascii_lower_char :: "char \<Rightarrow> char" where
  "ascii_lower_char c =
     (let n = (of_char c :: nat) in if 65 \<le> n \<and> n \<le> 90 then char_of (n + 32) else c)"

definition ascii_upper_char :: "char \<Rightarrow> char" where
  "ascii_upper_char c =
     (let n = (of_char c :: nat) in if 97 \<le> n \<and> n \<le> 122 then char_of (n - 32) else c)"

definition to_ascii_lowercase :: "string \<Rightarrow> string" where
  "to_ascii_lowercase s = map ascii_lower_char s"

definition to_ascii_uppercase :: "string \<Rightarrow> string" where
  "to_ascii_uppercase s = map ascii_upper_char s"

definition eq_ignore_ascii_case :: "string \<Rightarrow> string \<Rightarrow> bool" where
  "eq_ignore_ascii_case a b \<longleftrightarrow> to_ascii_lowercase a = to_ascii_lowercase b"

lemma ascii_lower_char_idem [simp]: "ascii_lower_char (ascii_lower_char c) = ascii_lower_char c"
  by (simp add: ascii_lower_char_def Let_def)

lemma to_ascii_lowercase_idem [simp, str_simps]:
  "to_ascii_lowercase (to_ascii_lowercase s) = to_ascii_lowercase s"
  by (simp add: to_ascii_lowercase_def)

lemma length_to_ascii_lowercase [simp]: "length (to_ascii_lowercase s) = length s"
  by (simp add: to_ascii_lowercase_def)

lemma ascii_lower_upper_char: "ascii_lower_char (ascii_upper_char c) = ascii_lower_char c"
proof (cases "97 \<le> (of_char c :: nat) \<and> (of_char c :: nat) \<le> 122")
  case True
  define m where "m = (of_char c :: nat) - 32"
  from True have c: "of_char c = m + 32" and m: "65 \<le> m" "m \<le> 90"
    by (auto simp: m_def)
  have "ascii_upper_char c = char_of m"
    using True by (simp add: ascii_upper_char_def m_def)
  moreover have "ascii_lower_char (char_of m) = char_of (m + 32)"
    using m by (simp add: ascii_lower_char_def)
  moreover have "char_of (m + 32) = c"
    unfolding c [symmetric] by simp
  moreover have "ascii_lower_char c = c"
    using True by (simp add: ascii_lower_char_def)
  ultimately show ?thesis by simp
next
  case False
  then have "ascii_upper_char c = c" by (auto simp: ascii_upper_char_def Let_def)
  then show ?thesis by simp
qed

lemma ascii_lower_upper [simp, str_simps]:
  "to_ascii_lowercase (to_ascii_uppercase s) = to_ascii_lowercase s"
  by (simp add: to_ascii_lowercase_def to_ascii_uppercase_def ascii_lower_upper_char)

lemma eq_ignore_ascii_case_refl [simp]: "eq_ignore_ascii_case a a"
  by (simp add: eq_ignore_ascii_case_def)

lemma eq_ignore_ascii_case_lower [simp]: "eq_ignore_ascii_case (to_ascii_lowercase a) b = eq_ignore_ascii_case a b"
  by (simp add: eq_ignore_ascii_case_def)

section \<open>Trimming\<close>

text \<open>
  The UTF-8 encodings of the code points with Unicode's \<open>White_Space\<close> property, which is
  what \<open>char::is_whitespace\<close> and \<open>str::trim\<close> use.
\<close>

definition ws_encodings :: "string list" where
  "ws_encodings =
     [[CHR 0x09], [CHR 0x0A], [CHR 0x0B], [CHR 0x0C], [CHR 0x0D], [CHR 0x20],
      [CHR 0xC2, CHR 0x85], [CHR 0xC2, CHR 0xA0], [CHR 0xE1, CHR 0x9A, CHR 0x80],
      [CHR 0xE2, CHR 0x80, CHR 0x80], [CHR 0xE2, CHR 0x80, CHR 0x81],
      [CHR 0xE2, CHR 0x80, CHR 0x82], [CHR 0xE2, CHR 0x80, CHR 0x83],
      [CHR 0xE2, CHR 0x80, CHR 0x84], [CHR 0xE2, CHR 0x80, CHR 0x85],
      [CHR 0xE2, CHR 0x80, CHR 0x86], [CHR 0xE2, CHR 0x80, CHR 0x87],
      [CHR 0xE2, CHR 0x80, CHR 0x88], [CHR 0xE2, CHR 0x80, CHR 0x89],
      [CHR 0xE2, CHR 0x80, CHR 0x8A], [CHR 0xE2, CHR 0x80, CHR 0xA8],
      [CHR 0xE2, CHR 0x80, CHR 0xA9], [CHR 0xE2, CHR 0x80, CHR 0xAF],
      [CHR 0xE2, CHR 0x81, CHR 0x9F], [CHR 0xE3, CHR 0x80, CHR 0x80]]"

text \<open>Strip leading members of a list of encodings, as long as one is there.\<close>

function strip_front :: "string list \<Rightarrow> string \<Rightarrow> string" where
  "strip_front es s =
     (case find (\<lambda>e. e \<noteq> [] \<and> prefix e s) es of
        None \<Rightarrow> s
      | Some e \<Rightarrow> strip_front es (drop (length e) s))"
  by pat_completeness auto
termination
proof (relation "measure (\<lambda>(es, s). length s)", goal_cases)
  case (2 es s e)
  from find_SomeD [OF 2] have "e \<noteq> []" and "prefix e s" by simp_all
  then have "0 < length e" and "length e \<le> length s" by (auto dest: prefix_length_le)
  then have "length s - length e < length s" by linarith
  then show ?case by simp
qed simp

declare strip_front.simps [simp del]

definition trim_start :: "string \<Rightarrow> string" where
  "trim_start s = strip_front ws_encodings s"

definition trim_end :: "string \<Rightarrow> string" where
  "trim_end s = rev (strip_front (map rev ws_encodings) (rev s))"

definition trim :: "string \<Rightarrow> string" where
  "trim s = trim_end (trim_start s)"

lemma strip_front_done: "find (\<lambda>e. e \<noteq> [] \<and> prefix e (strip_front es s)) es = None"
proof (induction es s rule: strip_front.induct)
  case (1 es s)
  show ?case
  proof (cases "find (\<lambda>e. e \<noteq> [] \<and> prefix e s) es")
    case None
    then show ?thesis by (simp add: strip_front.simps [of es s])
  next
    case (Some e)
    with 1 show ?thesis by (simp add: strip_front.simps [of es s])
  qed
qed

lemma strip_front_fix:
  "find (\<lambda>e. e \<noteq> [] \<and> prefix e s) es = None \<Longrightarrow> strip_front es s = s"
  by (simp add: strip_front.simps [of es s])

lemma strip_front_idem [simp]: "strip_front es (strip_front es s) = strip_front es s"
  by (rule strip_front_fix) (rule strip_front_done)

lemma strip_front_suffix: "suffix (strip_front es s) s"
proof (induction es s rule: strip_front.induct)
  case (1 es s)
  show ?case
  proof (cases "find (\<lambda>e. e \<noteq> [] \<and> prefix e s) es")
    case None
    then show ?thesis by (simp add: strip_front.simps [of es s])
  next
    case (Some e)
    with 1 have "suffix (strip_front es (drop (length e) s)) (drop (length e) s)" by simp
    then have "suffix (strip_front es (drop (length e) s)) s"
      by (rule suffix_order.trans) (rule suffix_drop)
    with Some show ?thesis by (simp add: strip_front.simps [of es s])
  qed
qed

lemma trim_start_suffix: "suffix (trim_start s) s"
  by (simp add: trim_start_def strip_front_suffix)

lemma trim_end_prefix: "prefix (trim_end s) s"
  using strip_front_suffix [of "map rev ws_encodings" "rev s"]
  by (simp add: trim_end_def suffix_to_prefix)

lemma length_trim: "length (trim s) \<le> length s"
  using prefix_length_le [OF trim_end_prefix, of "trim_start s"]
    suffix_length_le [OF trim_start_suffix, of s]
  by (simp add: trim_def)

text \<open>A prefix of a string that starts with no white space starts with none.\<close>

lemma trim_start_prefix_fix:
  assumes "prefix t (trim_start s)"
  shows "trim_start t = t"
proof -
  have "find (\<lambda>e. e \<noteq> [] \<and> prefix e t) ws_encodings = None"
  proof (cases "find (\<lambda>e. e \<noteq> [] \<and> prefix e t) ws_encodings")
    case (Some e)
    then have "e \<in> set ws_encodings" and "e \<noteq> []" and "prefix e t"
      by (auto dest: find_SomeD)
    with assms have "e \<noteq> [] \<and> prefix e (strip_front ws_encodings s)"
      by (auto simp: trim_start_def intro: prefix_order.trans)
    with \<open>e \<in> set ws_encodings\<close> strip_front_done [of ws_encodings s] show ?thesis
      by (auto dest: find_NoneD)
  qed
  then show ?thesis by (simp add: trim_start_def strip_front_fix)
qed

lemma trim_idem [simp, str_simps]: "trim (trim s) = trim s"
proof -
  have "trim_start (trim s) = trim s"
    unfolding trim_def by (rule trim_start_prefix_fix) (rule trim_end_prefix)
  then show ?thesis
    by (simp add: trim_def trim_end_def)
qed

lemma trim_Nil [simp]: "trim [] = []"
  using length_trim [of "[]"] by simp

text \<open>A string of printable ASCII characters other than the blank is not trimmed.\<close>

definition is_graph_char :: "char \<Rightarrow> bool" where
  "is_graph_char c \<longleftrightarrow> 33 \<le> (of_char c :: nat) \<and> (of_char c :: nat) < 127"

lemma ws_encodings_not_graph: "e \<in> set ws_encodings \<Longrightarrow> list_all (\<lambda>c. \<not> is_graph_char c) e"
  by (auto simp: ws_encodings_def is_graph_char_def)

lemma strip_front_graph:
  assumes "\<And>e. e \<in> set es \<Longrightarrow> list_all (\<lambda>c. \<not> is_graph_char c) e" and "list_all is_graph_char s"
  shows "strip_front es s = s"
proof (rule strip_front_fix, rule ccontr)
  assume "find (\<lambda>e. e \<noteq> [] \<and> prefix e s) es \<noteq> None"
  then obtain e where e: "e \<in> set es" "e \<noteq> []" "prefix e s" by (auto dest: find_SomeD)
  then have "hd e \<in> set e" "hd e \<in> set s" by (auto simp: prefix_def)
  with e(1) assms(1) [OF e(1)] assms(2) show False by (auto simp: list_all_iff)
qed

lemma trim_graph [simp]:
  assumes "list_all is_graph_char s"
  shows "trim s = s"
proof -
  have "strip_front ws_encodings s = s"
    by (rule strip_front_graph [OF ws_encodings_not_graph assms])
  moreover have "strip_front (map rev ws_encodings) (rev s) = rev s"
  proof (rule strip_front_graph)
    show "list_all is_graph_char (rev s)" using assms by (simp add: list_all_iff)
  qed (use ws_encodings_not_graph in \<open>auto simp: list_all_iff\<close>)
  ultimately show ?thesis by (simp add: trim_def trim_start_def trim_end_def)
qed

section \<open>Searching, splitting, lines\<close>

definition starts_with :: "string \<Rightarrow> string \<Rightarrow> bool" where
  "starts_with s p \<longleftrightarrow> prefix p s"

definition ends_with :: "string \<Rightarrow> string \<Rightarrow> bool" where
  "ends_with s p \<longleftrightarrow> suffix p s"

text \<open>\<open>haystack.contains(needle)\<close>.\<close>

fun str_contains :: "string \<Rightarrow> string \<Rightarrow> bool" where
  "str_contains [] needle = (needle = [])"
| "str_contains (c # cs) needle = (prefix needle (c # cs) \<or> str_contains cs needle)"

lemma str_contains_sublist: "str_contains s needle \<longleftrightarrow> sublist needle s"
  by (induction s) (auto simp: sublist_Cons_right)

text \<open>\<open>s.strip_prefix(p)\<close> and \<open>s.strip_suffix(p)\<close>.\<close>

definition str_strip_prefix :: "string \<Rightarrow> string \<Rightarrow> string option" where
  "str_strip_prefix p s = (if prefix p s then Some (drop (length p) s) else None)"

definition str_strip_suffix :: "string \<Rightarrow> string \<Rightarrow> string option" where
  "str_strip_suffix p s = (if suffix p s then Some (take (length s - length p) s) else None)"

text \<open>\<open>s.split(c)\<close> for an ASCII character: always at least one piece.\<close>

fun split_char :: "char \<Rightarrow> string \<Rightarrow> string list" where
  "split_char c [] = [[]]"
| "split_char c (d # ds) =
     (if d = c then [] # split_char c ds
      else case split_char c ds of [] \<Rightarrow> [[d]] | w # ws \<Rightarrow> (d # w) # ws)"

lemma split_char_ne [simp]: "split_char c s \<noteq> []"
  by (induction s) (auto split: list.splits)

text \<open>\<open>parts.join(sep)\<close>.\<close>

fun join_with :: "string \<Rightarrow> string list \<Rightarrow> string" where
  "join_with sep [] = []"
| "join_with sep [p] = p"
| "join_with sep (p # q # ps) = p @ sep @ join_with sep (q # ps)"

lemma join_split_char: "join_with [c] (split_char c s) = s"
proof (induction s)
  case (Cons d ds)
  show ?case
  proof (cases "split_char c ds")
    case Nil
    then show ?thesis by simp
  next
    case (Cons w ws)
    with Cons.IH show ?thesis by (cases ws) auto
  qed
qed simp

text \<open>
  \<open>s.lines()\<close>: the pieces between line feeds, without the empty piece after a final line
  feed; a line that was ended by a line feed loses one carriage return before it.
\<close>

definition drop_cr :: "string \<Rightarrow> string" where
  "drop_cr l = (case str_strip_suffix [CHR 0x0D] l of None \<Rightarrow> l | Some l' \<Rightarrow> l')"

definition str_lines :: "string \<Rightarrow> string list" where
  "str_lines s =
     (let ps = split_char (CHR 0x0A) s
      in map drop_cr (butlast ps) @ (if last ps = [] then [] else [last ps]))"

text \<open>A word in single quotes, for messages.\<close>

abbreviation quoted :: "string \<Rightarrow> string" where
  "quoted s \<equiv> [CHR 0x27] @ s @ [CHR 0x27]"

section \<open>Decimal numbers\<close>

text \<open>\<open>n.to_string()\<close> for an unsigned integer.\<close>

fun nat_to_str :: "nat \<Rightarrow> string" where
  "nat_to_str n =
     (if n < 10 then [char_of (48 + n)] else nat_to_str (n div 10) @ [char_of (48 + n mod 10)])"

declare nat_to_str.simps [simp del]

definition is_ascii_digit :: "char \<Rightarrow> bool" where
  "is_ascii_digit c \<longleftrightarrow> 48 \<le> (of_char c :: nat) \<and> (of_char c :: nat) \<le> 57"

definition digits_value :: "string \<Rightarrow> nat" where
  "digits_value s = foldl (\<lambda>n c. 10 * n + (of_char c - 48)) 0 s"

text \<open>
  \<open>s.parse::<i64>()\<close>: an optional sign, at least one digit, within 64 bits.
\<close>

definition parse_i64 :: "string \<Rightarrow> int option" where
  "parse_i64 s =
     (case s of
        [] \<Rightarrow> None
      | c # cs \<Rightarrow>
          (let neg = (c = CHR 0x2D); ds = (if c = CHR 0x2D \<or> c = CHR 0x2B then cs else s)
           in if ds = [] \<or> \<not> list_all is_ascii_digit ds then None
              else let v = (if neg then - int (digits_value ds) else int (digits_value ds))
                in if - (2 ^ 63) \<le> v \<and> v < 2 ^ 63 then Some v else None))"

text \<open>\<open>s.parse::<i32>()\<close> and \<open>s.parse::<u32>()\<close>.\<close>

definition parse_i32 :: "string \<Rightarrow> int option" where
  "parse_i32 s = (case parse_i64 s of None \<Rightarrow> None
                  | Some v \<Rightarrow> if - (2 ^ 31) \<le> v \<and> v < 2 ^ 31 then Some v else None)"

definition parse_u32 :: "string \<Rightarrow> nat option" where
  "parse_u32 s = (if starts_with s ''-'' then None
                  else case parse_i64 s of None \<Rightarrow> None | Some v \<Rightarrow> if v < 2 ^ 32 then Some (nat v) else None)"

lemma digit_char: "d < 10 \<Longrightarrow> of_char (char_of (48 + d) :: char) = (48 + d :: nat)"
  by simp

lemma nat_to_str_digits: "\<forall>c \<in> set (nat_to_str n). is_ascii_digit c"
proof (induction n rule: nat_to_str.induct)
  case (1 n)
  have "n < 10 \<or> (\<forall>c \<in> set (nat_to_str (n div 10)). is_ascii_digit c)"
    using 1 by blast
  moreover have "n mod 10 < 10" by simp
  ultimately show ?case
    by (subst nat_to_str.simps) (auto simp: is_ascii_digit_def digit_char)
qed

lemma digits_value_nat_to_str: "digits_value (nat_to_str n) = n"
proof (induction n rule: nat_to_str.induct)
  case (1 n)
  show ?case
  proof (cases "n < 10")
    case True
    then show ?thesis
      by (subst nat_to_str.simps) (simp add: digits_value_def digit_char)
  next
    case False
    with 1 have "digits_value (nat_to_str (n div 10)) = n div 10" by simp
    with False show ?thesis
      by (subst nat_to_str.simps) (simp add: digits_value_def digit_char)
  qed
qed

lemma nat_to_str_inj: "nat_to_str m = nat_to_str n \<longleftrightarrow> m = n"
  by (metis digits_value_nat_to_str)

lemma nat_to_str_ne [simp]: "nat_to_str n \<noteq> []"
  by (subst nat_to_str.simps) auto

end
