(* ===== verification/Persistence.thy ===== *)
theory Persistence
  imports RR_Prelude Rust_Str
begin

text \<open>
  \<^verbatim>\<open>src/persistence.rs\<close>: the crash-resistant replacement of a state file and its optional
  PostgreSQL mirror. The file system and the database are outside the repository: each call
  the code makes to them has a Boolean outcome in an environment record, and the functions
  below say what the code does with every combination of outcomes. A file holds the value
  that was serialized into it; that \<open>serde_json\<close> reads back what it wrote is trusted.
\<close>

section \<open>The environment and the disk\<close>

text \<open>The outcomes of the system calls of one \<open>atomic_write_local\<close> (\<open>True\<close>: it succeeded).\<close>

record fs_env =
  fs_mkdir :: bool
  fs_open :: bool
  fs_write :: bool
  fs_no_fsync :: bool
  fs_sync :: bool
  fs_rename :: bool
  fs_sync_parent :: bool

text \<open>
  The outcomes of one \<open>atomic_write_with_mirror\<close>: reading the previous file (a missing file
  is no failure), the local write, the mirror (\<open>None\<close> when no mirror is configured,
  otherwise whether it stored the row), and the calls of the compensating write.
\<close>

record write_env =
  we_read :: bool
  we_local :: fs_env
  we_mirror :: "bool option"
  we_rollback :: fs_env

text \<open>The state file and the mirrored row.\<close>

record 'd disk =
  dk_file :: "'d option"
  dk_mirror :: "'d option"

section \<open>Writing\<close>

text \<open>
  \<open>atomic_write_local\<close>: write a fresh temporary file, rename it over the target, fsync the
  directory. Every step before the rename leaves the target alone; the fsync of the
  directory comes after it.
\<close>

definition atomic_write_local :: "fs_env \<Rightarrow> 'd \<Rightarrow> 'd option \<Rightarrow> 'd option \<times> unit res" where
  "atomic_write_local e data target =
     (if \<not> fs_mkdir e then (target, Err ''create_dir_all'')
      else if \<not> fs_open e then (target, Err ''open'')
      else if \<not> fs_write e then (target, Err ''write_all'')
      else if \<not> fs_no_fsync e \<and> \<not> fs_sync e then (target, Err ''sync_all'')
      else if \<not> fs_rename e then (target, Err ''rename'')
      else if \<not> fs_no_fsync e \<and> \<not> fs_sync_parent e then (Some data, Err ''sync_parent'')
      else (Some data, Ok ()))"

definition atomic_write_with_mirror ::
  "write_env \<Rightarrow> 'd \<Rightarrow> 'd disk \<Rightarrow> 'd disk \<times> unit res" where
  "atomic_write_with_mirror e data d =
     (if \<not> we_read e then (d, Err ''read'')
      else let previous = dk_file d in
        case atomic_write_local (we_local e) data (dk_file d) of
          (f, Ok u) \<Rightarrow>
            (case we_mirror e of
               None \<Rightarrow> (d\<lparr>dk_file := f\<rparr>, Ok ())
             | Some True \<Rightarrow> (d\<lparr>dk_file := f, dk_mirror := Some data\<rparr>, Ok ())
             | Some False \<Rightarrow>
                 (case previous of
                    Some p \<Rightarrow>
                      (case atomic_write_local (we_rollback e) p f of
                         (f', Ok u') \<Rightarrow> (d\<lparr>dk_file := f'\<rparr>, Err ''mirror'')
                       | (f', r) \<Rightarrow> (d\<lparr>dk_file := f'\<rparr>, r))
                  | None \<Rightarrow>
                      (let f' = (if fs_rename (we_rollback e) then None else f)
                       in if fs_sync_parent (we_rollback e)
                          then (d\<lparr>dk_file := f'\<rparr>, Err ''mirror'')
                          else (d\<lparr>dk_file := f'\<rparr>, Err ''sync_parent''))))
        | (f, r) \<Rightarrow> (d\<lparr>dk_file := f\<rparr>, r))"

text \<open>
  \<open>restore_if_missing_with_mirror\<close>: a missing file is written again from the mirrored row.
  \<open>load_ok\<close> is whether the mirror answered.
\<close>

definition restore_if_missing ::
  "fs_env \<Rightarrow> bool option \<Rightarrow> 'd disk \<Rightarrow> 'd disk \<times> bool res" where
  "restore_if_missing e load_ok d =
     (if dk_file d \<noteq> None then (d, Ok False)
      else case load_ok of
        None \<Rightarrow> (d, Ok False)
      | Some False \<Rightarrow> (d, Err ''load'')
      | Some True \<Rightarrow>
          (case dk_mirror d of
             None \<Rightarrow> (d, Ok False)
           | Some data \<Rightarrow>
               (case atomic_write_local e data (dk_file d) of
                  (f, r) \<Rightarrow> (d\<lparr>dk_file := f\<rparr>, res_map (\<lambda>_. True) r))))"

section \<open>Reading\<close>

text \<open>The bytes of a state file: absent, unreadable, not the expected JSON, or a value.\<close>

datatype 'd contents = Missing | Unreadable | Corrupt | Contents 'd

text \<open>\<open>load_json\<close>: a missing file is \<open>None\<close>, damaged JSON is an error.\<close>

fun load_json :: "'d contents \<Rightarrow> 'd option res" where
  "load_json Missing = Ok None"
| "load_json Unreadable = Err ''read''"
| "load_json Corrupt = Err ''parse''"
| "load_json (Contents v) = Ok (Some v)"

text \<open>
  \<open>load_json_or_quarantine\<close>: a damaged file is moved to a backup (when the rename works) and
  the caller starts from the default. The result holds the file left under the path, the
  backup, and what the caller gets.
\<close>

fun load_json_or_quarantine ::
  "bool \<Rightarrow> 'd \<Rightarrow> 'd contents \<Rightarrow> 'd contents \<times> 'd contents option \<times> 'd res" where
  "load_json_or_quarantine rename_ok dflt Missing = (Missing, None, Ok dflt)"
| "load_json_or_quarantine rename_ok dflt Unreadable = (Unreadable, None, Err ''read'')"
| "load_json_or_quarantine rename_ok dflt Corrupt =
     (if rename_ok then (Missing, Some Corrupt, Ok dflt) else (Corrupt, None, Ok dflt))"
| "load_json_or_quarantine rename_ok dflt (Contents v) = (Contents v, None, Ok v)"

section \<open>What a write leaves on disk\<close>

text \<open>Whether the directory fsync after the rename is the call that failed.\<close>

definition fails_after_rename :: "fs_env \<Rightarrow> bool" where
  "fails_after_rename e \<longleftrightarrow>
     fs_mkdir e \<and> fs_open e \<and> fs_write e \<and> fs_rename e \<and> \<not> fs_no_fsync e \<and> fs_sync e \<and>
     \<not> fs_sync_parent e"

lemma atomic_write_local_Ok:
  "atomic_write_local e data t = (f, Ok u) \<Longrightarrow> f = Some data"
  by (auto simp: atomic_write_local_def split: if_splits)

lemma atomic_write_local_no_panic: "atomic_write_local e data t \<noteq> (f, Panic)"
  by (auto simp: atomic_write_local_def split: if_splits)

lemma atomic_write_local_Err:
  "atomic_write_local e data t = (f, Err m) \<Longrightarrow>
     f = (if fails_after_rename e then Some data else t)"
  by (auto simp: atomic_write_local_def fails_after_rename_def split: if_splits)

lemma atomic_write_local_cases:
  obtains u where "atomic_write_local e data t = (Some data, Ok u)"
  | m where "atomic_write_local e data t = (if fails_after_rename e then Some data else t, Err m)"
  by (cases "atomic_write_local e data t"; cases "snd (atomic_write_local e data t)")
     (auto dest: atomic_write_local_Ok atomic_write_local_Err simp: atomic_write_local_no_panic)

text \<open>The environments in which an error never leaves the new contents behind.\<close>

definition reliable :: "write_env \<Rightarrow> bool" where
  "reliable e \<longleftrightarrow>
     \<not> fails_after_rename (we_local e) \<and>
     (we_mirror e = Some False \<longrightarrow>
        fs_mkdir (we_rollback e) \<and> fs_open (we_rollback e) \<and> fs_write (we_rollback e) \<and>
        (fs_no_fsync (we_rollback e) \<or> fs_sync (we_rollback e)) \<and> fs_rename (we_rollback e))"

lemma atomic_write_Ok:
  assumes "atomic_write_with_mirror e data d = (d', Ok u)"
  shows "dk_file d' = Some data \<and> dk_mirror d' = (if we_mirror e = Some True then Some data else dk_mirror d)"
  using assms
  by (cases rule: atomic_write_local_cases [of "we_local e" data "dk_file d"])
     (auto simp: atomic_write_with_mirror_def Let_def
           split: if_splits option.splits bool.splits res.splits prod.splits)

lemma atomic_write_no_panic: "atomic_write_with_mirror e data d \<noteq> (d', Panic)"
  by (cases rule: atomic_write_local_cases [of "we_local e" data "dk_file d"])
     (auto simp: atomic_write_with_mirror_def Let_def atomic_write_local_no_panic
           split: if_splits option.splits bool.splits res.splits prod.splits)

lemma atomic_write_Err:
  assumes "atomic_write_with_mirror e data d = (d', Err m)" and "reliable e"
  shows "d' = d"
proof (cases rule: atomic_write_local_cases [of "we_local e" data "dk_file d"])
  case (1 u)
  have ok: "atomic_write_local (we_rollback e) p f = (f', r) \<Longrightarrow> we_mirror e = Some False \<Longrightarrow> f' = Some p"
    for p f f' r
    using assms(2) by (auto simp: reliable_def atomic_write_local_def split: if_splits)
  from 1 assms show ?thesis
    by (auto simp: atomic_write_with_mirror_def Let_def reliable_def dest!: ok
             split: if_splits option.splits bool.splits res.splits prod.splits)
next
  case (2 m')
  with assms show ?thesis
    by (auto simp: atomic_write_with_mirror_def reliable_def Let_def split: if_splits)
qed

text \<open>Whatever fails, the file holds a complete snapshot: the old one or the new one.\<close>

lemma atomic_write_never_torn:
  assumes "atomic_write_with_mirror e data d = (d', r)"
  shows "dk_file d' = dk_file d \<or> dk_file d' = Some data"
proof -
  have rb: "atomic_write_local b p f = (f', r') \<Longrightarrow> f' = Some p \<or> f' = f" for b p f f' r'
    by (auto simp: atomic_write_local_def split: if_splits)
  from assms show ?thesis
    by (cases rule: atomic_write_local_cases [of "we_local e" data "dk_file d"])
       (auto simp: atomic_write_with_mirror_def Let_def dest!: rb
             split: if_splits option.splits bool.splits res.splits prod.splits)
qed

end
