(* ===== verification/Tx_Store.thy ===== *)
theory Tx_Store
  imports Persistence
begin

text \<open>
  The shape every file-backed store of the program has: a value behind a lock, and a
  \<open>mutate_if_changed\<close> that clones it, runs a closure on it, writes a snapshot of the result
  with \<open>persistence::atomic_write\<close>, and puts the clone back when the write fails. A closure
  that returns an error, or that reports no change, is trusted to have left the value
  alone: nothing is put back then. The contract \<open>guarded_op\<close> states that trust, and each
  component interprets it on its own operations.
\<close>

section \<open>The store\<close>

text \<open>\<open>st_poisoned\<close>: a thread panicked while it held the lock, so every \<open>unwrap\<close> of it panics.\<close>

record ('m, 'd) tx_store =
  st_mem :: 'm
  st_disk :: "'d disk"
  st_poisoned :: bool

text \<open>\<open>persist\<close> of a store: no file path means nothing to write.\<close>

definition tx_persist :: "write_env option \<Rightarrow> 'd \<Rightarrow> 'd disk \<Rightarrow> 'd disk \<times> unit res" where
  "tx_persist e data d =
     (case e of None \<Rightarrow> (d, Ok ()) | Some w \<Rightarrow> atomic_write_with_mirror w data d)"

definition tx_mutate_if_changed ::
  "('m \<Rightarrow> 'd) \<Rightarrow> write_env option \<Rightarrow> ('m \<Rightarrow> 'm \<times> ('a \<times> bool) res) \<Rightarrow>
   ('m, 'd) tx_store \<Rightarrow> ('m, 'd) tx_store \<times> 'a res" where
  "tx_mutate_if_changed snap e mutation st =
     (if st_poisoned st then (st, Panic)
      else let previous = st_mem st in
        case mutation (st_mem st) of
          (m, Panic) \<Rightarrow> (st\<lparr>st_mem := m, st_poisoned := True\<rparr>, Panic)
        | (m, Err err) \<Rightarrow> (st\<lparr>st_mem := m\<rparr>, Err err)
        | (m, Ok (v, changed)) \<Rightarrow>
            if \<not> changed then (st\<lparr>st_mem := m\<rparr>, Ok v)
            else (case tx_persist e (snap m) (st_disk st) of
                    (d, Ok u) \<Rightarrow> (st\<lparr>st_mem := m, st_disk := d\<rparr>, Ok v)
                  | (d, Err err) \<Rightarrow> (st\<lparr>st_mem := previous, st_disk := d\<rparr>, Err err)
                  | (d, Panic) \<Rightarrow> (st\<lparr>st_mem := m, st_disk := d, st_poisoned := True\<rparr>, Panic)))"

text \<open>\<open>mutate\<close>: the same for a closure that always changes the value.\<close>

definition always_changed :: "('m \<Rightarrow> 'm \<times> 'a res) \<Rightarrow> 'm \<Rightarrow> 'm \<times> ('a \<times> bool) res" where
  "always_changed mutation m = (case mutation m of (m', r) \<Rightarrow> (m', res_map (\<lambda>v. (v, True)) r))"

definition tx_mutate ::
  "('m \<Rightarrow> 'd) \<Rightarrow> write_env option \<Rightarrow> ('m \<Rightarrow> 'm \<times> 'a res) \<Rightarrow>
   ('m, 'd) tx_store \<Rightarrow> ('m, 'd) tx_store \<times> 'a res" where
  "tx_mutate snap e mutation = tx_mutate_if_changed snap e (always_changed mutation)"

text \<open>A read of the value under the read lock.\<close>

definition tx_read :: "('m \<Rightarrow> 'a) \<Rightarrow> ('m, 'd) tx_store \<Rightarrow> 'a res" where
  "tx_read f st = (if st_poisoned st then Panic else Ok (f (st_mem st)))"

text \<open>A write that either succeeds or leaves the disk as it was.\<close>

definition env_reliable :: "write_env option \<Rightarrow> bool" where
  "env_reliable e = (case e of None \<Rightarrow> True | Some w \<Rightarrow> reliable w)"

text \<open>The state file holds a snapshot of the value in memory.\<close>

definition synced :: "('m \<Rightarrow> 'd) \<Rightarrow> ('m, 'd) tx_store \<Rightarrow> bool" where
  "synced snap st \<longleftrightarrow> dk_file (st_disk st) = Some (snap (st_mem st))"

text \<open>A write environment in which every call succeeds and no mirror is configured.\<close>

definition fs_all_ok :: fs_env where
  "fs_all_ok = \<lparr>fs_mkdir = True, fs_open = True, fs_write = True, fs_no_fsync = False,
                fs_sync = True, fs_rename = True, fs_sync_parent = True\<rparr>"

definition we_all_ok :: write_env where
  "we_all_ok = \<lparr>we_read = True, we_local = fs_all_ok, we_mirror = None, we_rollback = fs_all_ok\<rparr>"

definition we_disk_full :: write_env where
  "we_disk_full = we_all_ok\<lparr>we_local := fs_all_ok\<lparr>fs_write := False\<rparr>\<rparr>"

lemma reliable_we_all_ok [simp]: "reliable we_all_ok"
  by (simp add: reliable_def we_all_ok_def fs_all_ok_def fails_after_rename_def)

lemma reliable_we_disk_full [simp]: "reliable we_disk_full"
  by (simp add: reliable_def we_disk_full_def we_all_ok_def fs_all_ok_def fails_after_rename_def)

lemma atomic_write_all_ok [simp]:
  "atomic_write_with_mirror we_all_ok data d = (d\<lparr>dk_file := Some data\<rparr>, Ok ())"
  by (simp add: atomic_write_with_mirror_def atomic_write_local_def we_all_ok_def fs_all_ok_def Let_def)

lemma atomic_write_disk_full [simp]:
  "atomic_write_with_mirror we_disk_full data d = (d\<lparr>dk_file := dk_file d\<rparr>, Err ''write_all'')"
  by (simp add: atomic_write_with_mirror_def atomic_write_local_def we_disk_full_def we_all_ok_def
      fs_all_ok_def Let_def)

lemma env_reliable_simps [simp]:
  "env_reliable None"
  "env_reliable (Some w) \<longleftrightarrow> reliable w"
  by (simp_all add: env_reliable_def)

lemma tx_persist_simps [simp]:
  "tx_persist None data d = (d, Ok ())"
  "tx_persist (Some w) data d = atomic_write_with_mirror w data d"
  by (simp_all add: tx_persist_def)

section \<open>The phases of a mutation\<close>

text \<open>
  Whatever the closure and the disk do, a mutation ends in one of five ways; the case rule
  below is what every later proof splits on.
\<close>

lemma tx_persist_no_panic: "tx_persist e data d \<noteq> (d', Panic)"
  by (cases e) (simp_all add: atomic_write_no_panic)

lemma tx_mutate_cases [consumes 1, case_names Poisoned Panicked Failed Unchanged Stored Lost]:
  assumes "tx_mutate_if_changed snap e mutation st = (st', r)"
  obtains
    "st_poisoned st" "st' = st" "r = Panic"
  | m where "\<not> st_poisoned st" "mutation (st_mem st) = (m, Panic)" "r = Panic"
      "st' = st\<lparr>st_mem := m, st_poisoned := True\<rparr>"
  | m err where "\<not> st_poisoned st" "mutation (st_mem st) = (m, Err err)" "r = Err err"
      "st' = st\<lparr>st_mem := m\<rparr>"
  | m v where "\<not> st_poisoned st" "mutation (st_mem st) = (m, Ok (v, False))" "r = Ok v"
      "st' = st\<lparr>st_mem := m\<rparr>"
  | m v d u where "\<not> st_poisoned st" "mutation (st_mem st) = (m, Ok (v, True))" "r = Ok v"
      "tx_persist e (snap m) (st_disk st) = (d, Ok u)"
      "st' = st\<lparr>st_mem := m, st_disk := d\<rparr>"
  | m v d err where "\<not> st_poisoned st" "mutation (st_mem st) = (m, Ok (v, True))" "r = Err err"
      "tx_persist e (snap m) (st_disk st) = (d, Err err)"
      "st' = st\<lparr>st_disk := d\<rparr>"
proof (cases "st_poisoned st")
  case True
  with assms show ?thesis by (intro that(1)) (auto simp: tx_mutate_if_changed_def)
next
  case live: False
  obtain m q where mq: "mutation (st_mem st) = (m, q)" by fastforce
  show ?thesis
  proof (cases q)
    case Panic
    with assms live mq show ?thesis
      by (intro that(2) [of m]) (auto simp: tx_mutate_if_changed_def)
  next
    case (Err err)
    with assms live mq show ?thesis
      by (intro that(3) [of m err]) (auto simp: tx_mutate_if_changed_def)
  next
    case (Ok vc)
    obtain v c where vc: "vc = (v, c)" by (cases vc)
    obtain d p where dp: "tx_persist e (snap m) (st_disk st) = (d, p)" by fastforce
    show ?thesis
    proof (cases c)
      case False
      with assms live mq Ok vc show ?thesis
        by (intro that(4) [of m v]) (auto simp: tx_mutate_if_changed_def)
    next
      case True
      show ?thesis
      proof (cases p)
        case (Ok u)
        with assms live mq \<open>q = Ok vc\<close> vc True dp show ?thesis
          by (intro that(5) [of m v d u]) (auto simp: tx_mutate_if_changed_def)
      next
        case (Err err)
        with assms live mq \<open>q = Ok vc\<close> vc True dp show ?thesis
          by (intro that(6) [of m v err d]) (auto simp: tx_mutate_if_changed_def)
      next
        case Panic
        with dp show ?thesis by (simp add: tx_persist_no_panic)
      qed
    qed
  qed
qed

lemma tx_mutate_synced_step:
  assumes "tx_mutate_if_changed snap e mutation st = (st', Ok v)"
    and "mutation (st_mem st) = (m, Ok (w, True))" and "e = Some env"
  shows "synced snap st' \<and> st_mem st' = m \<and> v = w"
  using assms(1)
proof (cases rule: tx_mutate_cases)
  case (Stored m' v' d u)
  with assms(2,3) show ?thesis by (auto simp: synced_def dest: atomic_write_Ok)
qed (use assms(2) in auto)

definition store_sound :: "('m \<Rightarrow> 'd) \<Rightarrow> ('m \<Rightarrow> bool) \<Rightarrow> ('m, 'd) tx_store \<Rightarrow> bool" where
  "store_sound snap I st \<longleftrightarrow> \<not> st_poisoned st \<and> I (st_mem st) \<and> synced snap st"

section \<open>The contracts of an operation\<close>

text \<open>
  What \<open>mutate_if_changed\<close> relies on: an operation that fails or reports no change has not
  touched the value.
\<close>

locale clean_op =
  fixes oper :: "'m \<Rightarrow> 'm \<times> ('a \<times> bool) res"
  assumes oper_err: "oper m = (m', Err err) \<Longrightarrow> m' = m"
    and oper_unchanged: "oper m = (m', Ok (v, False)) \<Longrightarrow> m' = m"
begin

text \<open>An error, from the operation or from the disk, leaves the value in memory as it was.\<close>

lemma store_err:
  assumes "tx_mutate_if_changed snap e oper st = (st', Err err)"
  shows "st_mem st' = st_mem st"
  using assms by (cases rule: tx_mutate_cases) (auto dest: oper_err)

text \<open>Memory and file stay together when a failed write leaves the file alone.\<close>

lemma store_synced:
  assumes "tx_mutate_if_changed snap (Some w) oper st = (st', r)" and "r \<noteq> Panic"
    and "synced snap st" and "reliable w"
  shows "synced snap st'"
  using assms(1)
proof (cases rule: tx_mutate_cases)
  case (Stored m v d u)
  then show ?thesis by (auto simp: synced_def dest: atomic_write_Ok)
next
  case (Lost m v d err)
  with assms(3,4) show ?thesis by (auto simp: synced_def dest: atomic_write_Err)
qed (use assms(2,3) in \<open>auto simp: synced_def dest: oper_err oper_unchanged\<close>)

text \<open>Nothing happens, or exactly what the operation does happens.\<close>

lemma store_atomic:
  assumes "tx_mutate_if_changed snap e oper st = (st', r)" and "r \<noteq> Panic"
  shows "st_mem st' = st_mem st \<or> (\<exists>v. r = Ok v \<and> oper (st_mem st) = (st_mem st', Ok (v, True)))"
  using assms by (cases rule: tx_mutate_cases) (auto dest: oper_err oper_unchanged)

lemma store_refines:
  assumes "tx_mutate_if_changed snap e oper st = (st', Ok v)"
  shows "\<exists>b. oper (st_mem st) = (st_mem st', Ok (v, b))"
  using assms by (cases rule: tx_mutate_cases) auto

end

text \<open>
  The contract under an invariant of the value: on a value that satisfies it the operation
  is clean, does not panic, and leaves a value that satisfies it.
\<close>

locale guarded_op =
  fixes I :: "'m \<Rightarrow> bool"
    and oper :: "'m \<Rightarrow> 'm \<times> ('a \<times> bool) res"
  assumes on_err: "I m \<Longrightarrow> oper m = (m', Err err) \<Longrightarrow> m' = m"
    and on_unchanged: "I m \<Longrightarrow> oper m = (m', Ok (v, False)) \<Longrightarrow> m' = m"
    and on_changed: "I m \<Longrightarrow> oper m = (m', Ok (v, True)) \<Longrightarrow> I m'"
    and on_no_panic: "I m \<Longrightarrow> oper m \<noteq> (m', Panic)"
begin

lemma step_inv: "I m \<Longrightarrow> oper m = (m', r) \<Longrightarrow> I m'"
  by (cases r) (metis on_err on_unchanged on_changed on_no_panic surj_pair)+

lemma store_inv:
  assumes "tx_mutate_if_changed snap e oper st = (st', r)" and "I (st_mem st)"
  shows "I (st_mem st')"
  using assms(1)
  by (cases rule: tx_mutate_cases) (use assms(2) in \<open>auto dest: step_inv\<close>)

lemma store_err:
  assumes "tx_mutate_if_changed snap e oper st = (st', Err err)" and "I (st_mem st)"
  shows "st_mem st' = st_mem st"
  using assms(1)
  by (cases rule: tx_mutate_cases) (use assms(2) in \<open>auto dest: on_err\<close>)

lemma store_live:
  assumes "tx_mutate_if_changed snap e oper st = (st', r)" and "I (st_mem st)"
    and "\<not> st_poisoned st"
  shows "\<not> st_poisoned st' \<and> r \<noteq> Panic"
  using assms(1)
  by (cases rule: tx_mutate_cases) (use assms(2,3) in \<open>auto simp: on_no_panic\<close>)

lemma store_refines:
  assumes "tx_mutate_if_changed snap e oper st = (st', Ok v)"
  shows "\<exists>b. oper (st_mem st) = (st_mem st', Ok (v, b))"
  using assms by (cases rule: tx_mutate_cases) auto

lemma store_synced:
  assumes "tx_mutate_if_changed snap (Some w) oper st = (st', r)" and "I (st_mem st)"
    and "synced snap st" and "reliable w"
  shows "synced snap st'"
  using assms(1)
proof (cases rule: tx_mutate_cases)
  case (Stored m v d u)
  then show ?thesis by (auto simp: synced_def dest: atomic_write_Ok)
next
  case (Lost m v d err)
  with assms(3,4) show ?thesis by (auto simp: synced_def dest: atomic_write_Err)
qed (use assms(2,3) in \<open>auto simp: synced_def on_no_panic dest: on_err on_unchanged\<close>)

text \<open>The invariant of a whole store: alive, well formed, and the file agrees with memory.\<close>

lemma store_sound:
  assumes "tx_mutate_if_changed snap (Some w) oper st = (st', r)"
    and "store_sound snap I st" and "reliable w"
  shows "store_sound snap I st' \<and> r \<noteq> Panic \<and> (\<forall>err. r = Err err \<longrightarrow> st_mem st' = st_mem st)"
  using assms store_live [OF assms(1)] store_inv [OF assms(1)] store_synced [OF assms(1)]
    store_err [of snap "Some w" st st']
  by (auto simp: store_sound_def)

end

text \<open>The same for a call whose operation is known only up to an equation.\<close>

lemma guarded_call_sound:
  assumes "guarded_op I f" and "(st', r) = tx_mutate_if_changed snap (Some w) f st"
    and "store_sound snap I st" and "reliable w"
  shows "store_sound snap I st' \<and> r \<noteq> Panic \<and> (\<forall>err. r = Err err \<longrightarrow> st_mem st' = st_mem st)"
  by (rule guarded_op.store_sound [OF assms(1) assms(2) [symmetric] assms(3,4)])

text \<open>What one call keeps: the store stays sound, the call returns, a failed one changes nothing.\<close>

definition call_sound ::
  "('m \<Rightarrow> 'd) \<Rightarrow> ('m \<Rightarrow> bool) \<Rightarrow> ('m, 'd) tx_store \<Rightarrow> ('m, 'd) tx_store \<Rightarrow> outcome \<Rightarrow> bool" where
  "call_sound snap I st st' out \<longleftrightarrow>
     store_sound snap I st' \<and> out \<noteq> Panicked \<and> (\<forall>err. out = Failed err \<longrightarrow> st_mem st' = st_mem st)"

lemma call_sound_refused: "store_sound snap I st \<Longrightarrow> call_sound snap I st st (Failed err)"
  by (simp add: call_sound_def)

lemma call_sound_guarded:
  assumes "tx_mutate_if_changed snap (Some w) f st = (st', r)" and "guarded_op I f"
    and "store_sound snap I st" and "reliable w"
  shows "call_sound snap I st st' (outcome_of r)"
  using guarded_op.store_sound [OF assms(2,1,3,4)] by (simp add: call_sound_def)

text \<open>An invariant that holds of whatever the operation leaves, for one value.\<close>

lemma tx_store_inv:
  assumes "tx_mutate_if_changed snap e oper st = (st', r)" and "I (st_mem st)"
    and "\<And>m q. oper (st_mem st) = (m, q) \<Longrightarrow> I m"
  shows "I (st_mem st')"
  using assms(1) by (cases rule: tx_mutate_cases) (use assms(2,3) in auto)

text \<open>The same, up to a panic, which poisons the store.\<close>

lemma tx_store_inv_live:
  assumes "tx_mutate_if_changed snap e oper st = (st', r)" and "I (st_mem st)"
    and "\<And>m v b. oper (st_mem st) = (m, Ok (v, b)) \<Longrightarrow> I m"
    and "\<And>m err. oper (st_mem st) = (m, Err err) \<Longrightarrow> I m"
  shows "st_poisoned st' \<or> I (st_mem st')"
  using assms(1) by (cases rule: tx_mutate_cases) (use assms(2-4) in auto)

text \<open>A poisoned store stays poisoned and answers every call with a panic.\<close>

lemma tx_mutate_poisoned [simp]:
  "st_poisoned st \<Longrightarrow> tx_mutate_if_changed snap e oper st = (st, Panic)"
  by (simp add: tx_mutate_if_changed_def)

lemma tx_read_poisoned [simp]: "st_poisoned st \<Longrightarrow> tx_read f st = Panic"
  by (simp add: tx_read_def)

lemma tx_mutate_panic_poisons:
  "tx_mutate_if_changed snap e oper st = (st', Panic) \<Longrightarrow> st_poisoned st'"
  by (erule tx_mutate_cases) auto

text \<open>A guarded operation whose changes all go through \<open>mutate\<close>.\<close>

lemma always_changed_simps [simp]:
  "always_changed mut m = (m', Err err) \<longleftrightarrow> mut m = (m', Err err)"
  "always_changed mut m = (m', Panic) \<longleftrightarrow> mut m = (m', Panic)"
  "always_changed mut m = (m', Ok (v, b)) \<longleftrightarrow> b \<and> mut m = (m', Ok v)"
  by (auto simp: always_changed_def split: prod.splits) (auto simp: res_map_Ok_iff)

end
