(* ===== verification/Rust_F32.thy ===== *)
theory Rust_F32
  imports Complex_Main RR_Prelude
begin

text \<open>
  The \<open>f32\<close> values the program stores and compares. A finite value is its exact rational
  value (the sign of zero is not kept; no comparison sees it). No rounding operation is
  modelled here: the code that uses this theory only compares, takes maxima, and converts.
\<close>

datatype f32 = Fin rat | Infinite bool | NaN

fun f32_is_finite :: "f32 \<Rightarrow> bool" where
  "f32_is_finite (Fin q) = True"
| "f32_is_finite _ = False"

text \<open>\<open>a <= b\<close> on floats: false as soon as one is not a number.\<close>

fun f32_le :: "f32 \<Rightarrow> f32 \<Rightarrow> bool" where
  "f32_le (Fin p) (Fin q) = (p \<le> q)"
| "f32_le NaN _ = False"
| "f32_le _ NaN = False"
| "f32_le (Infinite s) b = (\<not> s \<or> b = Infinite True)"
| "f32_le (Fin p) (Infinite s) = s"

definition f32_lt :: "f32 \<Rightarrow> f32 \<Rightarrow> bool" where
  "f32_lt x y \<longleftrightarrow> f32_le x y \<and> \<not> f32_le y x"

text \<open>\<open>a.max(b)\<close>: the other argument when one is not a number.\<close>

fun f32_max :: "f32 \<Rightarrow> f32 \<Rightarrow> f32" where
  "f32_max NaN b = b"
| "f32_max a NaN = a"
| "f32_max a b = (if f32_le a b then b else a)"

text \<open>\<open>(0.0..=1.0).contains(&x)\<close>.\<close>

definition f32_in_unit :: "f32 \<Rightarrow> bool" where
  "f32_in_unit x \<longleftrightarrow> f32_le (Fin 0) x \<and> f32_le x (Fin 1)"

text \<open>The literal \<open>0.05_f32\<close>: the nearest single-precision value.\<close>

definition f32_0_05 :: f32 where
  "f32_0_05 = Fin (13421773 / 268435456)"

lemma f32_in_unit_Fin [simp]: "f32_in_unit (Fin q) \<longleftrightarrow> 0 \<le> q \<and> q \<le> 1"
  by (simp add: f32_in_unit_def)

lemma f32_in_unit_iff: "f32_in_unit x \<longleftrightarrow> (\<exists>q. x = Fin q \<and> 0 \<le> q \<and> q \<le> 1)"
  by (cases x) (auto simp: f32_in_unit_def)

lemma f32_0_05_in_unit [simp]: "f32_in_unit f32_0_05"
  by (simp add: f32_0_05_def)

lemma f32_max_in_unit: "f32_in_unit a \<Longrightarrow> f32_in_unit b \<Longrightarrow> f32_in_unit (f32_max a b)"
  by (auto simp: f32_in_unit_iff)

lemma f32_max_ge_right: "f32_in_unit a \<Longrightarrow> f32_in_unit b \<Longrightarrow> f32_le b (f32_max a b)"
  by (auto simp: f32_in_unit_iff)

end
