(* ===== verification/Task_Queue.thy ===== *)
theory Task_Queue
  imports Tx_Store Rust_F32 "HOL-Library.Char_ord" "HOL-Library.List_Lexorder"
    "HOL-Library.Product_Lexorder"
begin

text \<open>
  The persistent task queue of \<^verbatim>\<open>src/api/features.rs\<close> (\<open>Task\<close>, \<open>TaskQueue\<close>): tasks are
  claimed under a lease of limited duration, and only the holder of a live lease may report
  progress. This theory holds the data and the operations; \<open>Task_Queue_Proofs\<close> has the
  lemmas. The clock and the fresh UUIDs an operation reads are arguments.
\<close>

section \<open>Data\<close>

record memory_task_payload =
  mtp_user_id :: string
  mtp_agent_id :: string
  mtp_session_id :: string
  mtp_user_input :: string
  mtp_agent_response :: string

record task =
  tk_id :: string
  tk_name :: string
  tk_doc_id :: string
  tk_owner_id :: string
  tk_kb_id :: string
  tk_task_type :: string
  tk_digest :: string
  tk_memory_payload :: "memory_task_payload option"
  tk_status :: string
  tk_progress :: f32
  tk_message :: string
  tk_retry_count :: u32
  tk_max_retries :: u32
  tk_cancel_requested :: bool
  tk_priority :: int
  tk_worker_id :: string
  tk_lease_token :: string
  tk_lease_expires_at :: u64
  tk_created_at :: u64
  tk_updated_at :: u64
  tk_started_at :: u64
  tk_finished_at :: u64

record task_view =
  tv_id :: string
  tv_name :: string
  tv_doc_id :: string
  tv_owner_id :: string
  tv_kb_id :: string
  tv_task_type :: string
  tv_digest :: string
  tv_status :: string
  tv_progress :: f32
  tv_message :: string
  tv_retry_count :: u32
  tv_max_retries :: u32
  tv_cancel_requested :: bool
  tv_priority :: int
  tv_created_at :: u64
  tv_updated_at :: u64
  tv_started_at :: u64
  tv_finished_at :: u64

definition task_view_from :: "task \<Rightarrow> task_view" where
  "task_view_from t =
     \<lparr>tv_id = tk_id t, tv_name = tk_name t, tv_doc_id = tk_doc_id t,
      tv_owner_id = tk_owner_id t, tv_kb_id = tk_kb_id t, tv_task_type = tk_task_type t,
      tv_digest = tk_digest t, tv_status = tk_status t, tv_progress = tk_progress t,
      tv_message = tk_message t, tv_retry_count = tk_retry_count t,
      tv_max_retries = tk_max_retries t, tv_cancel_requested = tk_cancel_requested t,
      tv_priority = tk_priority t, tv_created_at = tk_created_at t,
      tv_updated_at = tk_updated_at t, tv_started_at = tk_started_at t,
      tv_finished_at = tk_finished_at t\<rparr>"

record memory_task_view =
  mtv_id :: string
  mtv_doc_id :: string
  mtv_from_page :: nat
  mtv_progress :: f32
  mtv_progress_msg :: string
  mtv_digest :: string
  mtv_chunk_ids :: string
  mtv_create_time :: u64

text \<open>\<open>debug_assert_eq!(task.task_type, "memory")\<close> is not compiled in a release build.\<close>

definition memory_task_view_from :: "task \<Rightarrow> memory_task_view" where
  "memory_task_view_from t =
     \<lparr>mtv_id = tk_id t, mtv_doc_id = tk_doc_id t, mtv_from_page = 0,
      mtv_progress =
        (if tk_status t \<in> {''failed'', ''cancelled''} then Fin (- 1) else tk_progress t),
      mtv_progress_msg = tk_message t, mtv_digest = tk_digest t, mtv_chunk_ids = [],
      mtv_create_time = tk_created_at t\<rparr>"

record task_lease =
  tl_token :: string
  tl_attempt :: u32

definition default_max_retries :: u32 where
  "default_max_retries = 3"

definition default_task_type :: string where
  "default_task_type = ''document_parse''"

definition TASK_MAX_LOG_LENGTH :: nat where
  "TASK_MAX_LOG_LENGTH = 3000"

definition TASK_PRIORITY_LOW :: int where
  "TASK_PRIORITY_LOW = 0"

definition TASK_PRIORITY_HIGH :: int where
  "TASK_PRIORITY_HIGH = 1"

definition TASK_PRIORITY_AGING_MS :: u64 where
  "TASK_PRIORITY_AGING_MS = 60000"

text \<open>\<open>matches!(status, "done" | "failed" | "cancelled")\<close>.\<close>

definition terminal_status :: "string \<Rightarrow> bool" where
  "terminal_status s \<longleftrightarrow> s \<in> {''done'', ''failed'', ''cancelled''}"

definition valid_priority :: "int \<Rightarrow> bool" where
  "valid_priority p \<longleftrightarrow> p = TASK_PRIORITY_LOW \<or> p = TASK_PRIORITY_HIGH"

definition new_task ::
  "string \<Rightarrow> string \<Rightarrow> string \<Rightarrow> string \<Rightarrow> string \<Rightarrow> string \<Rightarrow> int \<Rightarrow> u64 \<Rightarrow> task" where
  "new_task uuid owner name doc kb ttype priority now =
     \<lparr>tk_id = uuid, tk_name = name, tk_doc_id = doc, tk_owner_id = owner, tk_kb_id = kb,
      tk_task_type = ttype, tk_digest = [], tk_memory_payload = None,
      tk_status = ''pending'', tk_progress = Fin 0, tk_message = ''Queued'',
      tk_retry_count = 0, tk_max_retries = default_max_retries,
      tk_cancel_requested = False, tk_priority = priority, tk_worker_id = [],
      tk_lease_token = [], tk_lease_expires_at = 0, tk_created_at = now,
      tk_updated_at = now, tk_started_at = 0, tk_finished_at = 0\<rparr>"

definition clear_task_lease :: "task \<Rightarrow> task" where
  "clear_task_lease t = t\<lparr>tk_worker_id := [], tk_lease_token := [], tk_lease_expires_at := 0\<rparr>"

text \<open>
  \<open>append_task_message\<close>: the log keeps its last 3000 bytes, from a line start when there is
  one. The slice at \<open>cutoff\<close> panics inside a multi-byte character; the message has been
  appended by then.
\<close>

definition append_task_message :: "string \<Rightarrow> string \<Rightarrow> string \<times> unit res" where
  "append_task_message current msg =
     (if msg = [] \<or> current = msg then (current, Ok ())
      else let current = (if current = [] then msg else current @ [CHR 0x0A] @ msg)
        in if length current \<le> TASK_MAX_LOG_LENGTH then (current, Ok ())
        else let cutoff = length current - TASK_MAX_LOG_LENGTH
          in case slice_from current cutoff of
               Ok tail \<Rightarrow>
                 (let boundary = (case find_char (CHR 0x0A) tail of
                                    Some offset \<Rightarrow> cutoff + offset + 1 | None \<Rightarrow> cutoff)
                  in (drop boundary current, Ok ()))
             | Err e \<Rightarrow> (current, Err e)
             | Panic \<Rightarrow> (current, Panic))"

definition effective_priority :: "task \<Rightarrow> u64 \<Rightarrow> int" where
  "effective_priority t now =
     (if tk_priority t = TASK_PRIORITY_HIGH
         \<or> TASK_PRIORITY_AGING_MS \<le> sat_sub now (tk_created_at t)
      then TASK_PRIORITY_HIGH else TASK_PRIORITY_LOW)"

text \<open>
  The queue: the stored vector with its file, the set of tasks a local future runs, and
  whether \<open>notify_one\<close> left a permit for the dispatcher.
\<close>

record task_queue =
  tq_store :: "(task list, task list) tx_store"
  tq_active :: "string list"
  tq_permit :: bool

abbreviation tq_tasks :: "task_queue \<Rightarrow> task list" where
  "tq_tasks q \<equiv> st_mem (tq_store q)"

definition tq_mutate_if_changed ::
  "write_env option \<Rightarrow> (task list \<Rightarrow> task list \<times> ('a \<times> bool) res) \<Rightarrow>
   task_queue \<Rightarrow> task_queue \<times> 'a res" where
  "tq_mutate_if_changed e mutation q =
     (case tx_mutate_if_changed (\<lambda>ts. ts) e mutation (tq_store q) of
        (st, r) \<Rightarrow> (q\<lparr>tq_store := st\<rparr>, r))"

definition tq_mutate ::
  "write_env option \<Rightarrow> (task list \<Rightarrow> task list \<times> 'a res) \<Rightarrow>
   task_queue \<Rightarrow> task_queue \<times> 'a res" where
  "tq_mutate e mutation = tq_mutate_if_changed e (always_changed mutation)"

definition notify_one :: "task_queue \<Rightarrow> task_queue" where
  "notify_one q = q\<lparr>tq_permit := True\<rparr>"

section \<open>Start-up\<close>

text \<open>What \<open>TaskQueue::new\<close> does to each task it loads.\<close>

definition recover_task :: "u64 \<Rightarrow> task \<Rightarrow> task" where
  "recover_task now t0 =
     (let t = (if tk_task_type t0 = []
               then t0\<lparr>tk_task_type := default_task_type, tk_updated_at := now\<rparr> else t0)
      in if tk_status t = ''running'' \<and> tk_lease_expires_at t \<le> now then
           (let t = clear_task_lease t in
            if tk_max_retries t \<le> tk_retry_count t then
              t\<lparr>tk_status := ''failed'', tk_progress := Fin 1,
                tk_message := ''Retry limit reached after worker lease expired'',
                tk_updated_at := now\<rparr>
            else
              t\<lparr>tk_status := ''pending'', tk_message := ''Recovered expired worker lease'',
                tk_updated_at := now\<rparr>)
         else if tk_status t = ''pending'' \<and> tk_max_retries t \<le> tk_retry_count t then
           t\<lparr>tk_status := ''failed'', tk_progress := Fin 1,
             tk_message := ''Retry limit reached'', tk_updated_at := now\<rparr>
         else t)"

text \<open>
  \<open>TaskQueue::new\<close> on what the path holds after \<open>restore_if_missing\<close> (\<open>file\<close>) and the disk
  that was left: reading it is \<open>load_json\<close> with its messages.
\<close>

definition task_queue_new ::
  "u64 \<Rightarrow> write_env option \<Rightarrow> task list contents \<Rightarrow> task list disk \<Rightarrow>
   task list disk \<times> task_queue res" where
  "task_queue_new now e file d =
     (case load_json file of
        Ok loaded \<Rightarrow>
          (let tasks = map (recover_task now) (case loaded of None \<Rightarrow> [] | Some ts \<Rightarrow> ts)
           in case tx_persist e tasks d of
                (d', Ok u) \<Rightarrow>
                  (d', Ok \<lparr>tq_store = \<lparr>st_mem = tasks, st_disk = d', st_poisoned = False\<rparr>,
                           tq_active = [], tq_permit = False\<rparr>)
              | (d', Err err) \<Rightarrow> (d', Err err)
              | (d', Panic) \<Rightarrow> (d', Panic))
      | Err err \<Rightarrow> (d, Err err)
      | Panic \<Rightarrow> (d, Panic))"

text \<open>\<open>activate\<close>, and the \<open>Drop\<close> of the guard it returns.\<close>

definition tq_activate :: "string \<Rightarrow> task_queue \<Rightarrow> task_queue \<times> bool" where
  "tq_activate i q =
     (if i \<in> set (tq_active q) then (q, False) else (q\<lparr>tq_active := i # tq_active q\<rparr>, True))"

definition tq_deactivate :: "string \<Rightarrow> task_queue \<Rightarrow> task_queue" where
  "tq_deactivate i q = notify_one (q\<lparr>tq_active := removeAll i (tq_active q)\<rparr>)"

section \<open>Reads\<close>

text \<open>These run under the read lock, \<open>tx_read\<close>; here is what they compute from the vector.\<close>

definition find_task :: "string \<Rightarrow> task list \<Rightarrow> task option" where
  "find_task i ts = find (\<lambda>t. tk_id t = i) ts"

definition tq_get :: "string \<Rightarrow> task_queue \<Rightarrow> task option res" where
  "tq_get i q = tx_read (find_task i) (tq_store q)"

definition tq_list_for :: "string \<Rightarrow> bool \<Rightarrow> task_queue \<Rightarrow> task list res" where
  "tq_list_for owner is_admin q =
     tx_read (filter (\<lambda>t. tk_owner_id t = owner \<or> (is_admin \<and> tk_owner_id t = []))) (tq_store q)"

definition tq_public_list_for :: "string \<Rightarrow> bool \<Rightarrow> task_queue \<Rightarrow> task_view list res" where
  "tq_public_list_for owner is_admin q = res_map (map task_view_from) (tq_list_for owner is_admin q)"

text \<open>The \<open>BTreeMap\<close> of progress rows: later tasks overwrite earlier ones.\<close>

definition tasks_by_digest :: "string \<Rightarrow> task list \<Rightarrow> int \<Rightarrow> memory_task_view option" where
  "tasks_by_digest memory_id ts =
     fold (\<lambda>t m. case parse_i64 (tk_digest t) of
                    None \<Rightarrow> m | Some src \<Rightarrow> m(src \<mapsto> memory_task_view_from t))
       (sort_key (\<lambda>t. (tk_created_at t, tk_id t))
          (filter (\<lambda>t. tk_task_type t = ''memory'' \<and> tk_doc_id t = memory_id) ts))
       Map.empty"

definition tq_memory_tasks_by_digest ::
  "string \<Rightarrow> task_queue \<Rightarrow> (int \<Rightarrow> memory_task_view option) res" where
  "tq_memory_tasks_by_digest memory_id q = tx_read (tasks_by_digest memory_id) (tq_store q)"

definition tq_staged_memory_tasks :: "task_queue \<Rightarrow> task list res" where
  "tq_staged_memory_tasks q =
     tx_read (filter (\<lambda>t. tk_task_type t = ''memory'' \<and> tk_status t = ''staging'')) (tq_store q)"

definition tq_accessible :: "string \<Rightarrow> string \<Rightarrow> bool \<Rightarrow> task_queue \<Rightarrow> bool res" where
  "tq_accessible i owner is_admin q =
     tx_read (\<lambda>ts. case find_task i ts of
        None \<Rightarrow> False
      | Some t \<Rightarrow> tk_owner_id t = owner \<or> (is_admin \<and> tk_owner_id t = [])) (tq_store q)"

text \<open>A task a worker may claim now.\<close>

definition claimable :: "u64 \<Rightarrow> task \<Rightarrow> bool" where
  "claimable now t \<longleftrightarrow>
     (tk_status t = ''pending'' \<or> (tk_status t = ''running'' \<and> tk_lease_expires_at t \<le> now))
     \<and> \<not> tk_cancel_requested t \<and> tk_retry_count t < tk_max_retries t"

definition pending_tasks :: "u64 \<Rightarrow> task list \<Rightarrow> task list" where
  "pending_tasks now ts =
     sort_key (\<lambda>t. (- effective_priority t now, tk_created_at t, tk_id t))
       (filter (claimable now) ts)"

definition tq_pending_at :: "u64 \<Rightarrow> task_queue \<Rightarrow> task list res" where
  "tq_pending_at now q = tx_read (pending_tasks now) (tq_store q)"

definition lease_owned :: "u64 \<Rightarrow> string \<Rightarrow> string \<Rightarrow> task list \<Rightarrow> bool" where
  "lease_owned now i token ts =
     (case find_task i ts of
        None \<Rightarrow> False
      | Some t \<Rightarrow> tk_status t = ''running'' \<and> \<not> tk_cancel_requested t
                  \<and> tk_lease_token t = token \<and> now < tk_lease_expires_at t)"

definition tq_owns_lease :: "u64 \<Rightarrow> string \<Rightarrow> string \<Rightarrow> task_queue \<Rightarrow> bool res" where
  "tq_owns_lease now i token q = tx_read (lease_owned now i token) (tq_store q)"

definition tq_is_cancelled :: "string \<Rightarrow> task_queue \<Rightarrow> bool res" where
  "tq_is_cancelled i q =
     tx_read (\<lambda>ts. case find_task i ts of None \<Rightarrow> False | Some t \<Rightarrow> tk_cancel_requested t)
       (tq_store q)"

definition tq_can_retry :: "string \<Rightarrow> task_queue \<Rightarrow> bool res" where
  "tq_can_retry i q =
     tx_read (\<lambda>ts. case find_task i ts of
        None \<Rightarrow> False
      | Some t \<Rightarrow> \<not> tk_cancel_requested t \<and> tk_retry_count t < tk_max_retries t) (tq_store q)"

section \<open>Enqueueing\<close>

abbreviation upd_task :: "string \<Rightarrow> task \<Rightarrow> task list \<Rightarrow> task list" where
  "upd_task i t' ts \<equiv> modify_first (\<lambda>t. tk_id t = i) (\<lambda>_. t') ts"

text \<open>The closures given to \<open>mutate_if_changed\<close>, one per operation, are named \<open>*_step\<close>.\<close>

definition push_step :: "task \<Rightarrow> task list \<Rightarrow> task list \<times> unit res" where
  "push_step t ts = (ts @ [t], Ok ())"

definition live_document_task :: "string \<Rightarrow> task \<Rightarrow> bool" where
  "live_document_task doc t \<longleftrightarrow>
     tk_task_type t = ''document_parse'' \<and> tk_doc_id t = doc
     \<and> (tk_status t = ''pending'' \<or> tk_status t = ''running'') \<and> \<not> tk_cancel_requested t"

definition refresh_live_task :: "u64 \<Rightarrow> string \<Rightarrow> int \<Rightarrow> task \<Rightarrow> task \<times> bool" where
  "refresh_live_task now kb priority t0 =
     (let changed = (tk_status t0 = ''pending'' \<and> tk_priority t0 < priority);
          t = (if tk_priority t0 < priority then t0\<lparr>tk_priority := priority\<rparr> else t0);
          fill = (tk_kb_id t = [] \<and> kb \<noteq> []);
          t = (if fill then t\<lparr>tk_kb_id := kb\<rparr> else t);
          changed = (changed \<or> fill);
          t = (if changed then t\<lparr>tk_updated_at := now\<rparr> else t)
      in (t, changed))"

definition push_document_unique_step ::
  "u64 \<Rightarrow> string \<Rightarrow> string \<Rightarrow> string \<Rightarrow> string \<Rightarrow> string \<Rightarrow> int \<Rightarrow>
   task list \<Rightarrow> task list \<times> ((string \<times> bool \<times> bool) \<times> bool) res" where
  "push_document_unique_step now uuid owner name doc kb priority ts =
     (case find (live_document_task doc) ts of
        Some t \<Rightarrow>
          (let (t', changed) = refresh_live_task now kb priority t
           in (modify_first (live_document_task doc) (\<lambda>_. t') ts,
               Ok ((tk_id t, False, changed), changed)))
      | None \<Rightarrow>
          (ts @ [new_task uuid owner name doc kb ''document_parse'' priority now],
           Ok ((uuid, True, True), True)))"

definition tq_push_document_unique ::
  "write_env option \<Rightarrow> u64 \<Rightarrow> string \<Rightarrow> string \<Rightarrow> string \<Rightarrow> string \<Rightarrow> string \<Rightarrow> int \<Rightarrow>
   task_queue \<Rightarrow> task_queue \<times> (string \<times> bool) res" where
  "tq_push_document_unique e now uuid owner name doc kb priority q =
     (if \<not> valid_priority priority
      then (q, Err ''Task priority must be 0 (low) or 1 (high)'')
      else case tq_mutate_if_changed e
             (push_document_unique_step now uuid owner name doc kb priority) q of
          (q', Ok (i, created, changed)) \<Rightarrow>
            (if changed then notify_one q' else q', Ok (i, created))
        | (q', Err err) \<Rightarrow> (q', Err err)
        | (q', Panic) \<Rightarrow> (q', Panic))"

definition tq_push_with_priority ::
  "write_env option \<Rightarrow> u64 \<Rightarrow> string \<Rightarrow> string \<Rightarrow> string \<Rightarrow> string \<Rightarrow> int \<Rightarrow>
   task_queue \<Rightarrow> task_queue \<times> string res" where
  "tq_push_with_priority e now uuid owner name doc priority q =
     (if \<not> valid_priority priority
      then (q, Err ''Task priority must be 0 (low) or 1 (high)'')
      else case tq_mutate e
             (push_step (new_task uuid owner name doc [] ''document_parse'' priority now)) q of
          (q', Ok u) \<Rightarrow> (notify_one q', Ok uuid)
        | (q', Err err) \<Rightarrow> (q', Err err)
        | (q', Panic) \<Rightarrow> (q', Panic))"

definition tq_push ::
  "write_env option \<Rightarrow> u64 \<Rightarrow> string \<Rightarrow> string \<Rightarrow> string \<Rightarrow> string \<Rightarrow>
   task_queue \<Rightarrow> task_queue \<times> string res" where
  "tq_push e now uuid owner name doc q =
     tq_push_with_priority e now uuid owner name doc TASK_PRIORITY_LOW q"

section \<open>Memory tasks\<close>

definition staged_memory_task ::
  "u64 \<Rightarrow> string \<Rightarrow> string \<Rightarrow> string \<Rightarrow> int \<Rightarrow> memory_task_payload \<Rightarrow> task" where
  "staged_memory_task now uuid owner memory_id src payload =
     (new_task uuid owner ''Extract memory'' memory_id [] ''memory'' TASK_PRIORITY_LOW now)
       \<lparr>tk_digest := nat_to_str (nat src), tk_memory_payload := Some payload,
        tk_status := ''staging'', tk_message := ''Staging memory extraction''\<rparr>"

text \<open>\<open>source_message_id\<close> is an \<open>i64\<close>; only a positive one reaches \<open>to_string\<close>.\<close>

definition tq_stage_memory_task ::
  "write_env option \<Rightarrow> u64 \<Rightarrow> string \<Rightarrow> string \<Rightarrow> string \<Rightarrow> int \<Rightarrow> memory_task_payload \<Rightarrow>
   task_queue \<Rightarrow> task_queue \<times> string res" where
  "tq_stage_memory_task e now uuid owner memory_id src payload q =
     (if memory_id = [] \<or> src \<le> 0
      then (q, Err ''Memory id and positive source message id are required'')
      else case tq_mutate e (push_step (staged_memory_task now uuid owner memory_id src payload)) q of
          (q', r) \<Rightarrow> (q', res_map (\<lambda>_. uuid) r))"

definition publish_memory_step ::
  "u64 \<Rightarrow> string \<Rightarrow> task list \<Rightarrow> task list \<times> (bool \<times> bool) res" where
  "publish_memory_step now i ts =
     (case find (\<lambda>t. tk_id t = i \<and> tk_task_type t = ''memory'') ts of
        None \<Rightarrow> (ts, Ok (False, False))
      | Some t \<Rightarrow>
          if tk_status t \<noteq> ''staging'' then (ts, Ok (False, False))
          else (modify_first (\<lambda>t. tk_id t = i \<and> tk_task_type t = ''memory'')
                  (\<lambda>_. t\<lparr>tk_status := ''pending'', tk_progress := Fin 0,
                         tk_message := ''Queued'', tk_updated_at := now\<rparr>) ts,
                Ok (True, True)))"

definition tq_publish_memory_task ::
  "write_env option \<Rightarrow> u64 \<Rightarrow> string \<Rightarrow> task_queue \<Rightarrow> task_queue \<times> bool res" where
  "tq_publish_memory_task e now i q =
     (case tq_mutate_if_changed e (publish_memory_step now i) q of
        (q', r) \<Rightarrow> (if r = Ok True then notify_one q' else q', r))"

definition discard_staged_step ::
  "string \<Rightarrow> task list \<Rightarrow> task list \<times> (bool \<times> bool) res" where
  "discard_staged_step i ts =
     (let kept = filter (\<lambda>t. \<not> (tk_id t = i \<and> tk_task_type t = ''memory''
                                  \<and> tk_status t = ''staging'')) ts;
          changed = (length kept \<noteq> length ts)
      in (kept, Ok (changed, changed)))"

definition tq_discard_staged_memory_task ::
  "write_env option \<Rightarrow> string \<Rightarrow> task_queue \<Rightarrow> task_queue \<times> bool res" where
  "tq_discard_staged_memory_task e i q = tq_mutate_if_changed e (discard_staged_step i) q"

section \<open>Leases\<close>

definition claimed_task :: "u64 \<Rightarrow> string \<Rightarrow> string \<Rightarrow> u64 \<Rightarrow> string \<Rightarrow> task \<Rightarrow> task" where
  "claimed_task now token worker duration msg t =
     t\<lparr>tk_retry_count := tk_retry_count t + 1, tk_status := ''running'',
       tk_progress := f32_0_05, tk_message := msg, tk_worker_id := worker,
       tk_lease_token := token, tk_lease_expires_at := sat_add now duration,
       tk_started_at := (if tk_started_at t = 0 then now else tk_started_at t),
       tk_finished_at := 0, tk_updated_at := now\<rparr>"

definition claim_step ::
  "u64 \<Rightarrow> string \<Rightarrow> string \<Rightarrow> string \<Rightarrow> u64 \<Rightarrow> string \<Rightarrow>
   task list \<Rightarrow> task list \<times> (task_lease option \<times> bool) res" where
  "claim_step now token i worker duration msg ts =
     (case find_task i ts of
        None \<Rightarrow> (ts, Ok (None, False))
      | Some t \<Rightarrow>
          if \<not> claimable now t then (ts, Ok (None, False))
          else let t' = claimed_task now token worker duration msg t
            in (upd_task i t' ts,
                Ok (Some \<lparr>tl_token = tk_lease_token t', tl_attempt = tk_retry_count t'\<rparr>, True)))"

definition tq_claim ::
  "write_env option \<Rightarrow> u64 \<Rightarrow> string \<Rightarrow> string \<Rightarrow> string \<Rightarrow> u64 \<Rightarrow> string \<Rightarrow>
   task_queue \<Rightarrow> task_queue \<times> task_lease option res" where
  "tq_claim e now token i worker duration msg q =
     (if worker = [] \<or> duration = 0
      then (q, Err ''Worker id and positive lease duration are required'')
      else tq_mutate_if_changed e (claim_step now token i worker duration msg) q)"

definition renew_step ::
  "u64 \<Rightarrow> string \<Rightarrow> string \<Rightarrow> u64 \<Rightarrow> task list \<Rightarrow> task list \<times> (bool \<times> bool) res" where
  "renew_step now i token duration ts =
     (case find_task i ts of
        None \<Rightarrow> (ts, Ok (False, False))
      | Some t \<Rightarrow>
          if tk_status t \<noteq> ''running'' \<or> tk_cancel_requested t \<or> tk_lease_token t \<noteq> token
             \<or> tk_lease_expires_at t \<le> now
          then (ts, Ok (False, False))
          else (upd_task i (t\<lparr>tk_lease_expires_at := sat_add now duration,
                              tk_updated_at := now\<rparr>) ts, Ok (True, True)))"

definition tq_renew_lease ::
  "write_env option \<Rightarrow> u64 \<Rightarrow> string \<Rightarrow> string \<Rightarrow> u64 \<Rightarrow> task_queue \<Rightarrow> task_queue \<times> bool res" where
  "tq_renew_lease e now i token duration q =
     (if duration = 0 then (q, Ok False)
      else tq_mutate_if_changed e (renew_step now i token duration) q)"

text \<open>What the end of \<open>update\<close> and \<open>update_claimed\<close> does with the new status.\<close>

definition settle_status :: "string \<Rightarrow> task \<Rightarrow> task" where
  "settle_status status t =
     (if terminal_status status then clear_task_lease (t\<lparr>tk_finished_at := tk_updated_at t\<rparr>)
      else if status \<noteq> ''running'' then clear_task_lease (t\<lparr>tk_finished_at := 0\<rparr>)
      else t)"

text \<open>The clock is read twice: for the lease check and for \<open>updated_at\<close>.\<close>

definition update_claimed_step ::
  "u64 \<Rightarrow> u64 \<Rightarrow> string \<Rightarrow> string \<Rightarrow> string \<Rightarrow> f32 \<Rightarrow> string \<Rightarrow>
   task list \<Rightarrow> task list \<times> (bool \<times> bool) res" where
  "update_claimed_step now now' i token status progress msg ts =
     (case find_task i ts of
        None \<Rightarrow> (ts, Ok (False, False))
      | Some t \<Rightarrow>
          if tk_status t \<noteq> ''running'' \<or> tk_lease_token t \<noteq> token \<or> tk_lease_expires_at t \<le> now
          then (ts, Ok (False, False))
          else if \<not> f32_is_finite progress \<or> \<not> f32_in_unit progress
          then (ts, Err ''Task progress must be finite and between 0 and 1'')
          else
            let progress = (if status = ''running'' then f32_max progress (tk_progress t)
                            else progress);
                t = t\<lparr>tk_status := status, tk_progress := progress\<rparr>
            in case append_task_message (tk_message t) msg of
                 (m, Ok u) \<Rightarrow>
                   (upd_task i (settle_status status (t\<lparr>tk_message := m, tk_updated_at := now'\<rparr>)) ts,
                    Ok (True, True))
               | (m, Err err) \<Rightarrow> (upd_task i (t\<lparr>tk_message := m\<rparr>) ts, Err err)
               | (m, Panic) \<Rightarrow> (upd_task i (t\<lparr>tk_message := m\<rparr>) ts, Panic))"

definition tq_update_claimed ::
  "write_env option \<Rightarrow> u64 \<Rightarrow> u64 \<Rightarrow> string \<Rightarrow> string \<Rightarrow> string \<Rightarrow> f32 \<Rightarrow> string \<Rightarrow>
   task_queue \<Rightarrow> task_queue \<times> bool res" where
  "tq_update_claimed e now now' i token status progress msg q =
     tq_mutate_if_changed e (update_claimed_step now now' i token status progress msg) q"

definition update_step ::
  "u64 \<Rightarrow> string \<Rightarrow> string \<Rightarrow> f32 \<Rightarrow> string \<Rightarrow> task list \<Rightarrow> task list \<times> (bool \<times> bool) res" where
  "update_step now i status progress msg ts =
     (case find_task i ts of
        None \<Rightarrow> (ts, Ok (False, False))
      | Some t \<Rightarrow>
          (upd_task i (settle_status status
             (t\<lparr>tk_status := status, tk_progress := progress, tk_message := msg,
                tk_updated_at := now\<rparr>)) ts, Ok (True, True)))"

definition tq_update ::
  "write_env option \<Rightarrow> u64 \<Rightarrow> string \<Rightarrow> string \<Rightarrow> f32 \<Rightarrow> string \<Rightarrow>
   task_queue \<Rightarrow> task_queue \<times> bool res" where
  "tq_update e now i status progress msg q =
     tq_mutate_if_changed e (update_step now i status progress msg) q"

section \<open>Cancelling\<close>

definition request_cancel_step ::
  "u64 \<Rightarrow> string \<Rightarrow> task list \<Rightarrow> task list \<times> (bool \<times> bool) res" where
  "request_cancel_step now i ts =
     (case find_task i ts of
        None \<Rightarrow> (ts, Ok (False, False))
      | Some t \<Rightarrow>
          if terminal_status (tk_status t) then (ts, Ok (False, False))
          else
            let t = t\<lparr>tk_cancel_requested := True, tk_status := ''cancelled''\<rparr>
            in case append_task_message (tk_message t) ''Task stopped by user.'' of
                 (m, Ok u) \<Rightarrow>
                   (upd_task i (clear_task_lease
                      (t\<lparr>tk_message := m, tk_updated_at := now, tk_finished_at := now\<rparr>)) ts,
                    Ok (True, True))
               | (m, Err err) \<Rightarrow> (upd_task i (t\<lparr>tk_message := m\<rparr>) ts, Err err)
               | (m, Panic) \<Rightarrow> (upd_task i (t\<lparr>tk_message := m\<rparr>) ts, Panic))"

definition tq_request_cancel ::
  "write_env option \<Rightarrow> u64 \<Rightarrow> string \<Rightarrow> task_queue \<Rightarrow> task_queue \<times> bool res" where
  "tq_request_cancel e now i q = tq_mutate_if_changed e (request_cancel_step now i) q"

text \<open>
  The loop of \<open>cancel_document\<close> and \<open>cancel_memory\<close>: every task of one type and document
  that is not finished is cancelled. The two differ in the type and in the message.
\<close>

definition cancel_owned :: "u64 \<Rightarrow> string \<Rightarrow> task \<Rightarrow> task" where
  "cancel_owned now msg t =
     clear_task_lease (t\<lparr>tk_cancel_requested := True, tk_status := ''cancelled'',
       tk_message := msg, tk_updated_at := now, tk_finished_at := now\<rparr>)"

fun cancel_loop :: "(task \<Rightarrow> bool) \<Rightarrow> u64 \<Rightarrow> string \<Rightarrow> task list \<Rightarrow> task list \<times> nat" where
  "cancel_loop sel now msg [] = ([], 0)"
| "cancel_loop sel now msg (t # ts) =
     (let (ts', n) = cancel_loop sel now msg ts
      in if sel t \<and> \<not> terminal_status (tk_status t)
         then (cancel_owned now msg t # ts', Suc n) else (t # ts', n))"

definition cancel_document_step ::
  "u64 \<Rightarrow> string \<Rightarrow> task list \<Rightarrow> task list \<times> (nat \<times> bool) res" where
  "cancel_document_step now doc ts =
     (let (ts', n) = cancel_loop (\<lambda>t. tk_task_type t = ''document_parse'' \<and> tk_doc_id t = doc)
                       now ''Document deleted'' ts
      in (ts', Ok (n, 0 < n)))"

definition tq_cancel_document ::
  "write_env option \<Rightarrow> u64 \<Rightarrow> string \<Rightarrow> task_queue \<Rightarrow> task_queue \<times> nat res" where
  "tq_cancel_document e now doc q = tq_mutate_if_changed e (cancel_document_step now doc) q"

definition cancel_memory_step ::
  "u64 \<Rightarrow> string \<Rightarrow> task list \<Rightarrow> task list \<times> (nat \<times> bool) res" where
  "cancel_memory_step now memory_id ts =
     (let (ts', n) = cancel_loop (\<lambda>t. tk_task_type t = ''memory'' \<and> tk_doc_id t = memory_id)
                       now ''Memory deleted'' ts
      in (ts', Ok (n, 0 < n)))"

definition tq_cancel_memory ::
  "write_env option \<Rightarrow> u64 \<Rightarrow> string \<Rightarrow> task_queue \<Rightarrow> task_queue \<times> nat res" where
  "tq_cancel_memory e now memory_id q = tq_mutate_if_changed e (cancel_memory_step now memory_id) q"

end
