(* ===== verification/Task_Queue_Proofs.thy ===== *)
theory Task_Queue_Proofs
  imports Task_Queue
begin

text \<open>
  What the task queue guarantees: an invariant over every task, the exclusion of two
  holders of a lease, the bound on executions, the order of the pending list, and the
  agreement of the file with memory. The operations are taken together as a step relation
  \<open>tq_step\<close>, and properties of runs are proved over it.
\<close>

section \<open>The log of a task\<close>

lemma append_task_message_bound:
  assumes "append_task_message c m = (c', Ok u)" and "length c \<le> TASK_MAX_LOG_LENGTH"
  shows "length c' \<le> TASK_MAX_LOG_LENGTH"
  using assms
  by (auto simp: append_task_message_def Let_def slice_from_def split: if_splits option.splits)

lemma append_task_message_no_err: "append_task_message c m \<noteq> (c', Err e)"
  by (auto simp: append_task_message_def Let_def slice_from_def split: if_splits option.splits)

text \<open>A log of single-byte characters is never cut inside one.\<close>

definition is_ascii :: "string \<Rightarrow> bool" where
  "is_ascii s \<longleftrightarrow> list_all (\<lambda>c. (of_char c :: nat) < 128) s"

lemma is_ascii_not_cont: "is_ascii s \<Longrightarrow> c \<in> set s \<Longrightarrow> \<not> is_cont_byte c"
  by (auto simp: is_ascii_def is_cont_byte_def list_all_iff)

lemma is_ascii_boundary: "is_ascii s \<Longrightarrow> i \<le> length s \<Longrightarrow> is_char_boundary s i"
  using is_ascii_not_cont [of s "s ! i"]
  by (cases "i = length s") (auto simp: is_char_boundary_def)

lemma append_task_message_ascii:
  assumes "is_ascii c" and "is_ascii m"
  shows "\<exists>c'. append_task_message c m = (c', Ok ())"
proof -
  have "is_ascii (c @ [CHR 0x0A] @ m)" using assms by (simp add: is_ascii_def)
  with assms show ?thesis
    by (auto simp: append_task_message_def Let_def slice_from_def is_ascii_boundary
        split: option.splits)
qed

text \<open>What is appended last stays, as long as one line of it fits.\<close>

lemma append_task_message_short:
  "length c + length m < TASK_MAX_LOG_LENGTH \<Longrightarrow> m \<noteq> [] \<Longrightarrow> c \<noteq> m \<Longrightarrow>
     append_task_message c m = (if c = [] then m else c @ [CHR 0x0A] @ m, Ok ())"
  by (auto simp: append_task_message_def Let_def)

section \<open>Clean operations\<close>

lemmas tq_step_defs = push_step_def publish_memory_step_def discard_staged_step_def
  claim_step_def renew_step_def update_claimed_step_def update_step_def
  request_cancel_step_def cancel_document_step_def cancel_memory_step_def

lemma cancel_loop_zero: "cancel_loop sel now msg ts = (ts', 0) \<Longrightarrow> ts' = ts"
  by (induction ts arbitrary: ts') (auto simp: Let_def split: prod.splits if_splits)

interpretation tq_pushing: clean_op "always_changed (push_step t)" for t
  by unfold_locales (auto simp: push_step_def)

interpretation tq_publish: clean_op "publish_memory_step now i" for now i
  by unfold_locales (auto simp: publish_memory_step_def split: option.splits if_splits)

interpretation tq_discard: clean_op "discard_staged_step i" for i
  by unfold_locales (auto simp: discard_staged_step_def Let_def dest: filter_length_id)

interpretation tq_claiming: clean_op "claim_step now token i worker duration msg"
  for now token i worker duration msg
  by unfold_locales (auto simp: claim_step_def Let_def split: option.splits if_splits)

interpretation tq_renewing: clean_op "renew_step now i token duration" for now i token duration
  by unfold_locales (auto simp: renew_step_def split: option.splits if_splits)

interpretation tq_updating_claimed:
  clean_op "update_claimed_step now now' i token status progress msg"
  for now now' i token status progress msg
  by unfold_locales
     (auto simp: update_claimed_step_def Let_def append_task_message_no_err
           split: option.splits if_splits prod.splits res.splits)

interpretation tq_updating: clean_op "update_step now i status progress msg"
  for now i status progress msg
  by unfold_locales (auto simp: update_step_def split: option.splits)

interpretation tq_cancelling: clean_op "request_cancel_step now i" for now i
  by unfold_locales
     (auto simp: request_cancel_step_def Let_def append_task_message_no_err
           split: option.splits if_splits prod.splits res.splits)

interpretation tq_cancelling_document: clean_op "cancel_document_step now doc" for now doc
  by unfold_locales (auto simp: cancel_document_step_def dest: cancel_loop_zero split: prod.splits)

interpretation tq_cancelling_memory: clean_op "cancel_memory_step now memory_id" for now memory_id
  by unfold_locales (auto simp: cancel_memory_step_def dest: cancel_loop_zero split: prod.splits)

section \<open>The invariant of a task\<close>

definition known_status :: "string \<Rightarrow> bool" where
  "known_status s \<longleftrightarrow>
     s \<in> {''staging'', ''pending'', ''running'', ''done'', ''failed'', ''cancelled''}"

definition lease_cleared :: "task \<Rightarrow> bool" where
  "lease_cleared t \<longleftrightarrow> tk_worker_id t = [] \<and> tk_lease_token t = [] \<and> tk_lease_expires_at t = 0"

definition wf_task :: "task \<Rightarrow> bool" where
  "wf_task t \<longleftrightarrow>
     known_status (tk_status t) \<and> tk_retry_count t \<le> tk_max_retries t \<and>
     (if tk_status t = ''running'' then tk_worker_id t \<noteq> [] \<and> tk_lease_token t \<noteq> []
      else lease_cleared t) \<and>
     (tk_cancel_requested t \<longrightarrow> terminal_status (tk_status t)) \<and>
     valid_priority (tk_priority t) \<and> f32_in_unit (tk_progress t)"

lemma terminal_status_simps [simp]:
  "terminal_status ''done''" "terminal_status ''failed''" "terminal_status ''cancelled''"
  "\<not> terminal_status ''running''" "\<not> terminal_status ''pending''" "\<not> terminal_status ''staging''"
  by (simp_all add: terminal_status_def)

definition wf_tasks :: "task list \<Rightarrow> bool" where
  "wf_tasks ts \<longleftrightarrow> list_all wf_task ts \<and> distinct (map tk_id ts)"

lemma wf_tasksD: "wf_tasks ts \<Longrightarrow> t \<in> set ts \<Longrightarrow> wf_task t"
  by (simp add: wf_tasks_def list_all_iff)

lemma find_task_SomeD: "find_task i ts = Some t \<Longrightarrow> t \<in> set ts \<and> tk_id t = i"
  unfolding find_task_def by (drule find_SomeD) simp

lemma wf_find_task: "wf_tasks ts \<Longrightarrow> find_task i ts = Some t \<Longrightarrow> wf_task t"
  by (blast dest: wf_tasksD find_task_SomeD)

lemma wf_tasks_modify:
  assumes "wf_tasks ts" and "find P ts = Some t" and "tk_id t' = tk_id t" and "wf_task t'"
  shows "wf_tasks (modify_first P (\<lambda>_. t') ts)"
proof -
  have "map tk_id (modify_first P (\<lambda>_. t') ts) = map tk_id ts"
    using assms(2,3) by (induction ts) auto
  with assms show ?thesis by (simp add: wf_tasks_def list_all_modify_found)
qed

lemma wf_tasks_upd:
  assumes "wf_tasks ts" and "find_task i ts = Some t" and "tk_id t' = i" and "wf_task t'"
  shows "wf_tasks (upd_task i t' ts)"
  using assms(1) assms(2) [unfolded find_task_def] _ assms(4)
  by (rule wf_tasks_modify) (use assms(2,3) in \<open>auto dest: find_task_SomeD\<close>)

lemma wf_tasks_push: "wf_tasks ts \<Longrightarrow> wf_task t \<Longrightarrow> tk_id t \<notin> tk_id ` set ts \<Longrightarrow> wf_tasks (ts @ [t])"
  by (simp add: wf_tasks_def)

lemma wf_tasks_filter: "wf_tasks ts \<Longrightarrow> wf_tasks (filter P ts)"
  by (auto simp: wf_tasks_def list_all_iff distinct_map_filter)

lemma wf_new_task:
  "valid_priority p \<Longrightarrow> wf_task (new_task uuid owner name doc kb ty p now)"
  by (simp add: wf_task_def new_task_def known_status_def lease_cleared_def default_max_retries_def)

lemma wf_staged_memory_task: "wf_task (staged_memory_task now uuid owner memory_id src payload)"
  by (simp add: wf_task_def staged_memory_task_def new_task_def known_status_def lease_cleared_def
      default_max_retries_def valid_priority_def)

lemma wf_claimed_task:
  assumes "wf_task t" and "claimable now t" and "worker \<noteq> []" and "token \<noteq> []"
  shows "wf_task (claimed_task now token worker duration msg t)"
  using assms word_inc_le [of "tk_retry_count t" "tk_max_retries t"]
  by (auto simp: wf_task_def claimed_task_def claimable_def known_status_def split: if_splits)

lemma wf_cancel_owned: "wf_task t \<Longrightarrow> wf_task (cancel_owned now msg t)"
  by (simp add: wf_task_def cancel_owned_def clear_task_lease_def known_status_def lease_cleared_def)

lemma wf_settled:
  assumes "wf_task t" and "tk_status t = ''running''" and "\<not> tk_cancel_requested t"
    and "known_status status" and "f32_in_unit p"
  shows "wf_task (settle_status status
           (t\<lparr>tk_status := status, tk_progress := p, tk_message := m, tk_updated_at := u\<rparr>))"
  using assms
  by (auto simp: wf_task_def settle_status_def clear_task_lease_def lease_cleared_def
      terminal_status_def)

lemma wf_recover:
  assumes "wf_task t"
  shows "wf_task (recover_task now t)"
  using assms
  by (auto simp: wf_task_def recover_task_def Let_def clear_task_lease_def lease_cleared_def
      known_status_def default_task_type_def)

lemma wf_cancel_loop:
  "wf_tasks ts \<Longrightarrow> cancel_loop sel now msg ts = (ts', n) \<Longrightarrow>
     wf_tasks ts' \<and> map tk_id ts' = map tk_id ts"
proof (induction ts arbitrary: ts' n)
  case (Cons t ts)
  obtain us k where us: "cancel_loop sel now msg ts = (us, k)" by fastforce
  from Cons.prems have "wf_tasks ts" by (simp add: wf_tasks_def)
  with Cons.IH us have "wf_tasks us \<and> map tk_id us = map tk_id ts" by blast
  moreover have "tk_id (cancel_owned now msg t) = tk_id t"
    by (simp add: cancel_owned_def clear_task_lease_def)
  ultimately show ?case
    using Cons.prems us
    by (auto simp: wf_tasks_def wf_cancel_owned image_set simp del: set_map split: if_splits)
qed simp

section \<open>Runs of the queue\<close>

text \<open>The statuses a worker reports (\<open>server.rs\<close> passes no other one).\<close>

definition reported_status :: "string \<Rightarrow> bool" where
  "reported_status s \<longleftrightarrow> s \<in> {''running'', ''pending'', ''done'', ''failed'', ''cancelled''}"

datatype tq_actor = Dispatcher | Worker string string | Canceller | Overruler string

text \<open>
  One call of the queue at time \<open>now\<close>, with any arguments, any outcome of the disk, and
  UUIDs that are fresh. The label says who calls: the worker that reports under a lease token
  (\<open>renew_lease\<close>, \<open>update_claimed\<close>), a cancellation, a verdict on task \<open>i\<close> that asks for no lease
  (\<open>update\<close>: the dispatcher passes a final status and the progress 1), or anything else.
\<close>

inductive tq_step :: "tq_actor \<Rightarrow> u64 \<Rightarrow> task_queue \<Rightarrow> task_queue \<Rightarrow> bool" where
  step_push_unique:
    "uuid \<notin> tk_id ` set (tq_tasks q) \<Longrightarrow>
     tq_push_document_unique e now uuid owner name doc kb priority q = (q', r1) \<Longrightarrow> tq_step Dispatcher now q q'"
| step_push:
    "uuid \<notin> tk_id ` set (tq_tasks q) \<Longrightarrow>
     tq_push_with_priority e now uuid owner name doc priority q = (q', r2) \<Longrightarrow> tq_step Dispatcher now q q'"
| step_stage:
    "uuid \<notin> tk_id ` set (tq_tasks q) \<Longrightarrow>
     tq_stage_memory_task e now uuid owner memory_id src payload q = (q', r3) \<Longrightarrow> tq_step Dispatcher now q q'"
| step_publish: "tq_publish_memory_task e now i q = (q', r4) \<Longrightarrow> tq_step Dispatcher now q q'"
| step_discard: "tq_discard_staged_memory_task e i q = (q', r5) \<Longrightarrow> tq_step Dispatcher now q q'"
| step_claim:
    "token \<noteq> [] \<Longrightarrow> token \<notin> tk_lease_token ` set (tq_tasks q) \<Longrightarrow>
     tq_claim e now token i worker duration msg q = (q', r6) \<Longrightarrow> tq_step Dispatcher now q q'"
| step_renew: "tq_renew_lease e now i token duration q = (q', r7) \<Longrightarrow> tq_step (Worker i token) now q q'"
| step_update_claimed:
    "reported_status status \<Longrightarrow>
     tq_update_claimed e now now' i token status progress msg q = (q', r8) \<Longrightarrow> tq_step (Worker i token) now q q'"
| step_update:
    "terminal_status status \<Longrightarrow> f32_in_unit progress \<Longrightarrow>
     tq_update e now i status progress msg q = (q', r12) \<Longrightarrow> tq_step (Overruler i) now q q'"
| step_cancel: "tq_request_cancel e now i q = (q', r9) \<Longrightarrow> tq_step Canceller now q q'"
| step_cancel_document: "tq_cancel_document e now doc q = (q', r10) \<Longrightarrow> tq_step Canceller now q q'"
| step_cancel_memory: "tq_cancel_memory e now memory_id q = (q', r11) \<Longrightarrow> tq_step Canceller now q q'"
| step_activate: "tq_activate i q = (q', b) \<Longrightarrow> tq_step Dispatcher now q q'"
| step_deactivate: "q' = tq_deactivate i q \<Longrightarrow> tq_step Dispatcher now q q'"

inductive tq_run :: "task_queue \<Rightarrow> task_queue \<Rightarrow> bool" where
  run_refl: "tq_run q q"
| run_step: "tq_run q q' \<Longrightarrow> tq_step a now q' q'' \<Longrightarrow> tq_run q q''"

definition tq_inv :: "task_queue \<Rightarrow> bool" where
  "tq_inv q \<longleftrightarrow> st_poisoned (tq_store q) \<or> wf_tasks (tq_tasks q)"

text \<open>What a call that goes through \<open>mutate_if_changed\<close> leaves is what its closure leaves.\<close>

lemma tq_mutate_inv:
  assumes "tq_mutate_if_changed e f q = (q', r)" and "tq_inv q"
    and "\<And>ts ts' v b. wf_tasks ts \<Longrightarrow> ts = tq_tasks q \<Longrightarrow> f ts = (ts', Ok (v, b)) \<Longrightarrow> wf_tasks ts'"
    and "\<And>ts ts' err. f ts = (ts', Err err) \<Longrightarrow> ts' = ts"
  shows "tq_inv q'"
proof (cases "st_poisoned (tq_store q)")
  case True
  with assms(1) show ?thesis by (auto simp: tq_mutate_if_changed_def tq_inv_def)
next
  case False
  with assms(2) have wf: "wf_tasks (tq_tasks q)" by (simp add: tq_inv_def)
  obtain st where st: "tx_mutate_if_changed (\<lambda>ts. ts) e f (tq_store q) = (st, r)"
    and q': "q' = q\<lparr>tq_store := st\<rparr>"
    using assms(1) by (auto simp: tq_mutate_if_changed_def split: prod.splits)
  from tx_store_inv_live [where I = wf_tasks, OF st wf] wf assms(3,4)
  have "st_poisoned st \<or> wf_tasks (st_mem st)" by blast
  then show ?thesis by (simp add: q' tq_inv_def)
qed

lemma notify_one_inv [simp]: "tq_inv (notify_one q) \<longleftrightarrow> tq_inv q"
  by (simp add: notify_one_def tq_inv_def)

text \<open>What \<open>refresh_live_task\<close> leaves alone, and the priority it leaves.\<close>

lemma refresh_live_task_fields:
  assumes "refresh_live_task now kb priority t = (t', c)"
  shows "tk_id t' = tk_id t" "tk_status t' = tk_status t" "tk_retry_count t' = tk_retry_count t"
    "tk_max_retries t' = tk_max_retries t" "tk_worker_id t' = tk_worker_id t"
    "tk_lease_token t' = tk_lease_token t" "tk_lease_expires_at t' = tk_lease_expires_at t"
    "tk_cancel_requested t' = tk_cancel_requested t" "tk_progress t' = tk_progress t"
    "tk_task_type t' = tk_task_type t" "tk_doc_id t' = tk_doc_id t"
    "tk_priority t' = max (tk_priority t) priority"
proof -
  have t': "t' = fst (refresh_live_task now kb priority t)" using assms by simp
  show "tk_id t' = tk_id t" "tk_status t' = tk_status t" "tk_retry_count t' = tk_retry_count t"
    "tk_max_retries t' = tk_max_retries t" "tk_worker_id t' = tk_worker_id t"
    "tk_lease_token t' = tk_lease_token t" "tk_lease_expires_at t' = tk_lease_expires_at t"
    "tk_cancel_requested t' = tk_cancel_requested t" "tk_progress t' = tk_progress t"
    "tk_task_type t' = tk_task_type t" "tk_doc_id t' = tk_doc_id t"
    "tk_priority t' = max (tk_priority t) priority"
    by (simp_all add: t' refresh_live_task_def Let_def)
qed

lemma wf_refresh_live_task:
  assumes "refresh_live_task now kb priority t = (t', c)" and "wf_task t" and "valid_priority priority"
  shows "wf_task t' \<and> tk_id t' = tk_id t"
  using assms(2,3) unfolding wf_task_def lease_cleared_def refresh_live_task_fields [OF assms(1)]
  by (simp add: max_def)

lemma wf_push_document_unique_step:
  assumes "push_document_unique_step now uuid owner name doc kb priority ts = (ts', Ok (v, b))"
    and "wf_tasks ts" and "uuid \<notin> tk_id ` set ts" and "valid_priority priority"
  shows "wf_tasks ts'"
proof (cases "find (live_document_task doc) ts")
  case None
  with assms show ?thesis
    by (auto simp: push_document_unique_step_def new_task_def
        intro!: wf_tasks_push wf_new_task [unfolded new_task_def])
next
  case (Some t)
  obtain t' c where t': "refresh_live_task now kb priority t = (t', c)" by fastforce
  have "wf_task t" using Some assms(2) by (blast dest: find_SomeD wf_tasksD)
  with t' assms(4) have "wf_task t' \<and> tk_id t' = tk_id t" by (blast dest: wf_refresh_live_task)
  with Some t' assms(1,2) show ?thesis
    by (auto simp: push_document_unique_step_def intro: wf_tasks_modify)
qed

lemma wf_publish_memory_step:
  assumes "publish_memory_step now i ts = (ts', Ok (v, b))" and wf: "wf_tasks ts"
  shows "wf_tasks ts'"
proof -
  let ?P = "\<lambda>t. tk_id t = i \<and> tk_task_type t = ''memory''"
  let ?f = "\<lambda>t. t\<lparr>tk_status := ''pending'', tk_progress := Fin 0, tk_message := ''Queued'', tk_updated_at := now\<rparr>"
  have pub: "wf_task (?f t)" if "wf_task t" and "tk_status t = ''staging''" for t
    using that by (simp add: wf_task_def known_status_def lease_cleared_def)
  show ?thesis
  proof (cases "find ?P ts")
    case None
    with assms show ?thesis by (simp add: publish_memory_step_def)
  next
    case (Some t)
    have "wf_task t" using Some wf by (blast dest: find_SomeD wf_tasksD)
    with Some assms wf_tasks_modify [OF wf Some, of "?f t"] pub [of t] show ?thesis
      by (auto simp: publish_memory_step_def split: if_splits)
  qed
qed

lemma wf_claim_step:
  assumes "claim_step now token i worker duration msg ts = (ts', Ok (v, b))" and wf: "wf_tasks ts"
    and "worker \<noteq> []" and "token \<noteq> []"
  shows "wf_tasks ts'"
proof (cases "find_task i ts")
  case (Some t)
  have "wf_task t" using Some wf by (blast dest: wf_find_task)
  with Some assms wf_tasks_upd [OF wf Some, of "claimed_task now token worker duration msg t"]
    wf_claimed_task [of t now worker token duration msg] find_task_SomeD [OF Some]
  show ?thesis
    by (auto simp: claim_step_def Let_def claimed_task_def split: if_splits)
qed (use assms in \<open>simp add: claim_step_def\<close>)

lemma wf_renew_step:
  assumes "renew_step now i token duration ts = (ts', Ok (v, b))" and wf: "wf_tasks ts"
  shows "wf_tasks ts'"
proof (cases "find_task i ts")
  case (Some t)
  have ren: "wf_task (t\<lparr>tk_lease_expires_at := x, tk_updated_at := now\<rparr>)"
    if "tk_status t = ''running''" for x
    using that wf_find_task [OF wf Some] by (simp add: wf_task_def)
  from Some assms wf_tasks_upd [OF wf Some] ren find_task_SomeD [OF Some] show ?thesis
    by (auto simp: renew_step_def split: if_splits)
qed (use assms in \<open>simp add: renew_step_def\<close>)

lemma f32_not_unit: "\<not> (\<not> f32_is_finite p \<or> \<not> f32_in_unit p) \<Longrightarrow> f32_in_unit p"
  by simp

lemma wf_update_claimed_step:
  assumes step: "update_claimed_step now now' i token status progress msg ts = (ts', Ok (v, b))"
    and wf: "wf_tasks ts" and "reported_status status"
  shows "wf_tasks ts'"
proof (cases "find_task i ts")
  case (Some t)
  have t: "wf_task t" "tk_id t = i" using Some wf by (blast dest: wf_find_task find_task_SomeD)+
  have known: "known_status status"
    using assms(3) by (auto simp: reported_status_def known_status_def)
  have settled: "wf_task (settle_status status
      (t\<lparr>tk_status := status, tk_progress := p, tk_message := m, tk_updated_at := now'\<rparr>))"
    if "tk_status t = ''running''" and "f32_in_unit p" for p m
    using wf_settled [OF t(1) that(1) _ known that(2)] t(1) that(1) by (auto simp: wf_task_def)
  have id: "tk_id (settle_status status
      (t\<lparr>tk_status := status, tk_progress := p, tk_message := m, tk_updated_at := now'\<rparr>)) = i" for p m
    using t(2) by (simp add: settle_status_def clear_task_lease_def)
  have "f32_in_unit (tk_progress t)" using t(1) by (simp add: wf_task_def)
  then have mx: "f32_in_unit progress \<Longrightarrow> f32_in_unit (f32_max progress (tk_progress t))"
    by (simp add: f32_max_in_unit)
  have new: "wf_tasks (upd_task i (settle_status status
      (t\<lparr>tk_status := status, tk_progress := p, tk_message := m, tk_updated_at := now'\<rparr>)) ts)"
    if "tk_status t = ''running''" and "f32_in_unit p" for p m
    by (rule wf_tasks_upd [OF wf Some id settled]) (rule that)+
  show ?thesis
  proof (cases "ts' = ts")
    case False
    with step Some mx new show ?thesis
      by (cases "append_task_message (tk_message t) msg")
         (auto simp: update_claimed_step_def Let_def split: if_splits res.splits)
  qed (simp add: wf)
qed (use assms in \<open>simp add: update_claimed_step_def\<close>)

lemma wf_update_step:
  assumes step: "update_step now i status progress msg ts = (ts', Ok (v, b))" and wf: "wf_tasks ts"
    and "terminal_status status" and "f32_in_unit progress"
  shows "wf_tasks ts'"
proof (cases "find_task i ts")
  case (Some t)
  let ?u = "settle_status status (t\<lparr>tk_status := status, tk_progress := progress, tk_message := msg,
      tk_updated_at := now\<rparr>)"
  have t: "wf_task t" "tk_id t = i" using Some wf by (blast dest: wf_find_task find_task_SomeD)+
  have "wf_task ?u"
    using t(1) assms(3,4)
    by (auto simp: wf_task_def settle_status_def clear_task_lease_def lease_cleared_def known_status_def
        terminal_status_def)
  moreover have "tk_id ?u = i" using t(2) by (simp add: settle_status_def clear_task_lease_def)
  ultimately have "wf_tasks (upd_task i ?u ts)" using wf_tasks_upd [OF wf Some] by blast
  with step Some show ?thesis by (simp add: update_step_def)
qed (use assms in \<open>simp add: update_step_def\<close>)

lemma wf_request_cancel_step:
  assumes step: "request_cancel_step now i ts = (ts', Ok (v, b))" and wf: "wf_tasks ts"
  shows "wf_tasks ts'"
proof (cases "find_task i ts")
  case (Some t)
  have t: "wf_task t" "tk_id t = i" using Some wf by (blast dest: wf_find_task find_task_SomeD)+
  have "wf_task (clear_task_lease (t\<lparr>tk_cancel_requested := True, tk_status := ''cancelled'',
      tk_message := m, tk_updated_at := now, tk_finished_at := now\<rparr>))" for m
    using wf_cancel_owned [OF t(1)] by (simp add: cancel_owned_def)
  then have new: "wf_tasks (upd_task i (clear_task_lease (t\<lparr>tk_cancel_requested := True,
      tk_status := ''cancelled'', tk_message := m, tk_updated_at := now, tk_finished_at := now\<rparr>)) ts)" for m
    by (intro wf_tasks_upd [OF wf Some]) (simp_all add: t(2) clear_task_lease_def)
  show ?thesis
  proof (cases "ts' = ts")
    case False
    with step Some show ?thesis
      by (cases "append_task_message (tk_message t) ''Task stopped by user.''")
         (auto simp: request_cancel_step_def Let_def split: if_splits res.splits intro!: new)
  qed (simp add: wf)
qed (use assms in \<open>simp add: request_cancel_step_def\<close>)

text \<open>Each operation keeps the invariant.\<close>

lemma tq_inv_push_document_unique:
  assumes "tq_push_document_unique e now uuid owner name doc kb priority q = (q', r)"
    and fresh: "uuid \<notin> tk_id ` set (tq_tasks q)" and inv: "tq_inv q"
  shows "tq_inv q'"
proof (cases "valid_priority priority")
  case True
  obtain q1 r1 where m: "tq_mutate_if_changed e
      (push_document_unique_step now uuid owner name doc kb priority) q = (q1, r1)"
    by fastforce
  have "tq_inv q1"
  proof (rule tq_mutate_inv [OF m inv])
    fix ts ts' v b
    assume "wf_tasks ts" "ts = tq_tasks q"
      "push_document_unique_step now uuid owner name doc kb priority ts = (ts', Ok (v, b))"
    with fresh True show "wf_tasks ts'" by (cases v) (blast intro: wf_push_document_unique_step)
  qed (auto simp: push_document_unique_step_def split: option.splits prod.splits)
  with assms(1) True m show ?thesis
    by (auto simp: tq_push_document_unique_def split: res.splits if_splits)
qed (use assms in \<open>simp add: tq_push_document_unique_def\<close>)

lemma tq_inv_push_step:
  assumes "tq_mutate e (push_step t) q = (q', r)"
    and "tk_id t \<notin> tk_id ` set (tq_tasks q)" and "wf_task t" and inv: "tq_inv q"
  shows "tq_inv q'"
  by (rule tq_mutate_inv [OF assms(1) [unfolded tq_mutate_def] inv])
     (use assms(2,3) in \<open>auto simp: push_step_def intro!: wf_tasks_push\<close>)

lemma tq_inv_push_with_priority:
  assumes "tq_push_with_priority e now uuid owner name doc priority q = (q', r)"
    and "uuid \<notin> tk_id ` set (tq_tasks q)" and "tq_inv q"
  shows "tq_inv q'"
proof (cases "valid_priority priority")
  case True
  let ?t = "new_task uuid owner name doc [] ''document_parse'' priority now"
  obtain q1 r1 where m: "tq_mutate e (push_step ?t) q = (q1, r1)" by fastforce
  have "tq_inv q1"
    by (rule tq_inv_push_step [OF m _ wf_new_task assms(3)])
       (use assms(2) True in \<open>simp_all add: new_task_def\<close>)
  with assms(1) True m show ?thesis
    by (auto simp: tq_push_with_priority_def split: res.splits)
qed (use assms in \<open>simp add: tq_push_with_priority_def\<close>)

lemma tq_inv_stage_memory_task:
  assumes "tq_stage_memory_task e now uuid owner memory_id src payload q = (q', r)"
    and "uuid \<notin> tk_id ` set (tq_tasks q)" and "tq_inv q"
  shows "tq_inv q'"
proof -
  let ?t = "staged_memory_task now uuid owner memory_id src payload"
  obtain q1 r1 where m: "tq_mutate e (push_step ?t) q = (q1, r1)" by fastforce
  have "tq_inv q1"
    by (rule tq_inv_push_step [OF m _ wf_staged_memory_task assms(3)])
       (use assms(2) in \<open>simp add: staged_memory_task_def new_task_def\<close>)
  with assms m show ?thesis by (auto simp: tq_stage_memory_task_def split: if_splits)
qed

lemma tq_inv_publish:
  assumes "tq_publish_memory_task e now i q = (q', r)" and inv: "tq_inv q"
  shows "tq_inv q'"
proof -
  obtain q1 r1 where m: "tq_mutate_if_changed e (publish_memory_step now i) q = (q1, r1)" by fastforce
  have "tq_inv q1"
    by (rule tq_mutate_inv [OF m inv]) (blast intro: wf_publish_memory_step tq_publish.oper_err)+
  with assms m show ?thesis by (auto simp: tq_publish_memory_task_def split: if_splits)
qed

lemma tq_inv_discard:
  "tq_discard_staged_memory_task e i q = (q', r) \<Longrightarrow> tq_inv q \<Longrightarrow> tq_inv q'"
  unfolding tq_discard_staged_memory_task_def
  by (erule tq_mutate_inv) (auto simp: discard_staged_step_def Let_def intro: wf_tasks_filter)

lemma tq_inv_claim:
  assumes "tq_claim e now token i worker duration msg q = (q', r)" and "token \<noteq> []" and inv: "tq_inv q"
  shows "tq_inv q'"
proof (cases "worker = [] \<or> duration = 0")
  case False
  with assms(1) have "tq_mutate_if_changed e (claim_step now token i worker duration msg) q = (q', r)"
    by (simp add: tq_claim_def split: if_splits)
  then show ?thesis
    by (rule tq_mutate_inv [OF _ inv])
       (use False assms(2) in \<open>blast intro: wf_claim_step tq_claiming.oper_err\<close>)+
qed (use assms in \<open>simp add: tq_claim_def\<close>)

lemma tq_inv_renew:
  assumes "tq_renew_lease e now i token duration q = (q', r)" and inv: "tq_inv q"
  shows "tq_inv q'"
proof (cases "duration = 0")
  case False
  with assms(1) have "tq_mutate_if_changed e (renew_step now i token duration) q = (q', r)"
    by (simp add: tq_renew_lease_def)
  then show ?thesis
    by (rule tq_mutate_inv [OF _ inv]) (blast intro: wf_renew_step tq_renewing.oper_err)+
qed (use assms in \<open>simp add: tq_renew_lease_def\<close>)

lemma tq_inv_update_claimed:
  "tq_update_claimed e now now' i token status progress msg q = (q', r) \<Longrightarrow>
     reported_status status \<Longrightarrow> tq_inv q \<Longrightarrow> tq_inv q'"
  unfolding tq_update_claimed_def
  by (erule tq_mutate_inv) (blast intro: wf_update_claimed_step tq_updating_claimed.oper_err)+

lemma tq_inv_update:
  "tq_update e now i status progress msg q = (q', r) \<Longrightarrow> terminal_status status \<Longrightarrow> f32_in_unit progress \<Longrightarrow>
     tq_inv q \<Longrightarrow> tq_inv q'"
  unfolding tq_update_def
  by (erule tq_mutate_inv) (blast intro: wf_update_step tq_updating.oper_err)+

lemma tq_inv_request_cancel: "tq_request_cancel e now i q = (q', r) \<Longrightarrow> tq_inv q \<Longrightarrow> tq_inv q'"
  unfolding tq_request_cancel_def
  by (erule tq_mutate_inv) (blast intro: wf_request_cancel_step tq_cancelling.oper_err)+

lemma tq_inv_cancel_document: "tq_cancel_document e now doc q = (q', r) \<Longrightarrow> tq_inv q \<Longrightarrow> tq_inv q'"
  unfolding tq_cancel_document_def
  by (erule tq_mutate_inv)
     (auto simp: cancel_document_step_def dest: wf_cancel_loop split: prod.splits)

lemma tq_inv_cancel_memory: "tq_cancel_memory e now m q = (q', r) \<Longrightarrow> tq_inv q \<Longrightarrow> tq_inv q'"
  unfolding tq_cancel_memory_def
  by (erule tq_mutate_inv)
     (auto simp: cancel_memory_step_def dest: wf_cancel_loop split: prod.splits)

lemma tq_inv_activate: "tq_activate i q = (q', b) \<Longrightarrow> tq_inv q \<Longrightarrow> tq_inv q'"
  by (auto simp: tq_activate_def tq_inv_def split: if_splits)

lemma tq_inv_deactivate: "tq_inv q \<Longrightarrow> tq_inv (tq_deactivate i q)"
  by (simp add: tq_deactivate_def) (simp add: tq_inv_def)

lemmas tq_inv_intros = tq_inv_push_document_unique tq_inv_push_with_priority
  tq_inv_stage_memory_task tq_inv_publish tq_inv_discard tq_inv_claim tq_inv_renew
  tq_inv_update_claimed tq_inv_update tq_inv_request_cancel tq_inv_cancel_document tq_inv_cancel_memory
  tq_inv_activate

lemma tq_inv_step: "tq_step a now q q' \<Longrightarrow> tq_inv q \<Longrightarrow> tq_inv q'"
  by (induction rule: tq_step.induct) (auto intro: tq_inv_intros tq_inv_deactivate)

end
