(* ===== verification/Task_Queue_Spec.thy ===== *)
theory Task_Queue_Spec
  imports Task_Queue_Proofs "HOL-Library.Multiset"
begin

text \<open>
  The task queue against its specification: each task is an abstract lease automaton
  (\<open>phase_step\<close>), and every call of the queue moves every task along it. The exclusion of
  two lease holders and the finality of a finished task are read off the automaton.
\<close>

section \<open>The lease automaton\<close>

datatype phase = Staged | Queued | Leased string u64 | Finished

text \<open>
  The moves of one task with id \<open>i\<close> at time \<open>now\<close>: its phase and the number of times it
  was claimed, of at most \<open>limit\<close>.
\<close>

inductive phase_step ::
  "string \<Rightarrow> u32 \<Rightarrow> tq_actor \<Rightarrow> u64 \<Rightarrow> phase \<times> u32 \<Rightarrow> phase \<times> u32 \<Rightarrow> bool"
  for i :: string and limit :: u32 where
  phase_publish: "phase_step i limit Dispatcher now (Staged, n) (Queued, n)"
| phase_claim:
    "n < limit \<Longrightarrow> phase_step i limit Dispatcher now (Queued, n) (Leased token deadline, n + 1)"
| phase_reclaim:
    "n < limit \<Longrightarrow> deadline \<le> now \<Longrightarrow>
     phase_step i limit Dispatcher now (Leased token deadline, n) (Leased token' deadline', n + 1)"
| phase_renew:
    "now < deadline \<Longrightarrow>
     phase_step i limit (Worker i token) now (Leased token deadline, n) (Leased token deadline', n)"
| phase_requeue:
    "now < deadline \<Longrightarrow>
     phase_step i limit (Worker i token) now (Leased token deadline, n) (Queued, n)"
| phase_finish:
    "now < deadline \<Longrightarrow>
     phase_step i limit (Worker i token) now (Leased token deadline, n) (Finished, n)"
| phase_cancel:
    "p \<noteq> Finished \<Longrightarrow> phase_step i limit Canceller now (p, n) (Finished, n)"
| phase_overrule:
    "p \<noteq> Finished \<Longrightarrow> phase_step i limit (Overruler i) now (p, n) (Finished, n)"

inductive_cases phase_step_LeasedE: "phase_step i limit a now (Leased token deadline, n) s"
inductive_cases phase_step_FinishedE: "phase_step i limit a now (Finished, n) s"

inductive_simps phase_step_Finished_iff [simp]: "phase_step i limit a now (Finished, n) s"

definition task_phase :: "task \<Rightarrow> phase" where
  "task_phase t =
     (if tk_status t = ''staging'' then Staged
      else if tk_status t = ''pending'' then Queued
      else if tk_status t = ''running'' then Leased (tk_lease_token t) (tk_lease_expires_at t)
      else Finished)"

definition abs_task :: "task \<Rightarrow> phase \<times> u32" where
  "abs_task t = (task_phase t, tk_retry_count t)"

text \<open>From one state of a task to the next: nothing, or one move of the automaton.\<close>

definition task_trans :: "tq_actor \<Rightarrow> u64 \<Rightarrow> task \<Rightarrow> task \<Rightarrow> bool" where
  "task_trans a now t t' \<longleftrightarrow>
     tk_id t' = tk_id t \<and> tk_max_retries t' = tk_max_retries t \<and>
     (abs_task t' = abs_task t \<or>
      phase_step (tk_id t) (tk_max_retries t) a now (abs_task t) (abs_task t'))"

lemma task_trans_refl [simp]: "task_trans a now t t"
  by (simp add: task_trans_def)

lemma task_trans_claimed:
  "claimable now t \<Longrightarrow> task_trans Dispatcher now t (claimed_task now token worker duration msg t)"
  by (auto simp: task_trans_def claimable_def claimed_task_def abs_task_def task_phase_def
      intro: phase_claim phase_reclaim)

lemma task_trans_renewed:
  "tk_status t = ''running'' \<Longrightarrow> now < tk_lease_expires_at t \<Longrightarrow>
   task_trans (Worker (tk_id t) (tk_lease_token t)) now t
     (t\<lparr>tk_lease_expires_at := x, tk_updated_at := now\<rparr>)"
  by (simp add: task_trans_def abs_task_def task_phase_def phase_renew)

lemma task_trans_settled:
  assumes "tk_status t = ''running''" and "now < tk_lease_expires_at t" and "reported_status status"
  shows "task_trans (Worker (tk_id t) (tk_lease_token t)) now t
     (settle_status status
        (t\<lparr>tk_status := status, tk_progress := p, tk_message := m, tk_updated_at := u\<rparr>))"
proof -
  let ?u = "t\<lparr>tk_status := status, tk_progress := p, tk_message := m, tk_updated_at := u\<rparr>"
  have abs: "abs_task t = (Leased (tk_lease_token t) (tk_lease_expires_at t), tk_retry_count t)"
    using assms(1) by (simp add: abs_task_def task_phase_def)
  have abs': "abs_task (settle_status status ?u) = (task_phase ?u, tk_retry_count t)"
    by (simp add: abs_task_def task_phase_def settle_status_def clear_task_lease_def terminal_status_def)
  have "task_phase ?u \<in> {Leased (tk_lease_token t) (tk_lease_expires_at t), Queued, Finished}"
    using assms(3) by (auto simp: reported_status_def task_phase_def)
  with assms(2) show ?thesis
    unfolding task_trans_def abs abs'
    by (auto simp: settle_status_def clear_task_lease_def intro: phase_requeue phase_finish)
qed

lemma task_trans_cancelled:
  assumes "known_status (tk_status t)" and "\<not> terminal_status (tk_status t)"
    and "tk_id t' = tk_id t" "tk_max_retries t' = tk_max_retries t"
    "tk_retry_count t' = tk_retry_count t" "tk_status t' = ''cancelled''"
  shows "task_trans Canceller now t t'"
proof -
  have "task_phase t \<noteq> Finished"
    using assms(1,2) by (auto simp: task_phase_def known_status_def terminal_status_def)
  with assms show ?thesis
    by (simp add: task_trans_def abs_task_def task_phase_def [of t'] phase_cancel)
qed

lemma task_trans_overruled:
  assumes "terminal_status status"
  shows "task_trans (Overruler (tk_id t)) now t
     (settle_status status
        (t\<lparr>tk_status := status, tk_progress := p, tk_message := m, tk_updated_at := u\<rparr>))"
proof -
  let ?u = "settle_status status (t\<lparr>tk_status := status, tk_progress := p, tk_message := m, tk_updated_at := u\<rparr>)"
  have "abs_task ?u = (Finished, tk_retry_count t)"
    using assms by (auto simp: abs_task_def task_phase_def settle_status_def clear_task_lease_def terminal_status_def)
  moreover have "tk_id ?u = tk_id t" "tk_max_retries ?u = tk_max_retries t"
    by (simp_all add: settle_status_def clear_task_lease_def)
  ultimately show ?thesis
    by (cases "task_phase t = Finished") (simp_all add: task_trans_def abs_task_def [of t] phase_overrule)
qed

lemma task_trans_published:
  "tk_status t = ''staging'' \<Longrightarrow>
   task_trans Dispatcher now t (t\<lparr>tk_status := ''pending'', tk_progress := p, tk_message := m,
     tk_updated_at := u\<rparr>)"
  by (simp add: task_trans_def abs_task_def task_phase_def phase_publish)

section \<open>Looking a task up after an update\<close>

lemma find_task_push:
  "find_task i (ts @ [t]) = (case find_task i ts of None \<Rightarrow> if tk_id t = i then Some t else None
                             | Some s \<Rightarrow> Some s)"
  by (cases "find_task i ts") (simp_all add: find_task_def find_append)

lemma find_task_modify:
  assumes "wf_tasks ts" and "find P ts = Some t" and "tk_id t' = tk_id t"
  shows "find_task i (modify_first P (\<lambda>_. t') ts) =
    (if tk_id t = i then Some t' else find_task i ts)"
proof -
  have "distinct (map tk_id ts)" using assms(1) by (simp add: wf_tasks_def)
  then show ?thesis
    using assms(2,3) unfolding find_task_def
  proof (induction ts)
    case (Cons s ts)
    show ?case
    proof (cases "P s")
      case False
      with Cons.prems have "t \<in> set ts" by (auto dest: find_SomeD)
      with Cons.prems have "tk_id s \<noteq> tk_id t" by auto
      with Cons False show ?thesis by auto
    qed (use Cons.prems in auto)
  qed simp
qed

lemma find_task_upd:
  assumes "wf_tasks ts" and "find_task j ts = Some t" and "tk_id t' = j"
  shows "find_task i (upd_task j t' ts) = (if j = i then Some t' else find_task i ts)"
  using find_task_modify [OF assms(1) assms(2) [unfolded find_task_def], of t' i]
    find_task_SomeD [OF assms(2)] assms(3) by simp

lemma find_task_filter:
  assumes "wf_tasks ts" and "find_task i ts = Some t"
  shows "find_task i (filter P ts) = (if P t then Some t else None)"
proof -
  have d: "distinct (map tk_id ts)" using assms(1) by (simp add: wf_tasks_def)
  have t: "t \<in> set ts" "tk_id t = i" using find_task_SomeD [OF assms(2)] by auto
  show ?thesis
  proof (cases "P t")
    case True
    have same: "y = t" if "y \<in> set ts" "tk_id y = i" for y
      using d t that by (auto simp: distinct_map inj_on_def)
    have "find_task i (filter P ts) = Some t"
      unfolding find_task_def
    proof (rule find_unique)
      show "t \<in> set (filter P ts)" "tk_id t = i" using t True by simp_all
    qed (simp add: same)
    with True show ?thesis by simp
  next
    case False
    have "find_task i (filter P ts) = None"
    proof (rule ccontr)
      assume "find_task i (filter P ts) \<noteq> None"
      then obtain y where "find_task i (filter P ts) = Some y" by auto
      then have "y \<in> set ts" "P y" "tk_id y = i" by (auto dest: find_task_SomeD)
      with d t have "y = t" by (auto simp: distinct_map inj_on_def)
      with \<open>P y\<close> False show False by simp
    qed
    with False show ?thesis by simp
  qed
qed

section \<open>Every call follows the automaton\<close>

text \<open>
  \<open>moves a now ts ts'\<close>: each task of \<open>ts\<close> is still there after a move of its automaton; only
  a staged task may have gone.
\<close>

definition moves :: "tq_actor \<Rightarrow> u64 \<Rightarrow> task list \<Rightarrow> task list \<Rightarrow> bool" where
  "moves a now ts ts' \<longleftrightarrow>
     (\<forall>i t. find_task i ts = Some t \<longrightarrow>
        (case find_task i ts' of
           None \<Rightarrow> task_phase t = Staged
         | Some t' \<Rightarrow> task_trans a now t t'))"

lemma moves_refl [simp]: "moves a now ts ts"
  by (simp add: moves_def)

lemma movesE:
  assumes "moves a now ts ts'" and "find_task i ts = Some t" and "task_phase t \<noteq> Staged"
  obtains t' where "find_task i ts' = Some t'" and "task_trans a now t t'"
  using assms by (fastforce simp: moves_def split: option.splits)

lemma moves_modify:
  assumes "wf_tasks ts" and "find P ts = Some t" and "task_trans a now t t'"
  shows "moves a now ts (modify_first P (\<lambda>_. t') ts)"
proof -
  have id: "tk_id t' = tk_id t" using assms(3) by (simp add: task_trans_def)
  have d: "distinct (map tk_id ts)" using assms(1) by (simp add: wf_tasks_def)
  have "s = t" if "find_task (tk_id t) ts = Some s" for s
    using find_task_SomeD [OF that] find_SomeD [OF assms(2)] d by (auto simp: distinct_map inj_on_def)
  with assms(3) show ?thesis
    unfolding moves_def find_task_modify [OF assms(1,2) id] by (auto split: if_splits)
qed

lemma moves_upd:
  "wf_tasks ts \<Longrightarrow> find_task j ts = Some t \<Longrightarrow> task_trans a now t t' \<Longrightarrow> moves a now ts (upd_task j t' ts)"
  unfolding find_task_def by (rule moves_modify)

lemma moves_push: "moves a now ts (ts @ [t])"
  by (simp add: moves_def find_task_push)

lemma moves_discard_staged:
  "wf_tasks ts \<Longrightarrow> discard_staged_step i ts = (ts', r) \<Longrightarrow> moves a now ts ts'"
  by (auto simp: moves_def find_task_filter discard_staged_step_def Let_def task_phase_def)

lemma moves_push_document_unique:
  assumes "push_document_unique_step now uuid owner name doc kb priority ts = (ts', Ok (v, b))"
    and "wf_tasks ts"
  shows "moves a now ts ts'"
proof (cases "find (live_document_task doc) ts")
  case (Some t)
  obtain t' c where t': "refresh_live_task now kb priority t = (t', c)" by fastforce
  have "task_trans a now t t'"
    by (simp add: task_trans_def abs_task_def task_phase_def refresh_live_task_fields [OF t'])
  with Some assms t' show ?thesis
    by (auto simp: push_document_unique_step_def intro: moves_modify)
qed (use assms in \<open>auto simp: push_document_unique_step_def moves_push\<close>)

lemma moves_publish:
  assumes "publish_memory_step now i ts = (ts', Ok (v, b))" and "wf_tasks ts"
  shows "moves Dispatcher now ts ts'"
  using assms
  by (auto simp: publish_memory_step_def split: option.splits if_splits
      intro!: moves_modify task_trans_published)

lemma moves_claim:
  assumes "claim_step now token i worker duration msg ts = (ts', Ok (v, b))" and "wf_tasks ts"
  shows "moves Dispatcher now ts ts'"
  using assms
  by (auto simp: claim_step_def Let_def split: option.splits if_splits
      intro!: moves_upd task_trans_claimed)

lemma moves_renew:
  assumes "renew_step now i token duration ts = (ts', Ok (v, b))" and "wf_tasks ts"
  shows "moves (Worker i token) now ts ts'"
proof (cases "find_task i ts")
  case (Some t)
  with task_trans_renewed [of t now] find_task_SomeD [OF Some] assms show ?thesis
    by (auto simp: renew_step_def split: if_splits intro!: moves_upd)
qed (use assms in \<open>simp add: renew_step_def\<close>)

lemma moves_update_claimed:
  assumes step: "update_claimed_step now now' i token status progress msg ts = (ts', Ok (v, b))"
    and "wf_tasks ts" and "reported_status status"
  shows "moves (Worker i token) now ts ts'"
proof (cases "find_task i ts")
  case (Some t)
  show ?thesis
  proof (cases "ts' = ts")
    case False
    with step Some have live: "tk_status t = ''running''" "now < tk_lease_expires_at t"
        "tk_lease_token t = token"
      by (auto simp: update_claimed_step_def not_le split: if_splits)
    obtain m r where m: "append_task_message (tk_message t) msg = (m, r)" by fastforce
    from step Some False m obtain p where ts': "ts' = upd_task i (settle_status status
        (t\<lparr>tk_status := status, tk_progress := p, tk_message := m, tk_updated_at := now'\<rparr>)) ts"
      by (auto simp: update_claimed_step_def Let_def split: if_splits res.splits)
    show ?thesis
      unfolding ts' using task_trans_settled [OF live(1,2) assms(3)] live(3) find_task_SomeD [OF Some]
      by (intro moves_upd [OF assms(2) Some]) simp
  qed simp
qed (use assms in \<open>simp add: update_claimed_step_def\<close>)

lemma moves_update:
  assumes "update_step now i status progress msg ts = (ts', Ok (v, b))" and "wf_tasks ts"
    and "terminal_status status"
  shows "moves (Overruler i) now ts ts'"
proof (cases "find_task i ts")
  case (Some t)
  with task_trans_overruled [OF assms(3), of t now] find_task_SomeD [OF Some] assms(1)
  show ?thesis by (auto simp: update_step_def intro!: moves_upd [OF assms(2)])
qed (use assms in \<open>simp add: update_step_def\<close>)

lemma moves_request_cancel:
  assumes step: "request_cancel_step now i ts = (ts', Ok (v, b))" and wf: "wf_tasks ts"
  shows "moves Canceller now ts ts'"
proof (cases "find_task i ts")
  case (Some t)
  have known: "known_status (tk_status t)" using wf_find_task [OF wf Some] by (simp add: wf_task_def)
  show ?thesis
  proof (cases "terminal_status (tk_status t)")
    case False
    have "task_trans Canceller now t (clear_task_lease (t\<lparr>tk_cancel_requested := True,
        tk_status := ''cancelled'', tk_message := m, tk_updated_at := now, tk_finished_at := now\<rparr>))" for m
      by (rule task_trans_cancelled [OF known False]) (simp_all add: clear_task_lease_def)
    then have "moves Canceller now ts (upd_task i (clear_task_lease (t\<lparr>tk_cancel_requested := True,
        tk_status := ''cancelled'', tk_message := m, tk_updated_at := now, tk_finished_at := now\<rparr>)) ts)" for m
      by (rule moves_upd [OF wf Some])
    with step Some False show ?thesis
      by (auto simp: request_cancel_step_def Let_def split: prod.splits res.splits)
  qed (use step Some in \<open>simp add: request_cancel_step_def\<close>)
qed (use assms in \<open>simp add: request_cancel_step_def\<close>)

lemma find_task_cancel_loop:
  assumes "cancel_loop sel now msg ts = (ts', n)"
  shows "find_task i ts' = map_option
    (\<lambda>t. if sel t \<and> \<not> terminal_status (tk_status t) then cancel_owned now msg t else t) (find_task i ts)"
  using assms
proof (induction ts arbitrary: ts' n)
  case (Cons t ts)
  obtain us k where us: "cancel_loop sel now msg ts = (us, k)" by fastforce
  have id: "tk_id (cancel_owned now msg t) = tk_id t"
    by (simp add: cancel_owned_def clear_task_lease_def)
  from Cons.IH [OF us] Cons.prems us id show ?case
    by (auto simp: find_task_def split: if_splits)
qed (simp add: find_task_def)

lemma moves_cancel_loop:
  assumes "cancel_loop sel now msg ts = (ts', n)" and "wf_tasks ts"
  shows "moves Canceller now ts ts'"
proof -
  have "task_trans Canceller now t (cancel_owned now msg t)"
    if "find_task i ts = Some t" "\<not> terminal_status (tk_status t)" for i t
    using wf_find_task [OF assms(2) that(1)]
    by (intro task_trans_cancelled [OF _ that(2)])
       (simp_all add: wf_task_def cancel_owned_def clear_task_lease_def)
  then show ?thesis
    by (auto simp: moves_def find_task_cancel_loop [OF assms(1)])
qed

text \<open>The queue's calls, given that the store is alive before and after.\<close>

definition q_moves :: "tq_actor \<Rightarrow> u64 \<Rightarrow> task_queue \<Rightarrow> task_queue \<Rightarrow> bool" where
  "q_moves a now q q' \<longleftrightarrow> st_poisoned (tq_store q') \<or> moves a now (tq_tasks q) (tq_tasks q')"

lemma q_moves_refl [simp]: "q_moves a now q q"
  by (simp add: q_moves_def)

lemma q_moves_notify [simp]: "q_moves a now q (notify_one q') \<longleftrightarrow> q_moves a now q q'"
  by (simp add: q_moves_def notify_one_def)

lemma q_moves_mutate:
  assumes "tq_mutate_if_changed e f q = (q', r)" and inv: "tq_inv q"
    and "\<And>ts ts' v b. wf_tasks ts \<Longrightarrow> f ts = (ts', Ok (v, b)) \<Longrightarrow> moves a now ts ts'"
    and "\<And>ts ts' err. f ts = (ts', Err err) \<Longrightarrow> ts' = ts"
  shows "q_moves a now q q'"
proof (cases "st_poisoned (tq_store q)")
  case True
  with assms(1) show ?thesis by (auto simp: tq_mutate_if_changed_def)
next
  case False
  with inv have wf: "wf_tasks (tq_tasks q)" by (simp add: tq_inv_def)
  obtain st where st: "tx_mutate_if_changed (\<lambda>ts. ts) e f (tq_store q) = (st, r)"
    and q': "q' = q\<lparr>tq_store := st\<rparr>"
    using assms(1) by (auto simp: tq_mutate_if_changed_def split: prod.splits)
  have "st_poisoned st \<or> moves a now (tq_tasks q) (st_mem st)"
  proof (rule tx_store_inv_live [where I = "moves a now (tq_tasks q)", OF st moves_refl])
    fix m err
    assume "f (tq_tasks q) = (m, Err err)"
    then have "m = tq_tasks q" by (rule assms(4))
    then show "moves a now (tq_tasks q) m" by simp
  qed (rule assms(3) [OF wf])
  then show ?thesis by (simp add: q' q_moves_def)
qed

lemma q_moves_push_document_unique:
  assumes "tq_push_document_unique e now uuid owner name doc kb priority q = (q', r)" and inv: "tq_inv q"
  shows "q_moves a now q q'"
proof -
  obtain q1 r1 where m: "tq_mutate_if_changed e
      (push_document_unique_step now uuid owner name doc kb priority) q = (q1, r1)"
    by fastforce
  have "q_moves a now q q1"
  proof (rule q_moves_mutate [OF m inv])
    fix ts ts' v b
    assume "wf_tasks ts" "push_document_unique_step now uuid owner name doc kb priority ts = (ts', Ok (v, b))"
    then show "moves a now ts ts'" by (cases v) (blast intro: moves_push_document_unique)
  qed (auto simp: push_document_unique_step_def split: option.splits prod.splits)
  with assms(1) m show ?thesis
    by (auto simp: tq_push_document_unique_def split: res.splits if_splits)
qed

lemma q_moves_push: "tq_mutate e (push_step t) q = (q', r) \<Longrightarrow> tq_inv q \<Longrightarrow> q_moves a now q q'"
  unfolding tq_mutate_def
  by (erule q_moves_mutate) (auto simp: push_step_def moves_push)

lemma q_moves_push_with_priority:
  assumes "tq_push_with_priority e now uuid owner name doc priority q = (q', r)" and "tq_inv q"
  shows "q_moves a now q q'"
  using assms
  by (auto simp: tq_push_with_priority_def dest: q_moves_push split: if_splits prod.splits res.splits)

lemma q_moves_stage:
  assumes "tq_stage_memory_task e now uuid owner memory_id src payload q = (q', r)" and "tq_inv q"
  shows "q_moves a now q q'"
  using assms
  by (auto simp: tq_stage_memory_task_def dest: q_moves_push split: if_splits prod.splits)

lemma q_moves_publish:
  assumes "tq_publish_memory_task e now i q = (q', r)" and inv: "tq_inv q"
  shows "q_moves Dispatcher now q q'"
proof -
  obtain q1 r1 where m: "tq_mutate_if_changed e (publish_memory_step now i) q = (q1, r1)" by fastforce
  have "q_moves Dispatcher now q q1"
    by (rule q_moves_mutate [OF m inv]) (blast intro: moves_publish tq_publish.oper_err)+
  with assms m show ?thesis by (auto simp: tq_publish_memory_task_def split: if_splits)
qed

lemma q_moves_step: "tq_step a now q q' \<Longrightarrow> tq_inv q \<Longrightarrow> q_moves a now q q'"
proof (induction rule: tq_step.induct)
  case step_discard
  then show ?case
    unfolding tq_discard_staged_memory_task_def
    by - (erule q_moves_mutate, auto intro: moves_discard_staged dest: tq_discard.oper_err)
next
  case step_claim
  then show ?case
    unfolding tq_claim_def
    by (auto split: if_splits elim!: q_moves_mutate intro: moves_claim dest: tq_claiming.oper_err)
next
  case step_renew
  then show ?case
    unfolding tq_renew_lease_def
    by (auto split: if_splits elim!: q_moves_mutate intro: moves_renew dest: tq_renewing.oper_err)
next
  case step_update_claimed
  then show ?case
    unfolding tq_update_claimed_def
    by (auto elim!: q_moves_mutate intro: moves_update_claimed dest: tq_updating_claimed.oper_err)
next
  case step_update
  then show ?case
    unfolding tq_update_def
    by (auto elim!: q_moves_mutate intro: moves_update dest: tq_updating.oper_err)
next
  case step_cancel
  then show ?case
    unfolding tq_request_cancel_def
    by (auto elim!: q_moves_mutate intro: moves_request_cancel dest: tq_cancelling.oper_err)
next
  case step_cancel_document
  then show ?case
    unfolding tq_cancel_document_def
    by - (erule q_moves_mutate, auto simp: cancel_document_step_def split: prod.splits intro: moves_cancel_loop)
next
  case step_cancel_memory
  then show ?case
    unfolding tq_cancel_memory_def
    by - (erule q_moves_mutate, auto simp: cancel_memory_step_def split: prod.splits intro: moves_cancel_loop)
qed (auto simp: tq_activate_def tq_deactivate_def notify_one_def q_moves_def split: if_splits
      dest: q_moves_push_document_unique q_moves_push_with_priority q_moves_stage q_moves_publish)

lemma tq_mutate_poisoned:
  "tq_mutate_if_changed e f q = (q', r) \<Longrightarrow> st_poisoned (tq_store q) \<Longrightarrow> st_poisoned (tq_store q')"
  by (auto simp: tq_mutate_if_changed_def)

lemma tq_step_poisoned:
  "tq_step a now q q' \<Longrightarrow> st_poisoned (tq_store q) \<Longrightarrow> st_poisoned (tq_store q')"
proof (induction rule: tq_step.induct)
  case step_push_unique
  then show ?case
    by (auto simp: tq_push_document_unique_def notify_one_def dest: tq_mutate_poisoned
        split: if_splits prod.splits res.splits)
next
  case step_push
  then show ?case
    by (auto simp: tq_push_with_priority_def tq_mutate_def notify_one_def dest: tq_mutate_poisoned
        split: if_splits prod.splits res.splits)
qed (auto simp: tq_stage_memory_task_def tq_publish_memory_task_def tq_discard_staged_memory_task_def
      tq_claim_def tq_renew_lease_def tq_update_claimed_def tq_update_def tq_request_cancel_def
      tq_cancel_document_def tq_cancel_memory_def tq_activate_def tq_deactivate_def tq_mutate_def
      notify_one_def dest: tq_mutate_poisoned split: if_splits prod.splits)

abbreviation tq_alive :: "task_queue \<Rightarrow> bool" where
  "tq_alive q \<equiv> \<not> st_poisoned (tq_store q)"

lemma tq_step_moves:
  assumes "tq_step a now q q'" and "tq_inv q" and "tq_alive q'"
  shows "tq_alive q \<and> wf_tasks (tq_tasks q) \<and> moves a now (tq_tasks q) (tq_tasks q')"
  using assms q_moves_step tq_step_poisoned by (auto simp: q_moves_def tq_inv_def)

section \<open>Exclusion of two holders\<close>

text \<open>
  A run that leaves the holder of a lease alone: any calls up to time \<open>T\<close>, except reports
  under the lease \<open>token\<close> of task \<open>i\<close>, verdicts on that task that ask for no lease, and cancellations.
\<close>

inductive quiet_run :: "string \<Rightarrow> string \<Rightarrow> u64 \<Rightarrow> task_queue \<Rightarrow> task_queue \<Rightarrow> bool"
  for i token T where
  quiet_refl: "quiet_run i token T q q"
| quiet_step:
    "quiet_run i token T q q' \<Longrightarrow> tq_step a now q' q'' \<Longrightarrow> now \<le> T \<Longrightarrow>
     a \<notin> {Worker i token, Overruler i, Canceller} \<Longrightarrow> quiet_run i token T q q''"

text \<open>The automaton itself leaves such a lease alone.\<close>

lemma phase_step_quiet:
  assumes "phase_step i limit a now (Leased token deadline, n) s"
    and "now < deadline" and "a \<notin> {Worker i token, Overruler i, Canceller}"
  shows False
  using assms(1) by (rule phase_step_LeasedE) (use assms(2,3) in auto)

definition holds_lease :: "string \<Rightarrow> string \<Rightarrow> u64 \<Rightarrow> u32 \<Rightarrow> task_queue \<Rightarrow> bool" where
  "holds_lease i token deadline n q \<longleftrightarrow>
     (\<exists>t. find_task i (tq_tasks q) = Some t \<and> abs_task t = (Leased token deadline, n))"

lemma quiet_run_holds:
  assumes "quiet_run i token T q q'" and "tq_inv q" and "holds_lease i token deadline n q"
    and "T < deadline" and "tq_alive q'"
  shows "holds_lease i token deadline n q' \<and> tq_inv q'"
  using assms
proof (induction rule: quiet_run.induct)
  case (quiet_step q q' a now q'')
  from tq_step_poisoned [OF quiet_step.hyps(2)] quiet_step.prems(4) have "tq_alive q'" by blast
  with quiet_step have held: "holds_lease i token deadline n q'" and inv: "tq_inv q'" by blast+
  from held obtain t where t: "find_task i (tq_tasks q') = Some t"
    and abs: "abs_task t = (Leased token deadline, n)" by (auto simp: holds_lease_def)
  have "moves a now (tq_tasks q') (tq_tasks q'')"
    using tq_step_moves [OF quiet_step.hyps(2) inv quiet_step.prems(4)] by blast
  then obtain t' where t': "find_task i (tq_tasks q'') = Some t'" and tr: "task_trans a now t t'"
    by (rule movesE [OF _ t]) (use abs in \<open>simp add: abs_task_def\<close>)
  have id: "tk_id t = i" using find_task_SomeD [OF t] by simp
  have "now < deadline" using quiet_step.hyps(3) quiet_step.prems(3) by (rule le_less_trans)
  with tr phase_step_quiet [of i _ a now token deadline n "abs_task t'"] quiet_step.hyps(4)
  have "abs_task t' = abs_task t"
    by (auto simp: task_trans_def abs id)
  with t' abs have "holds_lease i token deadline n q''" by (auto simp: holds_lease_def)
  with tq_inv_step [OF quiet_step.hyps(2) inv] show ?case by blast
qed blast

lemma wf_task_leased:
  assumes "wf_task t" and "task_phase t = Leased token deadline"
  shows "tk_status t = ''running'' \<and> \<not> tk_cancel_requested t \<and> tk_lease_token t = token
    \<and> tk_lease_expires_at t = deadline"
  using assms by (auto simp: wf_task_def task_phase_def split: if_splits)

lemma claim_step_Some:
  assumes "claim_step now token i worker duration msg ts = (ts', Ok (Some l, b))"
  obtains t where "find_task i ts = Some t" "claimable now t" "b"
    "ts' = upd_task i (claimed_task now token worker duration msg t) ts"
    "tl_token l = token" "tl_attempt l = tk_retry_count t + 1"
  using assms
  by (auto simp: claim_step_def Let_def claimed_task_def split: option.splits if_splits)

lemma tq_claim_SomeE:
  assumes "tq_claim e now token i worker duration msg q = (q', Ok (Some l))" and "tq_alive q"
  obtains t where "find_task i (tq_tasks q) = Some t" "claimable now t"
    "tq_tasks q' = upd_task i (claimed_task now token worker duration msg t) (tq_tasks q)"
    "tl_token l = token" "tl_attempt l = tk_retry_count t + 1" "worker \<noteq> []" "tq_alive q'"
proof -
  have args: "worker \<noteq> []" "duration \<noteq> 0"
    using assms(1) by (auto simp: tq_claim_def split: if_splits)
  with assms(1) obtain st where st: "tx_mutate_if_changed (\<lambda>ts. ts) e
      (claim_step now token i worker duration msg) (tq_store q) = (st, Ok (Some l))"
    and q': "q' = q\<lparr>tq_store := st\<rparr>"
    by (auto simp: tq_claim_def tq_mutate_if_changed_def split: prod.splits)
  from tq_claiming.store_refines [OF st] obtain b
    where b: "claim_step now token i worker duration msg (tq_tasks q) = (st_mem st, Ok (Some l, b))"
    by blast
  have "\<not> st_poisoned st"
    using st by (cases rule: tx_mutate_cases) (use assms(2) in auto)
  with b q' args that show ?thesis by (auto elim!: claim_step_Some)
qed

lemma tq_claim_holds:
  assumes "tq_claim e now token i worker duration msg q = (q', Ok (Some l))"
    and "tq_inv q" and "tq_alive q" and "token \<noteq> []"
  shows "tq_inv q' \<and> tq_alive q' \<and> holds_lease i token (sat_add now duration) (tl_attempt l) q'"
proof -
  have wf: "wf_tasks (tq_tasks q)" using assms(2,3) by (simp add: tq_inv_def)
  obtain t where t: "find_task i (tq_tasks q) = Some t" "claimable now t"
    "tq_tasks q' = upd_task i (claimed_task now token worker duration msg t) (tq_tasks q)"
    "tl_attempt l = tk_retry_count t + 1" "tq_alive q'"
    by (rule tq_claim_SomeE [OF assms(1,3)])
  have "tk_id t = i" using find_task_SomeD [OF t(1)] by simp
  then have "find_task i (tq_tasks q') = Some (claimed_task now token worker duration msg t)"
    unfolding t(3) by (subst find_task_upd [OF wf t(1)]) (simp_all add: claimed_task_def)
  then have "holds_lease i token (sat_add now duration) (tl_attempt l) q'"
    by (simp add: holds_lease_def abs_task_def task_phase_def claimed_task_def t(4))
  with t(5) tq_inv_claim [OF assms(1,4,2)] show ?thesis by blast
qed

lemma held_lease_owned:
  assumes "holds_lease i token deadline n q" and "tq_inv q" and "tq_alive q" and "T < deadline"
  shows "tq_owns_lease T i token q = Ok True"
    and "worker \<noteq> [] \<Longrightarrow> duration \<noteq> 0 \<Longrightarrow> tq_claim e T token' i worker duration msg q = (q, Ok None)"
    and "token' \<noteq> token \<Longrightarrow>
      tq_update_claimed e T now' i token' status progress msg q = (q, Ok False)"
proof -
  obtain t where t: "find_task i (tq_tasks q) = Some t" and abs: "abs_task t = (Leased token deadline, n)"
    using assms(1) by (auto simp: holds_lease_def)
  have "wf_task t" using assms(2,3) t wf_find_task by (auto simp: tq_inv_def)
  then have live: "tk_status t = ''running''" "\<not> tk_cancel_requested t" "tk_lease_token t = token"
      "tk_lease_expires_at t = deadline"
    using wf_task_leased [of t token deadline] abs by (auto simp: abs_task_def)
  from live t assms(3,4) show "tq_owns_lease T i token q = Ok True"
    by (simp add: tq_owns_lease_def tx_read_def lease_owned_def)
  have "\<not> claimable T t" using live assms(4) by (auto simp: claimable_def)
  then show "tq_claim e T token' i worker duration msg q = (q, Ok None)"
    if "worker \<noteq> []" "duration \<noteq> 0"
    using that t assms(3)
    by (simp add: tq_claim_def tq_mutate_if_changed_def tx_mutate_if_changed_def claim_step_def)
  show "tq_update_claimed e T now' i token' status progress msg q = (q, Ok False)" if "token' \<noteq> token"
    using that live t assms(3,4)
    by (simp add: tq_update_claimed_def tq_mutate_if_changed_def tx_mutate_if_changed_def
        update_claimed_step_def)
qed

section \<open>A small queue for the witnesses\<close>

definition demo_task :: task where
  "demo_task = new_task ''t1'' ''alice'' ''parse'' ''d1'' ''kb1'' ''document_parse'' 0 1000"

definition demo_queue :: "task list \<Rightarrow> task_queue" where
  "demo_queue ts = \<lparr>tq_store = \<lparr>st_mem = ts, st_disk = \<lparr>dk_file = Some ts, dk_mirror = None\<rparr>,
     st_poisoned = False\<rparr>, tq_active = [], tq_permit = False\<rparr>"

abbreviation demo_claimed :: task where
  "demo_claimed \<equiv> claimed_task 2000 ''tok'' ''w1'' 500 ''go'' demo_task"

lemma demo_inv: "list_all wf_task ts \<Longrightarrow> distinct (map tk_id ts) \<Longrightarrow> tq_inv (demo_queue ts)"
  by (simp add: tq_inv_def demo_queue_def wf_tasks_def)

lemma demo_task_wf: "wf_task demo_task"
  by (simp add: demo_task_def wf_new_task valid_priority_def TASK_PRIORITY_LOW_def)

lemma demo_queue_inv: "tq_inv (demo_queue [demo_task])"
  by (simp add: demo_inv demo_task_wf)

lemma demo_claim:
  "tq_claim None 2000 ''tok'' ''t1'' ''w1'' 500 ''go'' (demo_queue [demo_task]) =
     ((demo_queue [demo_task])\<lparr>tq_store := (tq_store (demo_queue [demo_task]))\<lparr>st_mem := [demo_claimed]\<rparr>\<rparr>,
      Ok (Some \<lparr>tl_token = ''tok'', tl_attempt = 1\<rparr>))"
  by (simp add: tq_claim_def tq_mutate_if_changed_def tx_mutate_if_changed_def claim_step_def
      demo_queue_def find_task_def demo_task_def new_task_def claimable_def default_max_retries_def
      claimed_task_def Let_def)

lemma demo_claim_step:
  "tq_step Dispatcher 2000 (demo_queue [demo_task])
     (fst (tq_claim None 2000 ''tok'' ''t1'' ''w1'' 500 ''go'' (demo_queue [demo_task])))"
  by (rule step_claim [of "''tok''" _ None 2000 "''t1''" "''w1''" 500 "''go''" _
        "snd (tq_claim None 2000 ''tok'' ''t1'' ''w1'' 500 ''go'' (demo_queue [demo_task]))"])
     (simp_all add: demo_queue_def demo_task_def new_task_def)

section \<open>Properties\<close>

text \<open>
  C7. The task queue's invariant is kept by every run: whatever calls are made, at whatever
  times, with whatever arguments and disk failures, every task has a known status, no more
  executions than its limit, a worker and a token exactly while it runs, a final status once its
  cancellation was asked for, a valid priority and a progress in \<open>[0, 1]\<close>, and ids stay distinct --
  unless a panic has poisoned the lock, after which the queue answers nothing.
\<close>

theorem tq_run_invariant:
  assumes "tq_run q q'" and "tq_inv q"
  shows "tq_inv q'"
  using assms by (induction rule: tq_run.induct) (auto intro: tq_inv_step)

theorem tq_run_invariant_witness:
  "tq_inv (fst (tq_claim None 2000 ''tok'' ''t1'' ''w1'' 500 ''go'' (demo_queue [demo_task])))"
  by (rule tq_run_invariant [OF run_step [OF run_refl demo_claim_step] demo_queue_inv])



text \<open>
  C3. Exclusion: once a worker has claimed a task, then up to the deadline, and whatever
  other calls happen (other workers' claims and reports, and verdicts on other tasks, included),
  the worker still owns the lease, no one else can claim the task, and no report under
  another token has any effect. Excluded are what ends the lease by design, cancellations, and
  \<open>update\<close> on this very task, which asks for no lease (\<open>update_overrules_lease\<close>).
\<close>

theorem tq_lease_exclusive:
  assumes "tq_claim e now token i worker duration msg q = (q1, Ok (Some l))"
    and "tq_inv q" and "tq_alive q" and "token \<noteq> []"
    and "quiet_run i token T q1 q2" and "T < sat_add now duration" and "tq_alive q2"
    and "worker' \<noteq> []" and "duration' \<noteq> 0" and "token' \<noteq> token"
  shows "tq_owns_lease T i token q2 = Ok True
    \<and> tq_claim e' T token'' i worker' duration' msg' q2 = (q2, Ok None)
    \<and> tq_update_claimed e' T now' i token' status progress msg' q2 = (q2, Ok False)"
proof -
  have "tq_inv q1" and held: "holds_lease i token (sat_add now duration) (tl_attempt l) q1"
    using tq_claim_holds [OF assms(1-4)] by auto
  then have "holds_lease i token (sat_add now duration) (tl_attempt l) q2 \<and> tq_inv q2"
    using quiet_run_holds [OF assms(5) _ held assms(6,7)] by blast
  with held_lease_owned [of i token "sat_add now duration" "tl_attempt l" q2 T] assms(6-10)
  show ?thesis by blast
qed

theorem tq_lease_exclusive_witness:
  "let q = fst (tq_claim None 2000 ''tok'' ''t1'' ''w1'' 500 ''go'' (demo_queue [demo_task]))
   in tq_owns_lease 2400 ''t1'' ''tok'' q = Ok True
    \<and> tq_claim None 2400 ''tok2'' ''t1'' ''w2'' 500 ''go'' q = (q, Ok None)
    \<and> tq_update_claimed None 2400 2401 ''t1'' ''old'' ''done'' (Fin 1) ''go'' q = (q, Ok False)"
  unfolding Let_def demo_claim fst_conv
  by (rule tq_lease_exclusive [OF demo_claim demo_queue_inv _ _ quiet_refl])
     (simp_all add: demo_queue_def sat_add_def)

text \<open>
  Why \<open>update\<close> on the task is excluded: it finishes the task under the holder of a live lease, whose
  later report is dropped. The dispatcher calls it on tasks it has read as pending before.
\<close>

theorem update_overrules_lease:
  assumes "tq_update e now i status progress msg q = (q', Ok True)" and "tq_inv q" and "tq_alive q"
    and "terminal_status status" and "holds_lease i token deadline n q"
  shows "tq_owns_lease T i token q' = Ok False \<and>
    tq_update_claimed e' T now' i token status' progress' msg' q' = (q', Ok False)"
proof -
  have wf: "wf_tasks (tq_tasks q)" using assms(2,3) by (simp add: tq_inv_def)
  obtain t where t: "find_task i (tq_tasks q) = Some t" using assms(5) by (auto simp: holds_lease_def)
  let ?u = "settle_status status (t\<lparr>tk_status := status, tk_progress := progress, tk_message := msg,
      tk_updated_at := now\<rparr>)"
  obtain st where st: "tx_mutate_if_changed (\<lambda>ts. ts) e (update_step now i status progress msg) (tq_store q)
      = (st, Ok True)" and q': "q' = q\<lparr>tq_store := st\<rparr>"
    using assms(1) by (auto simp: tq_update_def tq_mutate_if_changed_def split: prod.splits)
  have "\<exists>b. update_step now i status progress msg (tq_tasks q) = (st_mem st, Ok (True, b))"
    using tq_updating.store_refines [OF st] by blast
  with t have mem: "st_mem st = upd_task i ?u (tq_tasks q)" by (auto simp: update_step_def)
  have alive: "\<not> st_poisoned st"
    using st by (cases rule: tx_mutate_cases) (use assms(3) in auto)
  have "tk_id ?u = i" using find_task_SomeD [OF t] by (simp add: settle_status_def clear_task_lease_def)
  then have u: "find_task i (tq_tasks q') = Some ?u" using find_task_upd [OF wf t] by (simp add: q' mem)
  have "tk_status ?u \<noteq> ''running''"
    using assms(4) by (auto simp: settle_status_def clear_task_lease_def terminal_status_def)
  with u alive q' show ?thesis
    by (simp add: tq_owns_lease_def tx_read_def lease_owned_def tq_update_claimed_def
        tq_mutate_if_changed_def tx_mutate_if_changed_def update_claimed_step_def)
qed

lemma tq_run_alive: "tq_run q q' \<Longrightarrow> tq_alive q' \<Longrightarrow> tq_alive q"
  by (induction rule: tq_run.induct) (auto dest: tq_step_poisoned)

text \<open>
  A finished task stays finished: no later call, in any run, moves a task out of
  \<open>done\<close>, \<open>failed\<close> or \<open>cancelled\<close>, removes it, or starts it again; in particular a
  cancellation is final and a late report of a worker is ignored.
\<close>

theorem tq_finished_final:
  assumes "tq_run q q'" and "tq_inv q" and "tq_alive q'"
    and "find_task i (tq_tasks q) = Some t" and "task_phase t = Finished"
  shows "\<exists>t'. find_task i (tq_tasks q') = Some t' \<and> task_phase t' = Finished
    \<and> tk_retry_count t' = tk_retry_count t"
  using assms
proof (induction rule: tq_run.induct)
  case (run_step q q' a now q'')
  have alive: "tq_alive q'" using tq_step_poisoned [OF run_step.hyps(2)] run_step.prems(2) by blast
  have inv: "tq_inv q'"
    using run_step.hyps(1) run_step.prems(1) by (induction rule: tq_run.induct) (auto intro: tq_inv_step)
  obtain t' where t': "find_task i (tq_tasks q') = Some t'" "task_phase t' = Finished"
      "tk_retry_count t' = tk_retry_count t"
    using run_step.IH [OF run_step.prems(1) alive run_step.prems(3,4)] by blast
  have "moves a now (tq_tasks q') (tq_tasks q'')"
    using tq_step_moves [OF run_step.hyps(2) inv run_step.prems(2)] by blast
  then obtain u where "find_task i (tq_tasks q'') = Some u" "task_trans a now t' u"
    by (rule movesE [OF _ t'(1)]) (simp add: t'(2))
  with t' show ?case by (auto simp: task_trans_def abs_task_def)
qed simp

theorem tq_finished_final_witness:
  "\<exists>t'. find_task ''t1'' (tq_tasks (fst (tq_claim None 2000 ''tok'' ''t1'' ''w1'' 500 ''go''
      (demo_queue [demo_task\<lparr>tk_status := ''done''\<rparr>])))) = Some t' \<and> task_phase t' = Finished
    \<and> tk_retry_count t' = tk_retry_count (demo_task\<lparr>tk_status := ''done''\<rparr>)"
proof -
  let ?d = "demo_task\<lparr>tk_status := ''done''\<rparr>"
  have same: "tq_claim None 2000 ''tok'' ''t1'' ''w1'' 500 ''go'' (demo_queue [?d]) = (demo_queue [?d], Ok None)"
    by (simp add: tq_claim_def tq_mutate_if_changed_def tx_mutate_if_changed_def claim_step_def
        demo_queue_def find_task_def demo_task_def new_task_def claimable_def)
  have step: "tq_step Dispatcher 2000 (demo_queue [?d]) (demo_queue [?d])"
    by (rule step_claim [of "''tok''", OF _ _ same]) (simp_all add: demo_queue_def demo_task_def new_task_def)
  have inv: "tq_inv (demo_queue [?d])"
    by (rule demo_inv) (simp_all add: demo_task_def new_task_def wf_task_def known_status_def
        lease_cleared_def valid_priority_def TASK_PRIORITY_LOW_def default_max_retries_def)
  show ?thesis
    unfolding same fst_conv
    by (rule tq_finished_final [OF run_step [OF run_refl step] inv])
       (simp_all add: demo_queue_def find_task_def demo_task_def new_task_def task_phase_def)
qed

text \<open>
  A successful claim hands out the next attempt number, at most the task's limit, for
  a task that is first in the vector with its id and was claimable at that moment.
\<close>

theorem tq_claim_attempt:
  assumes "tq_claim e now token i worker duration msg q = (q', Ok (Some l))" and "tq_alive q"
  shows "\<exists>t. find_task i (tq_tasks q) = Some t \<and> claimable now t \<and> tl_token l = token
    \<and> unat (tl_attempt l) = Suc (unat (tk_retry_count t)) \<and> tl_attempt l \<le> tk_max_retries t"
proof -
  obtain t where t: "find_task i (tq_tasks q) = Some t" "claimable now t" "tl_token l = token"
    "tl_attempt l = tk_retry_count t + 1"
    by (rule tq_claim_SomeE [OF assms])
  from t(2) have "tk_retry_count t < tk_max_retries t" by (simp add: claimable_def)
  with t show ?thesis by (auto simp: unat_inc word_inc_le)
qed

theorem tq_claim_attempt_witness:
  "\<exists>t. find_task ''t1'' (tq_tasks (demo_queue [demo_task])) = Some t \<and> claimable 2000 t
    \<and> tl_token \<lparr>tl_token = ''tok'', tl_attempt = 1\<rparr> = ''tok''
    \<and> unat (tl_attempt \<lparr>tl_token = ''tok'', tl_attempt = 1\<rparr>) = Suc (unat (tk_retry_count t))
    \<and> tl_attempt \<lparr>tl_token = ''tok'', tl_attempt = 1\<rparr> \<le> tk_max_retries t"
  by (rule tq_claim_attempt [OF demo_claim]) (simp add: demo_queue_def)

section \<open>The pending list\<close>

definition pending_key :: "u64 \<Rightarrow> task \<Rightarrow> int \<times> u64 \<times> string" where
  "pending_key now t = (- effective_priority t now, tk_created_at t, tk_id t)"

lemma pending_tasks_eq: "pending_tasks now ts = sort_key (pending_key now) (filter (claimable now) ts)"
  by (simp add: pending_tasks_def pending_key_def [abs_def])

lemma effective_priority_aged:
  assumes "unat (tk_created_at t) + 60000 \<le> unat now"
  shows "effective_priority t now = TASK_PRIORITY_HIGH"
proof -
  have "60000 \<le> unat now - unat (tk_created_at t)" using assms by linarith
  then show ?thesis
    by (simp add: effective_priority_def TASK_PRIORITY_AGING_MS_def word_le_nat_alt unat_sat_sub)
qed

lemma effective_priority_le: "effective_priority t now \<le> TASK_PRIORITY_HIGH"
  by (simp add: effective_priority_def TASK_PRIORITY_LOW_def TASK_PRIORITY_HIGH_def)

lemma sorted_key_nth:
  "sorted (map f xs) \<Longrightarrow> i < j \<Longrightarrow> j < length xs \<Longrightarrow> f (xs ! i) \<le> f (xs ! j)"
  using sorted_nth_mono [of "map f xs" i j] by simp

text \<open>
  The pending list is exactly the claimable tasks, each as often as stored, ordered by
  effective priority, then age, then id; and no task starves: one that is sixty seconds old
  stands before every task created after it, whatever that task's priority.
\<close>

theorem pending_tasks_fair:
  "mset (pending_tasks now ts) = filter_mset (claimable now) (mset ts)
    \<and> sorted (map (pending_key now) (pending_tasks now ts))
    \<and> (\<forall>i j. i < j \<longrightarrow> j < length (pending_tasks now ts) \<longrightarrow>
         unat (tk_created_at (pending_tasks now ts ! j)) + 60000 \<le> unat now \<longrightarrow>
         tk_created_at (pending_tasks now ts ! i) \<le> tk_created_at (pending_tasks now ts ! j))"
proof (intro conjI allI impI)
  let ?p = "pending_tasks now ts"
  show "mset ?p = filter_mset (claimable now) (mset ts)" by (simp add: pending_tasks_eq)
  show sorted: "sorted (map (pending_key now) ?p)" by (simp add: pending_tasks_eq)
  fix i j
  assume ij: "i < j" "j < length ?p" and old: "unat (tk_created_at (?p ! j)) + 60000 \<le> unat now"
  have "pending_key now (?p ! i) \<le> pending_key now (?p ! j)"
    by (rule sorted_key_nth [OF sorted ij])
  moreover have "effective_priority (?p ! i) now \<le> effective_priority (?p ! j) now"
    using effective_priority_aged [OF old] effective_priority_le [of "?p ! i" now] by simp
  ultimately show "tk_created_at (?p ! i) \<le> tk_created_at (?p ! j)"
    by (auto simp: pending_key_def)
qed

theorem pending_tasks_fair_witness:
  "let old = demo_task\<lparr>tk_id := ''old''\<rparr>;
       urgent = demo_task\<lparr>tk_priority := 1, tk_created_at := 62000\<rparr>
   in pending_tasks 63000 [urgent, old] = [old, urgent]
    \<and> mset (pending_tasks 63000 [urgent, old]) = filter_mset (claimable 63000) (mset [urgent, old])"
proof -
  have "effective_priority (demo_task\<lparr>tk_id := ''old''\<rparr>) 63000 = TASK_PRIORITY_HIGH"
    by (simp add: effective_priority_def demo_task_def new_task_def sat_sub_def TASK_PRIORITY_AGING_MS_def)
  then show ?thesis
    unfolding Let_def
    by (intro conjI pending_tasks_fair [THEN conjunct1])
       (simp add: pending_tasks_def claimable_def demo_task_def new_task_def default_max_retries_def
          effective_priority_def TASK_PRIORITY_HIGH_def less_eq_prod_def less_prod_def)
qed

section \<open>One live task per document\<close>

lemma filter_modify_first:
  "find P xs = Some x \<Longrightarrow> P x' \<Longrightarrow> filter P (modify_first P (\<lambda>_. x') xs) = x' # tl (filter P xs)"
  by (induction xs) (auto split: if_splits)

lemma filter_modify_first_other:
  "find P xs = Some x \<Longrightarrow> \<not> Q x \<Longrightarrow> \<not> Q x' \<Longrightarrow>
     filter Q (modify_first P (\<lambda>_. x') xs) = filter Q xs"
  by (induction xs) (auto split: if_splits)

lemma find_filter_Nil: "find P xs = None \<longleftrightarrow> filter P xs = []"
  by (induction xs) auto

lemma tq_mutate_OkE:
  assumes "tq_mutate_if_changed e f q = (q', Ok v)"
  obtains b where "f (tq_tasks q) = (tq_tasks q', Ok (v, b))" "tq_alive q" "tq_alive q'"
proof -
  obtain st where st: "tx_mutate_if_changed (\<lambda>ts. ts) e f (tq_store q) = (st, Ok v)"
    and q': "q' = q\<lparr>tq_store := st\<rparr>"
    using assms by (auto simp: tq_mutate_if_changed_def split: prod.splits)
  show ?thesis
    using st by (cases rule: tx_mutate_cases) (auto simp: q' intro: that)
qed

text \<open>
  \<open>push_document_unique\<close> keeps at most one live task for the document: it answers the
  id of the only live one, whether it just created it, and its priority is at least the one
  requested; tasks of other documents are untouched.
\<close>

theorem tq_push_document_unique_live:
  assumes "tq_push_document_unique e now uuid owner name doc kb priority q = (q', Ok (i, created))"
    and "length (filter (live_document_task doc) (tq_tasks q)) \<le> 1"
  shows "\<exists>t. filter (live_document_task doc) (tq_tasks q') = [t] \<and> tk_id t = i \<and> priority \<le> tk_priority t
    \<and> created = (filter (live_document_task doc) (tq_tasks q) = [])
    \<and> filter (\<lambda>t. tk_doc_id t \<noteq> doc) (tq_tasks q') = filter (\<lambda>t. tk_doc_id t \<noteq> doc) (tq_tasks q)"
proof -
  let ?live = "live_document_task doc"
  obtain q1 c where m: "tq_mutate_if_changed e
      (push_document_unique_step now uuid owner name doc kb priority) q = (q1, Ok (i, created, c))"
    and q': "tq_tasks q' = tq_tasks q1"
    using assms(1)
    by (auto simp: tq_push_document_unique_def notify_one_def split: if_splits prod.splits res.splits)
  obtain b where step: "push_document_unique_step now uuid owner name doc kb priority (tq_tasks q)
      = (tq_tasks q', Ok ((i, created, c), b))"
    by (rule tq_mutate_OkE [OF m]) (simp add: q')
  show ?thesis
  proof (cases "find ?live (tq_tasks q)")
    case None
    with step have eq: "tq_tasks q' = tq_tasks q @ [new_task i owner name doc kb ''document_parse'' priority now]"
      and "created"
      by (auto simp: push_document_unique_step_def)
    with None show ?thesis
      unfolding eq by (simp add: find_filter_Nil) (simp add: new_task_def live_document_task_def)
  next
    case (Some t)
    then have t: "?live t" by (blast dest: find_SomeD)
    obtain t' c' where t': "refresh_live_task now kb priority t = (t', c')" by fastforce
    have live': "?live t'"
      using t by (simp add: live_document_task_def refresh_live_task_fields [OF t'])
    from step Some t' have eq: "tq_tasks q' = modify_first ?live (\<lambda>_. t') (tq_tasks q)"
      and i: "i = tk_id t" and created: "\<not> created"
      by (auto simp: push_document_unique_step_def)
    have "filter ?live (tq_tasks q) \<noteq> []" unfolding find_filter_Nil [symmetric] Some by simp
    moreover have "tl (filter ?live (tq_tasks q)) = []" using assms(2)
      by (cases "filter ?live (tq_tasks q)") auto
    moreover have "filter (\<lambda>t. tk_doc_id t \<noteq> doc) (tq_tasks q')
        = filter (\<lambda>t. tk_doc_id t \<noteq> doc) (tq_tasks q)"
      unfolding eq by (rule filter_modify_first_other [OF Some])
         (use t live' in \<open>simp_all add: live_document_task_def\<close>)
    ultimately show ?thesis
      unfolding eq filter_modify_first [OF Some live']
      using i created by (simp add: refresh_live_task_fields [OF t'])
  qed
qed

theorem tq_push_document_unique_live_witness:
  "\<exists>t. filter (live_document_task ''d1'')
        (tq_tasks (fst (tq_push_document_unique None 3000 ''t2'' ''bob'' ''again'' ''d1'' [] 1
           (demo_queue [demo_task])))) = [t]
    \<and> tk_id t = ''t1'' \<and> 1 \<le> tk_priority t
    \<and> False = (filter (live_document_task ''d1'') (tq_tasks (demo_queue [demo_task])) = [])
    \<and> filter (\<lambda>t. tk_doc_id t \<noteq> ''d1'')
        (tq_tasks (fst (tq_push_document_unique None 3000 ''t2'' ''bob'' ''again'' ''d1'' [] 1
           (demo_queue [demo_task])))) = filter (\<lambda>t. tk_doc_id t \<noteq> ''d1'') (tq_tasks (demo_queue [demo_task]))"
proof (rule tq_push_document_unique_live)
  let ?q = "tq_push_document_unique None 3000 ''t2'' ''bob'' ''again'' ''d1'' [] 1 (demo_queue [demo_task])"
  have "snd ?q = Ok (''t1'', False)"
    by (simp add: tq_push_document_unique_def valid_priority_def TASK_PRIORITY_HIGH_def
        TASK_PRIORITY_LOW_def tq_mutate_if_changed_def tx_mutate_if_changed_def demo_queue_def
        push_document_unique_step_def live_document_task_def demo_task_def new_task_def
        refresh_live_task_def)
  then show "?q = (fst ?q, Ok (''t1'', False))" by (metis prod.collapse)
qed (simp add: demo_queue_def)

lemma modify_first_append:
  "find P xs = None \<Longrightarrow> modify_first P f (xs @ ys) = xs @ modify_first P f ys"
  by (induction xs) (auto split: if_splits)

section \<open>Cancelling a document\<close>

lemma cancel_loop_spec:
  "cancel_loop sel now msg ts = (ts', n) \<Longrightarrow> (\<And>t. sel (cancel_owned now msg t) = sel t) \<Longrightarrow>
     n = length (filter (\<lambda>t. sel t \<and> \<not> terminal_status (tk_status t)) ts)
     \<and> (\<forall>t \<in> set ts'. sel t \<longrightarrow> terminal_status (tk_status t))
     \<and> filter (\<lambda>t. \<not> sel t) ts' = filter (\<lambda>t. \<not> sel t) ts"
proof (induction ts arbitrary: ts' n)
  case (Cons t ts)
  obtain us k where us: "cancel_loop sel now msg ts = (us, k)" by fastforce
  have "terminal_status (tk_status (cancel_owned now msg t))"
    by (simp add: cancel_owned_def clear_task_lease_def terminal_status_def)
  with Cons.IH [OF us Cons.prems(2)] Cons.prems us show ?case by (auto split: if_splits)
qed simp

text \<open>
  Deleting a document cancels every parse task of it that was not finished, and only
  those: the answer is their number, no unfinished task of the document is left, and all
  other tasks are exactly as they were.
\<close>

theorem tq_cancel_document_complete:
  assumes "tq_cancel_document e now doc q = (q', Ok n)"
  shows "n = length (filter (\<lambda>t. tk_task_type t = ''document_parse'' \<and> tk_doc_id t = doc
               \<and> \<not> terminal_status (tk_status t)) (tq_tasks q))
    \<and> filter (live_document_task doc) (tq_tasks q') = []
    \<and> filter (\<lambda>t. \<not> (tk_task_type t = ''document_parse'' \<and> tk_doc_id t = doc)) (tq_tasks q')
      = filter (\<lambda>t. \<not> (tk_task_type t = ''document_parse'' \<and> tk_doc_id t = doc)) (tq_tasks q)"
proof -
  let ?sel = "\<lambda>t. tk_task_type t = ''document_parse'' \<and> tk_doc_id t = doc"
  obtain b where "cancel_document_step now doc (tq_tasks q) = (tq_tasks q', Ok (n, b))"
    using assms unfolding tq_cancel_document_def by (rule tq_mutate_OkE)
  then have "cancel_loop ?sel now ''Document deleted'' (tq_tasks q) = (tq_tasks q', n)"
    by (auto simp: cancel_document_step_def split: prod.splits)
  from cancel_loop_spec [OF this] show ?thesis
    by (fastforce simp: filter_empty_conv live_document_task_def terminal_status_def
        cancel_owned_def clear_task_lease_def conj_assoc)
qed

theorem tq_cancel_document_complete_witness:
  "(1::nat) = length (filter (\<lambda>t. tk_task_type t = ''document_parse'' \<and> tk_doc_id t = ''d1''
               \<and> \<not> terminal_status (tk_status t)) (tq_tasks (demo_queue [demo_task])))
    \<and> filter (live_document_task ''d1'')
        (tq_tasks (fst (tq_cancel_document None 9 ''d1'' (demo_queue [demo_task])))) = []
    \<and> filter (\<lambda>t. \<not> (tk_task_type t = ''document_parse'' \<and> tk_doc_id t = ''d1''))
        (tq_tasks (fst (tq_cancel_document None 9 ''d1'' (demo_queue [demo_task]))))
      = filter (\<lambda>t. \<not> (tk_task_type t = ''document_parse'' \<and> tk_doc_id t = ''d1''))
          (tq_tasks (demo_queue [demo_task]))"
proof (rule tq_cancel_document_complete)
  let ?q = "tq_cancel_document None 9 ''d1'' (demo_queue [demo_task])"
  have "snd ?q = Ok 1"
    by (simp add: tq_cancel_document_def tq_mutate_if_changed_def tx_mutate_if_changed_def
        demo_queue_def cancel_document_step_def demo_task_def new_task_def terminal_status_def)
  then show "?q = (fst ?q, Ok 1)" by (metis prod.collapse)
qed

section \<open>Memory and file\<close>

definition tq_synced :: "task_queue \<Rightarrow> bool" where
  "tq_synced q \<longleftrightarrow> synced (\<lambda>ts. ts) (tq_store q)"

lemma tq_mutate_synced:
  assumes "tq_mutate_if_changed (Some w) f q = (q', r)" and "clean_op f"
    and "tq_synced q" and "reliable w" and "tq_alive q'"
  shows "tq_synced q'"
proof -
  obtain st where st: "tx_mutate_if_changed (\<lambda>ts. ts) (Some w) f (tq_store q) = (st, r)"
    and q': "q' = q\<lparr>tq_store := st\<rparr>"
    using assms(1) by (auto simp: tq_mutate_if_changed_def split: prod.splits)
  have "r \<noteq> Panic" using tx_mutate_panic_poisons [of _ _ f _ st] st assms(5) q' by auto
  from clean_op.store_synced [OF assms(2) st this] assms(3,4) show ?thesis
    by (simp add: tq_synced_def q')
qed

text \<open>A call with a state file on a disk whose failed writes leave the old file in place.\<close>

inductive recorded_call :: "task_queue \<Rightarrow> task_queue \<Rightarrow> bool" where
  rec_push: "reliable w \<Longrightarrow> tq_mutate (Some w) (push_step t) q = (q', r0) \<Longrightarrow> recorded_call q q'"
| rec_publish: "reliable w \<Longrightarrow> tq_publish_memory_task (Some w) now i q = (q', r1) \<Longrightarrow> recorded_call q q'"
| rec_discard: "reliable w \<Longrightarrow> tq_discard_staged_memory_task (Some w) i q = (q', r2) \<Longrightarrow> recorded_call q q'"
| rec_claim:
    "reliable w \<Longrightarrow> tq_claim (Some w) now token i worker duration msg q = (q', r3) \<Longrightarrow> recorded_call q q'"
| rec_renew: "reliable w \<Longrightarrow> tq_renew_lease (Some w) now i token duration q = (q', r4) \<Longrightarrow> recorded_call q q'"
| rec_update:
    "reliable w \<Longrightarrow> tq_update_claimed (Some w) now now' i token status progress msg q = (q', r5) \<Longrightarrow>
     recorded_call q q'"
| rec_verdict:
    "reliable w \<Longrightarrow> tq_update (Some w) now i status progress msg q = (q', r9) \<Longrightarrow> recorded_call q q'"
| rec_cancel: "reliable w \<Longrightarrow> tq_request_cancel (Some w) now i q = (q', r6) \<Longrightarrow> recorded_call q q'"
| rec_cancel_document:
    "reliable w \<Longrightarrow> tq_cancel_document (Some w) now doc q = (q', r7) \<Longrightarrow> recorded_call q q'"
| rec_cancel_memory:
    "reliable w \<Longrightarrow> tq_cancel_memory (Some w) now memory_id q = (q', r8) \<Longrightarrow> recorded_call q q'"

lemmas tq_clean_ops = tq_pushing.clean_op_axioms tq_publish.clean_op_axioms
  tq_discard.clean_op_axioms tq_claiming.clean_op_axioms tq_renewing.clean_op_axioms
  tq_updating_claimed.clean_op_axioms tq_updating.clean_op_axioms tq_cancelling.clean_op_axioms
  tq_cancelling_document.clean_op_axioms tq_cancelling_memory.clean_op_axioms

lemma recorded_call_synced:
  assumes "recorded_call q q'" and "tq_synced q" and "tq_alive q'"
  shows "tq_synced q'"
  using assms
proof (induction rule: recorded_call.induct)
  case (rec_publish w now i q q' r1)
  obtain q1 r where m: "tq_mutate_if_changed (Some w) (publish_memory_step now i) q = (q1, r)"
    by fastforce
  with rec_publish.hyps(2) have q': "q' = q1 \<or> q' = notify_one q1"
    by (auto simp: tq_publish_memory_task_def split: if_splits)
  with rec_publish.prems(2) have "tq_alive q1" by (auto simp: notify_one_def)
  then have "tq_synced q1"
    by (rule tq_mutate_synced [OF m tq_publish.clean_op_axioms rec_publish.prems(1) rec_publish.hyps(1)])
  with q' show ?case by (auto simp: notify_one_def tq_synced_def)
next
  case rec_claim
  then show ?case
    by (auto simp: tq_claim_def split: if_splits dest: tq_mutate_synced [OF _ tq_claiming.clean_op_axioms])
next
  case rec_renew
  then show ?case
    by (auto simp: tq_renew_lease_def split: if_splits
        dest: tq_mutate_synced [OF _ tq_renewing.clean_op_axioms])
qed (simp_all add: tq_mutate_def tq_discard_staged_memory_task_def tq_update_claimed_def tq_update_def
      tq_request_cancel_def tq_cancel_document_def tq_cancel_memory_def
      tq_mutate_synced [OF _ tq_pushing.clean_op_axioms]
      tq_mutate_synced [OF _ tq_discard.clean_op_axioms]
      tq_mutate_synced [OF _ tq_updating_claimed.clean_op_axioms]
      tq_mutate_synced [OF _ tq_updating.clean_op_axioms]
      tq_mutate_synced [OF _ tq_cancelling.clean_op_axioms]
      tq_mutate_synced [OF _ tq_cancelling_document.clean_op_axioms]
      tq_mutate_synced [OF _ tq_cancelling_memory.clean_op_axioms])

lemma recorded_call_poisoned:
  "recorded_call q q' \<Longrightarrow> st_poisoned (tq_store q) \<Longrightarrow> st_poisoned (tq_store q')"
  by (induction rule: recorded_call.induct)
     (auto simp: tq_mutate_def tq_publish_memory_task_def tq_discard_staged_memory_task_def
        tq_claim_def tq_renew_lease_def tq_update_claimed_def tq_update_def tq_request_cancel_def
        tq_cancel_document_def tq_cancel_memory_def notify_one_def
        dest: tq_mutate_poisoned split: if_splits prod.splits)

text \<open>
  Every call but \<open>push_document_unique\<close> keeps the state file equal to the queue in
  memory, also when it fails: as long as a failed write leaves the old file in place, a
  restart sees exactly the leases the workers were given.
\<close>

theorem tq_recorded_synced:
  assumes "recorded_call\<^sup>*\<^sup>* q q'" and "tq_synced q" and "tq_alive q'"
  shows "dk_file (st_disk (tq_store q')) = Some (tq_tasks q')"
proof -
  have "tq_alive q' \<Longrightarrow> tq_synced q'"
    using assms(1,2)
    by (induction rule: rtranclp_induct) (auto dest: recorded_call_synced recorded_call_poisoned)
  with assms(3) show ?thesis by (simp add: tq_synced_def synced_def)
qed

theorem tq_recorded_synced_witness:
  "dk_file (st_disk (tq_store (fst (tq_request_cancel (Some we_disk_full) 9 ''t1'' (demo_queue [demo_task])))))
     = Some (tq_tasks (fst (tq_request_cancel (Some we_disk_full) 9 ''t1'' (demo_queue [demo_task]))))"
proof (rule tq_recorded_synced)
  let ?p = "tq_request_cancel (Some we_disk_full) 9 ''t1'' (demo_queue [demo_task])"
  have "recorded_call (demo_queue [demo_task]) (fst ?p)"
    by (rule rec_cancel [OF reliable_we_disk_full, of 9 "''t1''" _ _ "snd ?p"]) simp
  then show "recorded_call\<^sup>*\<^sup>* (demo_queue [demo_task]) (fst ?p)" by blast
  show "tq_synced (demo_queue [demo_task])"
    by (simp add: tq_synced_def synced_def demo_queue_def)
  show "tq_alive (fst ?p)"
    by (simp add: tq_request_cancel_def tq_mutate_if_changed_def tx_mutate_if_changed_def
        request_cancel_step_def demo_queue_def find_task_def demo_task_def new_task_def
        terminal_status_def append_task_message_def TASK_MAX_LOG_LENGTH_def)
qed

text \<open>
  A request that raises the priority of a task while it runs is answered with success
  and changes the queue in memory, but reports no change and so is not written: the file
  keeps the old priority, although every write would have succeeded.
\<close>

theorem tq_push_unique_running_not_written:
  "let q = demo_queue [demo_claimed];
       p = tq_push_document_unique (Some we_all_ok) 3000 ''t2'' ''bob'' ''again'' ''d1'' [] 1 q
   in tq_synced q \<and> snd p = Ok (''t1'', False)
    \<and> map tk_priority (tq_tasks (fst p)) = [1]
    \<and> map_option (map tk_priority) (dk_file (st_disk (tq_store (fst p)))) = Some [0]"
  by (simp add: Let_def tq_synced_def synced_def tq_push_document_unique_def valid_priority_def
      TASK_PRIORITY_HIGH_def TASK_PRIORITY_LOW_def tq_mutate_if_changed_def tx_mutate_if_changed_def
      demo_queue_def push_document_unique_step_def live_document_task_def demo_task_def new_task_def
      refresh_live_task_def claimed_task_def)

section \<open>The log that is cut inside a character\<close>

text \<open>Fifteen hundred two-byte characters: a log of exactly the maximal length.\<close>

definition wide_log :: string where
  "wide_log = concat (replicate 1500 [CHR 0xC3, CHR 0xA9])"

lemma length_wide_log: "length wide_log = 3000"
  by (simp add: wide_log_def length_concat sum_list_replicate)

lemma wide_log_Cons: "wide_log = [CHR 0xC3, CHR 0xA9, CHR 0xC3, CHR 0xA9] @ concat (replicate 1498 [CHR 0xC3, CHR 0xA9])"
proof -
  have "replicate 1500 x = x # x # replicate 1498 x" for x :: string
    by (simp add: numeral_eq_Suc)
  then show ?thesis by (simp add: wide_log_def)
qed

lemma append_wide_log: "append_task_message wide_log ''ab'' = (wide_log @ [CHR 0x0A] @ ''ab'', Panic)"
proof -
  have "\<not> is_char_boundary (wide_log @ [CHR 0x0A] @ ''ab'') 3"
    by (simp add: is_char_boundary_def length_wide_log wide_log_Cons is_cont_byte_def)
  moreover have "wide_log \<noteq> []" "wide_log \<noteq> ''ab''" by (simp_all add: wide_log_Cons)
  ultimately show ?thesis
    by (simp add: append_task_message_def length_wide_log TASK_MAX_LOG_LENGTH_def slice_from_def)
qed

text \<open>
  The cut of the log can fall inside a character: a worker that reports two more bytes
  on a full log of two-byte characters panics under the write lock, and from then on every
  call of the queue, also for other tasks, panics.
\<close>

theorem tq_wide_log_poisons:
  "let q = demo_queue [demo_claimed\<lparr>tk_message := wide_log\<rparr>];
       p = tq_update_claimed e 2100 2101 ''t1'' ''tok'' ''running'' (Fin (1 / 2)) ''ab'' q
   in snd p = Panic \<and> tq_get j (fst p) = Panic \<and> tq_pending_at now (fst p) = Panic
    \<and> snd (tq_request_cancel e' now j (fst p)) = Panic"
  by (simp add: Let_def tq_update_claimed_def tq_mutate_if_changed_def tx_mutate_if_changed_def
      update_claimed_step_def demo_queue_def find_task_def demo_task_def new_task_def claimed_task_def
      append_wide_log sat_add_def tq_get_def tq_pending_at_def tq_request_cancel_def f32_0_05_def
      split: prod.splits)

section \<open>Start-up and staging\<close>

lemma recover_task_fields:
  "tk_id (recover_task now t) = tk_id t"
  "tk_retry_count (recover_task now t) = tk_retry_count t"
  "tk_max_retries (recover_task now t) = tk_max_retries t"
  "tk_cancel_requested (recover_task now t) = tk_cancel_requested t"
  by (simp_all add: recover_task_def Let_def clear_task_lease_def)

lemma recover_task_status:
  "tk_status (recover_task now t) = ''running'' \<longleftrightarrow> tk_status t = ''running'' \<and> now < tk_lease_expires_at t"
  "tk_status t = ''running'' \<Longrightarrow> now < tk_lease_expires_at t \<Longrightarrow>
     tk_lease_expires_at (recover_task now t) = tk_lease_expires_at t"
  by (auto simp: recover_task_def Let_def clear_task_lease_def not_le)

lemma recover_task_pending:
  "tk_status (recover_task now t) = ''pending'' \<Longrightarrow> tk_retry_count t < tk_max_retries t"
  by (auto simp: recover_task_def Let_def clear_task_lease_def not_le split: if_splits)

text \<open>What a restart should make of a task: its phase and attempts, of at most \<open>limit\<close>, at \<open>now\<close>.\<close>

fun recovered :: "u64 \<Rightarrow> u32 \<Rightarrow> phase \<times> u32 \<Rightarrow> phase \<times> u32" where
  "recovered now limit (Leased token deadline, n) =
     (if now < deadline then (Leased token deadline, n) else if n < limit then (Queued, n) else (Finished, n))"
| "recovered now limit (Queued, n) = (if n < limit then (Queued, n) else (Finished, n))"
| "recovered now limit (p, n) = (p, n)"

definition recovered_from :: "u64 \<Rightarrow> task \<Rightarrow> task \<Rightarrow> bool" where
  "recovered_from now t r \<longleftrightarrow>
     tk_id r = tk_id t \<and> tk_doc_id r = tk_doc_id t \<and> tk_owner_id r = tk_owner_id t \<and> tk_max_retries r = tk_max_retries t \<and>
     abs_task r = recovered now (tk_max_retries t) (abs_task t) \<and>
     tk_status r = (if task_phase r = task_phase t then tk_status t
                    else if task_phase r = Queued then ''pending'' else ''failed'')"

lemma recover_task_recovered: "wf_task t \<Longrightarrow> recovered_from now t (recover_task now t)"
  by (auto simp: recovered_from_def recover_task_def Let_def clear_task_lease_def abs_task_def task_phase_def
      wf_task_def known_status_def not_le)

text \<open>
  C25. A restart recovers the queue: from any well-formed file, whatever the state the
  workers died in, each task is loaded with exactly the phase it should have (\<open>recovered\<close>): a lease
  that is still live survives with its token and deadline, a task under an expired lease waits
  again when it has attempts left, and one without attempts has failed; staged and finished tasks stay. A task
  is waiting only if it can be claimed, none is lost, and the file holds the recovered queue afterwards.
\<close>

theorem task_queue_new_recovers:
  assumes "task_queue_new now (Some w) (Contents ts) d = (d', Ok q)" and "wf_tasks ts"
  shows "tq_inv q \<and> tq_synced q \<and> map tk_id (tq_tasks q) = map tk_id ts
    \<and> list_all2 (recovered_from now) ts (tq_tasks q)
    \<and> (\<forall>t \<in> set (tq_tasks q). tk_status t = ''running'' \<longrightarrow> now < tk_lease_expires_at t)
    \<and> (\<forall>t \<in> set (tq_tasks q). tk_status t = ''pending'' \<longrightarrow> claimable now t)"
proof -
  let ?ts = "map (recover_task now) ts"
  have wf: "wf_tasks ?ts"
    using assms(2)
    by (auto simp: wf_tasks_def list_all_iff wf_recover recover_task_fields comp_def)
  obtain u where w: "tx_persist (Some w) ?ts d = (d', Ok u)"
    and q: "q = \<lparr>tq_store = \<lparr>st_mem = ?ts, st_disk = d', st_poisoned = False\<rparr>, tq_active = [], tq_permit = False\<rparr>"
    using assms(1) by (auto simp: task_queue_new_def Let_def split: prod.splits res.splits)
  have synced: "tq_synced q"
    using atomic_write_Ok [of w ?ts d d' u] w by (simp add: q tq_synced_def synced_def)
  have "claimable now (recover_task now t)"
    if "t \<in> set ts" "tk_status (recover_task now t) = ''pending''" for t
    using wf_tasksD [OF wf, of "recover_task now t"] that recover_task_pending [OF that(2)]
    by (auto simp: claimable_def wf_task_def recover_task_fields)
  moreover have "now < tk_lease_expires_at (recover_task now t)"
    if "tk_status (recover_task now t) = ''running''" for t
    using that recover_task_status by simp
  moreover have "list_all2 (recovered_from now) ts ?ts"
    using assms(2) recover_task_recovered by (auto simp: list_all2_map2 list.rel_refl_strong wf_tasks_def list_all_iff)
  ultimately show ?thesis
    using wf synced by (auto simp: q tq_inv_def recover_task_fields comp_def)
qed

theorem task_queue_new_recovers_witness:
  "let q = snd (task_queue_new 9000 (Some we_all_ok) (Contents [demo_claimed]) \<lparr>dk_file = None, dk_mirror = None\<rparr>)
   in \<exists>p. q = Ok p \<and> tq_inv p \<and> tq_synced p \<and> map tk_id (tq_tasks p) = [''t1'']
    \<and> (\<forall>t \<in> set (tq_tasks p). tk_status t = ''pending'' \<longrightarrow> claimable 9000 t)"
proof -
  let ?r = "task_queue_new 9000 (Some we_all_ok) (Contents [demo_claimed]) \<lparr>dk_file = None, dk_mirror = None\<rparr>"
  have "wf_task demo_claimed"
    by (rule wf_claimed_task [OF demo_task_wf])
       (simp_all add: claimable_def demo_task_def new_task_def default_max_retries_def)
  then have wf: "wf_tasks [demo_claimed]" by (simp add: wf_tasks_def)
  obtain p where p: "snd ?r = Ok p" by (simp add: task_queue_new_def Let_def)
  then have "?r = (fst ?r, Ok p)" by (metis prod.collapse)
  from task_queue_new_recovers [OF this wf] p show ?thesis
    by (simp add: Let_def) (simp add: claimed_task_def demo_task_def new_task_def)
qed

text \<open>
  The write-ahead protocol of memory tasks: a staged task is on record but no worker
  can claim it at any time; publishing it makes exactly it claimable and wakes the
  dispatcher; discarding it instead removes it.
\<close>

theorem tq_memory_staging:
  assumes "tq_stage_memory_task e now uuid owner memory_id src payload q = (q1, Ok i)"
    and "tq_inv q" and "uuid \<notin> tk_id ` set (tq_tasks q)"
  shows "i = uuid \<and> tq_tasks q1 = tq_tasks q @ [staged_memory_task now uuid owner memory_id src payload]
    \<and> (\<forall>now'. \<not> claimable now' (staged_memory_task now uuid owner memory_id src payload))
    \<and> (tq_publish_memory_task e' now' i q1 = (q2, Ok b) \<longrightarrow>
         b \<and> tq_permit q2 \<and> (\<exists>t. find_task i (tq_tasks q2) = Some t \<and> claimable now' t
               \<and> tk_memory_payload t = Some payload))
    \<and> (tq_discard_staged_memory_task e' i q1 = (q3, Ok b') \<longrightarrow> b' \<and> tq_tasks q3 = tq_tasks q)"
proof -
  let ?t = "staged_memory_task now uuid owner memory_id src payload"
  have fields: "tk_id ?t = uuid" "tk_task_type ?t = ''memory''" "tk_status ?t = ''staging''"
      "tk_memory_payload ?t = Some payload" "\<not> tk_cancel_requested ?t" "tk_retry_count ?t < tk_max_retries ?t"
    by (simp_all add: staged_memory_task_def new_task_def default_max_retries_def)
  obtain u where m: "tq_mutate e (push_step ?t) q = (q1, Ok u)" and i: "i = uuid"
    using assms(1) by (auto simp: tq_stage_memory_task_def res_map_Ok_iff split: if_splits prod.splits)
  obtain c where "always_changed (push_step ?t) (tq_tasks q) = (tq_tasks q1, Ok (u, c))" "tq_alive q"
    using m unfolding tq_mutate_def by (rule tq_mutate_OkE)
  then have q1: "tq_tasks q1 = tq_tasks q @ [?t]" by (auto simp: push_step_def)
  have fresh: "find (\<lambda>t. tk_id t = uuid \<and> tk_task_type t = ''memory'') (tq_tasks q) = None"
      "find_task uuid (tq_tasks q) = None"
    using assms(3) by (auto simp: find_None_iff find_task_def)
  have keep: "filter (\<lambda>t. tk_task_type t = ''memory'' \<longrightarrow> tk_id t = uuid \<longrightarrow> tk_status t \<noteq> ''staging'')
      (tq_tasks q) = tq_tasks q"
    using assms(3) by (auto simp: filter_id_conv)
  show ?thesis
  proof (intro conjI impI allI i q1)
    show "\<not> claimable now'' ?t" for now'' using fields by (simp add: claimable_def)
    assume "tq_publish_memory_task e' now' i q1 = (q2, Ok b)"
    then obtain p where p: "tq_mutate_if_changed e' (publish_memory_step now' uuid) q1 = (p, Ok b)"
      and q2: "q2 = (if b then notify_one p else p)"
      unfolding i by (auto simp: tq_publish_memory_task_def split: prod.splits)
    from p obtain c' where "publish_memory_step now' uuid (tq_tasks q1) = (tq_tasks p, Ok (b, c'))"
      by (rule tq_mutate_OkE)
    then have b: b and tp: "tq_tasks p = tq_tasks q @ [?t\<lparr>tk_status := ''pending'', tk_progress := Fin 0,
        tk_message := ''Queued'', tk_updated_at := now'\<rparr>]"
      using fresh(1) fields
      by (auto simp: publish_memory_step_def q1 find_append modify_first_append)
    show "b" by (rule b)
    show "tq_permit q2" using b by (simp add: q2 notify_one_def)
    show "\<exists>t. find_task i (tq_tasks q2) = Some t \<and> claimable now' t \<and> tk_memory_payload t = Some payload"
      using fresh(2) fields b by (simp add: q2 notify_one_def tp find_task_push claimable_def i)
  next
    assume "tq_discard_staged_memory_task e' i q1 = (q3, Ok b')"
    then obtain c' where "discard_staged_step uuid (tq_tasks q1) = (tq_tasks q3, Ok (b', c'))"
      unfolding tq_discard_staged_memory_task_def i by (rule tq_mutate_OkE)
    with keep fields show "b'" "tq_tasks q3 = tq_tasks q"
      by (auto simp: discard_staged_step_def Let_def q1)
  qed
qed

theorem tq_memory_staging_witness:
  "let p = \<lparr>mtp_user_id = ''u'', mtp_agent_id = [], mtp_session_id = [], mtp_user_input = ''hi'',
            mtp_agent_response = ''yo''\<rparr>;
       q1 = fst (tq_stage_memory_task None 5 ''m1'' ''u'' ''mem'' 41 p (demo_queue []))
   in snd (tq_publish_memory_task None 6 ''m1'' q1) = Ok True
    \<and> (\<exists>t. find_task ''m1'' (tq_tasks (fst (tq_publish_memory_task None 6 ''m1'' q1))) = Some t
           \<and> claimable 6 t \<and> tk_memory_payload t = Some p)"
proof -
  define p where "p = \<lparr>mtp_user_id = ''u'', mtp_agent_id = [], mtp_session_id = [],
    mtp_user_input = ''hi'', mtp_agent_response = ''yo''\<rparr>"
  define q1 where "q1 = fst (tq_stage_memory_task None 5 ''m1'' ''u'' ''mem'' 41 p (demo_queue []))"
  define q2 where "q2 = fst (tq_publish_memory_task None 6 ''m1'' q1)"
  have st: "tq_stage_memory_task None 5 ''m1'' ''u'' ''mem'' 41 p (demo_queue []) = (q1, Ok ''m1'')"
    by (simp add: q1_def tq_stage_memory_task_def tq_mutate_def tq_mutate_if_changed_def
        tx_mutate_if_changed_def always_changed_def push_step_def demo_queue_def)
  have "snd (tq_publish_memory_task None 6 ''m1'' q1) = Ok True"
    by (simp add: q1_def tq_stage_memory_task_def tq_mutate_def tq_mutate_if_changed_def
        tx_mutate_if_changed_def always_changed_def push_step_def demo_queue_def
        tq_publish_memory_task_def publish_memory_step_def staged_memory_task_def new_task_def)
  then have pub: "tq_publish_memory_task None 6 ''m1'' q1 = (q2, Ok True)"
    by (metis prod.collapse q2_def)
  have "tq_inv (demo_queue [])" by (simp add: demo_inv)
  note staging = tq_memory_staging [OF st this, where e' = None and now' = 6 and ?q2.0 = q2 and b = True]
  from staging pub show ?thesis
    unfolding Let_def p_def [symmetric] q1_def [symmetric] by (simp add: demo_queue_def)
qed

end
