(* ===== verification/Tenants.thy ===== *)
theory Tenants
  imports Tx_Store "HOL-Library.Finite_Map" "HOL-Library.Sublist"
begin

text \<open>
  \<open>TenantStore\<close> of \<^verbatim>\<open>src/kb.rs\<close>: who belongs to a user-owned tenant, in which role.
  \<open>TenantMembership\<close> compares and hashes by its tenant and user only, so the \<open>HashSet\<close> of
  memberships is a finite map from that pair: inserting an equal entry keeps the old one,
  \<open>take\<close> removes and returns the stored one, and the order in which the set is written is
  unspecified.
\<close>

section \<open>Roles and memberships\<close>

datatype tenant_role = Owner | Admin | Normal | Invite

definition role_is_member :: "tenant_role \<Rightarrow> bool" where
  "role_is_member r \<longleftrightarrow> r = Owner \<or> r = Admin \<or> r = Normal"

definition role_can_manage :: "tenant_role \<Rightarrow> bool" where
  "role_can_manage r \<longleftrightarrow> r = Owner \<or> r = Admin"

text \<open>Roles ordered by what they permit.\<close>

fun role_rank :: "tenant_role \<Rightarrow> nat" where
  "role_rank Invite = 0"
| "role_rank Normal = 1"
| "role_rank Admin = 2"
| "role_rank Owner = 3"

lemma role_rank_inj: "role_rank r = role_rank s \<Longrightarrow> r = s"
  by (cases r; cases s) simp_all

instantiation tenant_role :: linorder
begin

definition less_eq_tenant_role :: "tenant_role \<Rightarrow> tenant_role \<Rightarrow> bool" where
  "less_eq_tenant_role r s \<longleftrightarrow> role_rank r \<le> role_rank s"

definition less_tenant_role :: "tenant_role \<Rightarrow> tenant_role \<Rightarrow> bool" where
  "less_tenant_role r s \<longleftrightarrow> role_rank r < role_rank s"

instance
  by standard (auto simp: less_eq_tenant_role_def less_tenant_role_def dest: role_rank_inj)

end

lemma role_member_iff: "role_is_member r \<longleftrightarrow> Normal \<le> r"
  by (cases r) (simp_all add: role_is_member_def less_eq_tenant_role_def)

lemma role_manage_iff: "role_can_manage r \<longleftrightarrow> Admin \<le> r"
  by (cases r) (simp_all add: role_can_manage_def less_eq_tenant_role_def)

record membership =
  mb_tenant_id :: string
  mb_user_id :: string
  mb_role :: tenant_role
  mb_invited_by :: string
  mb_created_at :: u64
  mb_updated_at :: u64

type_synonym memberships = "(string \<times> string, membership) fmap"

type_synonym tenant_store = "(memberships, memberships) tx_store"

text \<open>\<open>insert\<close> of a \<open>HashSet\<close>: an equal element that is there already stays.\<close>

definition hs_insert :: "membership \<Rightarrow> memberships \<Rightarrow> memberships" where
  "hs_insert e m =
     (let k = (mb_tenant_id e, mb_user_id e)
      in case fmlookup m k of None \<Rightarrow> fmupd k e m | Some old \<Rightarrow> m)"

definition hs_take :: "string \<Rightarrow> string \<Rightarrow> memberships \<Rightarrow> memberships \<times> membership option" where
  "hs_take tenant user m = (fmdrop (tenant, user) m, fmlookup m (tenant, user))"

text \<open>Every entry is stored under its own tenant and user.\<close>

definition wf_memberships :: "memberships \<Rightarrow> bool" where
  "wf_memberships m \<longleftrightarrow>
     (\<forall>t u e. fmlookup m (t, u) = Some e \<longrightarrow> mb_tenant_id e = t \<and> mb_user_id e = u)"

section \<open>Reads\<close>

definition ten_role :: "memberships \<Rightarrow> string \<Rightarrow> string \<Rightarrow> tenant_role option" where
  "ten_role m tenant user =
     (if tenant = user then Some Owner else map_option mb_role (fmlookup m (tenant, user)))"

definition ten_is_member :: "memberships \<Rightarrow> string \<Rightarrow> string \<Rightarrow> bool" where
  "ten_is_member m tenant user =
     (case ten_role m tenant user of None \<Rightarrow> False | Some r \<Rightarrow> role_is_member r)"

definition ten_can_manage :: "memberships \<Rightarrow> string \<Rightarrow> string \<Rightarrow> bool" where
  "ten_can_manage m tenant user =
     (case ten_role m tenant user of None \<Rightarrow> False | Some r \<Rightarrow> role_can_manage r)"

definition ten_list_members :: "memberships \<Rightarrow> string \<Rightarrow> membership fset" where
  "ten_list_members m tenant = ffilter (\<lambda>e. mb_tenant_id e = tenant) (fmran m)"

text \<open>The personal tenant is pushed after the stored entries.\<close>

definition own_membership :: "string \<Rightarrow> membership" where
  "own_membership user =
     \<lparr>mb_tenant_id = user, mb_user_id = user, mb_role = Owner, mb_invited_by = user,
      mb_created_at = 0, mb_updated_at = 0\<rparr>"

definition ten_list_for_user :: "memberships \<Rightarrow> string \<Rightarrow> membership fset \<times> membership" where
  "ten_list_for_user m user = (ffilter (\<lambda>e. mb_user_id e = user) (fmran m), own_membership user)"

section \<open>Mutations\<close>

definition ten_mutate ::
  "write_env \<Rightarrow> (memberships \<Rightarrow> memberships \<times> ('a \<times> bool) res) \<Rightarrow>
   tenant_store \<Rightarrow> tenant_store \<times> 'a res" where
  "ten_mutate e mutation = tx_mutate_if_changed (\<lambda>m. m) (Some e) mutation"

definition invite_step ::
  "u64 \<Rightarrow> string \<Rightarrow> string \<Rightarrow> string \<Rightarrow> memberships \<Rightarrow> memberships \<times> (bool \<times> bool) res" where
  "invite_step now tenant user invited_by m =
     (case fmlookup m (tenant, user) of
        Some existing \<Rightarrow>
          if role_is_member (mb_role existing)
          then (m, Err ''User is already a tenant member'') else (m, Ok (False, False))
      | None \<Rightarrow>
          (hs_insert \<lparr>mb_tenant_id = tenant, mb_user_id = user, mb_role = Invite,
                      mb_invited_by = invited_by, mb_created_at = now, mb_updated_at = now\<rparr> m,
           Ok (True, True)))"

definition invite_member ::
  "write_env \<Rightarrow> u64 \<Rightarrow> string \<Rightarrow> string \<Rightarrow> string \<Rightarrow> tenant_store \<Rightarrow> tenant_store \<times> bool res" where
  "invite_member e now tenant user invited_by st =
     (if tenant = user then (st, Ok False)
      else ten_mutate e (invite_step now tenant user invited_by) st)"

definition accept_step ::
  "u64 \<Rightarrow> string \<Rightarrow> string \<Rightarrow> memberships \<Rightarrow> memberships \<times> (bool \<times> bool) res" where
  "accept_step now tenant user m =
     (case hs_take tenant user m of
        (m', None) \<Rightarrow> (m', Ok (False, False))
      | (m', Some entry) \<Rightarrow>
          if mb_role entry \<noteq> Invite then (hs_insert entry m', Ok (False, False))
          else (hs_insert (entry\<lparr>mb_role := Normal, mb_updated_at := now\<rparr>) m', Ok (True, True)))"

definition accept_invitation ::
  "write_env \<Rightarrow> u64 \<Rightarrow> string \<Rightarrow> string \<Rightarrow> tenant_store \<Rightarrow> tenant_store \<times> bool res" where
  "accept_invitation e now tenant user st = ten_mutate e (accept_step now tenant user) st"

definition update_role_step ::
  "u64 \<Rightarrow> string \<Rightarrow> string \<Rightarrow> tenant_role \<Rightarrow> memberships \<Rightarrow> memberships \<times> (bool \<times> bool) res" where
  "update_role_step now tenant user role m =
     (case hs_take tenant user m of
        (m', None) \<Rightarrow> (m', Ok (False, False))
      | (m', Some entry) \<Rightarrow>
          if \<not> role_is_member (mb_role entry)
          then (hs_insert entry m', Err ''Invitation must be accepted before assigning a role'')
          else if mb_role entry = role then (hs_insert entry m', Ok (False, False))
          else (hs_insert (entry\<lparr>mb_role := role, mb_updated_at := now\<rparr>) m', Ok (True, True)))"

definition update_role ::
  "write_env \<Rightarrow> u64 \<Rightarrow> string \<Rightarrow> string \<Rightarrow> tenant_role \<Rightarrow> tenant_store \<Rightarrow> tenant_store \<times> bool res" where
  "update_role e now tenant user role st =
     (if tenant = user \<or> \<not> (role = Admin \<or> role = Normal)
      then (st, Err (''Tenant member role must be '' @ quoted ''admin'' @ '' or '' @ quoted ''normal''))
      else ten_mutate e (update_role_step now tenant user role) st)"

definition remove_step ::
  "string \<Rightarrow> string \<Rightarrow> memberships \<Rightarrow> memberships \<times> (bool \<times> bool) res" where
  "remove_step tenant user m =
     (let before = fcard (fmdom m);
          m' = fmfilter (\<lambda>(t, u). t \<noteq> tenant \<or> u \<noteq> user) m;
          changed = (fcard (fmdom m') \<noteq> before)
      in (m', Ok (changed, changed)))"

definition remove_member ::
  "write_env \<Rightarrow> string \<Rightarrow> string \<Rightarrow> tenant_store \<Rightarrow> tenant_store \<times> bool res" where
  "remove_member e tenant user st =
     (if tenant = user then (st, Err ''Tenant owner cannot be removed'')
      else ten_mutate e (remove_step tenant user) st)"

text \<open>
  \<open>TenantStore::new\<close>: the entries of the file are inserted one after the other, the first of
  two equal ones stays, and the set is written back.
\<close>

definition hs_collect :: "membership list \<Rightarrow> memberships" where
  "hs_collect es = fold hs_insert es fmempty"

definition tenant_store_new ::
  "write_env \<Rightarrow> membership list contents \<Rightarrow> memberships disk \<Rightarrow> memberships disk \<times> tenant_store res" where
  "tenant_store_new e file d =
     (case load_json file of
        Ok loaded \<Rightarrow>
          (let m = (case loaded of None \<Rightarrow> fmempty | Some es \<Rightarrow> hs_collect es)
           in case atomic_write_with_mirror e m d of
                (d', Ok u) \<Rightarrow> (d', Ok \<lparr>st_mem = m, st_disk = d', st_poisoned = False\<rparr>)
              | (d', Err err) \<Rightarrow> (d', Err err)
              | (d', Panic) \<Rightarrow> (d', Panic))
      | Err err \<Rightarrow> (d, Err err)
      | Panic \<Rightarrow> (d, Panic))"

section \<open>The operations are guarded\<close>

lemma hs_insert_fresh:
  "fmlookup m (mb_tenant_id e, mb_user_id e) = None \<Longrightarrow>
     hs_insert e m = fmupd (mb_tenant_id e, mb_user_id e) e m"
  by (simp add: hs_insert_def)

lemma fmupd_fmdrop: "fmupd k v (fmdrop k m) = fmupd k v m"
  by (rule fmap_ext) simp

lemma fmupd_same: "fmlookup m k = Some v \<Longrightarrow> fmupd k v m = m"
  by (rule fmap_ext) auto

lemma fmdrop_same: "fmlookup m k = None \<Longrightarrow> fmdrop k m = m"
  by (rule fmap_ext) auto

text \<open>Putting back what was taken, as it was or changed in place.\<close>

lemma hs_put_back:
  assumes "wf_memberships m" and "fmlookup m (t, u) = Some e"
    and "mb_tenant_id e' = mb_tenant_id e" and "mb_user_id e' = mb_user_id e"
  shows "hs_insert e' (fmdrop (t, u) m) = fmupd (t, u) e' m"
  using assms by (simp add: wf_memberships_def hs_insert_fresh fmupd_fmdrop)

lemma wf_memberships_upd:
  "wf_memberships m \<Longrightarrow> mb_tenant_id e = t \<Longrightarrow> mb_user_id e = u \<Longrightarrow> wf_memberships (fmupd (t, u) e m)"
  by (simp add: wf_memberships_def)

lemma wf_hs_insert: "wf_memberships m \<Longrightarrow> wf_memberships (hs_insert e m)"
  by (auto simp: wf_memberships_def hs_insert_def Let_def split: option.splits)

lemma wf_hs_collect: "wf_memberships (hs_collect es)"
proof -
  have "wf_memberships m \<Longrightarrow> wf_memberships (fold hs_insert es m)" for m
    by (induction es arbitrary: m) (auto simp: wf_hs_insert)
  from this [of fmempty] show ?thesis by (simp add: hs_collect_def wf_memberships_def)
qed

lemma wf_memberships_entry:
  assumes "wf_memberships m" and "fmlookup m (t, u) = Some e"
    and "mb_tenant_id e' = mb_tenant_id e" and "mb_user_id e' = mb_user_id e"
  shows "wf_memberships (fmupd (t, u) e' m)"
  using assms by (intro wf_memberships_upd) (auto simp: wf_memberships_def)

lemma ffilter_fcard_same:
  assumes "fcard (ffilter P (fmdom m)) = fcard (fmdom m)"
  shows "fmfilter P m = m"
proof -
  have "ffilter P (fmdom m) |\<subseteq>| fmdom m" by auto
  with assms have "ffilter P (fmdom m) = fmdom m"
    by (metis fcard_seteq order_refl)
  then have keep: "P k" if "k |\<in>| fmdom m" for k
    using that by (metis ffmember_filter)
  show ?thesis
    by (rule fmap_ext) (metis fmlookup_filter fmdom_notD keep)
qed

interpretation ten_invite: guarded_op wf_memberships "invite_step now tenant user invited_by"
  for now tenant user invited_by
  by unfold_locales (auto simp: invite_step_def wf_hs_insert split: option.splits if_splits)

interpretation ten_accept: guarded_op wf_memberships "accept_step now tenant user"
  for now tenant user
  by unfold_locales
     (auto simp: accept_step_def hs_take_def hs_put_back fmupd_same fmdrop_same wf_hs_insert
        split: option.splits if_splits intro: wf_memberships_entry)

interpretation ten_update_role: guarded_op wf_memberships "update_role_step now tenant user role"
  for now tenant user role
  by unfold_locales
     (auto simp: update_role_step_def hs_take_def hs_put_back fmupd_same fmdrop_same wf_hs_insert
        split: option.splits if_splits intro: wf_memberships_entry)

interpretation ten_remove: guarded_op wf_memberships "remove_step tenant user" for tenant user
  by unfold_locales
     (auto simp: remove_step_def Let_def wf_memberships_def dest: ffilter_fcard_same)

section \<open>Roles change one step at a time\<close>

text \<open>
  The moves of one user's role in one tenant. Nobody is ever promoted to \<open>Owner\<close>, and the
  only way into a tenant leads through an invitation and its acceptance.
\<close>

datatype ten_call = Invited string string | Accepted string string | Assigned string string tenant_role
  | Removed string string

inductive role_move :: "string \<Rightarrow> string \<Rightarrow> ten_call \<Rightarrow> tenant_role option \<Rightarrow> tenant_role option \<Rightarrow> bool"
  for t u where
  move_invite: "role_move t u (Invited t u) None (Some Invite)"
| move_accept: "role_move t u (Accepted t u) (Some Invite) (Some Normal)"
| move_assign: "role_is_member r \<Longrightarrow> r' = Admin \<or> r' = Normal \<Longrightarrow> role_move t u (Assigned t u r') (Some r) (Some r')"
| move_remove: "role_move t u (Removed t u) (Some r) None"

text \<open>One call of the store, with any outcome of the disk; the label is the call.\<close>

inductive ten_step :: "ten_call \<Rightarrow> tenant_store \<Rightarrow> tenant_store \<Rightarrow> bool" where
  ten_step_invite: "invite_member e now tenant user by st = (st', r) \<Longrightarrow> ten_step (Invited tenant user) st st'"
| ten_step_accept: "accept_invitation e now tenant user st = (st', r) \<Longrightarrow> ten_step (Accepted tenant user) st st'"
| ten_step_role: "update_role e now tenant user role st = (st', r) \<Longrightarrow> ten_step (Assigned tenant user role) st st'"
| ten_step_remove: "remove_member e tenant user st = (st', r) \<Longrightarrow> ten_step (Removed tenant user) st st'"

text \<open>A sequence of calls.\<close>

inductive ten_run :: "tenant_store \<Rightarrow> ten_call list \<Rightarrow> tenant_store \<Rightarrow> bool" where
  ten_run_nil: "ten_run st [] st"
| ten_run_snoc: "ten_run st cs st' \<Longrightarrow> ten_step c st' st'' \<Longrightarrow> ten_run st (cs @ [c]) st''"

text \<open>All roles at once: each stays or makes the move of the call, and owners stay owners.\<close>

definition roles_move :: "ten_call \<Rightarrow> memberships \<Rightarrow> memberships \<Rightarrow> bool" where
  "roles_move c m m' \<longleftrightarrow>
     (\<forall>t u. ten_role m' t u = ten_role m t u \<or> (t \<noteq> u \<and> role_move t u c (ten_role m t u) (ten_role m' t u)))"

lemma roles_move_refl [simp]: "roles_move c m m"
  by (simp add: roles_move_def)

lemma roles_move_upd:
  "t \<noteq> u \<Longrightarrow> role_move t u c (ten_role m t u) (Some (mb_role e)) \<Longrightarrow> roles_move c m (fmupd (t, u) e m)"
  by (auto simp: roles_move_def ten_role_def)

lemma roles_move_remove: "roles_move (Removed tenant user) m (fst (remove_step tenant user m))"
proof -
  have "x = None \<or> role_move tenant user (Removed tenant user) (map_option mb_role x) None" for x
    by (cases x) (simp_all add: move_remove)
  then show ?thesis by (auto simp: roles_move_def ten_role_def remove_step_def Let_def)
qed

lemma roles_move_invite:
  "tenant \<noteq> user \<Longrightarrow> roles_move (Invited tenant user) m (fst (invite_step now tenant user by m))"
  by (auto simp: invite_step_def hs_insert_fresh ten_role_def split: option.splits
      intro!: roles_move_upd move_invite)

lemma roles_move_accept:
  assumes "wf_memberships m" and "tenant \<noteq> user"
  shows "roles_move (Accepted tenant user) m (fst (accept_step now tenant user m))"
  using assms
  by (auto simp: accept_step_def hs_take_def hs_put_back fmupd_same fmdrop_same ten_role_def
      split: option.splits intro!: roles_move_upd move_accept)

lemma roles_move_update:
  assumes "wf_memberships m" and "tenant \<noteq> user" and "role = Admin \<or> role = Normal"
  shows "roles_move (Assigned tenant user role) m (fst (update_role_step now tenant user role m))"
  using assms
  by (auto simp: update_role_step_def hs_take_def hs_put_back fmupd_same fmdrop_same ten_role_def
      split: option.splits intro!: roles_move_upd move_assign)

text \<open>A stored entry of a user in their own tenant changes nothing: they own it anyway.\<close>

lemma roles_move_own:
  assumes "\<And>t u. t \<noteq> u \<Longrightarrow> fmlookup m' (t, u) = fmlookup m (t, u)"
  shows "roles_move c m m'"
  using assms by (simp add: roles_move_def ten_role_def)

lemma roles_move_mutate:
  assumes "tx_mutate_if_changed snap e f st = (st', r)" and "roles_move c (st_mem st) (fst (f (st_mem st)))"
  shows "roles_move c (st_mem st) (st_mem st')"
  by (rule tx_store_inv [OF assms(1)]) (use assms(2) in auto)

lemma ten_step_wf: "ten_step c st st' \<Longrightarrow> wf_memberships (st_mem st) \<Longrightarrow> wf_memberships (st_mem st')"
  by (induction rule: ten_step.induct)
     (auto simp: invite_member_def accept_invitation_def update_role_def remove_member_def
        ten_mutate_def split: if_splits
      dest: ten_invite.store_inv ten_accept.store_inv ten_update_role.store_inv ten_remove.store_inv)

lemma ten_step_roles:
  assumes "ten_step c st st'" and "wf_memberships (st_mem st)"
  shows "roles_move c (st_mem st) (st_mem st')"
  using assms
proof (induction rule: ten_step.induct)
  case (ten_step_invite e now tenant user b st st' r)
  then show ?case
    by (auto simp: invite_member_def ten_mutate_def split: if_splits
        intro: roles_move_mutate roles_move_invite)
next
  case (ten_step_accept e now tenant user st st' r)
  have "roles_move (Accepted tenant user) (st_mem st) (fst (accept_step now tenant user (st_mem st)))"
  proof (cases "tenant = user")
    case True
    with ten_step_accept.prems show ?thesis
      by (intro roles_move_own)
         (auto simp: accept_step_def hs_take_def hs_put_back split: option.splits)
  qed (simp add: roles_move_accept ten_step_accept.prems)
  with ten_step_accept.hyps show ?case
    unfolding accept_invitation_def ten_mutate_def by (rule roles_move_mutate)
next
  case (ten_step_role e now tenant user role st st' r)
  then show ?case
    by (auto simp: update_role_def ten_mutate_def split: if_splits
        intro: roles_move_mutate roles_move_update)
next
  case (ten_step_remove e tenant user st st' r)
  note roles_move_remove [of tenant user "st_mem st"]
  with ten_step_remove show ?case
    by (auto simp: remove_member_def ten_mutate_def split: if_splits intro: roles_move_mutate)
qed

section \<open>The directory that access control relies on\<close>

text \<open>
  What the knowledge-base registry asks of the tenants: who is a member of a tenant and who
  manages it. The laws: owners manage their own tenant, and managers are members.
\<close>

locale directory =
  fixes member :: "string \<Rightarrow> string \<Rightarrow> bool"
    and manager :: "string \<Rightarrow> string \<Rightarrow> bool"
  assumes owner_manages: "manager user user"
    and manager_is_member: "manager tenant user \<Longrightarrow> member tenant user"
begin

lemma owner_is_member: "member user user"
  by (rule manager_is_member) (rule owner_manages)

end

interpretation tenants: directory "ten_is_member m" "ten_can_manage m" for m
proof
  show "ten_can_manage m user user" for user
    by (simp add: ten_can_manage_def ten_role_def role_can_manage_def)
  show "ten_can_manage m tenant user \<Longrightarrow> ten_is_member m tenant user" for tenant user
    by (cases "ten_role m tenant user")
       (auto simp: ten_can_manage_def ten_is_member_def role_can_manage_def role_is_member_def)
qed

section \<open>Properties\<close>

definition demo_tenants :: "memberships \<Rightarrow> tenant_store" where
  "demo_tenants m = \<lparr>st_mem = m, st_disk = \<lparr>dk_file = Some m, dk_mirror = None\<rparr>, st_poisoned = False\<rparr>"

text \<open>The calls a user with no role in a tenant must have seen, in this order, to get one.\<close>

fun calls_for :: "string \<Rightarrow> string \<Rightarrow> tenant_role option \<Rightarrow> ten_call list" where
  "calls_for t u None = []"
| "calls_for t u (Some Invite) = [Invited t u]"
| "calls_for t u (Some Normal) = [Invited t u, Accepted t u]"
| "calls_for t u (Some Admin) = [Invited t u, Accepted t u, Assigned t u Admin]"
| "calls_for t u (Some Owner) = []"

lemma calls_for_move:
  assumes "role_move t u c r r'" and "r \<noteq> Some Owner" and "subseq (calls_for t u r) cs"
  shows "r' \<noteq> Some Owner \<and> subseq (calls_for t u r') (cs @ [c])"
  using assms(1)
proof cases
  case move_invite
  then show ?thesis by (simp add: subseq_drop_many)
next
  case move_accept
  with assms(3) have "subseq ([Invited t u] @ [Accepted t u]) (cs @ [c])"
    by (intro list_emb_append_mono) auto
  with move_accept show ?thesis by simp
next
  case (move_assign q q')
  with assms(2) have q: "q = Admin \<or> q = Normal" by (auto simp: role_is_member_def)
  then have "subseq [Invited t u, Accepted t u] (calls_for t u r)" using move_assign by auto
  then have member: "subseq [Invited t u, Accepted t u] cs" using assms(3) subseq_order.trans by blast
  then have "subseq ([Invited t u, Accepted t u] @ [Assigned t u Admin]) (cs @ [Assigned t u Admin])"
    by (intro list_emb_append_mono) auto
  moreover have "subseq [Invited t u, Accepted t u] (cs @ [c])"
    using member by (rule list_emb_prefix)
  ultimately show ?thesis using move_assign by auto
next
  case move_remove
  then show ?thesis by simp
qed

text \<open>
  C21. Membership takes consent: in every sequence of calls, a user who had no role in a tenant holds
  one at the end only after the calls it takes, in their order: an invitation of this user to this tenant, then the
  acceptance of it, then, for an administrator, the assignment of that role. Nobody ever becomes the owner.
\<close>

theorem tenant_roles_only_move:
  assumes "ten_run st cs st'" and "wf_memberships (st_mem st)" and "ten_role (st_mem st) t u = None"
  shows "ten_role (st_mem st') t u \<noteq> Some Owner \<and> subseq (calls_for t u (ten_role (st_mem st') t u)) cs"
proof -
  have "wf_memberships (st_mem st') \<and> ten_role (st_mem st') t u \<noteq> Some Owner \<and>
      subseq (calls_for t u (ten_role (st_mem st') t u)) cs"
    using assms
  proof (induction rule: ten_run.induct)
    case (ten_run_snoc st cs p c q)
    then have wf: "wf_memberships (st_mem p)" and IH: "ten_role (st_mem p) t u \<noteq> Some Owner"
        "subseq (calls_for t u (ten_role (st_mem p) t u)) cs" by blast+
    from ten_step_roles [OF ten_run_snoc.hyps(2) wf]
    have "ten_role (st_mem q) t u = ten_role (st_mem p) t u \<or>
        role_move t u c (ten_role (st_mem p) t u) (ten_role (st_mem q) t u)"
      unfolding roles_move_def by blast
    with IH calls_for_move [OF _ IH] have "ten_role (st_mem q) t u \<noteq> Some Owner \<and>
        subseq (calls_for t u (ten_role (st_mem q) t u)) (cs @ [c])"
      using list_emb_prefix by metis
    with ten_step_wf [OF ten_run_snoc.hyps(2) wf] show ?case by blast
  qed simp
  then show ?thesis by blast
qed

theorem tenant_roles_only_move_witness:
  "let invited = fst (invite_member we_all_ok 7 ''t'' ''u'' ''t'' (demo_tenants fmempty));
       joined = fst (accept_invitation we_all_ok 8 ''t'' ''u'' invited)
   in ten_role (st_mem joined) ''t'' ''u'' = Some Normal \<and>
      subseq (calls_for ''t'' ''u'' (ten_role (st_mem joined) ''t'' ''u'')) [Invited ''t'' ''u'', Accepted ''t'' ''u'']"
proof -
  let ?p = "invite_member we_all_ok 7 ''t'' ''u'' ''t'' (demo_tenants fmempty)"
  let ?q = "accept_invitation we_all_ok 8 ''t'' ''u'' (fst ?p)"
  have "ten_run (demo_tenants fmempty) ([] @ [Invited ''t'' ''u''] @ [Accepted ''t'' ''u'']) (fst ?q)"
    unfolding append_assoc [symmetric]
    by (rule ten_run_snoc [OF ten_run_snoc [OF ten_run_nil ten_step_invite [where r = "snd ?p"]]
          ten_step_accept [where r = "snd ?q"]]) simp_all
  moreover have "ten_role (st_mem (fst ?q)) ''t'' ''u'' = Some Normal"
    by (simp add: invite_member_def accept_invitation_def ten_mutate_def tx_mutate_if_changed_def demo_tenants_def
        invite_step_def accept_step_def hs_take_def hs_insert_def ten_role_def Let_def)
  moreover have "wf_memberships (st_mem (demo_tenants fmempty))" "ten_role (st_mem (demo_tenants fmempty)) ''t'' ''u'' = None"
    by (simp_all add: demo_tenants_def wf_memberships_def ten_role_def)
  ultimately show ?thesis
    using tenant_roles_only_move [of "demo_tenants fmempty" "[Invited ''t'' ''u'', Accepted ''t'' ''u'']" "fst ?q" "''t''" "''u''"]
    by (simp add: Let_def)
qed

text \<open>
  A call of the tenant store that fails, for whatever reason, changes nothing: with
  failed writes leaving the old file in place, memory and file keep agreeing, an error
  leaves the memberships as they were, and the store stays usable.
\<close>

theorem tenant_store_sound:
  assumes "(st', r) \<in> {invite_member e now tenant user by st, accept_invitation e now tenant user st,
                 update_role e now tenant user role st, remove_member e tenant user st}"
    and "store_sound (\<lambda>m. m) wf_memberships st" and "reliable e"
  shows "store_sound (\<lambda>m. m) wf_memberships st' \<and> r \<noteq> Panic
    \<and> (\<forall>err. r = Err err \<longrightarrow> st_mem st' = st_mem st)"
proof -
  have sound: ?thesis if "(st', r) = ten_mutate e f st" and "guarded_op wf_memberships f" for f
    using guarded_op.store_sound [OF that(2) that(1) [unfolded ten_mutate_def, symmetric] assms(2,3)] .
  have ops: "guarded_op wf_memberships f" if "f \<in> {invite_step now tenant user by,
      accept_step now tenant user, update_role_step now tenant user role, remove_step tenant user}" for f
    using that ten_invite.guarded_op_axioms ten_accept.guarded_op_axioms
      ten_update_role.guarded_op_axioms ten_remove.guarded_op_axioms by blast
  from assms(1) consider "st' = st" "r \<noteq> Panic" | f where "(st', r) = ten_mutate e f st"
      "f \<in> {invite_step now tenant user by, accept_step now tenant user,
            update_role_step now tenant user role, remove_step tenant user}"
    by (auto simp: invite_member_def accept_invitation_def update_role_def remove_member_def
        split: if_splits)
  then show ?thesis
  proof cases
    case (2 f)
    show ?thesis by (rule sound [OF 2(1) ops [OF 2(2)]])
  qed (use assms(2) in auto)
qed

theorem tenant_store_sound_witness:
  "store_sound (\<lambda>m. m) wf_memberships (fst (invite_member we_disk_full 7 ''t'' ''u'' ''t'' (demo_tenants fmempty)))
   \<and> snd (invite_member we_disk_full 7 ''t'' ''u'' ''t'' (demo_tenants fmempty)) = Err ''write_all''"
proof -
  let ?p = "invite_member we_disk_full 7 ''t'' ''u'' ''t'' (demo_tenants fmempty)"
  have "snd ?p = Err ''write_all''"
    by (simp add: invite_member_def ten_mutate_def tx_mutate_if_changed_def demo_tenants_def
        invite_step_def)
  moreover have "store_sound (\<lambda>m. m) wf_memberships (demo_tenants fmempty)"
    by (simp add: store_sound_def demo_tenants_def wf_memberships_def synced_def)
  moreover have "(fst ?p, snd ?p) \<in> {?p, accept_invitation we_disk_full 7 ''t'' ''u'' (demo_tenants fmempty),
      update_role we_disk_full 7 ''t'' ''u'' Admin (demo_tenants fmempty),
      remove_member we_disk_full ''t'' ''u'' (demo_tenants fmempty)}"
    by simp
  ultimately show ?thesis
    using tenant_store_sound [OF _ _ reliable_we_disk_full] by blast
qed

end
