(* ===== verification/Kb_Registry.thy ===== *)
theory Kb_Registry
  imports Tenants
begin

text \<open>
  \<open>KbStore\<close> of \<^verbatim>\<open>src/kb.rs\<close>: the registry of knowledge bases, their visibility, and the
  access checks of \<^verbatim>\<open>src/server.rs\<close> that join it with the tenants. A prompt configuration
  (\<open>serde_json::Value\<close>) is a value of an arbitrary type that the code only stores and
  compares.
\<close>

section \<open>Data and validation\<close>

record 'j kbase =
  kb_id :: string
  kb_name :: string
  kb_language :: string
  kb_description :: string
  kb_owner_id :: string
  kb_permission :: string
  kb_pipeline_id :: "string option"
  kb_chunk_count :: u64
  kb_doc_count :: u64
  kb_embd_id :: string
  kb_parser_config :: string
  kb_tag_sets :: string
  kb_avatar :: string
  kb_prompt_config :: 'j
  kb_created_at :: u64
  kb_updated_at :: u64

type_synonym 'j kbs = "(string, 'j kbase) hmap"

type_synonym 'j kb_store = "('j kbs, 'j kbase list) tx_store"

text \<open>\<open>default_language\<close>: \<open>LANG\<close> is the value of the environment variable, if it is set.\<close>

definition default_language :: "string option \<Rightarrow> string" where
  "default_language lang =
     (case lang of
        Some l \<Rightarrow> if str_contains l ''zh_CN'' then ''Chinese'' else ''English''
      | None \<Rightarrow> ''English'')"

definition validate_language :: "string \<Rightarrow> unit res" where
  "validate_language language =
     (let language = trim language
      in if language = [] then Err ''Language is required''
         else if 32 < chars_count language then Err ''Language must not exceed 32 characters''
         else Ok ())"

definition normalize_permission :: "string \<Rightarrow> string" where
  "normalize_permission permission =
     (let p = trim permission
      in if p = ''team'' then ''team''
         else if p = ''private'' \<or> p = ''me'' then ''me''
         else p)"

definition validate_permission :: "string \<Rightarrow> unit res" where
  "validate_permission permission =
     (if normalize_permission permission \<in> {''me'', ''team''} then Ok ()
      else Err (''Knowledge base permission must be '' @ quoted ''me'' @ '' or '' @ quoted ''team''))"

definition validate_embedding_selector :: "string \<Rightarrow> unit res" where
  "validate_embedding_selector selector =
     (if trim selector = [] then Err ''Knowledge base embedding model is required'' else Ok ())"

section \<open>The store\<close>

definition kb_mutate_if_changed ::
  "write_env \<Rightarrow> ('j kbs \<Rightarrow> 'j kbs \<times> ('a \<times> bool) res) \<Rightarrow> 'j kb_store \<Rightarrow> 'j kb_store \<times> 'a res" where
  "kb_mutate_if_changed e mutation = tx_mutate_if_changed hvalues (Some e) mutation"

definition kb_mutate ::
  "write_env \<Rightarrow> ('j kbs \<Rightarrow> 'j kbs \<times> 'a res) \<Rightarrow> 'j kb_store \<Rightarrow> 'j kb_store \<times> 'a res" where
  "kb_mutate e mutation = kb_mutate_if_changed e (always_changed mutation)"

definition kb_store_new ::
  "write_env \<Rightarrow> 'j kbase list contents \<Rightarrow> 'j kbase list disk \<Rightarrow> 'j kbase list disk \<times> 'j kb_store res" where
  "kb_store_new e file d =
     (case load_json file of
        Ok loaded \<Rightarrow>
          (let kbs = (case loaded of
                 None \<Rightarrow> []
               | Some list \<Rightarrow> hcollect kb_id
                   (map (\<lambda>kb. if kb_permission kb \<noteq> ''team'' then kb\<lparr>kb_permission := ''me''\<rparr> else kb) list))
           in case atomic_write_with_mirror e (hvalues kbs) d of
                (d', Ok u) \<Rightarrow> (d', Ok \<lparr>st_mem = kbs, st_disk = d', st_poisoned = False\<rparr>)
              | (d', Err err) \<Rightarrow> (d', Err err)
              | (d', Panic) \<Rightarrow> (d', Panic))
      | Err err \<Rightarrow> (d, Err err)
      | Panic \<Rightarrow> (d, Panic))"

text \<open>Creation, with the fresh UUID and the empty JSON object as arguments.\<close>

definition create_step ::
  "u64 \<Rightarrow> string \<Rightarrow> 'j \<Rightarrow> string \<Rightarrow> string \<Rightarrow> string \<Rightarrow> string \<Rightarrow> string \<Rightarrow> string \<Rightarrow> string \<Rightarrow>
   'j kbs \<Rightarrow> 'j kbs \<times> 'j kbase res" where
  "create_step now uuid empty_json owner name description permission embd parser language kbs =
     (if \<exists>kb \<in> set (hvalues kbs). kb_owner_id kb = owner \<and> kb_name kb = name
      then (kbs, Err (''Knowledge base '' @ quoted name @ '' already exists''))
      else
        let kb = \<lparr>kb_id = uuid, kb_name = name, kb_language = trim language,
                  kb_description = description, kb_owner_id = owner,
                  kb_permission = normalize_permission permission, kb_pipeline_id = None,
                  kb_chunk_count = 0, kb_doc_count = 0, kb_embd_id = embd,
                  kb_parser_config = parser, kb_tag_sets = [], kb_avatar = [],
                  kb_prompt_config = empty_json, kb_created_at = now, kb_updated_at = now\<rparr>
        in (hput uuid kb kbs, Ok kb))"

definition create_for_with_parser_config_and_language ::
  "write_env \<Rightarrow> u64 \<Rightarrow> string \<Rightarrow> 'j \<Rightarrow> string \<Rightarrow> string \<Rightarrow> string \<Rightarrow> string \<Rightarrow> string \<Rightarrow> string \<Rightarrow> string \<Rightarrow>
   'j kb_store \<Rightarrow> 'j kb_store \<times> 'j kbase res" where
  "create_for_with_parser_config_and_language e now uuid empty_json owner name description
      permission embd parser language st =
     (case validate_permission permission of
        Ok u \<Rightarrow>
          (case validate_language language of
             Ok u \<Rightarrow>
               (let permission = normalize_permission permission
                in case validate_embedding_selector embd of
                     Ok u \<Rightarrow> kb_mutate e (create_step now uuid empty_json owner name description
                                permission embd parser language) st
                   | Err err \<Rightarrow> (st, Err err) | Panic \<Rightarrow> (st, Panic))
           | Err err \<Rightarrow> (st, Err err) | Panic \<Rightarrow> (st, Panic))
      | Err err \<Rightarrow> (st, Err err) | Panic \<Rightarrow> (st, Panic))"

definition create_for_with_parser_config ::
  "write_env \<Rightarrow> u64 \<Rightarrow> string \<Rightarrow> 'j \<Rightarrow> string option \<Rightarrow> string \<Rightarrow> string \<Rightarrow> string \<Rightarrow> string \<Rightarrow> string \<Rightarrow>
   string \<Rightarrow> 'j kb_store \<Rightarrow> 'j kb_store \<times> 'j kbase res" where
  "create_for_with_parser_config e now uuid empty_json lang owner name description permission embd parser =
     create_for_with_parser_config_and_language e now uuid empty_json owner name description
       permission embd parser (default_language lang)"

definition default_kb_parser_config :: string where
  "default_kb_parser_config =
     [CHR 0x7B, CHR 0x22] @ ''chunk_token_num'' @ [CHR 0x22] @ '':2048,'' @ [CHR 0x22]
     @ ''overlapped_percent'' @ [CHR 0x22] @ '':0.05'' @ [CHR 0x7D]"

definition create_for_with_config ::
  "write_env \<Rightarrow> u64 \<Rightarrow> string \<Rightarrow> 'j \<Rightarrow> string option \<Rightarrow> string \<Rightarrow> string \<Rightarrow> string \<Rightarrow> string \<Rightarrow> string \<Rightarrow>
   'j kb_store \<Rightarrow> 'j kb_store \<times> 'j kbase res" where
  "create_for_with_config e now uuid empty_json lang owner name description permission embd =
     create_for_with_parser_config e now uuid empty_json lang owner name description permission embd
       default_kb_parser_config"

definition create_for_with_permission ::
  "write_env \<Rightarrow> u64 \<Rightarrow> string \<Rightarrow> 'j \<Rightarrow> string option \<Rightarrow> string \<Rightarrow> string \<Rightarrow> string \<Rightarrow> string \<Rightarrow>
   'j kb_store \<Rightarrow> 'j kb_store \<times> 'j kbase res" where
  "create_for_with_permission e now uuid empty_json lang owner name description permission =
     create_for_with_config e now uuid empty_json lang owner name description
       (normalize_permission permission) ''default''"

definition create_for ::
  "write_env \<Rightarrow> u64 \<Rightarrow> string \<Rightarrow> 'j \<Rightarrow> string option \<Rightarrow> string \<Rightarrow> string \<Rightarrow> string \<Rightarrow>
   'j kb_store \<Rightarrow> 'j kb_store \<times> 'j kbase res" where
  "create_for e now uuid empty_json lang owner name description =
     create_for_with_permission e now uuid empty_json lang owner name description ''private''"

section \<open>Updates\<close>

text \<open>Whether an optional new value differs from the stored one (\<open>is_some_and(|v| v != old)\<close>).\<close>

definition differs :: "'a option \<Rightarrow> 'a \<Rightarrow> bool" where
  "differs new old = (case new of None \<Rightarrow> False | Some v \<Rightarrow> old \<noteq> v)"

definition or_old :: "'a option \<Rightarrow> 'a \<Rightarrow> 'a" where
  "or_old new old = (case new of None \<Rightarrow> old | Some v \<Rightarrow> v)"

definition pipeline_step ::
  "string \<Rightarrow> string option \<Rightarrow> 'j kbs \<Rightarrow> 'j kbs \<times> ('j kbase option \<times> bool) res" where
  "pipeline_step i pipeline kbs =
     (case hget kbs i of
        None \<Rightarrow> (kbs, Ok (None, False))
      | Some kb \<Rightarrow>
          if kb_pipeline_id kb = pipeline then (kbs, Ok (Some kb, False))
          else let kb' = kb\<lparr>kb_pipeline_id := pipeline\<rparr> in (hput i kb' kbs, Ok (Some kb', True)))"

definition set_pipeline_id ::
  "write_env \<Rightarrow> string \<Rightarrow> string option \<Rightarrow> 'j kb_store \<Rightarrow> 'j kb_store \<times> 'j kbase option res" where
  "set_pipeline_id e i pipeline st =
     (let pipeline = (case map_option trim pipeline of
                        None \<Rightarrow> None | Some v \<Rightarrow> if v \<noteq> [] then Some v else None)
      in kb_mutate_if_changed e (pipeline_step i pipeline) st)"

definition language_step ::
  "string \<Rightarrow> string \<Rightarrow> 'j kbs \<Rightarrow> 'j kbs \<times> ('j kbase option \<times> bool) res" where
  "language_step i language kbs =
     (case hget kbs i of
        None \<Rightarrow> (kbs, Ok (None, False))
      | Some kb \<Rightarrow>
          if kb_language kb = language then (kbs, Ok (Some kb, False))
          else let kb' = kb\<lparr>kb_language := language\<rparr> in (hput i kb' kbs, Ok (Some kb', True)))"

definition set_language ::
  "write_env \<Rightarrow> string \<Rightarrow> string \<Rightarrow> 'j kb_store \<Rightarrow> 'j kb_store \<times> 'j kbase option res" where
  "set_language e i language st =
     (case validate_language language of
        Ok u \<Rightarrow> kb_mutate_if_changed e (language_step i (trim language)) st
      | Err err \<Rightarrow> (st, Err err) | Panic \<Rightarrow> (st, Panic))"

definition config_step ::
  "u64 \<Rightarrow> string \<Rightarrow> string option \<Rightarrow> string option \<Rightarrow> string option \<Rightarrow> 'j option \<Rightarrow>
   'j kbs \<Rightarrow> 'j kbs \<times> ('j kbase option \<times> bool) res" where
  "config_step now i permission embd parser prompt kbs =
     (case hget kbs i of
        None \<Rightarrow> (kbs, Ok (None, False))
      | Some kb \<Rightarrow>
          if \<not> differs permission (kb_permission kb) \<and> \<not> differs embd (kb_embd_id kb)
             \<and> \<not> differs parser (kb_parser_config kb) \<and> \<not> differs prompt (kb_prompt_config kb)
          then (kbs, Ok (Some kb, False))
          else let kb' = kb\<lparr>kb_permission := or_old permission (kb_permission kb),
                            kb_embd_id := or_old embd (kb_embd_id kb),
                            kb_parser_config := or_old parser (kb_parser_config kb),
                            kb_prompt_config := or_old prompt (kb_prompt_config kb),
                            kb_updated_at := now\<rparr>
            in (hput i kb' kbs, Ok (Some kb', True)))"

definition update_config ::
  "write_env \<Rightarrow> u64 \<Rightarrow> string \<Rightarrow> string option \<Rightarrow> string option \<Rightarrow> string option \<Rightarrow> 'j option \<Rightarrow>
   'j kb_store \<Rightarrow> 'j kb_store \<times> 'j kbase option res" where
  "update_config e now i permission embd parser prompt st =
     (let permission = map_option normalize_permission permission;
          checked = (case permission of None \<Rightarrow> Ok () | Some p \<Rightarrow> validate_permission p);
          checked = res_bind checked
            (\<lambda>_. case embd of None \<Rightarrow> Ok () | Some v \<Rightarrow> validate_embedding_selector v)
      in case checked of
           Ok u \<Rightarrow> kb_mutate_if_changed e (config_step now i permission embd parser prompt) st
         | Err err \<Rightarrow> (st, Err err) | Panic \<Rightarrow> (st, Panic))"

definition update_permission ::
  "write_env \<Rightarrow> u64 \<Rightarrow> string \<Rightarrow> string \<Rightarrow> 'j kb_store \<Rightarrow> 'j kb_store \<times> 'j kbase option res" where
  "update_permission e now i permission st = update_config e now i (Some permission) None None None st"

definition identity_step ::
  "u64 \<Rightarrow> string \<Rightarrow> string option \<Rightarrow> string option \<Rightarrow> string option \<Rightarrow> string option \<Rightarrow>
   'j kbs \<Rightarrow> 'j kbs \<times> ('j kbase option \<times> bool) res" where
  "identity_step now i name description tag_sets avatar kbs =
     (case hget kbs i of
        None \<Rightarrow> (kbs, Ok (None, False))
      | Some kb \<Rightarrow>
          if \<not> differs (map_option trim name) (kb_name kb) \<and> \<not> differs description (kb_description kb)
             \<and> \<not> differs tag_sets (kb_tag_sets kb) \<and> \<not> differs avatar (kb_avatar kb)
          then (kbs, Ok (Some kb, False))
          else let kb' = kb\<lparr>kb_name := or_old (map_option trim name) (kb_name kb),
                            kb_description := or_old description (kb_description kb),
                            kb_tag_sets := or_old tag_sets (kb_tag_sets kb),
                            kb_avatar := or_old avatar (kb_avatar kb),
                            kb_updated_at := now\<rparr>
            in (hput i kb' kbs, Ok (Some kb', True)))"

definition update_identity ::
  "write_env \<Rightarrow> u64 \<Rightarrow> string \<Rightarrow> string option \<Rightarrow> string option \<Rightarrow> string option \<Rightarrow> string option \<Rightarrow>
   'j kb_store \<Rightarrow> 'j kb_store \<times> 'j kbase option res" where
  "update_identity e now i name description tag_sets avatar st =
     kb_mutate_if_changed e (identity_step now i name description tag_sets avatar) st"

definition update_name_description ::
  "write_env \<Rightarrow> u64 \<Rightarrow> string \<Rightarrow> string option \<Rightarrow> string option \<Rightarrow>
   'j kb_store \<Rightarrow> 'j kb_store \<times> 'j kbase option res" where
  "update_name_description e now i name description st =
     update_identity e now i name description None None st"

definition kb_delete_step :: "string \<Rightarrow> 'j kbs \<Rightarrow> 'j kbs \<times> (bool \<times> bool) res" where
  "kb_delete_step i kbs =
     (let removed = (hget kbs i \<noteq> None) in (hdel i kbs, Ok (removed, removed)))"

definition kb_delete :: "write_env \<Rightarrow> string \<Rightarrow> 'j kb_store \<Rightarrow> 'j kb_store \<times> bool res" where
  "kb_delete e i st = kb_mutate_if_changed e (kb_delete_step i) st"

text \<open>
  \<open>(count as isize + delta).max(0) as usize\<close> on 64 bits; the sum wraps as it does without
  overflow checks.
\<close>

definition count_after :: "u64 \<Rightarrow> u64 \<Rightarrow> u64" where
  "count_after count delta = (if sint (count + delta) < 0 then 0 else count + delta)"

definition counts_step ::
  "u64 \<Rightarrow> string \<Rightarrow> u64 \<Rightarrow> u64 \<Rightarrow> 'j kbs \<Rightarrow> 'j kbs \<times> (unit \<times> bool) res" where
  "counts_step now i chunk_delta doc_delta kbs =
     (case hget kbs i of
        None \<Rightarrow> (kbs, Ok ((), False))
      | Some kb \<Rightarrow>
          (hput i (kb\<lparr>kb_chunk_count := count_after (kb_chunk_count kb) chunk_delta,
                      kb_doc_count := count_after (kb_doc_count kb) doc_delta,
                      kb_updated_at := now\<rparr>) kbs, Ok ((), True)))"

definition update_counts ::
  "write_env \<Rightarrow> u64 \<Rightarrow> string \<Rightarrow> u64 \<Rightarrow> u64 \<Rightarrow> 'j kb_store \<Rightarrow> 'j kb_store \<times> unit res" where
  "update_counts e now i chunk_delta doc_delta st =
     kb_mutate_if_changed e (counts_step now i chunk_delta doc_delta) st"

section \<open>Access\<close>

text \<open>The condition that \<open>list_accessible\<close> and \<open>can_read\<close> share.\<close>

definition kb_visible :: "(string \<Rightarrow> string \<Rightarrow> bool) \<Rightarrow> string \<Rightarrow> bool \<Rightarrow> 'j kbase \<Rightarrow> bool" where
  "kb_visible is_tenant_member user is_admin kb \<longleftrightarrow>
     kb_owner_id kb = user
     \<or> (kb_permission kb = ''team'' \<and> is_tenant_member (kb_owner_id kb) user)
     \<or> (is_admin \<and> kb_owner_id kb = [])"

definition list_accessible ::
  "string \<Rightarrow> bool \<Rightarrow> (string \<Rightarrow> string \<Rightarrow> bool) \<Rightarrow> 'j kbs \<Rightarrow> 'j kbase list" where
  "list_accessible user is_admin is_tenant_member kbs =
     filter (kb_visible is_tenant_member user is_admin) (hvalues kbs)"

definition kb_can_read ::
  "string \<Rightarrow> string \<Rightarrow> bool \<Rightarrow> (string \<Rightarrow> string \<Rightarrow> bool) \<Rightarrow> 'j kbs \<Rightarrow> bool" where
  "kb_can_read i user is_admin is_tenant_member kbs =
     (case hget kbs i of None \<Rightarrow> False | Some kb \<Rightarrow> kb_visible is_tenant_member user is_admin kb)"

definition kb_can_manage :: "string \<Rightarrow> string \<Rightarrow> bool \<Rightarrow> 'j kbs \<Rightarrow> bool" where
  "kb_can_manage i user is_admin kbs =
     (case hget kbs i of
        None \<Rightarrow> False
      | Some kb \<Rightarrow> kb_owner_id kb = user \<or> (is_admin \<and> kb_owner_id kb = []))"

record auth_context =
  ac_user_id :: string
  ac_is_admin :: bool
  ac_token :: string

text \<open>The checks of the server, on the registry and the memberships it holds.\<close>

definition kb_accessible :: "'j kbs \<Rightarrow> memberships \<Rightarrow> string \<Rightarrow> auth_context \<Rightarrow> bool" where
  "kb_accessible kbs tenants i auth =
     kb_can_read i (ac_user_id auth) (ac_is_admin auth) (ten_is_member tenants) kbs"

definition kb_manageable :: "'j kbs \<Rightarrow> memberships \<Rightarrow> string \<Rightarrow> auth_context \<Rightarrow> bool" where
  "kb_manageable kbs tenants i auth =
     (case hget kbs i of
        None \<Rightarrow> False
      | Some kb \<Rightarrow>
          kb_owner_id kb = ac_user_id auth
          \<or> ten_can_manage tenants (kb_owner_id kb) (ac_user_id auth)
          \<or> (ac_is_admin auth \<and> kb_owner_id kb = []))"

definition all_kbs_accessible :: "'j kbs \<Rightarrow> memberships \<Rightarrow> string list \<Rightarrow> auth_context \<Rightarrow> bool" where
  "all_kbs_accessible kbs tenants is auth \<longleftrightarrow>
     is \<noteq> [] \<and> list_all (\<lambda>i. kb_accessible kbs tenants i auth) is"

section \<open>The operations are guarded\<close>

text \<open>The registry is keyed by id and every permission is one of the two.\<close>

definition valid_kb :: "'j kbase \<Rightarrow> bool" where
  "valid_kb kb \<longleftrightarrow> kb_permission kb = ''me'' \<or> kb_permission kb = ''team''"

abbreviation wf_kbs :: "'j kbs \<Rightarrow> bool" where
  "wf_kbs kbs \<equiv> wf_map kb_id valid_kb kbs"

lemma guarded_create:
  assumes "normalize_permission permission \<in> {''me'', ''team''}"
  shows "guarded_op wf_kbs (always_changed (create_step now uuid empty_json owner name description
    permission embd parser language))"
  using assms
  by unfold_locales
     (auto simp: create_step_def Let_def valid_kb_def split: if_splits intro!: wf_map_put)

lemma guarded_config:
  assumes "\<And>p. permission = Some p \<Longrightarrow> p \<in> {''me'', ''team''}"
  shows "guarded_op wf_kbs (config_step now i permission embd parser prompt)"
proof -
  have "valid_kb kb \<Longrightarrow> valid_kb (kb\<lparr>kb_permission := or_old permission (kb_permission kb),
      kb_embd_id := a, kb_parser_config := b, kb_prompt_config := c, kb_updated_at := d\<rparr>)"
    for kb :: "'a kbase" and a b c d
    using assms by (cases permission) (auto simp: valid_kb_def or_old_def)
  then show ?thesis
    by unfold_locales
       (auto simp: config_step_def Let_def split: option.splits if_splits intro!: wf_map_update)
qed

interpretation kb_pipeline: guarded_op wf_kbs "pipeline_step i pipeline" for i pipeline
  by unfold_locales
     (auto simp: pipeline_step_def Let_def valid_kb_def split: option.splits if_splits
       intro!: wf_map_update)

interpretation kb_language: guarded_op wf_kbs "language_step i language" for i language
  by unfold_locales
     (auto simp: language_step_def Let_def valid_kb_def split: option.splits if_splits
       intro!: wf_map_update)

interpretation kb_identity: guarded_op wf_kbs "identity_step now i name description tag_sets avatar"
  for now i name description tag_sets avatar
  by unfold_locales
     (auto simp: identity_step_def Let_def valid_kb_def split: option.splits if_splits
       intro!: wf_map_update)

interpretation kb_deleting: guarded_op wf_kbs "kb_delete_step i" for i
  by unfold_locales (auto simp: kb_delete_step_def Let_def hdel_absent wf_map_delete)

interpretation kb_counts: guarded_op wf_kbs "counts_step now i chunk_delta doc_delta"
  for now i chunk_delta doc_delta
  by unfold_locales
     (auto simp: counts_step_def valid_kb_def split: option.splits intro!: wf_map_update)

section \<open>Calls of the registry\<close>

text \<open>
  One call with any arguments, answered with any result, of which the relation keeps the
  outcome.
\<close>

inductive kb_call :: "write_env \<Rightarrow> 'j kb_store \<Rightarrow> 'j kb_store \<Rightarrow> outcome \<Rightarrow> bool" for e where
  call_create:
    "create_for_with_parser_config_and_language e now uuid empty_json owner name description
       permission embd parser language st = (st', r) \<Longrightarrow> kb_call e st st' (outcome_of r)"
| call_pipeline: "set_pipeline_id e i pipeline st = (st', r) \<Longrightarrow> kb_call e st st' (outcome_of r)"
| call_language: "set_language e i language st = (st', r) \<Longrightarrow> kb_call e st st' (outcome_of r)"
| call_config:
    "update_config e now i perm embd_opt parser_opt prompt st = (st', r) \<Longrightarrow> kb_call e st st' (outcome_of r)"
| call_identity:
    "update_identity e now i name_opt description_opt tag_sets avatar st = (st', r) \<Longrightarrow>
     kb_call e st st' (outcome_of r)"
| call_delete: "kb_delete e i st = (st', q) \<Longrightarrow> kb_call e st st' (outcome_of q)"
| call_counts: "update_counts e now i chunk_delta doc_delta st = (st', u) \<Longrightarrow> kb_call e st st' (outcome_of u)"

lemma validate_permission_Ok:
  "validate_permission p = Ok u \<longleftrightarrow> normalize_permission p \<in> {''me'', ''team''}"
  by (simp add: validate_permission_def)

lemma normalize_permission_idem [simp]:
  "normalize_permission (normalize_permission p) = normalize_permission p"
  by (simp add: normalize_permission_def Let_def is_graph_char_def)

lemma validate_no_panic [simp]:
  "validate_language l \<noteq> Panic" "validate_permission p \<noteq> Panic" "validate_embedding_selector v \<noteq> Panic"
  by (simp_all add: validate_language_def validate_permission_def validate_embedding_selector_def Let_def)

text \<open>Every call of the registry, with a disk whose failed writes leave the old file.\<close>

lemma kb_call_sound:
  assumes "kb_call e st st' out" and sound: "store_sound hvalues wf_kbs st" and "reliable e"
  shows "call_sound hvalues wf_kbs st st' out"
  using assms(1)
proof (cases rule: kb_call.cases)
  case (call_create now uuid empty_json owner name description permission embd parser language r)
  show ?thesis
  proof (cases "st' = st \<and> (\<exists>err. out = Failed err)")
    case False
    with call_create have perm: "normalize_permission permission \<in> {''me'', ''team''}"
      and run: "tx_mutate_if_changed hvalues (Some e) (always_changed (create_step now uuid empty_json
        owner name description (normalize_permission permission) embd parser language)) st = (st', r)"
      by (auto simp: create_for_with_parser_config_and_language_def kb_mutate_def Let_def
          validate_permission_def kb_mutate_if_changed_def split: if_splits res.splits)
    show ?thesis
      unfolding call_create(1)
      by (rule call_sound_guarded [OF run guarded_create sound assms(3)]) (use perm in simp)
  qed (use sound call_sound_refused in blast)
next
  case (call_config now i perm embd_opt parser_opt prompt r)
  show ?thesis
  proof (cases "st' = st \<and> (\<exists>err. out = Failed err)")
    case False
    with call_config have perm: "\<And>p. map_option normalize_permission perm = Some p \<Longrightarrow> p \<in> {''me'', ''team''}"
      and run: "tx_mutate_if_changed hvalues (Some e)
        (config_step now i (map_option normalize_permission perm) embd_opt parser_opt prompt) st = (st', r)"
      by (auto simp: update_config_def Let_def kb_mutate_if_changed_def validate_permission_def
          split: if_splits res.splits option.splits)
    show ?thesis
      unfolding call_config(1)
      by (rule call_sound_guarded [OF run guarded_config sound assms(3)]) (rule perm)
  qed (use sound call_sound_refused in blast)
next
  case (call_language i language r)
  then show ?thesis
    using sound by (auto simp: set_language_def kb_mutate_if_changed_def
        split: res.splits intro: call_sound_refused call_sound_guarded [OF _ kb_language.guarded_op_axioms sound assms(3)])
qed (auto simp: set_pipeline_id_def Let_def update_identity_def kb_delete_def update_counts_def
      kb_mutate_if_changed_def
      intro: call_sound_guarded [OF _ kb_pipeline.guarded_op_axioms sound assms(3)]
        call_sound_guarded [OF _ kb_identity.guarded_op_axioms sound assms(3)]
        call_sound_guarded [OF _ kb_deleting.guarded_op_axioms sound assms(3)]
        call_sound_guarded [OF _ kb_counts.guarded_op_axioms sound assms(3)])

section \<open>Access control\<close>

context directory
begin

lemma owner_sees: "kb_visible member (kb_owner_id kb) is_admin kb"
  by (simp add: kb_visible_def)

text \<open>Being a member of the owner's tenant opens exactly the team bases, to anyone.\<close>

lemma visible_iff:
  "kb_visible member user is_admin kb \<longleftrightarrow>
     (if kb_permission kb = ''team'' then member (kb_owner_id kb) user else kb_owner_id kb = user)
     \<or> (is_admin \<and> kb_owner_id kb = [])"
  using owner_is_member by (auto simp: kb_visible_def)

lemma manager_sees_team:
  "manager (kb_owner_id kb) user \<Longrightarrow> kb_permission kb = ''team'' \<Longrightarrow> kb_visible member user is_admin kb"
  by (simp add: visible_iff manager_is_member)

end

text \<open>What is listed is what can be read, whatever the member test.\<close>

lemma list_accessible_iff:
  assumes "keyed kb_id kbs"
  shows "kb \<in> set (list_accessible user is_admin mem kbs) \<longleftrightarrow>
    hget kbs (kb_id kb) = Some kb \<and> kb_can_read (kb_id kb) user is_admin mem kbs"
  using keyed_values [OF assms, of kb]
  by (auto simp: list_accessible_def kb_can_read_def simp del: set_map)

section \<open>Properties\<close>

definition demo_kb :: "string \<Rightarrow> string \<Rightarrow> string \<Rightarrow> string \<Rightarrow> nat kbase" where
  "demo_kb i name owner permission =
     \<lparr>kb_id = i, kb_name = name, kb_language = ''English'', kb_description = [],
      kb_owner_id = owner, kb_permission = permission, kb_pipeline_id = None,
      kb_chunk_count = 0, kb_doc_count = 0, kb_embd_id = ''default'', kb_parser_config = [],
      kb_tag_sets = [], kb_avatar = [], kb_prompt_config = 0, kb_created_at = 1, kb_updated_at = 1\<rparr>"

definition demo_kbs :: "nat kbs" where
  "demo_kbs = [(''k1'', demo_kb ''k1'' ''notes'' ''alice'' ''me''), (''k2'', demo_kb ''k2'' ''wiki'' ''alice'' ''team'')]"

definition demo_kb_store :: "nat kb_store" where
  "demo_kb_store = \<lparr>st_mem = demo_kbs, st_disk = \<lparr>dk_file = Some (hvalues demo_kbs), dk_mirror = None\<rparr>,
     st_poisoned = False\<rparr>"

lemma demo_kbs_wf: "wf_kbs demo_kbs"
  by (auto simp: demo_kbs_def wf_map_def keyed_def demo_kb_def valid_kb_def)

lemma demo_kb_store_sound: "store_sound hvalues wf_kbs demo_kb_store"
  by (simp add: store_sound_def demo_kb_store_def demo_kbs_wf synced_def)

text \<open>
  Every sequence of calls of the registry, with any arguments, keeps it keyed by id,
  keeps every permission \<open>me\<close> or \<open>team\<close>, keeps the file equal to memory, and leaves no call
  panicking, whatever writes fail, as long as a failed write leaves the old file in place.
\<close>

theorem kb_registry_sound:
  assumes "(\<lambda>st st'. \<exists>e out. reliable e \<and> kb_call e st st' out)\<^sup>*\<^sup>* st st'"
    and "store_sound hvalues wf_kbs st"
  shows "store_sound hvalues wf_kbs st'"
  using assms
  by (induction rule: rtranclp_induct) (auto dest: kb_call_sound simp: call_sound_def)

theorem kb_registry_sound_witness:
  "store_sound hvalues wf_kbs (fst (update_permission we_all_ok 9 ''k1'' ''team'' demo_kb_store))
   \<and> map_option kb_permission (hget (st_mem (fst (update_permission we_all_ok 9 ''k1'' ''team'' demo_kb_store))) ''k1'')
       = Some ''team''"
proof -
  let ?p = "update_permission we_all_ok 9 ''k1'' ''team'' demo_kb_store"
  have "kb_call we_all_ok demo_kb_store (fst ?p) (outcome_of (snd ?p))"
    by (rule call_config [of we_all_ok 9 "''k1''" "Some ''team''" None None None])
       (simp add: update_permission_def)
  then have "(\<lambda>st st'. \<exists>e out. reliable e \<and> kb_call e st st' out)\<^sup>*\<^sup>* demo_kb_store (fst ?p)"
    using reliable_we_all_ok by blast
  moreover have "map_option kb_permission (hget (st_mem (fst ?p)) ''k1'') = Some ''team''"
    by (simp add: update_permission_def update_config_def normalize_permission_def
        validate_permission_def kb_mutate_if_changed_def tx_mutate_if_changed_def demo_kb_store_def
        demo_kbs_def demo_kb_def config_step_def differs_def or_old_def is_graph_char_def Let_def)
  ultimately show ?thesis using kb_registry_sound demo_kb_store_sound by blast
qed

text \<open>
  C23. What a user is shown is what the user may read: the accessible list has no
  duplicates, and it holds a base exactly if the single-base check admits it; and for
  anyone who is not an administrator that is: their own bases, and the team bases of the
  tenants they are a member of.
\<close>

theorem kb_list_agrees_with_check:
  assumes "wf_kbs kbs"
  shows "distinct (map kb_id (list_accessible (ac_user_id auth) (ac_is_admin auth) (ten_is_member ten) kbs))
    \<and> (kb \<in> set (list_accessible (ac_user_id auth) (ac_is_admin auth) (ten_is_member ten) kbs)
        \<longleftrightarrow> hget kbs (kb_id kb) = Some kb \<and> kb_accessible kbs ten (kb_id kb) auth)
    \<and> (\<not> ac_is_admin auth \<longrightarrow> hget kbs i = Some b \<longrightarrow>
        (kb_accessible kbs ten i auth \<longleftrightarrow>
           (if kb_permission b = ''team'' then ten_is_member ten (kb_owner_id b) (ac_user_id auth)
            else kb_owner_id b = ac_user_id auth)))"
proof (intro conjI impI)
  have "keyed kb_id kbs" using assms by (rule wf_map_keyed)
  then have "distinct (map kb_id (hvalues kbs))" by (rule keyed_distinct_key)
  then show "distinct (map kb_id (list_accessible (ac_user_id auth) (ac_is_admin auth) (ten_is_member ten) kbs))"
    by (simp add: list_accessible_def distinct_map_filter del: map_map)
  show "kb \<in> set (list_accessible (ac_user_id auth) (ac_is_admin auth) (ten_is_member ten) kbs)
        \<longleftrightarrow> hget kbs (kb_id kb) = Some kb \<and> kb_accessible kbs ten (kb_id kb) auth"
    unfolding kb_accessible_def by (rule list_accessible_iff [OF \<open>keyed kb_id kbs\<close>])
  assume "\<not> ac_is_admin auth" "hget kbs i = Some b"
  then show "kb_accessible kbs ten i auth \<longleftrightarrow>
      (if kb_permission b = ''team'' then ten_is_member ten (kb_owner_id b) (ac_user_id auth)
       else kb_owner_id b = ac_user_id auth)"
    by (simp add: kb_accessible_def kb_can_read_def tenants.visible_iff)
qed

theorem kb_list_agrees_with_check_witness:
  "map kb_id (list_accessible ''bob'' False (ten_is_member (fmupd (''alice'', ''bob'')
      \<lparr>mb_tenant_id = ''alice'', mb_user_id = ''bob'', mb_role = Normal, mb_invited_by = ''alice'',
       mb_created_at = 1, mb_updated_at = 2\<rparr> fmempty)) demo_kbs) = [''k2'']
   \<and> distinct (map kb_id (list_accessible (ac_user_id \<lparr>ac_user_id = ''bob'', ac_is_admin = False, ac_token = []\<rparr>)
        (ac_is_admin \<lparr>ac_user_id = ''bob'', ac_is_admin = False, ac_token = []\<rparr>) (ten_is_member fmempty) demo_kbs))"
  using kb_list_agrees_with_check [OF demo_kbs_wf]
  by (intro conjI)
     (simp_all add: demo_kbs_def demo_kb_def list_accessible_def kb_visible_def ten_is_member_def
        ten_role_def role_is_member_def)

text \<open>
  Revocation: once a user has been removed from a tenant, no base that the tenant owns
  is accessible or manageable to them any more, private or team, until they are invited and
  accept again; an administrator keeps only what has no owner.
\<close>

theorem removed_member_loses_access:
  assumes "remove_member e tenant (ac_user_id auth) st = (st', Ok True)"
    and "hget kbs i = Some kb" and "kb_owner_id kb = tenant" and "tenant \<noteq> []"
  shows "\<not> kb_accessible kbs (st_mem st') i auth \<and> \<not> kb_manageable kbs (st_mem st') i auth"
proof -
  have ne: "tenant \<noteq> ac_user_id auth" and
    run: "tx_mutate_if_changed (\<lambda>m. m) (Some e) (remove_step tenant (ac_user_id auth)) st = (st', Ok True)"
    using assms(1) by (auto simp: remove_member_def ten_mutate_def split: if_splits)
  from ten_remove.store_refines [OF run]
  have "st_mem st' = fmfilter (\<lambda>(t, u). t \<noteq> tenant \<or> u \<noteq> ac_user_id auth) (st_mem st)"
    by (auto simp: remove_step_def Let_def)
  then have "ten_role (st_mem st') tenant (ac_user_id auth) = None"
    using ne by (simp add: ten_role_def)
  with assms(2-4) ne show ?thesis
    by (auto simp: kb_accessible_def kb_can_read_def kb_manageable_def kb_visible_def
        ten_is_member_def ten_can_manage_def)
qed

theorem removed_member_loses_access_witness:
  "let m = fmupd (''alice'', ''bob'') \<lparr>mb_tenant_id = ''alice'', mb_user_id = ''bob'', mb_role = Admin,
            mb_invited_by = ''alice'', mb_created_at = 1, mb_updated_at = 2\<rparr> fmempty;
       bob = \<lparr>ac_user_id = ''bob'', ac_is_admin = True, ac_token = []\<rparr>;
       st' = fst (remove_member we_all_ok ''alice'' ''bob'' (demo_tenants m))
   in kb_accessible demo_kbs m ''k2'' bob
      \<and> \<not> kb_accessible demo_kbs (st_mem st') ''k2'' bob \<and> \<not> kb_manageable demo_kbs (st_mem st') ''k2'' bob"
proof -
  define m where "m = fmupd (''alice'', ''bob'') \<lparr>mb_tenant_id = ''alice'', mb_user_id = ''bob'',
    mb_role = Admin, mb_invited_by = ''alice'', mb_created_at = 1, mb_updated_at = 2\<rparr> fmempty"
  define bob where "bob = \<lparr>ac_user_id = ''bob'', ac_is_admin = True, ac_token = []\<rparr>"
  let ?p = "remove_member we_all_ok ''alice'' (ac_user_id bob) (demo_tenants m)"
  have filtered: "ffilter (\<lambda>(t, u). t = ''alice'' \<longrightarrow> u \<noteq> ''bob'') (fmdom m) = {||}"
    by (auto simp: m_def)
  have "snd ?p = Ok True"
    by (simp add: remove_member_def ten_mutate_def tx_mutate_if_changed_def demo_tenants_def
        remove_step_def bob_def Let_def filtered) (simp add: m_def fcard_finsert)
  then have "?p = (fst ?p, Ok True)" by (metis prod.collapse)
  from removed_member_loses_access [OF this, of demo_kbs "''k2''" "demo_kb ''k2'' ''wiki'' ''alice'' ''team''"]
  have "\<not> kb_accessible demo_kbs (st_mem (fst ?p)) ''k2'' bob \<and> \<not> kb_manageable demo_kbs (st_mem (fst ?p)) ''k2'' bob"
    by (simp add: demo_kbs_def) (simp add: demo_kb_def)
  moreover have "kb_accessible demo_kbs m ''k2'' bob"
    by (simp add: kb_accessible_def kb_can_read_def kb_visible_def demo_kbs_def demo_kb_def bob_def
        m_def ten_is_member_def ten_role_def role_is_member_def)
  ultimately show ?thesis by (simp add: Let_def m_def [symmetric] bob_def [symmetric]) (simp add: bob_def)
qed

text \<open>
  A manager of a tenant passes the management check of a base that its owner keeps
  private, although the same user is not allowed to read it.
\<close>

theorem manager_manages_unreadable:
  "let m = fmupd (''alice'', ''bob'') \<lparr>mb_tenant_id = ''alice'', mb_user_id = ''bob'', mb_role = Admin,
            mb_invited_by = ''alice'', mb_created_at = 1, mb_updated_at = 2\<rparr> fmempty;
       bob = \<lparr>ac_user_id = ''bob'', ac_is_admin = False, ac_token = []\<rparr>
   in kb_manageable demo_kbs m ''k1'' bob \<and> \<not> kb_accessible demo_kbs m ''k1'' bob"
  by (simp add: Let_def kb_manageable_def kb_accessible_def kb_can_read_def kb_visible_def demo_kbs_def
      demo_kb_def ten_is_member_def ten_can_manage_def ten_role_def role_is_member_def role_can_manage_def)

text \<open>
  Creation refuses a second base of the same name for one owner, but a rename does not
  check: after two successful calls the owner has two bases with one name.
\<close>

theorem kb_names_unique_until_renamed:
  "let create = (\<lambda>name. create_for_with_parser_config_and_language we_all_ok 5 ''k3'' 0 ''alice'' name []
         ''me'' ''default'' [] ''English'' demo_kb_store);
       renamed = update_name_description we_all_ok 6 ''k1'' (Some ''wiki'') None demo_kb_store
   in snd (create ''wiki'') = Err (''Knowledge base '' @ quoted ''wiki'' @ '' already exists'')
    \<and> is_ok (snd (create ''fresh'')) \<and> is_ok (snd renamed)
    \<and> map kb_name (filter (\<lambda>kb. kb_owner_id kb = ''alice'') (hvalues (st_mem (fst renamed)))) = [''wiki'', ''wiki'']"
  by (simp add: Let_def create_for_with_parser_config_and_language_def normalize_permission_def
      validate_permission_def validate_language_def validate_embedding_selector_def chars_count_def
      is_cont_byte_def is_graph_char_def kb_mutate_def kb_mutate_if_changed_def tx_mutate_if_changed_def
      always_changed_def create_step_def demo_kb_store_def demo_kbs_def demo_kb_def
      update_name_description_def update_identity_def identity_step_def differs_def or_old_def)

text \<open>
  Counting: within the range of a 64-bit signed integer the new counts are the exact
  sums, cut off at zero; the other bases are untouched.
\<close>

theorem kb_counts_exact:
  assumes "update_counts e now i dc dd st = (st', Ok ())" and "hget (st_mem st) i = Some kb"
    and "int (unat (kb_chunk_count kb)) + sint dc < 2 ^ 63" and "kb_chunk_count kb < 2 ^ 63"
  shows "\<exists>kb'. hget (st_mem st') i = Some kb'
    \<and> int (unat (kb_chunk_count kb')) = max 0 (int (unat (kb_chunk_count kb)) + sint dc)
    \<and> (\<forall>j. j \<noteq> i \<longrightarrow> hget (st_mem st') j = hget (st_mem st) j)"
proof -
  have count: "int (unat (count_after c d)) = max 0 (int (unat c) + sint d)"
    if "int (unat c) + sint d < 2 ^ 63" "c < 2 ^ 63" for c d
  proof -
    have "- (2 ^ 63) \<le> sint d" using sint_ge [of d] by simp
    then have low: "- (2 ^ 63) \<le> sint c + sint d"
      unfolding sint_small [OF that(2)] using of_nat_0_le_iff [of "unat c"] by linarith
    have "sint (c + d) = int (unat c) + sint d"
      using sint_add [OF low] that(1) by (simp only: sint_small [OF that(2)])
    then show ?thesis
      using sint_nonneg [of "c + d"] by (auto simp: count_after_def max_def)
  qed
  have "tx_mutate_if_changed hvalues (Some e) (counts_step now i dc dd) st = (st', Ok ())"
    using assms(1) by (simp add: update_counts_def kb_mutate_if_changed_def)
  from kb_counts.store_refines [OF this] assms(2)
  have "st_mem st' = hput i (kb\<lparr>kb_chunk_count := count_after (kb_chunk_count kb) dc,
      kb_doc_count := count_after (kb_doc_count kb) dd, kb_updated_at := now\<rparr>) (st_mem st)"
    by (auto simp: counts_step_def)
  with count [OF assms(3,4)] show ?thesis by simp
qed

theorem kb_counts_exact_witness:
  "\<exists>kb'. hget (st_mem (fst (update_counts we_all_ok 9 ''k1'' (- 5) 1 demo_kb_store))) ''k1'' = Some kb'
    \<and> int (unat (kb_chunk_count kb')) = max 0 (int (unat (kb_chunk_count (demo_kb ''k1'' ''notes'' ''alice'' ''me'')))
        + sint (- 5 :: u64))
    \<and> (\<forall>j. j \<noteq> ''k1'' \<longrightarrow> hget (st_mem (fst (update_counts we_all_ok 9 ''k1'' (- 5) 1 demo_kb_store))) j
        = hget (st_mem demo_kb_store) j)"
proof (rule kb_counts_exact)
  let ?p = "update_counts we_all_ok 9 ''k1'' (- 5) 1 demo_kb_store"
  have "snd ?p = Ok ()"
    by (simp add: update_counts_def kb_mutate_if_changed_def tx_mutate_if_changed_def counts_step_def
        demo_kb_store_def demo_kbs_def)
  then show "?p = (fst ?p, Ok ())" by (metis prod.collapse)
qed (simp_all add: demo_kb_store_def demo_kbs_def demo_kb_def)

end
