(* ===== verification/Users.thy ===== *)
theory Users
  imports Kb_Registry
begin

unbundle bit_operations_syntax

text \<open>
  \<open>UserStore\<close> of \<^verbatim>\<open>src/auth.rs\<close>: accounts on file, passwords, and bearer tokens in memory.
  Argon2, SHA-256 and the optional transport decryption of passwords are not in the
  repository: they are the fields of a record that every operation takes, together with the
  salt, UUID or token that the code draws at random. What the code relies on them for is
  the predicate \<open>crypto_ok\<close>.
\<close>

section \<open>Data and parameters\<close>

record user =
  us_id :: string
  us_nickname :: string
  us_email :: string
  us_password_hash :: string
  us_role :: string
  us_avatar :: string
  us_timezone :: string
  us_created_at :: u64

record token_entry =
  te_user_id :: string
  te_expires_at :: u64

type_synonym users = "(string, user) hmap"

record user_store =
  ust_users :: "(users, user list) tx_store"
  ust_tokens :: "(string, token_entry) hmap"

record crypto =
  cr_argon_hash :: "string \<Rightarrow> string \<Rightarrow> string res"
  cr_argon_verify :: "string \<Rightarrow> string \<Rightarrow> bool"
  cr_sha256_hex :: "string \<Rightarrow> string"
  cr_transport :: "(string \<Rightarrow> string res) option"

definition argon_prefix :: string where
  "argon_prefix = CHR 0x24 # ''argon2''"

text \<open>
  A hash that Argon2 produced is in its own format and verifies the password it was made
  from; the transport and the hash function fail with an error, they do not panic.
\<close>

definition crypto_ok :: "crypto \<Rightarrow> bool" where
  "crypto_ok c \<longleftrightarrow>
     (\<forall>salt p h. cr_argon_hash c salt p = Ok h \<longrightarrow> starts_with h argon_prefix \<and> cr_argon_verify c p h) \<and>
     (\<forall>salt p. cr_argon_hash c salt p \<noteq> Panic) \<and>
     (\<forall>f p. cr_transport c = Some f \<longrightarrow> f p \<noteq> Panic)"

section \<open>Passwords\<close>

datatype password_verification = Valid bool | Invalid

definition is_hex_digit :: "char \<Rightarrow> bool" where
  "is_hex_digit c \<longleftrightarrow>
     (let n = (of_char c :: nat) in (48 \<le> n \<and> n \<le> 57) \<or> (65 \<le> n \<and> n \<le> 70) \<or> (97 \<le> n \<and> n \<le> 102))"

definition is_legacy_sha256_hash :: "string \<Rightarrow> bool" where
  "is_legacy_sha256_hash v \<longleftrightarrow> length v = 64 \<and> list_all is_hex_digit v"

definition legacy_sha256 :: "crypto \<Rightarrow> string \<Rightarrow> string" where
  "legacy_sha256 c password = cr_sha256_hex c (password @ ''rayrag-salt-v1'')"

definition byte_of :: "char \<Rightarrow> 8 word" where
  "byte_of c = word_of_nat (of_char c)"

definition constant_time_eq :: "string \<Rightarrow> string \<Rightarrow> bool" where
  "constant_time_eq left right =
     (if length left \<noteq> length right then False
      else foldl (\<lambda>diff (a, b). diff OR (byte_of a XOR byte_of b)) 0 (zip left right) = 0)"

definition verify_password :: "crypto \<Rightarrow> string \<Rightarrow> string \<Rightarrow> password_verification" where
  "verify_password c password encoded =
     (if starts_with encoded argon_prefix then
        (if cr_argon_verify c password encoded then Valid False else Invalid)
      else if is_legacy_sha256_hash encoded \<and> constant_time_eq encoded (legacy_sha256 c password)
      then Valid True else Invalid)"

definition decode_password :: "crypto \<Rightarrow> string \<Rightarrow> string res" where
  "decode_password c v = (case cr_transport c of Some f \<Rightarrow> f v | None \<Rightarrow> Ok v)"

section \<open>Lookups\<close>

text \<open>\<open>find_user\<close>: an exact key wins, a scan without regard to case follows.\<close>

definition find_user :: "users \<Rightarrow> string \<Rightarrow> user option" where
  "find_user us email =
     (let email = trim email
      in case hget us email of
           Some u \<Rightarrow> Some u
         | None \<Rightarrow> find (\<lambda>u. eq_ignore_ascii_case (us_email u) email) (hvalues us))"

definition find_user_by_id :: "users \<Rightarrow> string \<Rightarrow> user option" where
  "find_user_by_id us i = find (\<lambda>u. us_id u = i) (hvalues us)"

text \<open>\<open>values_mut().find(..)\<close>: the first entry with the id is changed in place.\<close>

definition modify_user :: "string \<Rightarrow> (user \<Rightarrow> user) \<Rightarrow> users \<Rightarrow> users" where
  "modify_user i f us = modify_first (\<lambda>(k, u). us_id u = i) (\<lambda>(k, u). (k, f u)) us"

definition us_mutate_if_changed ::
  "write_env \<Rightarrow> (users \<Rightarrow> users \<times> ('a \<times> bool) res) \<Rightarrow> user_store \<Rightarrow> user_store \<times> 'a res" where
  "us_mutate_if_changed e mutation st =
     (case tx_mutate_if_changed hvalues (Some e) mutation (ust_users st) of
        (us, r) \<Rightarrow> (st\<lparr>ust_users := us\<rparr>, r))"

definition us_mutate ::
  "write_env \<Rightarrow> (users \<Rightarrow> users \<times> 'a res) \<Rightarrow> user_store \<Rightarrow> user_store \<times> 'a res" where
  "us_mutate e mutation = us_mutate_if_changed e (always_changed mutation)"

abbreviation us_read :: "(users \<Rightarrow> 'a) \<Rightarrow> user_store \<Rightarrow> 'a res" where
  "us_read f st \<equiv> tx_read f (ust_users st)"

section \<open>Start-up\<close>

text \<open>The first run creates the administrator from three environment variables.\<close>

definition user_store_new ::
  "crypto \<Rightarrow> write_env \<Rightarrow> u64 \<Rightarrow> string \<Rightarrow> string \<Rightarrow> string option \<Rightarrow> string option \<Rightarrow> string option \<Rightarrow>
   user list contents \<Rightarrow> user list disk \<Rightarrow> user list disk \<times> user_store res" where
  "user_store_new c e now uuid salt env_email env_nickname env_password file d =
     (let users = res_bind (load_json file) (\<lambda>loaded. case loaded of
          Some list \<Rightarrow> Ok (hcollect us_email list)
        | None \<Rightarrow>
            (let email = (case env_email of None \<Rightarrow> ''admin'' | Some v \<Rightarrow> v);
                 nickname = (case env_nickname of None \<Rightarrow> ''admin'' | Some v \<Rightarrow> v);
                 password = (case env_password of None \<Rightarrow> ''admin'' | Some v \<Rightarrow> v)
             in if trim password = [] then Err (''RAYRAG_ADMIN_PASSWORD is empty; unset it to use the default '' @ quoted ''admin'')
                else res_map (\<lambda>h. hput email
                       \<lparr>us_id = uuid, us_nickname = nickname, us_email = email,
                        us_password_hash = h, us_role = ''admin'', us_avatar = [],
                        us_timezone = [], us_created_at = now\<rparr> [])
                     (cr_argon_hash c salt password)))
      in case users of
           Ok us \<Rightarrow>
             (case atomic_write_with_mirror e (hvalues us) d of
                (d', Ok u) \<Rightarrow>
                  (d', Ok \<lparr>ust_users = \<lparr>st_mem = us, st_disk = d', st_poisoned = False\<rparr>, ust_tokens = []\<rparr>)
              | (d', Err err) \<Rightarrow> (d', Err err)
              | (d', Panic) \<Rightarrow> (d', Panic))
         | Err err \<Rightarrow> (d, Err err)
         | Panic \<Rightarrow> (d, Panic))"

section \<open>Sessions\<close>

definition TOKEN_TTL_MS :: u64 where
  "TOKEN_TTL_MS = 24 * 3600 * 1000"

definition add_token :: "u64 \<Rightarrow> string \<Rightarrow> string \<Rightarrow> user_store \<Rightarrow> user_store" where
  "add_token now token user_id st =
     st\<lparr>ust_tokens := hput token \<lparr>te_user_id = user_id, te_expires_at = now + TOKEN_TTL_MS\<rparr> (ust_tokens st)\<rparr>"

definition upgrade_step :: "string \<Rightarrow> string \<Rightarrow> users \<Rightarrow> users \<times> (unit \<times> bool) res" where
  "upgrade_step email h us =
     (case hget us email of
        None \<Rightarrow> (us, Ok ((), False))
      | Some u \<Rightarrow> (hput email (u\<lparr>us_password_hash := h\<rparr>) us, Ok ((), True)))"

definition login ::
  "crypto \<Rightarrow> write_env \<Rightarrow> u64 \<Rightarrow> string \<Rightarrow> string \<Rightarrow> string \<Rightarrow> string \<Rightarrow>
   user_store \<Rightarrow> user_store \<times> string option res" where
  "login c e now salt token email password st =
     (case decode_password c password of
        Err err \<Rightarrow> (st, Err err) | Panic \<Rightarrow> (st, Panic)
      | Ok pw \<Rightarrow>
          (case us_read (\<lambda>us. find_user us email) st of
             Err err \<Rightarrow> (st, Err err) | Panic \<Rightarrow> (st, Panic)
           | Ok None \<Rightarrow> (st, Ok None)
           | Ok (Some u) \<Rightarrow>
               (case verify_password c pw (us_password_hash u) of
                  Invalid \<Rightarrow> (st, Ok None)
                | Valid needs_upgrade \<Rightarrow>
                    (let upgraded =
                       (if needs_upgrade then
                          (case cr_argon_hash c salt pw of
                             Err err \<Rightarrow> (st, Err err) | Panic \<Rightarrow> (st, Panic)
                           | Ok h \<Rightarrow> us_mutate_if_changed e (upgrade_step email h) st)
                        else (st, Ok ()))
                     in case upgraded of
                          (st', Ok u') \<Rightarrow> (add_token now token (us_id u) st', Ok (Some token))
                        | (st', Err err) \<Rightarrow> (st', Err err)
                        | (st', Panic) \<Rightarrow> (st', Panic)))))"

definition issue_token_for ::
  "u64 \<Rightarrow> string \<Rightarrow> string \<Rightarrow> user_store \<Rightarrow> user_store \<times> string option res" where
  "issue_token_for now token user_id st =
     (case us_read (\<lambda>us. \<exists>u \<in> set (hvalues us). us_id u = user_id) st of
        Ok True \<Rightarrow> (add_token now token user_id st, Ok (Some token))
      | Ok False \<Rightarrow> (st, Ok None)
      | Err err \<Rightarrow> (st, Err err) | Panic \<Rightarrow> (st, Panic))"

definition validate_token :: "u64 \<Rightarrow> string \<Rightarrow> user_store \<Rightarrow> string option" where
  "validate_token now token st =
     (case hget (ust_tokens st) token of
        None \<Rightarrow> None
      | Some entry \<Rightarrow> if te_expires_at entry < now then None else Some (te_user_id entry))"

definition get_user_by_token :: "u64 \<Rightarrow> string \<Rightarrow> user_store \<Rightarrow> user option res" where
  "get_user_by_token now token st =
     (case validate_token now token st of
        None \<Rightarrow> Ok None
      | Some i \<Rightarrow> us_read (\<lambda>us. find_user_by_id us i) st)"

definition get_user :: "string \<Rightarrow> user_store \<Rightarrow> user option res" where
  "get_user email st = us_read (\<lambda>us. find_user us email) st"

definition us_is_admin :: "string \<Rightarrow> user_store \<Rightarrow> bool res" where
  "us_is_admin i st =
     us_read (\<lambda>us. case find_user_by_id us i of None \<Rightarrow> False | Some u \<Rightarrow> us_role u = ''admin'') st"

definition logout :: "string \<Rightarrow> user_store \<Rightarrow> user_store" where
  "logout token st = st\<lparr>ust_tokens := hdel token (ust_tokens st)\<rparr>"

definition logout_user_tokens :: "string \<Rightarrow> user_store \<Rightarrow> user_store" where
  "logout_user_tokens user_id st =
     st\<lparr>ust_tokens := filter (\<lambda>(k, entry). te_user_id entry \<noteq> user_id) (ust_tokens st)\<rparr>"

section \<open>Accounts\<close>

text \<open>The password checks that run before the store is touched.\<close>

definition change_password ::
  "crypto \<Rightarrow> write_env \<Rightarrow> string \<Rightarrow> string \<Rightarrow> string \<Rightarrow> string \<Rightarrow> user_store \<Rightarrow> user_store \<times> unit res" where
  "change_password c e salt user_id current new_password st =
     (let prepared = res_bind (decode_password c current) (\<lambda>cur.
          res_bind (decode_password c new_password) (\<lambda>new.
            if length new < 6 then Err ''New password must be at least 6 characters''
            else res_bind (us_read (\<lambda>us. find_user_by_id us user_id) st) (\<lambda>found.
              case found of
                None \<Rightarrow> Err ''User not found''
              | Some u \<Rightarrow>
                  (case verify_password c cur (us_password_hash u) of
                     Invalid \<Rightarrow> Err ''Current password is incorrect''
                   | Valid b \<Rightarrow> res_map (\<lambda>h. (us_email u, h)) (cr_argon_hash c salt new)))))
      in case prepared of
           Ok (email, h) \<Rightarrow> us_mutate_if_changed e (upgrade_step email h) st
         | Err err \<Rightarrow> (st, Err err) | Panic \<Rightarrow> (st, Panic))"

definition profile_step ::
  "string \<Rightarrow> string option \<Rightarrow> string option \<Rightarrow> string option \<Rightarrow> users \<Rightarrow> users \<times> (unit \<times> bool) res" where
  "profile_step i nickname avatar timezone us =
     (case find_user_by_id us i of
        None \<Rightarrow> (us, Err ''User not found'')
      | Some u \<Rightarrow>
          (modify_user i (\<lambda>u. u\<lparr>us_nickname := or_old nickname (us_nickname u),
             us_avatar := or_old avatar (us_avatar u),
             us_timezone := or_old timezone (us_timezone u)\<rparr>) us, Ok ((), True)))"

definition update_profile ::
  "write_env \<Rightarrow> string \<Rightarrow> string option \<Rightarrow> string option \<Rightarrow> string option \<Rightarrow> user_store \<Rightarrow> user_store \<times> unit res" where
  "update_profile e i nickname avatar timezone st =
     us_mutate_if_changed e (profile_step i nickname avatar timezone) st"

definition delete_user_step :: "string \<Rightarrow> users \<Rightarrow> users \<times> (bool \<times> bool) res" where
  "delete_user_step i us =
     (case find (\<lambda>(k, u). us_id u = i) us of
        None \<Rightarrow> (us, Ok (False, False))
      | Some (email, u) \<Rightarrow> (hdel email us, Ok (True, True)))"

definition delete_user :: "write_env \<Rightarrow> string \<Rightarrow> string \<Rightarrow> user_store \<Rightarrow> user_store \<times> bool res" where
  "delete_user e user_id acting_user st =
     (if user_id = acting_user then (st, Err ''Cannot delete the currently logged-in user'')
      else us_mutate_if_changed e (delete_user_step user_id) st)"

definition reset_step :: "string \<Rightarrow> string \<Rightarrow> users \<Rightarrow> users \<times> (bool \<times> bool) res" where
  "reset_step i h us =
     (case find_user_by_id us i of
        None \<Rightarrow> (us, Ok (False, False))
      | Some u \<Rightarrow> (modify_user i (\<lambda>u. u\<lparr>us_password_hash := h\<rparr>) us, Ok (True, True)))"

definition reset_password ::
  "crypto \<Rightarrow> write_env \<Rightarrow> string \<Rightarrow> string \<Rightarrow> string \<Rightarrow> user_store \<Rightarrow> user_store \<times> bool res" where
  "reset_password c e salt user_id new_password st =
     (let prepared = res_bind (decode_password c new_password) (\<lambda>new.
          if length new < 6 then Err ''New password must be at least 6 characters''
          else cr_argon_hash c salt new)
      in case prepared of
           Ok h \<Rightarrow> us_mutate_if_changed e (reset_step user_id h) st
         | Err err \<Rightarrow> (st, Err err) | Panic \<Rightarrow> (st, Panic))"

text \<open>Insert an account unless its key is taken; the message names the email.\<close>

definition insert_user_step :: "string \<Rightarrow> user \<Rightarrow> users \<Rightarrow> users \<times> user res" where
  "insert_user_step what u us =
     (if hget us (us_email u) \<noteq> None
      then (us, Err (what @ quoted (us_email u) @ '' already exists''))
      else (hput (us_email u) u us, Ok u))"

definition role_of :: "string \<Rightarrow> string" where
  "role_of role = (if role = ''admin'' then ''admin'' else ''normal'')"

definition create_user ::
  "crypto \<Rightarrow> write_env \<Rightarrow> u64 \<Rightarrow> string \<Rightarrow> string \<Rightarrow> string \<Rightarrow> string \<Rightarrow> string \<Rightarrow>
   user_store \<Rightarrow> user_store \<times> user res" where
  "create_user c e now uuid salt username password role st =
     (let username = trim username;
          prepared = res_bind (decode_password c password) (\<lambda>pw.
            if username = [] then Err ''Username is required''
            else if length pw < 12 then Err ''Password must be at least 12 characters''
            else res_map (\<lambda>h.
              \<lparr>us_id = uuid, us_nickname = username, us_email = to_ascii_lowercase username,
               us_password_hash = h, us_role = role_of role, us_avatar = [], us_timezone = [],
               us_created_at = now\<rparr>) (cr_argon_hash c salt pw))
      in case prepared of
           Ok u \<Rightarrow> us_mutate e (insert_user_step ''User '' u) st
         | Err err \<Rightarrow> (st, Err err) | Panic \<Rightarrow> (st, Panic))"

definition register ::
  "crypto \<Rightarrow> write_env \<Rightarrow> u64 \<Rightarrow> string \<Rightarrow> string \<Rightarrow> string \<Rightarrow> string \<Rightarrow> string \<Rightarrow>
   user_store \<Rightarrow> user_store \<times> user res" where
  "register c e now uuid salt nickname email password st =
     (let nickname = trim nickname; email = to_ascii_lowercase (trim email);
          prepared = res_bind (decode_password c password) (\<lambda>pw.
            if nickname = [] then Err ''Nickname is required''
            else if 254 < length email \<or> \<not> str_contains email [CHR 0x40]
                 \<or> starts_with email [CHR 0x40] \<or> ends_with email [CHR 0x40]
            then Err ''A valid email address is required''
            else if length pw < 12 then Err ''Password must be at least 12 characters''
            else res_map (\<lambda>h.
              \<lparr>us_id = uuid, us_nickname = nickname, us_email = email, us_password_hash = h,
               us_role = ''normal'', us_avatar = [], us_timezone = [], us_created_at = now\<rparr>)
              (cr_argon_hash c salt pw))
      in case prepared of
           Ok u \<Rightarrow> us_mutate e (insert_user_step ''User with email '' u) st
         | Err err \<Rightarrow> (st, Err err) | Panic \<Rightarrow> (st, Panic))"

definition set_role_step :: "string \<Rightarrow> string \<Rightarrow> users \<Rightarrow> users \<times> (bool \<times> bool) res" where
  "set_role_step i role us =
     (case find_user_by_id us i of
        None \<Rightarrow> (us, Ok (False, False))
      | Some u \<Rightarrow>
          if us_role u = role then (us, Ok (True, False))
          else (modify_user i (\<lambda>u. u\<lparr>us_role := role\<rparr>) us, Ok (True, True)))"

definition set_role ::
  "write_env \<Rightarrow> string \<Rightarrow> string \<Rightarrow> user_store \<Rightarrow> user_store \<times> bool res" where
  "set_role e i role st = us_mutate_if_changed e (set_role_step i (role_of role)) st"

section \<open>The operations are guarded\<close>

definition valid_user :: "user \<Rightarrow> bool" where
  "valid_user u \<longleftrightarrow> us_role u = ''admin'' \<or> us_role u = ''normal''"

abbreviation wf_users :: "users \<Rightarrow> bool" where
  "wf_users us \<equiv> wf_map us_email valid_user us"

lemma modify_user_hput:
  assumes "wf_users us" and "find_user_by_id us i = Some u"
  shows "modify_user i f us = hput (us_email u) (f u) us"
    and "hget us (us_email u) = Some u" and "us_id u = i"
  using modify_value_hput [OF wf_map_keyed [OF assms(1)] assms(2) [unfolded find_user_by_id_def]]
    find_value_get [OF wf_map_keyed [OF assms(1)] assms(2) [unfolded find_user_by_id_def]]
  by (simp_all add: modify_user_def)

lemma wf_modify_user:
  assumes "wf_users us" and "find_user_by_id us i = Some u"
    and "us_email (f u) = us_email u" and "valid_user u \<Longrightarrow> valid_user (f u)"
  shows "wf_users (modify_user i f us)"
  unfolding modify_user_hput(1) [OF assms(1,2)]
  by (rule wf_map_update [OF assms(1) modify_user_hput(2) [OF assms(1,2)] assms(3,4)])

interpretation us_upgrade: guarded_op wf_users "upgrade_step email h" for email h
  by unfold_locales
     (auto simp: upgrade_step_def valid_user_def split: option.splits intro!: wf_map_update)

interpretation us_profile: guarded_op wf_users "profile_step i nickname avatar timezone"
  for i nickname avatar timezone
  by unfold_locales
     (auto simp: profile_step_def valid_user_def split: option.splits intro!: wf_modify_user)

interpretation us_delete: guarded_op wf_users "delete_user_step i" for i
  by unfold_locales
     (auto simp: delete_user_step_def wf_map_delete split: option.splits)

interpretation us_reset: guarded_op wf_users "reset_step i h" for i h
  by unfold_locales
     (auto simp: reset_step_def valid_user_def split: option.splits intro!: wf_modify_user)

interpretation us_set_role: guarded_op wf_users "set_role_step i (role_of role)" for i role
  by unfold_locales
     (auto simp: set_role_step_def valid_user_def role_of_def split: option.splits if_splits
       intro!: wf_modify_user)

lemma guarded_insert_user:
  "valid_user u \<Longrightarrow> guarded_op wf_users (always_changed (insert_user_step what u))"
  by unfold_locales (auto simp: insert_user_step_def split: if_splits intro!: wf_map_put)

section \<open>The store as a whole\<close>

abbreviation users_sound :: "user_store \<Rightarrow> bool" where
  "users_sound st \<equiv> store_sound hvalues wf_users (ust_users st)"

definition us_call_sound :: "user_store \<Rightarrow> user_store \<Rightarrow> outcome \<Rightarrow> bool" where
  "us_call_sound st st' out \<longleftrightarrow>
     users_sound st' \<and> out \<noteq> Panicked \<and>
     (\<forall>err. out = Failed err \<longrightarrow> st_mem (ust_users st') = st_mem (ust_users st) \<and> ust_tokens st' = ust_tokens st)"

lemma us_call_refused: "users_sound st \<Longrightarrow> us_call_sound st st (Failed err)"
  by (simp add: us_call_sound_def)

lemma us_call_guarded:
  assumes "us_mutate_if_changed e f st = (st', r)" and "guarded_op wf_users f"
    and "users_sound st" and "reliable e"
  shows "us_call_sound st st' (outcome_of r) \<and> ust_tokens st' = ust_tokens st"
proof -
  obtain us where us: "tx_mutate_if_changed hvalues (Some e) f (ust_users st) = (us, r)"
    and st': "st' = st\<lparr>ust_users := us\<rparr>"
    using assms(1) by (auto simp: us_mutate_if_changed_def split: prod.splits)
  from guarded_op.store_sound [OF assms(2) us assms(3,4)] show ?thesis
    by (simp add: us_call_sound_def st')
qed

lemma us_mutate_OkE:
  assumes "us_mutate_if_changed e f st = (st', Ok v)"
  obtains b where "f (st_mem (ust_users st)) = (st_mem (ust_users st'), Ok (v, b))"
    "ust_tokens st' = ust_tokens st" "\<not> st_poisoned (ust_users st)" "\<not> st_poisoned (ust_users st')"
proof -
  obtain us where us: "tx_mutate_if_changed hvalues (Some e) f (ust_users st) = (us, Ok v)"
    and st': "st' = st\<lparr>ust_users := us\<rparr>"
    using assms by (auto simp: us_mutate_if_changed_def split: prod.splits)
  show ?thesis
    using us by (cases rule: tx_mutate_cases) (auto simp: st' intro: that)
qed

section \<open>Comparing and verifying\<close>

lemma byte_of_inj: "byte_of a = byte_of b \<longleftrightarrow> a = b"
proof
  assume "byte_of a = byte_of b"
  moreover have "(of_char c :: nat) < 256" for c :: char
    using nat_of_char_less_256 [of c] by simp
  ultimately have "(of_char a :: nat) = of_char b"
    by (simp add: byte_of_def word_of_nat_eq_iff take_bit_nat_eq_self)
  then show "a = b" by simp
qed simp

lemma word_xor_eq_0: "a XOR b = 0 \<longleftrightarrow> a = (b :: 8 word)"
proof
  assume "a XOR b = 0"
  then have "(a XOR b) XOR b = b" by simp
  then show "a = b" by (simp add: xor.assoc)
qed simp

lemma foldl_or_eq_0:
  fixes f :: "'a \<Rightarrow> 8 word"
  shows "foldl (\<lambda>d x. d OR f x) d xs = 0 \<longleftrightarrow> d = 0 \<and> (\<forall>x \<in> set xs. f x = 0)"
  by (induction xs arbitrary: d) (auto simp: or_eq_0_iff)

lemma constant_time_eq_iff: "constant_time_eq left right \<longleftrightarrow> left = right"
proof -
  have "(\<lambda>diff (a, b). diff OR (byte_of a XOR byte_of b)) = (\<lambda>d x. d OR (case x of (a, b) \<Rightarrow> byte_of a XOR byte_of b))"
    by (intro ext) auto
  then have "constant_time_eq left right \<longleftrightarrow>
      length left = length right \<and> (\<forall>(a, b) \<in> set (zip left right). byte_of a XOR byte_of b = 0)"
    by (auto simp: constant_time_eq_def foldl_or_eq_0 split_beta)
  also have "\<dots> \<longleftrightarrow> left = right"
    by (auto simp: word_xor_eq_0 byte_of_inj list_eq_iff_zip_eq)
  finally show ?thesis .
qed

text \<open>A hash that Argon2 made verifies, and asks for no upgrade.\<close>

lemma verify_argon:
  "crypto_ok c \<Longrightarrow> cr_argon_hash c salt pw = Ok h \<Longrightarrow> verify_password c pw h = Valid False"
  by (simp add: crypto_ok_def verify_password_def)

lemma decode_password_no_panic: "crypto_ok c \<Longrightarrow> decode_password c p \<noteq> Panic"
  by (auto simp: decode_password_def crypto_ok_def split: option.splits)

lemma crypto_no_panic: "crypto_ok c \<Longrightarrow> cr_argon_hash c salt p \<noteq> Panic"
  by (simp add: crypto_ok_def)

end
