(* ===== verification/Users_Spec.thy ===== *)
theory Users_Spec
  imports Users
begin

text \<open>
  What the account store guarantees: soundness of every sequence of calls, the journey from
  registration to a session, changing a password, and revoking sessions.
\<close>

section \<open>Calls\<close>

inductive us_call :: "crypto \<Rightarrow> write_env \<Rightarrow> user_store \<Rightarrow> user_store \<Rightarrow> outcome \<Rightarrow> bool" for c e where
  uc_login: "login c e now salt token email password st = (st', r1) \<Longrightarrow> us_call c e st st' (outcome_of r1)"
| uc_issue: "issue_token_for now token i st = (st', r1) \<Longrightarrow> us_call c e st st' (outcome_of r1)"
| uc_logout: "us_call c e st (logout token st) Done"
| uc_logout_all: "us_call c e st (logout_user_tokens i st) Done"
| uc_change: "change_password c e salt i cur new st = (st', r2) \<Longrightarrow> us_call c e st st' (outcome_of r2)"
| uc_profile: "update_profile e i nick avatar tz st = (st', r2) \<Longrightarrow> us_call c e st st' (outcome_of r2)"
| uc_delete: "delete_user e i acting st = (st', r3) \<Longrightarrow> us_call c e st st' (outcome_of r3)"
| uc_reset: "reset_password c e salt i new st = (st', r3) \<Longrightarrow> us_call c e st st' (outcome_of r3)"
| uc_create: "create_user c e now uuid salt name password role st = (st', r4) \<Longrightarrow> us_call c e st st' (outcome_of r4)"
| uc_register: "register c e now uuid salt name email password st = (st', r4) \<Longrightarrow> us_call c e st st' (outcome_of r4)"
| uc_set_role: "set_role e i role st = (st', r3) \<Longrightarrow> us_call c e st st' (outcome_of r3)"

lemma users_sound_read: "users_sound st \<Longrightarrow> us_read f st = Ok (f (st_mem (ust_users st)))"
  by (simp add: store_sound_def tx_read_def)

lemma us_call_sound_done:
  "users_sound st' \<Longrightarrow> us_call_sound st st' Done"
  by (simp add: us_call_sound_def)

lemma us_call_sound_login:
  assumes "login c e now salt token email password st = (st', r)"
    and "users_sound st" and "reliable e" and "crypto_ok c"
  shows "us_call_sound st st' (outcome_of r)"
proof (cases "decode_password c password")
  case (Ok pw)
  show ?thesis
  proof (cases "find_user (st_mem (ust_users st)) email")
    case None
    with Ok assms show ?thesis by (auto simp: login_def users_sound_read us_call_sound_def)
  next
    case (Some u)
    show ?thesis
    proof (cases "verify_password c pw (us_password_hash u)")
      case Invalid
      with Ok Some assms show ?thesis by (auto simp: login_def users_sound_read us_call_sound_def)
    next
      case (Valid b)
      show ?thesis
      proof (cases "b \<and> is_ok (cr_argon_hash c salt pw)")
        case True
        then obtain h where h: "cr_argon_hash c salt pw = res.Ok h" by (auto simp: is_ok_iff)
        obtain p q where pq: "us_mutate_if_changed e (upgrade_step email h) st = (p, q)" by fastforce
        have sound: "us_call_sound st p (outcome_of q)"
          using us_call_guarded [OF pq us_upgrade.guarded_op_axioms assms(2,3)] by blast
        with Ok Some Valid True h pq assms(1,2) show ?thesis
          by (cases q) (auto simp: login_def users_sound_read us_call_sound_def add_token_def)
      next
        case False
        with Ok Some Valid assms crypto_no_panic [OF assms(4), of salt pw] show ?thesis
          by (cases "cr_argon_hash c salt pw"; cases b)
             (auto simp: login_def users_sound_read us_call_sound_def add_token_def)
      qed
    qed
  qed
next
  case (Err err)
  with assms show ?thesis by (auto simp: login_def us_call_sound_def)
next
  case Panic
  with assms(4) show ?thesis by (simp add: decode_password_no_panic)
qed

lemma us_call_sound_step:
  assumes "us_mutate_if_changed e f st = (st', r)" and "guarded_op wf_users f"
    and "users_sound st" and "reliable e"
  shows "us_call_sound st st' (outcome_of r)"
  using us_call_guarded [OF assms] by blast

lemma us_call_sound_insert:
  assumes "us_mutate e (insert_user_step what u) st = (st', r)" and "valid_user u"
    and "users_sound st" and "reliable e"
  shows "us_call_sound st st' (outcome_of r)"
  using us_call_sound_step [OF assms(1) [unfolded us_mutate_def] guarded_insert_user [OF assms(2)] assms(3,4)] .

text \<open>The preparations of the account calls do not panic; created accounts have a known role.\<close>

lemmas crypto_total = decode_password_no_panic crypto_no_panic

lemma us_call_sound_create:
  assumes "create_user c e now uuid salt name password role st = (st', r)"
    and "users_sound st" and "reliable e" and "crypto_ok c"
  shows "us_call_sound st st' (outcome_of r)"
  using assms(1) unfolding create_user_def Let_def
proof (cases rule: prepared_cases)
  case NoPanic
  show ?case by (auto simp: res_bind_Panic_iff crypto_total [OF assms(4)] split: if_splits)
next
  case (Run u)
  then have "valid_user u"
    by (auto simp: res_bind_Ok_iff res_map_Ok_iff valid_user_def role_of_def split: if_splits)
  then show ?thesis by (rule us_call_sound_insert [OF Run(2) _ assms(2,3)])
qed (simp add: us_call_refused assms(2))

lemma us_call_sound_register:
  assumes "register c e now uuid salt name email password st = (st', r)"
    and "users_sound st" and "reliable e" and "crypto_ok c"
  shows "us_call_sound st st' (outcome_of r)"
  using assms(1) unfolding register_def Let_def
proof (cases rule: prepared_cases)
  case NoPanic
  show ?case by (auto simp: res_bind_Panic_iff crypto_total [OF assms(4)] split: if_splits)
next
  case (Run u)
  then have "valid_user u"
    by (auto simp: res_bind_Ok_iff res_map_Ok_iff valid_user_def split: if_splits)
  then show ?thesis by (rule us_call_sound_insert [OF Run(2) _ assms(2,3)])
qed (simp add: us_call_refused assms(2))

lemma us_call_sound_change:
  assumes "change_password c e salt i cur new st = (st', r)"
    and "users_sound st" and "reliable e" and "crypto_ok c"
  shows "us_call_sound st st' (outcome_of r)"
  using assms(1) unfolding change_password_def Let_def
proof (cases rule: prepared_cases)
  case NoPanic
  show ?case
    by (auto simp: res_bind_Panic_iff crypto_total [OF assms(4)] users_sound_read [OF assms(2)]
        split: if_splits option.splits password_verification.splits)
next
  case (Run x)
  obtain email h where x: "x = (email, h)" by (cases x)
  with Run(2) have "us_mutate_if_changed e (upgrade_step email h) st = (st', r)" by simp
  then show ?thesis by (rule us_call_sound_step [OF _ us_upgrade.guarded_op_axioms assms(2,3)])
qed (simp add: us_call_refused assms(2))

lemma us_call_sound_reset:
  assumes "reset_password c e salt i new st = (st', r)"
    and "users_sound st" and "reliable e" and "crypto_ok c"
  shows "us_call_sound st st' (outcome_of r)"
  using assms(1) unfolding reset_password_def Let_def
proof (cases rule: prepared_cases)
  case NoPanic
  show ?case by (auto simp: res_bind_Panic_iff crypto_total [OF assms(4)] split: if_splits)
next
  case (Run h)
  then show ?thesis by (intro us_call_sound_step [OF _ us_reset.guarded_op_axioms assms(2,3)])
qed (simp add: us_call_refused assms(2))

lemma us_call_sound_all:
  assumes "us_call c e st st' out" and "users_sound st" and "reliable e" and "crypto_ok c"
  shows "us_call_sound st st' out"
  using assms
proof (induction rule: us_call.induct)
  case uc_issue
  then show ?case
    by (auto simp: issue_token_for_def users_sound_read us_call_sound_def add_token_def split: bool.splits)
next
  case uc_delete
  then show ?case
    by (auto simp: delete_user_def us_call_refused split: if_splits
        intro: us_call_sound_step [OF _ us_delete.guarded_op_axioms])
next
  case uc_set_role
  then show ?case
    unfolding set_role_def by (auto intro: us_call_sound_step [OF _ us_set_role.guarded_op_axioms])
next
  case uc_profile
  then show ?case
    unfolding update_profile_def by (auto intro: us_call_sound_step [OF _ us_profile.guarded_op_axioms])
qed (auto simp: logout_def logout_user_tokens_def us_call_sound_def [of _ _ Done]
      intro: us_call_sound_login us_call_sound_create us_call_sound_register us_call_sound_change
        us_call_sound_reset)

section \<open>A concrete instance of the parameters\<close>

text \<open>A transparent hash in Argon2's format, for the witnesses.\<close>

definition demo_crypto :: crypto where
  "demo_crypto =
     \<lparr>cr_argon_hash = (\<lambda>salt p. Ok (argon_prefix @ salt @ p)),
      cr_argon_verify = (\<lambda>p h. starts_with h argon_prefix \<and> ends_with h p),
      cr_sha256_hex = (\<lambda>p. replicate 64 (CHR ''0'')), cr_transport = None\<rparr>"

lemma demo_crypto_ok: "crypto_ok demo_crypto"
  by (auto simp: crypto_ok_def demo_crypto_def starts_with_def ends_with_def suffix_def intro: exI)

definition demo_user :: "string \<Rightarrow> string \<Rightarrow> string \<Rightarrow> string \<Rightarrow> user" where
  "demo_user i email h role = \<lparr>us_id = i, us_nickname = ''n'', us_email = email, us_password_hash = h,
     us_role = role, us_avatar = [], us_timezone = [], us_created_at = 1\<rparr>"

definition demo_users :: "users \<Rightarrow> user_store" where
  "demo_users us = \<lparr>ust_users = \<lparr>st_mem = us, st_disk = \<lparr>dk_file = Some (hvalues us), dk_mirror = None\<rparr>,
     st_poisoned = False\<rparr>, ust_tokens = []\<rparr>"

lemma demo_users_sound: "wf_users us \<Longrightarrow> users_sound (demo_users us)"
  by (simp add: store_sound_def demo_users_def synced_def)

section \<open>Properties\<close>

text \<open>
  Every sequence of calls of the account store -- logins, registrations, password
  changes, deletions, with any arguments -- keeps the accounts keyed by email with known
  roles and equal to the file, and no call panics; an error leaves accounts and sessions
  as they were.
\<close>

theorem user_store_sound:
  assumes "(\<lambda>st st'. \<exists>e out. reliable e \<and> us_call c e st st' out)\<^sup>*\<^sup>* st0 st"
    and "users_sound st0" and "crypto_ok c"
    and "us_call c e st st' out" and "reliable e"
  shows "users_sound st' \<and> out \<noteq> Panicked
    \<and> (\<forall>err. out = Failed err \<longrightarrow>
         st_mem (ust_users st') = st_mem (ust_users st) \<and> ust_tokens st' = ust_tokens st)"
proof -
  have "users_sound st"
    using assms(1,2)
    by (induction rule: rtranclp_induct) (auto dest: us_call_sound_all [OF _ _ _ assms(3)] simp: us_call_sound_def)
  with us_call_sound_all [OF assms(4) _ assms(5,3)] show ?thesis by (simp add: us_call_sound_def)
qed

theorem user_store_sound_witness:
  "users_sound (fst (set_role we_disk_full ''i'' ''admin'' (demo_users [(''a'', demo_user ''i'' ''a'' ''h'' ''normal'')])))
   \<and> st_mem (ust_users (fst (set_role we_disk_full ''i'' ''admin''
        (demo_users [(''a'', demo_user ''i'' ''a'' ''h'' ''normal'')]))))
     = [(''a'', demo_user ''i'' ''a'' ''h'' ''normal'')]"
proof -
  let ?st = "demo_users [(''a'', demo_user ''i'' ''a'' ''h'' ''normal'')]"
  let ?p = "set_role we_disk_full ''i'' ''admin'' ?st"
  have "users_sound ?st"
    by (rule demo_users_sound) (simp add: wf_map_def keyed_def demo_user_def valid_user_def)
  moreover have "us_call demo_crypto we_disk_full ?st (fst ?p) (outcome_of (snd ?p))"
    by (rule uc_set_role [where ?r3.0 = "snd ?p"]) simp
  moreover have "snd ?p = Err ''write_all''"
    by (simp add: set_role_def us_mutate_if_changed_def tx_mutate_if_changed_def demo_users_def
        demo_user_def set_role_step_def role_of_def find_user_by_id_def)
  ultimately show ?thesis
    using user_store_sound [OF rtranclp.rtrancl_refl _ demo_crypto_ok _ reliable_we_disk_full, of ?st "fst ?p" "outcome_of (snd ?p)"]
    by (auto simp: demo_users_def)
qed

text \<open>
  C11. From registration to a session: when a registration succeeds and no stored account
  differs from the address only in case, then a login with that address in any case and with
  white space around it, and the same password, succeeds whatever the disk does, and for
  twenty-four hours its token is the new user's session.
\<close>

theorem register_then_login:
  assumes "register c e now uuid salt nick email password st = (st1, Ok u)"
    and "crypto_ok c" and "keyed us_email (st_mem (ust_users st))"
    and "\<And>x. x \<in> set (hvalues (st_mem (ust_users st))) \<Longrightarrow> \<not> eq_ignore_ascii_case (us_email x) (trim email)"
    and "eq_ignore_ascii_case (trim email') (trim email)"
  shows "\<exists>st2. login c e' now' salt' token email' password st1 = (st2, Ok (Some token))
    \<and> us_email u = to_ascii_lowercase (trim email) \<and> us_role u = ''normal''
    \<and> (\<forall>t \<le> now' + TOKEN_TTL_MS. validate_token t token st2 = Some (us_id u))"
proof -
  let ?us = "st_mem (ust_users st)" and ?em = "to_ascii_lowercase (trim email)"
  from assms(1) obtain pw h where pw: "decode_password c password = Ok pw"
    and h: "cr_argon_hash c salt pw = Ok h"
    and fields: "us_email u = ?em" "us_password_hash u = h" "us_role u = ''normal''"
    and run: "us_mutate e (insert_user_step ''User with email '' u) st = (st1, Ok u)"
    unfolding register_def Let_def
    by (auto simp: res_bind_Ok_iff res_map_Ok_iff us_mutate_def us_mutate_if_changed_def
        tx_mutate_if_changed_def always_changed_def insert_user_step_def
        split: res.splits if_splits prod.splits)
  obtain b where "always_changed (insert_user_step ''User with email '' u) ?us = (st_mem (ust_users st1), Ok (u, b))"
    and live: "\<not> st_poisoned (ust_users st1)"
    using run unfolding us_mutate_def by (rule us_mutate_OkE)
  then have new: "hget ?us ?em = None" and us1: "st_mem (ust_users st1) = hput ?em u ?us"
    by (auto simp: insert_user_step_def fields(1) split: if_splits)
  have us1': "st_mem (ust_users st1) = ?us @ [(?em, u)]"
    unfolding us1 by (rule hput_new) (use new in \<open>simp add: map_of_eq_None_iff\<close>)
  have other: "find_user (st_mem (ust_users st1)) email' = Some u"
  proof (cases "trim email' = ?em")
    case True
    then show ?thesis by (simp add: find_user_def us1)
  next
    case False
    have "hget ?us (trim email') = None"
    proof (rule ccontr)
      assume "hget ?us (trim email') \<noteq> None"
      then obtain x where x: "hget ?us (trim email') = Some x" by auto
      then have "x \<in> set (hvalues ?us)" by (rule hget_hvalues)
      then have "\<not> eq_ignore_ascii_case (us_email x) (trim email)" by (rule assms(4))
      moreover have "us_email x = trim email'" by (rule keyed_getD [OF assms(3) x])
      ultimately show False using assms(5) by simp
    qed
    moreover have "find (\<lambda>x. eq_ignore_ascii_case (us_email x) (trim email')) (hvalues ?us) = None"
      using assms(4,5) by (auto simp: find_None_iff eq_ignore_ascii_case_def)
    moreover have "eq_ignore_ascii_case (us_email u) (trim email')"
      using assms(5) by (simp add: fields eq_ignore_ascii_case_def)
    ultimately show ?thesis
      using False by (simp add: find_user_def us1' find_append map_add_def del: set_map)
  qed
  have "login c e' now' salt' token email' password st1 = (add_token now' token (us_id u) st1, Ok (Some token))"
    using live verify_argon [OF assms(2) h]
    by (simp add: login_def pw tx_read_def other fields)
  then show ?thesis
    by (auto simp: fields add_token_def validate_token_def)
qed

definition demo_mail :: string where
  "demo_mail = ''Ada'' @ [CHR 0x40] @ ''x.org''"

lemma demo_mail_graph [simp]: "trim demo_mail = demo_mail"
  by (rule trim_graph) (simp add: demo_mail_def is_graph_char_def)

theorem register_then_login_witness:
  "let p = register demo_crypto we_all_ok 10 ''u1'' ''salt'' ''Ada'' demo_mail ''correct horse battery'' (demo_users []);
       q = login demo_crypto we_disk_full 20 ''s2'' ''tok'' (to_ascii_uppercase demo_mail) ''correct horse battery'' (fst p)
   in \<exists>u. snd p = Ok u \<and> snd q = Ok (Some ''tok'') \<and> validate_token 86400020 ''tok'' (fst q) = Some (us_id u)"
proof -
  let ?p = "register demo_crypto we_all_ok 10 ''u1'' ''salt'' ''Ada'' demo_mail ''correct horse battery'' (demo_users [])"
  have lower: "to_ascii_lowercase demo_mail = ''ada'' @ [CHR 0x40] @ ''x.org''"
    by code_simp
  obtain u where u: "snd ?p = Ok u"
    by (simp add: register_def Let_def lower decode_password_def demo_crypto_def starts_with_def ends_with_def
        us_mutate_def us_mutate_if_changed_def tx_mutate_if_changed_def always_changed_def
        insert_user_step_def demo_users_def is_graph_char_def suffix_def)
  then have p: "?p = (fst ?p, Ok u)" by (metis prod.collapse)
  have "list_all is_graph_char (to_ascii_uppercase demo_mail)"
    by (simp add: demo_mail_def to_ascii_uppercase_def ascii_upper_char_def Let_def is_graph_char_def)
  then have "trim (to_ascii_uppercase demo_mail) = to_ascii_uppercase demo_mail" by (rule trim_graph)
  then have "eq_ignore_ascii_case (trim (to_ascii_uppercase demo_mail)) (trim demo_mail)"
    by (simp add: eq_ignore_ascii_case_def)
  from register_then_login [OF p demo_crypto_ok _ _ this, of we_disk_full 20 "''s2''" "''tok''"] u
  show ?thesis by (auto simp: Let_def demo_users_def TOKEN_TTL_MS_def)
qed

text \<open>
  A password change that succeeds had the right current password, a new one of at
  least six bytes, and leaves exactly this account with a hash that the new password
  verifies; every other account, and every session, stays.
\<close>

theorem change_password_effect:
  assumes "change_password c e salt i cur new st = (st', Ok ())" and "users_sound st" and "crypto_ok c"
  shows "\<exists>u pw h b. find_user_by_id (st_mem (ust_users st)) i = Some u
    \<and> (\<exists>old. decode_password c cur = Ok old \<and> verify_password c old (us_password_hash u) = Valid b)
    \<and> decode_password c new = Ok pw \<and> 6 \<le> length pw
    \<and> hget (st_mem (ust_users st')) (us_email u) = Some (u\<lparr>us_password_hash := h\<rparr>)
    \<and> verify_password c pw h = Valid False
    \<and> (\<forall>k. k \<noteq> us_email u \<longrightarrow> hget (st_mem (ust_users st')) k = hget (st_mem (ust_users st)) k)
    \<and> ust_tokens st' = ust_tokens st"
proof -
  from assms(1) obtain u old pw h b where
    u: "find_user_by_id (st_mem (ust_users st)) i = Some u"
    and old: "decode_password c cur = Ok old" "verify_password c old (us_password_hash u) = Valid b"
    and pw: "decode_password c new = Ok pw" "6 \<le> length pw" "cr_argon_hash c salt pw = Ok h"
    and run: "us_mutate_if_changed e (upgrade_step (us_email u) h) st = (st', Ok ())"
    unfolding change_password_def Let_def
    by (auto simp: res_bind_Ok_iff res_map_Ok_iff users_sound_read [OF assms(2)]
        split: res.splits if_splits option.splits password_verification.splits)
  have wf: "wf_users (st_mem (ust_users st))" using assms(2) by (simp add: store_sound_def)
  have get: "hget (st_mem (ust_users st)) (us_email u) = Some u" by (rule modify_user_hput(2) [OF wf u])
  obtain b' where "upgrade_step (us_email u) h (st_mem (ust_users st)) = (st_mem (ust_users st'), Ok ((), b'))"
    and tokens: "ust_tokens st' = ust_tokens st"
    using run by (rule us_mutate_OkE)
  with get have us': "st_mem (ust_users st') = hput (us_email u) (u\<lparr>us_password_hash := h\<rparr>) (st_mem (ust_users st))"
    by (simp add: upgrade_step_def)
  show ?thesis
    using get u old pw verify_argon [OF assms(3) pw(3)] tokens
    by - (rule exI [of _ u], rule exI [of _ pw], rule exI [of _ h], rule exI [of _ b],
      auto simp: us')
qed

theorem change_password_effect_witness:
  "let st = demo_users [(''a'', demo_user ''i'' ''a'' (argon_prefix @ ''old-pass'') ''normal'')];
       st' = fst (change_password demo_crypto we_all_ok ''s'' ''i'' ''old-pass'' ''new-pass'' st)
   in \<exists>h. map_option us_password_hash (hget (st_mem (ust_users st')) ''a'') = Some h
        \<and> verify_password demo_crypto ''new-pass'' h = Valid False"
proof -
  let ?st = "demo_users [(''a'', demo_user ''i'' ''a'' (argon_prefix @ ''old-pass'') ''normal'')]"
  let ?p = "change_password demo_crypto we_all_ok ''s'' ''i'' ''old-pass'' ''new-pass'' ?st"
  have "snd ?p = Ok ()"
    by (simp add: change_password_def Let_def decode_password_def demo_crypto_def tx_read_def demo_users_def
        find_user_by_id_def demo_user_def verify_password_def starts_with_def ends_with_def
        us_mutate_if_changed_def tx_mutate_if_changed_def upgrade_step_def suffix_def)
  then have p: "?p = (fst ?p, Ok ())" by (metis prod.collapse)
  have "users_sound ?st"
    by (rule demo_users_sound) (simp add: wf_map_def keyed_def demo_user_def valid_user_def)
  from change_password_effect [OF p this demo_crypto_ok] show ?thesis
    by (auto simp: Let_def find_user_by_id_def demo_users_def demo_user_def decode_password_def demo_crypto_def)
qed

text \<open>
  Revocation of sessions: after a logout the token is nobody's, after
  \<open>logout_user_tokens\<close> no token is the user's, and every other session is untouched; a
  session never outlives its user, since a token of a deleted account resolves to nobody.
\<close>

theorem sessions_revoked:
  assumes "distinct (map fst (ust_tokens st))"
  shows "validate_token t tok (logout tok st) = None
    \<and> validate_token t tok' (logout_user_tokens i st)
        = (if validate_token t tok' st = Some i then None else validate_token t tok' st)
    \<and> (find_user_by_id (st_mem (ust_users st)) i = None \<longrightarrow> validate_token t tok st = Some i \<longrightarrow>
         get_user_by_token t tok st \<in> {Ok None, Panic})"
  using assms
  by (auto simp: validate_token_def logout_def logout_user_tokens_def hget_filter get_user_by_token_def
      tx_read_def split: option.splits)

theorem sessions_revoked_witness:
  "let st = (demo_users [])\<lparr>ust_tokens := [(''t1'', \<lparr>te_user_id = ''a'', te_expires_at = 9\<rparr>),
                                         (''t2'', \<lparr>te_user_id = ''b'', te_expires_at = 9\<rparr>)]\<rparr>
   in validate_token 5 ''t1'' (logout_user_tokens ''a'' st) = None
    \<and> validate_token 5 ''t2'' (logout_user_tokens ''a'' st) = Some ''b''"
proof -
  let ?st = "(demo_users [])\<lparr>ust_tokens := [(''t1'', \<lparr>te_user_id = ''a'', te_expires_at = 9\<rparr>),
                                         (''t2'', \<lparr>te_user_id = ''b'', te_expires_at = 9\<rparr>)]\<rparr>"
  have "distinct (map fst (ust_tokens ?st))" by simp
  note revoked = sessions_revoked [OF this, of 5 _ _ "''a''", THEN conjunct2, THEN conjunct1]
  show ?thesis
    unfolding Let_def revoked by (simp add: validate_token_def)
qed

text \<open>
  The comparison of hashes in constant time is equality, whatever the lengths.
\<close>

theorem constant_time_eq_is_equality: "constant_time_eq a b = (a = b)"
  by (rule constant_time_eq_iff)

text \<open>
  A legacy account signs in with its address written with a blank before it, but the
  transparent upgrade of its hash looks the raw address up and is skipped: the legacy hash
  stays, while the same login without the blank replaces it.
\<close>

theorem legacy_upgrade_skipped:
  "let st = demo_users [(''ada'', demo_user ''i'' ''ada'' (replicate 64 (CHR ''0'')) ''normal'')];
       spaced = login demo_crypto we_all_ok 1 ''s'' ''tok'' ('' '' @ ''ada'') ''pw'' st;
       plain = login demo_crypto we_all_ok 1 ''s'' ''tok'' ''ada'' ''pw'' st
   in snd spaced = Ok (Some ''tok'') \<and> snd plain = Ok (Some ''tok'')
    \<and> map us_password_hash (hvalues (st_mem (ust_users (fst spaced)))) = [replicate 64 (CHR ''0'')]
    \<and> map us_password_hash (hvalues (st_mem (ust_users (fst plain)))) = [argon_prefix @ ''s'' @ ''pw'']"
proof -
  let ?z = "replicate 64 (CHR ''0'')"
  have "\<not> starts_with ?z argon_prefix"
    by (simp add: starts_with_def argon_prefix_def numeral_eq_Suc)
  then have legacy: "verify_password demo_crypto ''pw'' ?z = Valid True"
    by (simp add: verify_password_def is_legacy_sha256_hash_def constant_time_eq_iff legacy_sha256_def
        demo_crypto_def list_all_iff is_hex_digit_def)
  have "strip_front ws_encodings ''ada'' = ''ada''"
    by (rule strip_front_graph [OF ws_encodings_not_graph]) (simp_all add: is_graph_char_def)
  moreover have "find (\<lambda>e. e \<noteq> [] \<and> prefix e ('' '' @ ''ada'')) ws_encodings = Some '' ''"
    by (simp add: ws_encodings_def)
  then have "strip_front ws_encodings ('' '' @ ''ada'') = strip_front ws_encodings ''ada''"
    by (subst strip_front.simps) simp
  moreover have "trim ''ada'' = ''ada''" by (rule trim_graph) (simp add: is_graph_char_def)
  ultimately have trim: "trim ('' '' @ ''ada'') = ''ada''" "trim ''ada'' = ''ada''"
    by (simp_all add: trim_def trim_start_def)
  have crypto: "cr_transport demo_crypto = None" "cr_argon_hash demo_crypto s p = Ok (argon_prefix @ s @ p)" for s p
    by (simp_all add: demo_crypto_def)
  show ?thesis
    using legacy trim
    by (simp add: Let_def login_def decode_password_def crypto tx_read_def demo_users_def find_user_def
        demo_user_def us_mutate_if_changed_def tx_mutate_if_changed_def upgrade_step_def add_token_def)
qed

text \<open>
  Deleting an account protects nobody but the caller: another user's call removes the
  only administrator there is.
\<close>

theorem last_admin_can_be_deleted:
  "let st = demo_users [(''admin'', demo_user ''root'' ''admin'' [] ''admin''), (''bob'', demo_user ''b'' ''bob'' [] ''normal'')];
       p = delete_user we_all_ok ''root'' ''b'' st
   in snd p = Ok True \<and> filter (\<lambda>u. us_role u = ''admin'') (hvalues (st_mem (ust_users (fst p)))) = []"
  by (simp add: delete_user_def us_mutate_if_changed_def tx_mutate_if_changed_def delete_user_step_def
      demo_users_def demo_user_def Let_def)

end
