(* ===== verification/Whitelist.thy ===== *)
theory Whitelist
  imports Rust_Str "HOL-Library.List_Lexorder" "HOL-Library.Char_ord"
begin

text \<open>
  \<open>WhitelistStore\<close> of \<^verbatim>\<open>src/registration_whitelist.rs\<close>: which addresses may register. An
  entry is an address or an \<open>@domain\<close>. The vector is sorted by bytes, which is the
  lexicographic order on strings here.
\<close>

section \<open>State\<close>

record whitelist_state =
  wl_enabled :: bool
  wl_entries :: "string list"

text \<open>\<open>wls_path\<close>: whether the store has a file; \<open>wls_file\<close> is what that file holds.\<close>

record whitelist_store =
  wls_state :: whitelist_state
  wls_path :: bool
  wls_file :: "whitelist_state option"

definition whitelist_default :: whitelist_state where
  "whitelist_default = \<lparr>wl_enabled = False, wl_entries = []\<rparr>"

definition whitelist_in_memory :: whitelist_store where
  "whitelist_in_memory = \<lparr>wls_state = whitelist_default, wls_path = False, wls_file = None\<rparr>"

text \<open>The outcomes of writing and of renaming the temporary file.\<close>

type_synonym wl_env = "bool \<times> bool"

definition wl_persist :: "wl_env \<Rightarrow> whitelist_store \<Rightarrow> whitelist_store \<times> unit res" where
  "wl_persist e st =
     (if \<not> wls_path st then (st, Ok ())
      else if \<not> fst e then (st, Err ''write'')
      else if \<not> snd e then (st, Err ''rename'')
      else (st\<lparr>wls_file := Some (wls_state st)\<rparr>, Ok ()))"

definition wl_normalise :: "string \<Rightarrow> string" where
  "wl_normalise entry = to_ascii_lowercase (trim entry)"

section \<open>Operations\<close>

definition wl_set_enabled :: "wl_env \<Rightarrow> bool \<Rightarrow> whitelist_store \<Rightarrow> whitelist_store \<times> unit res" where
  "wl_set_enabled e enabled st = wl_persist e (st\<lparr>wls_state := (wls_state st)\<lparr>wl_enabled := enabled\<rparr>\<rparr>)"

definition wl_add :: "wl_env \<Rightarrow> string \<Rightarrow> whitelist_store \<Rightarrow> whitelist_store \<times> bool res" where
  "wl_add e entry st =
     (let entry = wl_normalise entry; entries = wl_entries (wls_state st)
      in if entry = [] then (st, Err ''an email or @domain is required'')
         else if entry \<in> set entries then (st, Ok False)
         else (case wl_persist e (st\<lparr>wls_state := (wls_state st)\<lparr>wl_entries := sort (entries @ [entry])\<rparr>\<rparr>) of
                 (st', r) \<Rightarrow> (st', res_map (\<lambda>_. True) r)))"

definition wl_remove :: "wl_env \<Rightarrow> string list \<Rightarrow> whitelist_store \<Rightarrow> whitelist_store \<times> nat res" where
  "wl_remove e entries st =
     (let wanted = map wl_normalise entries;
          before = length (wl_entries (wls_state st));
          kept = filter (\<lambda>entry. entry \<notin> set wanted) (wl_entries (wls_state st));
          removed = before - length kept;
          st = st\<lparr>wls_state := (wls_state st)\<lparr>wl_entries := kept\<rparr>\<rparr>
      in if 0 < removed
         then (case wl_persist e st of (st', r) \<Rightarrow> (st', res_map (\<lambda>_. removed) r))
         else (st, Ok removed))"

definition wl_allows :: "string \<Rightarrow> whitelist_store \<Rightarrow> bool" where
  "wl_allows email st =
     (if \<not> wl_enabled (wls_state st) then True
      else let email = to_ascii_lowercase (trim email)
           in if email = [] then False
              else let domain = CHR 0x40 # after_last (CHR 0x40) email
                   in list_ex (\<lambda>entry. entry = email \<or> entry = domain) (wl_entries (wls_state st)))"

section \<open>Invariant\<close>

text \<open>The entries are sorted, distinct and lower-case; the last write that succeeded is on file.\<close>

definition wl_wf :: "whitelist_store \<Rightarrow> bool" where
  "wl_wf st \<longleftrightarrow>
     sorted (wl_entries (wls_state st)) \<and> distinct (wl_entries (wls_state st)) \<and>
     (\<forall>x \<in> set (wl_entries (wls_state st)). x \<noteq> [] \<and> to_ascii_lowercase x = x)"

lemma wl_persist_state [simp]: "wls_state (fst (wl_persist e st)) = wls_state st"
  by (simp add: wl_persist_def)

lemma wl_persist_eq: "wl_persist e st = (st', r) \<Longrightarrow> wls_state st' = wls_state st"
  by (auto simp: wl_persist_def split: if_splits)

lemma wl_add_state:
  "wls_state (fst (wl_add e entry st)) =
     (if wl_normalise entry = [] \<or> wl_normalise entry \<in> set (wl_entries (wls_state st)) then wls_state st
      else (wls_state st)\<lparr>wl_entries := sort (wl_entries (wls_state st) @ [wl_normalise entry])\<rparr>)"
  by (auto simp: wl_add_def Let_def dest: wl_persist_eq split: prod.splits)

lemma wl_remove_state:
  "wls_state (fst (wl_remove e entries st)) =
     (wls_state st)\<lparr>wl_entries := filter (\<lambda>entry. entry \<notin> wl_normalise ` set entries) (wl_entries (wls_state st))\<rparr>"
  by (auto simp: wl_remove_def Let_def dest: wl_persist_eq split: prod.splits)

text \<open>A call of the store, with the outcome of its write.\<close>

datatype wl_call = Wl_Add string | Wl_Remove "string list" | Wl_Enable bool

fun wl_apply :: "wl_env \<times> wl_call \<Rightarrow> whitelist_store \<Rightarrow> whitelist_store" where
  "wl_apply (e, Wl_Add entry) st = fst (wl_add e entry st)"
| "wl_apply (e, Wl_Remove entries) st = fst (wl_remove e entries st)"
| "wl_apply (e, Wl_Enable b) st = fst (wl_set_enabled e b st)"

lemma wl_set_enabled_state:
  "wls_state (fst (wl_set_enabled e b st)) = (wls_state st)\<lparr>wl_enabled := b\<rparr>"
  by (simp add: wl_set_enabled_def)

lemma wl_wf_apply: "wl_wf st \<Longrightarrow> wl_wf (wl_apply c st)"
proof (cases "(c, st)" rule: wl_apply.cases)
  case (1 e entry st')
  assume "wl_wf st"
  with 1 show ?thesis
    by (auto simp: wl_wf_def wl_add_state wl_normalise_def)
qed (auto simp: wl_wf_def wl_remove_state wl_set_enabled_state sorted_filter [of id, simplified])

text \<open>What the entries are worth: the reference reading of the list as a set.\<close>

fun wl_listed :: "wl_call list \<Rightarrow> string set \<Rightarrow> string set" where
  "wl_listed [] E = E"
| "wl_listed (Wl_Add entry # cs) E = wl_listed cs (if wl_normalise entry = [] then E else insert (wl_normalise entry) E)"
| "wl_listed (Wl_Remove entries # cs) E = wl_listed cs (E - wl_normalise ` set entries)"
| "wl_listed (Wl_Enable b # cs) E = wl_listed cs E"

lemma wl_listed_apply:
  "set (wl_entries (wls_state (fold wl_apply cs st))) = wl_listed (map snd cs) (set (wl_entries (wls_state st)))"
proof (induction cs arbitrary: st)
  case (Cons c cs)
  obtain e k where c: "c = (e, k)" by (cases c)
  have "wl_listed (k # ks) E = wl_listed ks (set (wl_entries (wls_state (wl_apply (e, k) st))))"
    if "E = set (wl_entries (wls_state st))" for E ks
    using that
    by (cases k) (auto simp: wl_add_state wl_remove_state wl_set_enabled_state insert_absorb set_diff_eq
        intro!: arg_cong [where f = "wl_listed ks"])
  with Cons c show ?case by simp
qed simp

section \<open>Properties\<close>

text \<open>
  The whitelist is the set of its entries: after any calls, whichever writes fail, its list
  is sorted and without duplicates, it admits everybody while disabled, and while enabled it
  admits exactly the non-blank addresses that are listed themselves or by domain, in any case.
\<close>

theorem whitelist_is_a_set:
  assumes "wl_wf st" and "st' = fold wl_apply cs st"
    and "L = wl_listed (map snd cs) (set (wl_entries (wls_state st)))"
    and "who = to_ascii_lowercase (trim email)"
  shows "wl_wf st' \<and>
    (wl_allows email st' \<longleftrightarrow>
       \<not> wl_enabled (wls_state st') \<or>
       who \<noteq> [] \<and> (who \<in> L \<or> CHR 0x40 # after_last (CHR 0x40) who \<in> L))"
proof -
  have "wl_wf (fold wl_apply cs st)" using assms(1)
    by (induction cs arbitrary: st) (auto simp: wl_wf_apply)
  moreover have "L = set (wl_entries (wls_state st'))"
    using wl_listed_apply [of cs st] assms(2,3) by simp
  ultimately show ?thesis
    using assms(2,4) by (auto simp: wl_allows_def Let_def list_ex_iff)
qed

theorem whitelist_is_a_set_witness:
  "wl_allows ''Ada@Example.org'' (fold wl_apply
      [((True, True), Wl_Add '' @example.org''), ((True, True), Wl_Enable True)] whitelist_in_memory)"
proof -
  have "to_ascii_lowercase (trim ''Ada@Example.org'') = ''ada@example.org''"
    and "wl_normalise '' @example.org'' = ''@example.org''"
    and "after_last (CHR 0x40) ''ada@example.org'' = ''example.org''" by code_simp+
  then show ?thesis
    using whitelist_is_a_set [of whitelist_in_memory _ _ _ _ "''Ada@Example.org''", OF _ refl refl refl,
        of "[((True, True), Wl_Add '' @example.org''), ((True, True), Wl_Enable True)]"]
    by (simp add: whitelist_in_memory_def whitelist_default_def wl_wf_def)
qed

end
