(* ===== verification/One_Time_Codes.thy ===== *)
theory One_Time_Codes
  imports Tx_Store
begin

text \<open>
  The two kinds of one-time codes of the password-reset flow: the answers of image captchas
  (\<open>CaptchaStore\<close> of \<^verbatim>\<open>src/captcha.rs\<close>, in memory, sixty seconds) and the mailed or logged
  codes (\<open>OtpStore\<close> of \<^verbatim>\<open>src/password_reset.rs\<close>, on file, ten minutes, five attempts).
  Both provide the interface \<open>one_shot\<close>: a code that was issued can be redeemed once.
\<close>

section \<open>The interface\<close>

text \<open>
  \<open>pending s k\<close> is the code that is outstanding for the key \<open>k\<close>; \<open>redeem\<close> answers whether
  the code was accepted. Redeeming never creates a code, spends the one it accepts, and
  issuing a code for one key creates none for another.
\<close>

datatype 'e code_event =
    Issue_Code 'e string string
  | Redeem_Code 'e string string

text \<open>A history of calls; the result lists, per accepted redemption, its key.\<close>

fun run_codes ::
  "(string \<Rightarrow> string) \<Rightarrow> ('e \<Rightarrow> string \<Rightarrow> string \<Rightarrow> 's \<Rightarrow> 's) \<Rightarrow> ('e \<Rightarrow> string \<Rightarrow> string \<Rightarrow> 's \<Rightarrow> 's \<times> bool) \<Rightarrow>
   'e code_event list \<Rightarrow> 's \<Rightarrow> 's \<times> string list" where
  "run_codes key issue redeem [] s = (s, [])"
| "run_codes key issue redeem (Issue_Code now email code # es) s =
     run_codes key issue redeem es (issue now email code s)"
| "run_codes key issue redeem (Redeem_Code now email answer # es) s =
     (case redeem now email answer s of
        (s', b) \<Rightarrow> (case run_codes key issue redeem es s' of
           (s'', ks) \<Rightarrow> (s'', if b then key email # ks else ks)))"

fun issued_for :: "(string \<Rightarrow> string) \<Rightarrow> string \<Rightarrow> 'e code_event list \<Rightarrow> nat" where
  "issued_for key k [] = 0"
| "issued_for key k (Issue_Code now email code # es) =
     (if key email = k then 1 else 0) + issued_for key k es"
| "issued_for key k (Redeem_Code now email answer # es) = issued_for key k es"

locale one_shot =
  fixes key :: "string \<Rightarrow> string"
    and inv :: "'s \<Rightarrow> bool"
    and pending :: "'s \<Rightarrow> string \<Rightarrow> string option"
    and accepts :: "string \<Rightarrow> string \<Rightarrow> bool"
    and issue :: "'e \<Rightarrow> string \<Rightarrow> string \<Rightarrow> 's \<Rightarrow> 's"
    and redeem :: "'e \<Rightarrow> string \<Rightarrow> string \<Rightarrow> 's \<Rightarrow> 's \<times> bool"
  assumes issue_inv: "inv s \<Longrightarrow> inv (issue now email code s)"
    and redeem_inv: "inv s \<Longrightarrow> redeem now email answer s = (s', b) \<Longrightarrow> inv s'"
    and redeem_accepts:
      "redeem now email answer s = (s', True) \<Longrightarrow>
         \<exists>c. pending s (key email) = Some c \<and> accepts c answer \<and> pending s' (key email) = None"
    and redeem_no_new:
      "redeem now email answer s = (s', b) \<Longrightarrow> pending s' k = Some c \<Longrightarrow> pending s k = Some c"
    and issue_other:
      "inv s \<Longrightarrow> k \<noteq> key email \<Longrightarrow> pending (issue now email code s) k = Some c \<Longrightarrow> pending s k = Some c"
begin

abbreviation outstanding :: "'s \<Rightarrow> string \<Rightarrow> nat" where
  "outstanding s k \<equiv> (if pending s k = None then 0 else 1)"

lemma redeem_outstanding:
  "redeem now email answer s = (s', b) \<Longrightarrow>
     outstanding s' k + (if b \<and> key email = k then 1 else 0) \<le> outstanding s k"
  using redeem_no_new [of now email answer s s' b k] redeem_accepts [of now email answer s s']
  by (cases "b \<and> key email = k") (auto split: if_splits)

lemma issue_outstanding:
  "inv s \<Longrightarrow> outstanding (issue now email code s) k \<le> outstanding s k + (if key email = k then 1 else 0)"
  using issue_other [of s k email now code]
  by (cases "pending (issue now email code s) k") (auto split: if_splits)

text \<open>However the calls are mixed, no more redemptions are accepted than codes were issued.\<close>

lemma accepted_at_most_issued:
  "run_codes key issue redeem es s = (s', ks) \<Longrightarrow> inv s \<Longrightarrow> count_list ks k \<le> outstanding s k + issued_for key k es"
proof (induction es arbitrary: s ks)
  case (Cons ev es)
  show ?case
  proof (cases ev)
    case (Issue_Code now email code)
    let ?s = "issue now email code s"
    have "count_list ks k \<le> outstanding ?s k + issued_for key k es"
      using Cons Issue_Code by (intro Cons.IH) (auto intro: issue_inv)
    with issue_outstanding [OF Cons.prems(2), of now email code k] Issue_Code show ?thesis by simp
  next
    case (Redeem_Code now email answer)
    obtain s1 b where s1: "redeem now email answer s = (s1, b)" by fastforce
    obtain ks1 where ks1: "run_codes key issue redeem es s1 = (s', ks1)"
      using Cons.prems Redeem_Code s1 by (auto split: prod.splits)
    have ks: "ks = (if b then key email # ks1 else ks1)"
      using Cons.prems Redeem_Code s1 ks1 by auto
    have "count_list ks1 k \<le> outstanding s1 k + issued_for key k es"
      by (rule Cons.IH [OF ks1 redeem_inv [OF Cons.prems(2) s1]])
    with redeem_outstanding [OF s1, of k] ks Redeem_Code show ?thesis
      by (cases b) auto
  qed
qed simp

end

section \<open>Captcha answers\<close>

definition CAPTCHA_LENGTH :: nat where
  "CAPTCHA_LENGTH = 4"

definition CAPTCHA_TTL_SECONDS :: u64 where
  "CAPTCHA_TTL_SECONDS = 60"

record captcha_entry =
  ce_code :: string
  ce_issued_ms :: u64

type_synonym captcha_store = "(string, captcha_entry) hmap"

definition expired :: "captcha_entry \<Rightarrow> u64 \<Rightarrow> bool" where
  "expired entry now_ms \<longleftrightarrow> CAPTCHA_TTL_SECONDS * 1000 \<le> sat_sub now_ms (ce_issued_ms entry)"

definition captcha_issue_at :: "string \<Rightarrow> string \<Rightarrow> u64 \<Rightarrow> captcha_store \<Rightarrow> captcha_store \<times> string" where
  "captcha_issue_at email code now_ms entries =
     (let code = to_ascii_uppercase code;
          live = filter (\<lambda>(k, entry). \<not> expired entry now_ms) entries
      in (hput (to_ascii_lowercase email) \<lparr>ce_code = code, ce_issued_ms = now_ms\<rparr> live, code))"

definition captcha_verify_at :: "string \<Rightarrow> string \<Rightarrow> u64 \<Rightarrow> captcha_store \<Rightarrow> captcha_store \<times> bool" where
  "captcha_verify_at email answer now_ms entries =
     (let key = to_ascii_lowercase email
      in case hget entries key of
           None \<Rightarrow> (entries, False)
         | Some entry \<Rightarrow>
             if expired entry now_ms then (hdel key entries, False)
             else
               let matches = eq_ignore_ascii_case (ce_code entry) (trim answer)
               in (if matches then hdel key entries else entries, matches))"

definition captcha_has_pending_at :: "string \<Rightarrow> u64 \<Rightarrow> captcha_store \<Rightarrow> captcha_store \<times> bool" where
  "captcha_has_pending_at email now_ms entries =
     (let live = filter (\<lambda>(k, entry). \<not> expired entry now_ms) entries
      in (live, hget live (to_ascii_lowercase email) \<noteq> None))"

definition captcha_pending :: "captcha_store \<Rightarrow> string \<Rightarrow> string option" where
  "captcha_pending s k = map_option ce_code (hget s k)"

definition captcha_wf :: "captcha_store \<Rightarrow> bool" where
  "captcha_wf s \<longleftrightarrow> distinct (map fst s)"

lemma captcha_verify_cases:
  "captcha_verify_at email answer now s = (s', b) \<Longrightarrow>
     (s' = s \<and> \<not> b) \<or> s' = hdel (to_ascii_lowercase email) s"
  by (auto simp: captcha_verify_at_def Let_def split: option.splits if_splits)

lemma captcha_verify_True:
  "captcha_verify_at email answer now s = (s', True) \<longleftrightarrow>
     s' = hdel (to_ascii_lowercase email) s \<and>
     (\<exists>entry. hget s (to_ascii_lowercase email) = Some entry \<and> \<not> expired entry now
        \<and> eq_ignore_ascii_case (ce_code entry) (trim answer))"
  by (auto simp: captcha_verify_at_def Let_def split: option.splits if_splits)

lemma hget_live:
  "captcha_wf s \<Longrightarrow> hget (filter (\<lambda>(k, entry). \<not> expired entry now) s) k
     = (case hget s k of None \<Rightarrow> None | Some v \<Rightarrow> if expired v now then None else Some v)"
  by (auto simp: captcha_wf_def hget_filter split: option.splits)

lemma captcha_wf_issue: "captcha_wf s \<Longrightarrow> captcha_wf (fst (captcha_issue_at email code now s))"
  by (auto simp: captcha_wf_def captcha_issue_at_def Let_def distinct_update distinct_map_filter)

lemma captcha_wf_verify:
  "captcha_wf s \<Longrightarrow> captcha_verify_at email answer now s = (s', b) \<Longrightarrow> captcha_wf s'"
  by (drule captcha_verify_cases) (auto simp: captcha_wf_def intro: distinct_delete)

interpretation captcha: one_shot to_ascii_lowercase captcha_wf captcha_pending
    "\<lambda>c answer. eq_ignore_ascii_case c (trim answer)"
    "\<lambda>now email code s. fst (captcha_issue_at email code now s)"
    "\<lambda>now email answer s. captcha_verify_at email answer now s"
proof unfold_locales
  show "captcha_pending s k = Some c"
    if "captcha_verify_at email answer now s = (s', b)" "captcha_pending s' k = Some c"
    for now email answer s s' b k c
    using that captcha_verify_cases [OF that(1)] by (auto simp: captcha_pending_def split: if_splits)
  show "captcha_pending s k = Some c"
    if "captcha_wf s" "k \<noteq> to_ascii_lowercase email"
      "captcha_pending (fst (captcha_issue_at email code now s)) k = Some c"
    for s k email now code c
    using that
    by (auto simp: captcha_pending_def captcha_issue_at_def Let_def hget_live split: option.splits if_splits)
qed (auto simp: captcha_wf_issue captcha_verify_True captcha_pending_def dest: captcha_wf_verify)

section \<open>Mailed codes\<close>

definition CODE_TTL_SECS :: u64 where
  "CODE_TTL_SECS = 600"

definition MAX_ATTEMPTS :: u32 where
  "MAX_ATTEMPTS = 5"

record otp_entry =
  oe_email :: string
  oe_code :: string
  oe_expires_at :: u64
  oe_attempts :: u32
  oe_verified :: bool

type_synonym otp_entries = "(string, otp_entry) hmap"

datatype otp_check = Otp_Ok | Otp_Missing | Otp_Expired | Otp_TooManyAttempts | Otp_WrongCode u32

text \<open>
  The file-backed store. Nothing panics while its lock is held, so that the lock is never
  poisoned. \<open>lower\<close> is \<open>str::to_lowercase\<close>, which follows the Unicode tables.
\<close>

record otp_store =
  os_entries :: otp_entries
  os_disk :: "otp_entries disk"

text \<open>\<open>OtpStore::new\<close>: a missing or damaged file is an empty store.\<close>

definition otp_store_new :: "otp_entries contents \<Rightarrow> otp_entries disk \<Rightarrow> otp_store" where
  "otp_store_new file d =
     \<lparr>os_entries = (case file of Contents es \<Rightarrow> es | _ \<Rightarrow> []), os_disk = d\<rparr>"

definition otp_persist :: "write_env \<Rightarrow> otp_store \<Rightarrow> otp_store \<times> unit res" where
  "otp_persist e st =
     (case atomic_write_with_mirror e (os_entries st) (os_disk st) of
        (d, r) \<Rightarrow> (st\<lparr>os_disk := d\<rparr>, r))"

definition random_six_digits :: "u32 \<Rightarrow> u32 \<Rightarrow> u32 \<Rightarrow> u32" where
  "random_six_digits tick nanos pid =
     (nanos * 2654435761 + pid * 40503 + tick * 97) mod 1000000"

text \<open>\<open>format!("{:06}", n)\<close>: at least six digits, padded with zeros.\<close>

definition format_06 :: "u32 \<Rightarrow> string" where
  "format_06 n = (let s = nat_to_str (unat n) in replicate (6 - length s) (CHR ''0'') @ s)"

definition otp_new_code :: "u32 \<Rightarrow> u32 \<Rightarrow> u32 \<Rightarrow> string" where
  "otp_new_code tick nanos pid = format_06 (random_six_digits tick nanos pid)"

text \<open>\<open>issue\<close>, for the code that the clock, the process id and the counter gave.\<close>

definition otp_issue ::
  "(string \<Rightarrow> string) \<Rightarrow> write_env \<Rightarrow> u64 \<Rightarrow> string \<Rightarrow> string \<Rightarrow> otp_store \<Rightarrow> otp_store \<times> string res" where
  "otp_issue lower e now code email st =
     (let entry = \<lparr>oe_email = lower email, oe_code = code, oe_expires_at = now + CODE_TTL_SECS,
                   oe_attempts = 0, oe_verified = False\<rparr>;
          st = st\<lparr>os_entries := hput (lower email) entry (os_entries st)\<rparr>
      in case otp_persist e st of (st', r) \<Rightarrow> (st', res_map (\<lambda>_. code) r))"

definition otp_verify ::
  "(string \<Rightarrow> string) \<Rightarrow> write_env \<Rightarrow> u64 \<Rightarrow> string \<Rightarrow> string \<Rightarrow> otp_store \<Rightarrow> otp_store \<times> otp_check res" where
  "otp_verify lower e now email code st =
     (let key = lower email
      in case hget (os_entries st) key of
           None \<Rightarrow> (st, Ok Otp_Missing)
         | Some entry \<Rightarrow>
             if oe_expires_at entry < now then (st, Ok Otp_Expired)
             else if MAX_ATTEMPTS \<le> oe_attempts entry then (st, Ok Otp_TooManyAttempts)
             else if oe_code entry \<noteq> trim code then
               (let entry = entry\<lparr>oe_attempts := oe_attempts entry + 1\<rparr>;
                    remaining = sat_sub MAX_ATTEMPTS (oe_attempts entry)
                in case otp_persist e (st\<lparr>os_entries := hput key entry (os_entries st)\<rparr>) of
                     (st', r) \<Rightarrow> (st', res_map (\<lambda>_. Otp_WrongCode remaining) r))
             else
               (case otp_persist e (st\<lparr>os_entries := hput key (entry\<lparr>oe_verified := True\<rparr>) (os_entries st)\<rparr>) of
                  (st', r) \<Rightarrow> (st', res_map (\<lambda>_. Otp_Ok) r)))"

definition otp_consume_verified ::
  "(string \<Rightarrow> string) \<Rightarrow> write_env \<Rightarrow> u64 \<Rightarrow> string \<Rightarrow> otp_store \<Rightarrow> otp_store \<times> bool res" where
  "otp_consume_verified lower e now email st =
     (let key = lower email;
          consumed = (case hget (os_entries st) key of
                        Some entry \<Rightarrow> oe_verified entry \<and> now \<le> oe_expires_at entry
                      | None \<Rightarrow> False)
      in if consumed then
           (case otp_persist e (st\<lparr>os_entries := hdel key (os_entries st)\<rparr>) of
              (st', r) \<Rightarrow> (st', res_map (\<lambda>_. consumed) r))
         else (st, Ok consumed))"

text \<open>What an endpoint that resets something does with the store: check, then consume.\<close>

definition otp_redeem ::
  "(string \<Rightarrow> string) \<Rightarrow> write_env \<Rightarrow> u64 \<Rightarrow> string \<Rightarrow> string \<Rightarrow> otp_store \<Rightarrow> otp_store \<times> bool" where
  "otp_redeem lower e now email code st =
     (case otp_verify lower e now email code st of
        (st, Ok Otp_Ok) \<Rightarrow>
          (case otp_consume_verified lower e now email st of (st', r) \<Rightarrow> (st', r = Ok True))
      | (st, r) \<Rightarrow> (st, False))"

definition otp_pending :: "otp_store \<Rightarrow> string \<Rightarrow> string option" where
  "otp_pending st k = map_option oe_code (hget (os_entries st) k)"

lemma otp_persist_entries [simp]: "os_entries (fst (otp_persist e st)) = os_entries st"
  by (simp add: otp_persist_def split: prod.splits)

lemma otp_persist_eq: "otp_persist e st = (st', r) \<Longrightarrow> os_entries st' = os_entries st \<and> r \<noteq> Panic"
  by (auto simp: otp_persist_def atomic_write_no_panic split: prod.splits)

text \<open>What a check does to the entries: nothing, one more attempt, or the verified mark.\<close>

lemma otp_verify_cases [consumes 1, case_names Same Wrong Right]:
  assumes "otp_verify lower e now email code st = (st', r)"
  obtains "st' = st" "r \<in> {Ok Otp_Missing, Ok Otp_Expired, Ok Otp_TooManyAttempts}"
      "\<And>entry. hget (os_entries st) (lower email) = Some entry \<Longrightarrow>
         oe_expires_at entry < now \<or> MAX_ATTEMPTS \<le> oe_attempts entry"
  | entry where "hget (os_entries st) (lower email) = Some entry" "now \<le> oe_expires_at entry"
      "oe_attempts entry < MAX_ATTEMPTS" "oe_code entry \<noteq> trim code"
      "os_entries st' = hput (lower email) (entry\<lparr>oe_attempts := oe_attempts entry + 1\<rparr>) (os_entries st)"
      "r = Ok (Otp_WrongCode (sat_sub MAX_ATTEMPTS (oe_attempts entry + 1))) \<or> (\<exists>err. r = Err err)"
  | entry where "hget (os_entries st) (lower email) = Some entry" "now \<le> oe_expires_at entry"
      "oe_attempts entry < MAX_ATTEMPTS" "oe_code entry = trim code"
      "os_entries st' = hput (lower email) (entry\<lparr>oe_verified := True\<rparr>) (os_entries st)"
      "r = Ok Otp_Ok \<or> (\<exists>err. r = Err err)"
proof (cases "hget (os_entries st) (lower email)")
  case None
  with assms that(1) show ?thesis by (auto simp: otp_verify_def)
next
  case (Some entry)
  show ?thesis
  proof (cases "oe_expires_at entry < now \<or> MAX_ATTEMPTS \<le> oe_attempts entry")
    case True
    with assms Some show ?thesis
      by (intro that(1)) (auto simp: otp_verify_def Let_def split: if_splits)
  next
    case live: False
    show ?thesis
    proof (cases "oe_code entry = trim code")
      case True
      obtain st1 u where p: "otp_persist e (st\<lparr>os_entries :=
            hput (lower email) (entry\<lparr>oe_verified := True\<rparr>) (os_entries st)\<rparr>) = (st1, u)"
        by fastforce
      have v: "otp_verify lower e now email code st = (st1, res_map (\<lambda>_. Otp_Ok) u)"
        using Some live True p by (simp add: otp_verify_def)
      from otp_persist_eq [OF p] assms Some live True v show ?thesis
        by (intro that(3) [of entry]) (cases u; auto simp: not_less not_le)+
    next
      case False
      obtain st1 u where p: "otp_persist e (st\<lparr>os_entries :=
            hput (lower email) (entry\<lparr>oe_attempts := oe_attempts entry + 1\<rparr>) (os_entries st)\<rparr>) = (st1, u)"
        by fastforce
      have v: "otp_verify lower e now email code st
          = (st1, res_map (\<lambda>_. Otp_WrongCode (sat_sub MAX_ATTEMPTS (oe_attempts entry + 1))) u)"
        using Some live False p by (simp add: otp_verify_def)
      from otp_persist_eq [OF p] assms Some live False v show ?thesis
        by (intro that(2) [of entry]) (cases u; auto simp: not_less not_le)+
    qed
  qed
qed

lemma otp_consume_cases [consumes 1, case_names No Yes]:
  assumes "otp_consume_verified lower e now email st = (st', r)"
  obtains "st' = st" "r = Ok False"
      "\<And>entry. hget (os_entries st) (lower email) = Some entry \<Longrightarrow> \<not> oe_verified entry \<or> oe_expires_at entry < now"
  | entry where "hget (os_entries st) (lower email) = Some entry" "oe_verified entry" "now \<le> oe_expires_at entry"
      "os_entries st' = hdel (lower email) (os_entries st)"
      "r = Ok True \<or> (\<exists>err. r = Err err)"
proof (cases "\<exists>entry. hget (os_entries st) (lower email) = Some entry \<and> oe_verified entry \<and> now \<le> oe_expires_at entry")
  case True
  then obtain entry where en: "hget (os_entries st) (lower email) = Some entry" "oe_verified entry" "now \<le> oe_expires_at entry"
    by blast
  obtain st1 u where p: "otp_persist e (st\<lparr>os_entries := hdel (lower email) (os_entries st)\<rparr>) = (st1, u)"
    by fastforce
  from otp_persist_eq [OF p] assms en p show ?thesis
    by (intro that(2) [of entry]) (cases u; auto simp: otp_consume_verified_def)+
next
  case False
  with assms show ?thesis
    by (intro that(1)) (auto simp: otp_consume_verified_def Let_def not_le split: option.splits if_splits)
qed

lemma otp_verify_pending:
  "otp_verify lower e now email code st = (st', r) \<Longrightarrow> otp_pending st' k = otp_pending st k"
  by (cases rule: otp_verify_cases) (auto simp: otp_pending_def)

lemma otp_consume_pending:
  "otp_consume_verified lower e now email st = (st', r) \<Longrightarrow> otp_pending st' k = Some c \<Longrightarrow> otp_pending st k = Some c"
  by (cases rule: otp_consume_cases) (auto simp: otp_pending_def split: if_splits)

lemma otp_verify_Ok_pending:
  "otp_verify lower e now email code st = (st', Ok Otp_Ok) \<Longrightarrow> otp_pending st (lower email) = Some (trim code)"
  by (cases rule: otp_verify_cases) (auto simp: otp_pending_def)

lemma otp_redeem_cases [consumes 1, case_names Refused Consumed]:
  assumes "otp_redeem lower e now email code st = (st', b)"
  obtains r where "otp_verify lower e now email code st = (st', r)" "\<not> b"
  | st1 r where "otp_verify lower e now email code st = (st1, Ok Otp_Ok)"
      "otp_consume_verified lower e now email st1 = (st', r)" "b \<longleftrightarrow> r = Ok True"
  using assms that by (auto simp: otp_redeem_def split: prod.splits res.splits otp_check.splits)

lemma otp_issue_entries:
  "os_entries (fst (otp_issue lower e now code email st)) =
     hput (lower email) \<lparr>oe_email = lower email, oe_code = code, oe_expires_at = now + CODE_TTL_SECS,
       oe_attempts = 0, oe_verified = False\<rparr> (os_entries st)"
  by (auto simp: otp_issue_def Let_def dest: otp_persist_eq split: prod.splits)

interpretation otp: one_shot lower "\<lambda>s. True" otp_pending "\<lambda>c answer. c = trim answer"
    "\<lambda>x email code s. fst (otp_issue lower (fst x) (snd x) code email s)"
    "\<lambda>x email answer s. otp_redeem lower (fst x) (snd x) email answer s"
  for lower
proof unfold_locales
  fix x :: "write_env \<times> u64" and email answer s s'
  assume r: "otp_redeem lower (fst x) (snd x) email answer s = (s', True)"
  then obtain s1 where v: "otp_verify lower (fst x) (snd x) email answer s = (s1, Ok Otp_Ok)"
      "otp_consume_verified lower (fst x) (snd x) email s1 = (s', Ok True)"
    by (cases rule: otp_redeem_cases) auto
  from v(2) have "otp_pending s' (lower email) = None"
    by (cases rule: otp_consume_cases) (auto simp: otp_pending_def)
  with otp_verify_Ok_pending [OF v(1)]
  show "\<exists>c. otp_pending s (lower email) = Some c \<and> c = trim answer \<and> otp_pending s' (lower email) = None"
    by simp
next
  fix x :: "write_env \<times> u64" and email answer s s' b k c
  assume "otp_redeem lower (fst x) (snd x) email answer s = (s', b)" and "otp_pending s' k = Some c"
  then show "otp_pending s k = Some c"
    by (cases rule: otp_redeem_cases) (metis otp_verify_pending otp_consume_pending)+
qed (auto simp: otp_pending_def otp_issue_entries)

section \<open>Six digits\<close>

lemma length_nat_to_str: "n < 10 ^ k \<Longrightarrow> 0 < k \<Longrightarrow> length (nat_to_str n) \<le> k"
proof (induction k arbitrary: n)
  case (Suc k)
  show ?case
  proof (cases "n < 10")
    case True
    then show ?thesis by (subst nat_to_str.simps) simp
  next
    case False
    with Suc.prems have "0 < k" and "n div 10 < 10 ^ k"
      by (cases k; auto)+
    with Suc.IH [of "n div 10"] False show ?thesis
      by (subst nat_to_str.simps) simp
  qed
qed simp

lemma format_06_digits: "list_all is_ascii_digit (format_06 n)"
  using nat_to_str_digits [of "unat n"]
  by (auto simp: format_06_def Let_def list_all_iff is_ascii_digit_def)

lemma digit_is_graph: "is_ascii_digit c \<Longrightarrow> is_graph_char c"
  by (simp add: is_ascii_digit_def is_graph_char_def)

lemma trim_format_06 [simp]: "trim (format_06 n) = format_06 n"
  using format_06_digits [of n] by (intro trim_graph) (auto simp: list_all_iff intro: digit_is_graph)

lemma length_format_06: "unat n < 1000000 \<Longrightarrow> length (format_06 n) = 6"
  using length_nat_to_str [of "unat n" 6] by (simp add: format_06_def Let_def)

lemma random_six_digits_bound: "unat (random_six_digits tick nanos pid) < 1000000"
  by (simp add: random_six_digits_def unat_mod)

section \<open>Attempts\<close>

text \<open>A run of checks of one address, each with its time, its guess and its environment.\<close>

fun otp_verify_all ::
  "(string \<Rightarrow> string) \<Rightarrow> string \<Rightarrow> (write_env \<times> u64 \<times> string) list \<Rightarrow> otp_store \<Rightarrow>
   otp_store \<times> otp_check res list" where
  "otp_verify_all lower email [] st = (st, [])"
| "otp_verify_all lower email ((e, now, guess) # gs) st =
     (case otp_verify lower e now email guess st of
        (st', r) \<Rightarrow> (case otp_verify_all lower email gs st' of (st'', rs) \<Rightarrow> (st'', r # rs)))"

text \<open>An entry that can no longer be accepted at any later time.\<close>

definition otp_dead :: "u64 \<Rightarrow> otp_entry \<Rightarrow> bool" where
  "otp_dead now entry \<longleftrightarrow> oe_expires_at entry < now \<or> MAX_ATTEMPTS \<le> oe_attempts entry"

lemma otp_dead_stays:
  assumes "otp_verify_all lower email gs st = (st', rs)"
    and "hget (os_entries st) (lower email) = Some entry" and "otp_dead now entry"
    and "\<forall>(e, t, g) \<in> set gs. now \<le> t"
  shows "Ok Otp_Ok \<notin> set rs"
  using assms
proof (induction gs arbitrary: rs)
  case (Cons g gs)
  obtain e t guess where g: "g = (e, t, guess)" by (cases g)
  obtain st1 r where v: "otp_verify lower e t email guess st = (st1, r)" by fastforce
  have dead: "oe_expires_at entry < t \<or> MAX_ATTEMPTS \<le> oe_attempts entry"
    using Cons.prems(3,4) g by (auto simp: otp_dead_def)
  have "st1 = st \<and> r \<noteq> Ok Otp_Ok"
    using v dead Cons.prems(2) by (cases rule: otp_verify_cases) auto
  moreover obtain rs1 where "otp_verify_all lower email gs st1 = (st', rs1)" "rs = r # rs1"
    using Cons.prems(1) g v by (auto split: prod.splits)
  ultimately show ?case using Cons.IH [of rs1] Cons.prems(2-4) by auto
qed simp

lemma otp_guesses:
  assumes "otp_verify_all lower email gs st = (st', rs)"
    and "hget (os_entries st) (lower email) = Some entry"
    and "sorted (map (\<lambda>(e, t, g). t) gs)"
    and "\<forall>(e, t, g) \<in> set (take (unat MAX_ATTEMPTS - unat (oe_attempts entry)) gs). trim g \<noteq> oe_code entry"
  shows "Ok Otp_Ok \<notin> set rs"
  using assms
proof (induction gs arbitrary: st entry rs)
  case (Cons g gs)
  obtain e t guess where g: "g = (e, t, guess)" by (cases g)
  obtain st1 r where v: "otp_verify lower e t email guess st = (st1, r)" by fastforce
  obtain rs1 where rs1: "otp_verify_all lower email gs st1 = (st', rs1)" "rs = r # rs1"
    using Cons.prems(1) g v by (auto split: prod.splits)
  have later: "\<forall>(e, t', g) \<in> set (g # gs). t \<le> t'" using Cons.prems(3) g by auto
  show ?case
  proof (cases "otp_dead t entry")
    case True
    then show ?thesis using otp_dead_stays [OF Cons.prems(1,2) _ later] by simp
  next
    case False
    then have att: "oe_attempts entry < MAX_ATTEMPTS" by (simp add: otp_dead_def not_le)
    then have pos: "0 < unat MAX_ATTEMPTS - unat (oe_attempts entry)" by (simp add: word_less_nat_alt)
    then have ne: "trim guess \<noteq> oe_code entry"
      using Cons.prems(4) g by (cases "unat MAX_ATTEMPTS - unat (oe_attempts entry)") auto
    let ?en = "entry\<lparr>oe_attempts := oe_attempts entry + 1\<rparr>"
    from v have st1: "r \<noteq> Ok Otp_Ok \<and> hget (os_entries st1) (lower email) = Some ?en"
      using False Cons.prems(2) ne by (cases rule: otp_verify_cases) (auto simp: otp_dead_def)
    have "unat MAX_ATTEMPTS - unat (oe_attempts entry)
        = Suc (unat MAX_ATTEMPTS - unat (oe_attempts ?en))"
      using att pos by (simp add: unat_inc)
    then have "\<forall>(e, t, g) \<in> set (take (unat MAX_ATTEMPTS - unat (oe_attempts ?en)) gs). trim g \<noteq> oe_code ?en"
      using Cons.prems(4) by simp
    then have "Ok Otp_Ok \<notin> set rs1"
      using Cons.IH [OF rs1(1)] st1 Cons.prems(3) by simp
    with st1 rs1(2) show ?thesis by auto
  qed
qed simp

section \<open>Properties\<close>

text \<open>
  C12. One acceptance per issued code: whatever codes are requested and whatever is tried, at
  whatever times and whichever writes fail, the number of accepted redemptions for an address
  is at most the number of codes issued for it, plus one if a code was outstanding before.
\<close>

theorem otp_single_use:
  "run_codes lower (\<lambda>x email code s. fst (otp_issue lower (fst x) (snd x) code email s))
       (\<lambda>x email answer s. otp_redeem lower (fst x) (snd x) email answer s) es s = (s', ks) \<Longrightarrow>
     count_list ks k \<le> (if hget (os_entries s) k = None then 0 else 1) + issued_for lower k es"
  using otp.accepted_at_most_issued [of lower es s s' ks k] by (simp add: otp_pending_def)

definition demo_otp :: otp_store where
  "demo_otp = \<lparr>os_entries = [], os_disk = \<lparr>dk_file = None, dk_mirror = None\<rparr>\<rparr>"

definition demo_history :: "(write_env \<times> u64) code_event list" where
  "demo_history =
     [Issue_Code (we_all_ok, 100) ''Ada@x.org'' ''123456'',
      Redeem_Code (we_all_ok, 160) ''ada@x.org'' '' 123456'',
      Redeem_Code (we_all_ok, 161) ''ada@x.org'' ''123456'']"

theorem otp_single_use_witness:
  "count_list (snd (run_codes to_ascii_lowercase
       (\<lambda>x email code s. fst (otp_issue to_ascii_lowercase (fst x) (snd x) code email s))
       (\<lambda>x email answer s. otp_redeem to_ascii_lowercase (fst x) (snd x) email answer s)
       demo_history demo_otp)) ''ada@x.org'' \<le> 1"
proof -
  have "issued_for to_ascii_lowercase ''ada@x.org'' demo_history = 1" by code_simp
  then show ?thesis
    using otp_single_use [of to_ascii_lowercase demo_history demo_otp _ _ "''ada@x.org''", OF surjective_pairing]
    by (simp add: demo_otp_def)
qed

text \<open>
  C15. Five guesses: after a code is issued, if none of the first five guesses is the code then
  no guess at all is accepted, however many follow and whichever writes fail.
\<close>

theorem otp_five_guesses:
  assumes "otp_issue lower e now code email st = (st0, r)"
    and "otp_verify_all lower email gs st0 = (st', rs)"
    and "sorted (map (\<lambda>(e, t, g). t) gs)"
    and "\<forall>(e, t, g) \<in> set (take 5 gs). trim g \<noteq> code"
  shows "Ok Otp_Ok \<notin> set rs"
proof -
  let ?en = "\<lparr>oe_email = lower email, oe_code = code, oe_expires_at = now + CODE_TTL_SECS,
       oe_attempts = 0, oe_verified = False\<rparr>"
  have "hget (os_entries st0) (lower email) = Some ?en"
    using otp_issue_entries [of lower e now code email st] assms(1) by simp
  moreover have "unat MAX_ATTEMPTS - unat (oe_attempts ?en) = 5"
    by (simp add: MAX_ATTEMPTS_def)
  ultimately show ?thesis using otp_guesses [OF assms(2) _ assms(3), of ?en] assms(4) by simp
qed

definition demo_guesses :: "(write_env \<times> u64 \<times> string) list" where
  "demo_guesses = map (\<lambda>g. (we_all_ok, 110, g))
     [''1'', ''2'', ''3'', ''4'', ''5'', ''123456'', ''123456'']"

theorem otp_five_guesses_witness:
  "Ok Otp_Ok \<notin> set (snd (otp_verify_all to_ascii_lowercase ''a@x'' demo_guesses
     (fst (otp_issue to_ascii_lowercase we_all_ok 100 ''123456'' ''a@x'' demo_otp))))"
proof -
  have "list_all is_graph_char g \<Longrightarrow> trim g = g" for g by simp
  then have "\<forall>(e, t, g) \<in> set (take 5 demo_guesses). trim g \<noteq> ''123456''"
    by (simp add: demo_guesses_def is_graph_char_def)
  moreover have "sorted (map (\<lambda>(e, t, g). t) demo_guesses)" by (simp add: demo_guesses_def)
  ultimately show ?thesis
    using otp_five_guesses [OF surjective_pairing surjective_pairing, of demo_guesses "''123456''"
        to_ascii_lowercase "''a@x''" we_all_ok 100 demo_otp] by blast
qed

text \<open>
  The life of a code: a generated code is six digits; typed within ten minutes, with blanks
  around it or not, it is accepted and consumed once; then it is unknown. After ten minutes it
  has expired.
\<close>

theorem otp_roundtrip:
  assumes "code = otp_new_code tick nanos pid"
    and "otp_issue lower we_all_ok now code email st = (st1, r1)"
    and "now \<le> now + CODE_TTL_SECS"
    and "otp_verify lower we_all_ok t guess_email guess st1 = (st2, r2)"
    and "lower guess_email = lower email" and "trim guess = code"
    and "otp_consume_verified lower we_all_ok t guess_email st2 = (st3, r3)"
  shows "length code = 6 \<and> list_all is_ascii_digit code \<and> r1 = Ok code
    \<and> (t \<le> now + CODE_TTL_SECS \<longrightarrow>
         r2 = Ok Otp_Ok \<and> r3 = Ok True
         \<and> otp_verify lower we_all_ok t guess_email guess st3 = (st3, Ok Otp_Missing)
         \<and> otp_consume_verified lower we_all_ok t guess_email st3 = (st3, Ok False))
    \<and> (now + CODE_TTL_SECS < t \<longrightarrow> r2 = Ok Otp_Expired \<and> r3 = Ok False)"
proof -
  let ?k = "lower email"
  have code: "length code = 6" "list_all is_ascii_digit code"
    by (simp_all add: assms(1) otp_new_code_def format_06_digits length_format_06 random_six_digits_bound)
  have r1: "r1 = Ok code" and e1: "hget (os_entries st1) ?k
      = Some \<lparr>oe_email = ?k, oe_code = code, oe_expires_at = now + CODE_TTL_SECS,
              oe_attempts = 0, oe_verified = False\<rparr>"
    using assms(2) by (auto simp: otp_issue_def otp_persist_def Let_def)
  show ?thesis
  proof (cases "t \<le> now + CODE_TTL_SECS")
    case True
    then have v: "r2 = Ok Otp_Ok" "hget (os_entries st2) ?k
        = Some \<lparr>oe_email = ?k, oe_code = code, oe_expires_at = now + CODE_TTL_SECS,
                oe_attempts = 0, oe_verified = True\<rparr>"
      using assms(4,5,6) e1
      by (auto simp: otp_verify_def otp_persist_def Let_def MAX_ATTEMPTS_def not_less [symmetric])
    with assms(5,7) True have c: "r3 = Ok True" "hget (os_entries st3) ?k = None"
      by (auto simp: otp_consume_verified_def otp_persist_def Let_def)
    have "otp_verify lower we_all_ok t guess_email guess st3 = (st3, Ok Otp_Missing)"
      "otp_consume_verified lower we_all_ok t guess_email st3 = (st3, Ok False)"
      using c(2) assms(5) by (simp_all add: otp_verify_def otp_consume_verified_def)
    with True v(1) c(1) r1 code show ?thesis by (simp add: not_less)
  next
    case False
    with assms(4,5) e1 have v: "r2 = Ok Otp_Expired" "st2 = st1"
      by (auto simp: otp_verify_def not_le)
    with assms(5,7) e1 have "r3 = Ok False"
      by (auto simp: otp_consume_verified_def)
    with False v(1) r1 code show ?thesis by simp
  qed
qed

theorem otp_roundtrip_witness:
  "snd (otp_verify id we_all_ok 160 ''a@x'' (otp_new_code 0 1000 4242)
     (fst (otp_issue id we_all_ok 100 (otp_new_code 0 1000 4242) ''a@x'' demo_otp))) = Ok Otp_Ok"
  using otp_roundtrip [of "otp_new_code 0 1000 4242" 0 1000 4242 id 100 "''a@x''" demo_otp _ _ 160 "''a@x''"
      "otp_new_code 0 1000 4242", OF refl surjective_pairing _ surjective_pairing _ _ surjective_pairing]
  by (simp add: otp_new_code_def CODE_TTL_SECS_def)

text \<open>
  Consuming a code takes it out of memory first: when the write fails the caller gets an
  error, but the file keeps the code, so a restart of the server brings it back.
\<close>

theorem otp_consumed_code_returns:
  assumes "otp_verify lower we_all_ok t email guess st = (st1, Ok Otp_Ok)"
    and "otp_consume_verified lower we_disk_full t email st1 = (st2, r)"
    and "dk_file (os_disk st2) = Some file"
  shows "(\<exists>err. r = Err err) \<and> hget (os_entries st2) (lower email) = None
    \<and> snd (otp_consume_verified lower we_all_ok t email (otp_store_new (Contents file) (os_disk st2))) = Ok True"
proof -
  from assms(1) obtain entry where en: "hget (os_entries st) (lower email) = Some entry"
      "t \<le> oe_expires_at entry" "oe_code entry = trim guess" "oe_attempts entry < MAX_ATTEMPTS"
    by (cases rule: otp_verify_cases) auto
  let ?es = "hput (lower email) (entry\<lparr>oe_verified := True\<rparr>) (os_entries st)"
  have st1: "os_entries st1 = ?es \<and> dk_file (os_disk st1) = Some ?es"
    using assms(1) en by (auto simp: otp_verify_def otp_persist_def Let_def not_le [symmetric])
  with assms(2) en have "(\<exists>err. r = Err err) \<and> os_entries st2 = hdel (lower email) ?es \<and> os_disk st2 = os_disk st1"
    by (auto simp: otp_consume_verified_def otp_persist_def Let_def)
  moreover from this st1 assms(3) have "hget file (lower email) = Some (entry\<lparr>oe_verified := True\<rparr>)"
    by auto
  ultimately show ?thesis using en
    by (auto simp: otp_consume_verified_def otp_store_new_def otp_persist_def Let_def)
qed

theorem otp_consumed_code_returns_witness:
  "let st = fst (otp_issue id we_all_ok 100 ''123456'' ''a@x'' demo_otp);
       st1 = fst (otp_verify id we_all_ok 160 ''a@x'' ''123456'' st);
       st2 = fst (otp_consume_verified id we_disk_full 160 ''a@x'' st1)
   in hget (os_entries st2) ''a@x'' = None"
proof -
  define st where "st = fst (otp_issue id we_all_ok 100 ''123456'' ''a@x'' demo_otp)"
  define st1 where "st1 = fst (otp_verify id we_all_ok 160 ''a@x'' ''123456'' st)"
  define st2 where "st2 = fst (otp_consume_verified id we_disk_full 160 ''a@x'' st1)"
  have tr: "trim ''123456'' = ''123456''" by (rule trim_graph) (simp add: is_graph_char_def)
  have "otp_verify id we_all_ok 160 ''a@x'' ''123456'' st = (st1, Ok Otp_Ok)"
    by (simp add: st1_def st_def otp_issue_def otp_persist_def otp_verify_def demo_otp_def
        CODE_TTL_SECS_def MAX_ATTEMPTS_def tr Let_def)
  moreover have "dk_file (os_disk st2) \<noteq> None"
    by (simp add: st2_def st1_def st_def otp_issue_def otp_persist_def otp_verify_def demo_otp_def
        otp_consume_verified_def CODE_TTL_SECS_def MAX_ATTEMPTS_def tr Let_def)
  ultimately have "hget (os_entries st2) ''a@x'' = None"
    using otp_consumed_code_returns [of id 160 "''a@x''" "''123456''" st st1 st2]
    by (auto simp: st2_def prod_eq_iff)
  then show ?thesis by (simp add: st_def st1_def st2_def Let_def)
qed

text \<open>
  A captcha answer can be given once, in any case and with blanks around it, and only in
  the sixty seconds after it was issued; other addresses' answers stay.
\<close>

theorem captcha_life:
  assumes "captcha_wf s" and "captcha_issue_at email code now s = (s1, shown)"
    and "to_ascii_lowercase who = to_ascii_lowercase email"
    and "captcha_verify_at who answer t s1 = (s2, b)" and "captcha_verify_at who answer t' s2 = (s3, b')"
  shows "(b \<longleftrightarrow> unat t - unat now < 60000 \<and> eq_ignore_ascii_case code (trim answer))
    \<and> shown = to_ascii_uppercase code
    \<and> (b \<longrightarrow> \<not> b')
    \<and> (\<forall>k. k \<noteq> to_ascii_lowercase email \<longrightarrow> hget s2 k = hget s1 k)"
proof -
  let ?k = "to_ascii_lowercase email"
  have e1: "hget s1 ?k = Some \<lparr>ce_code = to_ascii_uppercase code, ce_issued_ms = now\<rparr>"
    and shown: "shown = to_ascii_uppercase code"
    using assms(2) by (auto simp: captcha_issue_at_def Let_def)
  have old: "expired \<lparr>ce_code = c, ce_issued_ms = now\<rparr> t \<longleftrightarrow> \<not> unat t - unat now < 60000" for c
    by (auto simp: expired_def CAPTCHA_TTL_SECONDS_def word_le_nat_alt unat_sat_sub)
  have same: "eq_ignore_ascii_case (to_ascii_uppercase code) x \<longleftrightarrow> eq_ignore_ascii_case code x" for x
    by (simp add: eq_ignore_ascii_case_def)
  have b: "b \<longleftrightarrow> unat t - unat now < 60000 \<and> eq_ignore_ascii_case code (trim answer)"
    using assms(3,4) e1 old same by (auto simp: captcha_verify_at_def Let_def split: if_splits)
  have once: "b \<Longrightarrow> \<not> b'"
    using assms(3,4,5) by (cases b'; cases b) (auto simp: captcha_verify_True)
  have others: "k \<noteq> ?k \<Longrightarrow> hget s2 k = hget s1 k" for k
    using captcha_verify_cases [OF assms(4)] assms(3) by auto
  show ?thesis using b once others shown by blast
qed

theorem captcha_life_witness:
  "snd (captcha_verify_at ''ADA@x'' '' a7k2'' 59000 (fst (captcha_issue_at ''ada@x'' ''A7K2'' 1000 [])))"
proof -
  have "eq_ignore_ascii_case ''A7K2'' (trim '' a7k2'')"
    and "to_ascii_lowercase ''ADA@x'' = to_ascii_lowercase ''ada@x''" by code_simp+
  then show ?thesis
    using captcha_life [of "[]" "''ada@x''" "''A7K2''" 1000 _ _ "''ADA@x''" "'' a7k2''" 59000,
        OF _ surjective_pairing _ surjective_pairing surjective_pairing]
    by (simp add: captcha_wf_def)
qed

text \<open>
  Two reset codes drawn in the same second by the same process can be equal, although the
  counter between them has advanced.
\<close>

theorem otp_codes_can_collide:
  "otp_new_code 0 1000 4242 = otp_new_code 1 1299447 4242"
  by (simp add: otp_new_code_def random_six_digits_def)

end
