(* ===== verification/Rust_F64.thy ===== *)
theory Rust_F64
  imports Complex_Main Rust_Str "HOL-Library.Log_Nat"
begin

text \<open>
  \<open>f64\<close> arithmetic. A finite value is a sign bit and an exact rational magnitude; every operation
  computes the exact result and rounds it once, to the nearest double, ties to even: 53 bits of
  significand, the least exponent \<open>-1074\<close>, infinity from \<open>2\<^sup>1\<^sup>0\<^sup>2\<^sup>4\<close> on.
\<close>

section \<open>Values\<close>

datatype f64 = FFin bool rat | FInf bool | FNaN

fun fval :: "f64 \<Rightarrow> rat" where
  "fval (FFin s q) = (if s then - q else q)"
| "fval _ = 0"

fun f64_is_finite :: "f64 \<Rightarrow> bool" where
  "f64_is_finite (FFin s q) = True"
| "f64_is_finite _ = False"

section \<open>Rounding\<close>

definition pow2 :: "int \<Rightarrow> rat" where
  "pow2 k = (if 0 \<le> k then 2 ^ nat k else 1 / 2 ^ nat (- k))"

fun log2_nat :: "nat \<Rightarrow> nat" where
  "log2_nat n = (if n < 2 then 0 else Suc (log2_nat (n div 2)))"

declare log2_nat.simps [simp del]

text \<open>The exponent of a positive rational: \<open>2\<^sup>e \<le> q < 2\<^sup>e\<^sup>+\<^sup>1\<close>.\<close>

definition exponent_of :: "rat \<Rightarrow> int" where
  "exponent_of q =
     (case quotient_of q of
        (n, d) \<Rightarrow> let k = int (log2_nat (nat n)) - int (log2_nat (nat d))
                  in if pow2 k \<le> q then k else k - 1)"

text \<open>To the nearest integer, ties to even.\<close>

definition round_even :: "rat \<Rightarrow> int" where
  "round_even q =
     (let k = floor q; r = q - of_int k
      in if r < 1 / 2 then k else if 1 / 2 < r then k + 1 else if even k then k else k + 1)"

definition f64_round :: "bool \<Rightarrow> rat \<Rightarrow> f64" where
  "f64_round s q =
     (if q = 0 then FFin s 0
      else let u = pow2 (max (exponent_of q - 52) (- 1074));
               m = of_int (round_even (q / u)) * u
           in if pow2 1024 \<le> m then FInf s else FFin s m)"

text \<open>A signed exact result; \<open>s\<close> is the sign of a zero.\<close>

definition f64_of_rat :: "bool \<Rightarrow> rat \<Rightarrow> f64" where
  "f64_of_rat s v = (if v = 0 then FFin s 0 else f64_round (v < 0) \<bar>v\<bar>)"

section \<open>Arithmetic\<close>

fun f64_neg :: "f64 \<Rightarrow> f64" where
  "f64_neg (FFin s q) = FFin (\<not> s) q"
| "f64_neg (FInf s) = FInf (\<not> s)"
| "f64_neg FNaN = FNaN"

fun f64_abs :: "f64 \<Rightarrow> f64" where
  "f64_abs (FFin s q) = FFin False q"
| "f64_abs (FInf s) = FInf False"
| "f64_abs FNaN = FNaN"

fun f64_add :: "f64 \<Rightarrow> f64 \<Rightarrow> f64" where
  "f64_add (FFin s p) (FFin t q) = f64_of_rat (s \<and> t) (fval (FFin s p) + fval (FFin t q))"
| "f64_add (FInf s) (FInf t) = (if s = t then FInf s else FNaN)"
| "f64_add (FInf s) (FFin t q) = FInf s"
| "f64_add (FFin s p) (FInf t) = FInf t"
| "f64_add _ _ = FNaN"

definition f64_sub :: "f64 \<Rightarrow> f64 \<Rightarrow> f64" where
  "f64_sub a b = f64_add a (f64_neg b)"

fun f64_mul :: "f64 \<Rightarrow> f64 \<Rightarrow> f64" where
  "f64_mul (FFin s p) (FFin t q) = f64_round (s \<noteq> t) (p * q)"
| "f64_mul (FInf s) (FInf t) = FInf (s \<noteq> t)"
| "f64_mul (FInf s) (FFin t q) = (if q = 0 then FNaN else FInf (s \<noteq> t))"
| "f64_mul (FFin s p) (FInf t) = (if p = 0 then FNaN else FInf (s \<noteq> t))"
| "f64_mul _ _ = FNaN"

fun f64_div :: "f64 \<Rightarrow> f64 \<Rightarrow> f64" where
  "f64_div (FFin s p) (FFin t q) =
     (if q = 0 then (if p = 0 then FNaN else FInf (s \<noteq> t)) else f64_round (s \<noteq> t) (p / q))"
| "f64_div (FInf s) (FFin t q) = FInf (s \<noteq> t)"
| "f64_div (FFin s p) (FInf t) = FFin (s \<noteq> t) 0"
| "f64_div _ _ = FNaN"

text \<open>Roundings to an integer keep infinities and the sign of a zero.\<close>

fun f64_to_integral :: "(rat \<Rightarrow> int) \<Rightarrow> f64 \<Rightarrow> f64" where
  "f64_to_integral r (FFin s q) = f64_of_rat s (of_int (r (fval (FFin s q))))"
| "f64_to_integral r x = x"

definition f64_floor :: "f64 \<Rightarrow> f64" where "f64_floor = f64_to_integral floor"

definition f64_round_ties_even :: "f64 \<Rightarrow> f64" where "f64_round_ties_even = f64_to_integral round_even"

definition rat_trunc :: "rat \<Rightarrow> int" where
  "rat_trunc v = (if v < 0 then - floor (- v) else floor v)"

definition f64_fract :: "f64 \<Rightarrow> f64" where
  "f64_fract x = f64_sub x (f64_to_integral rat_trunc x)"

section \<open>Comparison\<close>

datatype ordering = Less | Equal | Greater

definition rat_cmp :: "rat \<Rightarrow> rat \<Rightarrow> ordering" where
  "rat_cmp a b = (if a < b then Less else if a = b then Equal else Greater)"

text \<open>\<open>partial_cmp\<close>: \<open>None\<close> when one is not a number.\<close>

fun f64_cmp :: "f64 \<Rightarrow> f64 \<Rightarrow> ordering option" where
  "f64_cmp FNaN _ = None"
| "f64_cmp _ FNaN = None"
| "f64_cmp (FInf s) (FInf t) = Some (if s = t then Equal else if s then Less else Greater)"
| "f64_cmp (FInf s) (FFin t q) = Some (if s then Less else Greater)"
| "f64_cmp (FFin s p) (FInf t) = Some (if t then Greater else Less)"
| "f64_cmp (FFin s p) (FFin t q) = Some (rat_cmp (fval (FFin s p)) (fval (FFin t q)))"

definition f64_is_zero :: "f64 \<Rightarrow> bool" where
  "f64_is_zero x \<longleftrightarrow> f64_cmp x (FFin False 0) = Some Equal"

section \<open>Conversions\<close>

type_synonym i64 = "64 word"

text \<open>\<open>n as f64\<close>, and \<open>x as i64\<close>, which saturates.\<close>

definition f64_of_int :: "int \<Rightarrow> f64" where
  "f64_of_int n = f64_of_rat False (of_int n)"

definition i64_clamp :: "int \<Rightarrow> int" where
  "i64_clamp k = max (- (2 ^ 63)) (min (2 ^ 63 - 1) k)"

fun f64_to_int :: "f64 \<Rightarrow> int" where
  "f64_to_int (FFin s q) = i64_clamp (rat_trunc (fval (FFin s q)))"
| "f64_to_int (FInf s) = (if s then - (2 ^ 63) else 2 ^ 63 - 1)"
| "f64_to_int FNaN = 0"

text \<open>\<open>s.parse::<f64>()\<close>: an optional sign, then digits with an optional point and exponent, or
  one of the names of the special values.\<close>

definition split_sign :: "string \<Rightarrow> bool \<times> string" where
  "split_sign s =
     (case s of [] \<Rightarrow> (False, [])
      | c # t \<Rightarrow> if c = CHR ''-'' then (True, t) else if c = CHR ''+'' then (False, t) else (False, s))"

definition parse_exponent :: "string \<Rightarrow> int option" where
  "parse_exponent s =
     (case s of
        [] \<Rightarrow> Some 0
      | c # t \<Rightarrow>
          if c \<noteq> CHR ''e'' \<and> c \<noteq> CHR ''E'' then None
          else case split_sign t of
                 (neg, ds) \<Rightarrow> if ds = [] \<or> \<not> list_all is_ascii_digit ds then None
                              else Some (if neg then - int (digits_value ds) else int (digits_value ds)))"

definition pow10 :: "int \<Rightarrow> rat" where
  "pow10 k = (if 0 \<le> k then 10 ^ nat k else 1 / 10 ^ nat (- k))"

definition parse_f64 :: "string \<Rightarrow> f64 option" where
  "parse_f64 s =
     (case split_sign s of
        (neg, t) \<Rightarrow>
          let ip = takeWhile is_ascii_digit t; r = dropWhile is_ascii_digit t;
              (fp, r) = (case r of c # r' \<Rightarrow> if c = CHR ''.'' then (takeWhile is_ascii_digit r', dropWhile is_ascii_digit r')
                                              else ([], r)
                         | [] \<Rightarrow> ([], []))
          in if ip = [] \<and> fp = []
             then (let l = to_ascii_lowercase t
                   in if l = ''inf'' \<or> l = ''infinity'' then Some (FInf neg)
                      else if l = ''nan'' then Some FNaN else None)
             else map_option (\<lambda>e. f64_round neg (of_nat (digits_value (ip @ fp)) * pow10 (e - int (length fp))))
                    (parse_exponent r))"

text \<open>\<open>n.to_string()\<close> for a signed integer, and \<open>format!("{x:.6}")\<close>.\<close>

definition int_to_str :: "int \<Rightarrow> string" where
  "int_to_str k = (if k < 0 then ''-'' @ nat_to_str (nat (- k)) else nat_to_str (nat k))"

definition pad_zeros :: "nat \<Rightarrow> string \<Rightarrow> string" where
  "pad_zeros n s = replicate (n - length s) (CHR ''0'') @ s"

fun format_6 :: "f64 \<Rightarrow> string" where
  "format_6 FNaN = ''NaN''"
| "format_6 (FInf s) = (if s then ''-inf'' else ''inf'')"
| "format_6 (FFin s q) =
     (let m = nat (round_even (q * 10 ^ 6))
      in (if s then ''-'' else []) @ nat_to_str (m div 10 ^ 6) @ ''.'' @ pad_zeros 6 (nat_to_str (m mod 10 ^ 6)))"

section \<open>Facts\<close>

lemma f64_round_finite_or_inf: "f64_round s q \<noteq> FNaN"
  by (simp add: f64_round_def Let_def)

lemma round_even_of_int [simp]: "round_even (of_int k) = k"
  by (simp add: round_even_def)

lemma pow2_pos [simp]: "0 < pow2 k"
  by (simp add: pow2_def)

lemma pow2_ne [simp]: "pow2 k \<noteq> 0"
  using pow2_pos [of k] by (metis less_irrefl)

lemma log2_nat_bounds: "0 < n \<Longrightarrow> 2 ^ log2_nat n \<le> n \<and> n < 2 ^ Suc (log2_nat n)"
proof (induction n rule: log2_nat.induct)
  case (1 n)
  show ?case
  proof (cases "n < 2")
    case True
    with 1 have "n = 1" by simp
    then show ?thesis by (simp add: log2_nat.simps)
  next
    case False
    then have "2 ^ log2_nat (n div 2) \<le> n div 2 \<and> n div 2 < 2 ^ Suc (log2_nat (n div 2))"
      using 1 by auto
    moreover have "log2_nat n = Suc (log2_nat (n div 2))"
      by (subst log2_nat.simps) (simp only: False if_False)
    ultimately show ?thesis by (simp only: power_Suc) linarith
  qed
qed

text \<open>An integer below \<open>2\<^sup>5\<^sup>3\<close> is a double.\<close>

lemma exponent_of_nat:
  assumes "0 < n"
  shows "exponent_of (of_nat n) = int (log2_nat n)"
proof -
  have "(of_nat n :: rat) = Rat.of_int (int n)" by (simp add: Rat.of_int_def)
  then have "quotient_of (of_nat n) = (int n, 1)" by (simp only: quotient_of_int)
  moreover have "log2_nat 1 = 0" by (simp add: log2_nat.simps)
  moreover have "pow2 (int (log2_nat n)) \<le> of_nat n"
  proof -
    have "(of_nat (2 ^ log2_nat n) :: rat) \<le> of_nat n"
      using log2_nat_bounds [OF assms] by (subst of_nat_le_iff) simp
    then show ?thesis by (simp add: pow2_def)
  qed
  ultimately show ?thesis by (simp add: exponent_of_def)
qed

lemma f64_round_nat:
  assumes "n < 2 ^ 53"
  shows "f64_round s (of_nat n) = FFin s (of_nat n)"
proof (cases "n = 0")
  case False
  then have n: "0 < n" by simp
  let ?e = "log2_nat n"
  have "(2::nat) ^ ?e < 2 ^ 53"
    using log2_nat_bounds [OF n] assms by (elim conjE) (rule le_less_trans)
  then have e: "?e < 53" by (simp only: power_strict_increasing_iff)
  have u: "pow2 (max (exponent_of (of_nat n) - 52) (- 1074)) = 1 / 2 ^ (52 - ?e)"
  proof -
    have "max (int ?e - 52) (- 1074) = - int (52 - ?e)" using e by simp
    then show ?thesis using e by (cases "52 - ?e = 0") (simp_all add: exponent_of_nat [OF n] pow2_def)
  qed
  have "(of_nat n :: rat) / (1 / 2 ^ (52 - ?e)) = of_int (int n * 2 ^ (52 - ?e))" by simp
  then have m: "of_int (round_even (of_nat n / (1 / 2 ^ (52 - ?e)))) * (1 / 2 ^ (52 - ?e)) = (of_nat n :: rat)"
    by (simp only: round_even_of_int) simp
  have "(of_nat n :: rat) < pow2 1024"
  proof -
    have "(of_nat n :: rat) < of_nat (2 ^ 53)" using assms by (subst of_nat_less_iff)
    also have "\<dots> = 2 ^ 53" by simp
    also have "\<dots> \<le> pow2 1024" unfolding pow2_def by simp
    finally show ?thesis .
  qed
  then show ?thesis
    unfolding f64_round_def u Let_def m using n by simp
qed (simp add: f64_round_def)

lemma f64_of_int_exact:
  assumes "\<bar>k\<bar> < 2 ^ 53"
  shows "f64_of_int k = FFin (k < 0) \<bar>of_int k\<bar>"
proof -
  have "(\<bar>of_int k\<bar> :: rat) = of_nat (nat \<bar>k\<bar>)" by simp
  moreover have "nat \<bar>k\<bar> < 2 ^ 53" using assms by (simp add: nat_less_iff)
  ultimately show ?thesis
    using f64_round_nat [of "nat \<bar>k\<bar>"] by (simp add: f64_of_int_def f64_of_rat_def)
qed

lemma fval_f64_of_int: "\<bar>k\<bar> < 2 ^ 53 \<Longrightarrow> fval (f64_of_int k) = of_int k"
  by (simp add: f64_of_int_exact)

lemma f64_cmp_of_int:
  assumes "\<bar>a\<bar> < 2 ^ 53" and "\<bar>b\<bar> < 2 ^ 53"
  shows "f64_cmp (f64_of_int a) (f64_of_int b) = Some (if a < b then Less else if a = b then Equal else Greater)"
  using fval_f64_of_int [OF assms(1)] fval_f64_of_int [OF assms(2)]
  by (simp add: f64_of_int_exact [OF assms(1)] f64_of_int_exact [OF assms(2)] rat_cmp_def)

end
