(* ===== verification/Rust_Json.thy ===== *)
theory Rust_Json
  imports Rust_F64
begin

text \<open>
  The values of the \<open>serde_json\<close> crate, as its documentation gives them, with the accessors the
  program uses. Reading and printing JSON text is the crate's and stays a parameter of the
  operations that do it. The order of an object's members is that of its list.
\<close>

datatype json_num = PosInt nat | NegInt int | FloatNum f64

datatype json =
    JNull
  | JBool bool
  | JNum json_num
  | JStr string
  | JArr "json list"
  | JObj "(string \<times> json) list"

definition json_get :: "string \<Rightarrow> json \<Rightarrow> json option" where
  "json_get key v = (case v of JObj ms \<Rightarrow> hget ms key | _ \<Rightarrow> None)"

lemma json_get_JObj [simp]: "json_get key (JObj ms) = hget ms key"
  by (simp add: json_get_def)

definition as_array :: "json \<Rightarrow> json list option" where
  "as_array v = (case v of JArr vs \<Rightarrow> Some vs | _ \<Rightarrow> None)"

definition as_str :: "json \<Rightarrow> string option" where
  "as_str v = (case v of JStr s \<Rightarrow> Some s | _ \<Rightarrow> None)"

definition as_bool :: "json \<Rightarrow> bool option" where
  "as_bool v = (case v of JBool b \<Rightarrow> Some b | _ \<Rightarrow> None)"

definition as_u64 :: "json \<Rightarrow> nat option" where
  "as_u64 v = (case v of JNum (PosInt n) \<Rightarrow> Some n | _ \<Rightarrow> None)"

definition as_f64 :: "json \<Rightarrow> f64 option" where
  "as_f64 v =
     (case v of
        JNum (PosInt n) \<Rightarrow> Some (f64_of_int (int n))
      | JNum (NegInt k) \<Rightarrow> Some (f64_of_int k)
      | JNum (FloatNum x) \<Rightarrow> Some x
      | _ \<Rightarrow> None)"

text \<open>\<open>Value::from(n)\<close> for a signed integer.\<close>

definition json_of_int :: "int \<Rightarrow> json" where
  "json_of_int k = JNum (if k < 0 then NegInt k else PosInt (nat k))"

end
