(* ===== verification/Registration.thy ===== *)
theory Registration
  imports Users_Spec Whitelist One_Time_Codes Rust_Json
begin

text \<open>
  How accounts come to be: the sign-up endpoint \<open>user_add\<close> of \<^verbatim>\<open>src/server.rs\<close> with the
  checks of \<^verbatim>\<open>src/user_register.rs\<close>, and the OAuth callback of \<^verbatim>\<open>src/api/system.rs\<close> with the
  single-use states of \<^verbatim>\<open>src/oauth_config.rs\<close>. The OAuth provider is a parameter, as is
  the class \<open>\w\<close> of the \<open>regex\<close> crate: a predicate on the encoding of a character.
\<close>

section \<open>Requests and replies\<close>

definition json_str :: "json option \<Rightarrow> string option" where
  "json_str v = Option.bind v as_str"

lemma json_str_simps [simp]: "json_str (Some (JStr s)) = Some s" "json_str None = None"
  by (simp_all add: json_str_def as_str_def)

text \<open>A handler answers with a status, a code and a message, or with its data; \<open>Crashed\<close> is a panic.\<close>

datatype 'a reply = Rejected nat int string | Accepted 'a | Crashed

section \<open>Validation\<close>

definition ARGUMENT_ERROR :: int where "ARGUMENT_ERROR = 101"
definition EXCEPTION_ERROR :: int where "EXCEPTION_ERROR = 100"
definition OPERATING_ERROR :: int where "OPERATING_ERROR = 103"

definition REGISTRATION_DISABLED_MESSAGE :: string where
  "REGISTRATION_DISABLED_MESSAGE = ''User registration is disabled!''"

definition NICKNAME_MAX_LENGTH :: nat where
  "NICKNAME_MAX_LENGTH = 100"

definition missing_required_arguments :: "json \<Rightarrow> string list \<Rightarrow> string option" where
  "missing_required_arguments body args =
     (let missing = filter (\<lambda>arg. json_get arg body = None) args
      in if missing = [] then None
         else Some (''required argument are missing: '' @ join_with '','' missing @ ''; ''))"

text \<open>
  \<open>^[\w\._-]+@([\w_-]+\.)+[\w-]{2,}$\<close>, for a class \<open>\w\<close> without \<open>@\<close> and \<open>.\<close>: the characters
  before the first \<open>@\<close>, and the labels of the domain after it.
\<close>

definition dots :: "string list \<Rightarrow> string list list" where
  "dots cs = foldr (\<lambda>c ls. if c = ''.'' then [] # ls else case ls of [] \<Rightarrow> [[c]] | l # ls \<Rightarrow> (c # l) # ls) cs [[]]"

definition email_is_valid :: "(string \<Rightarrow> bool) \<Rightarrow> string \<Rightarrow> bool" where
  "email_is_valid word email =
     (let cs = chars_of email;
          user = takeWhile (\<lambda>c. c \<noteq> [CHR 0x40]) cs;
          labels = dots (drop (length user + 1) cs)
      in length user < length cs \<and> user \<noteq> [] \<and>
         list_all (\<lambda>c. word c \<or> c \<in> {''.'', ''_'', ''-''}) user \<and>
         2 \<le> length labels \<and>
         list_all (\<lambda>l. l \<noteq> [] \<and> list_all (\<lambda>c. word c \<or> c \<in> {''_'', ''-''}) l) (butlast labels) \<and>
         2 \<le> length (last labels) \<and> list_all (\<lambda>c. word c \<or> c = ''-'') (last labels))"

definition validate_nickname :: "(string \<Rightarrow> bool) \<Rightarrow> json option \<Rightarrow> string res" where
  "validate_nickname word value =
     (case value of
        None \<Rightarrow> Err ''Nickname is required.''
      | Some JNull \<Rightarrow> Err ''Nickname is required.''
      | Some (JStr raw) \<Rightarrow>
          (let nickname = trim raw
           in if nickname = [] then Err ''Nickname cannot be empty.''
              else if NICKNAME_MAX_LENGTH < length (chars_of nickname)
              then Err (''Nickname must be at most '' @ nat_to_str NICKNAME_MAX_LENGTH @ '' characters.'')
              else if \<not> list_all (\<lambda>c. word c \<or> c \<in> {'' '', ''.'', ''_'', [CHR 0x27], ''-''}) (chars_of nickname)
              then Err ''Nickname contains invalid characters.''
              else Ok nickname)
      | Some j \<Rightarrow> Err ''Nickname must be a string.'')"

section \<open>OAuth states\<close>

type_synonym oauth_states = "(string, u64) hmap"

definition oauth_issue :: "u64 \<Rightarrow> string \<Rightarrow> oauth_states \<Rightarrow> oauth_states \<times> string" where
  "oauth_issue now uuid states =
     (hput uuid (now + 600000) (filter (\<lambda>(k, expiry). now < expiry) states), uuid)"

definition oauth_consume :: "u64 \<Rightarrow> string \<Rightarrow> oauth_states \<Rightarrow> oauth_states \<times> bool" where
  "oauth_consume now state states =
     (if state = [] then (states, False)
      else let live = filter (\<lambda>(k, expiry). now < expiry) states
           in (hdel state live, hget live state \<noteq> None))"

definition oauth_pending :: "oauth_states \<Rightarrow> string \<Rightarrow> string option" where
  "oauth_pending s k = map_option (\<lambda>_. k) (hget s k)"

lemma hget_filter_Some: "hget (filter P m) k \<noteq> None \<Longrightarrow> hget m k \<noteq> None"
  by (auto simp: map_of_eq_None_iff)

interpretation oauth: one_shot id "\<lambda>s. True" oauth_pending "\<lambda>c answer. True"
    "\<lambda>now state code s. fst (oauth_issue now state s)"
    "\<lambda>now state answer s. oauth_consume now state s"
proof unfold_locales
  show "oauth_pending s k = Some c"
    if "oauth_consume now state s = (s', b)" "oauth_pending s' k = Some c"
    for now state answer s s' b k c
    using that hget_filter_Some [of "\<lambda>(k, expiry). now < expiry" s k]
    by (cases "hget s k") (auto simp: oauth_pending_def oauth_consume_def Let_def split: if_splits)
  show "oauth_pending s k = Some c"
    if "k \<noteq> id state" "oauth_pending (fst (oauth_issue now state s)) k = Some c"
    for s k state now code c
    using that hget_filter_Some [of "\<lambda>(k, expiry). now < expiry" s k]
    by (cases "hget s k") (auto simp: oauth_pending_def oauth_issue_def split: if_splits)
  show "\<exists>c. oauth_pending s (id state) = Some c \<and> True \<and> oauth_pending s' (id state) = None"
    if "oauth_consume now state s = (s', True)" for now state answer s s'
    using that hget_filter_Some [of "\<lambda>(k, expiry). now < expiry" s state]
    by (auto simp: oauth_pending_def oauth_consume_def Let_def split: if_splits)
qed simp_all

section \<open>The endpoints\<close>

record registration =
  rg_users :: user_store
  rg_whitelist :: whitelist_store
  rg_register_enabled :: int
  rg_oauth_states :: oauth_states

definition user_add ::
  "(string \<Rightarrow> bool) \<Rightarrow> crypto \<Rightarrow> write_env \<Rightarrow> u64 \<Rightarrow> string \<Rightarrow> string \<Rightarrow> string \<Rightarrow> json \<Rightarrow>
   registration \<Rightarrow> registration \<times> (user \<times> string option) reply" where
  "user_add word c e now uuid salt token b st =
     (case missing_required_arguments b [''nickname'', ''email'', ''password''] of
        Some message \<Rightarrow> (st, Rejected 200 ARGUMENT_ERROR message)
      | None \<Rightarrow>
          if rg_register_enabled st = 0 then (st, Rejected 200 OPERATING_ERROR REGISTRATION_DISABLED_MESSAGE)
          else
            let email = trim (case json_str (json_get ''email'' b) of None \<Rightarrow> [] | Some s \<Rightarrow> s)
            in if \<not> email_is_valid word email
               then (st, Rejected 200 OPERATING_ERROR (''Invalid email address: '' @ email @ ''!''))
               else (case get_user email (rg_users st) of
                   Ok (Some u) \<Rightarrow> (st, Rejected 200 OPERATING_ERROR (''Email: '' @ email @ '' has already registered!''))
                 | Ok None \<Rightarrow>
                     if \<not> wl_allows email (rg_whitelist st)
                     then (st, Rejected 200 OPERATING_ERROR
                            ''This email is not on the registration whitelist. Ask an administrator to add it at /admin/whitelist.'')
                     else (case validate_nickname word (json_get ''nickname'' b) of
                         Err message \<Rightarrow> (st, Rejected 200 ARGUMENT_ERROR message)
                       | Ok nickname \<Rightarrow>
                           (let password = (case json_str (json_get ''password'' b) of None \<Rightarrow> [] | Some s \<Rightarrow> s)
                            in case register c e now uuid salt nickname email password (rg_users st) of
                                 (us, Ok u) \<Rightarrow>
                                   (case issue_token_for now token (us_id u) us of
                                      (us', Ok t) \<Rightarrow> (st\<lparr>rg_users := us'\<rparr>, Accepted (u, t))
                                    | (us', r) \<Rightarrow> (st\<lparr>rg_users := us'\<rparr>, Crashed))
                               | (us, Err error) \<Rightarrow>
                                   (st\<lparr>rg_users := us\<rparr>, Rejected 200 EXCEPTION_ERROR
                                      (''User registration failure, error: '' @ error))
                               | (us, Panic) \<Rightarrow> (st\<lparr>rg_users := us\<rparr>, Crashed))
                       | Panic \<Rightarrow> (st, Crashed))
                 | r \<Rightarrow> (st, Crashed)))"

text \<open>What the provider says of a user.\<close>

record oauth_user_info =
  oi_email :: string
  oi_username :: string
  oi_nickname :: string
  oi_avatar_url :: string

text \<open>
  The callback. \<open>exchange\<close> trades the code for an access token and \<open>fetch\<close> the token for the
  user; every failure is a redirect to \<open>/?error=..\<close>. \<open>password\<close> is the random password of
  a fresh account.
\<close>

definition oauth_callback ::
  "crypto \<Rightarrow> write_env \<Rightarrow> u64 \<Rightarrow> u64 \<Rightarrow> string \<Rightarrow> string \<Rightarrow> string \<Rightarrow> string \<Rightarrow>
   (string \<Rightarrow> string res) \<Rightarrow> (string \<Rightarrow> oauth_user_info res) \<Rightarrow> string list \<Rightarrow> string \<Rightarrow>
   string option \<Rightarrow> string option \<Rightarrow> registration \<Rightarrow> registration \<times> (string \<times> string) reply" where
  "oauth_callback c e now now_ms uuid salt password token exchange fetch channels channel state code st =
     (if channel \<notin> set channels then (st, Rejected 307 0 (''Invalid channel name: '' @ channel))
      else
        let (states, valid) = oauth_consume now_ms (case state of None \<Rightarrow> [] | Some s \<Rightarrow> s) (rg_oauth_states st);
            st = st\<lparr>rg_oauth_states := states\<rparr>
        in if \<not> valid then (st, Rejected 307 0 ''invalid_state'')
        else if code = None \<or> code = Some [] then (st, Rejected 307 0 ''missing_code'')
        else (case exchange (the code) of
            Ok access_token \<Rightarrow>
              (case fetch access_token of
                 Ok user_info \<Rightarrow>
                   if oi_email user_info = [] then (st, Rejected 307 0 ''email_missing'')
                   else
                     let email = to_ascii_lowercase (oi_email user_info);
                         (users, found) =
                           (case get_user email (rg_users st) of
                              Ok (Some u) \<Rightarrow> (rg_users st, Ok u)
                            | Ok None \<Rightarrow>
                                (let nickname = (if oi_nickname user_info = [] then oi_username user_info
                                                 else oi_nickname user_info)
                                 in case register c e now uuid salt nickname email password (rg_users st) of
                                      (us, Ok u) \<Rightarrow>
                                        (if oi_avatar_url user_info = [] then us
                                         else fst (update_profile e (us_id u) None (Some (oi_avatar_url user_info)) None us),
                                         Ok u)
                                    | (us, r) \<Rightarrow> (us, r))
                            | r \<Rightarrow> (rg_users st, Panic));
                         st = st\<lparr>rg_users := users\<rparr>
                     in (case found of
                           Ok u \<Rightarrow>
                             (case issue_token_for now token (us_id u) users of
                                (us, Ok (Some t)) \<Rightarrow> (st\<lparr>rg_users := us\<rparr>, Accepted (us_id u, t))
                              | (us, Ok None) \<Rightarrow> (st\<lparr>rg_users := us\<rparr>, Rejected 307 0 ''token_failed'')
                              | (us, r) \<Rightarrow> (st\<lparr>rg_users := us\<rparr>, Crashed))
                         | Err error \<Rightarrow> (st, Rejected 307 0 ''register_failed'')
                         | Panic \<Rightarrow> (st, Crashed))
               | Err error \<Rightarrow> (st, Rejected 307 0 ''userinfo_failed'')
               | Panic \<Rightarrow> (st, Crashed))
          | Err error \<Rightarrow> (st, Rejected 307 0 ''token_failed'')
          | Panic \<Rightarrow> (st, Crashed)))"

section \<open>Properties\<close>

lemma issue_token_known:
  assumes "users_sound us" and "u \<in> set (hvalues (st_mem (ust_users us)))"
  shows "issue_token_for now token (us_id u) us = (add_token now token (us_id u) us, Ok (Some token))"
proof -
  have "\<exists>x \<in> set (hvalues (st_mem (ust_users us))). us_id x = us_id u" using assms(2) by blast
  then show ?thesis by (simp add: issue_token_for_def users_sound_read [OF assms(1)] del: set_map)
qed

lemma register_Ok:
  assumes "register c e now uuid salt nickname email password st = (st', Ok u)"
  shows "us_email u = to_ascii_lowercase (trim email) \<and> us_role u = ''normal'' \<and> us_nickname u = trim nickname
    \<and> hget (st_mem (ust_users st)) (us_email u) = None
    \<and> st_mem (ust_users st') = hput (us_email u) u (st_mem (ust_users st))"
proof -
  from assms have attrs: "us_email u = to_ascii_lowercase (trim email)" "us_role u = ''normal''"
      "us_nickname u = trim nickname"
    and run: "us_mutate e (insert_user_step ''User with email '' u) st = (st', Ok u)"
    unfolding register_def Let_def
    by (auto simp: res_bind_Ok_iff res_map_Ok_iff us_mutate_def us_mutate_if_changed_def
        tx_mutate_if_changed_def always_changed_def insert_user_step_def
        split: res.splits if_splits prod.splits)
  obtain b where "always_changed (insert_user_step ''User with email '' u) (st_mem (ust_users st))
      = (st_mem (ust_users st'), Ok (u, b))"
    using run unfolding us_mutate_def by (rule us_mutate_OkE)
  with attrs show ?thesis by (auto simp: insert_user_step_def split: if_splits)
qed

lemma validate_nickname_no_panic: "validate_nickname word v \<noteq> Panic"
  by (auto simp: validate_nickname_def Let_def split: option.splits json.splits)

lemma register_sound:
  assumes "register c e now uuid salt nickname email password us = (us', r)"
    and "users_sound us" and "reliable e" and "crypto_ok c"
  shows "users_sound us' \<and> r \<noteq> Panic
    \<and> (\<forall>err. r = Err err \<longrightarrow> st_mem (ust_users us') = st_mem (ust_users us) \<and> ust_tokens us' = ust_tokens us)"
  using us_call_sound_register [OF assms]
  by (cases r) (auto simp: us_call_sound_def)

text \<open>
  C13. The gate of the sign-up handler: \<open>user_add\<close> creates an account only while registration is enabled, for a
  well-formed address that the whitelist admits and that nobody has; it is a normal account,
  logged in under the returned token. Every refusal leaves accounts and sessions alone, and no
  request crashes the handler. (An OAuth login creates accounts by another way, \<open>oauth_bypasses_gate\<close>.)
\<close>

theorem user_add_gated:
  assumes "user_add word c e now uuid salt token b st = (st', r)"
    and "users_sound (rg_users st)" and "reliable e" and "crypto_ok c"
    and "email = trim (case json_str (json_get ''email'' b) of None \<Rightarrow> [] | Some s \<Rightarrow> s)"
  shows "users_sound (rg_users st') \<and> r \<noteq> Crashed
    \<and> (\<forall>status code message. r = Rejected status code message \<longrightarrow>
         st_mem (ust_users (rg_users st')) = st_mem (ust_users (rg_users st))
         \<and> ust_tokens (rg_users st') = ust_tokens (rg_users st))
    \<and> (\<forall>u t. r = Accepted (u, t) \<longrightarrow>
         rg_register_enabled st \<noteq> 0 \<and> email_is_valid word email \<and> wl_allows email (rg_whitelist st)
         \<and> find_user (st_mem (ust_users (rg_users st))) email = None
         \<and> us_email u = to_ascii_lowercase email \<and> us_role u = ''normal''
         \<and> hget (st_mem (ust_users (rg_users st'))) (us_email u) = Some u
         \<and> t = Some token \<and> validate_token now token (rg_users st') = (if now + TOKEN_TTL_MS < now then None else Some (us_id u)))"
proof -
  note read = users_sound_read [OF assms(2)]
  let ?us = "rg_users st"
  show ?thesis
  proof (cases "st' = st \<and> (\<exists>s k m. r = Rejected s k m)")
    case True
    with assms(2) show ?thesis by auto
  next
    case False
    define password where "password = (case json_str (json_get ''password'' b) of None \<Rightarrow> [] | Some s \<Rightarrow> s)"
    from False obtain nickname us q where gate: "rg_register_enabled st \<noteq> 0" "email_is_valid word email"
        "wl_allows email (rg_whitelist st)" "find_user (st_mem (ust_users ?us)) email = None"
      and reg: "register c e now uuid salt nickname email password ?us = (us, q)"
      and fin: "(st', r) = (case q of
          Ok u \<Rightarrow> (case issue_token_for now token (us_id u) us of
                (us', Ok t) \<Rightarrow> (st\<lparr>rg_users := us'\<rparr>, Accepted (u, t))
              | (us', p) \<Rightarrow> (st\<lparr>rg_users := us'\<rparr>, Crashed))
        | Err error \<Rightarrow> (st\<lparr>rg_users := us\<rparr>, Rejected 200 EXCEPTION_ERROR (''User registration failure, error: '' @ error))
        | Panic \<Rightarrow> (st\<lparr>rg_users := us\<rparr>, Crashed))"
      using assms(1) unfolding user_add_def Let_def assms(5) [symmetric] password_def [symmetric] get_user_def read
      by (auto simp: validate_nickname_no_panic split: option.splits if_splits res.splits prod.splits)
    note sound = register_sound [OF reg assms(2-4)]
    show ?thesis
    proof (cases q)
      case (Ok u)
      note new = register_Ok [OF reg [unfolded Ok]]
      have "u \<in> set (hvalues (st_mem (ust_users us)))"
        using new by (intro hget_hvalues [of _ "us_email u"]) simp
      then have tok: "issue_token_for now token (us_id u) us = (add_token now token (us_id u) us, Ok (Some token))"
        using sound by (intro issue_token_known) auto
      have "to_ascii_lowercase (trim email) = to_ascii_lowercase email"
        by (simp add: assms(5))
      then show ?thesis using fin Ok tok sound new gate
        by (auto simp: add_token_def validate_token_def)
    qed (use fin sound in auto)
  qed
qed

definition demo_word :: "string \<Rightarrow> bool" where
  "demo_word c \<longleftrightarrow> list_all is_graph_char c \<and> c \<notin> {[CHR 0x40], ''.'', ''-''}"

definition demo_body :: json where
  "demo_body = JObj [(''nickname'', JStr ''Ada''), (''email'', JStr demo_mail),
     (''password'', JStr ''correct horse battery'')]"

definition demo_registration :: "int \<Rightarrow> bool \<Rightarrow> registration" where
  "demo_registration enabled listing =
     \<lparr>rg_users = demo_users [],
      rg_whitelist = whitelist_in_memory\<lparr>wls_state := \<lparr>wl_enabled = listing, wl_entries = []\<rparr>\<rparr>,
      rg_register_enabled = enabled, rg_oauth_states = [(''state'', 1000)]\<rparr>"

lemma demo_mail_lower: "to_ascii_lowercase demo_mail = ''ada'' @ [CHR 0x40] @ ''x.org''"
  by code_simp

lemma demo_register:
  "trim nick \<noteq> [] \<Longrightarrow> mail \<in> {demo_mail, ''ada'' @ [CHR 0x40] @ ''x.org''} \<Longrightarrow> \<exists>us u. register demo_crypto we_all_ok 10 ''u1'' ''salt'' nick mail ''correct horse battery'' (demo_users []) = (us, Ok u)
     \<and> us_id u = ''u1''"
proof -
  assume nick: "trim nick \<noteq> []" and mail: "mail \<in> {demo_mail, ''ada'' @ [CHR 0x40] @ ''x.org''}"
  have "list_all is_graph_char (''ada'' @ [CHR 0x40] @ ''x.org'')" by (simp add: is_graph_char_def)
  then have "trim (''ada'' @ [CHR 0x40] @ ''x.org'') = ''ada'' @ [CHR 0x40] @ ''x.org''" by (rule trim_graph)
  moreover have "to_ascii_lowercase (''ada'' @ [CHR 0x40] @ ''x.org'') = ''ada'' @ [CHR 0x40] @ ''x.org''" by code_simp
  ultimately have "to_ascii_lowercase (trim mail) = ''ada'' @ [CHR 0x40] @ ''x.org''"
    using mail demo_mail_lower by auto
  with nick show ?thesis
    by (simp add: register_def Let_def decode_password_def demo_crypto_def starts_with_def ends_with_def
        us_mutate_def us_mutate_if_changed_def tx_mutate_if_changed_def always_changed_def
        insert_user_step_def demo_users_def suffix_def)
qed

lemma demo_body_parts:
  "missing_required_arguments demo_body [''nickname'', ''email'', ''password''] = None"
  "email_is_valid demo_word demo_mail" "validate_nickname demo_word (json_get ''nickname'' demo_body) = Ok ''Ada''"
  "trim ''Ada'' = ''Ada''"
  by code_simp+

lemma demo_get_user: "get_user email (demo_users []) = Ok None"
  by (simp add: get_user_def demo_users_def tx_read_def find_user_def Let_def)

theorem user_add_gated_witness:
  "\<exists>u. snd (user_add demo_word demo_crypto we_all_ok 10 ''u1'' ''salt'' ''tok'' demo_body (demo_registration 1 False))
     = Accepted (u, Some ''tok'') \<and> us_email u = ''ada'' @ [CHR 0x40] @ ''x.org''"
proof -
  let ?p = "user_add demo_word demo_crypto we_all_ok 10 ''u1'' ''salt'' ''tok'' demo_body (demo_registration 1 False)"
  obtain us u where reg: "register demo_crypto we_all_ok 10 ''u1'' ''salt'' ''Ada'' demo_mail
      ''correct horse battery'' (demo_users []) = (us, Ok u)"
    using demo_register [of "''Ada''" demo_mail] demo_body_parts(4) by auto
  have sound: "users_sound (demo_users [])" by (rule demo_users_sound) simp
  have "users_sound us" using register_sound [OF reg sound _ demo_crypto_ok] by simp
  moreover have "u \<in> set (hvalues (st_mem (ust_users us)))"
    using register_Ok [OF reg] by (intro hget_hvalues [of _ "us_email u"]) simp
  ultimately have tok: "issue_token_for 10 ''tok'' (us_id u) us = (add_token 10 ''tok'' (us_id u) us, Ok (Some ''tok''))"
    by (rule issue_token_known)
  have "json_str (json_get ''email'' demo_body) = Some demo_mail"
    "json_str (json_get ''password'' demo_body) = Some ''correct horse battery''"
    by (simp_all add: demo_body_def)
  then have "snd ?p = Accepted (u, Some ''tok'')"
    using reg tok sound demo_body_parts
    by (simp add: user_add_def demo_registration_def demo_get_user wl_allows_def Let_def)
  moreover from this have "us_email u = to_ascii_lowercase demo_mail"
    using user_add_gated [where word = demo_word and c = demo_crypto and e = we_all_ok and now = 10
        and uuid = "''u1''" and salt = "''salt''" and token = "''tok''" and b = demo_body
        and st = "demo_registration 1 False", OF surjective_pairing _ reliable_we_all_ok demo_crypto_ok refl] sound
    by (auto simp: demo_registration_def demo_body_def)
  ultimately show ?thesis by (simp add: demo_mail_lower)
qed

text \<open>
  The OAuth callback does not ask the gate: with registration disabled and an empty
  whitelist enabled, the sign-up endpoint refuses an address, and the callback creates the
  account for the same address and logs it in.
\<close>

theorem oauth_bypasses_gate:
  "\<not> wl_allows demo_mail (rg_whitelist (demo_registration 0 True))
   \<and> snd (user_add demo_word demo_crypto we_all_ok 10 ''u1'' ''salt'' ''tok'' demo_body (demo_registration 0 True))
       = Rejected 200 OPERATING_ERROR REGISTRATION_DISABLED_MESSAGE
   \<and> (\<exists>st'. oauth_callback demo_crypto we_all_ok 10 20 ''u1'' ''salt'' ''correct horse battery'' ''tok''
          (\<lambda>code. Ok ''access'') (\<lambda>t. Ok \<lparr>oi_email = demo_mail, oi_username = ''ada'', oi_nickname = [], oi_avatar_url = []\<rparr>)
          [''github''] ''github'' (Some ''state'') (Some ''code'') (demo_registration 0 True)
        = (st', Accepted (''u1'', ''tok''))
      \<and> validate_token 20 ''tok'' (rg_users st') = Some ''u1'')"
proof -
  obtain us u where reg: "register demo_crypto we_all_ok 10 ''u1'' ''salt'' ''ada'' (''ada'' @ [CHR 0x40] @ ''x.org'')
      ''correct horse battery'' (demo_users []) = (us, Ok u)" and i: "us_id u = ''u1''"
    using demo_register [of "''ada''" "''ada'' @ [CHR 0x40] @ ''x.org''"]
    by (auto simp: is_graph_char_def)
  have sound: "users_sound (demo_users [])" by (rule demo_users_sound) simp
  have "users_sound us" using register_sound [OF reg sound _ demo_crypto_ok] by simp
  moreover have "u \<in> set (hvalues (st_mem (ust_users us)))"
    using register_Ok [OF reg] by (intro hget_hvalues [of _ "us_email u"]) simp
  ultimately have tok: "issue_token_for 10 ''tok'' ''u1'' us = (add_token 10 ''tok'' ''u1'' us, Ok (Some ''tok''))"
    unfolding i [symmetric] by (rule issue_token_known)
  have ne: "demo_mail \<noteq> []" by (simp add: demo_mail_def)
  show ?thesis
    using reg tok sound i ne demo_body_parts(1)
    by (simp add: oauth_callback_def demo_registration_def demo_get_user wl_allows_def
        oauth_consume_def demo_mail_lower user_add_def whitelist_in_memory_def Let_def
        add_token_def validate_token_def TOKEN_TTL_MS_def)
qed

end
