(* ===== verification/Captcha_Image.thy ===== *)
theory Captcha_Image
  imports One_Time_Codes
begin

unbundle bit_operations_syntax

text \<open>
  The image of a captcha (\<^verbatim>\<open>src/captcha.rs\<close>): the glyph table, the pseudo-random source,
  the drawing and the drawn answer. An image is the list of its \<open>put_pixel\<close> calls, the last
  one on a pixel winning; a call outside the image is the panic of the image crate. The PNG
  encoder of that crate is a parameter.
\<close>

section \<open>Glyphs\<close>

definition IMAGE_WIDTH :: u32 where
  "IMAGE_WIDTH = 300"

definition IMAGE_HEIGHT :: u32 where
  "IMAGE_HEIGHT = 120"

definition ALPHABET :: string where
  "ALPHABET = ''ABCDEFGHIJKLMNOPQRSTUVWXYZ0123456789''"

definition glyph_table :: "(char \<times> string list) list" where
  "glyph_table = [
  (CHR ''A'', [''01110'', ''10001'', ''10001'', ''11111'', ''10001'', ''10001'', ''10001'']),
  (CHR ''B'', [''11110'', ''10001'', ''10001'', ''11110'', ''10001'', ''10001'', ''11110'']),
  (CHR ''C'', [''01110'', ''10001'', ''10000'', ''10000'', ''10000'', ''10001'', ''01110'']),
  (CHR ''D'', [''11110'', ''10001'', ''10001'', ''10001'', ''10001'', ''10001'', ''11110'']),
  (CHR ''E'', [''11111'', ''10000'', ''10000'', ''11110'', ''10000'', ''10000'', ''11111'']),
  (CHR ''F'', [''11111'', ''10000'', ''10000'', ''11110'', ''10000'', ''10000'', ''10000'']),
  (CHR ''G'', [''01110'', ''10001'', ''10000'', ''10111'', ''10001'', ''10001'', ''01110'']),
  (CHR ''H'', [''10001'', ''10001'', ''10001'', ''11111'', ''10001'', ''10001'', ''10001'']),
  (CHR ''I'', [''01110'', ''00100'', ''00100'', ''00100'', ''00100'', ''00100'', ''01110'']),
  (CHR ''J'', [''00111'', ''00010'', ''00010'', ''00010'', ''00010'', ''10010'', ''01100'']),
  (CHR ''K'', [''10001'', ''10010'', ''10100'', ''11000'', ''10100'', ''10010'', ''10001'']),
  (CHR ''L'', [''10000'', ''10000'', ''10000'', ''10000'', ''10000'', ''10000'', ''11111'']),
  (CHR ''M'', [''10001'', ''11011'', ''10101'', ''10101'', ''10001'', ''10001'', ''10001'']),
  (CHR ''N'', [''10001'', ''11001'', ''10101'', ''10011'', ''10001'', ''10001'', ''10001'']),
  (CHR ''O'', [''01110'', ''10001'', ''10001'', ''10001'', ''10001'', ''10001'', ''01110'']),
  (CHR ''P'', [''11110'', ''10001'', ''10001'', ''11110'', ''10000'', ''10000'', ''10000'']),
  (CHR ''Q'', [''01110'', ''10001'', ''10001'', ''10001'', ''10101'', ''10010'', ''01101'']),
  (CHR ''R'', [''11110'', ''10001'', ''10001'', ''11110'', ''10100'', ''10010'', ''10001'']),
  (CHR ''S'', [''01111'', ''10000'', ''10000'', ''01110'', ''00001'', ''00001'', ''11110'']),
  (CHR ''T'', [''11111'', ''00100'', ''00100'', ''00100'', ''00100'', ''00100'', ''00100'']),
  (CHR ''U'', [''10001'', ''10001'', ''10001'', ''10001'', ''10001'', ''10001'', ''01110'']),
  (CHR ''V'', [''10001'', ''10001'', ''10001'', ''10001'', ''10001'', ''01010'', ''00100'']),
  (CHR ''W'', [''10001'', ''10001'', ''10001'', ''10101'', ''10101'', ''11011'', ''10001'']),
  (CHR ''X'', [''10001'', ''10001'', ''01010'', ''00100'', ''01010'', ''10001'', ''10001'']),
  (CHR ''Y'', [''10001'', ''10001'', ''01010'', ''00100'', ''00100'', ''00100'', ''00100'']),
  (CHR ''Z'', [''11111'', ''00001'', ''00010'', ''00100'', ''01000'', ''10000'', ''11111'']),
  (CHR ''0'', [''01110'', ''10001'', ''10011'', ''10101'', ''11001'', ''10001'', ''01110'']),
  (CHR ''1'', [''00100'', ''01100'', ''00100'', ''00100'', ''00100'', ''00100'', ''01110'']),
  (CHR ''2'', [''01110'', ''10001'', ''00001'', ''00010'', ''00100'', ''01000'', ''11111'']),
  (CHR ''3'', [''11111'', ''00010'', ''00100'', ''00010'', ''00001'', ''10001'', ''01110'']),
  (CHR ''4'', [''00010'', ''00110'', ''01010'', ''10010'', ''11111'', ''00010'', ''00010'']),
  (CHR ''5'', [''11111'', ''10000'', ''11110'', ''00001'', ''00001'', ''10001'', ''01110'']),
  (CHR ''6'', [''00110'', ''01000'', ''10000'', ''11110'', ''10001'', ''10001'', ''01110'']),
  (CHR ''7'', [''11111'', ''00001'', ''00010'', ''00100'', ''01000'', ''01000'', ''01000'']),
  (CHR ''8'', [''01110'', ''10001'', ''10001'', ''01110'', ''10001'', ''10001'', ''01110'']),
  (CHR ''9'', [''01110'', ''10001'', ''10001'', ''01111'', ''00001'', ''00010'', ''01100''])]"

text \<open>
  A character is its encoding; \<open>to_ascii_uppercase\<close> leaves those above the ASCII range alone,
  and none of them has a glyph.
\<close>

definition glyph :: "string \<Rightarrow> string list option" where
  "glyph character =
     (case character of [c] \<Rightarrow> map_of glyph_table (ascii_upper_char c) | _ \<Rightarrow> None)"

section \<open>The pseudo-random source\<close>

definition noise_new :: "u64 \<Rightarrow> u64" where
  "noise_new seed = seed OR 1"

definition noise_next :: "u64 \<Rightarrow> u64 \<times> u64" where
  "noise_next s = (let s' = s * 6364136223846793005 + 1442695040888963407 in (s', drop_bit 17 s'))"

definition noise_below :: "u64 \<Rightarrow> u32 \<Rightarrow> u64 \<times> u32" where
  "noise_below s bound =
     (if bound = 0 then (s, 0)
      else let (s', v) = noise_next s in (s', ucast (v mod ucast bound)))"

definition seed_for :: "string \<Rightarrow> u64" where
  "seed_for code =
     foldl (\<lambda>hash byte. (hash XOR of_nat (of_char byte)) * 0x100000001b3) 0xcbf29ce484222325 code"

lemma noise_below_lt:
  assumes "0 < bound"
  shows "unat (snd (noise_below s bound)) < unat bound"
proof -
  obtain s' v where v: "noise_next s = (s', v)" by fastforce
  have b: "unat (ucast bound :: u64) = unat bound"
    using unsigned_less [of bound, where ?'a = nat] by (simp add: unsigned_ucast_eq take_bit_nat_eq_self)
  have "unat (v mod ucast bound) < unat bound"
    using assms b by (simp add: unat_mod word_less_nat_alt)
  moreover from this have "unat (ucast (v mod ucast bound) :: u32) = unat (v mod ucast bound)"
    using unsigned_less [of bound, where ?'a = nat] by (simp add: unsigned_ucast_eq take_bit_nat_eq_self)
  ultimately show ?thesis
    using assms v by (auto simp: noise_below_def)
qed

lemma noise_below_zero [simp]: "noise_below s 0 = (s, 0)"
  by (simp add: noise_below_def)

section \<open>Drawing\<close>

type_synonym rgb = "nat \<times> nat \<times> nat"
type_synonym pixels = "((nat \<times> nat) \<times> rgb) list"

text \<open>\<open>RgbImage::put_pixel\<close> panics outside the image.\<close>

definition put_pixel :: "nat \<Rightarrow> nat \<Rightarrow> rgb \<Rightarrow> pixels \<Rightarrow> pixels res" where
  "put_pixel x y c img =
     (if x < unat IMAGE_WIDTH \<and> y < unat IMAGE_HEIGHT then Ok (((x, y), c) # img) else Panic)"

text \<open>The pseudo-random source is threaded through the drawing.\<close>

type_synonym canvas = "u64 \<times> pixels"

definition draw_dot :: "nat \<Rightarrow> canvas \<Rightarrow> canvas res" where
  "draw_dot i = (\<lambda>(n, img).
     (let (n, x) = noise_below n IMAGE_WIDTH;
          (n, y) = noise_below n IMAGE_HEIGHT;
          (n, v) = noise_below n 20;
          shade = 215 + unat v
      in res_map (Pair n) (put_pixel (unat x) (unat y) (shade, shade, shade) img)))"

text \<open>
  One cell of a glyph, \<open>scale\<close> by \<open>scale\<close> pixels with its corner at (\<open>x0\<close>, \<open>y0\<close>), clipped
  to the image. The coordinates are \<open>i32\<close> in the code and stay below a thousand.
\<close>

definition draw_cell_pixel :: "int \<Rightarrow> int \<Rightarrow> rgb \<Rightarrow> nat \<times> nat \<Rightarrow> pixels \<Rightarrow> pixels res" where
  "draw_cell_pixel x0 y0 ink = (\<lambda>(dy, dx) img.
     (let x = x0 + int dx; y = y0 + int dy
      in if 0 \<le> x \<and> 0 \<le> y \<and> x < int (unat IMAGE_WIDTH) \<and> y < int (unat IMAGE_HEIGHT)
         then put_pixel (nat x) (nat y) ink img else Ok img))"

definition draw_cell ::
  "int \<Rightarrow> int \<Rightarrow> nat \<Rightarrow> rgb \<Rightarrow> nat \<times> nat \<times> char \<Rightarrow> pixels \<Rightarrow> pixels res" where
  "draw_cell ox oy scale ink = (\<lambda>(row, column, cell) img.
     if cell \<noteq> CHR ''1'' then Ok img
     else res_fold (draw_cell_pixel (ox + int (column * scale)) (oy + int (row * scale)) ink)
            (List.product [0..<scale] [0..<scale]) img)"

definition cells :: "string list \<Rightarrow> (nat \<times> nat \<times> char) list" where
  "cells rows = concat (map (\<lambda>(row, r). map (\<lambda>(column, c). (row, column, c)) (enumerate 0 r)) (enumerate 0 rows))"

definition clamp :: "nat \<Rightarrow> nat \<Rightarrow> nat \<Rightarrow> nat" where
  "clamp v lo hi = max lo (min v hi)"

definition draw_character :: "nat \<Rightarrow> nat \<Rightarrow> nat \<times> string \<Rightarrow> canvas \<Rightarrow> canvas res" where
  "draw_character slot scale = (\<lambda>(index, character) (n, img).
     case glyph character of
       None \<Rightarrow> Err (''no glyph for '' @ character @ '' in the captcha font'')
     | Some rows \<Rightarrow>
         (let (n, jx) = noise_below n (of_nat scale);
              (n, jy) = noise_below n (of_nat (scale * 2));
              jitter_x = int (unat jx) - int (scale div 2);
              jitter_y = int (unat jy) - int scale;
              origin_x = 20 + index * slot + (slot - 5 * scale) div 2;
              origin_y = (unat IMAGE_HEIGHT - 7 * scale) div 2;
              (n, r) = noise_below n 80;
              (n, g) = noise_below n 70;
              (n, b) = noise_below n 80;
              ink = (20 + unat r, 30 + unat g, 60 + unat b)
          in res_map (Pair n)
               (res_fold (draw_cell (int origin_x + jitter_x) (int origin_y + jitter_y) scale ink)
                  (cells rows) img)))"

definition draw_falling_stroke :: "nat \<Rightarrow> pixels \<Rightarrow> pixels res" where
  "draw_falling_stroke offset =
     res_fold (\<lambda>thickness img.
         (let px = offset * unat IMAGE_WIDTH div unat IMAGE_HEIGHT + thickness
          in if px < unat IMAGE_WIDTH then put_pixel px offset (150, 160, 190) img else Ok img))
       [0..<2]"

definition draw_rising_stroke :: "nat \<Rightarrow> pixels \<Rightarrow> pixels res" where
  "draw_rising_stroke offset img =
     (let x = int (unat IMAGE_WIDTH) - 1 - int (offset * unat IMAGE_WIDTH div unat IMAGE_HEIGHT)
      in if 0 \<le> x \<and> x < int (unat IMAGE_WIDTH) then put_pixel (nat x) offset (170, 175, 200) img
         else Ok img)"

text \<open>\<open>encode\<close> is the PNG encoder of the image crate, on the sequence of pixel writes.\<close>

definition render_png :: "(pixels \<Rightarrow> 'b res) \<Rightarrow> string \<Rightarrow> 'b res" where
  "render_png encode code =
     (if code = [] then Err ''a captcha needs at least one character''
      else
        let characters = chars_of code;
            slot = (unat IMAGE_WIDTH - 40) div length characters;
            scale = clamp (slot div 6) 2 14
        in res_bind (res_fold draw_dot [0..<unat IMAGE_WIDTH * unat IMAGE_HEIGHT div 90]
                       (noise_new (seed_for code), [])) (\<lambda>canvas.
           res_bind (res_fold (draw_character slot scale) (enumerate 0 characters) canvas) (\<lambda>(n, img).
           res_bind (res_fold draw_falling_stroke [0..<unat IMAGE_HEIGHT] img) (\<lambda>img.
           res_bind (res_fold draw_rising_stroke [0..<unat IMAGE_HEIGHT] img) encode))))"

text \<open>\<open>generate\<close>, seeded by the text of the process id and the clock.\<close>

fun draw_letters :: "nat \<Rightarrow> u64 \<Rightarrow> string" where
  "draw_letters 0 n = []"
| "draw_letters (Suc k) n =
     (let (n', i) = noise_below n (of_nat (length ALPHABET)) in ALPHABET ! unat i # draw_letters k n')"

definition captcha_generate :: "string \<Rightarrow> string" where
  "captcha_generate seed = draw_letters CAPTCHA_LENGTH (noise_new (seed_for seed))"

section \<open>No write leaves the image\<close>

lemma unat_image_size [simp]: "unat IMAGE_WIDTH = 300" "unat IMAGE_HEIGHT = 120"
  by (simp_all add: IMAGE_WIDTH_def IMAGE_HEIGHT_def)

lemma is_ok_res_map [simp]: "is_ok (res_map f r) = is_ok r"
  by (cases r) auto

lemma is_ok_res_bind: "is_ok r \<Longrightarrow> (\<And>v. is_ok (f v)) \<Longrightarrow> is_ok (res_bind r f)"
  by (cases r) auto

lemma is_ok_res_fold: "(\<And>x s. x \<in> set xs \<Longrightarrow> is_ok (f x s)) \<Longrightarrow> is_ok (res_fold f xs s)"
  using res_fold_ok [of xs f s] by (simp add: is_ok_iff)

lemma draw_dot_ok: "is_ok (draw_dot i canvas)"
proof -
  obtain n img where canvas: "canvas = (n, img)" by fastforce
  obtain n1 x where x: "noise_below n IMAGE_WIDTH = (n1, x)" by fastforce
  obtain n2 y where y: "noise_below n1 IMAGE_HEIGHT = (n2, y)" by fastforce
  have "unat x < 300" using noise_below_lt [of IMAGE_WIDTH n] x by (simp add: IMAGE_WIDTH_def)
  moreover have "unat y < 120" using noise_below_lt [of IMAGE_HEIGHT n1] y by (simp add: IMAGE_HEIGHT_def)
  ultimately show ?thesis
    by (simp add: canvas draw_dot_def x y put_pixel_def Let_def split: prod.splits)
qed

lemma draw_cell_ok: "is_ok (draw_cell ox oy scale ink cell img)"
  by (auto simp: draw_cell_def draw_cell_pixel_def put_pixel_def Let_def
      intro!: is_ok_res_fold split: prod.splits)

lemma draw_character_ok: "glyph (snd ch) = Some rows \<Longrightarrow> is_ok (draw_character slot scale ch canvas)"
  by (auto simp: draw_character_def Let_def intro!: is_ok_res_fold draw_cell_ok split: prod.splits)

lemma draw_character_no_glyph:
  "glyph (snd ch) = None \<Longrightarrow> \<exists>err. draw_character slot scale ch canvas = Err err"
  by (auto simp: draw_character_def split: prod.splits)

lemma draw_falling_stroke_ok: "offset < 120 \<Longrightarrow> is_ok (draw_falling_stroke offset img)"
  by (auto simp: draw_falling_stroke_def put_pixel_def Let_def intro!: is_ok_res_fold)

lemma draw_rising_stroke_ok: "offset < 120 \<Longrightarrow> is_ok (draw_rising_stroke offset img)"
  by (auto simp: draw_rising_stroke_def put_pixel_def Let_def)

lemma draw_characters:
  "(\<exists>canvas'. res_fold (draw_character slot scale) chs canvas = Ok canvas')
     \<and> (\<forall>ch \<in> set chs. glyph (snd ch) \<noteq> None)
   \<or> (\<exists>err. res_fold (draw_character slot scale) chs canvas = Err err)
     \<and> (\<exists>ch \<in> set chs. glyph (snd ch) = None)"
proof (induction chs arbitrary: canvas)
  case (Cons ch chs)
  show ?case
  proof (cases "glyph (snd ch)")
    case None
    with draw_character_no_glyph [OF None, of slot scale canvas] show ?thesis by auto
  next
    case (Some rows)
    then obtain c where "draw_character slot scale ch canvas = Ok c"
      using draw_character_ok [of ch rows slot scale canvas] by (auto simp: is_ok_iff)
    with Cons.IH [of c] Some show ?thesis by auto
  qed
qed simp

lemma render_png_iff:
  assumes "\<And>img. is_ok (encode img)"
  shows "render_png encode code \<noteq> Panic
    \<and> (is_ok (render_png encode code) \<longleftrightarrow> code \<noteq> [] \<and> (\<forall>c \<in> set (chars_of code). glyph c \<noteq> None))"
proof (cases "code = []")
  case False
  define slot where "slot = (unat IMAGE_WIDTH - 40) div length (chars_of code)"
  define scale where "scale = clamp (slot div 6) 2 14"
  have dots: "is_ok (res_fold draw_dot xs c)" for xs c
    by (rule is_ok_res_fold) (rule draw_dot_ok)
  obtain c1 where c1: "res_fold draw_dot [0..<unat IMAGE_WIDTH * unat IMAGE_HEIGHT div 90]
      (noise_new (seed_for code), []) = Ok c1"
    using dots unfolding is_ok_iff by blast
  have glyphs: "(\<forall>ch \<in> set (enumerate 0 (chars_of code)). glyph (snd ch) \<noteq> None)
      \<longleftrightarrow> (\<forall>c \<in> set (chars_of code). glyph c \<noteq> None)"
  proof -
    have "set (chars_of code) = snd ` set (enumerate 0 (chars_of code))"
      by (simp only: set_map [symmetric] map_snd_enumerate)
    then show ?thesis by (simp only: ball_simps)
  qed
  define strokes where "strokes img =
      res_bind (res_fold draw_falling_stroke [0..<unat IMAGE_HEIGHT] img) (\<lambda>img.
      res_bind (res_fold draw_rising_stroke [0..<unat IMAGE_HEIGHT] img) encode)" for img
  have strokes: "is_ok (strokes img)" for img
  proof -
    have "is_ok (res_fold draw_falling_stroke [0..<unat IMAGE_HEIGHT] img)" for img
      by (rule is_ok_res_fold) (simp add: draw_falling_stroke_ok)
    moreover have "is_ok (res_fold draw_rising_stroke [0..<unat IMAGE_HEIGHT] img)" for img
      by (rule is_ok_res_fold) (simp add: draw_rising_stroke_ok)
    ultimately show ?thesis using assms unfolding strokes_def by (intro is_ok_res_bind)
  qed
  have "render_png encode code
      = res_bind (res_fold (draw_character slot scale) (enumerate 0 (chars_of code)) c1) (\<lambda>(n, img). strokes img)"
    unfolding render_png_def Let_def strokes_def slot_def [symmetric] scale_def [symmetric]
    by (simp only: False if_False c1 res_bind.simps)
  note drawn = this draw_characters [of slot scale "enumerate 0 (chars_of code)" c1] glyphs False
  have live: "is_ok (strokes img)" "strokes img \<noteq> Panic" for img
    using strokes [of img] by auto
  show ?thesis using drawn live by (auto split: prod.splits)
qed (simp add: render_png_def)

section \<open>Properties\<close>

text \<open>
  Drawing a captcha never panics: every pixel it writes is inside the image. It succeeds
  exactly for the non-empty codes whose characters all have a glyph.
\<close>

theorem render_png_total:
  assumes "\<And>img. is_ok (encode img)"
  shows "render_png encode code \<noteq> Panic
    \<and> (is_ok (render_png encode code) \<longleftrightarrow> code \<noteq> [] \<and> (\<forall>c \<in> set (chars_of code). glyph c \<noteq> None))"
  by (rule render_png_iff) (rule assms)

theorem render_png_total_witness:
  "is_ok (render_png Ok ''A7K2'') \<and> \<not> is_ok (render_png Ok ''A-K2'')"
proof -
  have "list_all (\<lambda>c. glyph c \<noteq> None) (chars_of ''A7K2'')"
    and "\<not> list_all (\<lambda>c. glyph c \<noteq> None) (chars_of ''A-K2'')" by code_simp+
  with render_png_total [of Ok "''A7K2''"] render_png_total [of Ok "''A-K2''"] show ?thesis
    by (simp add: list_all_iff)
qed

lemma alphabet_glyphs:
  "list_all (\<lambda>c. glyph [c] \<noteq> None \<and> \<not> is_cont_byte c \<and> ascii_upper_char c = c) ALPHABET"
  by code_simp

lemma draw_letters_alphabet: "set (draw_letters k n) \<subseteq> set ALPHABET \<and> length (draw_letters k n) = k"
proof (induction k arbitrary: n)
  case (Suc k)
  have len: "length ALPHABET = 36" by (simp add: ALPHABET_def)
  obtain n' i where i: "noise_below n 36 = (n', i)" by fastforce
  have "unat i < 36" using noise_below_lt [of 36 n] i by simp
  then have "ALPHABET ! unat i \<in> set ALPHABET" using len by simp
  with Suc.IH [of n'] i len show ?case by simp
qed simp

text \<open>
  Whatever the clock and the process id are, a generated captcha is four capital letters
  or digits, it is drawn without an error, and the store keeps it as it was shown.
\<close>

theorem generated_captcha_renders:
  assumes "\<And>img. is_ok (encode img)"
  shows "length (captcha_generate seed) = 4
    \<and> is_ok (render_png encode (captcha_generate seed))
    \<and> snd (captcha_issue_at email (captcha_generate seed) now s) = captcha_generate seed"
proof -
  let ?c = "captcha_generate seed"
  have set: "set ?c \<subseteq> set ALPHABET" and len: "length ?c = 4"
    using draw_letters_alphabet [of CAPTCHA_LENGTH] by (simp_all add: captcha_generate_def CAPTCHA_LENGTH_def)
  have "chars_of ?c = map (\<lambda>c. [c]) ?c"
    using set alphabet_glyphs by (intro chars_of_ascii) (auto simp: list_all_iff)
  then have "\<forall>c \<in> set (chars_of ?c). glyph c \<noteq> None"
    using set alphabet_glyphs by (auto simp: list_all_iff)
  moreover have "?c \<noteq> []" using len by auto
  ultimately have "is_ok (render_png encode ?c)" using render_png_iff [of encode ?c] assms by simp
  moreover have "to_ascii_uppercase ?c = ?c"
    unfolding to_ascii_uppercase_def
    by (rule map_idI) (use set alphabet_glyphs in \<open>auto simp: list_all_iff\<close>)
  ultimately show ?thesis using len by (simp add: captcha_issue_at_def Let_def)
qed

theorem generated_captcha_renders_witness: "is_ok (render_png Ok (captcha_generate ''4242:1000''))"
  using generated_captcha_renders [of Ok "''4242:1000''"] by simp

text \<open>
  The picture determines the answer: every glyph is seven rows of five cells with ink in
  it, and two different characters of the alphabet have different glyphs.
\<close>

theorem glyphs_distinct:
  "list_all (\<lambda>c. case glyph [c] of None \<Rightarrow> False
       | Some rows \<Rightarrow> length rows = 7 \<and> list_all (\<lambda>r. length r = 5) rows \<and> (\<exists>r \<in> set rows. CHR ''1'' \<in> set r)) ALPHABET
   \<and> distinct (map (\<lambda>c. glyph [c]) ALPHABET)"
  by code_simp

end
