(* ===== verification/Password_Flow.thy ===== *)
theory Password_Flow
  imports Registration Captcha_Image
begin

text \<open>
  The password-reset endpoints of \<^verbatim>\<open>src/api/password_flow.rs\<close>: asking for a captcha, asking
  for a code, checking it, and setting the new password. They compose the captcha store, the
  code store and the account store; each store has its own lock, so that two requests can be
  interleaved between the calls.
\<close>

section \<open>State\<close>

record password_flow =
  pf_users :: user_store
  pf_otp :: otp_store
  pf_captcha :: captcha_store

text \<open>\<open>normalise\<close>: a string field of the body, trimmed, when something is left of it.\<close>

definition pf_normalise :: "json \<Rightarrow> string \<Rightarrow> string option" where
  "pf_normalise body key =
     (case json_str (json_get key body) of
        None \<Rightarrow> None
      | Some v \<Rightarrow> if trim v = [] then None else Some (trim v))"

definition api_error :: "nat \<Rightarrow> string \<Rightarrow> 'a reply" where
  "api_error status message = Rejected status (int status) message"

definition INVALID_OR_MISSING_DATA :: int where
  "INVALID_OR_MISSING_DATA = 102"

section \<open>Captcha and code\<close>

text \<open>\<open>generated\<close> is the answer that was drawn at random.\<close>

definition forgot_captcha ::
  "(pixels \<Rightarrow> 'b res) \<Rightarrow> u64 \<Rightarrow> string \<Rightarrow> string option \<Rightarrow> password_flow \<Rightarrow> password_flow \<times> 'b reply" where
  "forgot_captcha encode now_ms generated query pf =
     (case (case query of None \<Rightarrow> None | Some v \<Rightarrow> if trim v = [] then None else Some (trim v)) of
        None \<Rightarrow> (pf, api_error 400 ''An email address is required.'')
      | Some email \<Rightarrow>
          (case captcha_issue_at email generated now_ms (pf_captcha pf) of
             (cs, code) \<Rightarrow>
               (case render_png encode code of
                  Ok png \<Rightarrow> (pf\<lparr>pf_captcha := cs\<rparr>, Accepted png)
                | Err error \<Rightarrow>
                    (pf\<lparr>pf_captcha := cs\<rparr>, api_error 500 (''the captcha image could not be rendered: '' @ error))
                | Panic \<Rightarrow> (pf\<lparr>pf_captcha := cs\<rparr>, Crashed))))"

text \<open>
  \<open>request_otp\<close>; the reply of a success holds the address. \<open>fresh\<close> is the code that would be
  issued, and \<open>lower\<close> the Unicode lower-casing of the code store.
\<close>

definition request_otp ::
  "(string \<Rightarrow> string) \<Rightarrow> write_env \<Rightarrow> u64 \<Rightarrow> u64 \<Rightarrow> string \<Rightarrow> json \<Rightarrow> password_flow \<Rightarrow> password_flow \<times> string reply" where
  "request_otp lower e now now_ms fresh body pf =
     (case pf_normalise body ''email'' of
        None \<Rightarrow> (pf, api_error 400 ''An email address is required.'')
      | Some email \<Rightarrow>
          (case pf_normalise body ''captcha'' of
             None \<Rightarrow> (pf, Rejected 400 INVALID_OR_MISSING_DATA
               ''A captcha answer is required; fetch the image from /api/v1/auth/password/forgot/captcha first.'')
           | Some answer \<Rightarrow>
               (case captcha_verify_at email answer now_ms (pf_captcha pf) of
                  (cs, False) \<Rightarrow> (pf\<lparr>pf_captcha := cs\<rparr>, Rejected 400 INVALID_OR_MISSING_DATA
                    ''The captcha answer is wrong, or the image has expired. Fetch a new image and try again.'')
                | (cs, True) \<Rightarrow>
                    (case otp_issue lower e now fresh email (pf_otp pf) of
                       (os, Ok code) \<Rightarrow> (pf\<lparr>pf_captcha := cs, pf_otp := os\<rparr>, Accepted email)
                     | (os, Err error) \<Rightarrow>
                         (pf\<lparr>pf_captcha := cs, pf_otp := os\<rparr>,
                          api_error 500 (''the reset code could not be stored: '' @ error))
                     | (os, Panic) \<Rightarrow> (pf\<lparr>pf_captcha := cs, pf_otp := os\<rparr>, Crashed)))))"

text \<open>The replies that \<open>verify_otp\<close> and \<open>reset_password\<close> share for a check that did not pass.\<close>

fun check_reply :: "otp_check res \<Rightarrow> unit reply" where
  "check_reply (Ok Otp_Ok) = Accepted ()"
| "check_reply (Ok Otp_Missing) =
     api_error 400 ''No reset code has been requested for this address, or it was already used.''"
| "check_reply (Ok Otp_Expired) = api_error 400 ''This reset code has expired. Request a new one.''"
| "check_reply (Ok Otp_TooManyAttempts) =
     api_error 400 ''Too many wrong attempts for this code. Request a new one.''"
| "check_reply (Ok (Otp_WrongCode remaining)) =
     api_error 400 (''That code is not correct. '' @ nat_to_str (unat remaining) @ '' attempt(s) left.'')"
| "check_reply (Err error) = api_error 500 (''the reset code could not be checked: '' @ error)"
| "check_reply Panic = Crashed"

definition verify_otp ::
  "(string \<Rightarrow> string) \<Rightarrow> write_env \<Rightarrow> u64 \<Rightarrow> json \<Rightarrow> password_flow \<Rightarrow> password_flow \<times> unit reply" where
  "verify_otp lower e now body pf =
     (case (pf_normalise body ''email'', pf_normalise body ''code'') of
        (Some email, Some code) \<Rightarrow>
          (case otp_verify lower e now email code (pf_otp pf) of
             (os, r) \<Rightarrow> (pf\<lparr>pf_otp := os\<rparr>, check_reply r))
      | _ \<Rightarrow> (pf, api_error 400 ''An email address and a code are required.''))"

section \<open>Setting the password\<close>

text \<open>The three calls of \<open>reset_password\<close>, each of which takes the lock of its store.\<close>

definition reset_check ::
  "(string \<Rightarrow> string) \<Rightarrow> write_env \<Rightarrow> u64 \<Rightarrow> string \<Rightarrow> string \<Rightarrow> password_flow \<Rightarrow> password_flow \<times> unit reply" where
  "reset_check lower e now email code pf =
     (case otp_verify lower e now email code (pf_otp pf) of
        (os, r) \<Rightarrow> (pf\<lparr>pf_otp := os\<rparr>, check_reply r))"

definition reset_apply ::
  "crypto \<Rightarrow> write_env \<Rightarrow> string \<Rightarrow> string \<Rightarrow> string \<Rightarrow> password_flow \<Rightarrow> password_flow \<times> unit reply" where
  "reset_apply c e salt email password pf =
     (case get_user email (pf_users pf) of
        Ok None \<Rightarrow> (pf, api_error 400 ''No account uses that address.'')
      | Ok (Some user) \<Rightarrow>
          (case reset_password c e salt (us_id user) password (pf_users pf) of
             (us, Ok b) \<Rightarrow> (pf\<lparr>pf_users := us\<rparr>, Accepted ())
           | (us, Err error) \<Rightarrow> (pf\<lparr>pf_users := us\<rparr>, api_error 400 (''the password was not changed: '' @ error))
           | (us, Panic) \<Rightarrow> (pf\<lparr>pf_users := us\<rparr>, Crashed))
      | r \<Rightarrow> (pf, Crashed))"

definition reset_consume ::
  "(string \<Rightarrow> string) \<Rightarrow> write_env \<Rightarrow> u64 \<Rightarrow> string \<Rightarrow> password_flow \<Rightarrow> password_flow \<times> unit reply" where
  "reset_consume lower e now email pf =
     (case otp_consume_verified lower e now email (pf_otp pf) of
        (os, Ok True) \<Rightarrow> (pf\<lparr>pf_otp := os\<rparr>, Accepted ())
      | (os, Ok False) \<Rightarrow>
          (pf\<lparr>pf_otp := os\<rparr>, api_error 400 ''The reset code could not be consumed; request a new one.'')
      | (os, Err error) \<Rightarrow>
          (pf\<lparr>pf_otp := os\<rparr>, api_error 500 (''the reset code could not be consumed: '' @ error))
      | (os, Panic) \<Rightarrow> (pf\<lparr>pf_otp := os\<rparr>, Crashed))"

text \<open>Run the next call when the one before was accepted.\<close>

definition and_then ::
  "(password_flow \<Rightarrow> password_flow \<times> unit reply) \<Rightarrow> (password_flow \<Rightarrow> password_flow \<times> unit reply) \<Rightarrow>
   password_flow \<Rightarrow> password_flow \<times> unit reply" where
  "and_then f g pf = (case f pf of (pf', Accepted u) \<Rightarrow> g pf' | (pf', r) \<Rightarrow> (pf', r))"

definition reset_password_request ::
  "(string \<Rightarrow> string) \<Rightarrow> crypto \<Rightarrow> write_env \<Rightarrow> write_env \<Rightarrow> u64 \<Rightarrow> string \<Rightarrow> json \<Rightarrow>
   password_flow \<Rightarrow> password_flow \<times> unit reply" where
  "reset_password_request lower c eo eu now salt body pf =
     (case (pf_normalise body ''email'', pf_normalise body ''code'', pf_normalise body ''password'') of
        (Some email, Some code, Some password) \<Rightarrow>
          and_then (reset_check lower eo now email code)
            (and_then (reset_apply c eu salt email password) (reset_consume lower eo now email)) pf
      | _ \<Rightarrow> (pf, api_error 400 ''An email address, a code and a new password are required.''))"

section \<open>What the calls do\<close>

lemma reset_password_Ok:
  assumes "reset_password c e salt i pw st = (st', Ok b)" and "users_sound st" and "crypto_ok c"
    and "find_user_by_id (st_mem (ust_users st)) i = Some u"
  shows "\<exists>p h. decode_password c pw = Ok p \<and> 6 \<le> length p \<and> verify_password c p h = Valid False
    \<and> st_mem (ust_users st') = hput (us_email u) (u\<lparr>us_password_hash := h\<rparr>) (st_mem (ust_users st))
    \<and> ust_tokens st' = ust_tokens st"
proof -
  have wf: "wf_users (st_mem (ust_users st))" using assms(2) by (simp add: store_sound_def)
  from assms(1) obtain p h where p: "decode_password c pw = Ok p" "6 \<le> length p" "cr_argon_hash c salt p = Ok h"
    and run: "us_mutate_if_changed e (reset_step i h) st = (st', Ok b)"
    unfolding reset_password_def Let_def
    by (auto simp: res_bind_Ok_iff split: res.splits if_splits)
  obtain b' where "reset_step i h (st_mem (ust_users st)) = (st_mem (ust_users st'), Ok (b, b'))"
    and tokens: "ust_tokens st' = ust_tokens st"
    using run by (rule us_mutate_OkE)
  then have "st_mem (ust_users st') = hput (us_email u) (u\<lparr>us_password_hash := h\<rparr>) (st_mem (ust_users st))"
    using modify_user_hput(1) [OF wf assms(4)] by (simp add: reset_step_def assms(4))
  with p tokens verify_argon [OF assms(3) p(3)] show ?thesis by blast
qed

lemma find_user_in: "find_user us email = Some u \<Longrightarrow> u \<in> set (hvalues us)"
  by (auto simp: find_user_def Let_def dest!: find_SomeD hget_hvalues split: option.splits)

lemma find_user_by_id_in:
  assumes "u \<in> set (hvalues us)"
  shows "\<exists>u'. find_user_by_id us (us_id u) = Some u' \<and> us_id u' = us_id u"
proof (cases "find_user_by_id us (us_id u)")
  case None
  with assms show ?thesis by (auto simp: find_user_by_id_def find_None_iff)
next
  case (Some u')
  then show ?thesis by (auto simp: find_user_by_id_def dest: find_SomeD)
qed

lemma check_reply_Accepted [simp]: "check_reply r = Accepted u \<longleftrightarrow> r = Ok Otp_Ok"
  by (cases r rule: check_reply.cases) (auto simp: api_error_def)

lemma reset_check_cases:
  assumes "reset_check lower e now email code pf = (pf', r)"
  shows "pf_users pf' = pf_users pf
    \<and> (r = Accepted () \<longrightarrow> otp_pending (pf_otp pf) (lower email) = Some (trim code))
    \<and> (\<forall>k. otp_pending (pf_otp pf') k = otp_pending (pf_otp pf) k)"
  using assms otp_verify_Ok_pending [of lower e now email code "pf_otp pf"]
    otp_verify_pending [of lower e now email code "pf_otp pf"]
  by (auto simp: reset_check_def split: prod.splits)

lemma reset_apply_otp:
  "reset_apply c e salt email password pf = (pf', r) \<Longrightarrow> pf_otp pf' = pf_otp pf"
  by (auto simp: reset_apply_def split: res.splits option.splits prod.splits)

lemma reset_consume_Accepted:
  assumes "reset_consume lower e now email pf = (pf', r)"
  shows "pf_users pf' = pf_users pf \<and> (r = Accepted () \<longrightarrow> otp_pending (pf_otp pf') (lower email) = None)"
proof -
  obtain os q where q: "otp_consume_verified lower e now email (pf_otp pf) = (os, q)" by fastforce
  then have "q = Ok True \<Longrightarrow> otp_pending os (lower email) = None"
    by (cases rule: otp_consume_cases) (auto simp: otp_pending_def)
  with assms q show ?thesis
    by (auto simp: reset_consume_def api_error_def split: res.splits bool.splits)
qed

section \<open>Properties\<close>

text \<open>
  C14. Resetting a password: without the outstanding code of the address no account is touched;
  a reset that succeeds changed the password of the account with the address's id and nothing
  else, spent the code, and left every session as it was.
\<close>

theorem password_reset_needs_code:
  assumes "reset_password_request lower c eo eu now salt body pf = (pf', r)"
    and "pf_normalise body ''email'' = Some email" and "pf_normalise body ''code'' = Some code"
    and "users_sound (pf_users pf)" and "crypto_ok c"
  shows "(otp_pending (pf_otp pf) (lower email) \<noteq> Some (trim code) \<longrightarrow> pf_users pf' = pf_users pf \<and> r \<noteq> Accepted ())
    \<and> (r = Accepted () \<longrightarrow>
        (\<exists>u u' pw p h. find_user (st_mem (ust_users (pf_users pf))) email = Some u
          \<and> find_user_by_id (st_mem (ust_users (pf_users pf))) (us_id u) = Some u'
          \<and> pf_normalise body ''password'' = Some pw \<and> decode_password c pw = Ok p
          \<and> verify_password c p h = Valid False
          \<and> st_mem (ust_users (pf_users pf'))
            = hput (us_email u') (u'\<lparr>us_password_hash := h\<rparr>) (st_mem (ust_users (pf_users pf))))
        \<and> ust_tokens (pf_users pf') = ust_tokens (pf_users pf)
        \<and> otp_pending (pf_otp pf') (lower email) = None)"
proof (cases "pf_normalise body ''password''")
  case None
  with assms(1) show ?thesis by (auto simp: reset_password_request_def api_error_def split: option.splits)
next
  case (Some pw)
  let ?us = "st_mem (ust_users (pf_users pf))"
  obtain pf1 r1 where 1: "reset_check lower eo now email code pf = (pf1, r1)" by fastforce
  note check = reset_check_cases [OF 1]
  show ?thesis
  proof (cases "r1 = Accepted ()")
    case False
    with assms(1-3) Some 1 check show ?thesis
      by (auto simp: reset_password_request_def and_then_def split: reply.splits)
  next
    case r1: True
    obtain pf2 r2 where 2: "reset_apply c eu salt email pw pf1 = (pf2, r2)" by fastforce
    have run: "(pf', r) = (case r2 of Accepted u \<Rightarrow> reset_consume lower eo now email pf2 | q \<Rightarrow> (pf2, q))"
      using assms(1-3) Some 1 2 r1 by (auto simp: reset_password_request_def and_then_def split: reply.splits)
    show ?thesis
    proof (cases "r2 = Accepted ()")
      case False
      with run check r1 show ?thesis by (auto split: reply.splits)
    next
      case r2: True
      with 2 obtain u us b where u: "get_user email (pf_users pf1) = Ok (Some u)"
          and us: "reset_password c eu salt (us_id u) pw (pf_users pf1) = (us, Ok b)" "pf2 = pf1\<lparr>pf_users := us\<rparr>"
        by (auto simp: reset_apply_def api_error_def split: res.splits option.splits prod.splits)
      from u check have f: "find_user ?us email = Some u"
        by (simp add: get_user_def users_sound_read [OF assms(4)])
      obtain u' where u': "find_user_by_id ?us (us_id u) = Some u'"
        using find_user_by_id_in [OF find_user_in [OF f]] by blast
      from us(1) check have "reset_password c eu salt (us_id u) pw (pf_users pf) = (us, Ok b)" by simp
      from reset_password_Ok [OF this assms(4,5) u'] obtain p h where p: "decode_password c pw = Ok p"
          "verify_password c p h = Valid False"
          "st_mem (ust_users us) = hput (us_email u') (u'\<lparr>us_password_hash := h\<rparr>) ?us"
          "ust_tokens us = ust_tokens (pf_users pf)" by blast
      have con: "reset_consume lower eo now email pf2 = (pf', r)" using run r2 by simp
      note fin = reset_consume_Accepted [OF con]
      have us': "pf_users pf' = us" using fin us(2) by simp
      have "r = Accepted () \<longrightarrow> otp_pending (pf_otp pf') (lower email) = None" using fin by simp
      with p f u' Some us' check r1 show ?thesis by auto
    qed
  qed
qed

definition demo_flow :: password_flow where
  "demo_flow = \<lparr>pf_users = demo_users [(''a'', demo_user ''i'' ''a'' (argon_prefix @ ''old-pass'') ''normal'')],
     pf_otp = fst (otp_issue id we_all_ok 100 ''123456'' ''a'' demo_otp),
     pf_captcha = [(''a'', \<lparr>ce_code = ''A7K2'', ce_issued_ms = 1000\<rparr>)]\<rparr>"

definition demo_reset :: "string \<Rightarrow> json" where
  "demo_reset pw = JObj [(''email'', JStr ''a''), (''code'', JStr ''123456''), (''password'', JStr pw)]"

lemma demo_reset_fields:
  "pf_normalise (demo_reset pw) ''email'' = Some ''a''"
  "pf_normalise (demo_reset pw) ''code'' = Some ''123456''"
proof -
  have "trim ''a'' = ''a''" "trim ''123456'' = ''123456''" by code_simp+
  then show "pf_normalise (demo_reset pw) ''email'' = Some ''a''"
    "pf_normalise (demo_reset pw) ''code'' = Some ''123456''"
    by (simp_all add: pf_normalise_def demo_reset_def)
qed

lemma demo_flow_sound: "users_sound (pf_users demo_flow)"
  by (simp only: demo_flow_def password_flow.simps, rule demo_users_sound)
     (simp add: wf_map_def keyed_def demo_user_def valid_user_def)

lemma demo_reset_accepted:
  "snd (reset_password_request id demo_crypto we_all_ok we_all_ok 160 ''salt'' (demo_reset ''new-pass'') demo_flow) = Accepted ()"
  by code_simp

theorem password_reset_needs_code_witness:
  "let pf' = fst (reset_password_request id demo_crypto we_all_ok we_all_ok 160 ''salt'' (demo_reset ''new-pass'') demo_flow)
   in otp_pending (pf_otp pf') ''a'' = None \<and> ust_tokens (pf_users pf') = ust_tokens (pf_users demo_flow)"
  using password_reset_needs_code [where pf = demo_flow and lower = id, OF surjective_pairing
      demo_reset_fields demo_flow_sound demo_crypto_ok, of we_all_ok we_all_ok 160 "''salt''" "''new-pass''"]
    demo_reset_accepted
  by (simp add: Let_def)

text \<open>
  Asking for a code needs the captcha: a request that is accepted answered the outstanding
  captcha of its address in time, which is spent, and its fresh code replaces the old one;
  otherwise no code is touched, but by a write that failed. The reply is the same whatever
  accounts exist.
\<close>

theorem request_otp_needs_captcha:
  assumes "request_otp lower e now now_ms fresh body pf = (pf', r)"
  shows "(\<forall>email. r = Accepted email \<longrightarrow>
        (\<exists>answer entry. pf_normalise body ''email'' = Some email \<and> pf_normalise body ''captcha'' = Some answer
          \<and> hget (pf_captcha pf) (to_ascii_lowercase email) = Some entry \<and> \<not> expired entry now_ms
          \<and> eq_ignore_ascii_case (ce_code entry) (trim answer)
          \<and> hget (pf_captcha pf') (to_ascii_lowercase email) = None
          \<and> otp_pending (pf_otp pf') (lower email) = Some fresh))
    \<and> (\<forall>status code message. r = Rejected status code message \<and> status \<noteq> 500 \<longrightarrow> pf_otp pf' = pf_otp pf)
    \<and> pf_users pf' = pf_users pf
    \<and> snd (request_otp lower e now now_ms fresh body (pf\<lparr>pf_users := us\<rparr>)) = r"
proof (cases "pf_normalise body ''email''")
  case None
  with assms show ?thesis by (auto simp: request_otp_def api_error_def)
next
  case (Some email)
  note email = Some
  show ?thesis
  proof (cases "pf_normalise body ''captcha''")
    case None
    with assms email show ?thesis by (auto simp: request_otp_def)
  next
    case (Some answer)
    obtain cs b where v: "captcha_verify_at email answer now_ms (pf_captcha pf) = (cs, b)" by fastforce
    show ?thesis
    proof (cases b)
      case False
      with assms email Some v show ?thesis by (auto simp: request_otp_def)
    next
      case True
      have "captcha_verify_at email answer now_ms (pf_captcha pf) = (cs, True)" using v True by simp
      note right = this [unfolded captcha_verify_True]
      obtain os q where q: "otp_issue lower e now fresh email (pf_otp pf) = (os, q)" by fastforce
      then have "otp_pending os (lower email) = Some fresh"
        using otp_issue_entries [of lower e now fresh email "pf_otp pf"] by (simp add: otp_pending_def)
      with assms email Some v True q right show ?thesis
        by (cases q) (auto simp: request_otp_def api_error_def)
    qed
  qed
qed

theorem request_otp_needs_captcha_witness:
  "let b = JObj [(''email'', JStr ''a''), (''captcha'', JStr ''a7k2'')];
       p = request_otp id we_all_ok 200 2000 ''654321'' b demo_flow
   in snd p = Accepted ''a'' \<and> otp_pending (pf_otp (fst p)) ''a'' = Some ''654321''"
proof -
  let ?b = "JObj [(''email'', JStr ''a''), (''captcha'', JStr ''a7k2'')]"
  have "snd (request_otp id we_all_ok 200 2000 ''654321'' ?b demo_flow) = Accepted ''a''" by code_simp
  with request_otp_needs_captcha [where us = "pf_users demo_flow", OF surjective_pairing, of id we_all_ok 200 2000 "''654321''" ?b demo_flow]
  show ?thesis by (auto simp: Let_def)
qed

text \<open>
  The calls of two resets can be interleaved: both requests present the same code, both
  checks pass before the code is consumed, and both passwords are set, one after the other.
  The request whose consumption fails is told so, although its password is the one that is
  left.
\<close>

theorem two_resets_one_code:
  "let check = reset_check id we_all_ok 160 ''a'' ''123456'';
       set = (\<lambda>pw. reset_apply demo_crypto we_all_ok ''salt'' ''a'' pw);
       consume = reset_consume id we_all_ok 160 ''a'';
       (s1, r1) = check demo_flow; (s2, r2) = check s1;
       (s3, r3) = set ''first-pass'' s2; (s4, r4) = set ''second-pass'' s3;
       (s5, r5) = consume s4; (s6, r6) = consume s5
   in [r1, r2, r3, r4, r5] = replicate 5 (Accepted ()) \<and> r6 \<noteq> Accepted ()
     \<and> snd (login demo_crypto we_all_ok 170 ''s'' ''t'' ''a'' ''first-pass'' (pf_users s6)) = Ok None
     \<and> snd (login demo_crypto we_all_ok 170 ''s'' ''t'' ''a'' ''second-pass'' (pf_users s6)) = Ok (Some ''t'')"
  by code_simp

text \<open>
  The new password is trimmed before it is stored, and a login compares what was typed: a
  user who resets to a password with a blank around it cannot log in with it.
\<close>

theorem reset_password_trims:
  "let (s, r) = reset_password_request id demo_crypto we_all_ok we_all_ok 160 ''salt'' (demo_reset '' new-pass'') demo_flow
   in r = Accepted ()
     \<and> snd (login demo_crypto we_all_ok 170 ''s'' ''t'' ''a'' '' new-pass'' (pf_users s)) = Ok None
     \<and> snd (login demo_crypto we_all_ok 170 ''s'' ''t'' ''a'' ''new-pass'' (pf_users s)) = Ok (Some ''t'')"
  by code_simp

end
