(* ===== verification/Agent_Checkpoints.thy ===== *)
theory Agent_Checkpoints
  imports Tx_Store
begin

text \<open>
  \<open>AgentCheckpointStore\<close> of \<^verbatim>\<open>src/agent_checkpoint.rs\<close>: the waiting states of interrupted
  agent workflows, one per conversation, and the fifteen-minute claims under which a resumed
  run holds one. A mutation works on a copy of the map, validates the copy, writes it, and
  only then replaces the map. The workflow state itself is of an arbitrary type \<open>'c\<close>.
\<close>

section \<open>Data\<close>

definition CLAIM_LEASE_MS :: u64 where
  "CLAIM_LEASE_MS = 15 * 60 * 1000"

record 'c agent_checkpoint =
  cp_checkpoint_id :: string
  cp_conversation_id :: string
  cp_owner_id :: string
  cp_tenant_id :: string
  cp_agent_id :: string
  cp_dsl_fingerprint :: string
  cp_checkpoint :: 'c
  cp_created_at :: u64
  cp_updated_at :: u64
  cp_claim_id :: "string option"
  cp_claim_expires_at :: u64

record 'c checkpoint_claim =
  cl_record :: "'c agent_checkpoint"
  cl_claim_id :: string

datatype 'c claim_result =
    Claimed "'c checkpoint_claim" | Claim_Missing | Claim_Busy | Resume_Token_Mismatch

type_synonym 'c checkpoints = "(string, 'c agent_checkpoint) hmap"

record 'c checkpoint_store =
  cps_records :: "'c checkpoints"
  cps_disk :: "'c agent_checkpoint list disk"

section \<open>Validation and mutation\<close>

definition blank_identity :: "'c agent_checkpoint \<Rightarrow> bool" where
  "blank_identity r \<longleftrightarrow>
     trim (cp_checkpoint_id r) = [] \<or> trim (cp_conversation_id r) = [] \<or> trim (cp_owner_id r) = [] \<or>
     trim (cp_tenant_id r) = [] \<or> trim (cp_agent_id r) = [] \<or> trim (cp_dsl_fingerprint r) = []"

text \<open>\<open>conversations\<close> and \<open>checkpoint_ids\<close> are the hash sets the loop fills.\<close>

fun validate_from ::
  "string set \<Rightarrow> string set \<Rightarrow> 'c agent_checkpoint list \<Rightarrow> unit res" where
  "validate_from conversations checkpoint_ids [] = Ok ()"
| "validate_from conversations checkpoint_ids (r # rs) =
     (if blank_identity r then Err ''Agent checkpoint identity fields must not be empty''
      else if cp_conversation_id r \<in> conversations
      then Err (''Duplicate Agent checkpoint conversation: '' @ cp_conversation_id r)
      else if cp_checkpoint_id r \<in> checkpoint_ids
      then Err (''Duplicate Agent checkpoint resume token: '' @ cp_checkpoint_id r)
      else if cp_claim_id r = None \<and> cp_claim_expires_at r \<noteq> 0
      then Err (''Agent checkpoint has a lease without a claim: '' @ cp_checkpoint_id r)
      else validate_from (insert (cp_conversation_id r) conversations)
             (insert (cp_checkpoint_id r) checkpoint_ids) rs)"

definition validate_records :: "'c agent_checkpoint list \<Rightarrow> unit res" where
  "validate_records rs = validate_from {} {} rs"

text \<open>\<open>e\<close> is \<open>None\<close> for a store without a file.\<close>

definition cp_mutate ::
  "write_env option \<Rightarrow> ('c checkpoints \<Rightarrow> 'c checkpoints \<times> ('a \<times> bool) res) \<Rightarrow>
   'c checkpoint_store \<Rightarrow> 'c checkpoint_store \<times> 'a res" where
  "cp_mutate e oper st =
     (case oper (cps_records st) of
        (proposed, Ok (result, changed)) \<Rightarrow>
          if \<not> changed then (st, Ok result)
          else (case validate_records (hvalues proposed) of
              Ok u \<Rightarrow>
                (case tx_persist e (hvalues proposed) (cps_disk st) of
                   (d, Ok u) \<Rightarrow> (st\<lparr>cps_records := proposed, cps_disk := d\<rparr>, Ok result)
                 | (d, Err err) \<Rightarrow> (st\<lparr>cps_disk := d\<rparr>, Err err)
                 | (d, Panic) \<Rightarrow> (st\<lparr>cps_disk := d\<rparr>, Panic))
            | Err err \<Rightarrow> (st, Err err)
            | Panic \<Rightarrow> (st, Panic))
      | (proposed, Err err) \<Rightarrow> (st, Err err)
      | (proposed, Panic) \<Rightarrow> (st, Panic))"

section \<open>Operations\<close>

text \<open>Opening the store: claims of the previous process are cleared.\<close>

definition cp_clear :: "'c agent_checkpoint \<Rightarrow> 'c agent_checkpoint" where
  "cp_clear r = r\<lparr>cp_claim_id := None, cp_claim_expires_at := 0\<rparr>"

definition checkpoint_store_new ::
  "'c agent_checkpoint list contents \<Rightarrow> 'c agent_checkpoint list disk \<Rightarrow> 'c checkpoint_store res" where
  "checkpoint_store_new file d =
     res_bind (load_json file) (\<lambda>loaded.
       let records = map cp_clear (case loaded of None \<Rightarrow> [] | Some rs \<Rightarrow> rs)
       in res_map (\<lambda>_. \<lparr>cps_records = hcollect cp_conversation_id records, cps_disk = d\<rparr>)
            (validate_records records))"

definition save_step ::
  "'c agent_checkpoint \<Rightarrow> 'c checkpoints \<Rightarrow> 'c checkpoints \<times> ('c agent_checkpoint \<times> bool) res" where
  "save_step r records =
     (if hget records (cp_conversation_id r) \<noteq> None
      then (records, Err (''Conversation already has a pending Agent checkpoint: '' @ cp_conversation_id r))
      else (hput (cp_conversation_id r) r records, Ok (r, True)))"

definition save_waiting ::
  "write_env option \<Rightarrow> u64 \<Rightarrow> string \<Rightarrow> string \<Rightarrow> string \<Rightarrow> string \<Rightarrow> string \<Rightarrow> string \<Rightarrow> 'c \<Rightarrow>
   'c checkpoint_store \<Rightarrow> 'c checkpoint_store \<times> 'c agent_checkpoint res" where
  "save_waiting e now uuid conversation owner tenant agent fingerprint checkpoint =
     cp_mutate e (save_step
       \<lparr>cp_checkpoint_id = uuid, cp_conversation_id = conversation, cp_owner_id = owner,
        cp_tenant_id = tenant, cp_agent_id = agent, cp_dsl_fingerprint = fingerprint,
        cp_checkpoint = checkpoint, cp_created_at = now, cp_updated_at = now,
        cp_claim_id = None, cp_claim_expires_at = 0\<rparr>)"

definition cp_claim_step ::
  "u64 \<Rightarrow> string \<Rightarrow> string \<Rightarrow> string \<Rightarrow> string \<Rightarrow> string \<Rightarrow> string option \<Rightarrow>
   'c checkpoints \<Rightarrow> 'c checkpoints \<times> ('c claim_result \<times> bool) res" where
  "cp_claim_step now uuid conversation owner tenant agent resume_token records =
     (case hget records conversation of
        None \<Rightarrow> (records, Ok (Claim_Missing, False))
      | Some r \<Rightarrow>
          if cp_owner_id r \<noteq> owner \<or> cp_tenant_id r \<noteq> tenant \<or> cp_agent_id r \<noteq> agent
          then (records, Ok (Claim_Missing, False))
          else if (case resume_token of None \<Rightarrow> False | Some token \<Rightarrow> token \<noteq> cp_checkpoint_id r)
          then (records, Ok (Resume_Token_Mismatch, False))
          else if cp_claim_id r \<noteq> None \<and> now < cp_claim_expires_at r
          then (records, Ok (Claim_Busy, False))
          else
            let r = r\<lparr>cp_claim_id := Some uuid, cp_claim_expires_at := sat_add now CLAIM_LEASE_MS,
                      cp_updated_at := now\<rparr>
            in (hput conversation r records, Ok (Claimed \<lparr>cl_record = r, cl_claim_id = uuid\<rparr>, True)))"

definition cp_claim ::
  "write_env option \<Rightarrow> u64 \<Rightarrow> string \<Rightarrow> string \<Rightarrow> string \<Rightarrow> string \<Rightarrow> string \<Rightarrow> string option \<Rightarrow>
   'c checkpoint_store \<Rightarrow> 'c checkpoint_store \<times> 'c claim_result res" where
  "cp_claim e now uuid conversation owner tenant agent resume_token =
     cp_mutate e (cp_claim_step now uuid conversation owner tenant agent resume_token)"

text \<open>\<open>claimed_record_mut\<close>: the record of a claim, unless it is gone or the claim is stale.\<close>

definition claimed_record :: "'c checkpoint_claim \<Rightarrow> 'c checkpoints \<Rightarrow> 'c agent_checkpoint res" where
  "claimed_record claim records =
     (case hget records (cp_conversation_id (cl_record claim)) of
        None \<Rightarrow> Err ''Agent checkpoint claim is no longer present''
      | Some r \<Rightarrow>
          if cp_claim_id r \<noteq> Some (cl_claim_id claim) then Err ''Agent checkpoint claim is stale''
          else Ok r)"

definition with_claimed ::
  "'c checkpoint_claim \<Rightarrow> ('c agent_checkpoint \<Rightarrow> 'c checkpoints \<times> 'a) \<Rightarrow>
   'c checkpoints \<Rightarrow> 'c checkpoints \<times> ('a \<times> bool) res" where
  "with_claimed claim f records =
     (case claimed_record claim records of
        Ok r \<Rightarrow> (case f r of (records', v) \<Rightarrow> (records', Ok (v, True)))
      | Err err \<Rightarrow> (records, Err err)
      | Panic \<Rightarrow> (records, Panic))"

definition release_step :: "u64 \<Rightarrow> 'c checkpoint_claim \<Rightarrow> 'c checkpoints \<Rightarrow> 'c checkpoints \<times> (unit \<times> bool) res" where
  "release_step now claim records =
     with_claimed claim (\<lambda>r. (hput (cp_conversation_id (cl_record claim))
       (r\<lparr>cp_claim_id := None, cp_claim_expires_at := 0, cp_updated_at := now\<rparr>) records, ())) records"

definition cp_release ::
  "write_env option \<Rightarrow> u64 \<Rightarrow> 'c checkpoint_claim \<Rightarrow> 'c checkpoint_store \<Rightarrow> 'c checkpoint_store \<times> unit res" where
  "cp_release e now claim = cp_mutate e (release_step now claim)"

definition replace_step ::
  "u64 \<Rightarrow> string \<Rightarrow> 'c checkpoint_claim \<Rightarrow> string \<Rightarrow> 'c \<Rightarrow>
   'c checkpoints \<Rightarrow> 'c checkpoints \<times> ('c agent_checkpoint \<times> bool) res" where
  "replace_step now uuid claim fingerprint checkpoint records =
     with_claimed claim (\<lambda>r.
       let r = r\<lparr>cp_checkpoint_id := uuid, cp_dsl_fingerprint := fingerprint, cp_checkpoint := checkpoint,
                 cp_claim_id := None, cp_claim_expires_at := 0, cp_updated_at := now\<rparr>
       in (hput (cp_conversation_id (cl_record claim)) r records, r)) records"

definition replace_claimed ::
  "write_env option \<Rightarrow> u64 \<Rightarrow> string \<Rightarrow> 'c checkpoint_claim \<Rightarrow> string \<Rightarrow> 'c \<Rightarrow>
   'c checkpoint_store \<Rightarrow> 'c checkpoint_store \<times> 'c agent_checkpoint res" where
  "replace_claimed e now uuid claim fingerprint checkpoint =
     cp_mutate e (replace_step now uuid claim fingerprint checkpoint)"

definition delete_claimed_step ::
  "'c checkpoint_claim \<Rightarrow> 'c checkpoints \<Rightarrow> 'c checkpoints \<times> (unit \<times> bool) res" where
  "delete_claimed_step claim records =
     with_claimed claim (\<lambda>r. (hdel (cp_conversation_id (cl_record claim)) records, ())) records"

definition delete_claimed ::
  "write_env option \<Rightarrow> 'c checkpoint_claim \<Rightarrow> 'c checkpoint_store \<Rightarrow> 'c checkpoint_store \<times> unit res" where
  "delete_claimed e claim = cp_mutate e (delete_claimed_step claim)"

definition delete_unclaimed_step ::
  "'c agent_checkpoint \<Rightarrow> 'c checkpoints \<Rightarrow> 'c checkpoints \<times> (unit \<times> bool) res" where
  "delete_unclaimed_step r records =
     (case hget records (cp_conversation_id r) of
        None \<Rightarrow> (records, Err ''Agent checkpoint is no longer present'')
      | Some current \<Rightarrow>
          if cp_checkpoint_id current \<noteq> cp_checkpoint_id r \<or> cp_claim_id current \<noteq> None
          then (records, Err ''Agent checkpoint changed before cleanup'')
          else (hdel (cp_conversation_id r) records, Ok ((), True)))"

definition delete_unclaimed ::
  "write_env option \<Rightarrow> 'c agent_checkpoint \<Rightarrow> 'c checkpoint_store \<Rightarrow> 'c checkpoint_store \<times> unit res" where
  "delete_unclaimed e r = cp_mutate e (delete_unclaimed_step r)"

section \<open>The invariant\<close>

definition cp_wf :: "'c checkpoints \<Rightarrow> bool" where
  "cp_wf m \<longleftrightarrow> keyed cp_conversation_id m \<and> validate_records (hvalues m) = Ok ()"

lemma validate_from_Ok:
  "validate_from C K rs = Ok () \<longleftrightarrow>
     (\<forall>r \<in> set rs. \<not> blank_identity r \<and> (cp_claim_id r = None \<longrightarrow> cp_claim_expires_at r = 0))
     \<and> distinct (map cp_conversation_id rs) \<and> C \<inter> cp_conversation_id ` set rs = {}
     \<and> distinct (map cp_checkpoint_id rs) \<and> K \<inter> cp_checkpoint_id ` set rs = {}"
  by (induction rs arbitrary: C K) auto

lemma validate_records_Ok:
  "validate_records rs = Ok () \<longleftrightarrow>
     (\<forall>r \<in> set rs. \<not> blank_identity r \<and> (cp_claim_id r = None \<longrightarrow> cp_claim_expires_at r = 0))
     \<and> distinct (map cp_conversation_id rs) \<and> distinct (map cp_checkpoint_id rs)"
  by (simp add: validate_records_def validate_from_Ok)

lemma validate_records_no_panic [simp]: "validate_records rs \<noteq> Panic"
proof -
  have "validate_from C K rs \<noteq> Panic" for C K by (induction rs arbitrary: C K) auto
  then show ?thesis by (simp add: validate_records_def)
qed

lemma cp_mutate_cases [consumes 2, case_names Refused Unchanged Stored Lost]:
  assumes "cp_mutate e oper st = (st', r)" and "\<And>m. oper (cps_records st) \<noteq> (m, Panic)"
  obtains err where "st' = st" "r = Err err"
  | m v where "oper (cps_records st) = (m, Ok (v, False))" "st' = st" "r = Ok v"
  | m v d u where "oper (cps_records st) = (m, Ok (v, True))" "validate_records (hvalues m) = Ok ()"
      "tx_persist e (hvalues m) (cps_disk st) = (d, Ok u)" "st' = st\<lparr>cps_records := m, cps_disk := d\<rparr>" "r = Ok v"
  | m v d err where "oper (cps_records st) = (m, Ok (v, True))"
      "tx_persist e (hvalues m) (cps_disk st) = (d, Err err)" "st' = st\<lparr>cps_disk := d\<rparr>" "r = Err err"
proof -
  obtain m q where mq: "oper (cps_records st) = (m, q)" by fastforce
  show ?thesis
  proof (cases q)
    case (Ok vc)
    obtain v c where vc: "vc = (v, c)" by (cases vc)
    show ?thesis
    proof (cases c)
      case False
      with assms(1) mq Ok vc show ?thesis by (intro that(2) [of m v]) (simp_all add: cp_mutate_def)
    next
      case changed: True
      show ?thesis
      proof (cases "validate_records (hvalues m)")
        case valid: (Ok u)
        obtain d p where dp: "tx_persist e (hvalues m) (cps_disk st) = (d, p)" by fastforce
        show ?thesis
        proof (cases p)
          case (Ok u')
          with assms(1) mq \<open>q = Ok vc\<close> vc changed valid dp show ?thesis
            by (intro that(3) [of m v d u']) (simp_all add: cp_mutate_def)
        next
          case (Err err)
          with assms(1) mq \<open>q = Ok vc\<close> vc changed valid dp show ?thesis
            by (intro that(4) [of m v d err]) (simp_all add: cp_mutate_def)
        qed (use dp in \<open>simp add: tx_persist_no_panic\<close>)
      next
        case (Err err)
        with assms(1) mq Ok vc changed show ?thesis by (intro that(1) [of err]) (simp_all add: cp_mutate_def)
      qed simp
    qed
  next
    case (Err err)
    with assms(1) mq show ?thesis by (intro that(1) [of err]) (simp_all add: cp_mutate_def)
  qed (use assms(2) [of m] mq in simp)
qed

text \<open>
  The file holds the records in memory, up to the claims, which opening the store clears; a
  store that was never written has no file.
\<close>

definition cp_synced :: "'c checkpoint_store \<Rightarrow> bool" where
  "cp_synced st \<longleftrightarrow>
     map cp_clear (case dk_file (cps_disk st) of None \<Rightarrow> [] | Some rs \<Rightarrow> rs)
     = map cp_clear (hvalues (cps_records st))"

definition cp_sound :: "'c checkpoint_store \<Rightarrow> bool" where
  "cp_sound st \<longleftrightarrow> cp_wf (cps_records st) \<and> cp_synced st"

text \<open>The contract of an operation: it does not panic, and stores records under their conversations.\<close>

locale staged_op =
  fixes oper :: "'c checkpoints \<Rightarrow> 'c checkpoints \<times> ('a \<times> bool) res"
  assumes staged_no_panic: "oper m \<noteq> (m', Panic)"
    and staged_keyed: "keyed cp_conversation_id m \<Longrightarrow> oper m = (m', Ok (v, True)) \<Longrightarrow> keyed cp_conversation_id m'"
begin

lemma staged_sound:
  assumes "cp_mutate (Some w) oper st = (st', r)" and "cp_sound st" and "reliable w"
  shows "cp_sound st' \<and> r \<noteq> Panic \<and> (\<forall>err. r = Err err \<longrightarrow> cps_records st' = cps_records st)"
  using assms(1) staged_no_panic
proof (cases rule: cp_mutate_cases)
  case (Stored m v d u)
  then have "dk_file d = Some (hvalues m)" by (auto dest: atomic_write_Ok)
  with Stored assms(2) staged_keyed [OF _ Stored(1)] show ?thesis
    by (simp add: cp_sound_def cp_wf_def cp_synced_def)
next
  case (Lost m v d err)
  then have "d = cps_disk st" using assms(3) by (auto dest: atomic_write_Err)
  with Lost assms(2) show ?thesis by simp
qed (use assms(2) in auto)

lemma staged_step:
  assumes "cp_mutate e oper st = (st', r)"
  shows "cps_records st' = cps_records st \<or> (\<exists>v. r = Ok v \<and> oper (cps_records st) = (cps_records st', Ok (v, True)))"
  using assms staged_no_panic by (cases rule: cp_mutate_cases) auto

lemma staged_keep:
  assumes "cp_mutate e oper st = (st', r)"
    and "\<And>v m. oper (cps_records st) = (m, Ok (v, True)) \<Longrightarrow> hget m k = hget (cps_records st) k"
  shows "hget (cps_records st') k = hget (cps_records st) k"
  using staged_step [OF assms(1)] assms(2) by auto

lemma staged_Ok:
  assumes "cp_mutate e oper st = (st', Ok v)"
  shows "\<exists>b m. oper (cps_records st) = (m, Ok (v, b)) \<and> cps_records st' = (if b then m else cps_records st)"
  using assms staged_no_panic by (cases rule: cp_mutate_cases) auto

end

lemma claimed_record_Ok:
  "claimed_record claim m = Ok r \<longleftrightarrow>
     hget m (cp_conversation_id (cl_record claim)) = Some r \<and> cp_claim_id r = Some (cl_claim_id claim)"
  by (auto simp: claimed_record_def split: option.splits)

lemma claimed_record_no_panic [simp]: "claimed_record claim m \<noteq> Panic"
  by (auto simp: claimed_record_def split: option.splits)

lemma with_claimed_no_panic [simp]: "with_claimed claim f m \<noteq> (m', Panic)"
  by (auto simp: with_claimed_def split: res.splits prod.splits)

lemma with_claimed_Ok:
  "with_claimed claim f m = (m', Ok (v, b)) \<longleftrightarrow>
     b \<and> (\<exists>r. hget m (cp_conversation_id (cl_record claim)) = Some r
              \<and> cp_claim_id r = Some (cl_claim_id claim) \<and> f r = (m', v))"
  by (auto simp: with_claimed_def claimed_record_def split: option.splits prod.splits)

lemma with_claimed_Err: "with_claimed claim f m = (m', Err err) \<Longrightarrow> m' = m"
  by (auto simp: with_claimed_def split: res.splits prod.splits)

lemmas cp_step_defs = save_step_def cp_claim_step_def release_step_def replace_step_def
  delete_claimed_step_def delete_unclaimed_step_def

interpretation cp_save: staged_op "save_step r" for r
  by unfold_locales (auto simp: save_step_def intro: keyed_hput split: if_splits)

interpretation cp_claiming: staged_op "cp_claim_step now uuid conversation owner tenant agent tok"
  for now uuid conversation owner tenant agent tok
  by unfold_locales
     (auto simp: cp_claim_step_def Let_def intro!: keyed_hput dest: keyed_getD split: option.splits if_splits)

interpretation cp_releasing: staged_op "release_step now claim" for now claim
  by unfold_locales (auto simp: release_step_def with_claimed_Ok intro!: keyed_hput dest: keyed_getD)

interpretation cp_replacing: staged_op "replace_step now uuid claim fp c" for now uuid claim fp c
  by unfold_locales (auto simp: replace_step_def Let_def with_claimed_Ok intro!: keyed_hput dest: keyed_getD)

interpretation cp_deleting: staged_op "delete_claimed_step claim" for claim
  by unfold_locales (auto simp: delete_claimed_step_def with_claimed_Ok intro!: keyed_hdel)

interpretation cp_cleaning: staged_op "delete_unclaimed_step r" for r
  by unfold_locales (auto simp: delete_unclaimed_step_def intro!: keyed_hdel split: option.splits if_splits)

section \<open>Calls\<close>

inductive cp_call :: "write_env option \<Rightarrow> 'c checkpoint_store \<Rightarrow> 'c checkpoint_store \<Rightarrow> outcome \<Rightarrow> bool" for e where
  cc_save: "save_waiting e now uuid conversation owner tenant agent fp c st = (st', r1) \<Longrightarrow> cp_call e st st' (outcome_of r1)"
| cc_claim: "cp_claim e now uuid conversation owner tenant agent tok st = (st', r2) \<Longrightarrow> cp_call e st st' (outcome_of r2)"
| cc_release: "cp_release e now claim st = (st', r3) \<Longrightarrow> cp_call e st st' (outcome_of r3)"
| cc_replace: "replace_claimed e now uuid claim fp c st = (st', r1) \<Longrightarrow> cp_call e st st' (outcome_of r1)"
| cc_delete: "delete_claimed e claim st = (st', r3) \<Longrightarrow> cp_call e st st' (outcome_of r3)"
| cc_cleanup: "delete_unclaimed e r st = (st', r3) \<Longrightarrow> cp_call e st st' (outcome_of r3)"

lemmas cp_ops = save_waiting_def cp_claim_def cp_release_def replace_claimed_def delete_claimed_def delete_unclaimed_def

lemmas cp_staged_sound = cp_save.staged_sound cp_claiming.staged_sound cp_releasing.staged_sound
  cp_replacing.staged_sound cp_deleting.staged_sound cp_cleaning.staged_sound

lemma cp_call_sound:
  assumes "cp_call (Some w) st st' out" and "cp_sound st" and "reliable w"
  shows "cp_sound st' \<and> out \<noteq> Panicked \<and> (\<forall>err. out = Failed err \<longrightarrow> cps_records st' = cps_records st)"
  using assms(1)
proof cases
  case (cc_save now uuid conversation owner tenant agent fp c r)
  then show ?thesis using cp_save.staged_sound [OF _ assms(2,3)] by (auto simp: save_waiting_def)
next
  case (cc_claim now uuid conversation owner tenant agent tok r)
  then show ?thesis using cp_claiming.staged_sound [OF _ assms(2,3)] by (auto simp: cp_claim_def)
next
  case (cc_release now claim r)
  then show ?thesis using cp_releasing.staged_sound [OF _ assms(2,3)] by (auto simp: cp_release_def)
next
  case (cc_replace now uuid claim fp c r)
  then show ?thesis using cp_replacing.staged_sound [OF _ assms(2,3)] by (auto simp: replace_claimed_def)
next
  case (cc_delete claim r)
  then show ?thesis using cp_deleting.staged_sound [OF _ assms(2,3)] by (auto simp: delete_claimed_def)
next
  case (cc_cleanup r q)
  then show ?thesis using cp_cleaning.staged_sound [OF _ assms(2,3)] by (auto simp: delete_unclaimed_def)
qed

section \<open>Restart\<close>

lemma cp_clear_simps [simp]:
  "cp_conversation_id (cp_clear r) = cp_conversation_id r" "cp_checkpoint_id (cp_clear r) = cp_checkpoint_id r"
  "blank_identity (cp_clear r) = blank_identity r" "cp_claim_id (cp_clear r) = None"
  "cp_claim_expires_at (cp_clear r) = 0" "cp_clear (cp_clear r) = cp_clear r"
  by (simp_all add: cp_clear_def blank_identity_def)

lemma validate_cleared:
  "validate_records rs = Ok () \<Longrightarrow> validate_records (map cp_clear rs) = Ok ()"
  by (simp add: validate_records_Ok comp_def)

definition cleared :: "'c checkpoints \<Rightarrow> 'c checkpoints" where
  "cleared m = map (\<lambda>(k, r). (k, cp_clear r)) m"

lemma hvalues_cleared: "hvalues (cleared m) = map cp_clear (hvalues m)"
  by (induction m) (auto simp: cleared_def)

lemma keyed_cleared: "keyed cp_conversation_id m \<Longrightarrow> keyed cp_conversation_id (cleared m)"
proof -
  have "map fst (cleared m) = map fst m" by (induction m) (auto simp: cleared_def)
  moreover have "\<forall>(k, r) \<in> set m. cp_conversation_id r = k \<Longrightarrow> \<forall>(k, r) \<in> set (cleared m). cp_conversation_id r = k"
    by (auto simp: cleared_def)
  ultimately show "keyed cp_conversation_id m \<Longrightarrow> keyed cp_conversation_id (cleared m)"
    unfolding keyed_def by simp
qed

lemma checkpoint_store_reopened:
  assumes "cp_sound st"
    and "file = (case dk_file (cps_disk st) of None \<Rightarrow> Missing | Some rs \<Rightarrow> Contents rs)"
  shows "checkpoint_store_new file d = Ok \<lparr>cps_records = cleared (cps_records st), cps_disk = d\<rparr>"
proof -
  let ?m = "cps_records st"
  have wf: "keyed cp_conversation_id ?m" "validate_records (hvalues ?m) = Ok ()"
    using assms(1) by (simp_all add: cp_sound_def cp_wf_def)
  have load: "load_json file = Ok (dk_file (cps_disk st))"
    by (simp add: assms(2) split: option.splits)
  have on_file: "map cp_clear (case dk_file (cps_disk st) of None \<Rightarrow> [] | Some rs \<Rightarrow> rs) = map cp_clear (hvalues ?m)"
    using assms(1) by (simp add: cp_sound_def cp_synced_def)
  have "hcollect cp_conversation_id (map cp_clear (hvalues ?m)) = cleared ?m"
    unfolding hvalues_cleared [symmetric] by (rule hcollect_hvalues) (rule keyed_cleared [OF wf(1)])
  with validate_cleared [OF wf(2)] show ?thesis
    by (simp add: checkpoint_store_new_def load on_file del: map_map)
qed

section \<open>Holding a claim\<close>

text \<open>
  The calls that others make while a claim \<open>cid\<close> on the conversation \<open>conv\<close> lasts until
  \<open>expiry\<close>: anything but presenting that claim, with claim ids of their own.
\<close>

inductive other_call ::
  "string \<Rightarrow> string \<Rightarrow> u64 \<Rightarrow> 'c checkpoint_store \<Rightarrow> 'c checkpoint_store \<Rightarrow> bool"
  for conv cid expiry where
  oc_save: "save_waiting e now uuid k owner tenant agent fp c st = (st', r1) \<Longrightarrow> other_call conv cid expiry st st'"
| oc_claim: "cp_claim e now uuid k owner tenant agent tok st = (st', r2) \<Longrightarrow> now < expiry \<Longrightarrow>
     other_call conv cid expiry st st'"
| oc_release: "cp_release e now claim st = (st', r3) \<Longrightarrow> cl_claim_id claim \<noteq> cid \<Longrightarrow> other_call conv cid expiry st st'"
| oc_replace: "replace_claimed e now uuid claim fp c st = (st', r1) \<Longrightarrow> cl_claim_id claim \<noteq> cid \<Longrightarrow>
     other_call conv cid expiry st st'"
| oc_delete: "delete_claimed e claim st = (st', r3) \<Longrightarrow> cl_claim_id claim \<noteq> cid \<Longrightarrow> other_call conv cid expiry st st'"
| oc_cleanup: "delete_unclaimed e r st = (st', r3) \<Longrightarrow> other_call conv cid expiry st st'"

definition held :: "string \<Rightarrow> string \<Rightarrow> u64 \<Rightarrow> 'c agent_checkpoint \<Rightarrow> 'c checkpoint_store \<Rightarrow> bool" where
  "held conv cid expiry r st \<longleftrightarrow>
     hget (cps_records st) conv = Some r \<and> cp_claim_id r = Some cid \<and> cp_claim_expires_at r = expiry"

lemma held_other_call:
  assumes "other_call conv cid expiry st st'" and "held conv cid expiry r st"
  shows "held conv cid expiry r st'"
proof -
  from assms(1) have "hget (cps_records st') conv = hget (cps_records st) conv"
  proof cases
    case (oc_save e now uuid k owner tenant agent fp c r1)
    show ?thesis
      by (rule cp_save.staged_keep [OF oc_save [unfolded save_waiting_def]])
         (use assms(2) in \<open>auto simp: save_step_def held_def split: if_splits\<close>)
  next
    case (oc_claim e now uuid k owner tenant agent tok r2)
    show ?thesis
      by (rule cp_claiming.staged_keep [OF oc_claim(1) [unfolded cp_claim_def]])
         (use assms(2) oc_claim(2) in \<open>auto simp: cp_claim_step_def Let_def held_def split: if_splits option.splits\<close>)
  next
    case (oc_release e now claim r3)
    show ?thesis
      by (rule cp_releasing.staged_keep [OF oc_release(1) [unfolded cp_release_def]])
         (use assms(2) oc_release(2) in \<open>auto simp: release_step_def with_claimed_Ok held_def\<close>)
  next
    case (oc_replace e now uuid claim fp c r1)
    show ?thesis
      by (rule cp_replacing.staged_keep [OF oc_replace(1) [unfolded replace_claimed_def]])
         (use assms(2) oc_replace(2) in \<open>auto simp: replace_step_def Let_def with_claimed_Ok held_def\<close>)
  next
    case (oc_delete e claim r3)
    show ?thesis
      by (rule cp_deleting.staged_keep [OF oc_delete(1) [unfolded delete_claimed_def]])
         (use assms(2) oc_delete(2) in \<open>auto simp: delete_claimed_step_def with_claimed_Ok held_def\<close>)
  next
    case (oc_cleanup e rr r3)
    show ?thesis
      by (rule cp_cleaning.staged_keep [OF oc_cleanup [unfolded delete_unclaimed_def]])
         (use assms(2) in \<open>auto simp: delete_unclaimed_step_def held_def split: if_splits option.splits\<close>)
  qed
  with assms(2) show ?thesis by (simp add: held_def)
qed

lemma cp_claim_held:
  assumes "cp_claim e now uuid conv owner tenant agent tok st = (st', Ok (Claimed claim))"
  shows "held conv uuid (sat_add now CLAIM_LEASE_MS) (cl_record claim) st' \<and> cl_claim_id claim = uuid"
proof -
  obtain b m where "cp_claim_step now uuid conv owner tenant agent tok (cps_records st) = (m, Ok (Claimed claim, b))"
    and "cps_records st' = (if b then m else cps_records st)"
    using cp_claiming.staged_Ok [OF assms [unfolded cp_claim_def]] by blast
  then have "cps_records st' = hput conv (cl_record claim) (cps_records st)"
    and "cp_claim_id (cl_record claim) = Some uuid" "cl_claim_id claim = uuid"
    and "cp_claim_expires_at (cl_record claim) = sat_add now CLAIM_LEASE_MS"
    by (auto simp: cp_claim_step_def Let_def split: option.splits if_splits)
  then show ?thesis by (simp add: held_def)
qed

lemma cp_claim_busy:
  assumes "held conv cid expiry r st" and "now < expiry"
    and "cp_claim e now uuid conv owner tenant agent tok st = (st', q)"
  shows "st' = st \<and> q \<in> {Ok Claim_Missing, Ok Claim_Busy, Ok Resume_Token_Mismatch}"
  using assms by (auto simp: cp_claim_def cp_mutate_def cp_claim_step_def held_def split: if_splits)

text \<open>A claim other than the one that holds the record is stale.\<close>

lemma stale_claim_refused:
  assumes "held conv cid expiry r st" and "cp_conversation_id (cl_record claim) = conv" and "cl_claim_id claim \<noteq> cid"
  shows "cp_release e now claim st = (st, Err ''Agent checkpoint claim is stale'')"
    and "replace_claimed e now uuid claim fp c st = (st, Err ''Agent checkpoint claim is stale'')"
    and "delete_claimed e claim st = (st, Err ''Agent checkpoint claim is stale'')"
  using assms
  by (simp_all add: cp_release_def replace_claimed_def delete_claimed_def cp_mutate_def release_step_def
      replace_step_def delete_claimed_step_def with_claimed_def claimed_record_def held_def)

section \<open>Properties\<close>

text \<open>
  Every sequence of calls keeps at most one checkpoint per conversation, resume tokens
  distinct, identities not blank and no lease without a claim, and the file equal to memory;
  no call panics, and an error changes nothing. Opening the store again from its file gives
  the same checkpoints, all unclaimed.
\<close>

theorem checkpoint_store_sound:
  assumes "(\<lambda>st st'. \<exists>w out. reliable w \<and> cp_call (Some w) st st' out)\<^sup>*\<^sup>* st0 st" and "cp_sound st0"
    and "cp_call (Some w) st st' out" and "reliable w"
    and "file = (case dk_file (cps_disk st') of None \<Rightarrow> Missing | Some rs \<Rightarrow> Contents rs)"
  shows "cp_sound st' \<and> out \<noteq> Panicked \<and> (\<forall>err. out = Failed err \<longrightarrow> cps_records st' = cps_records st)
    \<and> checkpoint_store_new file d = Ok \<lparr>cps_records = cleared (cps_records st'), cps_disk = d\<rparr>"
proof -
  have "cp_sound st" using assms(1,2) by induction (auto dest: cp_call_sound)
  with cp_call_sound [OF assms(3) _ assms(4)] checkpoint_store_reopened [OF _ assms(5)] show ?thesis by blast
qed

definition demo_checkpoints :: "nat checkpoint_store" where
  "demo_checkpoints = \<lparr>cps_records = [], cps_disk = \<lparr>dk_file = None, dk_mirror = None\<rparr>\<rparr>"

definition demo_saved :: "nat checkpoint_store" where
  "demo_saved = fst (save_waiting (Some we_all_ok) 10 ''t1'' ''conv'' ''o'' ''ten'' ''ag'' ''fp'' 7 demo_checkpoints)"

lemma demo_checkpoints_sound: "cp_sound demo_checkpoints"
  by (simp add: cp_sound_def cp_wf_def cp_synced_def demo_checkpoints_def validate_records_def)

theorem checkpoint_store_sound_witness:
  "cp_sound demo_saved \<and> hget (cps_records demo_saved) ''conv'' \<noteq> None"
proof -
  have call: "cp_call (Some we_all_ok) demo_checkpoints demo_saved
      (outcome_of (snd (save_waiting (Some we_all_ok) 10 ''t1'' ''conv'' ''o'' ''ten'' ''ag'' ''fp'' (7::nat) demo_checkpoints)))"
    by (rule cc_save) (simp add: demo_saved_def prod_eq_iff)
  have "hget (cps_records demo_saved) ''conv'' \<noteq> None" by code_simp
  with checkpoint_store_sound [OF rtranclp.rtrancl_refl demo_checkpoints_sound call _ refl] show ?thesis by simp
qed

text \<open>
  C16. A claim is exclusive: from the moment it is granted until its fifteen minutes are over,
  whatever others call in between, the checkpoint stays as it was granted, nobody else can
  claim the conversation, and no other claim on it can release, replace or delete it.
\<close>

theorem checkpoint_claim_exclusive:
  assumes "cp_claim e now cid conv owner tenant agent tok st = (st1, Ok (Claimed claim))"
    and "(other_call conv cid (sat_add now CLAIM_LEASE_MS))\<^sup>*\<^sup>* st1 st2"
    and "t < sat_add now CLAIM_LEASE_MS"
    and "cp_claim e' t uuid conv owner' tenant' agent' tok' st2 = (st3, q)"
    and "cp_conversation_id (cl_record stale) = conv" and "cl_claim_id stale \<noteq> cid"
  shows "hget (cps_records st2) conv = Some (cl_record claim) \<and> cp_claim_id (cl_record claim) = Some cid
    \<and> st3 = st2 \<and> (\<forall>c. q \<noteq> Ok (Claimed c)) \<and> q \<noteq> Panic
    \<and> fst (cp_release e' t stale st2) = st2 \<and> \<not> is_ok (snd (cp_release e' t stale st2))
    \<and> fst (delete_claimed e' stale st2) = st2 \<and> \<not> is_ok (snd (delete_claimed e' stale st2))
    \<and> fst (replace_claimed e' t uuid stale fp c st2) = st2 \<and> \<not> is_ok (snd (replace_claimed e' t uuid stale fp c st2))"
proof -
  have "held conv cid (sat_add now CLAIM_LEASE_MS) (cl_record claim) st2"
    using assms(2)
  proof induction
    case base
    then show ?case using cp_claim_held [OF assms(1)] by simp
  next
    case (step x y)
    then show ?case by (blast intro: held_other_call)
  qed
  with cp_claim_busy [OF _ assms(3,4)] stale_claim_refused [OF _ assms(5,6)] show ?thesis
    by (auto simp: held_def)
qed

definition demo_claimed :: "nat checkpoint_store" where
  "demo_claimed = fst (cp_claim (Some we_all_ok) 20 ''c1'' ''conv'' ''o'' ''ten'' ''ag'' (Some ''t1'') demo_saved)"

theorem checkpoint_claim_exclusive_witness:
  "snd (cp_claim (Some we_all_ok) 900019 ''c2'' ''conv'' ''o'' ''ten'' ''ag'' None demo_claimed) = Ok Claim_Busy
   \<and> fst (cp_claim (Some we_all_ok) 900019 ''c2'' ''conv'' ''o'' ''ten'' ''ag'' None demo_claimed) = demo_claimed"
proof -
  obtain claim where claim: "snd (cp_claim (Some we_all_ok) 20 ''c1'' ''conv'' ''o'' ''ten'' ''ag'' (Some ''t1'') demo_saved)
      = Ok (Claimed claim)"
  proof -
    have "case snd (cp_claim (Some we_all_ok) 20 ''c1'' ''conv'' ''o'' ''ten'' ''ag'' (Some ''t1'') demo_saved) of
        Ok (Claimed c) \<Rightarrow> True | _ \<Rightarrow> False" by code_simp
    then show ?thesis using that by (auto split: res.splits claim_result.splits)
  qed
  let ?stale = "claim\<lparr>cl_claim_id := ''c0''\<rparr>"
  have c: "cp_claim (Some we_all_ok) 20 ''c1'' ''conv'' ''o'' ''ten'' ''ag'' (Some ''t1'') demo_saved
      = (demo_claimed, Ok (Claimed claim))"
    using claim by (simp add: demo_claimed_def prod_eq_iff)
  have "cp_conversation_id (cl_record claim) = ''conv''"
  proof -
    have "case snd (cp_claim (Some we_all_ok) 20 ''c1'' ''conv'' ''o'' ''ten'' ''ag'' (Some ''t1'') demo_saved) of
        Ok (Claimed c) \<Rightarrow> cp_conversation_id (cl_record c) = ''conv'' | _ \<Rightarrow> False" by code_simp
    with claim show ?thesis by simp
  qed
  then have st: "cp_conversation_id (cl_record ?stale) = ''conv''" "cl_claim_id ?stale \<noteq> ''c1''" by simp_all
  have lt: "(900019::u64) < sat_add 20 CLAIM_LEASE_MS" by code_simp
  have "snd (cp_claim (Some we_all_ok) 900019 ''c2'' ''conv'' ''o'' ''ten'' ''ag'' None demo_claimed) = Ok Claim_Busy"
    by code_simp
  with checkpoint_claim_exclusive [OF c rtranclp.rtrancl_refl lt surjective_pairing st] show ?thesis by blast
qed

end
