(* ===== verification/Naming.thy ===== *)
theory Naming
  imports Rust_Str
begin

text \<open>
  \<^verbatim>\<open>src/naming.rs\<close>: the first free name in the sequence \<open>report.pdf\<close>, \<open>report(1).pdf\<close>,
  \<open>report(2).pdf\<close>, .., with the parts of a file name as \<open>std::path::Path\<close> reads them on Unix.
\<close>

section \<open>Paths\<close>

text \<open>\<open>Path::file_name\<close>: the last component, unless the path ends in \<open>..\<close> or has none.\<close>

definition path_file_name :: "string \<Rightarrow> string option" where
  "path_file_name s =
     (let cs = filter (\<lambda>c. c \<noteq> [] \<and> c \<noteq> ''.'') (split_char (CHR ''/'') s)
      in if cs = [] \<or> last cs = ''..'' then None else Some (last cs))"

text \<open>\<open>s.rfind(c)\<close> for an ASCII character.\<close>

definition rfind_char :: "char \<Rightarrow> string \<Rightarrow> nat option" where
  "rfind_char c s = map_option (\<lambda>i. length s - 1 - i) (find_char c (rev s))"

text \<open>
  The stem and the extension of a file name: cut at the last dot, unless there is none or it
  is the first character.
\<close>

definition stem_and_extension :: "string \<Rightarrow> string \<times> string option" where
  "stem_and_extension f =
     (case rfind_char (CHR ''.'') f of
        None \<Rightarrow> (f, None)
      | Some i \<Rightarrow> if i = 0 then (f, None) else (take i f, Some (drop (i + 1) f)))"

section \<open>Names\<close>

text \<open>\<open>str::parse::<usize>\<close> on a non-empty string of digits: \<open>None\<close> is an overflow.\<close>

definition parse_usize :: "string \<Rightarrow> nat option" where
  "parse_usize s = (if digits_value s < 2 ^ 64 then Some (digits_value s) else None)"

definition split_counter :: "string \<Rightarrow> string \<times> nat option" where
  "split_counter stem =
     (case str_strip_suffix '')'' stem of
        None \<Rightarrow> (stem, None)
      | Some pre \<Rightarrow>
          (case rfind_char (CHR ''('') pre of
             None \<Rightarrow> (stem, None)
           | Some op \<Rightarrow>
               (let number = drop (op + 1) pre
                in if number = [] \<or> \<not> list_all is_ascii_digit number then (stem, None)
                   else (case parse_usize number of
                           Some counter \<Rightarrow> (trim_end (take op pre), Some counter)
                         | None \<Rightarrow> (stem, None)))))"

definition MAX_RETRIES :: nat where
  "MAX_RETRIES = 1000"

definition next_name :: "string \<Rightarrow> string" where
  "next_name current =
     (let (stem, sfx) =
        (case path_file_name current of
           None \<Rightarrow> (current, [])
         | Some f \<Rightarrow>
             (case stem_and_extension f of
                (stem, ext) \<Rightarrow> (stem, case ext of None \<Rightarrow> [] | Some x \<Rightarrow> ''.'' @ x)));
          (main, counter) = split_counter stem
      in main @ ''('' @ nat_to_str (((case counter of None \<Rightarrow> 0 | Some n \<Rightarrow> n) + 1) mod 2 ^ 64) @ '')'' @ sfx)"

text \<open>The loop tries \<open>0..=MAX_RETRIES\<close>; \<open>n\<close> is what is left of it.\<close>

fun try_names :: "nat \<Rightarrow> (string \<Rightarrow> bool) \<Rightarrow> string \<Rightarrow> string res" where
  "try_names 0 taken current = Err (''Failed to generate a unique name after '' @ nat_to_str MAX_RETRIES @ '' attempts'')"
| "try_names (Suc n) taken current =
     (if \<not> taken current then Ok current else try_names n taken (next_name current))"

definition duplicate_name :: "string \<Rightarrow> (string \<Rightarrow> bool) \<Rightarrow> string res" where
  "duplicate_name original taken = try_names (MAX_RETRIES + 1) taken original"

section \<open>The candidates\<close>

lemma find_char_first:
  "c \<notin> set p \<Longrightarrow> find_char c (p @ c # s) = Some (length p)"
  by (induction p) auto

lemma rfind_char_last: "c \<notin> set s \<Longrightarrow> rfind_char c (p @ c # s) = Some (length p)"
  using find_char_first [of c "rev s" "rev p"] by (simp add: rfind_char_def)

lemma rfind_char_absent: "c \<notin> set s \<Longrightarrow> rfind_char c s = None"
  by (simp add: rfind_char_def find_char_None)

lemma rfind_char_SomeD:
  assumes "rfind_char c s = Some i"
  shows "s = take i s @ c # drop (i + 1) s \<and> i < length s \<and> c \<notin> set (drop (i + 1) s)"
proof -
  from assms obtain j where j: "find_char c (rev s) = Some j" "i = length s - 1 - j"
    by (auto simp: rfind_char_def)
  have jl: "j < length s" "rev s ! j = c" using find_char_SomeD [OF j(1)] by auto
  have before: "c \<notin> set (take j (rev s))"
  proof -
    have "find_char c xs = Some j \<Longrightarrow> c \<notin> set (take j xs)" for xs
      by (induction xs arbitrary: j) (auto split: if_splits)
    then show ?thesis using j(1) by simp
  qed
  have i: "i < length s" "s ! i = c" using jl j(2) by (auto simp: rev_nth)
  have "drop (i + 1) s = rev (take j (rev s))"
    using jl j(2) by (simp add: take_rev Suc_diff_Suc)
  with before have "c \<notin> set (drop (i + 1) s)" by simp
  with i id_take_nth_drop [of i s] show ?thesis by simp
qed

lemma digits_not_paren: "list_all is_ascii_digit ds \<Longrightarrow> CHR ''('' \<notin> set ds \<and> CHR ''.'' \<notin> set ds \<and> CHR ''/'' \<notin> set ds"
  by (auto simp: list_all_iff is_ascii_digit_def)

lemma nat_to_str_all_digits: "list_all is_ascii_digit (nat_to_str n)"
  using nat_to_str_digits [of n] by (simp add: list_all_iff)

text \<open>Splitting what the loop builds gives the counter back.\<close>

lemma split_counter_built:
  assumes "n < 2 ^ 64"
  shows "split_counter (main @ ''('' @ nat_to_str n @ '')'') = (trim_end main, Some n)"
proof -
  have "str_strip_suffix '')'' (main @ ''('' @ nat_to_str n @ '')'') = Some (main @ ''('' @ nat_to_str n)"
    by (simp add: str_strip_suffix_def suffix_def)
  moreover have "rfind_char (CHR ''('') (main @ CHR ''('' # nat_to_str n) = Some (length main)"
    using digits_not_paren [OF nat_to_str_all_digits] by (intro rfind_char_last) simp
  ultimately show ?thesis
    using assms nat_to_str_all_digits [of n]
    by (simp add: split_counter_def Let_def parse_usize_def digits_value_nat_to_str)
qed

text \<open>The stem before its counter and the extension with its dot, as they occur in file names.\<close>

definition name_parts :: "string \<Rightarrow> string \<Rightarrow> bool" where
  "name_parts main sfx \<longleftrightarrow>
     CHR ''/'' \<notin> set main \<and> CHR ''/'' \<notin> set sfx \<and>
     (sfx = [] \<and> CHR ''.'' \<notin> set (tl main) \<or> (\<exists>ext. sfx = CHR ''.'' # ext \<and> CHR ''.'' \<notin> set ext))"

definition built_name :: "string \<Rightarrow> nat \<Rightarrow> string \<Rightarrow> string" where
  "built_name main n sfx = main @ ''('' @ nat_to_str n @ '')'' @ sfx"

lemma split_char_absent: "c \<notin> set s \<Longrightarrow> split_char c s = [s]"
  by (induction s) auto

lemma split_char_pieces: "w \<in> set (split_char c s) \<Longrightarrow> c \<notin> set w"
proof (induction s arbitrary: w)
  case (Cons d ds)
  show ?case
  proof (cases "split_char c ds")
    case (Cons w' ws)
    with Cons.IH Cons.prems show ?thesis by (auto split: if_splits)
  qed simp
qed simp

lemma path_file_name_slash: "path_file_name s = Some f \<Longrightarrow> CHR ''/'' \<notin> set f \<and> f \<noteq> []"
proof -
  assume a: "path_file_name s = Some f"
  let ?cs = "filter (\<lambda>c. c \<noteq> [] \<and> c \<noteq> ''.'') (split_char (CHR ''/'') s)"
  from a have "?cs \<noteq> []" "f = last ?cs" by (auto simp: path_file_name_def Let_def split: if_splits)
  then have "f \<in> set ?cs" using last_in_set by blast
  then show ?thesis using split_char_pieces [of f "CHR ''/''" s] by auto
qed

lemma stem_and_extension_parts:
  assumes "stem_and_extension f = (stem, ext)" and "CHR ''/'' \<notin> set f"
  shows "name_parts stem (case ext of None \<Rightarrow> [] | Some x \<Rightarrow> ''.'' @ x)"
proof (cases "rfind_char (CHR ''.'') f")
  case None
  then have "CHR ''.'' \<notin> set f" by (simp add: rfind_char_def find_char_None)
  then have "CHR ''.'' \<notin> set (tl f)" by (cases f) auto
  with None assms show ?thesis by (auto simp: stem_and_extension_def name_parts_def)
next
  case (Some i)
  note f = rfind_char_SomeD [OF Some]
  have drop: "drop (Suc 0) f = tl f" by (cases f) auto
  have "set (take i f) \<subseteq> set f" "set (drop (i + 1) f) \<subseteq> set f"
    by (auto dest: in_set_takeD in_set_dropD)
  with Some assms f drop show ?thesis
    by (auto simp: stem_and_extension_def name_parts_def split: if_splits)
qed

lemma stem_and_extension_last:
  assumes "CHR ''.'' \<notin> set ext" and "p \<noteq> []"
  shows "stem_and_extension (p @ CHR ''.'' # ext) = (p, Some ext)"
  using rfind_char_last [OF assms(1), of p] assms(2) by (simp add: stem_and_extension_def)

lemma stem_and_extension_built:
  assumes "name_parts main sfx"
  shows "stem_and_extension (built_name main n sfx)
    = (main @ ''('' @ nat_to_str n @ '')'', if sfx = [] then None else Some (tl sfx))"
proof -
  let ?b = "main @ ''('' @ nat_to_str n @ '')''"
  have tail: "CHR ''.'' \<notin> set (''('' @ nat_to_str n @ '')'')"
    using digits_not_paren [OF nat_to_str_all_digits, of n] by simp
  show ?thesis
  proof (cases "sfx = []")
    case True
    then have dot: "CHR ''.'' \<notin> set (tl main)" using assms by (simp add: name_parts_def)
    show ?thesis
    proof (cases "main \<noteq> [] \<and> hd main = CHR ''.''")
      case dotted: True
      then obtain rest where rest: "main = CHR ''.'' # rest" by (cases main) auto
      have "CHR ''.'' \<notin> set (rest @ ''('' @ nat_to_str n @ '')'')" using dot tail rest by simp
      then have "rfind_char (CHR ''.'') ?b = Some 0" using rfind_char_last [of "CHR ''.''" _ "[]"] rest by simp
      with True show ?thesis by (simp add: stem_and_extension_def built_name_def)
    next
      case False
      then have "CHR ''.'' \<notin> set ?b" using dot tail by (cases main) auto
      then have "rfind_char (CHR ''.'') ?b = None" by (rule rfind_char_absent)
      with True show ?thesis by (simp add: stem_and_extension_def built_name_def)
    qed
  next
    case False
    then obtain ext where ext: "sfx = CHR ''.'' # ext" "CHR ''.'' \<notin> set ext"
      using assms by (auto simp: name_parts_def)
    have "stem_and_extension (?b @ CHR ''.'' # ext) = (?b, Some ext)"
      using ext(2) by (rule stem_and_extension_last) simp
    with ext(1) show ?thesis by (simp add: built_name_def)
  qed
qed

lemma path_file_name_built:
  assumes "name_parts main sfx"
  shows "path_file_name (built_name main n sfx) = Some (built_name main n sfx)"
proof -
  let ?s = "built_name main n sfx"
  have "CHR ''/'' \<notin> set ?s"
    using assms digits_not_paren [OF nat_to_str_all_digits, of n] by (auto simp: built_name_def name_parts_def)
  moreover have "CHR ''('' \<in> set ?s" by (simp add: built_name_def)
  then have "?s \<noteq> []" "?s \<noteq> ''.''" "?s \<noteq> ''..''" by auto
  ultimately show ?thesis by (simp add: path_file_name_def split_char_absent)
qed

lemma next_name_built:
  assumes "name_parts main sfx" and "n + 1 < 2 ^ 64"
  shows "next_name (built_name main n sfx) = built_name (trim_end main) (n + 1) sfx"
proof -
  have "''.'' @ tl sfx = sfx" if "sfx \<noteq> []" using assms(1) that by (auto simp: name_parts_def)
  then show ?thesis
    using assms split_counter_built [of n main]
    by (simp add: next_name_def path_file_name_built stem_and_extension_built built_name_def [of "trim_end main"])
qed

lemma name_parts_trim: "name_parts main sfx \<Longrightarrow> name_parts (trim_end main) sfx"
proof -
  assume a: "name_parts main sfx"
  obtain zs where zs: "main = trim_end main @ zs" using trim_end_prefix [of main] by (auto simp: prefix_def)
  have "set (trim_end main) \<subseteq> set main" by (subst zs) auto
  moreover have "set (tl (trim_end main)) \<subseteq> set (tl main)"
    by (subst (2) zs) (cases "trim_end main"; auto)
  ultimately show "name_parts (trim_end main) sfx" using a by (auto simp: name_parts_def)
qed

text \<open>Every candidate after the first carries the next counter.\<close>

definition start_counter :: "string \<Rightarrow> nat" where
  "start_counter f = (case snd (split_counter (fst (stem_and_extension f))) of None \<Rightarrow> 0 | Some n \<Rightarrow> n)"

lemma split_counter_parts:
  assumes "split_counter stem = (main, c)" and "name_parts stem sfx"
  shows "name_parts main sfx"
proof (cases c)
  case None
  with assms show ?thesis
    by (auto simp: split_counter_def Let_def split: option.splits if_splits)
next
  case (Some n)
  then obtain pre op where "str_strip_suffix '')'' stem = Some pre" "main = trim_end (take op pre)"
    using assms(1) by (auto simp: split_counter_def Let_def split: option.splits if_splits)
  moreover from this(1) have "take op pre = take (min op (length stem - 1)) stem"
    by (auto simp: str_strip_suffix_def min_def split: if_splits)
  moreover have "name_parts (take k stem) sfx" for k
  proof -
    have "set (take k stem) \<subseteq> set stem" by (auto dest: in_set_takeD)
    moreover have "set (tl (take k stem)) \<subseteq> set (tl stem)"
      by (cases stem; cases k) (auto dest: in_set_takeD)
    ultimately show ?thesis using assms(2) by (auto simp: name_parts_def)
  qed
  ultimately show ?thesis using name_parts_trim by metis
qed

lemma candidates:
  assumes "path_file_name original = Some f" and "start_counter f + Suc i < 2 ^ 64"
  shows "\<exists>main sfx. name_parts main sfx
    \<and> (next_name ^^ Suc i) original = built_name main (start_counter f + Suc i) sfx"
  using assms(2)
proof (induction i)
  case 0
  obtain stem ext where se: "stem_and_extension f = (stem, ext)" by fastforce
  obtain main c where mc: "split_counter stem = (main, c)" by fastforce
  let ?sfx = "case ext of None \<Rightarrow> [] | Some x \<Rightarrow> ''.'' @ x"
  have "name_parts main ?sfx"
    using path_file_name_slash [OF assms(1)] by (intro split_counter_parts [OF mc] stem_and_extension_parts [OF se]) simp
  moreover have "next_name original = built_name main (start_counter f + 1) ?sfx"
    using assms(1) se mc 0 by (simp add: next_name_def start_counter_def built_name_def)
  ultimately show ?case by (intro exI [of _ main] exI [of _ ?sfx]) simp
next
  case (Suc i)
  then obtain main sfx where "name_parts main sfx"
      "(next_name ^^ Suc i) original = built_name main (start_counter f + Suc i) sfx" by auto
  with Suc.prems next_name_built [of main sfx "start_counter f + Suc i"] name_parts_trim [of main sfx]
  show ?case by (intro exI [of _ "trim_end main"] exI [of _ sfx]) simp
qed

lemma built_counter:
  assumes "name_parts main sfx" and "n < 2 ^ 64"
  shows "start_counter (built_name main n sfx) = n"
  using assms split_counter_built [of n main] by (simp add: start_counter_def stem_and_extension_built)

lemma try_names_Ok:
  "try_names n taken current = Ok r \<Longrightarrow>
     \<exists>i < n. r = (next_name ^^ i) current \<and> \<not> taken r \<and> (\<forall>j < i. taken ((next_name ^^ j) current))"
proof (induction n arbitrary: current)
  case (Suc n)
  show ?case
  proof (cases "taken current")
    case True
    with Suc.prems Suc.IH [of "next_name current"] obtain i where i: "i < n" "r = (next_name ^^ i) (next_name current)"
        "\<not> taken r" "\<forall>j < i. taken ((next_name ^^ j) (next_name current))" by auto
    have "taken ((next_name ^^ j) current)" if "j < Suc i" for j
      using i(4) that True by (cases j) (auto simp: funpow_swap1)
    with i show ?thesis by (intro exI [of _ "Suc i"]) (auto simp: funpow_swap1)
  next
    case False
    with Suc.prems show ?thesis by (intro exI [of _ 0]) auto
  qed
qed simp

lemma try_names_all_taken:
  "\<not> is_ok (try_names n taken current) \<Longrightarrow> i < n \<Longrightarrow> taken ((next_name ^^ i) current)"
proof (induction n arbitrary: current i)
  case (Suc n)
  then show ?case by (cases i) (auto simp: funpow_swap1 split: if_splits)
qed simp

section \<open>Property\<close>

text \<open>
  The name that is answered is free, and it is the first free one of the sequence of
  numbered names; a free name is kept. As long as fewer than a thousand names are taken and the
  counter does not run over, a name is found.
\<close>

theorem duplicate_name_first_free:
  assumes "path_file_name original = Some f" and "finite {x. taken x}" and "card {x. taken x} < 1000"
    and "start_counter f + 1000 < 2 ^ 64"
  shows "\<exists>r i. duplicate_name original taken = Ok r \<and> \<not> taken r \<and> r = (next_name ^^ i) original
    \<and> (\<forall>j < i. taken ((next_name ^^ j) original))"
proof -
  have "is_ok (duplicate_name original taken)"
  proof (rule ccontr)
    assume "\<not> is_ok (duplicate_name original taken)"
    then have all: "i < 1001 \<Longrightarrow> taken ((next_name ^^ i) original)" for i
      unfolding duplicate_name_def MAX_RETRIES_def by (rule try_names_all_taken) simp
    let ?c = "\<lambda>i. (next_name ^^ Suc i) original"
    have counter: "start_counter (?c i) = start_counter f + Suc i" if "i < 1000" for i
    proof -
      have "start_counter f + Suc i < 2 ^ 64" using assms(4) that by simp
      with candidates [OF assms(1) this] built_counter show ?thesis by metis
    qed
    have "inj_on ?c {..<1000}"
    proof (rule inj_onI)
      fix x y :: nat assume xy: "x \<in> {..<1000}" "y \<in> {..<1000}" "?c x = ?c y"
      then have "start_counter f + Suc x = start_counter f + Suc y"
        using counter [of x] counter [of y] by (simp only: lessThan_iff)
      then show "x = y" by linarith
    qed
    then have "card (?c ` {..<1000}) = 1000" by (simp add: card_image)
    moreover have "?c ` {..<1000} \<subseteq> {x. taken x}"
    proof (rule image_subsetI)
      fix i :: nat assume "i \<in> {..<1000}"
      then have "taken (?c i)" by (intro all) simp
      then show "?c i \<in> {x. taken x}" by simp
    qed
    ultimately show False using card_mono [OF assms(2), of "?c ` {..<1000}"] assms(3) by simp
  qed
  then obtain r where r: "duplicate_name original taken = Ok r" unfolding is_ok_iff by blast
  from try_names_Ok [OF r [unfolded duplicate_name_def]] r show ?thesis by blast
qed

theorem duplicate_name_first_free_witness:
  "\<exists>r. duplicate_name ''report(1).pdf'' (\<lambda>n. n \<in> {''report(1).pdf'', ''report(2).pdf''}) = Ok r
     \<and> r \<notin> {''report(1).pdf'', ''report(2).pdf''}"
proof -
  let ?taken = "\<lambda>n. n \<in> {''report(1).pdf'', ''report(2).pdf''}"
  have f: "path_file_name ''report(1).pdf'' = Some ''report(1).pdf''" by code_simp
  have "built_name ''report'' 1 ''.pdf'' = ''report(1).pdf''"
    by code_simp
  moreover have "name_parts ''report'' ''.pdf''" by (auto simp: name_parts_def)
  ultimately have c: "start_counter ''report(1).pdf'' + 1000 < 2 ^ 64" using built_counter [of "''report''" "''.pdf''" 1] by simp
  let ?names = "{''report(1).pdf'', ''report(2).pdf''}"
  have eq: "{x. ?taken x} = ?names" by blast
  have "finite {x. ?taken x}" "card {x. ?taken x} < 1000" unfolding eq by simp_all
  from duplicate_name_first_free [OF f this c] show ?thesis by blast
qed

end
