(* ===== verification/Doc_Registry.thy ===== *)
theory Doc_Registry
  imports Tx_Store Naming Rust_F32
begin

text \<open>
  \<open>DocStore\<close> of \<^verbatim>\<open>src/api/document.rs\<close>: the records of the uploaded documents, their parse
  status, and the reservation of unique names within a knowledge base. A parser configuration
  is a JSON value of an arbitrary type \<open>'j\<close> with equality. Sizes and counts are \<open>usize\<close>.
\<close>

section \<open>Data\<close>

record 'j doc_record =
  dc_id :: string
  dc_name :: string
  dc_kb_id :: string
  dc_size :: u64
  dc_storage_name :: string
  dc_content_hash :: string
  dc_indexed_content_hash :: string
  dc_run :: string
  dc_progress :: f32
  dc_progress_msg :: string
  dc_chunk_count :: u64
  dc_created_at :: u64
  dc_updated_at :: u64
  dc_status :: string
  dc_parser_id :: "string option"
  dc_parser_config :: "'j option"
  dc_doc_type :: "string option"
  dc_parent_path :: "string option"
  dc_pipeline_id :: "string option"

type_synonym 'j docs = "(string, 'j doc_record) hmap"

type_synonym 'j doc_store = "('j docs, 'j doc_record list) tx_store"

definition doc_mutate_if_changed ::
  "write_env \<Rightarrow> ('j docs \<Rightarrow> 'j docs \<times> ('a \<times> bool) res) \<Rightarrow> 'j doc_store \<Rightarrow> 'j doc_store \<times> 'a res" where
  "doc_mutate_if_changed e mutation = tx_mutate_if_changed hvalues (Some e) mutation"

definition doc_mutate ::
  "write_env \<Rightarrow> ('j docs \<Rightarrow> 'j docs \<times> 'a res) \<Rightarrow> 'j doc_store \<Rightarrow> 'j doc_store \<times> 'a res" where
  "doc_mutate e mutation = doc_mutate_if_changed e (always_changed mutation)"

definition doc_store_new :: "'j doc_record list contents \<Rightarrow> 'j doc_record list disk \<Rightarrow> 'j doc_store res" where
  "doc_store_new file d =
     res_map (\<lambda>loaded. \<lparr>st_mem = (case loaded of None \<Rightarrow> [] | Some list \<Rightarrow> hcollect dc_id list),
                        st_disk = d, st_poisoned = False\<rparr>) (load_json file)"

section \<open>Reading\<close>

definition doc_list :: "string \<Rightarrow> 'j doc_store \<Rightarrow> 'j doc_record list res" where
  "doc_list kb st = tx_read (\<lambda>docs. filter (\<lambda>d. dc_kb_id d = kb) (hvalues docs)) st"

definition doc_list_all :: "'j doc_store \<Rightarrow> 'j doc_record list res" where
  "doc_list_all st = tx_read hvalues st"

definition doc_get :: "string \<Rightarrow> 'j doc_store \<Rightarrow> 'j doc_record option res" where
  "doc_get i st = tx_read (\<lambda>docs. hget docs i) st"

section \<open>Writing\<close>

definition doc_insert_step :: "'j doc_record \<Rightarrow> 'j docs \<Rightarrow> 'j docs \<times> unit res" where
  "doc_insert_step d docs = (hput (dc_id d) d docs, Ok ())"

definition doc_insert :: "write_env \<Rightarrow> 'j doc_record \<Rightarrow> 'j doc_store \<Rightarrow> 'j doc_store \<times> unit res" where
  "doc_insert e d = doc_mutate e (doc_insert_step d)"

definition name_taken :: "'j docs \<Rightarrow> string \<Rightarrow> string \<Rightarrow> bool" where
  "name_taken docs kb candidate \<longleftrightarrow> (\<exists>d \<in> set (hvalues docs). dc_kb_id d = kb \<and> dc_name d = candidate)"

definition insert_unique_step :: "'j doc_record \<Rightarrow> 'j docs \<Rightarrow> 'j docs \<times> 'j doc_record res" where
  "insert_unique_step d docs =
     (if hget docs (dc_id d) \<noteq> None then (docs, Err ''Document ID already exists'')
      else case duplicate_name (dc_name d) (name_taken docs (dc_kb_id d)) of
             Ok name \<Rightarrow> let d = d\<lparr>dc_name := name\<rparr> in (hput (dc_id d) d docs, Ok d)
           | Err err \<Rightarrow> (docs, Err err)
           | Panic \<Rightarrow> (docs, Panic))"

definition insert_unique :: "write_env \<Rightarrow> 'j doc_record \<Rightarrow> 'j doc_store \<Rightarrow> 'j doc_store \<times> 'j doc_record res" where
  "insert_unique e d = doc_mutate e (insert_unique_step d)"

text \<open>The loop of \<open>set_status\<close>: the ids whose status changed, in order.\<close>

fun status_loop :: "u64 \<Rightarrow> string \<Rightarrow> string list \<Rightarrow> 'j docs \<Rightarrow> 'j docs \<times> string list" where
  "status_loop now status [] docs = (docs, [])"
| "status_loop now status (i # ids) docs =
     (case hget docs i of
        None \<Rightarrow> status_loop now status ids docs
      | Some d \<Rightarrow>
          if dc_status d = status then status_loop now status ids docs
          else case status_loop now status ids (hput i (d\<lparr>dc_status := status, dc_updated_at := now\<rparr>) docs) of
                 (docs', changed) \<Rightarrow> (docs', i # changed))"

definition set_status_step :: "u64 \<Rightarrow> string list \<Rightarrow> string \<Rightarrow> 'j docs \<Rightarrow> 'j docs \<times> (string list \<times> bool) res" where
  "set_status_step now ids status docs =
     (case status_loop now status ids docs of (docs', changed) \<Rightarrow> (docs', Ok (changed, changed \<noteq> [])))"

definition set_status ::
  "write_env \<Rightarrow> u64 \<Rightarrow> string list \<Rightarrow> string \<Rightarrow> 'j doc_store \<Rightarrow> 'j doc_store \<times> string list res" where
  "set_status e now ids status st =
     (if status \<notin> {''0'', ''1''} then (st, Err (''Document status must be '' @ [CHR 0x27] @ ''0'' @ [CHR 0x27] @ '' or '' @ [CHR 0x27] @ ''1'' @ [CHR 0x27]))
      else doc_mutate_if_changed e (set_status_step now ids status) st)"

text \<open>\<open>get_mut(id)\<close>, else \<open>Ok((false, false))\<close>; \<open>f\<close> gives the new record and whether it is dirty.\<close>

definition with_doc :: "string \<Rightarrow> ('j doc_record \<Rightarrow> 'j doc_record \<times> bool) \<Rightarrow> 'j docs \<Rightarrow> 'j docs \<times> (bool \<times> bool) res" where
  "with_doc i f docs =
     (case hget docs i of
        None \<Rightarrow> (docs, Ok (False, False))
      | Some d \<Rightarrow> (case f d of (d', dirty) \<Rightarrow> (if dirty then hput i d' docs else docs, Ok (True, dirty))))"

definition doc_rename :: "write_env \<Rightarrow> string \<Rightarrow> string \<Rightarrow> 'j doc_store \<Rightarrow> 'j doc_store \<times> bool res" where
  "doc_rename e i new_name st =
     (let new_name = trim new_name
      in if new_name = [] then (st, Err ''Document name cannot be empty'')
         else doc_mutate_if_changed e (with_doc i (\<lambda>d. (d\<lparr>dc_name := new_name\<rparr>, True))) st)"

definition reset_for_reparse ::
  "write_env \<Rightarrow> u64 \<Rightarrow> string \<Rightarrow> string option \<Rightarrow> string \<Rightarrow> 'j doc_store \<Rightarrow> 'j doc_store \<times> bool res" where
  "reset_for_reparse e now i parser_id pipeline_id st =
     doc_mutate_if_changed e (with_doc i (\<lambda>d.
       (d\<lparr>dc_run := ''UNSTARTED'', dc_progress := Fin 0, dc_progress_msg := [],
          dc_parser_id := (case parser_id of None \<Rightarrow> dc_parser_id d | Some p \<Rightarrow> Some p),
          dc_pipeline_id := (if pipeline_id = [] then None else Some pipeline_id),
          dc_updated_at := now\<rparr>, True))) st"

definition set_parser_config :: "write_env \<Rightarrow> u64 \<Rightarrow> string \<Rightarrow> 'j \<Rightarrow> 'j doc_store \<Rightarrow> 'j doc_store \<times> bool res" where
  "set_parser_config e now i parser_config st =
     doc_mutate_if_changed e (with_doc i (\<lambda>d.
       if dc_parser_config d = Some parser_config then (d, False)
       else (d\<lparr>dc_parser_config := Some parser_config, dc_updated_at := now\<rparr>, True))) st"

definition update_parse_result ::
  "write_env \<Rightarrow> u64 \<Rightarrow> string \<Rightarrow> string \<Rightarrow> f32 \<Rightarrow> string \<Rightarrow> u64 option \<Rightarrow> 'j doc_store \<Rightarrow> 'j doc_store \<times> bool res" where
  "update_parse_result e now i run progress msg chunk_count st =
     doc_mutate_if_changed e (with_doc i (\<lambda>d.
       (d\<lparr>dc_run := run, dc_progress := progress, dc_progress_msg := msg,
          dc_chunk_count := (case chunk_count of None \<Rightarrow> dc_chunk_count d | Some n \<Rightarrow> n),
          dc_updated_at := now\<rparr>, True))) st"

definition update_status ::
  "write_env \<Rightarrow> u64 \<Rightarrow> string \<Rightarrow> string \<Rightarrow> f32 \<Rightarrow> string \<Rightarrow> 'j doc_store \<Rightarrow> 'j doc_store \<times> bool res" where
  "update_status e now i run progress msg = update_parse_result e now i run progress msg None"

definition mark_indexed ::
  "write_env \<Rightarrow> u64 \<Rightarrow> string \<Rightarrow> string \<Rightarrow> u64 \<Rightarrow> string \<Rightarrow> 'j doc_store \<Rightarrow> 'j doc_store \<times> bool res" where
  "mark_indexed e now i content_hash chunk_count msg st =
     doc_mutate_if_changed e (with_doc i (\<lambda>d.
       (d\<lparr>dc_run := ''DONE'', dc_progress := Fin 1, dc_progress_msg := msg, dc_chunk_count := chunk_count,
          dc_indexed_content_hash := content_hash, dc_updated_at := now\<rparr>, True))) st"

definition set_chunk_count :: "write_env \<Rightarrow> u64 \<Rightarrow> string \<Rightarrow> u64 \<Rightarrow> 'j doc_store \<Rightarrow> 'j doc_store \<times> bool res" where
  "set_chunk_count e now i chunk_count st =
     doc_mutate_if_changed e (with_doc i (\<lambda>d.
       if dc_chunk_count d = chunk_count then (d, False)
       else (d\<lparr>dc_chunk_count := chunk_count, dc_updated_at := now\<rparr>, True))) st"

definition doc_delete_step :: "string \<Rightarrow> 'j docs \<Rightarrow> 'j docs \<times> (bool \<times> bool) res" where
  "doc_delete_step i docs = (let deleted = (hget docs i \<noteq> None) in (hdel i docs, Ok (deleted, deleted)))"

definition doc_delete :: "write_env \<Rightarrow> string \<Rightarrow> 'j doc_store \<Rightarrow> 'j doc_store \<times> bool res" where
  "doc_delete e i = doc_mutate_if_changed e (doc_delete_step i)"

section \<open>The operations are guarded\<close>

abbreviation wf_docs :: "'j docs \<Rightarrow> bool" where
  "wf_docs \<equiv> keyed dc_id"

lemma duplicate_name_no_panic: "duplicate_name s taken \<noteq> Panic"
proof -
  have "try_names n taken s \<noteq> Panic" for n s by (induction n arbitrary: s) auto
  then show ?thesis by (simp add: duplicate_name_def)
qed

lemma status_loop_same: "status_loop now status ids docs = (docs', []) \<Longrightarrow> docs' = docs"
  by (induction ids arbitrary: docs) (auto split: option.splits if_splits prod.splits)

text \<open>What one changed record keeps, the loop keeps.\<close>

lemma status_loop_keeps:
  assumes "\<And>docs i d. P docs \<Longrightarrow> hget docs i = Some d \<Longrightarrow> P (hput i (d\<lparr>dc_status := status, dc_updated_at := now\<rparr>) docs)"
  shows "status_loop now status ids docs = (docs', changed) \<Longrightarrow> P docs \<Longrightarrow> P docs'"
proof (induction ids arbitrary: docs changed)
  case (Cons i ids)
  show ?case
  proof (cases "\<exists>d. hget docs i = Some d \<and> dc_status d \<noteq> status")
    case True
    then obtain d where d: "hget docs i = Some d" "dc_status d \<noteq> status" by blast
    let ?docs = "hput i (d\<lparr>dc_status := status, dc_updated_at := now\<rparr>) docs"
    obtain changed' where "status_loop now status ids ?docs = (docs', changed')"
      using Cons.prems(1) d by (auto split: prod.splits)
    moreover have "P ?docs" by (rule assms [OF Cons.prems(2) d(1)])
    ultimately show ?thesis by (rule Cons.IH)
  next
    case False
    then have "status_loop now status ids docs = (docs', changed)"
      using Cons.prems(1) by (auto split: option.splits if_splits)
    with Cons.IH Cons.prems(2) show ?thesis by blast
  qed
qed simp

lemma wf_docs_update: "wf_docs docs \<Longrightarrow> hget docs i = Some d \<Longrightarrow> dc_id d' = dc_id d \<Longrightarrow> wf_docs (hput i d' docs)"
  by (rule keyed_hput) (use keyed_getD [of dc_id docs i d] in simp_all)

lemma status_loop_keyed:
  assumes "status_loop now status ids docs = (docs', changed)" and "wf_docs docs"
  shows "wf_docs docs'"
  by (rule status_loop_keeps [where P = wf_docs, OF _ assms]) (rule wf_docs_update; simp)

interpretation dc_insert: guarded_op wf_docs "always_changed (doc_insert_step d)" for d
  by unfold_locales (auto simp: doc_insert_step_def intro: keyed_hput)

interpretation dc_insert_unique: guarded_op wf_docs "always_changed (insert_unique_step d)" for d
  by unfold_locales
     (auto simp: insert_unique_step_def Let_def duplicate_name_no_panic intro!: keyed_hput
        split: res.splits if_splits)

interpretation dc_status: guarded_op wf_docs "set_status_step now ids status" for now ids status
  by unfold_locales
     (auto simp: set_status_step_def dest: status_loop_same intro: status_loop_keyed split: prod.splits)

interpretation dc_delete: guarded_op wf_docs "doc_delete_step i" for i
  by unfold_locales (auto simp: doc_delete_step_def Let_def hdel_absent intro: keyed_hdel)

text \<open>An update of one record that keeps its id.\<close>

lemma guarded_with_doc:
  assumes "\<And>d d' b. f d = (d', b) \<Longrightarrow> dc_id d' = dc_id d"
  shows "guarded_op wf_docs (with_doc i f)"
  by unfold_locales
     (auto simp: with_doc_def intro: wf_docs_update dest: assms split: option.splits prod.splits if_splits)

section \<open>Calls of the store\<close>

text \<open>
  One call with any arguments. \<open>insert\<close> and \<open>rename\<close> are the calls that take a name as given;
  the flag says whether the call is one of them.
\<close>

inductive doc_call :: "write_env \<Rightarrow> bool \<Rightarrow> 'j doc_store \<Rightarrow> 'j doc_store \<Rightarrow> outcome \<Rightarrow> bool" for e where
  call_insert: "doc_insert e d st = (st', u) \<Longrightarrow> doc_call e True st st' (outcome_of u)"
| call_rename: "doc_rename e i new_name st = (st', b) \<Longrightarrow> doc_call e True st st' (outcome_of b)"
| call_insert_unique: "insert_unique e d st = (st', r) \<Longrightarrow> doc_call e False st st' (outcome_of r)"
| call_status: "set_status e now ids status st = (st', ch) \<Longrightarrow> doc_call e False st st' (outcome_of ch)"
| call_reset: "reset_for_reparse e now i parser_opt pipeline st = (st', b) \<Longrightarrow> doc_call e False st st' (outcome_of b)"
| call_config: "set_parser_config e now i config st = (st', b) \<Longrightarrow> doc_call e False st st' (outcome_of b)"
| call_result: "update_parse_result e now i run progress msg n_opt st = (st', b) \<Longrightarrow> doc_call e False st st' (outcome_of b)"
| call_indexed: "mark_indexed e now i hash n msg st = (st', b) \<Longrightarrow> doc_call e False st st' (outcome_of b)"
| call_count: "set_chunk_count e now i n st = (st', b) \<Longrightarrow> doc_call e False st st' (outcome_of b)"
| call_delete: "doc_delete e i st = (st', b) \<Longrightarrow> doc_call e False st st' (outcome_of b)"

lemmas doc_writes =
  doc_insert_def insert_unique_def set_status_def doc_rename_def reset_for_reparse_def
  set_parser_config_def update_parse_result_def mark_indexed_def set_chunk_count_def doc_delete_def
  doc_mutate_def doc_mutate_if_changed_def Let_def

text \<open>Every call runs one guarded operation, or is refused before it looks at the store.\<close>

lemma doc_call_sound:
  assumes "doc_call e named st st' out" and sound: "store_sound hvalues wf_docs st" and "reliable e"
  shows "call_sound hvalues wf_docs st st' out"
proof -
  note guarded = call_sound_guarded [OF _ _ sound assms(3)]
  show ?thesis
    using assms(1)
  proof (cases rule: doc_call.cases)
    case (call_rename i new_name b)
    then show ?thesis
      using call_sound_refused [OF sound]
      by (auto simp: doc_writes split: if_splits intro!: guarded guarded_with_doc)
  next
    case (call_status now ids status ch)
    show ?thesis
    proof (cases "status \<notin> {''0'', ''1''}")
      case True
      with call_status show ?thesis using call_sound_refused [OF sound] by (auto simp: set_status_def)
    next
      case False
      with call_status have "tx_mutate_if_changed hvalues (Some e) (set_status_step now ids status) st = (st', ch)"
        by (simp only: set_status_def doc_mutate_if_changed_def simp_thms if_False)
      from guarded [OF this dc_status.guarded_op_axioms] call_status(2) show ?thesis by simp
    qed
  next
    case (call_insert d u)
    then show ?thesis by (auto simp: doc_writes intro: guarded dc_insert.guarded_op_axioms)
  next
    case (call_insert_unique d r)
    then show ?thesis by (auto simp: doc_writes intro: guarded dc_insert_unique.guarded_op_axioms)
  next
    case (call_delete i b)
    then show ?thesis by (auto simp: doc_writes intro: guarded dc_delete.guarded_op_axioms)
  qed (auto simp: doc_writes split: if_splits intro!: guarded guarded_with_doc)
qed

section \<open>Unique names\<close>

text \<open>No two documents of a knowledge base have the same name.\<close>

definition doc_key :: "'j docs \<Rightarrow> string \<Rightarrow> (string \<times> string) option" where
  "doc_key docs i = map_option (\<lambda>d. (dc_kb_id d, dc_name d)) (hget docs i)"

definition names_unique :: "'j docs \<Rightarrow> bool" where
  "names_unique docs \<longleftrightarrow> (\<forall>i j k. doc_key docs i = Some k \<longrightarrow> doc_key docs j = Some k \<longrightarrow> i = j)"

text \<open>An update that keeps name and knowledge base.\<close>

lemma names_unique_update:
  assumes "names_unique docs" and "hget docs i = Some d" and "dc_name d' = dc_name d" and "dc_kb_id d' = dc_kb_id d"
  shows "names_unique (hput i d' docs)"
proof -
  have "doc_key (hput i d' docs) = doc_key docs"
    using assms(2-4) by (intro ext) (auto simp: doc_key_def)
  with assms(1) show ?thesis by (simp add: names_unique_def)
qed

lemma names_unique_hdel: "names_unique docs \<Longrightarrow> names_unique (hdel i docs)"
proof -
  have "doc_key (hdel i docs) j = (if i = j then None else doc_key docs j)" for j
    by (simp add: doc_key_def)
  then show "names_unique docs \<Longrightarrow> names_unique (hdel i docs)"
    unfolding names_unique_def by (metis option.distinct(1))
qed

lemma status_loop_unique:
  assumes "status_loop now status ids docs = (docs', changed)" and "names_unique docs"
  shows "names_unique docs'"
  by (rule status_loop_keeps [where P = names_unique, OF _ assms]) (rule names_unique_update; simp)

lemma with_doc_unique:
  assumes "with_doc i f docs = (docs', r)" and "names_unique docs"
    and "\<And>d d' b. f d = (d', b) \<Longrightarrow> dc_name d' = dc_name d \<and> dc_kb_id d' = dc_kb_id d"
  shows "names_unique docs'"
  using assms by (auto simp: with_doc_def split: option.splits prod.splits if_splits intro: names_unique_update)

lemma with_doc_store_unique:
  assumes "tx_mutate_if_changed hvalues e (with_doc i f) st = (st', r)" and "names_unique (st_mem st)"
    and "\<And>d d' b. f d = (d', b) \<Longrightarrow> dc_name d' = dc_name d \<and> dc_kb_id d' = dc_kb_id d"
  shows "names_unique (st_mem st')"
  by (rule tx_store_inv [where I = names_unique, OF assms(1,2)]) (auto dest: assms(3) intro: with_doc_unique [OF _ assms(2)])

lemma name_takenI: "hget docs i = Some d \<Longrightarrow> name_taken docs (dc_kb_id d) (dc_name d)"
  unfolding name_taken_def using hget_hvalues by fastforce

lemma insert_unique_step_Ok:
  assumes "insert_unique_step d docs = (docs', Ok d')"
  shows "hget docs (dc_id d) = None \<and> duplicate_name (dc_name d) (name_taken docs (dc_kb_id d)) = Ok (dc_name d')
    \<and> d' = d\<lparr>dc_name := dc_name d'\<rparr> \<and> docs' = hput (dc_id d) d' docs"
  using assms by (auto simp: insert_unique_step_def Let_def split: if_splits res.splits)

lemma duplicate_name_free: "duplicate_name s taken = Ok r \<Longrightarrow> \<not> taken r"
  using try_names_Ok unfolding duplicate_name_def by blast

lemma names_unique_hput:
  assumes "names_unique docs" and "hget docs i = None" and "\<not> name_taken docs (dc_kb_id d) (dc_name d)"
  shows "names_unique (hput i d docs)"
proof -
  have free: "doc_key docs j \<noteq> Some (dc_kb_id d, dc_name d)" for j
    using name_takenI [of docs j] assms(3) by (auto simp: doc_key_def)
  have "doc_key (hput i d docs) j = (if i = j then Some (dc_kb_id d, dc_name d) else doc_key docs j)" for j
    by (simp add: doc_key_def)
  with free assms(1) show ?thesis unfolding names_unique_def by (metis (no_types))
qed

lemma insert_unique_step_unique:
  assumes "insert_unique_step d docs = (docs', Ok d')" and "names_unique docs"
  shows "names_unique docs'"
proof -
  note ins = insert_unique_step_Ok [OF assms(1)]
  then have free: "\<not> name_taken docs (dc_kb_id d) (dc_name d')" using duplicate_name_free by blast
  obtain nm where nm: "d' = d\<lparr>dc_name := nm\<rparr>" using ins by blast
  with free ins show ?thesis by (auto intro: names_unique_hput [OF assms(2)])
qed

lemma insert_unique_step_keeps:
  assumes "insert_unique_step d docs = (docs', r)" and "names_unique docs"
  shows "names_unique docs'"
proof (cases "is_ok r")
  case True
  then obtain d' where "r = Ok d'" unfolding is_ok_iff by blast
  with assms show ?thesis by (blast intro: insert_unique_step_unique)
next
  case False
  with assms show ?thesis by (auto simp: insert_unique_step_def Let_def split: res.splits if_splits)
qed

text \<open>Every call but \<open>insert\<close> and \<open>rename\<close> keeps the names of a knowledge base distinct.\<close>

lemma doc_call_unique:
  assumes "doc_call e False st st' out" and names: "names_unique (st_mem st)"
  shows "names_unique (st_mem st')"
proof -
  note inv = tx_store_inv [where I = names_unique, OF _ names]
  show ?thesis
    using assms(1)
  proof (cases rule: doc_call.cases)
    case (call_status now ids status ch)
    show ?thesis
    proof (cases "status \<notin> {''0'', ''1''}")
      case True
      with call_status names show ?thesis by (auto simp: set_status_def)
    next
      case False
      with call_status have "tx_mutate_if_changed hvalues (Some e) (set_status_step now ids status) st = (st', ch)"
        by (simp only: set_status_def doc_mutate_if_changed_def simp_thms if_False)
      then show ?thesis
        by (rule inv) (auto simp: set_status_step_def intro: status_loop_unique [OF _ names] split: prod.splits)
    qed
  next
    case (call_insert_unique d r)
    then have "tx_mutate_if_changed hvalues (Some e) (always_changed (insert_unique_step d)) st = (st', r)"
      by (simp add: doc_writes)
    then show ?thesis
      by (rule inv) (auto simp: always_changed_def intro: insert_unique_step_keeps [OF _ names] split: prod.splits)
  next
    case (call_delete i b)
    then have "tx_mutate_if_changed hvalues (Some e) (doc_delete_step i) st = (st', b)" by (simp add: doc_writes)
    then show ?thesis by (rule inv) (auto simp: doc_delete_step_def Let_def intro: names_unique_hdel [OF names])
  qed (auto simp: doc_writes elim!: with_doc_store_unique [OF _ names] split: if_splits)
qed

text \<open>What the loop of \<open>set_status\<close> changed.\<close>

lemma status_loop_exact:
  assumes "status_loop now status ids docs = (docs', changed)"
  shows "distinct changed
    \<and> set changed = {i \<in> set ids. \<exists>d. hget docs i = Some d \<and> dc_status d \<noteq> status}
    \<and> (\<forall>i. hget docs' i = (if i \<in> set changed
          then map_option (\<lambda>d. d\<lparr>dc_status := status, dc_updated_at := now\<rparr>) (hget docs i) else hget docs i))"
  using assms
proof (induction ids arbitrary: docs changed)
  case (Cons i ids)
  show ?case
  proof (cases "\<exists>d. hget docs i = Some d \<and> dc_status d \<noteq> status")
    case True
    then obtain d where d: "hget docs i = Some d" "dc_status d \<noteq> status" by blast
    let ?docs = "hput i (d\<lparr>dc_status := status, dc_updated_at := now\<rparr>) docs"
    obtain ch where ch: "status_loop now status ids ?docs = (docs', ch)" "changed = i # ch"
      using Cons.prems d by (auto split: prod.splits)
    note IH = Cons.IH [OF ch(1)]
    have mem: "set ch = {j \<in> set ids. j \<noteq> i \<and> (\<exists>d. hget docs j = Some d \<and> dc_status d \<noteq> status)}"
      using IH by auto
    have "distinct changed" using IH mem ch(2) by simp
    moreover have "set changed = {j \<in> set (i # ids). \<exists>d. hget docs j = Some d \<and> dc_status d \<noteq> status}"
      unfolding ch(2) using mem d by auto
    moreover have "\<forall>j. hget docs' j = (if j \<in> set changed
        then map_option (\<lambda>d. d\<lparr>dc_status := status, dc_updated_at := now\<rparr>) (hget docs j) else hget docs j)"
      using IH mem ch(2) d(1) by auto
    ultimately show ?thesis by blast
  next
    case False
    then have run: "status_loop now status ids docs = (docs', changed)"
      using Cons.prems by (auto split: option.splits if_splits)
    show ?thesis using Cons.IH [OF run] False by auto
  qed
qed simp

section \<open>Properties\<close>

definition demo_doc :: "string \<Rightarrow> string \<Rightarrow> nat doc_record" where
  "demo_doc i name =
     \<lparr>dc_id = i, dc_name = name, dc_kb_id = ''k1'', dc_size = 10, dc_storage_name = i,
      dc_content_hash = ''h'', dc_indexed_content_hash = [], dc_run = ''UNSTARTED'', dc_progress = Fin 0,
      dc_progress_msg = [], dc_chunk_count = 0, dc_created_at = 1, dc_updated_at = 1, dc_status = ''1'',
      dc_parser_id = None, dc_parser_config = None, dc_doc_type = None, dc_parent_path = None,
      dc_pipeline_id = None\<rparr>"

definition demo_docs :: "nat docs" where
  "demo_docs = [(''d1'', demo_doc ''d1'' ''a.txt''), (''d2'', demo_doc ''d2'' ''b.txt'')]"

definition demo_doc_store :: "nat doc_store" where
  "demo_doc_store = \<lparr>st_mem = demo_docs, st_disk = \<lparr>dk_file = Some (hvalues demo_docs), dk_mirror = None\<rparr>,
     st_poisoned = False\<rparr>"

lemma demo_docs_wf: "wf_docs demo_docs"
  by (simp add: demo_docs_def keyed_def demo_doc_def)

lemma demo_docs_unique: "names_unique demo_docs"
  by (auto simp: names_unique_def doc_key_def demo_docs_def demo_doc_def split: if_splits)

lemma duplicate_name_second:
  assumes "taken s" and "\<not> taken (next_name s)"
  shows "duplicate_name s taken = Ok (next_name s)"
proof -
  have "MAX_RETRIES + 1 = Suc (Suc 999)" by (simp add: MAX_RETRIES_def)
  with assms show ?thesis unfolding duplicate_name_def by (simp only: try_names.simps if_True if_False simp_thms)
qed

lemma next_demo_name: "next_name ''a.txt'' = ''a(1).txt''"
proof -
  have "path_file_name ''a.txt'' = Some ''a.txt''" "stem_and_extension ''a.txt'' = (''a'', Some ''txt'')"
    "split_counter ''a'' = (''a'', None)" "nat_to_str 1 = ''1''" by code_simp+
  then show ?thesis by (simp add: next_name_def)
qed

lemma demo_insert:
  "insert_unique we_all_ok (demo_doc ''d3'' ''a.txt'') demo_doc_store =
     (let docs = hput ''d3'' (demo_doc ''d3'' ''a(1).txt'') demo_docs
      in (demo_doc_store\<lparr>st_mem := docs, st_disk := \<lparr>dk_file = Some (hvalues docs), dk_mirror = None\<rparr>\<rparr>,
          Ok (demo_doc ''d3'' ''a(1).txt'')))"
proof -
  have "name_taken demo_docs ''k1'' ''a.txt''" "\<not> name_taken demo_docs ''k1'' ''a(1).txt''"
    by (simp_all add: name_taken_def demo_docs_def demo_doc_def)
  then have "duplicate_name ''a.txt'' (name_taken demo_docs ''k1'') = Ok ''a(1).txt''"
    using duplicate_name_second [of "name_taken demo_docs ''k1''" "''a.txt''"] by (simp add: next_demo_name)
  then have "insert_unique_step (demo_doc ''d3'' ''a.txt'') demo_docs =
      (hput ''d3'' (demo_doc ''d3'' ''a(1).txt'') demo_docs, Ok (demo_doc ''d3'' ''a(1).txt''))"
    by (simp add: insert_unique_step_def demo_doc_def) (simp add: demo_docs_def Let_def)
  then show ?thesis
    by (simp add: doc_writes tx_mutate_if_changed_def always_changed_def demo_doc_store_def)
qed

lemma demo_doc_store_sound: "store_sound hvalues wf_docs demo_doc_store"
  by (simp add: store_sound_def demo_doc_store_def demo_docs_wf synced_def)

text \<open>
  Every sequence of calls of the store, with any arguments, keeps it keyed by id, keeps the
  file equal to memory and leaves no call panicking, whatever writes fail, as long as a failed
  write leaves the old file in place; and if none of the calls is \<open>insert\<close> or \<open>rename\<close>, no two
  documents of a knowledge base get the same name.
\<close>

theorem doc_store_sound:
  assumes "(\<lambda>st st'. \<exists>e named out. reliable e \<and> (named \<longrightarrow> renames) \<and> doc_call e named st st' out)\<^sup>*\<^sup>* st st'"
    and "store_sound hvalues wf_docs st" and "names_unique (st_mem st)"
  shows "store_sound hvalues wf_docs st' \<and> (\<not> renames \<longrightarrow> names_unique (st_mem st'))"
  using assms
proof (induction rule: rtranclp_induct)
  case (step y z)
  then obtain e named out where call: "reliable e" "named \<longrightarrow> renames" "doc_call e named y z out" by blast
  from step have y: "store_sound hvalues wf_docs y" "\<not> renames \<longrightarrow> names_unique (st_mem y)" by blast+
  show ?case
    using doc_call_sound [OF call(3) y(1) call(1)] doc_call_unique [of e y z out] call(2,3) y(2)
    by (auto simp: call_sound_def)
qed simp

theorem doc_store_sound_witness:
  "let p = insert_unique we_all_ok (demo_doc ''d3'' ''a.txt'') demo_doc_store
   in map_option dc_name (hget (st_mem (fst p)) ''d3'') = Some ''a(1).txt''
      \<and> store_sound hvalues wf_docs (fst p) \<and> names_unique (st_mem (fst p))"
proof -
  let ?p = "insert_unique we_all_ok (demo_doc ''d3'' ''a.txt'') demo_doc_store"
  have "doc_call we_all_ok False demo_doc_store (fst ?p) (outcome_of (snd ?p))"
    by (rule call_insert_unique) simp
  then have "(\<lambda>st st'. \<exists>e named out. reliable e \<and> (named \<longrightarrow> False) \<and> doc_call e named st st' out)\<^sup>*\<^sup>* demo_doc_store (fst ?p)"
    by (blast intro: reliable_we_all_ok)
  from doc_store_sound [OF this demo_doc_store_sound] demo_docs_unique
  have "store_sound hvalues wf_docs (fst ?p) \<and> names_unique (st_mem (fst ?p))"
    by (simp add: demo_doc_store_def)
  moreover have "map_option dc_name (hget (st_mem (fst ?p)) ''d3'') = Some ''a(1).txt''"
    unfolding demo_insert Let_def by (simp add: demo_doc_def)
  ultimately show ?thesis by (simp only: Let_def simp_thms)
qed

text \<open>
  C32. \<open>insert_unique\<close> that succeeds has stored the document under its id, which was free, and
  under a name no other document of its knowledge base had: the first free one of the numbered
  names that start with the requested one. Every other document is as it was, and the file
  holds the new record.
\<close>

theorem insert_unique_reserves:
  assumes "insert_unique e d st = (st', Ok d')"
  shows "hget (st_mem st) (dc_id d) = None
    \<and> \<not> name_taken (st_mem st) (dc_kb_id d) (dc_name d')
    \<and> (\<exists>i. dc_name d' = (next_name ^^ i) (dc_name d)
          \<and> (\<forall>j < i. name_taken (st_mem st) (dc_kb_id d) ((next_name ^^ j) (dc_name d))))
    \<and> d' = d\<lparr>dc_name := dc_name d'\<rparr>
    \<and> hget (st_mem st') = (hget (st_mem st))(dc_id d \<mapsto> d')
    \<and> synced hvalues st'"
proof -
  have run: "tx_mutate_if_changed hvalues (Some e) (always_changed (insert_unique_step d)) st = (st', Ok d')"
    using assms by (simp add: doc_writes)
  from dc_insert_unique.store_refines [OF this]
  have step: "insert_unique_step d (st_mem st) = (st_mem st', Ok d')" by simp
  note ins = insert_unique_step_Ok [OF step]
  then have name: "duplicate_name (dc_name d) (name_taken (st_mem st) (dc_kb_id d)) = Ok (dc_name d')" by blast
  have "synced hvalues st'" using tx_mutate_synced_step [OF run _ refl] step by simp
  moreover have "hget (st_mem st') = (hget (st_mem st))(dc_id d \<mapsto> d')"
    using ins by (intro ext) simp
  ultimately show ?thesis
    using ins try_names_Ok [OF name [unfolded duplicate_name_def]] by blast
qed

theorem insert_unique_reserves_witness:
  "\<exists>st' d'. insert_unique we_all_ok (demo_doc ''d3'' ''a.txt'') demo_doc_store = (st', Ok d')
     \<and> \<not> name_taken demo_docs ''k1'' (dc_name d') \<and> hget (st_mem st') ''d3'' = Some d'"
proof -
  let ?p = "insert_unique we_all_ok (demo_doc ''d3'' ''a.txt'') demo_doc_store"
  let ?d = "demo_doc ''d3'' ''a(1).txt''"
  have "snd ?p = Ok ?d" by (simp add: demo_insert Let_def)
  then have "insert_unique we_all_ok (demo_doc ''d3'' ''a.txt'') demo_doc_store = (fst ?p, Ok ?d)"
    by (metis surjective_pairing)
  from this insert_unique_reserves [OF this] show ?thesis
    by (intro exI conjI) (auto simp: demo_doc_store_def demo_doc_def)
qed

text \<open>
  \<open>set_status\<close> answers exactly the requested ids whose document exists and had the other
  status, without repetition; exactly those documents get the status and the time of the call,
  and a call that changes none of them is answered with the empty list and writes nothing.
\<close>

theorem set_status_exact:
  assumes "set_status e now ids status st = (st', Ok changed)"
  shows "distinct changed
    \<and> set changed = {i \<in> set ids. \<exists>d. hget (st_mem st) i = Some d \<and> dc_status d \<noteq> status}
    \<and> (\<forall>i. hget (st_mem st') i = (if i \<in> set changed
          then map_option (\<lambda>d. d\<lparr>dc_status := status, dc_updated_at := now\<rparr>) (hget (st_mem st) i)
          else hget (st_mem st) i))
    \<and> (changed = [] \<longrightarrow> st' = st)
    \<and> (changed \<noteq> [] \<longrightarrow> synced hvalues st')"
proof -
  have run: "tx_mutate_if_changed hvalues (Some e) (set_status_step now ids status) st = (st', Ok changed)"
    using assms by (auto simp: set_status_def doc_mutate_if_changed_def split: if_splits)
  obtain docs' ch where loop: "status_loop now status ids (st_mem st) = (docs', ch)" by fastforce
  then have step: "set_status_step now ids status (st_mem st) = (docs', Ok (ch, ch \<noteq> []))"
    by (simp add: set_status_step_def)
  from run have eqs: "changed = ch" "st_mem st' = docs'" "ch = [] \<longrightarrow> st_disk st' = st_disk st \<and> \<not> st_poisoned st \<and> \<not> st_poisoned st'"
    by (cases rule: tx_mutate_cases; use step in auto)+
  have "ch = [] \<longrightarrow> st' = st" using eqs status_loop_same [of now status ids "st_mem st" docs'] loop by auto
  moreover have "ch \<noteq> [] \<longrightarrow> synced hvalues st'"
    using tx_mutate_synced_step [OF run _ refl] step by auto
  ultimately show ?thesis using status_loop_exact [OF loop] eqs(1,2) by blast
qed

theorem set_status_exact_witness:
  "\<exists>st'. set_status we_all_ok 9 [''d2'', ''d9'', ''d2''] ''0'' demo_doc_store = (st', Ok [''d2''])
     \<and> map_option dc_status (hget (st_mem st') ''d1'') = Some ''1''"
proof -
  let ?p = "set_status we_all_ok 9 [''d2'', ''d9'', ''d2''] ''0'' demo_doc_store"
  have "snd ?p = Ok [''d2'']" by code_simp
  then have run: "set_status we_all_ok 9 [''d2'', ''d9'', ''d2''] ''0'' demo_doc_store = (fst ?p, Ok [''d2''])"
    by (metis surjective_pairing)
  have "map_option dc_status (hget (st_mem demo_doc_store) ''d1'') = Some ''1''"
    by (simp add: demo_doc_store_def demo_docs_def demo_doc_def)
  with set_status_exact [OF run] run show ?thesis by (intro exI [of _ "fst ?p"]) simp
qed

text \<open>
  \<open>rename\<close> does not look at the names of the other documents: after a successful rename two
  documents of one knowledge base can have the same name.
\<close>

theorem document_rename_breaks_unique_names:
  "\<exists>st'. doc_rename we_all_ok ''d2'' '' a.txt '' demo_doc_store = (st', Ok True)
     \<and> names_unique (st_mem demo_doc_store) \<and> \<not> names_unique (st_mem st')"
proof -
  let ?p = "doc_rename we_all_ok ''d2'' '' a.txt '' demo_doc_store"
  have "snd ?p = Ok True" by code_simp
  then have run: "?p = (fst ?p, Ok True)" by (metis surjective_pairing)
  have "doc_key (st_mem (fst ?p)) ''d1'' = Some (''k1'', ''a.txt'')" by code_simp
  moreover have "doc_key (st_mem (fst ?p)) ''d2'' = Some (''k1'', ''a.txt'')" by code_simp
  ultimately have "\<not> names_unique (st_mem (fst ?p))" unfolding names_unique_def by fastforce
  with run demo_docs_unique show ?thesis by (intro exI [of _ "fst ?p"]) (simp add: demo_doc_store_def)
qed

end
