(* ===== verification/Calc_Helpers.thy ===== *)
theory Calc_Helpers
  imports Rust_F64
begin

text \<open>
  The helper functions of \<^verbatim>\<open>src/harness/arithmetic.rs\<close>: \<open>letters\<close>, \<open>digit_sum\<close> and \<open>date_diff\<close>
  over JSON values. What the code takes from Unicode tables, from \<open>chrono\<close>, from \<open>serde_json\<close> and
  from the platform's \<open>powf\<close> and \<open>powi\<close> is an argument of the model.
\<close>

section \<open>What the code takes from outside\<close>

text \<open>
  \<open>char::is_alphabetic\<close> and \<open>char::is_alphanumeric\<close> of a character's encoding, \<open>{:?}\<close> of a string
  and of \<open>Option<char>\<close>, the text \<open>serde_json\<close> gives a float, the day number
  \<open>chrono::NaiveDate::from_ymd_opt\<close> stands for, and the two power functions.
\<close>

record calc_env =
  ce_alphabetic :: "string \<Rightarrow> bool"
  ce_alphanumeric :: "string \<Rightarrow> bool"
  ce_debug :: "string \<Rightarrow> string"
  ce_debug_char :: "string option \<Rightarrow> string"
  ce_float_text :: "f64 \<Rightarrow> string"
  ce_ymd :: "int \<Rightarrow> nat \<Rightarrow> nat \<Rightarrow> int option"
  ce_powf :: "f64 \<Rightarrow> f64 \<Rightarrow> f64"
  ce_powi :: "f64 \<Rightarrow> int \<Rightarrow> f64"

section \<open>JSON values\<close>

datatype jvalue =
  JsNull | JsBool bool | JsInt int | JsFloat f64 | JsStr string | JsArr "jvalue list"
| JsObj "(string \<times> jvalue) list"

fun json_type_name :: "jvalue \<Rightarrow> string" where
  "json_type_name JsNull = ''NoneType''"
| "json_type_name (JsBool b) = ''bool''"
| "json_type_name (JsInt n) = ''int''"
| "json_type_name (JsFloat x) = ''float''"
| "json_type_name (JsStr s) = ''str''"
| "json_type_name (JsArr vs) = ''list''"
| "json_type_name (JsObj kvs) = ''dict''"

fun flatten :: "jvalue \<Rightarrow> jvalue list" where
  "flatten (JsArr items) = concat (map flatten items)"
| "flatten v = [v]"

section \<open>Letters and digits\<close>

definition letters_in :: "calc_env \<Rightarrow> string \<Rightarrow> nat" where
  "letters_in env text = length (filter (ce_alphabetic env) (chars_of text))"

fun letters_loop :: "calc_env \<Rightarrow> jvalue list \<Rightarrow> i64 \<Rightarrow> i64 res" where
  "letters_loop env [] tot = Ok tot"
| "letters_loop env (item # seen) tot =
     (case item of
        JsStr text \<Rightarrow> letters_loop env seen (tot + of_nat (letters_in env text))
      | _ \<Rightarrow> Err (''letters() takes names, not '' @ json_type_name item))"

definition letters :: "calc_env \<Rightarrow> jvalue list \<Rightarrow> i64 res" where
  "letters env values = letters_loop env (concat (map flatten values)) 0"

text \<open>\<open>ch.to_digit(10)\<close>.\<close>

fun to_digit :: "string \<Rightarrow> nat option" where
  "to_digit [c] = (if is_ascii_digit c then Some (of_char c - 48) else None)"
| "to_digit _ = None"

definition digits_in :: "string \<Rightarrow> nat" where
  "digits_in text = sum_list (List.map_filter to_digit (chars_of text))"

fun digit_sum_loop :: "calc_env \<Rightarrow> jvalue list \<Rightarrow> i64 \<Rightarrow> i64 res" where
  "digit_sum_loop env [] tot = Ok tot"
| "digit_sum_loop env (item # seen) tot =
     (case item of
        JsStr text \<Rightarrow> digit_sum_loop env seen (tot + of_nat (digits_in text))
      | JsInt n \<Rightarrow> digit_sum_loop env seen (tot + of_nat (digits_in (int_to_str n)))
      | JsFloat x \<Rightarrow> digit_sum_loop env seen (tot + of_nat (digits_in (ce_float_text env x)))
      | _ \<Rightarrow> Err (''digit_sum() takes text or whole numbers, not '' @ json_type_name item))"

definition digit_sum :: "calc_env \<Rightarrow> jvalue list \<Rightarrow> i64 res" where
  "digit_sum env values = digit_sum_loop env (concat (map flatten values)) 0"

section \<open>Dates\<close>

definition parse_iso_date :: "calc_env \<Rightarrow> string \<Rightarrow> int res" where
  "parse_iso_date env raw =
     (let text = trim raw; parts = split_char (CHR ''-'') text;
          invalid = Err (''not a valid ISO date: '' @ ce_debug env text)
      in if length parts \<noteq> 3 then Err (''not an ISO date: '' @ ce_debug env text)
         else case parse_i32 (parts ! 0) of None \<Rightarrow> invalid
              | Some year \<Rightarrow>
                  (case parse_u32 (parts ! 1) of None \<Rightarrow> invalid
                   | Some month \<Rightarrow>
                       (case parse_u32 (parts ! 2) of None \<Rightarrow> invalid
                        | Some day \<Rightarrow> (case ce_ymd env year month day of None \<Rightarrow> invalid | Some n \<Rightarrow> Ok n))))"

definition date_diff :: "calc_env \<Rightarrow> string list \<Rightarrow> i64 res" where
  "date_diff env dates =
     (if length dates \<noteq> 2 then Err ''date_diff() takes exactly two ISO dates''
      else res_bind (parse_iso_date env (dates ! 0)) (\<lambda>a.
           res_bind (parse_iso_date env (dates ! 1)) (\<lambda>b. Ok (of_int \<bar>b - a\<bar>))))"

section \<open>Facts\<close>

lemma letters_loop_no_panic [simp]: "letters_loop env seen tot \<noteq> Panic"
  by (induction seen arbitrary: tot) (auto split: jvalue.splits)

lemma digit_sum_loop_no_panic [simp]: "digit_sum_loop env seen tot \<noteq> Panic"
  by (induction seen arbitrary: tot) (auto split: jvalue.splits)

lemma parse_iso_date_no_panic [simp]: "parse_iso_date env raw \<noteq> Panic"
  by (auto simp: parse_iso_date_def Let_def split: option.splits)

lemma helpers_no_panic [simp]:
  "letters env vs \<noteq> Panic" "digit_sum env vs \<noteq> Panic" "date_diff env ds \<noteq> Panic"
  by (auto simp: letters_def digit_sum_def date_diff_def res_bind_Panic_iff)

text \<open>The two sums, over the flattened arguments.\<close>

lemma letters_loop_strings:
  "letters_loop env (map JsStr texts) tot = Ok (tot + of_nat (sum_list (map (letters_in env) texts)))"
  by (induction texts arbitrary: tot) (simp_all add: algebra_simps)

lemma digit_sum_loop_strings:
  "digit_sum_loop env (map JsStr texts) tot = Ok (tot + of_nat (sum_list (map digits_in texts)))"
  by (induction texts arbitrary: tot) (simp_all add: algebra_simps)

lemma letters_strings: "letters env (map JsStr texts) = Ok (of_nat (sum_list (map (letters_in env) texts)))"
proof -
  have "concat (map flatten (map JsStr texts)) = map JsStr texts" by (induction texts) simp_all
  then show ?thesis by (simp only: letters_def letters_loop_strings) simp
qed

lemma digit_sum_strings: "digit_sum env (map JsStr texts) = Ok (of_nat (sum_list (map digits_in texts)))"
proof -
  have "concat (map flatten (map JsStr texts)) = map JsStr texts" by (induction texts) simp_all
  then show ?thesis by (simp only: digit_sum_def digit_sum_loop_strings) simp
qed

end
