(* ===== verification/Calc_Eval.thy ===== *)
theory Calc_Eval
  imports Calc_Helpers "HOL-Library.Signed_Division"
begin

text \<open>
  The expressions of \<^verbatim>\<open>src/harness/arithmetic.rs\<close>, the whitelist check that runs before evaluation, and
  the evaluator. Integers are \<open>i64\<close> with the code's checked operations, floats are \<open>f64\<close>.
\<close>

section \<open>Expressions\<close>

datatype expr =
  EInt i64 | EFloat f64 | EStr string | EBool bool | EList "expr list" | EName string
| ECall string "expr list" | EUnary char expr | EBin char expr expr
| ECompare "(string \<times> expr) list" | EBoolOp bool expr expr | EIfElse expr expr expr

definition FUNCTIONS :: "string list" where
  "FUNCTIONS = [''abs'', ''round'', ''min'', ''max'', ''sum'', ''len'', ''int'', ''float'', ''sorted'',
                ''letters'', ''digit_sum'', ''date_diff'']"

definition ALWAYS_NUMERIC :: "string list" where
  "ALWAYS_NUMERIC = [''abs'', ''round'', ''int'', ''float'', ''len'', ''letters'', ''digit_sum'', ''date_diff'']"

fun is_numeric :: "expr \<Rightarrow> bool" and is_numeric_sequence :: "expr \<Rightarrow> bool" where
  "is_numeric (EInt n) = True"
| "is_numeric (EFloat x) = True"
| "is_numeric (EBool b) = True"
| "is_numeric (EUnary op operand) = is_numeric operand"
| "is_numeric (EBin op l r) = (is_numeric l \<and> is_numeric r)"
| "is_numeric (EIfElse body c orelse) = (is_numeric body \<and> is_numeric orelse)"
| "is_numeric (ECompare chain) = True"
| "is_numeric (ECall name args) =
     (if name \<in> set ALWAYS_NUMERIC then True
      else if name = ''sum'' \<or> name = ''min'' \<or> name = ''max''
      then list_all (\<lambda>arg. is_numeric arg \<or> is_numeric_sequence arg) args else False)"
| "is_numeric (EStr s) = False"
| "is_numeric (EList items) = False"
| "is_numeric (EName n) = False"
| "is_numeric (EBoolOp a l r) = False"
| "is_numeric_sequence (EList items) = list_all is_numeric items"
| "is_numeric_sequence (EInt n) = False"
| "is_numeric_sequence (EFloat x) = False"
| "is_numeric_sequence (EBool b) = False"
| "is_numeric_sequence (EUnary op operand) = False"
| "is_numeric_sequence (EBin op l r) = False"
| "is_numeric_sequence (EIfElse body c orelse) = False"
| "is_numeric_sequence (ECompare chain) = False"
| "is_numeric_sequence (ECall name args) = False"
| "is_numeric_sequence (EStr s) = False"
| "is_numeric_sequence (EName n) = False"
| "is_numeric_sequence (EBoolOp a l r) = False"

section \<open>The whitelist check\<close>

text \<open>\<open>n.abs()\<close>: the least value wraps to itself in a release build.\<close>

definition i64_abs :: "i64 \<Rightarrow> i64" where
  "i64_abs n = (if sint n < 0 then - n else n)"

definition exponent_too_large :: "expr \<Rightarrow> bool" where
  "exponent_too_large e =
     (case e of EInt n \<Rightarrow> 64 < sint (i64_abs n)
      | EFloat x \<Rightarrow> f64_cmp (f64_abs x) (FFin False 64) = Some Greater
      | _ \<Rightarrow> False)"

fun check_expression :: "expr \<Rightarrow> unit res"
  and check_args :: "expr list \<Rightarrow> unit res"
  and check_list :: "expr list \<Rightarrow> unit res"
  and check_chain :: "(string \<times> expr) list \<Rightarrow> unit res" where
  "check_expression (EName name) =
     (if name \<notin> set FUNCTIONS then Err (''unknown name '' @ quoted name) else Ok ())"
| "check_expression (ECall name args) =
     (if name \<notin> set FUNCTIONS then Err ''only the listed functions may be called''
      else if name = ''len'' \<and> (case args of EStr s # _ \<Rightarrow> True | _ \<Rightarrow> False)
      then Err ''len() on a string literal is ambiguous; use letters()''
      else check_args args)"
| "check_expression (EBin op l r) =
     (if op = CHR ''*'' \<and> \<not> (is_numeric l \<and> is_numeric r) then Err ''multiplication is only allowed on numbers''
      else if op = CHR ''^'' \<and> \<not> (is_numeric l \<and> is_numeric r) then Err ''exponentiation is only allowed on numbers''
      else if op = CHR ''^'' \<and> exponent_too_large r then Err ''exponent is too large''
      else res_bind (check_expression l) (\<lambda>_. check_expression r))"
| "check_expression (EUnary op operand) = check_expression operand"
| "check_expression (ECompare chain) = check_chain chain"
| "check_expression (EBoolOp a l r) = res_bind (check_expression l) (\<lambda>_. check_expression r)"
| "check_expression (EIfElse body c orelse) =
     res_bind (check_expression body) (\<lambda>_. res_bind (check_expression c) (\<lambda>_. check_expression orelse))"
| "check_expression (EList items) = check_list items"
| "check_expression (EInt n) = Ok ()"
| "check_expression (EFloat x) = Ok ()"
| "check_expression (EStr s) = Ok ()"
| "check_expression (EBool b) = Ok ()"
| "check_args [] = Ok ()"
| "check_args (arg # args) =
     (if (case arg of EStr text \<Rightarrow> 256 < chars_count text | _ \<Rightarrow> False) then Err ''string literal is too long''
      else res_bind (check_expression arg) (\<lambda>_. check_args args))"
| "check_list [] = Ok ()"
| "check_list (item # items) = res_bind (check_expression item) (\<lambda>_. check_list items)"
| "check_chain [] = Ok ()"
| "check_chain ((op, operand) # chain) = res_bind (check_expression operand) (\<lambda>_. check_chain chain)"

section \<open>Values\<close>

datatype calc_value = VInt i64 | VFloat f64 | VStr string | VBool bool | VList "calc_value list"

fun truthy :: "calc_value \<Rightarrow> bool" where
  "truthy (VInt n) = (n \<noteq> 0)"
| "truthy (VFloat x) = (\<not> f64_is_zero x)"
| "truthy (VStr s) = (s \<noteq> [])"
| "truthy (VBool b) = b"
| "truthy (VList vs) = (vs \<noteq> [])"

fun type_of :: "calc_value \<Rightarrow> string" where
  "type_of (VInt n) = ''int''"
| "type_of (VFloat x) = ''float''"
| "type_of (VStr s) = ''str''"
| "type_of (VBool b) = ''bool''"
| "type_of (VList vs) = ''list''"

fun to_f64 :: "calc_value \<Rightarrow> f64 option" where
  "to_f64 (VInt n) = Some (f64_of_int (sint n))"
| "to_f64 (VFloat x) = Some x"
| "to_f64 (VBool b) = Some (if b then FFin False 1 else FFin False 0)"
| "to_f64 _ = None"

fun to_i64 :: "calc_value \<Rightarrow> i64 option" where
  "to_i64 (VInt n) = Some n"
| "to_i64 (VFloat x) = Some (of_int (f64_to_int x))"
| "to_i64 (VBool b) = Some (if b then 1 else 0)"
| "to_i64 _ = None"

definition numeric_pair :: "calc_value \<Rightarrow> calc_value \<Rightarrow> (f64 \<times> f64) option" where
  "numeric_pair l r =
     (case to_f64 l of None \<Rightarrow> None | Some a \<Rightarrow> (case to_f64 r of None \<Rightarrow> None | Some b \<Rightarrow> Some (a, b)))"

section \<open>Binary operators\<close>

text \<open>The \<open>checked_*\<close> operations of \<open>i64\<close>, with the message of the overflow.\<close>

definition i64_checked :: "int \<Rightarrow> i64 option" where
  "i64_checked k = (if - (2 ^ 63) \<le> k \<and> k < 2 ^ 63 then Some (of_int k) else None)"

definition checked :: "string \<Rightarrow> int \<Rightarrow> calc_value res" where
  "checked what k =
     (case i64_checked k of Some w \<Rightarrow> Ok (VInt w) | None \<Rightarrow> Err (''OverflowError: integer '' @ what))"

definition unsupported :: "string \<Rightarrow> calc_value \<Rightarrow> calc_value \<Rightarrow> 'a res" where
  "unsupported op l r =
     Err (''TypeError: unsupported operand type(s) for '' @ op @ '': '' @ quoted (type_of l) @ '' and '' @ quoted (type_of r))"

definition bin_add :: "calc_value \<Rightarrow> calc_value \<Rightarrow> calc_value res" where
  "bin_add l r =
     (case (l, r) of
        (VStr a, VStr b) \<Rightarrow> Ok (VStr (a @ b))
      | (VList a, VList b) \<Rightarrow> Ok (VList (a @ b))
      | _ \<Rightarrow>
          (case numeric_pair l r of
             None \<Rightarrow> unsupported ''+'' l r
           | Some (a, b) \<Rightarrow>
               (case (l, r) of (VInt x, VInt y) \<Rightarrow> checked ''addition'' (sint x + sint y)
                | _ \<Rightarrow> Ok (VFloat (f64_add a b)))))"

definition bin_sub :: "calc_value \<Rightarrow> calc_value \<Rightarrow> calc_value res" where
  "bin_sub l r =
     (case numeric_pair l r of
        None \<Rightarrow> unsupported ''-'' l r
      | Some (a, b) \<Rightarrow>
          (case (l, r) of (VInt x, VInt y) \<Rightarrow> checked ''subtraction'' (sint x - sint y)
           | _ \<Rightarrow> Ok (VFloat (f64_sub a b))))"

text \<open>\<open>text.repeat(n)\<close> panics when the length is beyond what an allocation can have.\<close>

definition str_repeat :: "string \<Rightarrow> nat \<Rightarrow> string res" where
  "str_repeat s n = (if length s * n < 2 ^ 63 then Ok (concat (replicate n s)) else Panic)"

definition bin_mul :: "calc_value \<Rightarrow> calc_value \<Rightarrow> calc_value res" where
  "bin_mul l r =
     (case (l, r) of
        (VInt a, VInt b) \<Rightarrow> checked ''multiplication'' (sint a * sint b)
      | (VStr s, VInt count) \<Rightarrow> res_map VStr (str_repeat s (nat (max (sint count) 0)))
      | _ \<Rightarrow> (case numeric_pair l r of None \<Rightarrow> unsupported ''*'' l r
              | Some (a, b) \<Rightarrow> Ok (VFloat (f64_mul a b))))"

definition bin_div :: "calc_value \<Rightarrow> calc_value \<Rightarrow> calc_value res" where
  "bin_div l r =
     (case numeric_pair l r of
        None \<Rightarrow> Err ''TypeError: unsupported operand type(s) for /''
      | Some (a, b) \<Rightarrow> if f64_is_zero b then Err ''ZeroDivisionError: division by zero'' else Ok (VFloat (f64_div a b)))"

definition bin_floor_div :: "calc_value \<Rightarrow> calc_value \<Rightarrow> calc_value res" where
  "bin_floor_div l r =
     (case (l, r) of
        (VInt a, VInt b) \<Rightarrow>
          if b = 0 then Err ''ZeroDivisionError: integer division by zero''
          else if b = - 1
          then (case i64_checked (- sint a) of Some w \<Rightarrow> Ok (VInt w)
                | None \<Rightarrow> Err ''OverflowError: integer division overflow'')
          else let quotient = sint a sdiv sint b; remainder = sint a smod sint b;
                   quotient = (if remainder \<noteq> 0 \<and> (remainder < 0) \<noteq> (sint b < 0) then quotient - 1 else quotient)
               in Ok (VInt (of_int quotient))
      | _ \<Rightarrow>
          (case numeric_pair l r of
             None \<Rightarrow> Err ''TypeError: unsupported operand type(s) for //''
           | Some (a, b) \<Rightarrow> if f64_is_zero b then Err ''ZeroDivisionError: float floor division by zero''
                            else Ok (VFloat (f64_floor (f64_div a b)))))"

definition bin_mod :: "calc_value \<Rightarrow> calc_value \<Rightarrow> calc_value res" where
  "bin_mod l r =
     (case (l, r) of
        (VInt a, VInt b) \<Rightarrow>
          if b = 0 then Err ''ZeroDivisionError: integer modulo by zero''
          else if b = - 1 then Ok (VInt 0)
          else let remainder = sint a smod sint b;
                   remainder = (if remainder \<noteq> 0 \<and> (remainder < 0) \<noteq> (sint b < 0) then remainder + sint b else remainder)
               in Ok (VInt (of_int remainder))
      | _ \<Rightarrow>
          (case numeric_pair l r of
             None \<Rightarrow> Err ''TypeError: unsupported operand type(s) for %''
           | Some (a, b) \<Rightarrow> if f64_is_zero b then Err ''ZeroDivisionError: float modulo''
                            else Ok (VFloat (f64_sub a (f64_mul (f64_floor (f64_div a b)) b)))))"

definition bin_pow :: "calc_env \<Rightarrow> calc_value \<Rightarrow> calc_value \<Rightarrow> calc_value res" where
  "bin_pow env l r =
     (let float = (case numeric_pair l r of None \<Rightarrow> Err ''TypeError: unsupported operand type(s) for **''
                   | Some (a, b) \<Rightarrow> Ok (VFloat (ce_powf env a b)))
      in case (l, r) of
           (VInt base, VInt exponent) \<Rightarrow>
             if 0 \<le> sint exponent
             then (if 63 < sint exponent then Err ''OverflowError: integer exponent overflow''
                   else checked ''exponent overflow'' (sint base ^ nat (sint exponent)))
             else float
         | _ \<Rightarrow> float)"

definition eval_bin :: "calc_env \<Rightarrow> char \<Rightarrow> calc_value \<Rightarrow> calc_value \<Rightarrow> calc_value res" where
  "eval_bin env op l r =
     (if op = CHR ''+'' then bin_add l r
      else if op = CHR ''-'' then bin_sub l r
      else if op = CHR ''*'' then bin_mul l r
      else if op = CHR ''/'' then bin_div l r
      else if op = CHR ''F'' then bin_floor_div l r
      else if op = CHR ''%'' then bin_mod l r
      else if op = CHR ''^'' then bin_pow env l r
      else Err ''TypeError: unsupported binary operator'')"

section \<open>Comparison\<close>

text \<open>Strings compare byte by byte.\<close>

fun str_cmp :: "string \<Rightarrow> string \<Rightarrow> ordering" where
  "str_cmp [] [] = Equal"
| "str_cmp [] (b # bs) = Less"
| "str_cmp (a # as) [] = Greater"
| "str_cmp (a # as) (b # bs) =
     (if (of_char a :: nat) < of_char b then Less else if (of_char b :: nat) < of_char a then Greater
      else str_cmp as bs)"

definition ordering_holds :: "string \<Rightarrow> ordering \<Rightarrow> bool" where
  "ordering_holds op ord =
     (if op = ''=='' then ord = Equal
      else if op = ''!='' then ord \<noteq> Equal
      else if op = ''<'' then ord = Less
      else if op = ''<='' then ord \<noteq> Greater
      else if op = ''>'' then ord = Greater
      else if op = ''>='' then ord \<noteq> Less
      else False)"

definition compare_values :: "string \<Rightarrow> calc_value \<Rightarrow> calc_value \<Rightarrow> bool res" where
  "compare_values op l r =
     res_bind
       (case (l, r) of
          (VStr a, VStr b) \<Rightarrow> Ok (Some (str_cmp a b))
        | _ \<Rightarrow>
            (case numeric_pair l r of
               Some (a, b) \<Rightarrow> Ok (f64_cmp a b)
             | None \<Rightarrow> Err (''TypeError: '' @ quoted op @ '' not supported between instances of ''
                             @ quoted (type_of l) @ '' and '' @ quoted (type_of r))))
       (\<lambda>ordering. case ordering of
                      None \<Rightarrow> Err ''TypeError: comparison failed''
                    | Some ord \<Rightarrow> Ok (ordering_holds op ord))"

section \<open>Function calls\<close>

fun to_json :: "calc_value \<Rightarrow> jvalue" where
  "to_json (VInt n) = JsInt (sint n)"
| "to_json (VFloat x) = (if f64_is_finite x then JsFloat x else JsNull)"
| "to_json (VStr s) = JsStr s"
| "to_json (VBool b) = JsBool b"
| "to_json (VList items) = JsArr (map to_json items)"

text \<open>\<open>expect_args\<close>, then the only argument.\<close>

definition one_arg :: "string \<Rightarrow> calc_value list \<Rightarrow> calc_value res" where
  "one_arg name values =
     (case values of [v] \<Rightarrow> Ok v
      | _ \<Rightarrow> Err (''TypeError: '' @ name @ ''() takes exactly '' @ nat_to_str 1 @ '' argument(s) (''
                  @ nat_to_str (length values) @ '' given)''))"

definition call_abs :: "calc_value \<Rightarrow> calc_value res" where
  "call_abs v =
     (case v of
        VInt n \<Rightarrow> Ok (VInt (i64_abs n))
      | VFloat x \<Rightarrow> Ok (VFloat (f64_abs x))
      | VBool b \<Rightarrow> Ok (VInt (i64_abs (if b then 1 else 0)))
      | other \<Rightarrow> Err (''TypeError: bad operand type for abs(): '' @ quoted (type_of other)))"

definition call_round :: "calc_env \<Rightarrow> calc_value list \<Rightarrow> calc_value res" where
  "call_round env values =
     (if values = [] \<or> 2 < length values then Err ''TypeError: round() takes 1 or 2 arguments''
      else case to_f64 (values ! 0) of
             None \<Rightarrow> Err (''TypeError: type '' @ type_of (values ! 0) @ '' doesn'' @ [CHR 0x27] @ ''t define __round__ method'')
           | Some number \<Rightarrow>
               if length values = 1 then Ok (VInt (of_int (f64_to_int (f64_round_ties_even number))))
               else (case to_i64 (values ! 1) of
                       None \<Rightarrow> Err (''TypeError: '' @ quoted ''float'' @ '' object cannot be interpreted as an integer'')
                     | Some digits \<Rightarrow>
                         let factor = ce_powi env (FFin False 10) (signed_take_bit 31 (sint digits))
                         in Ok (VFloat (f64_div (f64_round_ties_even (f64_mul number factor)) factor))))"

text \<open>The loop of \<open>min\<close> and \<open>max\<close>: \<open>op\<close> is the comparison that replaces the best item.\<close>

fun best_of :: "string \<Rightarrow> calc_value list \<Rightarrow> calc_value \<Rightarrow> calc_value res" where
  "best_of op [] best = Ok best"
| "best_of op (item # items) best =
     res_bind (compare_values op item best) (\<lambda>better. best_of op items (if better then item else best))"

definition spread_args :: "calc_value list \<Rightarrow> calc_value list" where
  "spread_args values = (case values of [VList items] \<Rightarrow> items | [other] \<Rightarrow> [other] | _ \<Rightarrow> values)"

definition call_min_max :: "string \<Rightarrow> calc_value list \<Rightarrow> calc_value res" where
  "call_min_max name values =
     (if values = [] then Err (''TypeError: '' @ name @ '' expected at least 1 argument, got 0'')
      else case spread_args values of
             [] \<Rightarrow> Err (''TypeError: '' @ name @ ''() arg is an empty sequence'')
           | best # items \<Rightarrow> best_of (if name = ''min'' then ''<'' else ''>'') items best)"

definition call_sum :: "calc_value list \<Rightarrow> calc_value res" where
  "call_sum values =
     (if values = [] \<or> 2 < length values then Err ''TypeError: sum() takes 1 or 2 arguments''
      else
        let items = (case values ! 0 of VList items \<Rightarrow> items | other \<Rightarrow> [other]);
            start = (if length values < 2 then Ok (VInt 0)
                     else case values ! 1 of
                            VInt start \<Rightarrow> Ok (VInt start)
                          | VFloat start \<Rightarrow> Ok (VFloat start)
                          | other \<Rightarrow> Err (''TypeError: unsupported operand type(s) for +: '' @ quoted ''int'' @ '' and ''
                                          @ quoted (type_of other)))
        in res_bind start (res_fold (\<lambda>item acc. bin_add acc item) items))"

definition call_len :: "calc_value \<Rightarrow> calc_value res" where
  "call_len v =
     (case v of
        VStr text \<Rightarrow> Ok (VInt (of_nat (chars_count text)))
      | VList items \<Rightarrow> Ok (VInt (of_nat (length items)))
      | other \<Rightarrow> Err (''TypeError: object of type '' @ quoted (type_of other) @ '' has no len()''))"

definition call_int :: "calc_env \<Rightarrow> calc_value \<Rightarrow> calc_value res" where
  "call_int env v =
     (case v of
        VStr text \<Rightarrow>
          (case parse_i64 (trim text) of
             Some n \<Rightarrow> Ok (VInt (of_int n))
           | None \<Rightarrow> Err (''ValueError: invalid literal for int() with base 10: '' @ ce_debug env text))
      | other \<Rightarrow>
          (case to_i64 other of
             Some n \<Rightarrow> Ok (VInt n)
           | None \<Rightarrow> Err (''TypeError: int() argument must be a string or a number, not '' @ quoted (type_of other))))"

definition call_float :: "calc_env \<Rightarrow> calc_value \<Rightarrow> calc_value res" where
  "call_float env v =
     (case v of
        VStr text \<Rightarrow>
          (case parse_f64 (trim text) of
             Some x \<Rightarrow> Ok (VFloat x)
           | None \<Rightarrow> Err (''ValueError: could not convert string to float: '' @ ce_debug env text))
      | other \<Rightarrow>
          (case to_f64 other of
             Some x \<Rightarrow> Ok (VFloat x)
           | None \<Rightarrow> Err (''TypeError: float() argument must be a string or a number, not '' @ quoted (type_of other))))"

text \<open>\<open>sorted\<close>: insert each item before the first larger one of the result.\<close>

fun sorted_insert :: "calc_value \<Rightarrow> calc_value list \<Rightarrow> calc_value list res" where
  "sorted_insert item [] = Ok [item]"
| "sorted_insert item (r # result) =
     res_bind (compare_values ''<'' item r)
       (\<lambda>less. if less then Ok (item # r # result) else res_map ((#) r) (sorted_insert item result))"

definition call_sorted :: "calc_value \<Rightarrow> calc_value res" where
  "call_sorted v =
     res_map VList (res_fold sorted_insert (case v of VList items \<Rightarrow> items | other \<Rightarrow> [other]) [])"

fun date_args :: "calc_value list \<Rightarrow> string list res" where
  "date_args [] = Ok []"
| "date_args (v # values) =
     (case v of
        VStr text \<Rightarrow> res_map ((#) text) (date_args values)
      | other \<Rightarrow> Err (''TypeError: date_diff() takes ISO date strings, not '' @ type_of other))"

text \<open>\<open>map_err\<close>: the kind of the error in front of the message.\<close>

fun with_kind :: "string \<Rightarrow> 'a res \<Rightarrow> 'a res" where
  "with_kind kind (Ok v) = Ok v"
| "with_kind kind (Err err) = Err (kind @ '': '' @ err)"
| "with_kind kind Panic = Panic"

definition eval_call :: "calc_env \<Rightarrow> string \<Rightarrow> calc_value list \<Rightarrow> calc_value res" where
  "eval_call env name values =
     (if name = ''abs'' then res_bind (one_arg name values) call_abs
      else if name = ''round'' then call_round env values
      else if name = ''min'' \<or> name = ''max'' then call_min_max name values
      else if name = ''sum'' then call_sum values
      else if name = ''len'' then res_bind (one_arg name values) call_len
      else if name = ''int'' then res_bind (one_arg name values) (call_int env)
      else if name = ''float'' then res_bind (one_arg name values) (call_float env)
      else if name = ''sorted'' then res_bind (one_arg name values) call_sorted
      else if name = ''letters'' then res_map VInt (with_kind ''TypeError'' (letters env (map to_json values)))
      else if name = ''digit_sum'' then res_map VInt (with_kind ''TypeError'' (digit_sum env (map to_json values)))
      else if name = ''date_diff''
      then res_bind (date_args values) (\<lambda>dates. res_map VInt (with_kind ''ValueError'' (date_diff env dates)))
      else Err ''only the listed functions may be called'')"

section \<open>Evaluation\<close>

definition eval_unary :: "char \<Rightarrow> calc_value \<Rightarrow> calc_value res" where
  "eval_unary op v =
     (if op = CHR ''-'' then
        (case v of
           VInt n \<Rightarrow> checked ''negation'' (- sint n)
         | VFloat x \<Rightarrow> Ok (VFloat (f64_neg x))
         | other \<Rightarrow> Err (''TypeError: bad operand type for unary -: '' @ quoted (type_of other)))
      else if op = CHR ''+'' then
        (case v of
           VInt n \<Rightarrow> Ok v
         | VFloat x \<Rightarrow> Ok v
         | other \<Rightarrow> Err (''TypeError: bad operand type for unary +: '' @ quoted (type_of other)))
      else if op = CHR ''!'' then Ok (VBool (\<not> truthy v))
      else Err ''TypeError: unsupported unary operator'')"

text \<open>\<open>chain[0]\<close> of an empty chain panics; the parser builds none.\<close>

fun eval :: "calc_env \<Rightarrow> expr \<Rightarrow> calc_value res"
  and eval_list :: "calc_env \<Rightarrow> expr list \<Rightarrow> calc_value list res"
  and eval_chain :: "calc_env \<Rightarrow> calc_value \<Rightarrow> (string \<times> expr) list \<Rightarrow> calc_value res" where
  "eval env (EInt n) = Ok (VInt n)"
| "eval env (EFloat x) = Ok (VFloat x)"
| "eval env (EStr s) = Ok (VStr s)"
| "eval env (EBool b) = Ok (VBool b)"
| "eval env (EList items) = res_map VList (eval_list env items)"
| "eval env (EName name) = Err (''unknown name '' @ quoted name)"
| "eval env (EUnary op operand) = res_bind (eval env operand) (eval_unary op)"
| "eval env (EBin op l r) =
     (if op = CHR ''&''
      then res_bind (eval env l) (\<lambda>a. if \<not> truthy a then Ok (VBool False)
             else res_bind (eval env r) (\<lambda>b. Ok (VBool (truthy b))))
      else res_bind (eval env l) (\<lambda>a. res_bind (eval env r) (\<lambda>b. eval_bin env op a b)))"
| "eval env (EBoolOp is_and l r) =
     res_bind (eval env l) (\<lambda>a.
       if is_and then (if \<not> truthy a then Ok a else eval env r)
       else if truthy a then Ok a else eval env r)"
| "eval env (ECompare chain) =
     (case chain of [] \<Rightarrow> Panic | (op, first) # rest \<Rightarrow> res_bind (eval env first) (\<lambda>left. eval_chain env left rest))"
| "eval env (EIfElse body c orelse) =
     res_bind (eval env c) (\<lambda>b. if truthy b then eval env body else eval env orelse)"
| "eval env (ECall name args) = res_bind (eval_list env args) (eval_call env name)"
| "eval_list env [] = Ok []"
| "eval_list env (item # items) =
     res_bind (eval env item) (\<lambda>v. res_map ((#) v) (eval_list env items))"
| "eval_chain env left [] = Ok (VBool True)"
| "eval_chain env left ((op, right) # rest) =
     res_bind (eval env right) (\<lambda>right. res_bind (compare_values op left right) (\<lambda>holds.
       if \<not> holds then Ok (VBool False) else eval_chain env right rest))"

section \<open>Rendering\<close>

fun pop_zeros :: "string \<Rightarrow> string" where
  "pop_zeros s = (if s \<noteq> [] \<and> last s = CHR ''0'' then pop_zeros (butlast s) else s)"

declare pop_zeros.simps [simp del]

fun format_number :: "calc_value \<Rightarrow> string" where
  "format_number (VInt n) = int_to_str (sint n)"
| "format_number (VFloat x) =
     (if f64_is_zero (f64_fract x) \<and> f64_cmp (f64_abs x) (FFin False (10 ^ 15)) = Some Less
      then int_to_str (f64_to_int x)
      else let text = pop_zeros (format_6 x) in if ends_with text ''.'' then butlast text else text)"
| "format_number (VBool b) = (if b then ''true'' else ''false'')"
| "format_number (VStr s) = s"
| "format_number (VList vs) = ''list''"

end
