(* ===== verification/Calc_Parser.thy ===== *)
theory Calc_Parser
  imports Calc_Eval
begin

text \<open>
  The recursive-descent parser of \<^verbatim>\<open>src/harness/arithmetic.rs\<close>. Every function of the code is a
  definition over the parsers it calls; \<open>parse_nt\<close> ties the knot with fuel that bounds the depth of
  the recursion and the rounds of the loops. \<open>None\<close> means that the fuel ran out, which the last
  section shows never happens with \<open>parse_fuel\<close>.
\<close>

section \<open>The cursor\<close>

record cursor =
  ps_chars :: "string list"
  ps_position :: nat

definition parser_new :: "string \<Rightarrow> cursor" where
  "parser_new text = \<lparr>ps_chars = chars_of text, ps_position = 0\<rparr>"

definition peek_at :: "nat \<Rightarrow> cursor \<Rightarrow> string option" where
  "peek_at k st =
     (if ps_position st + k < length (ps_chars st) then Some (ps_chars st ! (ps_position st + k)) else None)"

abbreviation peek :: "cursor \<Rightarrow> string option" where
  "peek \<equiv> peek_at 0"

definition advance :: "nat \<Rightarrow> cursor \<Rightarrow> cursor" where
  "advance k st = st\<lparr>ps_position := ps_position st + k\<rparr>"

text \<open>The characters from the cursor on, which the scanning loops walk through.\<close>

definition upcoming :: "cursor \<Rightarrow> string list" where
  "upcoming st = drop (ps_position st) (ps_chars st)"

definition is_whitespace :: "string \<Rightarrow> bool" where
  "is_whitespace ch \<longleftrightarrow> ch \<in> set ws_encodings"

definition skip_ws :: "cursor \<Rightarrow> cursor" where
  "skip_ws st = advance (length (takeWhile is_whitespace (upcoming st))) st"

definition eat :: "string \<Rightarrow> cursor \<Rightarrow> bool \<times> cursor" where
  "eat text st =
     (let st = skip_ws st; chars = chars_of text
      in if ps_position st + length chars \<le> length (ps_chars st)
            \<and> take (length chars) (upcoming st) = chars
         then if text = ''*'' \<and> peek_at 1 st = Some ''*'' then (False, st)
              else if text = ''/'' \<and> peek_at 1 st = Some ''/'' then (False, st)
              else (True, advance (length chars) st)
         else (False, st))"

section \<open>Parsers\<close>

type_synonym 'a parse = "cursor \<Rightarrow> ('a \<times> cursor) res option"

definition p_return :: "'a \<Rightarrow> 'a parse" where
  "p_return a st = Some (Ok (a, st))"

definition p_fail :: "string \<Rightarrow> 'a parse" where
  "p_fail msg st = Some (Err msg)"

definition p_bind :: "'a parse \<Rightarrow> ('a \<Rightarrow> 'b parse) \<Rightarrow> 'b parse" where
  "p_bind p f st =
     (case p st of
        None \<Rightarrow> None
      | Some (Ok (a, st')) \<Rightarrow> f a st'
      | Some (Err err) \<Rightarrow> Some (Err err)
      | Some Panic \<Rightarrow> Some Panic)"

definition p_skip :: "unit parse" where
  "p_skip st = Some (Ok ((), skip_ws st))"

definition p_eat :: "string \<Rightarrow> bool parse" where
  "p_eat text st = Some (Ok (eat text st))"

definition p_peek :: "nat \<Rightarrow> string option parse" where
  "p_peek k st = Some (Ok (peek_at k st, st))"

text \<open>\<open>if self.peek() == Some(c) { self.position += 1; .. }\<close>.\<close>

definition p_accept :: "string \<Rightarrow> bool parse" where
  "p_accept c st = Some (Ok (if peek st = Some c then (True, advance 1 st) else (False, st)))"

definition p_expect :: "string \<Rightarrow> unit parse" where
  "p_expect c =
     p_bind p_skip (\<lambda>_. p_bind (p_accept c) (\<lambda>found.
       if found then p_return () else p_fail (''expected '' @ quoted c)))"

section \<open>Tokens\<close>

definition ascii_digit :: "string \<Rightarrow> bool" where
  "ascii_digit ch \<longleftrightarrow> to_digit ch \<noteq> None"

text \<open>A string literal after its quote: the text and how many characters were read, the closing
  quote included; \<open>None\<close> when the input ends first.\<close>

fun read_string :: "string \<Rightarrow> string list \<Rightarrow> (string \<times> nat) option" where
  "read_string quote [] = None"
| "read_string quote (ch # cs) =
     (if ch = quote then Some ([], 1)
      else if ch = [CHR 0x5C] then
        (case cs of
           [] \<Rightarrow> None
         | escaped # cs' \<Rightarrow> map_option (\<lambda>(text, n). (escaped @ text, n + 2)) (read_string quote cs'))
      else map_option (\<lambda>(text, n). (ch @ text, n + 1)) (read_string quote cs))"

text \<open>A number: its text, whether it has a point or an exponent, and how many characters it has.\<close>

fun scan_number :: "bool \<Rightarrow> bool \<Rightarrow> string list \<Rightarrow> string \<times> bool \<times> nat" where
  "scan_number has_dot has_exp [] = ([], has_dot \<or> has_exp, 0)"
| "scan_number has_dot has_exp (ch # cs) =
     (let more = (\<lambda>(text, is_float, n). (ch @ text, is_float, n + 1))
      in if ascii_digit ch then more (scan_number has_dot has_exp cs)
         else if ch = ''.'' \<and> \<not> has_dot \<and> \<not> has_exp then more (scan_number True has_exp cs)
         else if (ch = ''e'' \<or> ch = ''E'') \<and> \<not> has_exp then
           (case cs of
              sign # cs' \<Rightarrow>
                if sign = ''+'' \<or> sign = ''-''
                then (case scan_number has_dot True cs' of (text, is_float, n) \<Rightarrow> (ch @ sign @ text, is_float, n + 2))
                else more (scan_number has_dot True cs)
            | [] \<Rightarrow> more (scan_number has_dot True cs))
         else ([], has_dot \<or> has_exp, 0))"

definition parse_string_literal :: "string \<Rightarrow> expr parse" where
  "parse_string_literal quote st =
     (case read_string quote (upcoming (advance 1 st)) of
        None \<Rightarrow> Some (Err ''unterminated string literal'')
      | Some (text, n) \<Rightarrow> Some (Ok (EStr text, advance (1 + n) st)))"

definition parse_number :: "calc_env \<Rightarrow> expr parse" where
  "parse_number env st =
     (case scan_number False False (upcoming st) of
        (text, is_float, n) \<Rightarrow>
          let invalid = Some (Err (''invalid number '' @ ce_debug env text))
          in if is_float
             then (case parse_f64 text of Some x \<Rightarrow> Some (Ok (EFloat x, advance n st)) | None \<Rightarrow> invalid)
             else (case parse_i64 text of Some k \<Rightarrow> Some (Ok (EInt (of_int k), advance n st)) | None \<Rightarrow> invalid))"

definition read_name :: "calc_env \<Rightarrow> string parse" where
  "read_name env st =
     (let cs = takeWhile (\<lambda>c. ce_alphanumeric env c \<or> c = ''_'') (upcoming st)
      in Some (Ok (concat cs, advance (length cs) st)))"

section \<open>The grammar\<close>

definition parse_ternary :: "expr parse \<Rightarrow> expr parse \<Rightarrow> expr parse" where
  "parse_ternary p_or p_ternary =
     p_bind p_or (\<lambda>body. p_bind (p_eat ''if'') (\<lambda>is_if.
       if \<not> is_if then p_return body
       else p_bind p_or (\<lambda>condition. p_bind (p_eat ''else'') (\<lambda>is_else.
         if \<not> is_else then p_fail (''expected '' @ quoted ''else'')
         else p_bind p_ternary (\<lambda>orelse. p_return (EIfElse body condition orelse))))))"

text \<open>The loops of \<open>parse_or\<close> and \<open>parse_and\<close>, with what has been read so far.\<close>

definition parse_bool_rest :: "string \<Rightarrow> bool \<Rightarrow> expr parse \<Rightarrow> (expr \<Rightarrow> expr parse) \<Rightarrow> expr \<Rightarrow> expr parse" where
  "parse_bool_rest word is_and operand rest left =
     p_bind (p_eat word) (\<lambda>found.
       if \<not> found then p_return left
       else p_bind operand (\<lambda>right. rest (EBoolOp is_and left right)))"

definition parse_not :: "expr parse \<Rightarrow> expr parse \<Rightarrow> expr parse" where
  "parse_not p_not p_comparison =
     p_bind (p_eat ''not'') (\<lambda>found.
       if found then p_bind p_not (\<lambda>operand. p_return (EUnary (CHR ''!'') operand)) else p_comparison)"

definition comparison_op :: "string option parse" where
  "comparison_op =
     p_bind p_skip (\<lambda>_.
     p_bind (p_eat ''=='') (\<lambda>found. if found then p_return (Some ''=='') else
     p_bind (p_eat ''!='') (\<lambda>found. if found then p_return (Some ''!='') else
     p_bind (p_eat ''<='') (\<lambda>found. if found then p_return (Some ''<='') else
     p_bind (p_eat ''>='') (\<lambda>found. if found then p_return (Some ''>='') else
     p_bind (p_accept ''<'') (\<lambda>found. if found then p_return (Some ''<'') else
     p_bind (p_accept ''>'') (\<lambda>found. if found then p_return (Some ''>'') else
     p_return None)))))))"

definition parse_comparison_rest ::
  "expr parse \<Rightarrow> (expr \<Rightarrow> (string \<times> expr) list \<Rightarrow> expr parse) \<Rightarrow> expr \<Rightarrow> (string \<times> expr) list \<Rightarrow> expr parse" where
  "parse_comparison_rest p_additive rest first chain =
     p_bind comparison_op (\<lambda>op_opt.
       case op_opt of
         None \<Rightarrow> p_return (if chain = [] then first else ECompare (([], first) # chain))
       | Some op \<Rightarrow> p_bind p_additive (\<lambda>operand. rest first (chain @ [(op, operand)])))"

definition additive_op :: "char option parse" where
  "additive_op =
     p_bind p_skip (\<lambda>_.
     p_bind (p_accept ''+'') (\<lambda>found. if found then p_return (Some (CHR ''+'')) else
     p_bind (p_accept ''-'') (\<lambda>found. if found then p_return (Some (CHR ''-'')) else
     p_return None)))"

definition multiplicative_op :: "char option parse" where
  "multiplicative_op =
     p_bind p_skip (\<lambda>_.
     p_bind (p_eat ''//'') (\<lambda>found. if found then p_return (Some (CHR ''F'')) else
     p_bind (p_peek 0) (\<lambda>ch. p_bind (p_peek 1) (\<lambda>next.
       if ch = Some ''*'' \<and> next = Some ''*'' then p_return None else
     p_bind (p_accept ''*'') (\<lambda>found. if found then p_return (Some (CHR ''*'')) else
     p_bind (p_accept ''/'') (\<lambda>found. if found then p_return (Some (CHR ''/'')) else
     p_bind (p_accept ''%'') (\<lambda>found. if found then p_return (Some (CHR ''%'')) else
     p_return None)))))))"

text \<open>The loops of \<open>parse_additive\<close> and \<open>parse_multiplicative\<close>.\<close>

definition parse_bin_rest :: "char option parse \<Rightarrow> expr parse \<Rightarrow> (expr \<Rightarrow> expr parse) \<Rightarrow> expr \<Rightarrow> expr parse" where
  "parse_bin_rest op operand rest left =
     p_bind op (\<lambda>op_opt.
       case op_opt of
         None \<Rightarrow> p_return left
       | Some c \<Rightarrow> p_bind operand (\<lambda>right. rest (EBin c left right)))"

definition parse_unary :: "expr parse \<Rightarrow> expr parse \<Rightarrow> expr parse" where
  "parse_unary p_unary p_power =
     p_bind additive_op (\<lambda>op_opt.
       case op_opt of
         None \<Rightarrow> p_power
       | Some op \<Rightarrow> p_bind p_unary (\<lambda>operand. p_return (EUnary op operand)))"

definition parse_power :: "expr parse \<Rightarrow> expr parse \<Rightarrow> expr parse" where
  "parse_power p_unary p_atom =
     p_bind p_atom (\<lambda>base. p_bind p_skip (\<lambda>_. p_bind (p_eat ''**'') (\<lambda>found.
       if found then p_bind p_unary (\<lambda>exponent. p_return (EBin (CHR ''^'') base exponent))
       else p_return base)))"

text \<open>The loop over the elements of a list, a set or the arguments of a call, up to \<open>close\<close>.\<close>

definition parse_elements ::
  "expr parse \<Rightarrow> (string \<Rightarrow> expr list \<Rightarrow> expr list parse) \<Rightarrow> string \<Rightarrow> expr list \<Rightarrow> expr list parse" where
  "parse_elements p_ternary rest close items =
     p_bind p_skip (\<lambda>_. p_bind (p_peek 0) (\<lambda>ch.
       if ch = Some close then p_return items
       else p_bind p_ternary (\<lambda>item. p_bind p_skip (\<lambda>_. p_bind (p_accept '','') (\<lambda>comma.
         if comma then rest close (items @ [item]) else p_return (items @ [item]))))))"

text \<open>The loop over the elements of a tuple after the first.\<close>

definition parse_tuple :: "expr parse \<Rightarrow> (expr list \<Rightarrow> expr list parse) \<Rightarrow> expr list \<Rightarrow> expr list parse" where
  "parse_tuple p_ternary rest items =
     p_bind (p_eat '','') (\<lambda>comma.
       if \<not> comma then p_return items
       else p_bind p_skip (\<lambda>_. p_bind (p_peek 0) (\<lambda>ch.
         if ch = Some '')'' then p_return items
         else p_bind p_ternary (\<lambda>item. p_bind p_skip (\<lambda>_. rest (items @ [item]))))))"

definition parse_bracketed ::
  "(string \<Rightarrow> expr list \<Rightarrow> expr list parse) \<Rightarrow> string \<Rightarrow> (expr list \<Rightarrow> expr) \<Rightarrow> expr parse" where
  "parse_bracketed elements close build =
     p_bind (elements close []) (\<lambda>items. p_bind (p_expect close) (\<lambda>_. p_return (build items)))"

definition parse_group :: "expr parse \<Rightarrow> (expr list \<Rightarrow> expr list parse) \<Rightarrow> expr parse" where
  "parse_group p_ternary p_tuple =
     p_bind p_ternary (\<lambda>first. p_bind p_skip (\<lambda>_. p_bind (p_peek 0) (\<lambda>ch.
       if ch = Some '','' then p_bind (p_tuple [first]) (\<lambda>items. p_bind (p_expect '')'') (\<lambda>_. p_return (EList items)))
       else p_bind (p_expect '')'') (\<lambda>_. p_return first))))"

definition parse_name :: "calc_env \<Rightarrow> (string \<Rightarrow> expr list \<Rightarrow> expr list parse) \<Rightarrow> expr parse" where
  "parse_name env elements =
     p_bind (read_name env) (\<lambda>name.
       if name = ''True'' then p_return (EBool True)
       else if name = ''False'' then p_return (EBool False)
       else if name \<in> {''and'', ''or'', ''not'', ''if'', ''else''}
       then p_fail (''invalid syntax: unexpected keyword '' @ ce_debug env name)
       else p_bind p_skip (\<lambda>_. p_bind (p_accept ''('') (\<lambda>is_call.
         if is_call then parse_bracketed elements '')'' (ECall name) else p_return (EName name))))"

definition parse_atom ::
  "calc_env \<Rightarrow> expr parse \<Rightarrow> (string \<Rightarrow> expr list \<Rightarrow> expr list parse) \<Rightarrow> (expr list \<Rightarrow> expr list parse) \<Rightarrow> expr parse" where
  "parse_atom env p_ternary elements p_tuple =
     p_bind p_skip (\<lambda>_.
     p_bind (p_accept ''('') (\<lambda>found. if found then parse_group p_ternary p_tuple else
     p_bind (p_accept ''['') (\<lambda>found. if found then parse_bracketed elements '']'' EList else
     p_bind (p_accept ''{'') (\<lambda>found. if found then parse_bracketed elements ''}'' EList else
     p_bind (p_peek 0) (\<lambda>ch_opt. p_bind (p_peek 1) (\<lambda>next.
       case ch_opt of
         None \<Rightarrow> p_fail (''invalid syntax near '' @ ce_debug_char env None)
       | Some ch \<Rightarrow>
           if ch = [CHR 0x22] \<or> ch = [CHR 0x27] then parse_string_literal ch
           else if ascii_digit ch \<or> (ch = ''.'' \<and> (\<exists>d \<in> set_option next. ascii_digit d)) then parse_number env
           else if ce_alphabetic env ch \<or> ch = ''_'' then parse_name env elements
           else p_fail (''invalid syntax near '' @ ce_debug_char env (Some ch))))))))"

section \<open>The knot\<close>

text \<open>The functions of the parser, and the loops of the left-associative ones.\<close>

datatype nonterm =
  N_Ternary | N_Or | N_Or_Rest expr | N_And | N_And_Rest expr | N_Not
| N_Comparison | N_Comparison_Rest expr "(string \<times> expr) list"
| N_Additive | N_Additive_Rest expr | N_Multiplicative | N_Multiplicative_Rest expr
| N_Unary | N_Power | N_Atom

definition nt_body ::
  "calc_env \<Rightarrow> (nonterm \<Rightarrow> expr parse) \<Rightarrow> (string \<Rightarrow> expr list \<Rightarrow> expr list parse) \<Rightarrow>
   (expr list \<Rightarrow> expr list parse) \<Rightarrow> nonterm \<Rightarrow> expr parse" where
  "nt_body env self elements tuple nt =
     (case nt of
        N_Ternary \<Rightarrow> parse_ternary (self N_Or) (self N_Ternary)
      | N_Or \<Rightarrow> p_bind (self N_And) (\<lambda>left. self (N_Or_Rest left))
      | N_Or_Rest left \<Rightarrow> parse_bool_rest ''or'' False (self N_And) (\<lambda>left. self (N_Or_Rest left)) left
      | N_And \<Rightarrow> p_bind (self N_Not) (\<lambda>left. self (N_And_Rest left))
      | N_And_Rest left \<Rightarrow> parse_bool_rest ''and'' True (self N_Not) (\<lambda>left. self (N_And_Rest left)) left
      | N_Not \<Rightarrow> parse_not (self N_Not) (self N_Comparison)
      | N_Comparison \<Rightarrow> p_bind (self N_Additive) (\<lambda>first. self (N_Comparison_Rest first []))
      | N_Comparison_Rest first chain \<Rightarrow>
          parse_comparison_rest (self N_Additive) (\<lambda>first chain. self (N_Comparison_Rest first chain)) first chain
      | N_Additive \<Rightarrow> p_bind (self N_Multiplicative) (\<lambda>left. self (N_Additive_Rest left))
      | N_Additive_Rest left \<Rightarrow>
          parse_bin_rest additive_op (self N_Multiplicative) (\<lambda>left. self (N_Additive_Rest left)) left
      | N_Multiplicative \<Rightarrow> p_bind (self N_Unary) (\<lambda>left. self (N_Multiplicative_Rest left))
      | N_Multiplicative_Rest left \<Rightarrow>
          parse_bin_rest multiplicative_op (self N_Unary) (\<lambda>left. self (N_Multiplicative_Rest left)) left
      | N_Unary \<Rightarrow> parse_unary (self N_Unary) (self N_Power)
      | N_Power \<Rightarrow> parse_power (self N_Unary) (self N_Atom)
      | N_Atom \<Rightarrow> parse_atom env (self N_Ternary) elements tuple)"

fun parse_nt :: "calc_env \<Rightarrow> nat \<Rightarrow> nonterm \<Rightarrow> expr parse"
  and parse_seq :: "calc_env \<Rightarrow> nat \<Rightarrow> string \<Rightarrow> expr list \<Rightarrow> expr list parse"
  and parse_tup :: "calc_env \<Rightarrow> nat \<Rightarrow> expr list \<Rightarrow> expr list parse" where
  "parse_nt env 0 nt st = None"
| "parse_nt env (Suc n) nt st = nt_body env (parse_nt env n) (parse_seq env n) (parse_tup env n) nt st"
| "parse_seq env 0 close items st = None"
| "parse_seq env (Suc n) close items st = parse_elements (parse_nt env n N_Ternary) (parse_seq env n) close items st"
| "parse_tup env 0 items st = None"
| "parse_tup env (Suc n) items st = parse_tuple (parse_nt env n N_Ternary) (parse_tup env n) items st"

lemma parse_Suc:
  "parse_nt env (Suc n) nt = nt_body env (parse_nt env n) (parse_seq env n) (parse_tup env n) nt"
  "parse_seq env (Suc n) close items = parse_elements (parse_nt env n N_Ternary) (parse_seq env n) close items"
  "parse_tup env (Suc n) items = parse_tuple (parse_nt env n N_Ternary) (parse_tup env n) items"
  by (rule ext; simp)+

declare parse_nt.simps(2) [simp del] parse_seq.simps(2) [simp del] parse_tup.simps(2) [simp del]

text \<open>\<open>Parser::parse\<close>: nothing but white space may follow the expression.\<close>

definition parse_all :: "calc_env \<Rightarrow> nat \<Rightarrow> string \<Rightarrow> expr res option" where
  "parse_all env n text =
     (case parse_nt env n N_Ternary (parser_new text) of
        None \<Rightarrow> None
      | Some (Ok (expr, st)) \<Rightarrow>
          (let st = skip_ws st
           in Some (if ps_position st < length (ps_chars st)
                    then Err (''invalid syntax at position '' @ nat_to_str (ps_position st)) else Ok expr))
      | Some (Err err) \<Rightarrow> Some (Err err)
      | Some Panic \<Rightarrow> Some Panic)"

text \<open>Enough for the nesting of the grammar between any two characters.\<close>

definition parse_fuel :: "string \<Rightarrow> nat" where
  "parse_fuel text = 17 * length (chars_of text) + 17"

definition parse_expression :: "calc_env \<Rightarrow> string \<Rightarrow> expr res option" where
  "parse_expression env text = parse_all env (parse_fuel text) text"

section \<open>The fuel is enough\<close>

text \<open>What is left of the input.\<close>

definition remaining :: "cursor \<Rightarrow> nat" where
  "remaining st = length (ps_chars st) - ps_position st"

lemma remaining_advance [simp]: "remaining (advance k st) = remaining st - k"
  by (simp add: remaining_def advance_def)

lemma remaining_skip: "remaining (skip_ws st) \<le> remaining st"
  by (simp add: skip_ws_def)

lemma peek_remaining: "peek st = Some c \<Longrightarrow> 0 < remaining st"
  by (simp add: peek_at_def remaining_def split: if_splits)

lemma chars_of_ne: "w \<noteq> [] \<Longrightarrow> chars_of w \<noteq> []"
  by (cases w) simp_all

lemma eat_remaining:
  assumes "eat w st = (found, st')"
  shows "remaining st' \<le> remaining st" and "found \<Longrightarrow> w \<noteq> [] \<Longrightarrow> remaining st' < remaining st"
proof -
  let ?s = "skip_ws st"
  have skip: "remaining ?s \<le> remaining st" by (rule remaining_skip)
  have "st' = ?s \<and> \<not> found \<or> found \<and> st' = advance (length (chars_of w)) ?s
      \<and> ps_position ?s + length (chars_of w) \<le> length (ps_chars ?s)"
    using assms by (auto simp: eat_def Let_def split: if_splits)
  with skip show "remaining st' \<le> remaining st" "found \<Longrightarrow> w \<noteq> [] \<Longrightarrow> remaining st' < remaining st"
    using chars_of_ne [of w] by (auto simp: remaining_def advance_def length_greater_0_conv [symmetric] simp del: length_greater_0_conv)
qed

text \<open>
  A parser is fine at a cursor when it does not run out of fuel there, does not panic, and never
  moves back.
\<close>

definition p_fine :: "'a parse \<Rightarrow> cursor \<Rightarrow> bool" where
  "p_fine p st \<longleftrightarrow> p st \<noteq> None \<and> p st \<noteq> Some Panic
     \<and> (\<forall>a st'. p st = Some (Ok (a, st')) \<longrightarrow> remaining st' \<le> remaining st)"

named_theorems p_fine_rules \<open>the parsers that are fine, by the way they are built\<close>

lemma p_fine_bind [p_fine_rules]:
  assumes "p_fine p st" and "\<And>a st'. p st = Some (Ok (a, st')) \<Longrightarrow> remaining st' \<le> remaining st \<Longrightarrow> p_fine (f a) st'"
  shows "p_fine (p_bind p f) st"
proof (cases "\<exists>a st'. p st = Some (Ok (a, st'))")
  case True
  then obtain a st' where a: "p st = Some (Ok (a, st'))" by blast
  with assms(1) have le: "remaining st' \<le> remaining st" by (simp add: p_fine_def)
  from assms(2) [OF a le] le a show ?thesis by (auto simp: p_fine_def p_bind_def)
next
  case False
  with assms(1) obtain err where "p st = Some (Err err)"
    unfolding p_fine_def by (metis not_None_eq old.prod.exhaust res.exhaust)
  then show ?thesis by (simp add: p_fine_def p_bind_def)
qed

lemma p_fine_basic [p_fine_rules]:
  "p_fine (p_return a) st" "p_fine (p_fail msg) st" "p_fine p_skip st" "p_fine (p_eat w) st"
  "p_fine (p_peek k) st" "p_fine (p_accept c) st"
  using eat_remaining(1) [of w st] remaining_skip [of st]
  by (auto simp: p_fine_def p_return_def p_fail_def p_skip_def p_eat_def p_peek_def p_accept_def
      dest: sym split: if_splits)

lemma p_fine_if [p_fine_rules]:
  "(b \<Longrightarrow> p_fine p st) \<Longrightarrow> (\<not> b \<Longrightarrow> p_fine q st) \<Longrightarrow> p_fine (if b then p else q) st"
  by simp

lemma p_fine_option [p_fine_rules]:
  "(x = None \<Longrightarrow> p_fine p st) \<Longrightarrow> (\<And>a. x = Some a \<Longrightarrow> p_fine (q a) st)
   \<Longrightarrow> p_fine (case x of None \<Rightarrow> p | Some a \<Rightarrow> q a) st"
  by (cases x) simp_all

text \<open>What moves the cursor forward.\<close>

lemma eat_moves: "p_eat w st = Some (Ok (True, st')) \<Longrightarrow> w \<noteq> [] \<Longrightarrow> remaining st' < remaining st"
  using eat_remaining(2) [of w st True st'] by (simp add: p_eat_def)

lemma accept_moves: "p_accept c st = Some (Ok (True, st')) \<Longrightarrow> remaining st' < remaining st"
  using peek_remaining [of st c] by (auto simp: p_accept_def split: if_splits)

lemma skip_result: "p_skip st = Some (Ok (u, st')) \<Longrightarrow> remaining st' \<le> remaining st"
  using remaining_skip [of st] by (auto simp: p_skip_def)

lemma peek_result: "p_peek k st = Some (Ok (ch, st')) \<longleftrightarrow> st' = st \<and> ch = peek_at k st"
  by (auto simp: p_peek_def)

text \<open>An operator parser is fine everywhere, and has moved on when it has found one.\<close>

definition op_moves :: "'a option parse \<Rightarrow> bool" where
  "op_moves p \<longleftrightarrow>
     (\<forall>st. p_fine p st \<and> (\<forall>c st'. p st = Some (Ok (Some c, st')) \<longrightarrow> remaining st' < remaining st))"

lemma op_moves_return: "op_moves (p_return None)"
  by (simp add: op_moves_def p_fine_basic) (simp add: p_return_def)

lemma bind_SomeE:
  assumes "p_bind p f st = Some (Ok (b, st2))"
  obtains a st1 where "p st = Some (Ok (a, st1))" "f a st1 = Some (Ok (b, st2))"
  using assms by (auto simp: p_bind_def split: option.splits res.splits)

lemma op_moves_skip:
  assumes "op_moves p" shows "op_moves (p_bind p_skip (\<lambda>_. p))"
  unfolding op_moves_def
proof (intro allI conjI impI)
  show "p_fine (p_bind p_skip (\<lambda>_. p)) st" for st
    using assms by (intro p_fine_rules) (simp_all add: op_moves_def)
  fix st c st' assume "p_bind p_skip (\<lambda>_. p) st = Some (Ok (Some c, st'))"
  then show "remaining st' < remaining st"
    using assms by (elim bind_SomeE) (fastforce simp: op_moves_def dest: skip_result)
qed

lemma op_moves_alt:
  assumes q: "op_moves q" and acc: "\<And>st. p_fine p st"
    and moves: "\<And>st st'. p st = Some (Ok (True, st')) \<Longrightarrow> remaining st' < remaining st"
  shows "op_moves (p_bind p (\<lambda>found. if found then p_return (Some c) else q))"
  unfolding op_moves_def
proof (intro allI conjI impI)
  show "p_fine (p_bind p (\<lambda>found. if found then p_return (Some c) else q)) st" for st
    using q acc by (intro p_fine_rules) (simp_all add: op_moves_def)
  fix st d st' assume run: "p_bind p (\<lambda>found. if found then p_return (Some c) else q) st = Some (Ok (Some d, st'))"
  then obtain found st1 where p: "p st = Some (Ok (found, st1))"
    and f: "(if found then p_return (Some c) else q) st1 = Some (Ok (Some d, st'))" by (rule bind_SomeE)
  have "remaining st1 \<le> remaining st" using acc [of st] p by (simp add: p_fine_def)
  then show "remaining st' < remaining st"
    using p f moves [of st st1] q by (cases found) (fastforce simp: op_moves_def p_return_def)+
qed

lemma op_moves_eat:
  "op_moves q \<Longrightarrow> w \<noteq> [] \<Longrightarrow> op_moves (p_bind (p_eat w) (\<lambda>found. if found then p_return (Some c) else q))"
  by (rule op_moves_alt) (auto intro: p_fine_basic dest: eat_moves)

lemma op_moves_accept:
  "op_moves q \<Longrightarrow> op_moves (p_bind (p_accept d) (\<lambda>found. if found then p_return (Some c) else q))"
  by (rule op_moves_alt) (auto intro: p_fine_basic dest: accept_moves)

lemmas op_moves_rules = op_moves_skip op_moves_return op_moves_eat op_moves_accept

lemma op_moves_peek:
  assumes "\<And>a. op_moves (f a)"
  shows "op_moves (p_bind (p_peek k) f)"
  using assms by (auto simp: op_moves_def p_fine_def p_bind_def p_peek_def)

lemma op_moves_if: "op_moves p \<Longrightarrow> op_moves q \<Longrightarrow> op_moves (if b then p else q)"
  by simp

lemma additive_op_moves: "op_moves additive_op"
  unfolding additive_op_def by (intro op_moves_rules)

lemma comparison_op_moves: "op_moves comparison_op"
  unfolding comparison_op_def by (intro op_moves_rules list.distinct)

lemma multiplicative_op_moves: "op_moves multiplicative_op"
  unfolding multiplicative_op_def by (intro op_moves_rules op_moves_peek op_moves_if list.distinct)

lemma op_found: "op_moves p \<Longrightarrow> p st = Some (Ok (Some c, st')) \<Longrightarrow> remaining st' < remaining st"
  by (simp add: op_moves_def)

lemma op_fine: "op_moves p \<Longrightarrow> p_fine p st"
  by (simp add: op_moves_def)

text \<open>Each function of the parser, from what it calls: \<open>below st\<close> is every cursor that is not further back.\<close>

definition fine_from :: "'a parse \<Rightarrow> nat \<Rightarrow> bool" where
  "fine_from p k \<longleftrightarrow> (\<forall>st. remaining st \<le> k \<longrightarrow> p_fine p st)"

definition fine_after :: "'a parse \<Rightarrow> nat \<Rightarrow> bool" where
  "fine_after p k \<longleftrightarrow> (\<forall>st. remaining st < k \<longrightarrow> p_fine p st)"

lemma fine_fromD: "fine_from p k \<Longrightarrow> remaining st \<le> k \<Longrightarrow> p_fine p st"
  by (simp add: fine_from_def)

lemma fine_afterD: "fine_after p k \<Longrightarrow> remaining st < k \<Longrightarrow> p_fine p st"
  by (simp add: fine_after_def)

lemma ternary_fine:
  assumes "fine_from p_or (remaining st)" and "fine_after p_ternary (remaining st)"
  shows "p_fine (parse_ternary p_or p_ternary) st"
  unfolding parse_ternary_def
  by (intro p_fine_rules fine_fromD [OF assms(1)] fine_afterD [OF assms(2)]) (auto dest: eat_moves)

lemma bool_rest_fine:
  assumes "fine_after operand (remaining st)" and "\<And>left. fine_after (rest left) (remaining st)" and "word \<noteq> []"
  shows "p_fine (parse_bool_rest word is_and operand rest left) st"
  unfolding parse_bool_rest_def
  by (intro p_fine_rules fine_afterD [OF assms(1)] fine_afterD [OF assms(2)]) (auto dest: eat_moves [OF _ assms(3)])

lemma not_fine:
  assumes "fine_after p_not (remaining st)" and "fine_from p_comparison (remaining st)"
  shows "p_fine (parse_not p_not p_comparison) st"
  unfolding parse_not_def
  by (intro p_fine_rules fine_fromD [OF assms(2)] fine_afterD [OF assms(1)]) (auto dest: eat_moves)

lemma comparison_rest_fine:
  assumes "fine_after p_additive (remaining st)" and "\<And>first chain. fine_after (rest first chain) (remaining st)"
  shows "p_fine (parse_comparison_rest p_additive rest first chain) st"
  unfolding parse_comparison_rest_def
  by (intro p_fine_rules op_fine comparison_op_moves fine_afterD [OF assms(1)] fine_afterD [OF assms(2)])
     (auto dest: op_found [OF comparison_op_moves])

lemma bin_rest_fine:
  assumes "op_moves op" and "fine_after operand (remaining st)" and "\<And>left. fine_after (rest left) (remaining st)"
  shows "p_fine (parse_bin_rest op operand rest left) st"
  unfolding parse_bin_rest_def
  by (intro p_fine_rules op_fine assms(1) fine_afterD [OF assms(2)] fine_afterD [OF assms(3)])
     (auto dest: op_found [OF assms(1)])

lemma unary_fine:
  assumes "fine_after p_unary (remaining st)" and "fine_from p_power (remaining st)"
  shows "p_fine (parse_unary p_unary p_power) st"
  unfolding parse_unary_def
  by (intro p_fine_rules op_fine additive_op_moves fine_afterD [OF assms(1)] fine_fromD [OF assms(2)])
     (auto dest: op_found [OF additive_op_moves])

lemma power_fine:
  assumes "fine_after p_unary (remaining st)" and "fine_from p_atom (remaining st)"
  shows "p_fine (parse_power p_unary p_atom) st"
  unfolding parse_power_def
  by (intro p_fine_rules fine_afterD [OF assms(1)] fine_fromD [OF assms(2)]) (auto dest: eat_moves)

lemma elements_fine:
  assumes "fine_from p_ternary (remaining st)" and "\<And>items. fine_after (rest close items) (remaining st)"
  shows "p_fine (parse_elements p_ternary rest close items) st"
  unfolding parse_elements_def
  by (intro p_fine_rules fine_fromD [OF assms(1)] fine_afterD [OF assms(2)]) (auto dest: accept_moves)

lemma tuple_fine:
  assumes "fine_after p_ternary (remaining st)" and "\<And>items. fine_after (rest items) (remaining st)"
  shows "p_fine (parse_tuple p_ternary rest items) st"
  unfolding parse_tuple_def
  by (intro p_fine_rules fine_afterD [OF assms(1)] fine_afterD [OF assms(2)]) (auto dest: eat_moves)

text \<open>The scanners of the tokens.\<close>

lemma string_literal_fine [p_fine_rules]: "p_fine (parse_string_literal quote) st"
  by (auto simp: p_fine_def parse_string_literal_def split: option.splits)

lemma number_fine [p_fine_rules]: "p_fine (parse_number env) st"
  by (auto simp: p_fine_def parse_number_def Let_def split: option.splits prod.splits if_splits)

lemma read_name_fine [p_fine_rules]: "p_fine (read_name env) st"
  by (auto simp: p_fine_def read_name_def Let_def)

lemma expect_fine [p_fine_rules]: "p_fine (p_expect c) st"
  unfolding p_expect_def by (intro p_fine_rules)

lemma bracketed_fine:
  assumes "fine_from (elements close []) (remaining st)"
  shows "p_fine (parse_bracketed elements close build) st"
  unfolding parse_bracketed_def by (intro p_fine_rules fine_fromD [OF assms]) simp

lemma group_fine:
  assumes "fine_from p_ternary (remaining st)" and "\<And>items. fine_from (p_tuple items) (remaining st)"
  shows "p_fine (parse_group p_ternary p_tuple) st"
  unfolding parse_group_def
  by (intro p_fine_rules fine_fromD [OF assms(1)] fine_fromD [OF assms(2)]) auto

lemma fine_from_le: "fine_from p k \<Longrightarrow> j \<le> k \<Longrightarrow> fine_from p j"
  by (simp add: fine_from_def)

lemma fine_after_from: "fine_after p k \<Longrightarrow> j < k \<Longrightarrow> fine_from p j"
  by (simp add: fine_from_def fine_after_def)

text \<open>A call moves past its name's opening parenthesis before it reads the arguments.\<close>

lemma name_fine:
  assumes "\<And>items. fine_after (elements '')'' items) (remaining st)"
  shows "p_fine (parse_name env elements) st"
  unfolding parse_name_def
  by (intro p_fine_rules bracketed_fine fine_after_from [OF assms]) (auto dest: accept_moves)

lemma atom_fine:
  assumes "fine_after p_ternary (remaining st)" and "\<And>close items. fine_after (elements close items) (remaining st)"
    and "\<And>items. fine_after (p_tuple items) (remaining st)"
  shows "p_fine (parse_atom env p_ternary elements p_tuple) st"
proof -
  have name: "p_fine (parse_name env elements) st'" if "remaining st' \<le> remaining st" for st'
    using assms(2) that by (intro name_fine) (auto simp: fine_after_def)
  show ?thesis
    unfolding parse_atom_def
    by (intro p_fine_rules group_fine bracketed_fine fine_after_from [OF assms(1)] fine_after_from [OF assms(2)]
          fine_after_from [OF assms(3)] name)
       (auto dest: accept_moves simp: peek_result)
qed

section \<open>Enough fuel\<close>

fun nt_rank :: "nonterm \<Rightarrow> nat" where
  "nt_rank N_Atom = 0"
| "nt_rank N_Power = 1"
| "nt_rank N_Unary = 2"
| "nt_rank (N_Multiplicative_Rest left) = 3"
| "nt_rank N_Multiplicative = 4"
| "nt_rank (N_Additive_Rest left) = 5"
| "nt_rank N_Additive = 6"
| "nt_rank (N_Comparison_Rest first chain) = 7"
| "nt_rank N_Comparison = 8"
| "nt_rank N_Not = 9"
| "nt_rank (N_And_Rest left) = 10"
| "nt_rank N_And = 11"
| "nt_rank (N_Or_Rest left) = 12"
| "nt_rank N_Or = 13"
| "nt_rank N_Ternary = 14"

lemma nt_rank_le: "nt_rank nt \<le> 14"
  by (cases nt) simp_all

lemma parse_fine:
  "17 * remaining st + nt_rank nt < n \<Longrightarrow> p_fine (parse_nt env n nt) st"
  "17 * remaining st + 16 < n \<Longrightarrow> p_fine (parse_seq env n close items) st"
  "17 * remaining st + 15 < n \<Longrightarrow> p_fine (parse_tup env n items) st"
proof (induction n arbitrary: st nt close items)
  case (Suc n)
  have from_nt: "fine_from (parse_nt env n q) (remaining s)"
    if "17 * remaining s + nt_rank q < n" for q s
    using Suc(1) that unfolding fine_from_def by (smt (verit) add_le_mono1 le_less_trans mult_le_mono2)
  have after_nt: "fine_after (parse_nt env n q) (remaining s)" if "17 * remaining s \<le> n" for q s
    unfolding fine_after_def
  proof (intro allI impI)
    fix s' assume "remaining s' < remaining s"
    with that nt_rank_le [of q] have "17 * remaining s' + nt_rank q < n" by linarith
    then show "p_fine (parse_nt env n q) s'" by (rule Suc(1))
  qed
  have after_seq: "fine_after (parse_seq env n c xs) (remaining s)" if "17 * remaining s \<le> n" for c xs s
    unfolding fine_after_def using that by (intro allI impI Suc(2)) linarith
  have after_tup: "fine_after (parse_tup env n xs) (remaining s)" if "17 * remaining s \<le> n" for xs s
    unfolding fine_after_def using that by (intro allI impI Suc(3)) linarith
  {
    case 1
    then have le: "17 * remaining st \<le> n" by linarith
    note rules = after_nt [OF le] after_seq [OF le] after_tup [OF le] from_nt
    have seq: "p_fine (p_bind (parse_nt env n q) (\<lambda>left. parse_nt env n (r left))) st"
      if "17 * remaining st + nt_rank q < n" and "\<And>left. 17 * remaining st + nt_rank (r left) < n" for q r
      by (intro p_fine_rules fine_fromD [OF from_nt [OF that(1)]] fine_fromD [OF from_nt [OF that(2)]]) simp_all
    from 1 show ?case
      by (cases nt)
         (simp_all add: parse_Suc nt_body_def seq ternary_fine bool_rest_fine not_fine comparison_rest_fine bin_rest_fine
            unary_fine power_fine atom_fine rules additive_op_moves multiplicative_op_moves)
  next
    case 2
    then show ?case by (auto simp: parse_Suc intro!: elements_fine from_nt after_seq)
  next
    case 3
    then show ?case by (auto simp: parse_Suc intro!: tuple_fine after_nt after_tup)
  }
qed (simp_all add: p_fine_def)

lemma parse_expression_total: "\<exists>r. parse_expression env w = Some r \<and> r \<noteq> Panic"
proof -
  have "17 * remaining (parser_new w) + nt_rank N_Ternary < parse_fuel w"
    by (simp add: remaining_def parser_new_def parse_fuel_def)
  then have "p_fine (parse_nt env (parse_fuel w) N_Ternary) (parser_new w)" by (rule parse_fine(1))
  then show ?thesis
    by (auto simp: parse_expression_def parse_all_def p_fine_def Let_def split: option.splits res.splits)
qed

section \<open>More fuel changes nothing\<close>

definition p_le :: "'a parse \<Rightarrow> 'a parse \<Rightarrow> bool" where
  "p_le p q \<longleftrightarrow> (\<forall>st r. p st = Some r \<longrightarrow> q st = Some r)"

named_theorems p_le_rules \<open>the ways to build parsers are monotone\<close>

lemma p_le_refl [p_le_rules]: "p_le p p"
  by (simp add: p_le_def)

lemma p_le_bind [p_le_rules]: "p_le p q \<Longrightarrow> (\<And>a. p_le (f a) (g a)) \<Longrightarrow> p_le (p_bind p f) (p_bind q g)"
  by (auto simp: p_le_def p_bind_def split: option.splits res.splits)

lemma p_le_if [p_le_rules]: "p_le p p' \<Longrightarrow> p_le q q' \<Longrightarrow> p_le (if b then p else q) (if b then p' else q')"
  by simp

lemma p_le_option [p_le_rules]:
  "p_le p p' \<Longrightarrow> (\<And>a. p_le (q a) (q' a)) \<Longrightarrow> p_le (case x of None \<Rightarrow> p | Some a \<Rightarrow> q a) (case x of None \<Rightarrow> p' | Some a \<Rightarrow> q' a)"
  by (cases x) simp_all

lemmas parser_bodies =
  parse_ternary_def parse_bool_rest_def parse_not_def parse_comparison_rest_def parse_bin_rest_def
  parse_unary_def parse_power_def parse_elements_def parse_tuple_def parse_bracketed_def parse_group_def
  parse_name_def parse_atom_def

lemma nt_body_mono:
  assumes "\<And>q. p_le (self q) (self' q)" and "\<And>close items. p_le (elements close items) (elements' close items)"
    and "\<And>items. p_le (tuple items) (tuple' items)"
  shows "p_le (nt_body env self elements tuple nt) (nt_body env self' elements' tuple' nt)"
  unfolding nt_body_def parser_bodies by (cases nt; simp only: nonterm.case; intro p_le_rules assms)

lemma elements_mono:
  assumes "p_le p p'" and "\<And>close items. p_le (rest close items) (rest' close items)"
  shows "p_le (parse_elements p rest close items) (parse_elements p' rest' close items)"
  unfolding parse_elements_def by (intro p_le_rules assms)

lemma tuple_mono:
  assumes "p_le p p'" and "\<And>items. p_le (rest items) (rest' items)"
  shows "p_le (parse_tuple p rest items) (parse_tuple p' rest' items)"
  unfolding parse_tuple_def by (intro p_le_rules assms)

lemma parse_mono_Suc:
  "p_le (parse_nt env n nt) (parse_nt env (Suc n) nt)"
  "p_le (parse_seq env n close items) (parse_seq env (Suc n) close items)"
  "p_le (parse_tup env n items) (parse_tup env (Suc n) items)"
proof (induction n arbitrary: nt close items)
  case (Suc n)
  {
    case 1
    show ?case by (simp only: parse_Suc) (intro nt_body_mono Suc)
  next
    case 2
    show ?case
      by (simp only: parse_Suc(2)) (intro elements_mono Suc)
  next
    case 3
    show ?case
      by (simp only: parse_Suc(3)) (intro tuple_mono Suc)
  }
qed (simp_all add: p_le_def)

lemma parse_mono: "m \<le> n \<Longrightarrow> p_le (parse_nt env m nt) (parse_nt env n nt)"
proof (induction n)
  case (Suc n)
  then show ?case
    using parse_mono_Suc(1) [of env n nt] by (cases "m = Suc n") (auto simp: p_le_def)
qed (simp add: p_le_def)

lemma parse_all_enough:
  assumes "parse_fuel w \<le> n"
  shows "parse_all env n w = parse_expression env w"
proof -
  obtain r where "parse_nt env (parse_fuel w) N_Ternary (parser_new w) = Some r"
    using parse_expression_total [of env w]
    by (auto simp: parse_expression_def parse_all_def split: option.splits)
  moreover from this have "parse_nt env n N_Ternary (parser_new w) = Some r"
    using parse_mono [OF assms, of env N_Ternary] by (simp add: p_le_def)
  ultimately show ?thesis by (simp add: parse_expression_def parse_all_def)
qed

section \<open>What the parser builds\<close>

text \<open>A comparison has operands.\<close>

fun wf_expr :: "expr \<Rightarrow> bool" where
  "wf_expr (EList items) = list_all wf_expr items"
| "wf_expr (ECall name args) = list_all wf_expr args"
| "wf_expr (EUnary op e) = wf_expr e"
| "wf_expr (EBin op l r) = (wf_expr l \<and> wf_expr r)"
| "wf_expr (ECompare chain) = (chain \<noteq> [] \<and> list_all (\<lambda>(op, e). wf_expr e) chain)"
| "wf_expr (EBoolOp a l r) = (wf_expr l \<and> wf_expr r)"
| "wf_expr (EIfElse b c e) = (wf_expr b \<and> wf_expr c \<and> wf_expr e)"
| "wf_expr _ = True"

definition p_gives :: "('a \<Rightarrow> bool) \<Rightarrow> 'a parse \<Rightarrow> bool" where
  "p_gives Q p \<longleftrightarrow> (\<forall>st a st'. p st = Some (Ok (a, st')) \<longrightarrow> Q a)"

named_theorems p_gives_rules \<open>what a parser gives, by the way it is built\<close>

lemma p_gives_bind:
  "p_gives Q p \<Longrightarrow> (\<And>a. Q a \<Longrightarrow> p_gives R (f a)) \<Longrightarrow> p_gives R (p_bind p f)"
  by (auto simp: p_gives_def p_bind_def split: option.splits res.splits) blast

lemma p_gives_bind_any: "(\<And>a. p_gives R (f a)) \<Longrightarrow> p_gives R (p_bind p f)"
  by (rule p_gives_bind [of "\<lambda>_. True"]) (simp_all add: p_gives_def)

text \<open>Expressions are well formed on the way; of the tokens nothing has to be known.\<close>

lemmas p_gives_binds [p_gives_rules] =
  p_gives_bind [of wf_expr] p_gives_bind [of "list_all wf_expr"]
  p_gives_bind_any [where 'a = bool] p_gives_bind_any [where 'a = unit] p_gives_bind_any [where 'a = string]
  p_gives_bind_any [where 'a = "string option"] p_gives_bind_any [where 'a = "char option"]

lemma p_gives_if [p_gives_rules]: "p_gives R p \<Longrightarrow> p_gives R q \<Longrightarrow> p_gives R (if b then p else q)"
  by simp

lemma p_gives_option [p_gives_rules]:
  "p_gives R p \<Longrightarrow> (\<And>a. p_gives R (q a)) \<Longrightarrow> p_gives R (case x of None \<Rightarrow> p | Some a \<Rightarrow> q a)"
  by (cases x) simp_all

lemma p_gives_fail [p_gives_rules]: "p_gives R (p_fail msg)"
  by (simp add: p_gives_def p_fail_def)

lemma p_gives_return [p_gives_rules]: "R a \<Longrightarrow> p_gives R (p_return a)"
  by (simp add: p_gives_def p_return_def)

lemma p_gives_tokens [p_gives_rules]:
  "p_gives wf_expr (parse_string_literal quote)" "p_gives wf_expr (parse_number env)"
  by (auto simp: p_gives_def parse_string_literal_def parse_number_def Let_def
      split: option.splits prod.splits if_splits)

text \<open>What the loops have read so far is well formed.\<close>

fun nt_wf :: "nonterm \<Rightarrow> bool" where
  "nt_wf (N_Or_Rest left) = wf_expr left"
| "nt_wf (N_And_Rest left) = wf_expr left"
| "nt_wf (N_Comparison_Rest first chain) = (wf_expr first \<and> list_all (\<lambda>(op, e). wf_expr e) chain)"
| "nt_wf (N_Additive_Rest left) = wf_expr left"
| "nt_wf (N_Multiplicative_Rest left) = wf_expr left"
| "nt_wf _ = True"

lemma nt_body_gives:
  assumes "\<And>q. nt_wf q \<Longrightarrow> p_gives wf_expr (self q)"
    and "\<And>close items. list_all wf_expr items \<Longrightarrow> p_gives (list_all wf_expr) (elements close items)"
    and "\<And>items. list_all wf_expr items \<Longrightarrow> p_gives (list_all wf_expr) (tuple items)"
    and "nt_wf nt"
  shows "p_gives wf_expr (nt_body env self elements tuple nt)"
  using assms(4) unfolding nt_body_def parser_bodies
  by (cases nt; simp only: nonterm.case; intro p_gives_rules assms(1-3)) (simp_all add: list_all_iff)

lemma parse_gives:
  "nt_wf nt \<Longrightarrow> p_gives wf_expr (parse_nt env n nt)"
  "list_all wf_expr items \<Longrightarrow> p_gives (list_all wf_expr) (parse_seq env n close items)"
  "list_all wf_expr items \<Longrightarrow> p_gives (list_all wf_expr) (parse_tup env n items)"
proof (induction n arbitrary: nt close items)
  case (Suc n)
  {
    case 1
    then show ?case by (simp only: parse_Suc) (intro nt_body_gives Suc(1-3))
  next
    case 2
    then show ?case
      unfolding parse_Suc parse_elements_def by (intro p_gives_rules Suc(1-3)) simp_all
  next
    case 3
    then show ?case
      unfolding parse_Suc parse_tuple_def by (intro p_gives_rules Suc(1-3)) simp_all
  }
qed (simp_all add: p_gives_def)

lemma parse_expression_wf: "parse_expression env w = Some (Ok e) \<Longrightarrow> wf_expr e"
  using parse_gives(1) [of N_Ternary env "parse_fuel w"]
  by (auto simp: parse_expression_def parse_all_def p_gives_def Let_def split: option.splits res.splits if_splits) blast

end
