(* ===== verification/Calc_Arith.thy ===== *)
theory Calc_Arith
  imports Calc_Eval "HOL-Library.Multiset"
begin

text \<open>
  What the operators of the calculator compute: integers exactly or not at all, comparison as a
  total preorder on what can be compared, \<open>sorted\<close> as a sorted rearrangement.
\<close>

section \<open>Integers\<close>

lemma sint_of_int_i64: "- (2 ^ 63) \<le> k \<Longrightarrow> k < 2 ^ 63 \<Longrightarrow> sint (of_int k :: i64) = k"
  by (simp add: signed_of_int) (rule signed_take_bit_int_eq_self; simp)

lemma sint_i64_range: "- (2 ^ 63) \<le> sint (n :: i64) \<and> sint n < 2 ^ 63"
  using sint_ge [of n] sint_lt [of n] by simp

definition i64_range :: "int \<Rightarrow> bool" where
  "i64_range k \<longleftrightarrow> - (2 ^ 63) \<le> k \<and> k < 2 ^ 63"

lemma checked_Ok: "checked what k = Ok v \<longleftrightarrow> i64_range k \<and> v = VInt (of_int k)"
  by (auto simp: checked_def i64_checked_def i64_range_def)

lemma sint_checked: "i64_range k \<Longrightarrow> sint (of_int k :: i64) = k"
  by (simp add: i64_range_def sint_of_int_i64)

text \<open>The adjusted truncating division is the floor division.\<close>

lemma smod_zero_iff: "b \<noteq> 0 \<Longrightarrow> a smod b = 0 \<longleftrightarrow> b dvd a" for a b :: int
  by (auto simp: smod_int_alt_def mod_eq_0_iff_dvd sgn_0_0)

lemma smod_negative_iff: "b \<noteq> 0 \<Longrightarrow> a smod b \<noteq> 0 \<Longrightarrow> a smod b < 0 \<longleftrightarrow> a < 0" for a b :: int
  by (auto simp: smod_int_alt_def sgn_if split: if_splits) (smt (verit) pos_mod_sign)+

lemma floor_div_eq:
  fixes a b :: int
  assumes "b \<noteq> 0"
  shows "(if a smod b \<noteq> 0 \<and> (a smod b < 0) \<noteq> (b < 0) then a sdiv b - 1 else a sdiv b) = a div b"
proof (cases "b dvd a")
  case True
  with assms show ?thesis by (simp add: smod_zero_iff divide_int_eq_signed_divide_int)
next
  case False
  then have "a \<noteq> 0" "a smod b \<noteq> 0" using assms by (auto simp: smod_zero_iff)
  moreover from this have "(a smod b < 0) \<noteq> (b < 0) \<longleftrightarrow> sgn a \<noteq> sgn b"
    using assms smod_negative_iff [OF assms, of a] by (auto simp: sgn_if)
  ultimately show ?thesis using assms False by (simp add: divide_int_eq_signed_divide_int)
qed

lemma floor_mod_eq:
  fixes a b :: int
  assumes "b \<noteq> 0"
  shows "(if a smod b \<noteq> 0 \<and> (a smod b < 0) \<noteq> (b < 0) then a smod b + b else a smod b) = a mod b"
proof (cases "b dvd a")
  case True
  with assms show ?thesis by (simp add: smod_zero_iff modulo_int_eq_signed_modulo_int)
next
  case False
  then have "a \<noteq> 0" "a smod b \<noteq> 0" using assms by (auto simp: smod_zero_iff)
  moreover from this have "(a smod b < 0) \<noteq> (b < 0) \<longleftrightarrow> sgn a \<noteq> sgn b"
    using assms smod_negative_iff [OF assms, of a] by (auto simp: sgn_if)
  ultimately show ?thesis using assms False by (simp add: modulo_int_eq_signed_modulo_int)
qed

lemma div_in_range:
  assumes "i64_range a" and "b \<noteq> 0" and "b \<noteq> - 1"
  shows "i64_range (a div b)"
proof (cases "b = 1")
  case False
  with assms have "2 \<le> \<bar>b\<bar>" by linarith
  have "\<bar>a div b\<bar> \<le> \<bar>a\<bar> div 2 + 1"
  proof -
    have "\<bar>b\<bar> * \<bar>a div b\<bar> = \<bar>a - a mod b\<bar>" by (simp add: minus_mod_eq_mult_div abs_mult)
    also have "\<dots> \<le> \<bar>a\<bar> + \<bar>b\<bar>" using abs_mod_less [OF assms(2), of a] by linarith
    finally have "\<bar>b\<bar> * (\<bar>a div b\<bar> - 1) \<le> \<bar>a\<bar>" by (simp add: algebra_simps)
    moreover have "2 * (\<bar>a div b\<bar> - 1) \<le> \<bar>b\<bar> * (\<bar>a div b\<bar> - 1)" if "1 \<le> \<bar>a div b\<bar>"
      using \<open>2 \<le> \<bar>b\<bar>\<close> that by (intro mult_right_mono) simp_all
    moreover have "2 * (x - 1) \<le> y" if "\<not> 1 \<le> x" "0 \<le> y" for x y :: int using that by simp
    ultimately have "2 * (\<bar>a div b\<bar> - 1) \<le> \<bar>a\<bar>" by (metis abs_ge_zero order_trans)
    moreover have "2 * (x - 1) \<le> y \<Longrightarrow> x \<le> y div 2 + 1" for x y :: int by presburger
    ultimately show ?thesis by blast
  qed
  with assms(1) show ?thesis by (simp add: i64_range_def) linarith
qed (use assms in simp)

lemma mod_in_range:
  assumes "i64_range b" and "b \<noteq> 0"
  shows "i64_range (a mod b)"
proof (cases "0 < b")
  case True
  with assms(1) pos_mod_bound [OF True, of a] pos_mod_sign [OF True, of a] show ?thesis
    unfolding i64_range_def by linarith
next
  case False
  with assms(2) have "b < 0" by linarith
  with assms(1) neg_mod_bound [OF this, of a] neg_mod_sign [OF this, of a] show ?thesis
    unfolding i64_range_def by linarith
qed

section \<open>Integer expressions\<close>

text \<open>
  The expressions over integers: literals, signs, the exact operators, and powers with a literal
  exponent that is not negative. Their value is the mathematical one; division rounds down.
\<close>

fun int_expr :: "expr \<Rightarrow> bool" where
  "int_expr (EInt n) = True"
| "int_expr (EUnary op e) = ((op = CHR ''-'' \<or> op = CHR ''+'') \<and> int_expr e)"
| "int_expr (EBin op l r) =
     (int_expr l \<and> int_expr r
      \<and> (op \<in> {CHR ''+'', CHR ''-'', CHR ''*'', CHR ''F'', CHR ''%''}
         \<or> op = CHR ''^'' \<and> (case r of EInt n \<Rightarrow> 0 \<le> sint n | _ \<Rightarrow> False)))"
| "int_expr _ = False"

fun int_value :: "expr \<Rightarrow> int" where
  "int_value (EInt n) = sint n"
| "int_value (EUnary op e) = (if op = CHR ''-'' then - int_value e else int_value e)"
| "int_value (EBin op l r) =
     (if op = CHR ''+'' then int_value l + int_value r
      else if op = CHR ''-'' then int_value l - int_value r
      else if op = CHR ''*'' then int_value l * int_value r
      else if op = CHR ''F'' then int_value l div int_value r
      else if op = CHR ''%'' then int_value l mod int_value r
      else int_value l ^ nat (int_value r))"
| "int_value _ = 0"

text \<open>Every intermediate result fits, no divisor is zero, no exponent is above 63.\<close>

fun int_defined :: "expr \<Rightarrow> bool" where
  "int_defined (EInt n) = True"
| "int_defined (EUnary op e) = (int_defined e \<and> i64_range (int_value (EUnary op e)))"
| "int_defined (EBin op l r) =
     (int_defined l \<and> int_defined r \<and> i64_range (int_value (EBin op l r))
      \<and> (op = CHR ''F'' \<or> op = CHR ''%'' \<longrightarrow> int_value r \<noteq> 0)
      \<and> (op = CHR ''^'' \<longrightarrow> int_value r \<le> 63))"
| "int_defined _ = False"

lemma sint_minus_one: "sint n = - 1 \<longleftrightarrow> n = - 1" for n :: i64
  using signed_word_eqI [of n "- 1"] by (auto simp: signed_minus_1)

lemma sint_zero: "sint n = 0 \<longleftrightarrow> n = 0" for n :: i64
  using signed_word_eqI [of n 0] by auto

lemma floor_div_ints:
  "bin_floor_div (VInt a) (VInt b) = Ok v
   \<longleftrightarrow> sint b \<noteq> 0 \<and> i64_range (sint a div sint b) \<and> v = VInt (of_int (sint a div sint b))"
proof -
  consider "sint b = 0" | "sint b = - 1" | "sint b \<noteq> 0" "sint b \<noteq> - 1" by blast
  then show ?thesis
  proof cases
    case 3
    then have "b \<noteq> 0" "b \<noteq> - 1" by auto
    moreover have "i64_range (sint a div sint b)"
      using 3 sint_i64_range [of a] by (intro div_in_range) (auto simp: i64_range_def)
    ultimately show ?thesis
      using 3 floor_div_eq [OF 3(1), of "sint a"] by (auto simp: bin_floor_div_def Let_def)
  qed (auto simp: bin_floor_div_def i64_checked_def i64_range_def sint_zero sint_minus_one)
qed

lemma mod_ints:
  "bin_mod (VInt a) (VInt b) = Ok v \<longleftrightarrow> sint b \<noteq> 0 \<and> v = VInt (of_int (sint a mod sint b))"
proof -
  consider "sint b = 0" | "sint b = - 1" | "sint b \<noteq> 0" "sint b \<noteq> - 1" by blast
  then show ?thesis
  proof cases
    case 3
    then have "b \<noteq> 0" "b \<noteq> - 1" by auto
    then show ?thesis
      using 3 floor_mod_eq [OF 3(1), of "sint a"] by (auto simp: bin_mod_def Let_def)
  qed (auto simp: bin_mod_def sint_zero sint_minus_one)
qed

lemma bin_ints:
  "bin_add (VInt a) (VInt b) = checked ''addition'' (sint a + sint b)"
  "bin_sub (VInt a) (VInt b) = checked ''subtraction'' (sint a - sint b)"
  "bin_mul (VInt a) (VInt b) = checked ''multiplication'' (sint a * sint b)"
  by (simp_all add: bin_add_def bin_sub_def bin_mul_def numeric_pair_def)

lemma pow_ints:
  "0 \<le> sint b \<Longrightarrow> bin_pow env (VInt a) (VInt b) = Ok v
     \<longleftrightarrow> sint b \<le> 63 \<and> i64_range (sint a ^ nat (sint b)) \<and> v = VInt (of_int (sint a ^ nat (sint b)))"
  by (auto simp: bin_pow_def checked_Ok)

text \<open>An integer expression evaluates exactly when it is defined, to its value.\<close>

lemma int_defined_range: "int_defined e \<Longrightarrow> i64_range (int_value e)"
  using sint_i64_range by (cases e) (auto simp: i64_range_def simp del: int_value.simps(2,3))

lemma int_eval: "int_expr e \<Longrightarrow> eval env e = Ok v \<longleftrightarrow> int_defined e \<and> v = VInt (of_int (int_value e))"
proof (induction e arbitrary: v)
  case (EUnary op e)
  have IH: "eval env e = Ok a \<longleftrightarrow> int_defined e \<and> a = VInt (of_int (int_value e))" for a
    using EUnary by simp
  have s: "int_defined e \<Longrightarrow> sint (of_int (int_value e) :: i64) = int_value e"
    by (rule sint_checked) (rule int_defined_range)
  show ?case
    using EUnary.prems int_defined_range [of e] s by (auto simp: res_bind_Ok_iff IH eval_unary_def checked_Ok)
next
  case (EBin op l r)
  have int: "int_expr l" "int_expr r" using EBin.prems by simp_all
  have IHl: "eval env l = Ok a \<longleftrightarrow> int_defined l \<and> a = VInt (of_int (int_value l))" for a
    using EBin.IH(1) int by simp
  have IHr: "eval env r = Ok a \<longleftrightarrow> int_defined r \<and> a = VInt (of_int (int_value r))" for a
    using EBin.IH(2) int by simp
  let ?a = "of_int (int_value l) :: i64" and ?b = "of_int (int_value r) :: i64"
  have s: "int_defined l \<Longrightarrow> sint ?a = int_value l" "int_defined r \<Longrightarrow> sint ?b = int_value r"
    by (rule sint_checked, erule int_defined_range)+
  have ops: "op \<in> {CHR ''+'', CHR ''-'', CHR ''*'', CHR ''F'', CHR ''%''} \<or> op = CHR ''^'' \<and> 0 \<le> int_value r"
  proof -
    have "(case r of EInt n \<Rightarrow> 0 \<le> sint n | _ \<Rightarrow> False) \<Longrightarrow> 0 \<le> int_value r" by (cases r) simp_all
    with EBin.prems show ?thesis unfolding int_expr.simps by blast
  qed
  have run: "eval env (EBin op l r) = Ok v
      \<longleftrightarrow> int_defined l \<and> int_defined r \<and> eval_bin env op (VInt ?a) (VInt ?b) = Ok v"
    using ops by (auto simp: res_bind_Ok_iff IHl IHr)
  have step: "eval_bin env op (VInt ?a) (VInt ?b) = Ok v \<longleftrightarrow>
      (op = CHR ''F'' \<or> op = CHR ''%'' \<longrightarrow> int_value r \<noteq> 0) \<and> (op = CHR ''^'' \<longrightarrow> int_value r \<le> 63)
      \<and> i64_range (int_value (EBin op l r)) \<and> v = VInt (of_int (int_value (EBin op l r)))"
    if d: "int_defined l" "int_defined r"
  proof -
    note range = mod_in_range [OF int_defined_range [OF d(2)], of "int_value l"]
    note facts = eval_bin_def bin_ints checked_Ok floor_div_ints mod_ints pow_ints s(1) [OF d(1)] s(2) [OF d(2)]
    from ops consider "op = CHR ''+''" | "op = CHR ''-''" | "op = CHR ''*''" | "op = CHR ''F''" | "op = CHR ''%''"
      | "op = CHR ''^''" "0 \<le> int_value r" by auto
    then show ?thesis
    proof cases
      case 5
      with range show ?thesis by (simp add: facts) blast
    next
      case 6
      show ?thesis using pow_ints [of ?b env ?a v] 6(2) s(1) [OF d(1)] s(2) [OF d(2)]
        by (simp add: 6(1) eval_bin_def)
    qed (simp_all add: facts conj_ac)
  qed
  show ?case unfolding run int_defined.simps(3) using step by blast
qed auto

section \<open>Comparison is a total preorder\<close>

fun flip :: "ordering \<Rightarrow> ordering" where
  "flip Less = Greater"
| "flip Equal = Equal"
| "flip Greater = Less"

lemma str_cmp_flip: "str_cmp b a = flip (str_cmp a b)"
  by (induction a b rule: str_cmp.induct) auto

lemma str_cmp_trans: "str_cmp a b \<noteq> Greater \<Longrightarrow> str_cmp b c \<noteq> Greater \<Longrightarrow> str_cmp a c \<noteq> Greater"
proof (induction a b arbitrary: c rule: str_cmp.induct)
  case (2 b bs)
  then show ?case by (cases c) auto
next
  case (4 a as b bs)
  show ?case
  proof (cases c)
    case (Cons d ds)
    let ?n = "of_char :: char \<Rightarrow> nat"
    have le: "?n a \<le> ?n b" "?n b \<le> ?n d" using 4(2,3) Cons by (auto simp: not_less split: if_splits)
    show ?thesis
    proof (cases "?n a < ?n d")
      case False
      with le have eq: "?n a = ?n b" "?n b = ?n d" by linarith+
      with 4(2,3) Cons have "str_cmp as bs \<noteq> Greater" "str_cmp bs ds \<noteq> Greater" by simp_all
      with 4(1) eq have "str_cmp as ds \<noteq> Greater" by simp
      with eq Cons show ?thesis by simp
    qed (simp add: Cons)
  qed (use 4(3) in simp)
qed simp_all

text \<open>A double that is a number, as a point of the extended line.\<close>

fun f64_point :: "f64 \<Rightarrow> int \<times> rat" where
  "f64_point (FInf s) = (if s then - 1 else 1, 0)"
| "f64_point x = (0, fval x)"

definition point_le :: "int \<times> rat \<Rightarrow> int \<times> rat \<Rightarrow> bool" where
  "point_le p q \<longleftrightarrow> fst p < fst q \<or> fst p = fst q \<and> snd p \<le> snd q"

lemma f64_cmp_None: "f64_cmp x y = None \<longleftrightarrow> x = FNaN \<or> y = FNaN"
  by (cases x; cases y) simp_all

lemma f64_cmp_flip: "f64_cmp x y = Some ord \<Longrightarrow> f64_cmp y x = Some (flip ord)"
  by (cases x; cases y) (auto simp: rat_cmp_def)

lemma rat_cmp_le: "rat_cmp a b = Greater \<longleftrightarrow> b < a"
  by (auto simp: rat_cmp_def)

lemma f64_cmp_point: "f64_cmp x y = Some ord \<Longrightarrow> ord \<noteq> Greater \<longleftrightarrow> point_le (f64_point x) (f64_point y)"
  by (cases x; cases y) (auto simp: rat_cmp_le point_le_def not_less simp del: fval.simps split: if_splits)

lemma f64_cmp_trans:
  assumes "f64_cmp x y = Some o1" and "o1 \<noteq> Greater" and "f64_cmp y z = Some o2" and "o2 \<noteq> Greater"
  shows "\<exists>o3. f64_cmp x z = Some o3 \<and> o3 \<noteq> Greater"
proof -
  obtain o3 where o3: "f64_cmp x z = Some o3"
    using assms(1,3) f64_cmp_None [of x y] f64_cmp_None [of y z] f64_cmp_None [of x z] by (cases "f64_cmp x z") auto
  have "point_le (f64_point x) (f64_point z)"
    using f64_cmp_point [OF assms(1)] f64_cmp_point [OF assms(3)] assms(2,4) by (auto simp: point_le_def)
  with f64_cmp_point [OF o3] o3 show ?thesis by blast
qed

text \<open>The comparison behind \<open>compare_values\<close>.\<close>

definition value_cmp :: "calc_value \<Rightarrow> calc_value \<Rightarrow> ordering option" where
  "value_cmp l r =
     (case (l, r) of
        (VStr a, VStr b) \<Rightarrow> Some (str_cmp a b)
      | _ \<Rightarrow> (case numeric_pair l r of Some (a, b) \<Rightarrow> f64_cmp a b | None \<Rightarrow> None))"

lemma compare_values_Ok: "compare_values op l r = Ok b \<longleftrightarrow> (\<exists>ord. value_cmp l r = Some ord \<and> b = ordering_holds op ord)"
  by (cases l; cases r)
     (auto simp: compare_values_def value_cmp_def numeric_pair_def split: option.splits)

lemma value_cmp_kinds:
  assumes "value_cmp l r = Some ord"
  obtains (Strings) a b where "l = VStr a" "r = VStr b" | (Numbers) x y where "to_f64 l = Some x" "to_f64 r = Some y"
  using assms by (cases l; cases r) (auto simp: value_cmp_def numeric_pair_def)

lemma value_cmp_strs [simp]: "value_cmp (VStr a) (VStr b) = Some (str_cmp a b)"
  by (simp add: value_cmp_def)

lemma value_cmp_f64: "to_f64 l = Some x \<Longrightarrow> to_f64 r = Some y \<Longrightarrow> value_cmp l r = f64_cmp x y"
  by (cases l; cases r) (auto simp: value_cmp_def numeric_pair_def)

lemma value_cmp_flip:
  assumes "value_cmp l r = Some ord" shows "value_cmp r l = Some (flip ord)"
  using assms
proof (cases rule: value_cmp_kinds)
  case (Strings a b)
  with assms show ?thesis using str_cmp_flip [of b a] by simp
next
  case (Numbers x y)
  with assms show ?thesis using value_cmp_f64 [of l x r y] value_cmp_f64 [of r y l x] f64_cmp_flip [of x y ord] by simp
qed

definition value_le :: "calc_value \<Rightarrow> calc_value \<Rightarrow> bool" where
  "value_le l r \<longleftrightarrow> compare_values ''<='' l r = Ok True"

lemma value_le_iff: "value_le l r \<longleftrightarrow> (\<exists>ord. value_cmp l r = Some ord \<and> ord \<noteq> Greater)"
  by (auto simp: value_le_def compare_values_Ok ordering_holds_def)

lemma value_le_trans:
  assumes "value_le a b" and "value_le b c" shows "value_le a c"
proof -
  obtain o1 o2 where o: "value_cmp a b = Some o1" "o1 \<noteq> Greater" "value_cmp b c = Some o2" "o2 \<noteq> Greater"
    using assms by (auto simp: value_le_iff)
  from o(1) show ?thesis
  proof (cases rule: value_cmp_kinds)
    case (Strings s t)
    from o(3) obtain u where u: "c = VStr u"
      by (cases rule: value_cmp_kinds) (use Strings in auto)
    with o Strings have "str_cmp s t \<noteq> Greater" "str_cmp t u \<noteq> Greater" by auto
    from str_cmp_trans [OF this] u Strings show ?thesis by (simp add: value_le_iff)
  next
    case (Numbers x y)
    from o(3) obtain z where z: "to_f64 c = Some z"
      by (cases rule: value_cmp_kinds) (use Numbers in auto)
    with o Numbers have "f64_cmp x y = Some o1" "f64_cmp y z = Some o2"
      using value_cmp_f64 [of a x b y] value_cmp_f64 [of b y c z] by simp_all
    with f64_cmp_trans [of x y o1 z o2] o(2,4) value_cmp_f64 [of a x c z] Numbers z show ?thesis
      by (simp add: value_le_iff)
  qed
qed

lemma compare_less_cases:
  assumes "compare_values ''<'' a b = Ok lt"
  shows "if lt then value_le a b else value_le b a"
proof -
  obtain ord where ord: "value_cmp a b = Some ord" "lt \<longleftrightarrow> ord = Less"
    using assms by (auto simp: compare_values_Ok ordering_holds_def)
  from value_cmp_flip [OF ord(1)] ord show ?thesis
    by (cases ord) (auto simp: value_le_iff)
qed

section \<open>Sorting\<close>

lemma sorted_insert_mset: "sorted_insert item result = Ok out \<Longrightarrow> mset out = add_mset item (mset result)"
  by (induction result arbitrary: out) (auto simp: res_bind_Ok_iff res_map_Ok_iff split: if_splits)

lemma sorted_fold_mset: "res_fold sorted_insert items result = Ok out \<Longrightarrow> mset out = mset items + mset result"
  by (induction items arbitrary: result) (auto simp: res_bind_Ok_iff dest: sorted_insert_mset)

lemma sorted_insert_sorted:
  "sorted_insert item result = Ok out \<Longrightarrow> sorted_wrt value_le result \<Longrightarrow> sorted_wrt value_le out"
proof (induction result arbitrary: out)
  case (Cons r rs)
  obtain lt where lt: "compare_values ''<'' item r = Ok lt"
    and out: "(if lt then Ok (item # r # rs) else res_map ((#) r) (sorted_insert item rs)) = Ok out"
    using Cons.prems(1) by (auto simp: res_bind_Ok_iff)
  show ?case
  proof (cases lt)
    case True
    with compare_less_cases [OF lt] have "value_le item r" by simp
    with True out Cons.prems(2) show ?thesis using value_le_trans [of item r] by auto
  next
    case False
    with compare_less_cases [OF lt] have le: "value_le r item" by simp
    from False out obtain out' where out': "sorted_insert item rs = Ok out'" "out = r # out'"
      by (auto simp: res_map_Ok_iff)
    then have "sorted_wrt value_le out'" using Cons by simp
    moreover have "set out' = insert item (set rs)"
      using sorted_insert_mset [OF out'(1)] by (metis set_mset_add_mset_insert set_mset_mset)
    ultimately show ?thesis using out'(2) le Cons.prems(2) by auto
  qed
qed simp

lemma sorted_fold_sorted:
  "res_fold sorted_insert items result = Ok out \<Longrightarrow> sorted_wrt value_le result \<Longrightarrow> sorted_wrt value_le out"
  by (induction items arbitrary: result) (auto simp: res_bind_Ok_iff dest: sorted_insert_sorted)

end
