(* ===== verification/Calc_Spec.thy ===== *)
theory Calc_Spec
  imports Calc_Parser Calc_Arith
begin

text \<open>
  \<open>compute\<close> and \<open>render_facts\<close> of \<^verbatim>\<open>src/harness/arithmetic.rs\<close>, and what makes the calculator correct:
  the whitelist check is sound for the evaluator, integers are computed exactly, a result is
  rendered, and the parser always returns.
\<close>

section \<open>Computing\<close>

definition COMPUTE_MAX_CHARS :: nat where
  "COMPUTE_MAX_CHARS = 400"

definition finish_compute :: "calc_value \<Rightarrow> string \<times> string" where
  "finish_compute v =
     (case v of
        VBool b \<Rightarrow> ([], ''result is bool, not a number'')
      | VStr s \<Rightarrow> ([], ''result is str, not a number'')
      | VList vs \<Rightarrow> ([], ''result is list, not a number'')
      | VFloat x \<Rightarrow> if \<not> f64_is_finite x then ([], ''result is not a finite number'') else (format_number v, [])
      | VInt n \<Rightarrow> (format_number v, []))"

text \<open>The rendered value and the error. Running out of fuel would be a stack overflow.\<close>

definition compute :: "calc_env \<Rightarrow> string \<Rightarrow> (string \<times> string) res" where
  "compute env expression =
     (let expression = trim expression
      in if expression = [] then Ok ([], ''empty expression'')
         else if COMPUTE_MAX_CHARS < chars_count expression
         then Ok ([], ''expression is longer than '' @ nat_to_str COMPUTE_MAX_CHARS @ '' characters'')
         else case parse_expression env expression of
                None \<Rightarrow> Panic
              | Some Panic \<Rightarrow> Panic
              | Some (Err err) \<Rightarrow> Ok ([], ''does not parse ('' @ err @ '')'')
              | Some (Ok expr) \<Rightarrow>
                  (case check_expression expr of
                     Panic \<Rightarrow> Panic
                   | Err problem \<Rightarrow> Ok ([], problem)
                   | Ok u \<Rightarrow>
                       (case eval env expr of
                          Panic \<Rightarrow> Panic
                        | Err err \<Rightarrow> Ok ([], ''failed to evaluate ('' @ err @ '')'')
                        | Ok v \<Rightarrow> Ok (finish_compute v))))"

definition render_facts :: "string list \<Rightarrow> string" where
  "render_facts facts =
     join_with [CHR 0x0A] (map (\<lambda>(i, fact). ''['' @ nat_to_str i @ ''] '' @ fact) (enumerate 0 facts))"

section \<open>The check is sound\<close>

fun is_number :: "calc_value \<Rightarrow> bool" where
  "is_number (VInt n) = True"
| "is_number (VFloat x) = True"
| "is_number (VBool b) = True"
| "is_number _ = False"

lemma is_number_to_f64: "is_number v \<longleftrightarrow> to_f64 v \<noteq> None"
  by (cases v) simp_all

lemma numeric_pair_Some: "numeric_pair l r \<noteq> None \<longleftrightarrow> is_number l \<and> is_number r"
  by (simp add: numeric_pair_def is_number_to_f64 split: option.splits)

lemma checked_number: "checked what k = Ok v \<Longrightarrow> is_number v"
  by (auto simp: checked_def split: option.splits)

text \<open>All operators but addition and multiplication give numbers, or fail.\<close>

lemma bin_number:
  "bin_sub l r = Ok v \<Longrightarrow> is_number v" "bin_div l r = Ok v \<Longrightarrow> is_number v"
  "bin_floor_div l r = Ok v \<Longrightarrow> is_number v" "bin_mod l r = Ok v \<Longrightarrow> is_number v"
  "bin_pow env l r = Ok v \<Longrightarrow> is_number v"
  by (auto simp: bin_sub_def bin_div_def bin_floor_div_def bin_mod_def bin_pow_def unsupported_def Let_def
      checked_number split: calc_value.splits option.splits if_splits)

lemma bin_add_number: "is_number a \<Longrightarrow> bin_add a b = Ok v \<Longrightarrow> is_number v"
  by (cases a; cases b) (auto simp: bin_add_def numeric_pair_def unsupported_def checked_number split: option.splits)

lemma bin_mul_number: "is_number a \<Longrightarrow> bin_mul a b = Ok v \<Longrightarrow> is_number v"
  by (cases a; cases b) (auto simp: bin_mul_def numeric_pair_def unsupported_def checked_number split: option.splits)

lemma eval_bin_number:
  assumes "is_number l" and "eval_bin env op l r = Ok v"
  shows "is_number v"
  using assms(2) bin_add_number [OF assms(1)] bin_mul_number [OF assms(1)]
  by (auto simp: eval_bin_def split: if_splits dest: bin_number)

lemma eval_unary_number: "is_number w \<Longrightarrow> eval_unary op w = Ok v \<Longrightarrow> is_number v"
  by (cases w) (auto simp: eval_unary_def checked_number split: if_splits)

lemma sum_fold_number: "res_fold (\<lambda>item acc. bin_add acc item) items a = Ok v \<Longrightarrow> is_number a \<Longrightarrow> is_number v"
  by (induction items arbitrary: a) (auto simp: res_bind_Ok_iff dest: bin_add_number)

lemma call_sum_number: "call_sum values = Ok v \<Longrightarrow> is_number v"
  by (auto simp: call_sum_def Let_def res_bind_Ok_iff split: if_splits calc_value.splits elim!: sum_fold_number bin_add_number [rotated])

lemma best_of_in: "best_of op items best = Ok v \<Longrightarrow> v \<in> insert best (set items)"
  by (induction items arbitrary: best) (auto simp: res_bind_Ok_iff split: if_splits)

text \<open>A comparison that does not fail is one of two strings or of two numbers.\<close>

lemma compare_values_kinds:
  "compare_values op l r = Ok b \<Longrightarrow> is_number l \<and> is_number r \<or> (\<exists>s t. l = VStr s \<and> r = VStr t)"
  using numeric_pair_Some [of l r]
  by (cases l; cases r) (auto simp: compare_values_def numeric_pair_def split: option.splits)

lemma best_of_number: "best_of op items best = Ok v \<Longrightarrow> is_number best \<Longrightarrow> is_number v"
  by (induction items arbitrary: best)
     (auto simp: res_bind_Ok_iff dest: compare_values_kinds split: if_splits)

lemma best_of_not_str:
  assumes "best_of op (item # items) best = Ok v" and "\<And>s. best \<noteq> VStr s"
  shows "is_number v"
proof -
  obtain better where c: "compare_values op item best = Ok better"
    and rest: "best_of op items (if better then item else best) = Ok v"
    using assms(1) by (auto simp: res_bind_Ok_iff)
  with assms(2) have "is_number item \<and> is_number best" by (auto dest: compare_values_kinds)
  with best_of_number [OF rest] show ?thesis by simp
qed

text \<open>What a numeric expression or a list of them evaluates to.\<close>

definition numeric_shape :: "calc_value \<Rightarrow> bool" where
  "numeric_shape v \<longleftrightarrow> is_number v \<or> (\<exists>vs. v = VList vs \<and> list_all is_number vs)"

lemma numeric_shape_not_str: "numeric_shape v \<Longrightarrow> v \<noteq> VStr s"
  by (auto simp: numeric_shape_def)

lemma spread_args_two [simp]: "spread_args (u # w # us) = u # w # us"
  by (cases u) (simp_all add: spread_args_def)

lemma call_min_max_number:
  assumes "call_min_max name values = Ok v" and shape: "list_all numeric_shape values"
  shows "is_number v"
proof -
  obtain best items where s: "spread_args values = best # items"
    and run: "best_of (if name = ''min'' then ''<'' else ''>'') items best = Ok v"
    using assms(1) by (auto simp: call_min_max_def split: if_splits list.splits)
  show ?thesis
  proof (cases "is_number best")
    case True
    with best_of_number [OF run] show ?thesis by simp
  next
    case False
    have "\<exists>u w us. values = u # w # us"
    proof (rule ccontr)
      assume "\<nexists>u w us. values = u # w # us"
      then obtain u where "values = [] \<or> values = [u]" by (cases "values" rule: remdups_adj.cases) auto
      with s shape False show False by (auto simp: spread_args_def numeric_shape_def split: calc_value.splits)
    qed
    with s shape obtain item rest where "items = item # rest" "numeric_shape best"
      by auto
    with run show ?thesis by (auto intro: best_of_not_str dest: numeric_shape_not_str)
  qed
qed

lemma one_arg_Ok [simp]: "one_arg name values = Ok v \<longleftrightarrow> values = [v]"
  by (auto simp: one_arg_def split: list.splits)

lemma calls_number:
  "call_abs u = Ok v \<Longrightarrow> is_number v" "call_len u = Ok v \<Longrightarrow> is_number v"
  "call_int env u = Ok v \<Longrightarrow> is_number v" "call_float env u = Ok v \<Longrightarrow> is_number v"
  by (cases u; auto simp: call_abs_def call_len_def call_int_def call_float_def split: option.splits)+

lemma call_round_number: "call_round env values = Ok v \<Longrightarrow> is_number v"
  by (auto simp: call_round_def Let_def split: if_splits option.splits)

lemma always_numeric_number:
  assumes "eval_call env name values = Ok v" and "name \<in> set ALWAYS_NUMERIC"
  shows "is_number v"
  using assms
  by (auto simp: eval_call_def ALWAYS_NUMERIC_def res_bind_Ok_iff res_map_Ok_iff
      dest: calls_number call_round_number)

lemma eval_chain_bool: "eval_chain env left chain = Ok v \<Longrightarrow> \<exists>b. v = VBool b"
proof (induction chain arbitrary: left)
  case (Cons c chain)
  obtain op e where "c = (op, e)" by (cases c)
  with Cons show ?case by (auto simp: res_bind_Ok_iff split: if_splits)
qed auto

lemma eval_number:
  "eval env e = Ok v \<Longrightarrow> (is_numeric e \<longrightarrow> is_number v)
     \<and> (is_numeric_sequence e \<longrightarrow> (\<exists>vs. v = VList vs \<and> list_all is_number vs))"
  "eval_list env items = Ok vs \<Longrightarrow> (list_all is_numeric items \<longrightarrow> list_all is_number vs)
     \<and> (list_all (\<lambda>e. is_numeric e \<or> is_numeric_sequence e) items \<longrightarrow> list_all numeric_shape vs)"
  "eval_chain env left chain = Ok v \<Longrightarrow> True"
proof (induction env e and env items and env left chain arbitrary: v and vs and v
    rule: eval_eval_list_eval_chain.induct)
  case (7 env op operand)
  then show ?case by (auto simp: res_bind_Ok_iff dest: eval_unary_number)
next
  case (8 env op l r)
  then show ?case by (auto simp: res_bind_Ok_iff dest: eval_bin_number split: if_splits)
next
  case (10 env chain)
  then show ?case by (auto simp: res_bind_Ok_iff dest!: eval_chain_bool split: list.splits)
next
  case (11 env body c orelse)
  then obtain b where "eval env c = Ok b" "if truthy b then eval env body = Ok v else eval env orelse = Ok v"
    by (auto simp: res_bind_Ok_iff split: if_splits)
  with 11(2,3) [of b v] show ?case by (cases "truthy b") auto
next
  case (12 env name args)
  then obtain vals where vals: "eval_list env args = Ok vals" "eval_call env name vals = Ok v"
    by (auto simp: res_bind_Ok_iff)
  note IH = 12(1) [OF vals(1)]
  have "is_number v" if "is_numeric (ECall name args)"
  proof (cases "name \<in> set ALWAYS_NUMERIC")
    case True
    with always_numeric_number [OF vals(2)] show ?thesis by simp
  next
    case False
    with that have name: "name = ''sum'' \<or> name = ''min'' \<or> name = ''max''"
      and args: "list_all (\<lambda>e. is_numeric e \<or> is_numeric_sequence e) args"
      by (simp_all split: if_splits)
    from IH args have "list_all numeric_shape vals" by blast
    with name vals(2) show ?thesis
      by (auto simp: eval_call_def dest: call_sum_number call_min_max_number)
  qed
  then show ?case by simp
qed (auto simp: res_bind_Ok_iff res_map_Ok_iff numeric_shape_def dest: eval_chain_bool split: if_splits list.splits)

section \<open>Checked expressions neither panic nor blow up\<close>

text \<open>The size of a value and of an expression: characters, elements, nodes.\<close>

fun value_size :: "calc_value \<Rightarrow> nat" where
  "value_size (VStr s) = Suc (length s)"
| "value_size (VList vs) = Suc (sum_list (map value_size vs))"
| "value_size _ = 1"

fun expr_size :: "expr \<Rightarrow> nat" where
  "expr_size (EStr s) = Suc (length s)"
| "expr_size (EList items) = Suc (sum_list (map expr_size items))"
| "expr_size (ECall name args) = Suc (sum_list (map expr_size args))"
| "expr_size (EUnary op e) = Suc (expr_size e)"
| "expr_size (EBin op l r) = Suc (expr_size l + expr_size r)"
| "expr_size (ECompare chain) = Suc (sum_list (map (\<lambda>(op, e). expr_size e) chain))"
| "expr_size (EBoolOp a l r) = Suc (expr_size l + expr_size r)"
| "expr_size (EIfElse b c e) = Suc (expr_size b + expr_size c + expr_size e)"
| "expr_size _ = 1"

lemma value_size_number: "is_number v \<Longrightarrow> value_size v = 1"
  by (cases v) simp_all

lemma value_size_pos: "0 < value_size v"
  by (cases v) simp_all

lemma bin_add_size: "bin_add l r = Ok v \<Longrightarrow> value_size v \<le> value_size l + value_size r"
  by (cases l; cases r) (auto simp: bin_add_def numeric_pair_def unsupported_def checked_def split: option.splits)

lemma bin_size:
  assumes "eval_bin env op l r = Ok v" and "op = CHR ''*'' \<Longrightarrow> is_number l \<and> is_number r"
  shows "value_size v \<le> value_size l + value_size r"
proof (cases "is_number v")
  case True
  then show ?thesis using value_size_pos [of l] by (simp add: value_size_number)
next
  case False
  then have "bin_add l r = Ok v"
    using assms bin_mul_number [of l r v] by (auto simp: eval_bin_def split: if_splits dest: bin_number)
  then show ?thesis by (rule bin_add_size)
qed

lemma bin_ops_no_panic:
  "bin_add l r \<noteq> Panic" "bin_sub l r \<noteq> Panic" "bin_div l r \<noteq> Panic" "bin_floor_div l r \<noteq> Panic"
  "bin_mod l r \<noteq> Panic" "bin_pow env l r \<noteq> Panic" "is_number l \<Longrightarrow> bin_mul l r \<noteq> Panic"
  by (auto simp: bin_add_def bin_sub_def bin_div_def bin_floor_div_def bin_mod_def bin_pow_def bin_mul_def
      unsupported_def checked_def Let_def split: calc_value.splits option.splits)

lemma bin_no_panic:
  assumes "op = CHR ''*'' \<Longrightarrow> is_number l \<and> is_number r"
  shows "eval_bin env op l r \<noteq> Panic"
  using assms by (simp add: eval_bin_def bin_ops_no_panic)

lemma unary_size: "eval_unary op w = Ok v \<Longrightarrow> value_size v \<le> value_size w"
  by (cases w) (auto simp: eval_unary_def checked_def split: if_splits option.splits)

lemma unary_no_panic: "eval_unary op w \<noteq> Panic"
  by (cases w) (auto simp: eval_unary_def checked_def split: option.splits)

lemma compare_no_panic [simp]: "compare_values op l r \<noteq> Panic"
  by (auto simp: compare_values_def res_bind_Panic_iff split: calc_value.splits option.splits prod.splits)

lemma res_fold_no_panic:
  assumes "\<And>x s. f x s \<noteq> Panic" shows "res_fold f xs s \<noteq> Panic"
  using assms by (induction xs arbitrary: s) (auto simp: res_bind_Panic_iff)

lemma best_of_no_panic: "best_of op items best \<noteq> Panic"
  by (induction items arbitrary: best) (auto simp: res_bind_Panic_iff)

lemma sorted_insert_no_panic: "sorted_insert item result \<noteq> Panic"
  by (induction result) (auto simp: res_bind_Panic_iff)

lemma date_args_no_panic: "date_args values \<noteq> Panic"
  by (induction "values") (auto split: calc_value.splits)

lemma with_kind_Panic [simp]: "with_kind kind r = Panic \<longleftrightarrow> r = Panic"
  by (cases r) simp_all

lemma one_arg_no_panic [simp]: "one_arg name values \<noteq> Panic"
  by (simp add: one_arg_def split: list.splits)

lemma calls_no_panic:
  "call_abs u \<noteq> Panic" "call_len u \<noteq> Panic" "call_int env u \<noteq> Panic" "call_float env u \<noteq> Panic"
  "call_sorted u \<noteq> Panic"
  by (cases u; auto simp: call_abs_def call_len_def call_int_def call_float_def call_sorted_def
      res_fold_no_panic sorted_insert_no_panic split: option.splits)+

lemma call_round_no_panic: "call_round env values \<noteq> Panic"
  by (simp add: call_round_def Let_def split: option.splits)

lemma call_min_max_no_panic: "call_min_max name values \<noteq> Panic"
  by (simp add: call_min_max_def best_of_no_panic split: list.splits)

lemma call_sum_no_panic: "call_sum values \<noteq> Panic"
proof -
  have "res_fold (\<lambda>item acc. bin_add acc item) items a \<noteq> Panic" for items a
    by (rule res_fold_no_panic) (rule bin_ops_no_panic)
  then show ?thesis
    by (auto simp: call_sum_def Let_def res_bind_Panic_iff split: calc_value.splits if_splits)
qed

lemma eval_call_no_panic: "eval_call env name values \<noteq> Panic"
  by (auto simp: eval_call_def res_bind_Panic_iff calls_no_panic call_round_no_panic call_min_max_no_panic
      call_sum_no_panic date_args_no_panic)

lemma sum_list_mset: "mset xs = mset ys \<Longrightarrow> sum_list (map f xs) = sum_list (map f ys)" for f :: "'a \<Rightarrow> nat"
  by (metis mset_map sum_mset_sum_list)

lemma call_sorted_size:
  assumes "call_sorted u = Ok v" shows "value_size v \<le> Suc (value_size u)"
proof (cases u)
  case (VList xs)
  with assms obtain out where "v = VList out" "mset out = mset xs"
    by (auto simp: call_sorted_def res_map_Ok_iff dest: sorted_fold_mset)
  with VList sum_list_mset [of out xs value_size] show ?thesis by simp
qed (use assms in \<open>auto simp: call_sorted_def\<close>)

lemma call_min_max_size:
  assumes "call_min_max name values = Ok v"
  shows "value_size v \<le> Suc (sum_list (map value_size values))"
proof -
  obtain best items where "spread_args values = best # items"
      "best_of (if name = ''min'' then ''<'' else ''>'') items best = Ok v"
    using assms by (auto simp: call_min_max_def split: if_splits list.splits)
  then have "v \<in> set (spread_args values)" by (auto dest: best_of_in)
  then have "value_size v \<le> sum_list (map value_size (spread_args values))"
    by (intro member_le_sum_list) simp_all
  also have "\<dots> \<le> Suc (sum_list (map value_size values))"
    by (auto simp: spread_args_def split: list.splits calc_value.splits)
  finally show ?thesis .
qed

lemma eval_call_size:
  assumes "eval_call env name values = Ok v"
  shows "value_size v \<le> Suc (sum_list (map value_size values))"
proof (cases "is_number v")
  case True
  then show ?thesis by (simp add: value_size_number)
next
  case False
  then have "name \<notin> set ALWAYS_NUMERIC" using always_numeric_number [OF assms] by blast
  then have "eval_call env name values =
      (if name = ''min'' \<or> name = ''max'' then call_min_max name values
       else if name = ''sum'' then call_sum values
       else if name = ''sorted'' then res_bind (one_arg name values) call_sorted
       else Err ''only the listed functions may be called'')"
    by (simp add: eval_call_def ALWAYS_NUMERIC_def)
  with assms False consider "call_min_max name values = Ok v" | u where "values = [u]" "call_sorted u = Ok v"
    by (auto simp: res_bind_Ok_iff dest: call_sum_number split: if_splits)
  then show ?thesis
  proof cases
    case 1
    then show ?thesis by (rule call_min_max_size)
  next
    case 2
    then show ?thesis by (auto dest: call_sorted_size)
  qed
qed

lemma check_args_list: "check_args args = Ok u \<Longrightarrow> check_list args = Ok u"
  by (induction args) (auto simp: res_bind_Ok_iff split: if_splits)

lemma checked_eval:
  "check_expression e = Ok u \<Longrightarrow> wf_expr e \<Longrightarrow>
     eval env e \<noteq> Panic \<and> (\<forall>v. eval env e = Ok v \<longrightarrow> value_size v \<le> expr_size e)"
  "check_list items = Ok u \<Longrightarrow> list_all wf_expr items \<Longrightarrow>
     eval_list env items \<noteq> Panic
     \<and> (\<forall>vs. eval_list env items = Ok vs \<longrightarrow> sum_list (map value_size vs) \<le> sum_list (map expr_size items))"
  "check_chain chain = Ok u \<Longrightarrow> list_all (\<lambda>(op, e). wf_expr e) chain \<Longrightarrow> eval_chain env left chain \<noteq> Panic"
proof (induction env e and env items and env left chain rule: eval_eval_list_eval_chain.induct)
  case (7 env op operand)
  then show ?case by (auto simp: res_bind_Ok_iff res_bind_Panic_iff unary_no_panic dest!: unary_size intro: le_SucI order_trans)
next
  case (8 env op l r)
  have c: "check_expression l = Ok u" "check_expression r = Ok u"
    and num: "op = CHR ''*'' \<Longrightarrow> is_numeric l \<and> is_numeric r"
    using 8(5) by (auto simp: res_bind_Ok_iff split: if_splits)
  have wf: "wf_expr l" "wf_expr r" using 8(6) by simp_all
  show ?case
  proof (cases "op = CHR ''&''")
    case True
    with 8(1,2) c wf show ?thesis by (auto simp: res_bind_Ok_iff res_bind_Panic_iff split: if_splits)
  next
    case False
    have l: "eval env l \<noteq> Panic" "\<And>a. eval env l = Ok a \<Longrightarrow> value_size a \<le> expr_size l"
      using 8(3) [OF False c(1) wf(1)] by auto
    have r: "eval env r \<noteq> Panic" "\<And>b. eval env r = Ok b \<Longrightarrow> value_size b \<le> expr_size r"
      using 8(4) [OF False c(2) wf(2)] by auto
    have numbers: "op = CHR ''*'' \<Longrightarrow> is_number a \<and> is_number b" if "eval env l = Ok a" "eval env r = Ok b" for a b
      using num eval_number(1) [OF that(1)] eval_number(1) [OF that(2)] by blast
    have size: "value_size v \<le> Suc (expr_size l + expr_size r)"
      if a: "eval env l = Ok a" and b: "eval env r = Ok b" and v: "eval_bin env op a b = Ok v" for a b v
      using bin_size [OF v numbers [OF a b]] l(2) [OF a] r(2) [OF b] by simp
    show ?thesis
      using False l(1) r(1) size bin_no_panic [OF numbers]
      by (auto simp: res_bind_Ok_iff res_bind_Panic_iff)
  qed
next
  case (9 env is_and l r)
  have c: "check_expression l = Ok u" "check_expression r = Ok u" using 9(4) by (auto simp: res_bind_Ok_iff)
  have wf: "wf_expr l" "wf_expr r" using 9(5) by simp_all
  have r: "eval env r \<noteq> Panic \<and> (\<forall>v. eval env r = Ok v \<longrightarrow> value_size v \<le> expr_size r)"
    by (cases is_and) (use 9(2) [of "VBool True"] 9(3) [of "VBool False"] c wf in auto)
  show ?case
    using 9(1) [OF c(1) wf(1)] r
    by (auto simp: res_bind_Ok_iff res_bind_Panic_iff intro: le_SucI trans_le_add1 trans_le_add2 split: if_splits)
next
  case (10 env chain)
  obtain op first rest where chain: "chain = (op, first) # rest"
    using 10(4) by (cases chain) auto
  have "check_expression first = Ok u" "check_chain rest = Ok u" "wf_expr first" "list_all (\<lambda>(op, e). wf_expr e) rest"
    using 10(3,4) chain by (auto simp: res_bind_Ok_iff)
  with 10(1,2) chain show ?case by (auto simp: res_bind_Ok_iff res_bind_Panic_iff dest!: eval_chain_bool)
next
  case (11 env body c orelse)
  have ok: "check_expression body = Ok u" "check_expression c = Ok u" "check_expression orelse = Ok u"
    using 11(4) by (auto simp: res_bind_Ok_iff)
  have wf: "wf_expr body" "wf_expr c" "wf_expr orelse" using 11(5) by simp_all
  show ?case
    using 11(1) [OF ok(2) wf(2)] 11(2) [of "VBool True"] 11(3) [of "VBool False"] ok wf
    by (auto simp: res_bind_Ok_iff res_bind_Panic_iff intro: le_SucI trans_le_add1 trans_le_add2 split: if_splits)
next
  case (12 env name args)
  have "check_list args = Ok u" using 12(2) check_args_list by (auto split: if_splits)
  moreover have "list_all wf_expr args" using 12(3) by simp
  ultimately have "eval_list env args \<noteq> Panic"
    and "\<And>vs. eval_list env args = Ok vs \<Longrightarrow> sum_list (map value_size vs) \<le> sum_list (map expr_size args)"
    using 12(1) by blast+
  then show ?case
    by (auto simp: res_bind_Ok_iff res_bind_Panic_iff eval_call_no_panic dest!: eval_call_size intro: order_trans)
qed (auto simp: res_bind_Ok_iff res_bind_Panic_iff res_map_Ok_iff)

section \<open>Rendering\<close>

lemma int_to_str_ne [simp]: "int_to_str k \<noteq> []"
  by (simp add: int_to_str_def)

text \<open>Popping zeros stops at the decimal point.\<close>

lemma pop_zeros_point: "\<exists>r'. pop_zeros (p @ CHR ''.'' # r) = p @ CHR ''.'' # r'"
proof (induction r rule: rev_induct)
  case Nil
  show ?case by (intro exI [of _ "[]"]) (simp add: pop_zeros.simps)
next
  case (snoc c r)
  let ?s = "(p @ CHR ''.'' # r) @ [c]"
  show ?case
  proof (cases "c = CHR ''0''")
    case True
    then have "pop_zeros ?s = pop_zeros (p @ CHR ''.'' # r)"
      by (subst pop_zeros.simps) (simp add: butlast_append)
    with snoc show ?thesis by simp
  next
    case False
    then have "pop_zeros ?s = ?s" by (subst pop_zeros.simps) simp
    then show ?thesis by (intro exI [of _ "r @ [c]"]) simp
  qed
qed

lemma format_number_ne:
  assumes "is_number v" and "\<And>b. v \<noteq> VBool b"
  shows "format_number v \<noteq> []"
proof (cases v)
  case (VFloat x)
  have "butlast s \<noteq> []" if "ends_with s ''.''" "\<exists>p r. s = p @ CHR ''.'' # r \<and> p \<noteq> []" for s
    using that by (auto simp: butlast_append)
  moreover have "pop_zeros (format_6 x) \<noteq> [] \<and> (ends_with (pop_zeros (format_6 x)) ''.'' \<longrightarrow>
      (\<exists>p r. pop_zeros (format_6 x) = p @ CHR ''.'' # r \<and> p \<noteq> []))"
  proof (cases x)
    case (FFin s q)
    let ?m = "nat (round_even (q * 10 ^ 6))"
    let ?p = "(if s then ''-'' else []) @ nat_to_str (?m div 10 ^ 6)"
    have "format_6 x = ?p @ CHR ''.'' # pad_zeros 6 (nat_to_str (?m mod 10 ^ 6))" by (simp add: FFin Let_def)
    moreover obtain p where p: "p = ?p" "p \<noteq> []" by simp
    ultimately have "format_6 x = p @ CHR ''.'' # pad_zeros 6 (nat_to_str (?m mod 10 ^ 6))" by simp
    with pop_zeros_point [of p] p(2) show ?thesis by (metis append_is_Nil_conv)
  qed (auto simp: pop_zeros.simps ends_with_def suffix_def)
  ultimately show ?thesis using VFloat by (auto simp: Let_def)
qed (use assms in auto)

lemma check_error_ne:
  "check_expression e = Err err \<Longrightarrow> err \<noteq> []" "check_args args = Err err \<Longrightarrow> err \<noteq> []"
  "check_list items = Err err \<Longrightarrow> err \<noteq> []" "check_chain chain = Err err \<Longrightarrow> err \<noteq> []"
  by (induction e and args and items and chain rule: check_expression_check_args_check_list_check_chain.induct)
     (auto simp: res_bind_Err_iff split: if_splits)

lemma check_no_panic:
  "check_expression e \<noteq> Panic" "check_args args \<noteq> Panic" "check_list items \<noteq> Panic" "check_chain chain \<noteq> Panic"
  by (induction e and args and items and chain rule: check_expression_check_args_check_list_check_chain.induct)
     (auto simp: res_bind_Panic_iff)

section \<open>Properties\<close>

text \<open>An environment for the examples: ASCII letters, no dates, no powers of floats.\<close>

definition ascii_alpha :: "string \<Rightarrow> bool" where
  "ascii_alpha ch = (case ch of [c] \<Rightarrow> (65 \<le> (of_char c :: nat) \<and> (of_char c :: nat) \<le> 90)
                       \<or> (97 \<le> (of_char c :: nat) \<and> (of_char c :: nat) \<le> 122) | _ \<Rightarrow> False)"

definition demo_calc :: calc_env where
  "demo_calc = \<lparr>ce_alphabetic = ascii_alpha, ce_alphanumeric = (\<lambda>ch. ascii_alpha ch \<or> ascii_digit ch),
     ce_debug = (\<lambda>s. s), ce_debug_char = (\<lambda>c. []), ce_float_text = (\<lambda>x. []), ce_ymd = (\<lambda>y m d. None),
     ce_powf = (\<lambda>x y. FNaN), ce_powi = (\<lambda>x n. FNaN)\<rparr>"

text \<open>
  C26. \<open>compute\<close> returns for every text: either a rendered number and no error, or no number and an
  error that says why. It neither panics nor runs out of the recursion the parser needs.
\<close>

theorem compute_decides:
  "\<exists>rendered err. compute env expression = Ok (rendered, err) \<and> (rendered = []) \<noteq> (err = [])"
proof -
  let ?w = "trim expression"
  obtain r where r: "parse_expression env ?w = Some r" "r \<noteq> Panic" using parse_expression_total by blast
  have finish: "\<exists>rendered err. finish_compute v = (rendered, err) \<and> (rendered = []) \<noteq> (err = [])" for v
    using format_number_ne [of v] by (cases v) (simp_all add: finish_compute_def)
  show ?thesis
  proof (cases "\<exists>e. r = Ok e \<and> is_ok (check_expression e)")
    case True
    then obtain e u where e: "r = Ok e" "check_expression e = Ok u" unfolding is_ok_iff by blast
    then have "eval env e \<noteq> Panic" using checked_eval(1) [OF e(2) parse_expression_wf] r by blast
    with r e finish show ?thesis
      by (cases "eval env e") (auto simp: compute_def Let_def)
  next
    case False
    with r show ?thesis
      using check_no_panic(1) by (cases r; cases "check_expression (case r of Ok e \<Rightarrow> e)")
        (auto simp: compute_def Let_def dest: check_error_ne(1))
  qed
qed

text \<open>
  C17. An expression that was parsed and passed the whitelist evaluates without a panic, and its value
  is no larger than the expression itself: no repetition of a string can blow it up.
\<close>

theorem checked_expression_bounded:
  assumes "parse_expression env w = Some (Ok e)" and "check_expression e = Ok ()"
  shows "eval env e \<noteq> Panic \<and> (\<forall>v. eval env e = Ok v \<longrightarrow> value_size v \<le> expr_size e)"
  using checked_eval(1) [OF assms(2) parse_expression_wf [OF assms(1)]] .

theorem checked_expression_bounded_witness:
  "\<exists>e. parse_expression demo_calc ''\"ab\" + \"cd\"'' = Some (Ok e)
     \<and> eval demo_calc e = Ok (VStr ''abcd'') \<and> value_size (VStr ''abcd'') \<le> expr_size e"
proof -
  let ?e = "EBin (CHR ''+'') (EStr ''ab'') (EStr ''cd'')"
  have p: "parse_expression demo_calc ''\"ab\" + \"cd\"'' = Some (Ok ?e)" by code_simp
  moreover have "check_expression ?e = Ok ()" by simp
  moreover have "eval demo_calc ?e = Ok (VStr ''abcd'')" by (simp add: eval_bin_def bin_add_def)
  ultimately show ?thesis using checked_expression_bounded [of demo_calc _ ?e] by blast
qed

text \<open>
  C27. The static test \<open>is_numeric\<close> is sound: when an expression it accepts evaluates, the value is an
  integer, a float or a truth value.
\<close>

theorem numeric_check_sound:
  assumes "is_numeric e" and "eval env e = Ok v"
  shows "is_number v"
  using eval_number(1) [OF assms(2)] assms(1) by blast

theorem numeric_check_sound_witness:
  "\<exists>v. eval demo_calc (ECall ''max'' [EList [EInt 3, EInt 5]]) = Ok v \<and> is_number v"
proof -
  let ?e = "ECall ''max'' [EList [EInt 3, EInt 5]]"
  have "is_numeric ?e" by (simp add: ALWAYS_NUMERIC_def)
  moreover have "eval demo_calc ?e = Ok (VInt 5)"
    by (simp add: eval_call_def call_min_max_def spread_args_def compare_values_def numeric_pair_def
        f64_cmp_of_int ordering_holds_def)
  ultimately show ?thesis using numeric_check_sound [of ?e demo_calc] by blast
qed

lemma int_expr_numeric: "int_expr e \<Longrightarrow> is_numeric e"
  by (induction e) auto

lemma int_eval_no_panic: "int_expr e \<Longrightarrow> eval env e \<noteq> Panic"
proof (induction e)
  case (EUnary op e)
  then show ?case by (simp add: res_bind_Panic_iff unary_no_panic)
next
  case (EBin op l r)
  then have ok: "eval env l \<noteq> Panic" "eval env r \<noteq> Panic" "int_expr l" "int_expr r" and op: "op \<noteq> CHR ''&''" by auto
  have "eval_bin env op a b \<noteq> Panic" if "eval env l = Ok a" "eval env r = Ok b" for a b
    using eval_number(1) [OF that(1)] eval_number(1) [OF that(2)] ok(3,4) int_expr_numeric
    by (intro bin_no_panic) blast
  with ok(1,2) op show ?case by (auto simp: res_bind_Panic_iff)
qed simp_all

text \<open>
  C18. On integer expressions the calculator computes the mathematical value, with division and
  remainder rounded down, as long as every intermediate result fits 64 bits, no divisor is zero and
  no exponent exceeds 63; otherwise it answers an error, never a wrong number.
\<close>

theorem integer_arithmetic_exact:
  assumes "int_expr e"
  shows "if int_defined e
    then (\<exists>n. eval env e = Ok (VInt n) \<and> sint n = int_value e)
    else (\<exists>err. eval env e = Err err)"
proof (cases "int_defined e")
  case True
  with int_eval [OF assms] have "eval env e = Ok (VInt (of_int (int_value e)))" by simp
  with sint_checked [OF int_defined_range [OF True]] True show ?thesis by simp
next
  case False
  then show ?thesis
    using int_eval [OF assms, of env] int_eval_no_panic [OF assms, of env] by (cases "eval env e") auto
qed

theorem integer_arithmetic_exact_witness:
  "\<exists>n. eval demo_calc (EBin (CHR ''F'') (EUnary (CHR ''-'') (EInt 7)) (EInt 2)) = Ok (VInt n) \<and> sint n = - 4"
proof -
  let ?e = "EBin (CHR ''F'') (EUnary (CHR ''-'') (EInt 7)) (EInt 2)"
  have "int_expr ?e" "int_defined ?e" "int_value ?e = - 4" by (simp_all add: i64_range_def)
  with integer_arithmetic_exact [of ?e demo_calc] show ?thesis by simp
qed

text \<open>
  C29. The parser returns for every text, without a panic, and the result does not depend on how much
  fuel beyond \<open>parse_fuel\<close> it is given.
\<close>

theorem parser_returns:
  "\<exists>r. parse_expression env w = Some r \<and> r \<noteq> Panic \<and> (\<forall>n. parse_fuel w \<le> n \<longrightarrow> parse_all env n w = Some r)"
  using parse_expression_total [of env w] parse_all_enough by metis

theorem parser_returns_witness:
  "parse_all demo_calc 1000 ''1+2*3'' =
     Some (Ok (EBin (CHR ''+'') (EInt 1) (EBin (CHR ''*'') (EInt 2) (EInt 3))))"
proof -
  have "parse_expression demo_calc ''1+2*3'' =
      Some (Ok (EBin (CHR ''+'') (EInt 1) (EBin (CHR ''*'') (EInt 2) (EInt 3))))" by code_simp
  moreover have "parse_fuel ''1+2*3'' \<le> 1000" by (simp add: parse_fuel_def)
  ultimately show ?thesis using parser_returns [of demo_calc "''1+2*3''"] by auto
qed

text \<open>
  \<open>sorted\<close> of a list, when it answers, is a list of the same values, in an order in which no value
  is greater than a later one.
\<close>

theorem sorted_sorts:
  assumes "eval_call env ''sorted'' [VList xs] = Ok v"
  shows "\<exists>out. v = VList out \<and> mset out = mset xs \<and> sorted_wrt (\<lambda>a b. compare_values ''<='' a b = Ok True) out"
proof -
  obtain out where out: "v = VList out" "res_fold sorted_insert xs [] = Ok out"
    using assms by (auto simp: eval_call_def one_arg_def call_sorted_def res_map_Ok_iff)
  have "(\<lambda>a b. compare_values ''<='' a b = Ok True) = value_le" by (intro ext) (simp add: value_le_def)
  with out sorted_fold_mset [OF out(2)] sorted_fold_sorted [OF out(2)] show ?thesis by simp
qed

theorem sorted_sorts_witness:
  "\<exists>out. eval_call demo_calc ''sorted'' [VList [VStr ''b'', VStr ''a'']] = Ok (VList out)
     \<and> mset out = {#VStr ''a'', VStr ''b''#}"
proof -
  have "eval_call demo_calc ''sorted'' [VList [VStr ''b'', VStr ''a'']] = Ok (VList [VStr ''a'', VStr ''b''])"
    by (simp add: eval_call_def one_arg_def call_sorted_def compare_values_def ordering_holds_def)
  from this sorted_sorts [OF this] show ?thesis by auto
qed

text \<open>
  Two integers below \<open>2\<^sup>5\<^sup>3\<close> in absolute value are compared exactly by every comparison operator.
\<close>

theorem integer_comparison_exact:
  assumes "\<bar>sint a\<bar> < 2 ^ 53" and "\<bar>sint b\<bar> < 2 ^ 53"
  shows "compare_values ''=='' (VInt a) (VInt b) = Ok (a = b)
    \<and> compare_values ''!='' (VInt a) (VInt b) = Ok (a \<noteq> b)
    \<and> compare_values ''<'' (VInt a) (VInt b) = Ok (sint a < sint b)
    \<and> compare_values ''<='' (VInt a) (VInt b) = Ok (sint a \<le> sint b)
    \<and> compare_values ''>'' (VInt a) (VInt b) = Ok (sint b < sint a)
    \<and> compare_values ''>='' (VInt a) (VInt b) = Ok (sint b \<le> sint a)"
  using signed_word_eqI [of a b]
  by (auto simp: compare_values_def numeric_pair_def f64_cmp_of_int [OF assms] ordering_holds_def)

theorem integer_comparison_exact_witness:
  "compare_values ''<'' (VInt 3) (VInt 5) = Ok True"
  using integer_comparison_exact [of 3 5] by simp

text \<open>
  From \<open>2\<^sup>5\<^sup>3\<close> on different integers can compare as equal, because both are rounded to doubles
  first: \<open>9007199254740993 == 9007199254740992\<close> holds for the calculator.
\<close>

theorem large_integers_conflated:
  "compare_values ''=='' (VInt 9007199254740993) (VInt 9007199254740992) = Ok True"
proof -
  have log: "log2_nat n = 53" if "2 ^ 53 \<le> n" "n < 2 ^ 54" for n
  proof -
    have n: "0 < n" using that(1) by simp
    have "(2::nat) ^ log2_nat n < 2 ^ 54" using log2_nat_bounds [OF n] that(2) by (blast intro: le_less_trans)
    moreover have "(2::nat) ^ 53 < 2 ^ Suc (log2_nat n)" using log2_nat_bounds [OF n] that(1) by (blast intro: le_less_trans)
    ultimately have "(2::nat) ^ log2_nat n < 2 ^ 54" "(2::nat) ^ 53 < 2 ^ Suc (log2_nat n)" .
    then have "log2_nat n < 54" "53 < Suc (log2_nat n)" by (simp_all only: power_strict_increasing_iff)
    then show ?thesis by simp
  qed
  have round: "f64_round False (of_nat n) = FFin False 9007199254740992"
    if "n = 9007199254740992 \<or> n = 9007199254740993" for n
  proof -
    have e: "exponent_of (of_nat n) = 53"
      using that log [of n] exponent_of_nat [of n] by auto
    have "round_even (of_nat n / 2) = 4503599627370496"
    proof -
      have "floor (9007199254740993 / 2 :: rat) = 4503599627370496" by (rule floor_unique) simp_all
      with that show ?thesis by (auto simp: round_even_def)
    qed
    with e that show ?thesis by (auto simp: f64_round_def pow2_def)
  qed
  have "f64_of_int 9007199254740993 = FFin False 9007199254740992" "f64_of_int 9007199254740992 = FFin False 9007199254740992"
    using round [of 9007199254740993] round [of 9007199254740992] by (simp_all add: f64_of_int_def f64_of_rat_def)
  then show ?thesis by (simp add: compare_values_def numeric_pair_def ordering_holds_def rat_cmp_def)
qed

text \<open>
  The absolute value of the least integer is that negative integer, where every other operator
  reports an overflow; and \<open>int\<close> of a float beyond the range is the greatest integer.
\<close>

theorem abs_and_int_wrong_at_the_limits:
  "eval_call env ''abs'' [VInt (of_int (- (2 ^ 63)))] = Ok (VInt (of_int (- (2 ^ 63))))
   \<and> eval_call env ''int'' [VFloat (FFin False (2 ^ 63))] = Ok (VInt (of_int (2 ^ 63 - 1)))"
proof
  let ?n = "of_int (- (2 ^ 63)) :: i64"
  have "sint ?n < 0" by (subst sint_of_int_i64) simp_all
  moreover have "- ?n = ?n" by simp
  ultimately show "eval_call env ''abs'' [VInt ?n] = Ok (VInt ?n)"
    by (simp add: eval_call_def one_arg_def call_abs_def i64_abs_def)
  have "f64_to_int (FFin False (2 ^ 63)) = 2 ^ 63 - 1" by (simp add: rat_trunc_def i64_clamp_def)
  then show "eval_call env ''int'' [VFloat (FFin False (2 ^ 63))] = Ok (VInt (of_int (2 ^ 63 - 1)))"
    by (simp add: eval_call_def one_arg_def call_int_def)
qed

end
