(* ===== verification/Rust_F32_Arith.thy ===== *)
theory Rust_F32_Arith
  imports Rust_F32 Rust_F64
begin

text \<open>
  The \<open>f32\<close> arithmetic of the chunkers: a product, rounded once to the nearest single (24 bits of
  significand, the least exponent \<open>-149\<close>, infinity from \<open>2\<^sup>1\<^sup>2\<^sup>8\<close> on), and the conversions from and
  to \<open>usize\<close>, which saturate. Here too the sign of zero is not kept; no result depends on it.
\<close>

definition f32_round :: "rat \<Rightarrow> f32" where
  "f32_round q =
     (if q = 0 then Fin 0
      else let u = pow2 (max (exponent_of \<bar>q\<bar> - 23) (- 149));
               m = of_int (round_even (\<bar>q\<bar> / u)) * u
           in if pow2 128 \<le> m then Infinite (0 < q) else Fin (if q < 0 then - m else m))"

fun f32_mul :: "f32 \<Rightarrow> f32 \<Rightarrow> f32" where
  "f32_mul (Fin p) (Fin q) = f32_round (p * q)"
| "f32_mul (Infinite s) (Infinite t) = Infinite (s = t)"
| "f32_mul (Infinite s) (Fin q) = (if q = 0 then NaN else Infinite (s = (0 < q)))"
| "f32_mul (Fin p) (Infinite t) = (if p = 0 then NaN else Infinite (t = (0 < p)))"
| "f32_mul _ _ = NaN"

definition f32_of_nat :: "nat \<Rightarrow> f32" where
  "f32_of_nat n = f32_round (of_nat n)"

text \<open>\<open>x as usize\<close> and \<open>x as f64\<close>; \<open>Infinite True\<close> is the positive infinity.\<close>

definition usize_max :: nat where
  "usize_max = 2 ^ 64 - 1"

fun f32_to_usize :: "f32 \<Rightarrow> nat" where
  "f32_to_usize (Fin q) = min usize_max (nat (floor q))"
| "f32_to_usize (Infinite s) = (if s then usize_max else 0)"
| "f32_to_usize NaN = 0"

fun f64_of_f32 :: "f32 \<Rightarrow> f64" where
  "f64_of_f32 (Fin q) = FFin (q < 0) \<bar>q\<bar>"
| "f64_of_f32 (Infinite s) = FInf (\<not> s)"
| "f64_of_f32 NaN = FNaN"

fun f64_to_usize :: "f64 \<Rightarrow> nat" where
  "f64_to_usize (FFin s q) = (if s then 0 else min usize_max (nat (floor q)))"
| "f64_to_usize (FInf s) = (if s then 0 else usize_max)"
| "f64_to_usize FNaN = 0"

definition f64_ceil :: "f64 \<Rightarrow> f64" where
  "f64_ceil = f64_to_integral ceiling"

lemma f32_mul_zero [simp]: "f32_mul (Fin p) (Fin 0) = Fin 0"
  by (simp add: f32_round_def)

section \<open>A quotient rounds to within an eighth\<close>

lemma pow2_powi: "pow2 k = 2 powi k"
  by (simp only: pow2_def power_int_def power_inverse divide_inverse mult_1_left)

lemma round_even_near: "\<bar>of_int (round_even x) - x\<bar> \<le> 1 / 2"
proof -
  have "of_int \<lfloor>x\<rfloor> \<le> x" and "x < of_int \<lfloor>x\<rfloor> + 1" by linarith+
  then show ?thesis unfolding round_even_def Let_def by (simp split: if_split)
qed

lemma exponent_of_le:
  assumes q: "0 < q"
  shows "pow2 (exponent_of q) \<le> q"
proof -
  obtain n d where nd: "quotient_of q = (n, d)" by (cases "quotient_of q")
  then have d: "0 < d" and qe: "q = of_int n / of_int d"
    using quotient_of_denom_pos [OF nd] quotient_of_div [OF nd] by auto
  with q have n: "0 < n" by (simp add: zero_less_divide_iff)
  let ?a = "log2_nat (nat n)" and ?b = "log2_nat (nat d)"
  have "2 ^ ?a \<le> nat n" and "nat d < 2 ^ Suc ?b"
    using log2_nat_bounds [of "nat n"] log2_nat_bounds [of "nat d"] n d by auto
  then have "int (2 ^ ?a) \<le> n" and "d < int (2 ^ Suc ?b)" using n d by linarith+
  then have "(of_int (int (2 ^ ?a)) :: rat) \<le> of_int n" and "(of_int d :: rat) < of_int (int (2 ^ Suc ?b))"
    by (simp_all only: of_int_le_iff of_int_less_iff)
  then have le: "(2 ^ ?a :: rat) \<le> of_int n" "(of_int d :: rat) \<le> 2 ^ Suc ?b" by simp_all
  have "pow2 (int ?a - int ?b - 1) = 2 ^ ?a / 2 ^ Suc ?b"
    by (simp add: pow2_powi power_int_diff)
  also have "\<dots> \<le> of_int n / of_int d"
    using le d n by (intro frac_le) simp_all
  finally have "pow2 (int ?a - int ?b - 1) \<le> q" by (simp only: qe)
  then show ?thesis by (simp add: exponent_of_def nd Let_def)
qed

text \<open>Below \<open>2\<^sup>5\<^sup>0\<close> a rounded quotient is within an eighth of the exact one.\<close>

lemma f64_round_near:
  assumes q: "0 < q" "q < 2 ^ 50"
  obtains m where "f64_round s q = FFin s m" and "\<bar>m - q\<bar> \<le> 1 / 8"
proof -
  let ?e = "max (exponent_of q - 52) (- 1074)"
  let ?m = "of_int (round_even (q / pow2 ?e)) * pow2 ?e"
  have "(2::rat) powi exponent_of q < 2 powi 50"
    using exponent_of_le [OF q(1)] q(2) by (simp add: pow2_powi)
  then have "exponent_of q < 50"
    using power_int_increasing [of 50 "exponent_of q" "2::rat"] by (simp only: linorder_not_le [symmetric]) auto
  then have "?e \<le> - 2" by simp
  then have "(2::rat) powi ?e \<le> 2 powi (- 2)" by (intro power_int_increasing) simp_all
  then have u: "pow2 ?e \<le> 1 / 4" by (simp add: pow2_powi power_int_minus)
  have pos: "0 < pow2 ?e" by simp
  have "?m - q = (of_int (round_even (q / pow2 ?e)) - q / pow2 ?e) * pow2 ?e"
    by (simp add: left_diff_distrib)
  then have "\<bar>?m - q\<bar> = \<bar>of_int (round_even (q / pow2 ?e)) - q / pow2 ?e\<bar> * pow2 ?e"
    using pos by (simp only: abs_mult abs_of_pos)
  also have "\<dots> \<le> 1 / 2 * (1 / 4)"
    using round_even_near [of "q / pow2 ?e"] u less_imp_le [OF pos] by (intro mult_mono) simp_all
  finally have near: "\<bar>?m - q\<bar> \<le> 1 / 8" by simp
  then have "?m < 2 ^ 50 + 1" using q(2) by linarith
  also have "(2::rat) ^ 50 + 1 \<le> pow2 1024" by (simp add: pow2_def)
  finally have "f64_round s q = FFin s ?m" using q(1) by (simp add: f64_round_def Let_def)
  then show thesis using that near by blast
qed

end
