(* ===== verification/Chunk_Tokens.thy ===== *)
theory Chunk_Tokens
  imports Rust_F32_Arith
begin

text \<open>
  The token estimate of \<^verbatim>\<open>src/chunk/tokenizer.rs\<close>, over the characters of a UTF-8 string, with the
  division and the rounding in \<open>f64\<close> as the code has them. Below \<open>2\<^sup>4\<^sup>8\<close> bytes the estimate is an
  integer formula (\<open>token_count_exact\<close>), which the chunkers' proofs use.
\<close>

section \<open>Characters\<close>

definition byte_val :: "char \<Rightarrow> nat" where
  "byte_val c = of_char c"

text \<open>The code point an encoding stands for.\<close>

fun code_point :: "string \<Rightarrow> nat" where
  "code_point [a] = byte_val a"
| "code_point [a, b] = byte_val a mod 32 * 64 + byte_val b mod 64"
| "code_point [a, b, c] = byte_val a mod 16 * 4096 + byte_val b mod 64 * 64 + byte_val c mod 64"
| "code_point [a, b, c, d] =
     byte_val a mod 8 * 262144 + byte_val b mod 64 * 4096 + byte_val c mod 64 * 64 + byte_val d mod 64"
| "code_point _ = 0"

definition in_range :: "nat \<Rightarrow> nat \<Rightarrow> nat \<Rightarrow> bool" where
  "in_range lo hi n \<longleftrightarrow> lo \<le> n \<and> n \<le> hi"

definition is_cjk :: "string \<Rightarrow> bool" where
  "is_cjk c =
     (let n = code_point c
      in in_range 0x4E00 0x9FFF n \<or> in_range 0x3400 0x4DBF n \<or> in_range 0x20000 0x2A6DF n
         \<or> in_range 0x3040 0x309F n \<or> in_range 0x30A0 0x30FF n \<or> in_range 0xAC00 0xD7AF n)"

definition is_ws_char :: "string \<Rightarrow> bool" where
  "is_ws_char c \<longleftrightarrow> c \<in> set ws_encodings"

definition is_ascii_punct :: "string \<Rightarrow> bool" where
  "is_ascii_punct c =
     (let n = code_point c
      in length c = 1 \<and> (in_range 33 47 n \<or> in_range 58 64 n \<or> in_range 91 96 n \<or> in_range 123 126 n))"

section \<open>The estimate\<close>

definition is_latin :: "string \<Rightarrow> bool" where
  "is_latin c \<longleftrightarrow> \<not> is_cjk c \<and> \<not> is_ws_char c \<and> \<not> is_ascii_punct c"

definition f64_of_nat :: "nat \<Rightarrow> f64" where
  "f64_of_nat n = f64_of_int (int n)"

definition ceil_div :: "nat \<Rightarrow> f64 \<Rightarrow> nat" where
  "ceil_div n d = f64_to_usize (f64_ceil (f64_div (f64_of_nat n) d))"

definition f64_1_5 :: f64 where "f64_1_5 = FFin False (3 / 2)"
definition f64_4 :: f64 where "f64_4 = FFin False 4"

definition token_count :: "string \<Rightarrow> nat" where
  "token_count text =
     (let cjk_chars = length (filter is_cjk (chars_of text));
          latin_chars = length (filter is_latin (chars_of text));
          count = ceil_div cjk_chars f64_1_5 + ceil_div latin_chars f64_4
      in if count = 0 \<and> trim text \<noteq> [] then 1 else count)"

section \<open>The estimate in integers\<close>

text \<open>The smallest \<open>k\<close> with \<open>b k \<ge> a n\<close>.\<close>

definition cdiv :: "nat \<Rightarrow> nat \<Rightarrow> nat" where
  "cdiv n d = (n + d - 1) div d"

lemma cdiv_add: "0 < d \<Longrightarrow> cdiv (m + n) d \<le> cdiv m d + cdiv n d"
proof -
  assume d: "0 < d"
  have up: "n \<le> d * cdiv n d" for n
  proof -
    have "n + d - 1 = d * cdiv n d + (n + d - 1) mod d" by (simp add: cdiv_def)
    moreover have "(n + d - 1) mod d < d" using d by simp
    ultimately show ?thesis using d by linarith
  qed
  have "m + n \<le> d * (cdiv m d + cdiv n d)"
    using up [of m] up [of n] by (simp add: distrib_left)
  then have "m + n + d - 1 < d * (cdiv m d + cdiv n d) + d" using d by linarith
  then have "m + n + d - 1 < d * Suc (cdiv m d + cdiv n d)" by simp
  then have "(m + n + d - 1) div d < Suc (cdiv m d + cdiv n d)"
    using d by (simp add: div_less_iff_less_mult mult.commute)
  then show ?thesis by (simp add: cdiv_def)
qed

lemma ceil_rat_cdiv:
  assumes d: "0 < d"
  shows "\<lceil>(of_nat n :: rat) / of_nat d\<rceil> = int (cdiv n d)"
proof (rule ceiling_unique)
  let ?k = "cdiv n d"
  have k: "n + d - 1 = d * ?k + (n + d - 1) mod d" by (simp add: cdiv_def)
  have r: "(n + d - 1) mod d < d" using d by simp
  from k r d have "n \<le> d * ?k" by linarith
  then have "(of_nat n :: rat) \<le> of_nat (d * ?k)" by (simp only: of_nat_le_iff)
  then show "(of_nat n :: rat) / of_nat d \<le> of_int (int ?k)"
    using d by (simp add: divide_le_eq mult.commute)
  from k r d have "d * ?k < n + d" by linarith
  then have "(of_nat (d * ?k) :: rat) < of_nat (n + d)" by (simp only: of_nat_less_iff)
  then show "of_int (int ?k) - 1 < (of_nat n :: rat) / of_nat d"
    using d by (simp add: less_divide_eq right_diff_distrib mult.commute)
qed

text \<open>
  The rounding of a quotient in thirds or quarters does not cross an integer, so the code's
  \<open>f64\<close> computation is the exact ceiling.
\<close>

lemma ceil_round:
  assumes x: "x = of_nat n / of_nat d" and d: "d \<in> {3, 4}" and n: "0 < n" "n < 2 ^ 49"
  shows "\<lceil>fval (f64_round False x)\<rceil> = int (cdiv n d) \<and> f64_is_finite (f64_round False x)"
proof -
  let ?k = "int (cdiv n d)"
  have ceil: "\<lceil>x\<rceil> = ?k" using ceil_rat_cdiv [of d n] d x by auto
  have pos: "0 < x" using n d x by auto
  have "(of_nat n :: rat) < of_nat (2 ^ 49)" using n(2) by (subst of_nat_less_iff)
  then have "x < 2 ^ 50" using d x by auto
  with pos obtain m where m: "f64_round False x = FFin False m" "\<bar>m - x\<bar> \<le> 1 / 8"
    by (rule f64_round_near)
  have "\<lceil>m\<rceil> = ?k"
  proof (cases "x = of_int ?k")
    case True
    have "?k \<le> int n" using d by (auto simp: cdiv_def)
    then have "cdiv n d < 2 ^ 53" using n(2) by simp
    then have "f64_round False (of_nat (cdiv n d)) = FFin False (of_nat (cdiv n d))"
      by (rule f64_round_nat)
    with True m(1) have "m = of_int ?k" by simp
    then show ?thesis by simp
  next
    case False
    have "d * cdiv n d \<noteq> n"
    proof
      assume "d * cdiv n d = n"
      then have "(of_nat n :: rat) = of_nat d * of_nat (cdiv n d)" by (metis of_nat_mult)
      with False x d show False by auto
    qed
    moreover have "n + d - 1 = d * cdiv n d + (n + d - 1) mod d" by (simp add: cdiv_def)
    moreover have "(n + d - 1) mod d < d" using d by auto
    ultimately have "n + 1 \<le> d * cdiv n d" and "d * cdiv n d + 1 \<le> n + d" by linarith+
    then have "(of_nat (n + 1) :: rat) \<le> of_nat (d * cdiv n d)"
      and "(of_nat (d * cdiv n d + 1) :: rat) \<le> of_nat (n + d)" by (simp_all only: of_nat_le_iff)
    then have "x + 1 / 4 \<le> of_int ?k" and "of_int ?k - 1 + 1 / 4 \<le> x"
      using d x by auto
    then show ?thesis using m(2) by (intro ceiling_unique) linarith+
  qed
  with m(1) show ?thesis by simp
qed

lemma cdiv_0 [simp]: "0 < d \<Longrightarrow> cdiv 0 d = 0"
  by (simp add: cdiv_def)

lemma ceil_div_round:
  assumes r: "r = f64_round False x" and x: "x = of_nat n / of_nat d" and d: "d \<in> {3, 4}"
    and n: "n < 2 ^ 49"
  shows "f64_to_usize (f64_ceil r) = cdiv n d"
proof (cases "n = 0")
  case True
  then show ?thesis
    using d unfolding r x by (auto simp: f64_round_def f64_ceil_def f64_of_rat_def)
next
  case False
  then obtain m where m: "r = FFin False m" "\<lceil>m\<rceil> = int (cdiv n d)"
    using ceil_round [OF x d _ n] by (cases r) (auto simp: r f64_round_def Let_def split: if_splits)
  have k: "cdiv n d < 2 ^ 53"
  proof -
    have "cdiv n d \<le> n" using d by (auto simp: cdiv_def)
    with n show ?thesis by simp
  qed
  have ceil: "f64_ceil r = f64_of_int (int (cdiv n d))"
    by (simp add: f64_ceil_def m f64_of_int_def)
  have "f64_of_int (int (cdiv n d)) = FFin False (of_nat (cdiv n d))"
    using k by (simp add: f64_of_int_exact)
  with ceil k show ?thesis by (simp add: usize_max_def)
qed

lemma ceil_div_exact:
  assumes "n < 2 ^ 48"
  shows "ceil_div n f64_1_5 = cdiv (2 * n) 3" and "ceil_div n f64_4 = cdiv n 4"
proof -
  have n: "f64_of_nat n = FFin False (of_nat n)"
    using assms by (simp add: f64_of_nat_def f64_of_int_exact)
  show "ceil_div n f64_1_5 = cdiv (2 * n) 3"
    unfolding ceil_div_def f64_1_5_def n
    by (rule ceil_div_round [OF _ refl]) (use assms in \<open>simp_all add: mult.commute\<close>)
  show "ceil_div n f64_4 = cdiv n 4"
    unfolding ceil_div_def f64_4_def n
    by (rule ceil_div_round [OF _ refl]) (use assms in simp_all)
qed

definition cjk_count :: "string \<Rightarrow> nat" where
  "cjk_count s = length (filter is_cjk (chars_of s))"

definition latin_count :: "string \<Rightarrow> nat" where
  "latin_count s = length (filter is_latin (chars_of s))"

lemma length_chars_of: "length (chars_of s) \<le> length s"
proof (induction s rule: chars_of.induct)
  case (2 c cs)
  have "length (dropWhile is_cont_byte cs) \<le> length cs" by (rule length_dropWhile_le)
  with 2 show ?case by simp
qed simp

lemma char_counts_le: "cjk_count s \<le> length s" "latin_count s \<le> length s"
  unfolding cjk_count_def latin_count_def
  by (rule order_trans [OF length_filter_le length_chars_of])+

definition token_estimate :: "nat \<Rightarrow> nat \<Rightarrow> bool \<Rightarrow> nat" where
  "token_estimate c l visible =
     (let k = cdiv (2 * c) 3 + cdiv l 4 in if k = 0 \<and> visible then 1 else k)"

lemma token_count_exact:
  assumes "length s < 2 ^ 48"
  shows "token_count s = token_estimate (cjk_count s) (latin_count s) (trim s \<noteq> [])"
proof -
  have "cjk_count s < 2 ^ 48" and "latin_count s < 2 ^ 48"
    using assms char_counts_le [of s] by linarith+
  then show ?thesis
    by (simp only: token_count_def token_estimate_def cjk_count_def latin_count_def ceil_div_exact Let_def)
qed

section \<open>Concatenation\<close>

text \<open>A string that starts at a character boundary.\<close>

definition starts_clean :: "string \<Rightarrow> bool" where
  "starts_clean s \<longleftrightarrow> (case s of [] \<Rightarrow> True | c # cs \<Rightarrow> \<not> is_cont_byte c)"

lemma starts_clean_Nil [simp]: "starts_clean []"
  by (simp add: starts_clean_def)

lemma starts_clean_takeWhile:
  "starts_clean t \<Longrightarrow> takeWhile is_cont_byte (s @ t) = takeWhile is_cont_byte s"
  by (induction s) (auto simp: starts_clean_def split: list.splits)

lemma starts_clean_dropWhile:
  "starts_clean t \<Longrightarrow> dropWhile is_cont_byte (s @ t) = dropWhile is_cont_byte s @ t"
  by (induction s) (auto simp: starts_clean_def split: list.splits)

lemma chars_of_append: "starts_clean t \<Longrightarrow> chars_of (s @ t) = chars_of s @ chars_of t"
proof (induction s rule: chars_of.induct)
  case (2 c cs)
  then show ?case by (simp add: starts_clean_takeWhile starts_clean_dropWhile)
qed simp

lemma cjk_count_append: "starts_clean t \<Longrightarrow> cjk_count (s @ t) = cjk_count s + cjk_count t"
  by (simp add: cjk_count_def chars_of_append)

lemma latin_count_append: "starts_clean t \<Longrightarrow> latin_count (s @ t) = latin_count s + latin_count t"
  by (simp add: latin_count_def chars_of_append)

text \<open>A glue that counts nothing: white space and ASCII punctuation.\<close>

definition silent :: "string \<Rightarrow> bool" where
  "silent g \<longleftrightarrow> list_all (\<lambda>c. \<not> is_cjk c \<and> \<not> is_latin c) (chars_of g)"

lemma silent_counts: "silent g \<Longrightarrow> cjk_count g = 0 \<and> latin_count g = 0"
  by (simp add: silent_def cjk_count_def latin_count_def list_all_iff)

lemma token_estimate_mono:
  "token_estimate c l v \<le> token_estimate c' l' v'"
  if "c \<le> c'" "l \<le> l'" "v \<Longrightarrow> v'"
proof -
  have "cdiv (2 * c) 3 \<le> cdiv (2 * c') 3" and "cdiv l 4 \<le> cdiv l' 4"
    using that unfolding cdiv_def by (intro div_le_mono; simp)+
  then show ?thesis using that(3) by (simp add: token_estimate_def Let_def)
qed

lemma token_estimate_add:
  "token_estimate (c + c') (l + l') v \<le> token_estimate c l u + token_estimate c' l' True"
proof -
  have "cdiv (2 * (c + c')) 3 \<le> cdiv (2 * c) 3 + cdiv (2 * c') 3"
    and "cdiv (l + l') 4 \<le> cdiv l 4 + cdiv l' 4"
    using cdiv_add [of 3 "2 * c" "2 * c'"] cdiv_add [of 4 l l'] by (simp_all add: distrib_left)
  then show ?thesis by (simp add: token_estimate_def Let_def)
qed

text \<open>Joining a section to a text never counts more than the two apart.\<close>

lemma token_count_join:
  assumes "length (a @ g @ b) < 2 ^ 48" and "silent g" and "starts_clean g" and "starts_clean b"
    and "starts_clean (g @ b)" and "trim b \<noteq> []"
  shows "token_count (a @ g @ b) \<le> token_count a + token_count b"
  using assms silent_counts [OF assms(2)]
    token_estimate_add [of "cjk_count a" "cjk_count b" "latin_count a" "latin_count b"]
  by (simp add: token_count_exact cjk_count_append latin_count_append)

end
