(* ===== verification/Chunk_Text.thy ===== *)
theory Chunk_Text
  imports Chunk_Tokens Rust_Json
begin

text \<open>
  The text tools of the chunkers: the delimiter field of \<^verbatim>\<open>src/chunk/delim.rs\<close>, the sentence split of
  \<^verbatim>\<open>src/chunk/sentence.rs\<close>, the position tags of \<^verbatim>\<open>src/chunk/position.rs\<close>. The \<open>regex\<close> and \<open>serde_json\<close> crates
  are parameters. What the code relies on is their documentation: matches are in order, do not
  overlap, and lie on character boundaries (\<open>regex_sound\<close>); an alternation of escaped words
  matches those words, leftmost and first alternative first (\<open>literal_regex\<close>).
\<close>

section \<open>The crates\<close>

text \<open>The spans of the groups of one match; group 0 is the whole match.\<close>

type_synonym captures = "(nat \<times> nat) option list"

record regex =
  rx_captures :: "string \<Rightarrow> captures list"
  rx_split :: "string \<Rightarrow> string list"
  rx_remove_all :: "string \<Rightarrow> string"

record text_crates =
  rx_new :: "string \<Rightarrow> regex option"
  rx_escape :: "string \<Rightarrow> string"
  json_parse :: "string \<Rightarrow> json option"
  json_print :: "json \<Rightarrow> string"

definition cap_get :: "captures \<Rightarrow> nat \<Rightarrow> (nat \<times> nat) option" where
  "cap_get c i = (if i < length c then c ! i else None)"

definition find_iter :: "regex \<Rightarrow> string \<Rightarrow> (nat \<times> nat) list" where
  "find_iter r s = List.map_filter (\<lambda>c. cap_get c 0) (rx_captures r s)"

definition is_match :: "regex \<Rightarrow> string \<Rightarrow> bool" where
  "is_match r s \<longleftrightarrow> rx_captures r s \<noteq> []"

text \<open>\<open>&s[a..b]\<close>.\<close>

definition str_slice :: "string \<Rightarrow> nat \<Rightarrow> nat \<Rightarrow> string res" where
  "str_slice s a b =
     (if a \<le> b \<and> is_char_boundary s a \<and> is_char_boundary s b then Ok (take (b - a) (drop a s)) else Panic)"

section \<open>UTF-8\<close>

text \<open>The shape of an encoded character, and of a text of them.\<close>

definition utf8_char :: "string \<Rightarrow> bool" where
  "utf8_char e =
     (case e of
        [] \<Rightarrow> False
      | c # cs \<Rightarrow> list_all is_cont_byte cs \<and>
          (byte_val c < 128 \<and> length cs = 0 \<or> in_range 192 223 (byte_val c) \<and> length cs = 1
           \<or> in_range 224 239 (byte_val c) \<and> length cs = 2 \<or> in_range 240 247 (byte_val c) \<and> length cs = 3))"

definition is_utf8 :: "string \<Rightarrow> bool" where
  "is_utf8 s = list_all utf8_char (chars_of s)"

lemma is_utf8_Nil [simp]: "is_utf8 []"
  by (simp add: is_utf8_def)

lemma is_utf8_Cons:
  "is_utf8 (c # cs) \<longleftrightarrow> utf8_char (c # takeWhile is_cont_byte cs) \<and> is_utf8 (dropWhile is_cont_byte cs)"
  by (simp add: is_utf8_def)

lemma utf8_char_lead: "utf8_char (c # cs) \<Longrightarrow> \<not> is_cont_byte c"
  by (auto simp: utf8_char_def is_cont_byte_def byte_val_def in_range_def)

lemma is_utf8_clean: "is_utf8 s \<Longrightarrow> starts_clean s"
  by (cases s) (auto simp: is_utf8_Cons starts_clean_def dest: utf8_char_lead)

lemma starts_clean_tw: "starts_clean s \<Longrightarrow> takeWhile is_cont_byte s = [] \<and> dropWhile is_cont_byte s = s"
  by (cases s) (auto simp: starts_clean_def)

lemma is_utf8_encoding:
  assumes "utf8_char e"
  shows "is_utf8 e" and "chars_of e = [e]"
proof -
  obtain c cs where e: "e = c # cs" using assms by (cases e) (auto simp: utf8_char_def)
  then have "list_all is_cont_byte cs" using assms by (simp add: utf8_char_def)
  then have "takeWhile is_cont_byte cs = cs" and "dropWhile is_cont_byte cs = []"
    by (simp_all add: list_all_iff)
  then show "chars_of e = [e]" by (simp only: e chars_of.simps)
  then show "is_utf8 e" using assms by (simp add: is_utf8_def)
qed

lemma is_utf8_split: "starts_clean t \<Longrightarrow> is_utf8 (s @ t) \<longleftrightarrow> is_utf8 s \<and> is_utf8 t"
  by (simp add: is_utf8_def chars_of_append)

lemma is_utf8_append: "is_utf8 t \<Longrightarrow> is_utf8 (s @ t) \<longleftrightarrow> is_utf8 s"
  by (auto simp: is_utf8_def chars_of_append [OF is_utf8_clean])

text \<open>An ASCII byte stands alone.\<close>

lemma is_utf8_ascii: "byte_val c < 128 \<Longrightarrow> is_utf8 (c # cs) \<longleftrightarrow> is_utf8 cs"
proof
  assume "is_utf8 (c # cs)" and "byte_val c < 128"
  then have "takeWhile is_cont_byte cs = []" and "is_utf8 (dropWhile is_cont_byte cs)"
    by (auto simp: is_utf8_Cons utf8_char_def in_range_def)
  then show "is_utf8 cs"
    by (metis append_Nil takeWhile_dropWhile_id)
next
  assume "is_utf8 cs" and "byte_val c < 128"
  then show "is_utf8 (c # cs)"
    using starts_clean_tw [OF is_utf8_clean [of cs]] by (simp add: is_utf8_Cons utf8_char_def)
qed

lemma is_utf8_ascii_append:
  "list_all (\<lambda>c. byte_val c < 128) a \<Longrightarrow> is_utf8 (a @ t) \<longleftrightarrow> is_utf8 t"
  by (induction a) (auto simp: is_utf8_ascii)

section \<open>What the crates document\<close>

text \<open>Spans from offset \<open>i\<close> on: ordered, apart, in the text, on character boundaries.\<close>

fun spans_from :: "nat \<Rightarrow> string \<Rightarrow> (nat \<times> nat) list \<Rightarrow> bool" where
  "spans_from i s [] \<longleftrightarrow> is_char_boundary s i"
| "spans_from i s ((a, b) # ms) \<longleftrightarrow>
     i \<le> a \<and> a \<le> b \<and> is_char_boundary s i \<and> is_char_boundary s a \<and> spans_from b s ms"

text \<open>The text between the spans.\<close>

fun between :: "nat \<Rightarrow> string \<Rightarrow> (nat \<times> nat) list \<Rightarrow> string list" where
  "between i s [] = [drop i s]"
| "between i s ((a, b) # ms) = take (a - i) (drop i s) # between b s ms"

definition group_ok :: "string \<Rightarrow> captures \<Rightarrow> bool" where
  "group_ok s c \<longleftrightarrow>
     cap_get c 0 \<noteq> None \<and>
     list_all (\<lambda>g. case g of None \<Rightarrow> True
        | Some (a, b) \<Rightarrow> a \<le> b \<and> is_char_boundary s a \<and> is_char_boundary s b) c"

definition regex_sound :: "regex \<Rightarrow> bool" where
  "regex_sound r \<longleftrightarrow>
     (\<forall>s. is_utf8 s \<longrightarrow> spans_from 0 s (find_iter r s)
        \<and> rx_split r s = between 0 s (find_iter r s)
        \<and> rx_remove_all r s = concat (between 0 s (find_iter r s))
        \<and> list_all (group_ok s) (rx_captures r s))"

text \<open>The leftmost occurrences of one of several words, the first word that fits winning.\<close>

function word_spans :: "string list \<Rightarrow> nat \<Rightarrow> string \<Rightarrow> (nat \<times> nat) list" where
  "word_spans ws i s =
     (case s of
        [] \<Rightarrow> []
      | c # cs \<Rightarrow>
          (case find (\<lambda>w. w \<noteq> [] \<and> prefix w s) ws of
             None \<Rightarrow> word_spans ws (i + 1) cs
           | Some w \<Rightarrow> (i, i + length w) # word_spans ws (i + length w) (drop (length w) s)))"
  by pat_completeness auto
termination
proof (relation "measure (\<lambda>(ws, i, s). length s)", goal_cases)
  case (3 ws i s c cs w)
  then have "w \<noteq> []" by (auto dest: find_SomeD)
  with 3 show ?case by (cases w) auto
qed auto

declare word_spans.simps [simp del]

definition literal_regex :: "text_crates \<Rightarrow> bool" where
  "literal_regex tc \<longleftrightarrow>
     (\<forall>ws. ws \<noteq> [] \<and> list_all (\<lambda>w. w \<noteq> [] \<and> is_utf8 w) ws \<longrightarrow>
        (\<exists>r. rx_new tc ([CHR 0x28] @ join_with [CHR 0x7C] (map (rx_escape tc) ws) @ [CHR 0x29]) = Some r
           \<and> (\<forall>s. find_iter r s = word_spans ws 0 s)))"

section \<open>Cutting at spans\<close>

text \<open>\<open>split_keep_delimiters\<close>: every piece but the last ends with its delimiter.\<close>

fun keep_loop :: "string \<Rightarrow> nat \<Rightarrow> (nat \<times> nat) list \<Rightarrow> string list res" where
  "keep_loop s i [] = (if i < length s then res_map (\<lambda>p. [p]) (slice_from s i) else Ok [])"
| "keep_loop s i ((a, e) # ms) = res_bind (str_slice s i e) (\<lambda>p. res_map ((#) p) (keep_loop s e ms))"

text \<open>\<open>split_sentences_keep_boundaries\<close>: no empty piece.\<close>

fun sentence_loop :: "string \<Rightarrow> nat \<Rightarrow> (nat \<times> nat) list \<Rightarrow> string list res" where
  "sentence_loop s cursor [] = (if cursor < length s then res_map (\<lambda>p. [p]) (slice_from s cursor) else Ok [])"
| "sentence_loop s cursor ((a, e) # ms) =
     (if cursor < e then res_bind (str_slice s cursor e) (\<lambda>p. res_map ((#) p) (sentence_loop s e ms))
      else sentence_loop s e ms)"

text \<open>
  The pattern of \<open>SENTENCE_BOUNDARY_PATTERN\<close> after \<open>(?s)\<close>: the marks of Chinese and English sentences,
  the line feed, and a full stop followed by a blank.
\<close>

definition SENTENCE_BOUNDARY_PATTERN :: string where
  "SENTENCE_BOUNDARY_PATTERN =
     ''([''
     @ [CHR 0xE3, CHR 0x80, CHR 0x82] @ ''!?''
     @ [CHR 0xEF, CHR 0xBC, CHR 0x9F] @ [CHR 0xEF, CHR 0xBC, CHR 0x9B] @ [CHR 0xEF, CHR 0xBC, CHR 0x81]
     @ [CHR 0x5C] @ ''n]|'' @ [CHR 0x5C] @ ''. )''"

definition split_sentences_keep_boundaries :: "text_crates \<Rightarrow> string \<Rightarrow> string list res" where
  "split_sentences_keep_boundaries tc text =
     (case rx_new tc (''(?s)'' @ SENTENCE_BOUNDARY_PATTERN) of
        None \<Rightarrow> Panic
      | Some r \<Rightarrow> sentence_loop text 0 (find_iter r text))"

lemma str_slice_spans:
  assumes "spans_from i s ((a, b) # ms)"
  shows "str_slice s i b = Ok (take (b - i) (drop i s))" and "i \<le> b" and "b \<le> length s"
proof -
  have "is_char_boundary s b" using assms by (cases ms) auto
  with assms show "str_slice s i b = Ok (take (b - i) (drop i s))" and "i \<le> b" and "b \<le> length s"
    by (auto simp: str_slice_def is_char_boundary_def)
qed

lemma spans_fromD: "spans_from i s ms \<Longrightarrow> is_char_boundary s i \<and> i \<le> length s"
  by (cases "(i, s, ms)" rule: spans_from.cases) (auto simp: is_char_boundary_def)

lemma take_drop_drop: "i \<le> b \<Longrightarrow> b \<le> length s \<Longrightarrow> take (b - i) (drop i s) @ drop b s = drop i s"
  by (metis append_take_drop_id drop_drop le_add_diff_inverse2)

text \<open>Cutting loses nothing and never slices inside a character.\<close>

lemma keep_loop_ok:
  "spans_from i s ms \<Longrightarrow> \<exists>ps. keep_loop s i ms = Ok ps \<and> concat ps = drop i s"
proof (induction s i ms rule: keep_loop.induct)
  case (1 s i)
  then show ?case by (auto simp: slice_from_def)
next
  case (2 s i a e ms)
  note sl = str_slice_spans [OF 2(2)]
  from 2 obtain ps where "keep_loop s e ms = Ok ps" "concat ps = drop e s"
    using sl by auto
  with sl take_drop_drop [OF sl(2,3)] show ?case by simp
qed

lemma sentence_loop_ok:
  "spans_from i s ms \<Longrightarrow> \<exists>ps. sentence_loop s i ms = Ok ps \<and> concat ps = drop i s \<and> [] \<notin> set ps"
proof (induction s i ms rule: sentence_loop.induct)
  case (1 s cursor)
  then show ?case by (auto simp: slice_from_def)
next
  case (2 s cursor a e ms)
  note sl = str_slice_spans [OF 2(3)]
  from 2(3) have "spans_from e s ms" by simp
  then show ?case
  proof (cases "cursor < e")
    case True
    with 2 sl \<open>spans_from e s ms\<close> obtain ps
      where "sentence_loop s e ms = Ok ps" "concat ps = drop e s" "[] \<notin> set ps" by auto
    with True sl take_drop_drop [OF sl(2,3)] show ?thesis by auto
  next
    case False
    with sl(2) have "e = cursor" by simp
    with 2 False \<open>spans_from e s ms\<close> show ?thesis by simp
  qed
qed

section \<open>The delimiter field\<close>

text \<open>\<open>s.replace(old, new)\<close> for a non-empty \<open>old\<close>.\<close>

function str_replace :: "string \<Rightarrow> string \<Rightarrow> string \<Rightarrow> string" where
  "str_replace old new s =
     (case s of
        [] \<Rightarrow> []
      | c # cs \<Rightarrow> if old \<noteq> [] \<and> prefix old s then new @ str_replace old new (drop (length old) s)
                  else c # str_replace old new cs)"
  by pat_completeness auto
termination
proof (relation "measure (\<lambda>(old, new, s). length s)", goal_cases)
  case (2 old new s c cs)
  then show ?case by (cases old) auto
qed auto

declare str_replace.simps [simp del]

abbreviation LF :: string where "LF \<equiv> [CHR 0x0A]"
abbreviation CR :: string where "CR \<equiv> [CHR 0x0D]"

definition normalize_text_newlines :: "string \<Rightarrow> string" where
  "normalize_text_newlines text =
     (if text = [] then text else str_replace CR LF (str_replace (CR @ LF) LF text))"

definition BACKTICK_PATTERN :: string where
  "BACKTICK_PATTERN = [CHR 0x60] @ ''([^'' @ [CHR 0x60] @ '']+)'' @ [CHR 0x60]"

text \<open>\<open>Regex::new(..).expect(..)\<close>.\<close>

definition expect_regex :: "text_crates \<Rightarrow> string \<Rightarrow> regex res" where
  "expect_regex tc p = (case rx_new tc p of None \<Rightarrow> Panic | Some r \<Rightarrow> Ok r)"

definition has_wrapped_delimiter :: "text_crates \<Rightarrow> string \<Rightarrow> bool res" where
  "has_wrapped_delimiter tc field =
     (if field = [] then Ok False
      else res_map (\<lambda>r. is_match r field) (expect_regex tc BACKTICK_PATTERN))"

text \<open>The delimiters so far, in order of insertion, and the set of them.\<close>

type_synonym delim_state = "string list \<times> string set"

definition insert_delim :: "string \<Rightarrow> delim_state \<Rightarrow> delim_state" where
  "insert_delim value st =
     (case st of (ds, seen) \<Rightarrow> if value \<in> seen then st else (ds @ [value], insert value seen))"

definition insert_bare :: "string \<Rightarrow> delim_state \<Rightarrow> delim_state" where
  "insert_bare text st = fold insert_delim (chars_of text) st"

fun delim_loop :: "string \<Rightarrow> nat \<Rightarrow> captures list \<Rightarrow> delim_state \<Rightarrow> delim_state res" where
  "delim_loop s cursor [] st = res_map (\<lambda>t. insert_bare t st) (slice_from s cursor)"
| "delim_loop s cursor (c # caps) st =
     (case cap_get c 0 of
        None \<Rightarrow> delim_loop s cursor caps st
      | Some (a, b) \<Rightarrow>
          res_bind (str_slice s cursor a) (\<lambda>t.
            res_bind (case cap_get c 1 of None \<Rightarrow> Ok [] | Some (ga, gb) \<Rightarrow> str_slice s ga gb) (\<lambda>tok.
              let st1 = insert_bare t st;
                  st2 = (if tok = [] then st1 else insert_delim tok st1)
              in delim_loop s b caps st2)))"

text \<open>\<open>sort_by\<close> is stable: longest first, in characters.\<close>

definition parse_delimiter_field :: "text_crates \<Rightarrow> string \<Rightarrow> string list res" where
  "parse_delimiter_field tc field =
     (if field = [] then Ok []
      else let normalized = normalize_text_newlines field
           in res_bind (expect_regex tc BACKTICK_PATTERN) (\<lambda>r.
                res_map (\<lambda>(ds, seen). sort_key (\<lambda>d. - int (length (chars_of d))) ds)
                  (delim_loop normalized 0 (rx_captures r normalized) ([], {}))))"

definition compile_delimiter_pattern :: "text_crates \<Rightarrow> string list \<Rightarrow> string" where
  "compile_delimiter_pattern tc delimiters =
     join_with [CHR 0x7C] (map (rx_escape tc) (filter (\<lambda>d. d \<noteq> []) delimiters))"

definition delimiter_regex :: "text_crates \<Rightarrow> string \<Rightarrow> regex option res" where
  "delimiter_regex tc field =
     res_map (\<lambda>ds. let pattern = compile_delimiter_pattern tc ds
                   in if pattern = [] then None
                      else rx_new tc ([CHR 0x28] @ pattern @ [CHR 0x29]))
       (parse_delimiter_field tc field)"

section \<open>The delimiter field against its grammar\<close>

text \<open>
  The tokens of a field as the grammar reads them: a pair of backticks with something between them
  is one token, every other character is its own.
\<close>

function field_tokens :: "string \<Rightarrow> string list" where
  "field_tokens s =
     (case s of
        [] \<Rightarrow> []
      | c # cs \<Rightarrow>
          let word = takeWhile (\<lambda>d. d \<noteq> CHR 0x60) cs; rest = dropWhile (\<lambda>d. d \<noteq> CHR 0x60) cs
          in if c = CHR 0x60 \<and> word \<noteq> [] \<and> rest \<noteq> [] then word # field_tokens (tl rest)
             else (c # takeWhile is_cont_byte cs) # field_tokens (dropWhile is_cont_byte cs))"
  by pat_completeness auto
termination
proof (relation "measure length", goal_cases)
  case (2 s c cs word rest)
  have "length (dropWhile (\<lambda>d. d \<noteq> CHR 0x60) cs) \<le> length cs" by (rule length_dropWhile_le)
  with 2 show ?case by simp
next
  case (3 s c cs word rest)
  have "length (dropWhile is_cont_byte cs) \<le> length cs" by (rule length_dropWhile_le)
  with 3 show ?case by simp
qed auto

declare field_tokens.simps [simp del]

text \<open>The matches of the pattern of a backtick-wrapped word, as the crate documents them.\<close>

function backtick_captures :: "nat \<Rightarrow> string \<Rightarrow> captures list" where
  "backtick_captures i s =
     (case s of
        [] \<Rightarrow> []
      | c # cs \<Rightarrow>
          let word = takeWhile (\<lambda>d. d \<noteq> CHR 0x60) cs; rest = dropWhile (\<lambda>d. d \<noteq> CHR 0x60) cs;
              n = length word
          in if c = CHR 0x60 \<and> word \<noteq> [] \<and> rest \<noteq> []
             then [Some (i, i + n + 2), Some (i + 1, i + n + 1)] # backtick_captures (i + n + 2) (tl rest)
             else backtick_captures (i + 1) cs)"
  by pat_completeness auto
termination
proof (relation "measure (\<lambda>(i, s). length s)", goal_cases)
  case (2 i s c cs word rest n)
  have "length (dropWhile (\<lambda>d. d \<noteq> CHR 0x60) cs) \<le> length cs" by (rule length_dropWhile_le)
  with 2 show ?case by simp
qed auto

declare backtick_captures.simps [simp del]

definition backtick_regex :: "text_crates \<Rightarrow> bool" where
  "backtick_regex tc \<longleftrightarrow>
     (\<exists>r. rx_new tc BACKTICK_PATTERN = Some r \<and> (\<forall>s. rx_captures r s = backtick_captures 0 s))"

section \<open>Replacing in UTF-8 texts\<close>

lemma cont_not_ascii: "is_cont_byte c \<Longrightarrow> \<not> byte_val c < 128"
  by (auto simp: is_cont_byte_def byte_val_def)

text \<open>Replacing ASCII words leaves the continuation bytes where they are.\<close>

lemma str_replace_conts:
  assumes "list_all is_cont_byte k" and "list_all (\<lambda>c. byte_val c < 128) old"
  shows "str_replace old new (k @ t) = k @ str_replace old new t"
  using assms(1)
proof (induction k)
  case (Cons c k)
  have "\<not> (old \<noteq> [] \<and> prefix old ((c # k) @ t))"
    using Cons.prems assms(2) cont_not_ascii [of c] by (cases old) auto
  with Cons show ?case by (subst str_replace.simps) (simp only: append_Cons list.case if_False, simp)
qed simp

lemma str_replace_hit: "old \<noteq> [] \<Longrightarrow> str_replace old new (old @ t) = new @ str_replace old new t"
  by (cases old; subst str_replace.simps) auto

lemma str_replace_miss:
  "\<not> (old \<noteq> [] \<and> prefix old (c # cs)) \<Longrightarrow> str_replace old new (c # cs) = c # str_replace old new cs"
  by (subst str_replace.simps) (simp only: list.case if_False)

lemma is_utf8_str_replace:
  assumes a: "list_all (\<lambda>c. byte_val c < 128) old" "list_all (\<lambda>c. byte_val c < 128) new"
  shows "is_utf8 s \<Longrightarrow> is_utf8 (str_replace old new s)"
proof (induction s rule: measure_induct_rule [of length])
  case (less s)
  show ?case
  proof (cases s)
    case Nil
    then show ?thesis by (simp add: str_replace.simps)
  next
    case (Cons c cs)
    show ?thesis
    proof (cases "old \<noteq> [] \<and> prefix old s")
      case True
      then obtain t where t: "s = old @ t" by (auto simp: prefix_def)
      with less.prems a(1) have "is_utf8 t" by (simp add: is_utf8_ascii_append)
      moreover have "length t < length s" using True t by simp
      ultimately have "is_utf8 (str_replace old new t)" by (rule less.IH [rotated])
      moreover have "str_replace old new s = new @ str_replace old new t"
        using True t by (simp add: str_replace_hit)
      ultimately show ?thesis using a(2) by (simp add: is_utf8_ascii_append)
    next
      case False
      let ?k = "takeWhile is_cont_byte cs" and ?t = "dropWhile is_cont_byte cs"
      have u: "utf8_char (c # ?k)" "is_utf8 ?t" using less.prems Cons by (simp_all add: is_utf8_Cons)
      have k: "list_all is_cont_byte ?k" by (auto simp: list_all_iff dest: set_takeWhileD)
      have "length ?t < length s" using length_dropWhile_le [of is_cont_byte cs] Cons by simp
      then have ut: "is_utf8 (str_replace old new ?t)" using u(2) by (rule less.IH)
      have "str_replace old new s = c # str_replace old new (?k @ ?t)"
        using False unfolding Cons takeWhile_dropWhile_id by (rule str_replace_miss)
      then have "str_replace old new s = (c # ?k) @ str_replace old new ?t"
        by (simp only: str_replace_conts [OF k a(1)] append_Cons)
      moreover have "is_utf8 (c # ?k)" using u(1) by (rule is_utf8_encoding)
      ultimately show ?thesis using ut by (simp only: is_utf8_append)
    qed
  qed
qed

lemma is_utf8_normalize: "is_utf8 s \<Longrightarrow> is_utf8 (normalize_text_newlines s)"
  by (simp add: normalize_text_newlines_def is_utf8_str_replace byte_val_def)

section \<open>The parser of the field meets its grammar\<close>

lemma boundary_utf8: "is_utf8 t \<Longrightarrow> is_char_boundary (p @ t) (length p)"
  using is_utf8_clean [of t] by (cases t) (auto simp: is_char_boundary_def starts_clean_def nth_append)

lemma str_slice_mid:
  "is_utf8 b \<Longrightarrow> is_utf8 (a @ b) \<Longrightarrow> str_slice (p @ a @ b) (length p) (length p + length a) = Ok a"
  using boundary_utf8 [of "a @ b" p] boundary_utf8 [of b "p @ a"] by (simp add: str_slice_def)

lemma backtick_captures_skip:
  "CHR 0x60 \<notin> set k \<Longrightarrow> backtick_captures i (k @ t) = backtick_captures (i + length k) t"
proof (induction k arbitrary: i)
  case (Cons c k)
  then show ?case by (subst backtick_captures.simps) auto
qed simp

lemma insert_bare_append:
  "starts_clean t \<Longrightarrow> insert_bare (s @ t) st = insert_bare t (insert_bare s st)"
  by (simp add: insert_bare_def chars_of_append)

lemma backtick_captures_ne:
  "c \<noteq> CHR 0x60 \<Longrightarrow> backtick_captures i (c # cs) = backtick_captures (i + 1) cs"
  by (subst backtick_captures.simps) simp

lemma backtick_captures_hit:
  assumes "w \<noteq> []" and "CHR 0x60 \<notin> set w"
  shows "backtick_captures i (CHR 0x60 # w @ CHR 0x60 # u) =
     [Some (i, i + length w + 2), Some (i + 1, i + length w + 1)] # backtick_captures (i + length w + 2) u"
proof -
  have "takeWhile (\<lambda>d. d \<noteq> CHR 0x60) (w @ CHR 0x60 # u) = w"
    and "dropWhile (\<lambda>d. d \<noteq> CHR 0x60) (w @ CHR 0x60 # u) = CHR 0x60 # u"
    using assms(2) by (induction w) auto
  then show ?thesis
    using assms(1) by (subst backtick_captures.simps) (simp only: list.case Let_def if_True simp_thms list.sel list.distinct)
qed

lemma backtick_captures_miss:
  assumes "\<not> (c = CHR 0x60 \<and> takeWhile (\<lambda>d. d \<noteq> CHR 0x60) cs \<noteq> [] \<and> dropWhile (\<lambda>d. d \<noteq> CHR 0x60) cs \<noteq> [])"
  shows "backtick_captures i (c # cs) = backtick_captures (i + 1) cs"
  using assms by (subst backtick_captures.simps) (simp only: list.case Let_def if_False)

lemma field_tokens_hit:
  assumes "w \<noteq> []" and "CHR 0x60 \<notin> set w"
  shows "field_tokens (CHR 0x60 # w @ CHR 0x60 # u) = w # field_tokens u"
proof -
  have "takeWhile (\<lambda>d. d \<noteq> CHR 0x60) (w @ CHR 0x60 # u) = w"
    and "dropWhile (\<lambda>d. d \<noteq> CHR 0x60) (w @ CHR 0x60 # u) = CHR 0x60 # u"
    using assms(2) by (induction w) auto
  then show ?thesis
    using assms(1) by (subst field_tokens.simps) (simp only: list.case Let_def if_True simp_thms list.sel list.distinct)
qed

lemma field_tokens_miss:
  assumes "\<not> (c = CHR 0x60 \<and> takeWhile (\<lambda>d. d \<noteq> CHR 0x60) cs \<noteq> [] \<and> dropWhile (\<lambda>d. d \<noteq> CHR 0x60) cs \<noteq> [])"
  shows "field_tokens (c # cs) = (c # takeWhile is_cont_byte cs) # field_tokens (dropWhile is_cont_byte cs)"
  using assms by (subst field_tokens.simps) (simp only: list.case Let_def if_False)

lemma delim_loop_step:
  assumes "is_utf8 pre" and "is_utf8 (w @ CHR 0x60 # u)" and "is_utf8 u" and w: "w \<noteq> []" "CHR 0x60 \<notin> set w"
  defines "t \<equiv> CHR 0x60 # w @ CHR 0x60 # u"
  shows "delim_loop (p @ pre @ t) (length p) (backtick_captures (length p + length pre) t) st
    = (let q = p @ pre @ [CHR 0x60] @ w @ [CHR 0x60]
       in delim_loop (q @ u) (length q) (backtick_captures (length q) u) (insert_delim w (insert_bare pre st)))"
proof -
  let ?s = "p @ pre @ t" and ?i = "length p + length pre"
  have ut: "is_utf8 t" using assms(2) by (simp add: t_def is_utf8_ascii byte_val_def)
  then have sl1: "str_slice ?s (length p) ?i = Ok pre"
    using assms(1) by (intro str_slice_mid) (simp_all add: is_utf8_append)
  have "str_slice ((p @ pre @ [CHR 0x60]) @ w @ (CHR 0x60 # u)) (length (p @ pre @ [CHR 0x60]))
      (length (p @ pre @ [CHR 0x60]) + length w) = Ok w"
    by (rule str_slice_mid) (use assms(2,3) in \<open>simp_all add: is_utf8_ascii byte_val_def\<close>)
  then have sl2: "str_slice ?s (?i + 1) (?i + length w + 1) = Ok w"
    by (simp add: t_def ac_simps)
  have len: "length (p @ pre @ [CHR 0x60] @ w @ [CHR 0x60]) = ?i + length w + 2" by simp
  have eq: "(p @ pre @ [CHR 0x60] @ w @ [CHR 0x60]) @ u = ?s" by (simp add: t_def)
  have caps: "backtick_captures ?i t = [Some (?i, ?i + length w + 2), Some (?i + 1, ?i + length w + 1)]
      # backtick_captures (?i + length w + 2) u"
    unfolding t_def by (rule backtick_captures_hit [OF w])
  show ?thesis
    unfolding Let_def len eq caps using w(1) sl1 sl2
    by (simp add: cap_get_def)
qed

lemma backtick_split:
  assumes "s = c # cs"
    and "c = CHR 0x60 \<and> takeWhile (\<lambda>d. d \<noteq> CHR 0x60) cs \<noteq> [] \<and> dropWhile (\<lambda>d. d \<noteq> CHR 0x60) cs \<noteq> []"
  obtains u where "s = CHR 0x60 # takeWhile (\<lambda>d. d \<noteq> CHR 0x60) cs @ CHR 0x60 # u"
    and "takeWhile (\<lambda>d. d \<noteq> CHR 0x60) cs \<noteq> []" and "CHR 0x60 \<notin> set (takeWhile (\<lambda>d. d \<noteq> CHR 0x60) cs)"
proof -
  obtain d u where u: "dropWhile (\<lambda>d. d \<noteq> CHR 0x60) cs = d # u"
    using assms(2) by (cases "dropWhile (\<lambda>d. d \<noteq> CHR 0x60) cs") auto
  then have "d = CHR 0x60" using hd_dropWhile [of "\<lambda>d. d \<noteq> CHR 0x60" cs] by simp
  with u assms show thesis
    using takeWhile_dropWhile_id [of "\<lambda>d. d \<noteq> CHR 0x60" cs]
    by (intro that [of u]) (auto dest: set_takeWhileD)
qed

text \<open>
  The loop at a position: the characters since the last match are \<open>pre\<close>, and what it will insert are
  the tokens of the rest.
\<close>

lemma delim_loop_tokens:
  "is_utf8 t \<Longrightarrow> is_utf8 pre \<Longrightarrow>
     delim_loop (p @ pre @ t) (length p) (backtick_captures (length p + length pre) t) st
     = Ok (fold insert_delim (field_tokens t) (insert_bare pre st))"
proof (induction t arbitrary: p pre st rule: measure_induct_rule [of length])
  case (less t)
  show ?case
  proof (cases t)
    case Nil
    have "is_char_boundary (p @ pre) (length p)" using less.prems(2) by (rule boundary_utf8)
    then show ?thesis by (simp add: Nil backtick_captures.simps field_tokens.simps slice_from_def)
  next
    case (Cons c cs)
    let ?word = "takeWhile (\<lambda>d. d \<noteq> CHR 0x60) cs" and ?rest = "dropWhile (\<lambda>d. d \<noteq> CHR 0x60) cs"
    show ?thesis
    proof (cases "c = CHR 0x60 \<and> ?word \<noteq> [] \<and> ?rest \<noteq> []")
      case True
      then obtain u where t: "t = CHR 0x60 # ?word @ CHR 0x60 # u"
        and w: "?word \<noteq> []" "CHR 0x60 \<notin> set ?word"
        by (rule backtick_split [OF Cons])
      have "is_utf8 (?word @ CHR 0x60 # u)"
        using less.prems(1) t is_utf8_ascii [of "CHR 0x60"] by (simp only:) (simp add: byte_val_def)
      moreover have "starts_clean (CHR 0x60 # u)" by (simp add: starts_clean_def is_cont_byte_def)
      ultimately have uw: "is_utf8 (?word @ CHR 0x60 # u)" and uu: "is_utf8 u"
        by (auto simp: is_utf8_split is_utf8_ascii byte_val_def)
      have "length u < length t" by (subst t) simp
      from less.IH [OF this uu is_utf8_Nil] delim_loop_step [OF less.prems(2) uw uu w] field_tokens_hit [OF w]
      show ?thesis by (subst (1 2 3) t) (simp add: Let_def insert_bare_def)
    next
      case False
      let ?k = "takeWhile is_cont_byte cs" and ?r = "dropWhile is_cont_byte cs"
      have e: "utf8_char (c # ?k)" and ur: "is_utf8 ?r"
        using less.prems(1) Cons by (simp_all add: is_utf8_Cons)
      have len: "length ?r < length t" using length_dropWhile_le [of is_cont_byte cs] Cons by simp
      have "CHR 0x60 \<notin> set ?k" by (auto dest: set_takeWhileD simp: is_cont_byte_def)
      then have "backtick_captures (i + 1) (?k @ ?r) = backtick_captures (i + 1 + length ?k) ?r" for i
        by (rule backtick_captures_skip)
      then have caps: "backtick_captures i t = backtick_captures (i + length (c # ?k)) ?r" for i
        using backtick_captures_miss [OF False] Cons by (simp only: takeWhile_dropWhile_id) simp
      have pre: "is_utf8 (pre @ c # ?k)"
        using less.prems(2) is_utf8_encoding [OF e] by (simp add: is_utf8_append)
      have "insert_bare (pre @ c # ?k) st = insert_delim (c # ?k) (insert_bare pre st)"
        using is_utf8_encoding [OF e]
        by (simp only: insert_bare_append [OF is_utf8_clean]) (simp only: insert_bare_def fold_simps)
      with less.IH [OF len ur pre] field_tokens_miss [OF False] Cons caps show ?thesis
        by (simp add: add.assoc)
    qed
  qed
qed

text \<open>The delimiters are the first occurrences of the tokens, in order.\<close>

definition first_occurrences :: "'a list \<Rightarrow> 'a list" where
  "first_occurrences xs = rev (remdups (rev xs))"

lemma first_occurrences_snoc:
  "first_occurrences (xs @ [x]) = (if x \<in> set xs then first_occurrences xs else first_occurrences xs @ [x])"
  by (simp add: first_occurrences_def)

lemma first_occurrences_set [simp]: "set (first_occurrences xs) = set xs" "distinct (first_occurrences xs)"
  by (simp_all add: first_occurrences_def)

lemma fold_insert_delim:
  "fold insert_delim ts (first_occurrences ps, set ps) = (first_occurrences (ps @ ts), set (ps @ ts))"
proof (induction ts arbitrary: ps)
  case (Cons t ts)
  have "insert_delim t (first_occurrences ps, set ps) = (first_occurrences (ps @ [t]), set (ps @ [t]))"
    by (auto simp: insert_delim_def first_occurrences_snoc insert_absorb)
  with Cons.IH [of "ps @ [t]"] show ?case by simp
qed simp

lemma fold_insert_delim_empty: "fold insert_delim ts ([], {}) = (first_occurrences ts, set ts)"
  using fold_insert_delim [of ts "[]"] by (simp add: first_occurrences_def)

lemma field_tokens_ne: "[] \<notin> set (field_tokens s)"
proof (induction s rule: field_tokens.induct)
  case (1 s)
  show ?case
  proof (cases s)
    case Nil
    then show ?thesis by (simp add: field_tokens.simps)
  next
    case (Cons c cs)
    with 1 show ?thesis by (subst field_tokens.simps) (auto simp: Let_def)
  qed
qed

lemma parse_delimiter_field_eq:
  assumes "backtick_regex tc" and "is_utf8 field"
  shows "parse_delimiter_field tc field
    = Ok (sort_key (\<lambda>d. - int (length (chars_of d)))
            (first_occurrences (field_tokens (normalize_text_newlines field))))"
proof (cases "field = []")
  case True
  then show ?thesis
    by (simp add: parse_delimiter_field_def normalize_text_newlines_def field_tokens.simps first_occurrences_def)
next
  case False
  let ?n = "normalize_text_newlines field"
  obtain r where r: "rx_new tc BACKTICK_PATTERN = Some r" "\<And>s. rx_captures r s = backtick_captures 0 s"
    using assms(1) by (auto simp: backtick_regex_def)
  have "delim_loop ?n 0 (backtick_captures 0 ?n) ([], {})
      = Ok (fold insert_delim (field_tokens ?n) ([], {}))"
    using delim_loop_tokens [OF is_utf8_normalize [OF assms(2)] is_utf8_Nil, of "[]" "([], {})"]
    by (simp add: insert_bare_def)
  with False r show ?thesis
    by (simp add: parse_delimiter_field_def expect_regex_def fold_insert_delim_empty)
qed

lemma field_tokens_utf8: "is_utf8 s \<Longrightarrow> list_all is_utf8 (field_tokens s)"
proof (induction s rule: measure_induct_rule [of length])
  case (less s)
  show ?case
  proof (cases s)
    case Nil
    then show ?thesis by (simp add: field_tokens.simps)
  next
    case (Cons c cs)
    let ?word = "takeWhile (\<lambda>d. d \<noteq> CHR 0x60) cs" and ?rest = "dropWhile (\<lambda>d. d \<noteq> CHR 0x60) cs"
    show ?thesis
    proof (cases "c = CHR 0x60 \<and> ?word \<noteq> [] \<and> ?rest \<noteq> []")
      case True
      then obtain u where t: "s = CHR 0x60 # ?word @ CHR 0x60 # u"
        and w: "?word \<noteq> []" "CHR 0x60 \<notin> set ?word"
        by (rule backtick_split [OF Cons])
      have "is_utf8 (?word @ CHR 0x60 # u)"
        using less.prems t is_utf8_ascii [of "CHR 0x60"] by (simp only:) (simp add: byte_val_def)
      moreover have "starts_clean (CHR 0x60 # u)" by (simp add: starts_clean_def is_cont_byte_def)
      ultimately have u: "is_utf8 ?word" "is_utf8 u"
        by (auto simp: is_utf8_split is_utf8_ascii byte_val_def)
      have "length u < length s" by (subst t) simp
      then have "list_all is_utf8 (field_tokens u)" using u(2) by (rule less.IH)
      moreover have "field_tokens s = ?word # field_tokens u"
        using field_tokens_hit [OF w, of u] by (subst t)
      ultimately show ?thesis using u(1) by simp
    next
      case False
      have e: "utf8_char (c # takeWhile is_cont_byte cs)" and r: "is_utf8 (dropWhile is_cont_byte cs)"
        using less.prems Cons by (simp_all add: is_utf8_Cons)
      have "length (dropWhile is_cont_byte cs) < length s"
        using length_dropWhile_le [of is_cont_byte cs] Cons by simp
      from less.IH [OF this r] is_utf8_encoding(1) [OF e] Cons show ?thesis
        by (simp add: field_tokens_miss [OF False])
    qed
  qed
qed

text \<open>The delimiters compile, and match where one of them stands.\<close>

lemma join_with_ne: "ws \<noteq> [] \<Longrightarrow> list_all (\<lambda>w. w \<noteq> []) ws \<Longrightarrow> join_with sep ws \<noteq> []"
  by (cases "(sep, ws)" rule: join_with.cases) auto

definition escape_ok :: "text_crates \<Rightarrow> bool" where
  "escape_ok tc \<longleftrightarrow> (\<forall>w. w \<noteq> [] \<longrightarrow> rx_escape tc w \<noteq> [])"

lemma delimiter_regex_eq:
  assumes tc: "backtick_regex tc" "literal_regex tc" "escape_ok tc" and f: "is_utf8 field" "field \<noteq> []"
  obtains ds r where "parse_delimiter_field tc field = Ok ds" and "delimiter_regex tc field = Ok (Some r)"
    and "\<And>s. find_iter r s = word_spans ds 0 s"
proof -
  let ?ds = "sort_key (\<lambda>d. - int (length (chars_of d)))
            (first_occurrences (field_tokens (normalize_text_newlines field)))"
  have ds: "parse_delimiter_field tc field = Ok ?ds" by (rule parse_delimiter_field_eq [OF tc(1) f(1)])
  have ne: "list_all (\<lambda>w. w \<noteq> [] \<and> is_utf8 w) ?ds"
    using field_tokens_ne [of "normalize_text_newlines field"]
      field_tokens_utf8 [OF is_utf8_normalize [OF f(1)]] by (auto simp: list_all_iff)
  have hit: "str_replace old LF s \<noteq> []" if "s \<noteq> []" for old s
    using that by (subst str_replace.simps) (auto split: list.splits)
  have "normalize_text_newlines field \<noteq> []"
    using f(2) by (simp add: normalize_text_newlines_def hit)
  then have "field_tokens (normalize_text_newlines field) \<noteq> []"
    by (subst field_tokens.simps) (auto simp: Let_def split: list.splits)
  then have "set ?ds \<noteq> {}" by simp
  then have ds_ne: "?ds \<noteq> []" by (metis set_empty)
  have filter: "filter (\<lambda>d. d \<noteq> []) ?ds = ?ds" using ne by (simp add: filter_id_conv list_all_iff)
  have "list_all (\<lambda>w. w \<noteq> []) (map (rx_escape tc) ?ds)"
    using ne tc(3) by (simp add: list_all_iff escape_ok_def)
  then have pat: "compile_delimiter_pattern tc ?ds \<noteq> []"
    unfolding compile_delimiter_pattern_def filter using ds_ne by (intro join_with_ne) simp_all
  obtain r where "rx_new tc ([CHR 0x28] @ join_with [CHR 0x7C] (map (rx_escape tc) ?ds) @ [CHR 0x29]) = Some r"
    and r: "\<And>s. find_iter r s = word_spans ?ds 0 s"
    using tc(2) ds_ne ne unfolding literal_regex_def by blast
  then have "delimiter_regex tc field = Ok (Some r)"
    using pat filter by (simp add: delimiter_regex_def ds compile_delimiter_pattern_def)
  with ds r show thesis using that by blast
qed

section \<open>Position tags\<close>

definition POSITION_TAG :: string where
  "POSITION_TAG = (let t = [CHR 0x5C] @ ''t''; num = ''([0-9.]+)''
     in ''@@([0-9-]+)'' @ t @ num @ t @ num @ t @ num @ t @ num @ ''##'')"

definition ANY_POSITION_TAG :: string where
  "ANY_POSITION_TAG = ''@@['' @ [CHR 0x5C] @ ''t0-9.'' @ [CHR 0x5C] @ ''-]+?##''"

record position_metadata =
  pm_positions :: "int list list"
  pm_page_numbers :: "int list"
  pm_tops :: "int list"

text \<open>\<open>x as i32\<close>.\<close>

definition i32_clamp :: "int \<Rightarrow> int" where
  "i32_clamp k = max (- (2 ^ 31)) (min (2 ^ 31 - 1) k)"

definition coordinate :: "string \<Rightarrow> int option" where
  "coordinate value =
     (case parse_f64 value of
        Some (FFin s q) \<Rightarrow> Some (i32_clamp (rat_trunc (fval (FFin s q))))
      | _ \<Rightarrow> None)"

text \<open>\<open>captures[i]\<close>: a panic when the group took no part.\<close>

definition cap_str :: "string \<Rightarrow> captures \<Rightarrow> nat \<Rightarrow> string res" where
  "cap_str s c i = (case cap_get c i of None \<Rightarrow> Panic | Some (a, b) \<Rightarrow> str_slice s a b)"

definition push_pages :: "string \<Rightarrow> int list \<Rightarrow> position_metadata \<Rightarrow> position_metadata" where
  "push_pages pages box m =
     (let ps = List.map_filter parse_i32 (split_char (CHR ''-'') pages)
      in m\<lparr>pm_positions := pm_positions m @ map (\<lambda>p. p # box) ps,
           pm_page_numbers := pm_page_numbers m @ ps,
           pm_tops := pm_tops m @ map (\<lambda>p. box ! 2) ps\<rparr>)"

definition position_step :: "string \<Rightarrow> captures \<Rightarrow> position_metadata \<Rightarrow> position_metadata res" where
  "position_step text c m =
     res_bind (cap_str text c 2) (\<lambda>g2. case coordinate g2 of None \<Rightarrow> Ok m | Some left \<Rightarrow>
     res_bind (cap_str text c 3) (\<lambda>g3. case coordinate g3 of None \<Rightarrow> Ok m | Some right \<Rightarrow>
     res_bind (cap_str text c 4) (\<lambda>g4. case coordinate g4 of None \<Rightarrow> Ok m | Some upper \<Rightarrow>
     res_bind (cap_str text c 5) (\<lambda>g5. case coordinate g5 of None \<Rightarrow> Ok m | Some lower \<Rightarrow>
     res_map (\<lambda>pages. push_pages pages [left, right, upper, lower] m) (cap_str text c 1)))))"

definition position_extract :: "text_crates \<Rightarrow> string \<Rightarrow> position_metadata res" where
  "position_extract tc text =
     res_bind (expect_regex tc POSITION_TAG) (\<lambda>r.
       res_fold (position_step text) (rx_captures r text)
         \<lparr>pm_positions = [], pm_page_numbers = [], pm_tops = []\<rparr>)"

definition position_remove :: "text_crates \<Rightarrow> string \<Rightarrow> string res" where
  "position_remove tc text =
     res_map (\<lambda>r. trim (rx_remove_all r text)) (expect_regex tc ANY_POSITION_TAG)"

text \<open>The six groups of a position tag always take part in a match.\<close>

definition position_regex :: "text_crates \<Rightarrow> bool" where
  "position_regex tc \<longleftrightarrow>
     rx_new tc ANY_POSITION_TAG \<noteq> None \<and>
     (\<exists>r. rx_new tc POSITION_TAG = Some r
        \<and> (\<forall>s. \<forall>c \<in> set (rx_captures r s). length c = 6 \<and> None \<notin> set c))"

end
