(* ===== verification/Chunk_Strategies.thy ===== *)
theory Chunk_Strategies
  imports Chunk_Text
begin

text \<open>
  Three of the chunking strategies of \<^verbatim>\<open>src/chunk\<close>: the naive one and the one-chunk one of
  \<^verbatim>\<open>naive.rs\<close>, and the token chunker of \<^verbatim>\<open>token.rs\<close>. Each takes a parsed document and a parser
  configuration (\<^verbatim>\<open>src/lib.rs\<close>; of its fields, those the chunkers read) and answers the chunks.
\<close>

section \<open>Documents, chunks, configurations\<close>

record document =
  td_id :: string
  td_name :: string
  td_content :: string
  td_mime :: string
  td_size :: nat
  td_metadata :: "(string, string) hmap"

record chunk =
  ch_id :: string
  ch_content :: string
  ch_type :: string
  ch_doc :: string
  ch_position :: nat
  ch_tokens :: nat
  ch_embedding :: "f32 list option"
  ch_metadata :: "(string, string) hmap"

record parser_config =
  pc_chunk_token_num :: nat
  pc_overlapped_percent :: f32
  pc_delimiter :: string
  pc_chunk_method :: string
  pc_delimiter_mode :: string
  pc_delimiters :: "string list"
  pc_children_delimiters :: "string list"
  pc_title_levels :: "string list"
  pc_hierarchy :: "nat option"
  pc_include_heading_content :: bool
  pc_root_chunk_as_heading :: bool

definition default_config :: parser_config where
  "default_config =
     \<lparr>pc_chunk_token_num = 2048, pc_overlapped_percent = f32_0_05, pc_delimiter = LF,
      pc_chunk_method = ''naive'', pc_delimiter_mode = ''token_size'', pc_delimiters = [],
      pc_children_delimiters = [], pc_title_levels = [], pc_hierarchy = None,
      pc_include_heading_content = False, pc_root_chunk_as_heading = False\<rparr>"

definition RAGFLOW_POSITION_TAGS_METADATA :: string where
  "RAGFLOW_POSITION_TAGS_METADATA = ''_rayrag_ragflow_position_tags''"

definition chunk_id :: "string \<Rightarrow> nat \<Rightarrow> string" where
  "chunk_id doc position = doc @ ''_'' @ nat_to_str position"

definition position_aware :: "document \<Rightarrow> bool" where
  "position_aware doc \<longleftrightarrow> hget (td_metadata doc) RAGFLOW_POSITION_TAGS_METADATA \<noteq> None"

text \<open>\<open>s.split(&delimiter)\<close> for a string: between its occurrences; the empty one is between all characters.\<close>

definition str_split :: "string \<Rightarrow> string \<Rightarrow> string list" where
  "str_split pat s = (if pat = [] then [[]] @ chars_of s @ [[]] else between 0 s (word_spans [pat] 0 s))"

text \<open>The sections of the document between delimiters, trimmed, the blank ones left out.\<close>

definition delimited_sections :: "text_crates \<Rightarrow> document \<Rightarrow> parser_config \<Rightarrow> string list res" where
  "delimited_sections tc doc config =
     res_map (\<lambda>re. filter (\<lambda>s. s \<noteq> [])
         (map trim (case re of Some r \<Rightarrow> rx_split r (td_content doc)
                    | None \<Rightarrow> str_split (pc_delimiter config) (td_content doc))))
       (delimiter_regex tc (pc_delimiter config))"

section \<open>The naive chunker\<close>

definition visible_text :: "text_crates \<Rightarrow> string \<Rightarrow> bool \<Rightarrow> string res" where
  "visible_text tc s aware = (if aware then position_remove tc s else Ok s)"

definition visible_token_count :: "text_crates \<Rightarrow> string \<Rightarrow> bool \<Rightarrow> nat res" where
  "visible_token_count tc s aware = res_map token_count (visible_text tc s aware)"

definition position_entries :: "text_crates \<Rightarrow> position_metadata \<Rightarrow> (string, string) hmap \<Rightarrow> (string, string) hmap" where
  "position_entries tc pm m =
     (if pm_positions pm = [] then m
      else hput ''top_int'' (json_print tc (JArr (map json_of_int (pm_tops pm))))
          (hput ''page_num_int'' (json_print tc (JArr (map json_of_int (pm_page_numbers pm))))
          (hput ''position_int'' (json_print tc (JArr (map (\<lambda>p. JArr (map json_of_int p)) (pm_positions pm)))) m)))"

definition build_chunk :: "text_crates \<Rightarrow> document \<Rightarrow> string \<Rightarrow> nat \<Rightarrow> bool \<Rightarrow> chunk res" where
  "build_chunk tc doc content position aware =
     res_bind (if aware then res_map Some (position_extract tc content) else Ok None) (\<lambda>pm.
     res_map (\<lambda>content'.
       let m = hput ''file_name'' (td_name doc) (hdel RAGFLOW_POSITION_TAGS_METADATA (td_metadata doc));
           m' = (case pm of None \<Rightarrow> m | Some p \<Rightarrow> position_entries tc p m)
       in \<lparr>ch_id = chunk_id (td_id doc) position, ch_content = content', ch_type = ''text'',
           ch_doc = td_id doc, ch_position = position, ch_tokens = token_count content',
           ch_embedding = None, ch_metadata = m'\<rparr>)
       (visible_text tc content aware))"

text \<open>Lines from the end until they hold enough tokens.\<close>

fun overlap_loop :: "nat \<Rightarrow> string list \<Rightarrow> string \<Rightarrow> string" where
  "overlap_loop n [] result = result"
| "overlap_loop n (line # lines) result =
     (if n \<le> token_count result then result
      else overlap_loop n lines (line @ (if result \<noteq> [] then LF else []) @ result))"

definition extract_overlap :: "text_crates \<Rightarrow> string \<Rightarrow> nat \<Rightarrow> bool \<Rightarrow> string res" where
  "extract_overlap tc s overlap_tokens aware =
     res_map (\<lambda>visible. overlap_loop overlap_tokens (rev (split_char (CHR 0x0A) visible)) [])
       (visible_text tc s aware)"

definition overlap_tokens :: "parser_config \<Rightarrow> nat" where
  "overlap_tokens config =
     f32_to_usize (f32_mul (f32_of_nat (pc_chunk_token_num config)) (pc_overlapped_percent config))"

text \<open>The chunks so far, the text under construction, the next position.\<close>

type_synonym merge_state = "chunk list \<times> string \<times> nat"

definition naive_step ::
  "text_crates \<Rightarrow> document \<Rightarrow> parser_config \<Rightarrow> bool \<Rightarrow> string \<Rightarrow> merge_state \<Rightarrow> merge_state res" where
  "naive_step tc doc config aware section st =
     (case st of (chunks, current, pos) \<Rightarrow>
        res_bind (visible_token_count tc section aware) (\<lambda>section_tokens.
        res_bind (visible_token_count tc current aware) (\<lambda>current_tokens.
        res_map (\<lambda>(chunks, current, pos).
            (chunks, (if current \<noteq> [] then current @ pc_delimiter config else current) @ section, pos))
          (if pc_chunk_token_num config < current_tokens + section_tokens \<and> current \<noteq> []
           then res_bind (build_chunk tc doc current pos aware) (\<lambda>c.
                  res_map (\<lambda>carried. (chunks @ [c], carried, pos + 1))
                    (if 0 < overlap_tokens config \<and> overlap_tokens config < current_tokens
                     then extract_overlap tc current (overlap_tokens config) aware else Ok []))
           else Ok (chunks, current, pos)))))"

definition naive_chunk :: "text_crates \<Rightarrow> document \<Rightarrow> parser_config \<Rightarrow> chunk list res" where
  "naive_chunk tc doc config =
     (let aware = position_aware doc
      in res_bind (delimited_sections tc doc config) (\<lambda>sections.
           if sections = [] then Ok []
           else res_bind (res_fold (naive_step tc doc config aware) sections ([], [], 0))
                  (\<lambda>(chunks, current, pos).
                     if trim current \<noteq> [] then res_map (\<lambda>c. chunks @ [c]) (build_chunk tc doc current pos aware)
                     else Ok chunks)))"

section \<open>The whole document as one chunk\<close>

definition single_chunk :: "text_crates \<Rightarrow> document \<Rightarrow> parser_config \<Rightarrow> chunk list res" where
  "single_chunk tc doc config =
     (let content = trim (td_content doc)
      in if content = [] then Ok []
         else Ok [\<lparr>ch_id = chunk_id (td_id doc) 0, ch_content = content, ch_type = ''text'',
                   ch_doc = td_id doc, ch_position = 0, ch_tokens = token_count content,
                   ch_embedding = None,
                   ch_metadata = (if position_aware doc
                     then hput ''top_int'' ''[]'' (hput ''page_num_int'' ''[]'' (td_metadata doc))
                     else td_metadata doc)\<rparr>])"

section \<open>The token chunker\<close>

text \<open>Without repetition, in order.\<close>

definition push_unique_str :: "string \<Rightarrow> string list \<Rightarrow> string list" where
  "push_unique_str c xs = (if c \<in> set xs then xs else xs @ [c])"

definition regex_of_words :: "text_crates \<Rightarrow> string list \<Rightarrow> regex option" where
  "regex_of_words tc ws = rx_new tc (join_with [CHR 0x7C] (map (rx_escape tc) ws))"

text \<open>The backtick-wrapped words of one entry: the groups 1 of its matches.\<close>

fun wrapped_words :: "string \<Rightarrow> captures list \<Rightarrow> string list res" where
  "wrapped_words s [] = Ok []"
| "wrapped_words s (c # cs) =
     (case cap_get c 1 of
        None \<Rightarrow> wrapped_words s cs
      | Some (a, b) \<Rightarrow> res_bind (str_slice s a b) (\<lambda>w. res_map ((#) w) (wrapped_words s cs)))"

definition compile_delimiters :: "text_crates \<Rightarrow> string list \<Rightarrow> regex option res" where
  "compile_delimiters tc delimiters =
     res_map (\<lambda>custom.
         if custom = [] then None
         else regex_of_words tc (fold push_unique_str (sort_key (\<lambda>w. - int (length w)) custom) []))
       (res_fold (\<lambda>raw custom.
            res_bind (expect_regex tc BACKTICK_PATTERN) (\<lambda>r.
              res_map (\<lambda>ws. custom @ ws) (wrapped_words raw (rx_captures r raw))))
          delimiters [])"

definition split_keep_delimiters :: "string \<Rightarrow> regex option \<Rightarrow> string list res" where
  "split_keep_delimiters text' pattern =
     (case pattern of None \<Rightarrow> Ok [text'] | Some r \<Rightarrow> keep_loop text' 0 (find_iter r text'))"

definition compile_children_pattern :: "text_crates \<Rightarrow> string list \<Rightarrow> regex option" where
  "compile_children_pattern tc delimiters =
     (let ws = fold (\<lambda>raw xs. let t = trim raw in if t \<noteq> [] then push_unique_str t xs else xs) delimiters []
      in if ws = [] then None else regex_of_words tc (sort_key (\<lambda>w. - int (length w)) ws))"

definition normalize_overlapped :: "f32 \<Rightarrow> nat" where
  "normalize_overlapped value =
     (let v = f64_of_f32 value;
          v = (if f64_cmp (FFin False 0) v \<in> {Some Less, Some Equal} \<and> f64_cmp v (FFin False 1) = Some Less
               then f64_mul v (FFin False 100) else v)
      in nat (max 0 (min 90 (f64_to_int v))))"

text \<open>\<open>char_indices()\<close>.\<close>

fun char_indices :: "nat \<Rightarrow> string list \<Rightarrow> (nat \<times> string) list" where
  "char_indices i [] = []"
| "char_indices i (c # cs) = (i, c) # char_indices (i + length c) cs"

fun carry_cut :: "nat \<Rightarrow> nat \<Rightarrow> (nat \<times> string) list \<Rightarrow> nat \<Rightarrow> nat" where
  "carry_cut n count [] found = found"
| "carry_cut n count ((idx, ch) # rest) found =
     (let count = count + 1 in if n \<le> count then idx else carry_cut n count rest found)"

definition carry_overlap :: "string \<Rightarrow> nat \<Rightarrow> string res" where
  "carry_overlap s n = slice_from s (carry_cut n 0 (rev (char_indices 0 (chars_of s))) (length s))"

definition token_build :: "document \<Rightarrow> string \<Rightarrow> nat \<Rightarrow> chunk" where
  "token_build doc content position =
     \<lparr>ch_id = chunk_id (td_id doc) position, ch_content = content, ch_type = ''text'',
      ch_doc = td_id doc, ch_position = position, ch_tokens = token_count content,
      ch_embedding = None, ch_metadata = []\<rparr>"

text \<open>Multiplication of \<open>usize\<close> wraps in a release build.\<close>

definition token_overlap :: "parser_config \<Rightarrow> nat" where
  "token_overlap config =
     (pc_chunk_token_num config * normalize_overlapped (pc_overlapped_percent config)) mod 2 ^ 64 div 100"

definition token_step :: "document \<Rightarrow> parser_config \<Rightarrow> string \<Rightarrow> merge_state \<Rightarrow> merge_state res" where
  "token_step doc config section st =
     (case st of (chunks, current, pos) \<Rightarrow>
        if current = [] \<and> section = [] then Ok st
        else res_map (\<lambda>(chunks, current, pos).
                (chunks, (if current \<noteq> [] then current @ LF else current) @ section, pos))
          (if current \<noteq> [] \<and> pc_chunk_token_num config < token_count current + token_count section
           then res_map (\<lambda>carried. (chunks @ [token_build doc current pos], carried, pos + 1))
                  (if 0 < token_overlap config then carry_overlap current (token_overlap config) else Ok [])
           else Ok st))"

text \<open>Sections over the limit are cut at sentences first.\<close>

fun resplit :: "text_crates \<Rightarrow> nat \<Rightarrow> string list \<Rightarrow> string list res" where
  "resplit tc limit [] = Ok []"
| "resplit tc limit (s # ss) =
     res_bind (if limit < token_count s then split_sentences_keep_boundaries tc s else Ok [s])
       (\<lambda>ps. res_map (\<lambda>qs. ps @ qs) (resplit tc limit ss))"

definition merge_by_token_size ::
  "text_crates \<Rightarrow> document \<Rightarrow> parser_config \<Rightarrow> string list \<Rightarrow> chunk list res" where
  "merge_by_token_size tc doc config sections =
     res_bind (resplit tc (pc_chunk_token_num config) sections) (\<lambda>sections.
       res_map (\<lambda>(chunks, current, pos).
           if trim current \<noteq> [] then chunks @ [token_build doc current pos] else chunks)
         (res_fold (token_step doc config) sections ([], [], 0)))"

text \<open>Parts of a chunk cut at the child delimiters; a part keeps its parent's text as \<open>mom\<close>.\<close>

fun children_of :: "document \<Rightarrow> string \<Rightarrow> string list \<Rightarrow> nat \<Rightarrow> chunk list \<times> nat" where
  "children_of doc mom [] next' = ([], next')"
| "children_of doc mom (part # parts) next' =
     (if trim part = [] then children_of doc mom parts next'
      else case children_of doc mom parts (next' + 1) of
             (cs, n) \<Rightarrow> ((token_build doc part next')\<lparr>ch_metadata := [(''mom'', mom)]\<rparr> # cs, n))"

fun children_loop :: "document \<Rightarrow> regex \<Rightarrow> chunk list \<Rightarrow> nat \<Rightarrow> chunk list res" where
  "children_loop doc pattern [] next' = Ok []"
| "children_loop doc pattern (c # cs) next' =
     res_bind (split_keep_delimiters (ch_content c) (Some pattern)) (\<lambda>parts.
       if length parts \<le> 1 then res_map ((#) c) (children_loop doc pattern cs next')
       else case children_of doc (ch_content c) parts next' of
              (ds, n) \<Rightarrow> res_map (\<lambda>es. ds @ es) (children_loop doc pattern cs n))"

definition apply_children ::
  "text_crates \<Rightarrow> document \<Rightarrow> chunk list \<Rightarrow> string list \<Rightarrow> chunk list res" where
  "apply_children tc doc chunks children =
     (case compile_children_pattern tc children of
        None \<Rightarrow> Ok chunks
      | Some pattern \<Rightarrow> children_loop doc pattern chunks (length chunks + 1))"

text \<open>Each section that is not blank becomes a chunk.\<close>

fun number_sections :: "document \<Rightarrow> string list \<Rightarrow> nat \<Rightarrow> chunk list" where
  "number_sections doc [] pos = []"
| "number_sections doc (s # ss) pos =
     (if trim s = [] then number_sections doc ss pos
      else token_build doc s pos # number_sections doc ss (pos + 1))"

definition token_base :: "text_crates \<Rightarrow> document \<Rightarrow> parser_config \<Rightarrow> chunk list res" where
  "token_base tc doc config =
     (if pc_delimiter_mode config = ''one''
      then let content = trim (td_content doc) in Ok (if content = [] then [] else [token_build doc content 0])
      else res_bind (compile_delimiters tc (pc_delimiters config)) (\<lambda>pattern.
        if pattern \<noteq> None \<or> list_ex (\<lambda>d. trim d \<noteq> []) (pc_delimiters config)
        then res_map (\<lambda>sections. number_sections doc sections 0)
               (split_keep_delimiters (td_content doc) pattern)
        else res_bind (delimited_sections tc doc config) (\<lambda>sections.
               if sections = [] then Ok [] else merge_by_token_size tc doc config sections)))"

definition token_chunk :: "text_crates \<Rightarrow> document \<Rightarrow> parser_config \<Rightarrow> chunk list res" where
  "token_chunk tc doc config =
     res_bind (token_base tc doc config) (\<lambda>chunks.
       if pc_children_delimiters config \<noteq> []
       then apply_children tc doc chunks (pc_children_delimiters config) else Ok chunks)"

end
