(* ===== verification/Chunk_Title.thy ===== *)
theory Chunk_Title
  imports Chunk_Strategies
begin

text \<open>
  The title chunker of \<^verbatim>\<open>src/chunk/title.rs\<close>: headings from a PDF outline or from the lines of the
  text, the sections they open, and the two ways sections become chunks.
\<close>

section \<open>Headings\<close>

datatype heading_source = Outline | Content

record heading =
  hd_title :: string
  hd_depth :: nat
  hd_source :: heading_source
  hd_numbered :: bool

record title_section =
  sec_heading :: string
  sec_depth :: nat
  sec_body :: string

definition render :: "title_section \<Rightarrow> bool \<Rightarrow> string" where
  "render s include_heading =
     (if include_heading \<and> sec_heading s \<noteq> [] then sec_heading s @ LF @ trim (sec_body s)
      else trim (sec_body s))"

definition OUTLINE_METADATA :: string where
  "OUTLINE_METADATA = ''__outline__''"

definition outline_entry :: "json \<Rightarrow> heading option" where
  "outline_entry v =
     map_option (\<lambda>title.
         \<lparr>hd_title = title,
          hd_depth = (case Option.bind (json_get ''depth'' v) as_u64 of None \<Rightarrow> 0 | Some d \<Rightarrow> d),
          hd_source = Outline, hd_numbered = False\<rparr>)
       (Option.bind (json_get ''title'' v) as_str)"

definition outlines_from_metadata :: "text_crates \<Rightarrow> document \<Rightarrow> heading list" where
  "outlines_from_metadata tc doc =
     (case Option.bind (Option.bind (hget (td_metadata doc) OUTLINE_METADATA) (json_parse tc)) as_array of
        None \<Rightarrow> []
      | Some arr \<Rightarrow> List.map_filter outline_entry arr)"

text \<open>The marks of Chinese enumerations and their trimming.\<close>

definition DUNHAO :: string where "DUNHAO = [CHR 0xE3, CHR 0x80, CHR 0x81]"
definition COLON :: string where "COLON = [CHR 0xEF, CHR 0xBC, CHR 0x9A]"
definition LPAREN :: string where "LPAREN = [CHR 0xEF, CHR 0xBC, CHR 0x88]"
definition RPAREN :: string where "RPAREN = [CHR 0xEF, CHR 0xBC, CHR 0x89]"

definition chinese_numerals :: "string list" where
  "chinese_numerals =
     [[CHR 0xE4, CHR 0xB8, CHR 0x80], [CHR 0xE4, CHR 0xBA, CHR 0x8C], [CHR 0xE4, CHR 0xB8, CHR 0x89],
      [CHR 0xE5, CHR 0x9B, CHR 0x9B], [CHR 0xE4, CHR 0xBA, CHR 0x94]]"

definition trim_start_matches :: "string list \<Rightarrow> string \<Rightarrow> string" where
  "trim_start_matches es s = strip_front es s"

definition trim_end_matches :: "string list \<Rightarrow> string \<Rightarrow> string" where
  "trim_end_matches es s = rev (strip_front (map rev es) (rev s))"

definition title_from_rest :: "string \<Rightarrow> nat \<Rightarrow> string res" where
  "title_from_rest line prefix_len =
     (case slice_from line prefix_len of
        Ok r \<Rightarrow> Ok (trim (trim_end_matches [COLON] (trim (trim_start_matches [''.'', DUNHAO, COLON] r))))
      | Err e \<Rightarrow> Err e
      | Panic \<Rightarrow> Panic)"

definition is_digit_str :: "string \<Rightarrow> bool" where
  "is_digit_str c \<longleftrightarrow> length c = 1 \<and> list_all is_ascii_digit c"

definition numbered_section_depth :: "string \<Rightarrow> nat option res" where
  "numbered_section_depth line =
     (let head0 = concat (takeWhile (\<lambda>ch. is_digit_str ch \<or> ch = ''.'' \<or> ch = DUNHAO \<or> ch = '' '') (chars_of line));
          head = trim_end_matches [''.''] (trim_end_matches ['' ''] head0)
      in if head = [] then Ok None
         else let segments = filter (\<lambda>s. s \<noteq> []) (split_char (CHR ''.'') head)
              in if segments = [] \<or> list_ex (\<lambda>s. s = [] \<or> \<not> list_all is_digit_str (chars_of s)) segments then Ok None
                 else res_map (\<lambda>r.
                        case chars_of r of
                          [] \<Rightarrow> None
                        | after # _ \<Rightarrow>
                            if after = ''.'' \<or> after = DUNHAO \<or> after = COLON
                               \<or> is_ws_char after \<and> 1 < length segments
                            then Some (length segments) else None)
                      (slice_from line (length head)))"

text \<open>The index and the start of the first user pattern that matches.\<close>

fun first_level :: "nat \<Rightarrow> regex list \<Rightarrow> string \<Rightarrow> (nat \<times> nat) option" where
  "first_level i [] line = None"
| "first_level i (re # res') line =
     (case find_iter re line of
        [] \<Rightarrow> first_level (i + 1) res' line
      | (a, b) # _ \<Rightarrow> Some (i, a))"

definition heading_if :: "string \<Rightarrow> nat \<Rightarrow> bool \<Rightarrow> heading list" where
  "heading_if title depth numbered =
     (if title = [] then []
      else [\<lparr>hd_title = title, hd_depth = depth, hd_source = Content, hd_numbered = numbered\<rparr>])"

text \<open>The built-in patterns: the depth (from 1) and what follows the mark.\<close>

definition builtin_pattern :: "string \<Rightarrow> (nat \<times> string) option option" where
  "builtin_pattern line =
     (case str_strip_prefix ''### '' line of Some r \<Rightarrow> Some (Some (3, r)) | None \<Rightarrow>
     (case str_strip_prefix ''## '' line of Some r \<Rightarrow> Some (Some (2, r)) | None \<Rightarrow>
     (case str_strip_prefix ''# '' line of Some r \<Rightarrow> Some (Some (1, r)) | None \<Rightarrow>
     (case str_strip_prefix LPAREN line of
        Some r \<Rightarrow> Some (map_option (\<lambda>_. (2, r)) (parse_u32 (hd (str_split RPAREN r)))) | None \<Rightarrow>
     (case find (\<lambda>n. prefix (n @ DUNHAO) line) chinese_numerals of
        Some n \<Rightarrow> Some (Some (1, drop (length (n @ DUNHAO)) line))
      | None \<Rightarrow> None)))))"

definition content_headings :: "regex list \<Rightarrow> string \<Rightarrow> heading list res" where
  "content_headings custom line =
     (let trimmed = trim line
      in if trimmed = [] then Ok []
         else if custom \<noteq> []
         then (case first_level 0 custom trimmed of
                 None \<Rightarrow> Ok []
               | Some (depth, start) \<Rightarrow> res_map (\<lambda>t. heading_if t depth False) (title_from_rest trimmed start))
         else case builtin_pattern trimmed of
                None \<Rightarrow> res_map (\<lambda>d. case d of None \<Rightarrow> []
                     | Some n \<Rightarrow> heading_if (trim (trim_end_matches [COLON] trimmed)) (n - 1) True)
                  (numbered_section_depth trimmed)
              | Some None \<Rightarrow> Ok []
              | Some (Some (d, rest)) \<Rightarrow>
                  res_map (\<lambda>t. heading_if t (d - 1) False)
                    (title_from_rest trimmed (length trimmed - length rest)))"

definition outlines_from_content :: "text_crates \<Rightarrow> document \<Rightarrow> parser_config \<Rightarrow> heading list res" where
  "outlines_from_content tc doc config =
     (let custom = List.map_filter (rx_new tc) (pc_title_levels config)
      in res_fold (\<lambda>line out. res_map (\<lambda>hs. out @ hs) (content_headings custom line))
           (str_lines (td_content doc)) [])"

definition headings :: "text_crates \<Rightarrow> document \<Rightarrow> parser_config \<Rightarrow> heading list res" where
  "headings tc doc config =
     (let from_meta = outlines_from_metadata tc doc
      in if from_meta \<noteq> [] then Ok from_meta else outlines_from_content tc doc config)"

section \<open>Sections\<close>

fun windows2 :: "'a list \<Rightarrow> ('a \<times> 'a) list" where
  "windows2 (x # y # zs) = (x, y) # windows2 (y # zs)"
| "windows2 _ = []"

fun f32_div :: "f32 \<Rightarrow> f32 \<Rightarrow> f32" where
  "f32_div (Fin p) (Fin q) = (if q = 0 then (if p = 0 then NaN else Infinite (0 < p)) else f32_round (p / q))"
| "f32_div (Infinite s) (Fin q) = Infinite (s = (0 \<le> q))"
| "f32_div (Fin p) (Infinite s) = Fin 0"
| "f32_div _ _ = NaN"

definition outline_similarity :: "string \<Rightarrow> string \<Rightarrow> f32" where
  "outline_similarity left right =
     (let ls = chars_of left; rs = chars_of right;
          left_pairs = set (windows2 ls);
          right_pairs = set (take (min (length ls) (length rs - 1)) (windows2 rs));
          denominator = max (max (card left_pairs) (card right_pairs)) 1
      in f32_div (f32_of_nat (card (left_pairs \<inter> right_pairs))) (f32_of_nat denominator))"

text \<open>The literal \<open>0.8\<close> as an \<open>f32\<close>, and \<open>a > b\<close>.\<close>

definition f32_0_8 :: f32 where "f32_0_8 = Fin (13421773 / 16777216)"

definition f32_gt :: "f32 \<Rightarrow> f32 \<Rightarrow> bool" where
  "f32_gt a b \<longleftrightarrow> f32_le b a \<and> a \<noteq> b"

definition normalize_line :: "string \<Rightarrow> string" where
  "normalize_line line =
     (let t = trim line
      in case find (\<lambda>p. prefix p t) [''### '', ''## '', ''# '', ''- '', ''* ''] of
           None \<Rightarrow> t | Some p \<Rightarrow> drop (length p) t)"

definition opens_heading :: "heading \<Rightarrow> string \<Rightarrow> bool" where
  "opens_heading h line =
     (let normalized = normalize_line line
      in if hd_source h = Outline then f32_gt (outline_similarity (hd_title h) normalized) f32_0_8
         else normalized = hd_title h)"

definition section_of :: "heading \<Rightarrow> string list \<Rightarrow> title_section" where
  "section_of h body_lines =
     \<lparr>sec_heading = hd_title h, sec_depth = hd_depth h, sec_body = join_with LF body_lines\<rparr>"

text \<open>The lines still to read, the headings not yet met, the open heading, its lines so far.\<close>

fun section_loop :: "string list \<Rightarrow> heading list \<Rightarrow> heading option \<Rightarrow> string list \<Rightarrow> title_section list" where
  "section_loop [] hs pending body_lines =
     (case pending of
        Some h \<Rightarrow> [section_of h body_lines]
      | None \<Rightarrow> if body_lines \<noteq> [] then [\<lparr>sec_heading = [], sec_depth = 0, sec_body = join_with LF body_lines\<rparr>]
                else [])"
| "section_loop (line # lines) hs pending body_lines =
     (case hs of
        [] \<Rightarrow> section_loop lines hs pending (body_lines @ [line])
      | h # hs' \<Rightarrow>
          if opens_heading h line
          then (case pending of
                  Some p \<Rightarrow> section_of p body_lines # section_loop lines hs' (Some h) []
                | None \<Rightarrow> section_loop lines hs' (Some h) body_lines)
          else section_loop lines hs pending (body_lines @ [line]))"

definition sections :: "document \<Rightarrow> heading list \<Rightarrow> title_section list" where
  "sections doc hs =
     (if hs = [] then [\<lparr>sec_heading = [], sec_depth = 0, sec_body = td_content doc\<rparr>]
      else section_loop (str_lines (td_content doc)) hs None [])"

section \<open>Chunks\<close>

text \<open>The first chunk's text goes in front of every later chunk, and the first chunk goes.\<close>

definition root_chunk :: "document \<Rightarrow> string \<Rightarrow> nat \<times> chunk \<Rightarrow> chunk" where
  "root_chunk doc root_text ic =
     (case ic of (i, c) \<Rightarrow>
        let content = root_text @ LF @ ch_content c
        in c\<lparr>ch_content := content, ch_id := chunk_id (td_id doc) i, ch_tokens := token_count content\<rparr>)"

definition apply_root_as_heading :: "chunk list \<Rightarrow> document \<Rightarrow> chunk list" where
  "apply_root_as_heading chunks doc =
     (case chunks of
        c0 # c # cs \<Rightarrow>
          let root_text = trim (ch_content c0)
          in if root_text = [] then c # cs else map (root_chunk doc root_text) (List.enumerate 0 (c # cs))
      | _ \<Rightarrow> chunks)"

definition levels_len :: "heading list \<Rightarrow> parser_config \<Rightarrow> nat" where
  "levels_len hs config =
     (if pc_title_levels config = []
      then if list_ex hd_numbered hs then Max (set (map (\<lambda>h. hd_depth h + 1) hs)) else 1
      else length (pc_title_levels config))"

text \<open>\<open>x.clamp(lo, hi)\<close> panics when the bounds are the wrong way round.\<close>

definition clamp_levels :: "nat \<Rightarrow> nat \<Rightarrow> nat \<Rightarrow> nat res" where
  "clamp_levels lo hi x = (if lo \<le> hi then Ok (max lo (min hi x)) else Panic)"

definition merge_deeper :: "nat \<Rightarrow> title_section \<Rightarrow> title_section list \<Rightarrow> title_section list" where
  "merge_deeper target s merged =
     (if sec_depth s < target \<or> merged = [] then merged @ [s]
      else let l = List.last merged;
               body = sec_body l @ (if sec_body l \<noteq> [] then LF else []) @ render s True
           in butlast merged @ [l\<lparr>sec_body := body\<rparr>])"

definition section_chunks :: "document \<Rightarrow> parser_config \<Rightarrow> title_section list \<Rightarrow> chunk list" where
  "section_chunks doc config merged =
     List.map_filter (\<lambda>(i, s).
         let content = render s (pc_include_heading_content config)
         in if trim content = [] then None else Some (token_build doc content i))
       (List.enumerate 0 merged)"

definition root_option :: "document \<Rightarrow> parser_config \<Rightarrow> chunk list \<Rightarrow> chunk list" where
  "root_option doc config chunks =
     (if pc_root_chunk_as_heading config then apply_root_as_heading chunks doc else chunks)"

definition chunk_hierarchy :: "text_crates \<Rightarrow> document \<Rightarrow> parser_config \<Rightarrow> chunk list res" where
  "chunk_hierarchy tc doc config =
     res_bind (headings tc doc config) (\<lambda>hs.
       res_map (\<lambda>target.
           let merged = fold (merge_deeper target) (sections doc hs) []
           in if merged = [] then [] else root_option doc config (section_chunks doc config merged))
         (clamp_levels 1 (levels_len hs config)
           (case pc_hierarchy config of None \<Rightarrow> 1 | Some h \<Rightarrow> h)))"

text \<open>The chunks so far, the text under construction, the next position, the heading of its last section.\<close>

definition group_step ::
  "document \<Rightarrow> parser_config \<Rightarrow> title_section \<Rightarrow> chunk list \<times> string \<times> nat \<times> string \<Rightarrow> chunk list \<times> string \<times> nat \<times> string" where
  "group_step doc config s st =
     (case st of (chunks, current, pos, section_id) \<Rightarrow>
        let part = render s (pc_include_heading_content config)
        in if trim part = [] then st
           else let sid = sec_heading s; tk = token_count current;
                    (chunks, current, pos) =
                      (if current \<noteq> [] \<and> (32 \<le> tk \<and> sid \<noteq> section_id \<or> 1024 \<le> tk)
                       then (chunks @ [token_build doc current pos], [], pos + 1)
                       else (chunks, current, pos))
                in (chunks, (if current \<noteq> [] then current @ LF else current) @ part, pos, sid))"

definition chunk_group :: "text_crates \<Rightarrow> document \<Rightarrow> parser_config \<Rightarrow> chunk list res" where
  "chunk_group tc doc config =
     res_map (\<lambda>hs.
         case fold (group_step doc config) (sections doc hs) ([], [], 0, []) of
           (chunks, current, pos, section_id) \<Rightarrow>
             root_option doc config
               (if trim current \<noteq> [] then chunks @ [token_build doc current pos] else chunks))
       (headings tc doc config)"

definition title_chunk :: "text_crates \<Rightarrow> document \<Rightarrow> parser_config \<Rightarrow> chunk list res" where
  "title_chunk tc doc config =
     (let method = (if pc_chunk_method config = ''title'' then pc_delimiter_mode config else ''hierarchy'')
      in if method = ''group'' then chunk_group tc doc config else chunk_hierarchy tc doc config)"

section \<open>Choosing a strategy\<close>

datatype strategy = Naive | Token | Title | Single

definition chunker_for :: "parser_config \<Rightarrow> strategy" where
  "chunker_for config =
     (if pc_chunk_method config = ''token'' then Token
      else if pc_chunk_method config = ''title'' then Title
      else if pc_chunk_method config = ''one'' then Single
      else Naive)"

fun run_strategy :: "strategy \<Rightarrow> text_crates \<Rightarrow> document \<Rightarrow> parser_config \<Rightarrow> chunk list res" where
  "run_strategy Naive = naive_chunk"
| "run_strategy Token = token_chunk"
| "run_strategy Title = title_chunk"
| "run_strategy Single = single_chunk"

end
