(* ===== verification/Chunk_Proofs.thy ===== *)
theory Chunk_Proofs
  imports Chunk_Title
begin

text \<open>
  What the chunkers' properties rest on: every text they handle stays UTF-8, so that no slice falls
  inside a character; and the loop that merges sections into chunks, proved once for the naive and
  the token chunker (locale \<open>section_merge\<close>).
\<close>

section \<open>UTF-8 is kept\<close>

named_theorems utf8_rules \<open>operations whose results are UTF-8\<close>

lemma boundary_clean: "is_utf8 s \<Longrightarrow> is_char_boundary s a \<Longrightarrow> starts_clean (drop a s)"
proof (cases "a = 0 \<or> length s \<le> a")
  case False
  assume "is_char_boundary s a"
  with False have "\<not> is_cont_byte (s ! a)" by (auto simp: is_char_boundary_def)
  moreover have "drop a s = s ! a # drop (Suc a) s" using False by (simp add: Cons_nth_drop_Suc)
  ultimately show ?thesis by (simp add: starts_clean_def)
qed (auto simp: is_utf8_clean)

lemma boundary_parts:
  assumes "is_utf8 s" and "is_char_boundary s a"
  shows "is_utf8 (take a s)" and "is_utf8 (drop a s)"
  using assms boundary_clean [OF assms] is_utf8_split [of "drop a s" "take a s"] by simp_all

lemma boundary_take: "is_char_boundary s b \<Longrightarrow> a \<le> b \<Longrightarrow> is_char_boundary (drop a s) (b - a)"
  by (auto simp: is_char_boundary_def)

lemma utf8_between_boundaries [utf8_rules]:
  assumes "is_utf8 s" and "is_char_boundary s a" and "is_char_boundary s b" and "a \<le> b"
  shows "is_utf8 (take (b - a) (drop a s))"
  by (rule boundary_parts(1) [OF boundary_parts(2) [OF assms(1,2)] boundary_take [OF assms(3,4)]])

lemma utf8_str_slice: "is_utf8 s \<Longrightarrow> str_slice s a b = Ok t \<Longrightarrow> is_utf8 t"
  by (auto simp: str_slice_def utf8_between_boundaries split: if_splits)

lemma utf8_slice_from: "is_utf8 s \<Longrightarrow> slice_from s a = Ok t \<Longrightarrow> is_utf8 t"
  by (auto simp: slice_from_def boundary_parts split: if_splits)

lemma utf8_keep_loop: "is_utf8 s \<Longrightarrow> keep_loop s i ms = Ok ps \<Longrightarrow> list_all is_utf8 ps"
  by (induction s i ms arbitrary: ps rule: keep_loop.induct)
     (auto simp: res_map_Ok_iff res_bind_Ok_iff dest: utf8_str_slice utf8_slice_from split: if_splits)

lemma utf8_sentence_loop: "is_utf8 s \<Longrightarrow> sentence_loop s i ms = Ok ps \<Longrightarrow> list_all is_utf8 ps"
  by (induction s i ms arbitrary: ps rule: sentence_loop.induct)
     (auto simp: res_map_Ok_iff res_bind_Ok_iff dest: utf8_str_slice utf8_slice_from split: if_splits)

lemma utf8_between: "is_utf8 s \<Longrightarrow> spans_from i s ms \<Longrightarrow> list_all is_utf8 (between i s ms)"
  by (induction i s ms rule: between.induct) (auto simp: boundary_parts utf8_between_boundaries)

lemma utf8_concat: "list_all is_utf8 ps \<Longrightarrow> is_utf8 (concat ps)"
  by (induction ps) (auto simp: is_utf8_append)

lemma utf8_chars: "is_utf8 s \<Longrightarrow> list_all is_utf8 (chars_of s)"
  by (auto simp: is_utf8_def list_all_iff is_utf8_encoding)

text \<open>Trimming takes whole characters off.\<close>

lemma utf8_char_length:
  assumes "utf8_char (c # a)" and "utf8_char (c # b)"
  shows "length a = length b"
  using assms by (auto simp: utf8_char_def in_range_def)

lemma utf8_char_strip:
  assumes e: "utf8_char e" and s: "is_utf8 (e @ t)"
  shows "is_utf8 t"
proof -
  obtain c cs where ec: "e = c # cs" using e by (cases e) (auto simp: utf8_char_def)
  have cs: "list_all is_cont_byte cs" using e ec by (simp add: utf8_char_def)
  then have tw: "takeWhile is_cont_byte (cs @ t) = cs @ takeWhile is_cont_byte t"
    and dw: "dropWhile is_cont_byte (cs @ t) = dropWhile is_cont_byte t"
    by (induction cs) auto
  have "utf8_char (c # cs @ takeWhile is_cont_byte t)" and r: "is_utf8 (dropWhile is_cont_byte t)"
    using s unfolding ec by (simp_all add: is_utf8_Cons tw dw)
  then have "takeWhile is_cont_byte t = []" using utf8_char_length [of c cs "cs @ takeWhile is_cont_byte t"] e ec by simp
  with r show ?thesis by (metis append_Nil takeWhile_dropWhile_id)
qed

lemma utf8_strip_front:
  "list_all utf8_char es \<Longrightarrow> is_utf8 s \<Longrightarrow> is_utf8 (strip_front es s)"
proof (induction es s rule: strip_front.induct)
  case (1 es s)
  show ?case
  proof (cases "find (\<lambda>e. e \<noteq> [] \<and> prefix e s) es")
    case None
    with 1 show ?thesis by (simp add: strip_front.simps [of es s])
  next
    case (Some e)
    then have "e \<in> set es" "prefix e s" by (auto dest: find_SomeD)
    then have "utf8_char e" "s = e @ drop (length e) s"
      using 1 by (auto simp: list_all_iff prefix_def)
    then have "is_utf8 (drop (length e) s)" using 1(3) utf8_char_strip [of e "drop (length e) s"] by simp
    with 1 Some show ?thesis by (simp add: strip_front.simps [of es s])
  qed
qed

lemma utf8_strip_back:
  "list_all utf8_char es \<Longrightarrow> is_utf8 s \<Longrightarrow> is_utf8 (rev (strip_front (map rev es) (rev s)))"
proof (induction "map rev es" "rev s" arbitrary: s rule: strip_front.induct)
  case (1 s)
  show ?case
  proof (cases "find (\<lambda>e. e \<noteq> [] \<and> prefix e (rev s)) (map rev es)")
    case None
    with 1 show ?thesis by (simp add: strip_front.simps [of "map rev es" "rev s"])
  next
    case (Some re)
    then have "re \<in> set (map rev es)" "prefix re (rev s)" by (auto dest: find_SomeD)
    then obtain e where e: "re = rev e" "e \<in> set es" "prefix (rev e) (rev s)" by auto
    then obtain t where t: "s = t @ e"
      by (metis prefix_def rev_append rev_rev_ident)
    have "utf8_char e" using 1 e by (auto simp: list_all_iff)
    then have "is_utf8 t" using 1(3) t is_utf8_append [OF is_utf8_encoding(1), of e t] by simp
    moreover have "drop (length re) (rev s) = rev t" using t e by simp
    ultimately have "is_utf8 (rev (strip_front (map rev es) (rev t)))"
      using 1(1) [OF Some, of t] 1(2) by simp
    with Some \<open>drop (length re) (rev s) = rev t\<close> show ?thesis
      by (simp add: strip_front.simps [of "map rev es" "rev s"])
  qed
qed

lemma ws_encodings_utf8: "list_all utf8_char ws_encodings"
  by (simp add: ws_encodings_def utf8_char_def is_cont_byte_def byte_val_def in_range_def)

lemma utf8_trim [utf8_rules]: "is_utf8 s \<Longrightarrow> is_utf8 (trim s)"
  by (simp add: trim_def trim_start_def trim_end_def utf8_strip_front utf8_strip_back ws_encodings_utf8)

lemma utf8_char_in_text: "utf8_char [CHR 0x0A]" "utf8_char ''.''" "utf8_char '' ''" "utf8_char DUNHAO" "utf8_char COLON"
  by (simp_all add: utf8_char_def byte_val_def is_cont_byte_def in_range_def DUNHAO_def COLON_def)

lemma utf8_strip_chars: "list_all utf8_char es \<Longrightarrow> is_utf8 (concat es @ t) \<Longrightarrow> is_utf8 t"
  by (induction es) (auto dest: utf8_char_strip)

lemma utf8_strip: "is_utf8 w \<Longrightarrow> is_utf8 (w @ t) \<Longrightarrow> is_utf8 t"
  using utf8_strip_chars [of "chars_of w" t] by (simp add: is_utf8_def)

lemma utf8_split_char:
  assumes "byte_val c < 128" and "is_utf8 s"
  shows "list_all is_utf8 (split_char c s)"
proof -
  have "is_utf8 s \<Longrightarrow> list_all is_utf8 (split_char c s)"
  proof (induction s rule: chars_of.induct)
    case (2 d ds)
    let ?k = "takeWhile is_cont_byte ds" and ?r = "dropWhile is_cont_byte ds"
    have e: "utf8_char (d # ?k)" and r: "is_utf8 ?r" using 2(2) by (simp_all add: is_utf8_Cons)
    have skip: "c \<notin> set k \<Longrightarrow> split_char c (k @ t) = (k @ hd (split_char c t)) # tl (split_char c t)" for k t
      by (induction k) (auto split: list.splits)
    show ?case
    proof (cases "d = c")
      case True
      with assms(1) e have "?k = []" by (auto simp: utf8_char_def in_range_def)
      then have "ds = ?r" by (metis append_Nil takeWhile_dropWhile_id)
      with 2(1) [OF r] True show ?thesis by simp
    next
      case False
      have "c \<notin> set ?k" using cont_not_ascii [of c] assms(1) by (auto dest: set_takeWhileD)
      then have eq: "split_char c (d # ds) = ((d # ?k) @ hd (split_char c ?r)) # tl (split_char c ?r)"
        using skip [of "d # ?k" ?r] False by simp
      have "list_all is_utf8 (split_char c ?r)" by (rule 2(1) [OF r])
      then have "is_utf8 (hd (split_char c ?r))" "list_all is_utf8 (tl (split_char c ?r))"
        by (cases "split_char c ?r"; simp)+
      with is_utf8_encoding(1) [OF e] show ?thesis unfolding eq list.pred_inject
        by (simp only: is_utf8_append simp_thms)
    qed
  qed simp
  with assms(2) show ?thesis by blast
qed

lemma word_spans_sound:
  assumes s: "is_utf8 s" and ws: "list_all is_utf8 ws"
  shows "s = q @ t \<Longrightarrow> i \<le> length q \<Longrightarrow> is_char_boundary s i \<Longrightarrow> spans_from i s (word_spans ws (length q) t)"
proof (induction t arbitrary: q i rule: measure_induct_rule [of length])
  case (less t)
  show ?case
  proof (cases t)
    case Nil
    with less.prems show ?thesis by (simp add: word_spans.simps)
  next
    case (Cons c cs)
    show ?thesis
    proof (cases "find (\<lambda>w. w \<noteq> [] \<and> prefix w t) ws")
      case None
      have "spans_from i s (word_spans ws (length (q @ [c])) cs)"
        by (rule less.IH) (use Cons less.prems in auto)
      with None Cons show ?thesis by (subst word_spans.simps) simp
    next
      case (Some w)
      then have w: "w \<in> set ws" "w \<noteq> []" "prefix w t" by (auto dest: find_SomeD)
      then obtain u where u: "t = w @ u" by (auto simp: prefix_def)
      have uw: "is_utf8 w" using ws w by (simp add: list_all_iff)
      have cl: "starts_clean t" using is_utf8_clean [OF uw] w(2) u by (cases w) (auto simp: starts_clean_def)
      then have ut: "is_utf8 t" using s less.prems(1) by (simp add: is_utf8_split)
      then have uu: "is_utf8 u" using uw u utf8_strip by blast
      have "is_char_boundary s (length q)" using boundary_utf8 [OF ut] less.prems(1) by simp
      moreover have "is_char_boundary s (length (q @ w))"
        using boundary_utf8 [OF uu, of "q @ w"] less.prems(1) u by simp
      then have "spans_from (length (q @ w)) s (word_spans ws (length (q @ w)) u)"
        by (intro less.IH) (use u w less.prems in auto)
      moreover have "drop (length w) t = u" using u by simp
      then have "word_spans ws (length q) t = (length q, length q + length w) # word_spans ws (length q + length w) u"
        using Some Cons by (subst word_spans.simps) simp
      ultimately show ?thesis using less.prems by simp
    qed
  qed
qed

section \<open>The crates as documented\<close>

definition crates_sound :: "text_crates \<Rightarrow> bool" where
  "crates_sound tc \<longleftrightarrow>
     (\<forall>p r. rx_new tc p = Some r \<longrightarrow> regex_sound r) \<and> backtick_regex tc \<and> position_regex tc
     \<and> rx_new tc (''(?s)'' @ SENTENCE_BOUNDARY_PATTERN) \<noteq> None"

lemma sound_regex: "crates_sound tc \<Longrightarrow> rx_new tc p = Some r \<Longrightarrow> regex_sound r"
  by (auto simp: crates_sound_def)

lemma regex_soundD:
  assumes "regex_sound r" and "is_utf8 s"
  shows "spans_from 0 s (find_iter r s)" and "list_all is_utf8 (rx_split r s)" and "is_utf8 (rx_remove_all r s)"
    and "c \<in> set (rx_captures r s) \<Longrightarrow> cap_get c k = Some (a, b) \<Longrightarrow> \<exists>t. str_slice s a b = Ok t \<and> is_utf8 t"
proof -
  show sp: "spans_from 0 s (find_iter r s)" using assms by (simp add: regex_sound_def)
  show "list_all is_utf8 (rx_split r s)" and "is_utf8 (rx_remove_all r s)"
    using assms utf8_between [OF assms(2) sp] utf8_concat by (simp_all add: regex_sound_def)
  show "\<exists>t. str_slice s a b = Ok t \<and> is_utf8 t" if c: "c \<in> set (rx_captures r s)" "cap_get c k = Some (a, b)"
  proof -
    have "group_ok s c" using assms c(1) by (auto simp: regex_sound_def list_all_iff)
    moreover have "Some (a, b) \<in> set c" using c(2) by (auto simp: cap_get_def split: if_splits) (metis nth_mem)
    ultimately have "a \<le> b \<and> is_char_boundary s a \<and> is_char_boundary s b"
      by (auto simp: group_ok_def list_all_iff)
    then show ?thesis using assms(2) by (auto simp: str_slice_def utf8_between_boundaries)
  qed
qed

lemma position_remove_ok:
  assumes "crates_sound tc" and "is_utf8 s"
  shows "\<exists>t. position_remove tc s = Ok t \<and> is_utf8 t"
proof -
  obtain r where r: "rx_new tc ANY_POSITION_TAG = Some r"
    using assms(1) by (auto simp: crates_sound_def position_regex_def)
  with regex_soundD(3) [OF sound_regex [OF assms(1) r] assms(2)] show ?thesis
    by (simp add: position_remove_def expect_regex_def utf8_trim)
qed

lemma position_extract_ok:
  assumes "crates_sound tc" and "is_utf8 s"
  shows "\<exists>m. position_extract tc s = Ok m"
proof -
  obtain r where r: "rx_new tc POSITION_TAG = Some r"
      "\<And>c. c \<in> set (rx_captures r s) \<Longrightarrow> length c = 6 \<and> None \<notin> set c"
    using assms(1) unfolding crates_sound_def position_regex_def by blast
  have grp: "\<exists>t. cap_str s c k = Ok t" if c: "c \<in> set (rx_captures r s)" and k: "k < 6" for c k
  proof -
    have "c ! k \<in> set c" using r(2) [OF c] k by simp
    then have "c ! k \<noteq> None" using r(2) [OF c] by metis
    then obtain a b where "c ! k = Some (a, b)" by fast
    then have "cap_get c k = Some (a, b)" using r(2) [OF c] k by (simp add: cap_get_def)
    with regex_soundD(4) [OF sound_regex [OF assms(1) r(1)] assms(2) c] obtain t
      where "str_slice s a b = Ok t" by blast
    then show ?thesis using \<open>cap_get c k = Some (a, b)\<close> by (simp add: cap_str_def)
  qed
  have "\<exists>m'. position_step s c m = Ok m'" if "c \<in> set (rx_captures r s)" for c m
    using grp [OF that, of 1] grp [OF that, of 2] grp [OF that, of 3] grp [OF that, of 4] grp [OF that, of 5]
    by (auto simp: position_step_def split: option.splits)
  then show ?thesis using r(1) by (auto simp: position_extract_def expect_regex_def intro: res_fold_ok)
qed

lemma visible_text_ok:
  "crates_sound tc \<Longrightarrow> is_utf8 s \<Longrightarrow> \<exists>t. visible_text tc s aware = Ok t \<and> is_utf8 t"
  by (auto simp: visible_text_def position_remove_ok)

lemma delimiter_regex_ok:
  assumes tc: "crates_sound tc" and f: "is_utf8 field"
  shows "\<exists>o'. delimiter_regex tc field = Ok o' \<and> (\<forall>r. o' = Some r \<longrightarrow> regex_sound r)"
proof -
  have "\<exists>ds. parse_delimiter_field tc field = Ok ds"
    using tc f by (auto simp: crates_sound_def parse_delimiter_field_eq)
  then show ?thesis
    using tc by (auto simp: delimiter_regex_def crates_sound_def Let_def)
qed

lemma utf8_str_split:
  assumes "is_utf8 pat" and "is_utf8 s"
  shows "list_all is_utf8 (str_split pat s)"
proof (cases "pat = []")
  case True
  then show ?thesis using assms(2) by (simp add: str_split_def utf8_chars)
next
  case False
  have "spans_from 0 s (word_spans [pat] 0 s)"
    using word_spans_sound [OF assms(2), of "[pat]" "[]" s 0] assms(1) by (simp add: is_char_boundary_def)
  with False assms(2) show ?thesis by (simp add: str_split_def utf8_between)
qed

text \<open>A section is UTF-8, trimmed, and not blank.\<close>

definition is_section :: "string \<Rightarrow> bool" where
  "is_section s \<longleftrightarrow> is_utf8 s \<and> trim s = s \<and> s \<noteq> []"

lemma delimited_sections_ok:
  assumes tc: "crates_sound tc" and d: "is_utf8 (td_content doc)" "is_utf8 (pc_delimiter config)"
  shows "\<exists>ss. delimited_sections tc doc config = Ok ss \<and> list_all is_section ss"
proof -
  obtain o' where o': "delimiter_regex tc (pc_delimiter config) = Ok o'" "\<And>r. o' = Some r \<Longrightarrow> regex_sound r"
    using delimiter_regex_ok [OF tc d(2)] by auto
  let ?ps = "case o' of Some r \<Rightarrow> rx_split r (td_content doc) | None \<Rightarrow> str_split (pc_delimiter config) (td_content doc)"
  have "list_all is_utf8 ?ps"
    using o'(2) d regex_soundD(2) utf8_str_split by (auto split: option.splits)
  then have "list_all is_section (filter (\<lambda>s. s \<noteq> []) (map trim ?ps))"
    by (auto simp: list_all_iff is_section_def utf8_trim)
  then show ?thesis by (simp add: delimited_sections_def o'(1))
qed

lemma split_sentences_ok:
  assumes "crates_sound tc" and "is_utf8 s"
  shows "\<exists>ps. split_sentences_keep_boundaries tc s = Ok ps \<and> concat ps = s \<and> [] \<notin> set ps \<and> list_all is_utf8 ps"
proof -
  obtain r where r: "rx_new tc (''(?s)'' @ SENTENCE_BOUNDARY_PATTERN) = Some r"
    using assms(1) by (auto simp: crates_sound_def)
  note sp = regex_soundD(1) [OF sound_regex [OF assms(1) r] assms(2)]
  from sentence_loop_ok [OF this] obtain ps
    where "sentence_loop s 0 (find_iter r s) = Ok ps" "concat ps = s" "[] \<notin> set ps" by auto
  with r utf8_sentence_loop [OF assms(2)] show ?thesis
    by (auto simp: split_sentences_keep_boundaries_def)
qed

lemma split_keep_ok:
  assumes "\<And>r. pattern = Some r \<Longrightarrow> regex_sound r" and "is_utf8 s"
  shows "\<exists>ps. split_keep_delimiters s pattern = Ok ps \<and> concat ps = s \<and> list_all is_utf8 ps"
proof (cases pattern)
  case None
  then show ?thesis using assms(2) by (simp add: split_keep_delimiters_def)
next
  case (Some r)
  from keep_loop_ok [OF regex_soundD(1) [OF assms(1) [OF Some] assms(2)]] obtain ps
    where "keep_loop s 0 (find_iter r s) = Ok ps" "concat ps = s" by auto
  with Some utf8_keep_loop [OF assms(2)] show ?thesis
    by (auto simp: split_keep_delimiters_def)
qed

lemma wrapped_words_ok:
  assumes "\<And>c a b. c \<in> set cs \<Longrightarrow> cap_get c 1 = Some (a, b) \<Longrightarrow> \<exists>t. str_slice s a b = Ok t"
  shows "\<exists>ws. wrapped_words s cs = Ok ws"
  using assms
proof (induction cs)
  case (Cons c cs)
  then obtain ws where "wrapped_words s cs = Ok ws" by (meson list.set_intros(2))
  with Cons.prems [of c] show ?case by (cases "cap_get c 1") fastforce+
qed simp

lemma compile_delimiters_ok:
  assumes tc: "crates_sound tc" and d: "list_all is_utf8 delimiters"
  shows "\<exists>o'. compile_delimiters tc delimiters = Ok o' \<and> (\<forall>r. o' = Some r \<longrightarrow> regex_sound r)"
proof -
  obtain r where r: "rx_new tc BACKTICK_PATTERN = Some r"
    using tc by (auto simp: crates_sound_def backtick_regex_def)
  have "\<exists>ws. wrapped_words raw (rx_captures r raw) = Ok ws" if "raw \<in> set delimiters" for raw
    using regex_soundD(4) [OF sound_regex [OF tc r]] d that
    by (intro wrapped_words_ok) (fastforce simp: list_all_iff)
  then have "\<exists>custom. res_fold (\<lambda>raw custom. res_bind (expect_regex tc BACKTICK_PATTERN) (\<lambda>r.
      res_map (\<lambda>ws. custom @ ws) (wrapped_words raw (rx_captures r raw)))) delimiters [] = Ok custom"
    by (intro res_fold_ok) (fastforce simp: expect_regex_def r)
  then show ?thesis
    using tc by (auto simp: compile_delimiters_def regex_of_words_def crates_sound_def)
qed

text \<open>The carried overlap is the last characters of the chunk, or nothing if it has fewer.\<close>

lemma char_indices_append:
  "char_indices i (xs @ ys) = char_indices i xs @ char_indices (i + length (concat xs)) ys"
  by (induction xs arbitrary: i) (auto simp: add.assoc)

lemma carry_cut_eq:
  "count < n \<Longrightarrow> carry_cut n count (rev (char_indices i cs)) found
    = (if n - count \<le> length cs then i + length (concat (take (length cs - (n - count)) cs)) else found)"
proof (induction cs arbitrary: count rule: rev_induct)
  case (snoc c cs)
  show ?case
  proof (cases "n \<le> count + 1")
    case True
    with snoc.prems have "n - count = 1" by simp
    then show ?thesis using True by (simp add: char_indices_append)
  next
    case False
    then have "count + 1 < n" by simp
    from snoc.IH [OF this] False show ?thesis
      by (auto simp: char_indices_append Suc_diff_le Suc_diff_Suc)
  qed
qed simp

lemma carry_overlap_eq:
  assumes "is_utf8 s" and "0 < n"
  shows "carry_overlap s n = Ok (if n \<le> length (chars_of s)
      then concat (drop (length (chars_of s) - n) (chars_of s)) else [])"
proof (cases "n \<le> length (chars_of s)")
  case True
  let ?k = "length (chars_of s) - n"
  let ?a = "concat (take ?k (chars_of s))" and ?b = "concat (drop ?k (chars_of s))"
  have s: "s = ?a @ ?b" by (metis append_take_drop_id concat_append concat_chars_of)
  have "list_all is_utf8 (drop ?k (chars_of s))"
    using utf8_chars [OF assms(1)] by (auto simp: list_all_iff dest: in_set_dropD)
  then have "is_char_boundary s (length ?a)" by (subst s) (rule boundary_utf8 [OF utf8_concat])
  moreover have "drop (length ?a) s = ?b" by (subst (2) s) simp
  ultimately show ?thesis using True carry_cut_eq [OF assms(2), of 0 "chars_of s" "length s"]
    by (simp add: carry_overlap_def slice_from_def)
next
  case False
  then show ?thesis using carry_cut_eq [OF assms(2), of 0 "chars_of s" "length s"]
    by (simp add: carry_overlap_def slice_from_def is_char_boundary_def)
qed

lemma carry_overlap_ok:
  "is_utf8 s \<Longrightarrow> 0 < n \<Longrightarrow> \<exists>t. carry_overlap s n = Ok t \<and> is_utf8 t \<and> suffix t s"
proof -
  assume a: "is_utf8 s" "0 < n"
  let ?d = "drop (length (chars_of s) - n) (chars_of s)"
  have "suffix (concat ?d) (concat (chars_of s))"
    by (metis append_take_drop_id concat_append suffixI)
  moreover have "is_utf8 (concat ?d)"
    using utf8_chars [OF a(1)] by (intro utf8_concat) (auto simp: list_all_iff dest: in_set_dropD)
  ultimately show ?thesis by (simp add: carry_overlap_eq [OF a])
qed

section \<open>Merging sections\<close>

text \<open>A carried text and a run of sections, glued.\<close>

definition glued :: "string \<Rightarrow> string \<Rightarrow> string list \<Rightarrow> string" where
  "glued glue c g = join_with glue ((if c = [] then [] else [c]) @ g)"

text \<open>
  A chunk of several sections stays within the limit, when the glue counts no token and no section
  is blank (and the text is shorter than \<open>2\<^sup>4\<^sup>8\<close> bytes).
\<close>

definition fits :: "nat \<Rightarrow> string \<Rightarrow> string \<Rightarrow> string list \<Rightarrow> bool" where
  "fits limit glue c g \<longleftrightarrow>
     length g = 1 \<or>
     (silent glue \<and> list_all (\<lambda>s. trim s \<noteq> []) g \<and> length (glued glue c g) < 2 ^ 48
        \<longrightarrow> token_count (glued glue c g) \<le> limit)"

text \<open>
  The chunks a merge may produce from sections: each takes the next run of them, none lost, none
  twice, after what the chunk before it left to carry over.
\<close>

inductive merged :: "nat \<Rightarrow> string \<Rightarrow> (string \<Rightarrow> string res) \<Rightarrow> string \<Rightarrow> string list \<Rightarrow> string list \<Rightarrow> bool"
  for limit glue carry where
  merged_last: "g \<noteq> [] \<Longrightarrow> fits limit glue c g \<Longrightarrow> merged limit glue carry c g [glued glue c g]"
| merged_more: "g \<noteq> [] \<Longrightarrow> fits limit glue c g \<Longrightarrow> carry (glued glue c g) = Ok c' \<Longrightarrow>
    merged limit glue carry c' ss cs \<Longrightarrow> merged limit glue carry c (g @ ss) (glued glue c g # cs)"

inductive_cases merged_NilE: "merged limit glue carry c ss []"

definition merge_step ::
  "nat \<Rightarrow> string \<Rightarrow> (string \<Rightarrow> string res) \<Rightarrow> (string \<Rightarrow> nat \<Rightarrow> chunk) \<Rightarrow> string \<Rightarrow> merge_state \<Rightarrow> merge_state res" where
  "merge_step limit glue carry build s st =
     (case st of (chunks, current, pos) \<Rightarrow>
        res_map (\<lambda>(chunks, current, pos). (chunks, (if current \<noteq> [] then current @ glue else current) @ s, pos))
          (if limit < token_count current + token_count s \<and> current \<noteq> []
           then res_map (\<lambda>carried. (chunks @ [build current pos], carried, pos + 1)) (carry current)
           else Ok st))"

definition numbered :: "(string \<Rightarrow> nat \<Rightarrow> chunk) \<Rightarrow> nat \<Rightarrow> string list \<Rightarrow> chunk list" where
  "numbered build pos cs = map (\<lambda>(i, s). build s i) (List.enumerate pos cs)"

lemma numbered_simps [simp]:
  "numbered build pos [] = []"
  "numbered build pos (c # cs) = build c pos # numbered build (pos + 1) cs"
  "numbered build pos (cs @ ds) = numbered build pos cs @ numbered build (pos + length cs) ds"
  by (simp_all add: numbered_def enumerate_append_eq)

lemma join_with_snoc: "xs \<noteq> [] \<Longrightarrow> join_with sep (xs @ [x]) = join_with sep xs @ sep @ x"
  by (induction sep xs rule: join_with.induct) auto

lemma join_with_append:
  "xs \<noteq> [] \<Longrightarrow> ys \<noteq> [] \<Longrightarrow> join_with sep (xs @ ys) = join_with sep xs @ sep @ join_with sep ys"
proof (induction sep xs rule: join_with.induct)
  case (2 sep p)
  then show ?case by (cases ys) auto
qed auto

lemma glued_single: "glued glue c [s] = (if c \<noteq> [] then c @ glue else c) @ s"
  by (simp add: glued_def)

lemma glued_snoc: "g \<noteq> [] \<Longrightarrow> glued glue c (g @ [s]) = glued glue c g @ glue @ s"
  using join_with_snoc [of "(if c = [] then [] else [c]) @ g" glue s] by (simp add: glued_def)

lemma join_with_Nil_iff: "[] \<notin> set xs \<Longrightarrow> join_with sep xs = [] \<longleftrightarrow> xs = []"
  by (induction sep xs rule: join_with.induct) auto

lemma glued_ne: "g \<noteq> [] \<Longrightarrow> [] \<notin> set g \<Longrightarrow> glued glue c g \<noteq> []"
  unfolding glued_def by (subst join_with_Nil_iff) auto

lemma utf8_join: "is_utf8 glue \<Longrightarrow> list_all is_utf8 xs \<Longrightarrow> is_utf8 (join_with glue xs)"
  by (induction glue xs rule: join_with.induct) (auto simp: is_utf8_append)

lemma utf8_glued: "is_utf8 glue \<Longrightarrow> is_utf8 c \<Longrightarrow> list_all is_utf8 g \<Longrightarrow> is_utf8 (glued glue c g)"
  unfolding glued_def by (rule utf8_join) auto

locale section_merge =
  fixes limit :: nat and glue :: string and carry :: "string \<Rightarrow> string res" and build :: "string \<Rightarrow> nat \<Rightarrow> chunk"
  assumes carry_ok: "is_utf8 s \<Longrightarrow> \<exists>c. carry s = Ok c \<and> is_utf8 c"
    and build_content: "ch_content (build s n) = s"
    and build_position: "ch_position (build s n) = n"
begin

lemma fits_snoc:
  assumes g: "g \<noteq> []" "list_all is_utf8 g" "is_utf8 glue" "is_utf8 c" "is_utf8 s"
    and le: "token_count (glued glue c g) + token_count s \<le> limit"
  shows "fits limit glue c (g @ [s])"
proof -
  have "token_count (glued glue c (g @ [s])) \<le> limit"
    if "silent glue" and "trim s \<noteq> []" and "length (glued glue c (g @ [s])) < 2 ^ 48"
  proof -
    have "token_count (glued glue c g @ glue @ s) \<le> token_count (glued glue c g) + token_count s"
      using that g by (intro token_count_join) (simp_all add: glued_snoc is_utf8_clean is_utf8_append)
    with le show ?thesis by (simp add: glued_snoc [OF g(1)])
  qed
  then show ?thesis by (auto simp: fits_def)
qed

text \<open>The loop, from a chunk under construction.\<close>

lemma loop:
  assumes glue: "is_utf8 glue"
  shows "g \<noteq> [] \<Longrightarrow> list_all is_utf8 g \<Longrightarrow> [] \<notin> set g \<Longrightarrow> is_utf8 c \<Longrightarrow> fits limit glue c g \<Longrightarrow>
    list_all is_utf8 ss \<Longrightarrow> [] \<notin> set ss \<Longrightarrow>
    \<exists>cs current. res_fold (merge_step limit glue carry build) ss (chunks, glued glue c g, pos)
        = Ok (chunks @ numbered build pos cs, current, pos + length cs)
      \<and> merged limit glue carry c (g @ ss) (cs @ [current]) \<and> is_utf8 current \<and> current \<noteq> []"
proof (induction ss arbitrary: chunks g c pos)
  case Nil
  then show ?case
    by (intro exI [of _ "[]"] exI [of _ "glued glue c g"])
       (simp add: merged_last utf8_glued glue glued_ne)
next
  case (Cons s ss)
  let ?cur = "glued glue c g"
  have cur: "?cur \<noteq> []" "is_utf8 ?cur" using Cons.prems by (simp_all add: glued_ne utf8_glued glue)
  show ?case
  proof (cases "limit < token_count ?cur + token_count s")
    case True
    obtain c' where c': "carry ?cur = Ok c'" "is_utf8 c'" using carry_ok [OF cur(2)] by auto
    have step: "merge_step limit glue carry build s (chunks, ?cur, pos)
        = Ok (chunks @ [build ?cur pos], glued glue c' [s], pos + 1)"
      using True cur(1) c'(1) by (simp add: merge_step_def glued_single)
    have "fits limit glue c' [s]" by (simp add: fits_def)
    then obtain cs current where rest:
      "res_fold (merge_step limit glue carry build) ss (chunks @ [build ?cur pos], glued glue c' [s], pos + 1)
        = Ok ((chunks @ [build ?cur pos]) @ numbered build (pos + 1) cs, current, pos + 1 + length cs)"
      "merged limit glue carry c' ([s] @ ss) (cs @ [current])" "is_utf8 current" "current \<noteq> []"
      using Cons.IH [of "[s]" c' "chunks @ [build ?cur pos]" "pos + 1"] Cons.prems c'(2) by auto
    then show ?thesis
      using step merged_more [OF Cons.prems(1,5) c'(1) rest(2)]
      by (intro exI [of _ "?cur # cs"] exI [of _ current]) simp
  next
    case False
    have g: "glued glue c (g @ [s]) = ?cur @ glue @ s" by (rule glued_snoc [OF Cons.prems(1)])
    have step: "merge_step limit glue carry build s (chunks, ?cur, pos) = Ok (chunks, glued glue c (g @ [s]), pos)"
      using False cur(1) by (simp add: merge_step_def g)
    have "fits limit glue c (g @ [s])"
      using False Cons.prems by (intro fits_snoc) (simp_all add: glue)
    then show ?thesis
      using Cons.IH [of "g @ [s]" c chunks pos] Cons.prems step by simp
  qed
qed

text \<open>The loop from the start: all sections, once each and in order.\<close>

lemma merge:
  assumes "is_utf8 glue" and "ss \<noteq> []" and "list_all is_utf8 ss" and "[] \<notin> set ss"
  obtains cs current where
    "res_fold (merge_step limit glue carry build) ss ([], [], 0) = Ok (numbered build 0 cs, current, length cs)"
    and "merged limit glue carry [] ss (cs @ [current])" and "is_utf8 current" and "current \<noteq> []"
proof -
  obtain s ss' where ss: "ss = s # ss'" using assms(2) by (cases ss) auto
  have "merge_step limit glue carry build s ([], [], 0) = Ok ([], glued glue [] [s], 0)"
    by (simp add: merge_step_def glued_single)
  with loop [OF assms(1), of "[s]" "[]" ss' "[]" 0] assms ss show thesis
    by (auto simp: fits_def intro: that)
qed

lemma numbered_content: "map ch_content (numbered build pos cs) = cs"
  by (induction cs arbitrary: pos) (simp_all add: build_content)

lemma numbered_position: "map ch_position (numbered build pos cs) = [pos ..< pos + length cs]"
proof (induction cs arbitrary: pos)
  case (Cons c cs)
  have "[pos ..< pos + length (c # cs)] = pos # [Suc pos ..< pos + length (c # cs)]"
    by (rule upt_conv_Cons) simp
  with Cons [of "pos + 1"] show ?case by (simp add: build_position del: upt_Suc)
qed simp

lemma merged_utf8:
  "merged limit glue carry c ss cs \<Longrightarrow> is_utf8 glue \<Longrightarrow> is_utf8 c \<Longrightarrow> list_all is_utf8 ss \<Longrightarrow> list_all is_utf8 cs"
proof (induction rule: merged.induct)
  case (merged_more g c c' ss cs)
  then have "is_utf8 (glued glue c g)" by (simp add: utf8_glued)
  moreover from carry_ok [OF this] merged_more(3) have "is_utf8 c'" by auto
  ultimately show ?case using merged_more by simp
qed (simp add: utf8_glued)

end

text \<open>What a merge keeps: without a carry-over the chunks are the sections, glued.\<close>

lemma merged_ne: "merged limit glue carry c ss cs \<Longrightarrow> ss \<noteq> [] \<and> cs \<noteq> []"
  by (induction rule: merged.induct) auto

lemma merged_lossless:
  "merged limit glue carry c ss cs \<Longrightarrow> c = [] \<Longrightarrow> (\<And>s. carry s = Ok []) \<Longrightarrow> join_with glue cs = join_with glue ss"
proof (induction rule: merged.induct)
  case (merged_last g c)
  then show ?case by (simp add: glued_def)
next
  case (merged_more g c c' ss cs)
  then have "join_with glue cs = join_with glue ss" by simp
  with merged_more merged_ne [OF merged_more(4)] show ?case
    by (cases cs) (simp_all add: glued_def join_with_append)
qed

section \<open>The naive chunker merges\<close>

definition plain_chunk :: "document \<Rightarrow> string \<Rightarrow> nat \<Rightarrow> chunk" where
  "plain_chunk doc content position =
     \<lparr>ch_id = chunk_id (td_id doc) position, ch_content = content, ch_type = ''text'',
      ch_doc = td_id doc, ch_position = position, ch_tokens = token_count content, ch_embedding = None,
      ch_metadata = hput ''file_name'' (td_name doc) (hdel RAGFLOW_POSITION_TAGS_METADATA (td_metadata doc))\<rparr>"

lemma build_chunk_plain: "build_chunk tc doc content position False = Ok (plain_chunk doc content position)"
  by (simp add: build_chunk_def visible_text_def plain_chunk_def Let_def)

definition naive_carry :: "parser_config \<Rightarrow> string \<Rightarrow> string res" where
  "naive_carry config current =
     Ok (if 0 < overlap_tokens config \<and> overlap_tokens config < token_count current
         then overlap_loop (overlap_tokens config) (rev (split_char (CHR 0x0A) current)) [] else [])"

lemma utf8_overlap_loop: "list_all is_utf8 ls \<Longrightarrow> is_utf8 r \<Longrightarrow> is_utf8 (overlap_loop n ls r)"
proof (induction n ls r rule: overlap_loop.induct)
  case (2 n line ls r)
  have "is_utf8 (line @ (if r \<noteq> [] then LF else []) @ r)"
    using 2(2,3) by (auto simp: is_utf8_append is_utf8_ascii byte_val_def)
  with 2 show ?case by simp
qed simp

interpretation naive_merge: section_merge "pc_chunk_token_num config" "pc_delimiter config" "naive_carry config"
    "plain_chunk doc" for config doc
proof
  fix s assume "is_utf8 s"
  then show "\<exists>c. naive_carry config s = Ok c \<and> is_utf8 c"
    using utf8_split_char [of "CHR 0x0A" s]
    by (auto simp: naive_carry_def byte_val_def intro!: utf8_overlap_loop)
qed (simp_all add: plain_chunk_def)

lemma naive_step_merge:
  "naive_step tc doc config False s st
    = merge_step (pc_chunk_token_num config) (pc_delimiter config) (naive_carry config) (plain_chunk doc) s st"
  by (cases st)
     (simp add: naive_step_def merge_step_def visible_token_count_def visible_text_def build_chunk_plain
       naive_carry_def extract_overlap_def)

lemma is_section_simps:
  "list_all is_section ss \<Longrightarrow> list_all is_utf8 ss \<and> [] \<notin> set ss \<and> list_all (\<lambda>s. trim s \<noteq> []) ss"
  by (auto simp: list_all_iff is_section_def)

text \<open>The last chunk ends with a section, so it is not blank.\<close>

lemma merged_last_section:
  "merged limit glue carry c ss cs \<Longrightarrow> \<exists>p. List.last cs = p @ List.last ss"
proof (induction rule: merged.induct)
  case (merged_last g c)
  obtain g' s where g: "g = g' @ [s]" using merged_last(1) by (cases g rule: rev_cases) auto
  then show ?case
    by (cases "g' = []") (auto simp: glued_single glued_snoc)
next
  case (merged_more g c c' ss cs)
  then show ?case using merged_ne [OF merged_more(4)] by auto
qed

text \<open>A text is blank when all its characters are white space.\<close>

lemma strip_front_parts: "\<exists>ws. set ws \<subseteq> set es \<and> s = concat ws @ strip_front es s"
proof (induction es s rule: strip_front.induct)
  case (1 es s)
  show ?case
  proof (cases "find (\<lambda>e. e \<noteq> [] \<and> prefix e s) es")
    case None
    then show ?thesis by (intro exI [of _ "[]"]) (simp add: strip_front.simps [of es s])
  next
    case (Some e)
    then have e: "e \<in> set es" "prefix e s" by (auto dest: find_SomeD)
    obtain ws where ws: "set ws \<subseteq> set es" "drop (length e) s = concat ws @ strip_front es (drop (length e) s)"
      using 1 [OF Some] by auto
    have "s = e @ drop (length e) s" using e(2) by (auto simp: prefix_def)
    then have "s = concat (e # ws) @ strip_front es s"
      using ws(2) Some by (simp add: strip_front.simps [of es s])
    with e(1) ws(1) show ?thesis by (intro exI [of _ "e # ws"]) simp
  qed
qed

lemma chars_of_concat: "list_all utf8_char ws \<Longrightarrow> chars_of (concat ws) = ws"
proof (induction ws)
  case (Cons w ws)
  then have "is_utf8 (concat ws)" by (intro utf8_concat) (simp add: list_all_iff is_utf8_encoding)
  with Cons show ?case by (simp add: chars_of_append [OF is_utf8_clean] is_utf8_encoding)
qed simp

lemma blank_chars:
  assumes "trim s = []"
  shows "list_all is_ws_char (chars_of s)"
proof -
  obtain ws1 where 1: "set ws1 \<subseteq> set ws_encodings" "s = concat ws1 @ trim_start s"
    using strip_front_parts [of ws_encodings s] by (auto simp: trim_start_def)
  obtain ws2 where 2: "set ws2 \<subseteq> set (map rev ws_encodings)"
      "rev (trim_start s) = concat ws2 @ strip_front (map rev ws_encodings) (rev (trim_start s))"
    using strip_front_parts [of "map rev ws_encodings" "rev (trim_start s)"] by auto
  have "strip_front (map rev ws_encodings) (rev (trim_start s)) = []"
    using assms by (simp add: trim_def trim_end_def)
  then have "trim_start s = concat (map rev (rev ws2))"
    using 2(2) by (metis append_Nil2 rev_concat rev_map rev_rev_ident)
  with 1(2) have s: "s = concat (ws1 @ map rev (rev ws2))" by simp
  have "set (ws1 @ map rev (rev ws2)) \<subseteq> set ws_encodings" using 1(1) 2(1) by auto
  then have "list_all utf8_char (ws1 @ map rev (rev ws2))" and "list_all is_ws_char (ws1 @ map rev (rev ws2))"
    using ws_encodings_utf8 by (auto simp: list_all_iff is_ws_char_def)
  then show ?thesis by (subst s) (simp only: chars_of_concat)
qed

lemma chars_blank:
  assumes "is_utf8 s" and "list_all is_ws_char (chars_of s)"
  shows "trim s = []"
proof -
  have "list_all is_ws_char ws \<Longrightarrow> strip_front ws_encodings (concat ws) = []" for ws
  proof (induction ws)
    case Nil
    then show ?case using trim_start_suffix [of "[]"] by (simp add: trim_start_def)
  next
    case (Cons w ws)
    have u: "list_all utf8_char (w # ws)"
      using Cons.prems ws_encodings_utf8 by (auto simp: list_all_iff is_ws_char_def)
    have w: "w \<in> set ws_encodings" "w \<noteq> []" using Cons.prems u by (auto simp: is_ws_char_def utf8_char_def)
    then obtain e where e: "find (\<lambda>e. e \<noteq> [] \<and> prefix e (concat (w # ws))) ws_encodings = Some e"
      by (cases "find (\<lambda>e. e \<noteq> [] \<and> prefix e (concat (w # ws))) ws_encodings") (auto dest: find_NoneD)
    then have "e \<in> set ws_encodings" and "prefix e (concat (w # ws))" by (auto dest: find_SomeD)
    then obtain t where t: "concat (w # ws) = e @ t" and ue: "utf8_char e"
      using ws_encodings_utf8 by (auto simp: prefix_def list_all_iff)
    have "is_utf8 (e @ t)"
      using u by (subst t [symmetric], intro utf8_concat) (auto simp: list_all_iff is_utf8_encoding)
    then have "is_utf8 t" by (rule utf8_char_strip [OF ue])
    then have "chars_of (e @ t) = e # chars_of t"
      by (simp add: chars_of_append [OF is_utf8_clean] is_utf8_encoding(2) [OF ue])
    then have "e = w" using chars_of_concat [OF u] t by simp
    with e Cons show ?case by (simp add: strip_front.simps [of ws_encodings "w @ concat ws"])
  qed
  from this [OF assms(2)] have "trim_start s = []" by (simp add: trim_start_def)
  moreover have "trim_end [] = []" using trim_end_prefix [of "[]"] by simp
  ultimately show ?thesis by (simp add: trim_def)
qed

lemma trim_Nil_suffix:
  assumes "is_utf8 s" and "trim (p @ s) = []"
  shows "trim s = []"
  using blank_chars [OF assms(2)] assms(1)
  by (intro chars_blank) (simp_all add: chars_of_append [OF is_utf8_clean])

end
