(* ===== verification/Chunk_Contract.thy ===== *)
theory Chunk_Contract
  imports Chunk_Proofs
begin

text \<open>
  The contract of the trait \<open>ChunkStrategy\<close> of \<^verbatim>\<open>src/chunk/mod.rs\<close>, as a locale: a strategy always returns,
  and its chunks belong to the document, carry their own token counts, and have distinct ids. Each
  of the four strategies is an interpretation.
\<close>

definition chunk_wf :: "document \<Rightarrow> chunk \<Rightarrow> bool" where
  "chunk_wf doc c \<longleftrightarrow>
     ch_doc c = td_id doc \<and> ch_type c = ''text'' \<and> ch_tokens c = token_count (ch_content c) \<and> ch_embedding c = None"

definition well_chunked :: "document \<Rightarrow> chunk list \<Rightarrow> bool" where
  "well_chunked doc cs \<longleftrightarrow> list_all (chunk_wf doc) cs \<and> distinct (map ch_id cs)"

definition texts_ok :: "document \<Rightarrow> parser_config \<Rightarrow> bool" where
  "texts_ok doc config \<longleftrightarrow>
     is_utf8 (td_content doc) \<and> is_utf8 (pc_delimiter config) \<and> list_all is_utf8 (pc_delimiters config)"

locale chunk_strategy =
  fixes run :: "text_crates \<Rightarrow> document \<Rightarrow> parser_config \<Rightarrow> chunk list res"
  assumes returns: "crates_sound tc \<Longrightarrow> texts_ok doc config \<Longrightarrow> \<exists>cs. run tc doc config = Ok cs \<and> well_chunked doc cs"
begin

lemma never_fails: "crates_sound tc \<Longrightarrow> texts_ok doc config \<Longrightarrow> is_ok (run tc doc config)"
  using returns [of tc doc config] by (auto simp: is_ok_iff)

lemma chunk_of:
  "crates_sound tc \<Longrightarrow> texts_ok doc config \<Longrightarrow> run tc doc config = Ok cs \<Longrightarrow> c \<in> set cs \<Longrightarrow>
     ch_doc c = td_id doc \<and> ch_tokens c = token_count (ch_content c)"
  using returns [of tc doc config] by (auto simp: well_chunked_def list_all_iff chunk_wf_def)

end

section \<open>Ids\<close>

lemma chunk_id_inj: "chunk_id d m = chunk_id d n \<longleftrightarrow> m = n"
  by (simp add: chunk_id_def nat_to_str_inj)

text \<open>Chunks numbered by their positions.\<close>

definition placed :: "document \<Rightarrow> chunk list \<Rightarrow> bool" where
  "placed doc cs \<longleftrightarrow> list_all (\<lambda>c. chunk_wf doc c \<and> ch_id c = chunk_id (td_id doc) (ch_position c)) cs"

lemma placed_simps [simp]:
  "placed doc []"
  "placed doc (cs @ ds) \<longleftrightarrow> placed doc cs \<and> placed doc ds"
  "placed doc (c # cs) \<longleftrightarrow> chunk_wf doc c \<and> ch_id c = chunk_id (td_id doc) (ch_position c) \<and> placed doc cs"
  by (auto simp: placed_def)

lemma placed_ids: "placed doc cs \<Longrightarrow> map ch_id cs = map (chunk_id (td_id doc)) (map ch_position cs)"
  by (induction cs) auto

lemma placed_well_chunked: "placed doc cs \<Longrightarrow> distinct (map ch_position cs) \<Longrightarrow> well_chunked doc cs"
  unfolding well_chunked_def using placed_ids [of doc cs]
  by (auto simp: placed_def list_all_iff distinct_map inj_on_def chunk_id_inj)

lemma token_build_wf [simp]:
  "chunk_wf doc (token_build doc s n)" "ch_position (token_build doc s n) = n"
  "ch_id (token_build doc s n) = chunk_id (td_id doc) n" "ch_content (token_build doc s n) = s"
  by (simp_all add: token_build_def chunk_wf_def)

lemma placed_numbered:
  assumes "\<And>s n. chunk_wf doc (build s n) \<and> ch_id (build s n) = chunk_id (td_id doc) n \<and> ch_position (build s n) = n"
  shows "placed doc (numbered build pos cs)"
  using assms by (induction cs arbitrary: pos) simp_all

lemma res_fold_inv:
  assumes "\<And>x s. x \<in> set xs \<Longrightarrow> I s \<Longrightarrow> \<exists>s'. f x s = Ok s' \<and> I s'" and "I s"
  shows "\<exists>s'. res_fold f xs s = Ok s' \<and> I s'"
  using assms
proof (induction xs arbitrary: s)
  case (Cons x xs)
  then obtain s1 where "f x s = Ok s1" "I s1" by (meson list.set_intros(1))
  with Cons show ?case by simp
qed simp

section \<open>The naive strategy\<close>

lemma build_chunk_ok:
  assumes "crates_sound tc" and "is_utf8 s"
  shows "\<exists>c. build_chunk tc doc s n aware = Ok c \<and> chunk_wf doc c \<and> ch_id c = chunk_id (td_id doc) n \<and> ch_position c = n"
proof -
  obtain t where t: "visible_text tc s aware = Ok t" using visible_text_ok [OF assms] by blast
  obtain m where "position_extract tc s = Ok m" using position_extract_ok [OF assms] by blast
  with t show ?thesis by (cases aware) (simp_all add: build_chunk_def chunk_wf_def Let_def)
qed

lemma extract_overlap_ok:
  assumes "crates_sound tc" and "is_utf8 s"
  shows "\<exists>t. extract_overlap tc s n aware = Ok t \<and> is_utf8 t"
proof -
  obtain v where "visible_text tc s aware = Ok v" "is_utf8 v" using visible_text_ok [OF assms] by blast
  then show ?thesis using utf8_split_char [of "CHR 0x0A" v]
    by (auto simp: extract_overlap_def byte_val_def intro!: utf8_overlap_loop)
qed

definition naive_inv :: "document \<Rightarrow> merge_state \<Rightarrow> bool" where
  "naive_inv doc st \<longleftrightarrow> (case st of (chunks, current, pos) \<Rightarrow>
     placed doc chunks \<and> map ch_position chunks = [0 ..< pos] \<and> is_utf8 current)"

lemma naive_step_inv:
  assumes tc: "crates_sound tc" and t: "is_utf8 (pc_delimiter config)" "is_utf8 s" and st: "naive_inv doc st"
  shows "\<exists>st'. naive_step tc doc config aware s st = Ok st' \<and> naive_inv doc st'"
proof -
  obtain chunks current pos where st_eq: "st = (chunks, current, pos)" by (cases st)
  have cur: "is_utf8 current" using st st_eq by (simp add: naive_inv_def)
  obtain v w where v: "visible_text tc s aware = Ok v" "visible_text tc current aware = Ok w"
    using visible_text_ok [OF tc t(2)] visible_text_ok [OF tc cur] by blast
  obtain c where c: "build_chunk tc doc current pos aware = Ok c" "chunk_wf doc c"
      "ch_id c = chunk_id (td_id doc) pos" "ch_position c = pos"
    using build_chunk_ok [OF tc cur] by blast
  obtain o' where o': "extract_overlap tc current (overlap_tokens config) aware = Ok o'" "is_utf8 o'"
    using extract_overlap_ok [OF tc cur] by blast
  have app: "is_utf8 x \<Longrightarrow> is_utf8 ((if x \<noteq> [] then x @ pc_delimiter config else x) @ s)" for x
    using t by (simp add: is_utf8_append)
  show ?thesis
    using st c o' app [of current] app [of o'] app [of "[]"]
    by (auto simp: st_eq naive_inv_def naive_step_def visible_token_count_def v)
qed

lemma naive_returns:
  assumes tc: "crates_sound tc" and t: "texts_ok doc config"
  shows "\<exists>cs. naive_chunk tc doc config = Ok cs \<and> placed doc cs \<and> map ch_position cs = [0 ..< length cs]"
proof -
  have u: "is_utf8 (td_content doc)" "is_utf8 (pc_delimiter config)" using t by (simp_all add: texts_ok_def)
  obtain ss where ss: "delimited_sections tc doc config = Ok ss" "list_all is_section ss"
    using delimited_sections_ok [OF tc u] by blast
  have "\<exists>st. res_fold (naive_step tc doc config (position_aware doc)) ss ([], [], 0) = Ok st \<and> naive_inv doc st"
    using ss(2) by (intro res_fold_inv naive_step_inv [OF tc u(2)])
      (auto simp: list_all_iff is_section_def naive_inv_def)
  then obtain chunks current pos
    where st: "res_fold (naive_step tc doc config (position_aware doc)) ss ([], [], 0) = Ok (chunks, current, pos)"
      and inv: "placed doc chunks" "map ch_position chunks = [0 ..< pos]" "is_utf8 current"
    by (auto simp: naive_inv_def)
  have len: "length chunks = pos" using inv(2) by (metis diff_zero length_map length_upt)
  obtain c where "build_chunk tc doc current pos (position_aware doc) = Ok c" "chunk_wf doc c"
      "ch_id c = chunk_id (td_id doc) pos" "ch_position c = pos"
    using build_chunk_ok [OF tc inv(3)] by blast
  then show ?thesis using ss(1) st inv len by (simp add: naive_chunk_def Let_def)
qed

interpretation naive: chunk_strategy naive_chunk
proof
  fix tc doc config assume "crates_sound tc" and "texts_ok doc config"
  from naive_returns [OF this] show "\<exists>cs. naive_chunk tc doc config = Ok cs \<and> well_chunked doc cs"
    using placed_well_chunked by fastforce
qed

interpretation single: chunk_strategy single_chunk
proof
  fix tc doc config
  show "\<exists>cs. single_chunk tc doc config = Ok cs \<and> well_chunked doc cs"
    by (simp add: single_chunk_def well_chunked_def chunk_wf_def Let_def)
qed

section \<open>The token strategy\<close>

definition token_carry :: "parser_config \<Rightarrow> string \<Rightarrow> string res" where
  "token_carry config current =
     (if 0 < token_overlap config then carry_overlap current (token_overlap config) else Ok [])"

interpretation token_merge: section_merge "pc_chunk_token_num config" LF "token_carry config" "token_build doc" for config doc
proof
  fix s assume "is_utf8 s"
  then show "\<exists>c. token_carry config s = Ok c \<and> is_utf8 c"
    using carry_overlap_ok [of s "token_overlap config"] by (auto simp: token_carry_def)
qed simp_all

lemma token_step_merge:
  "s \<noteq> [] \<Longrightarrow> token_step doc config s st
    = merge_step (pc_chunk_token_num config) LF (token_carry config) (token_build doc) s st"
  by (cases st) (auto simp: token_step_def merge_step_def token_carry_def)

lemma resplit_ok:
  assumes "crates_sound tc"
  shows "list_all is_utf8 ss \<Longrightarrow> [] \<notin> set ss \<Longrightarrow>
    \<exists>ps. resplit tc limit ss = Ok ps \<and> concat ps = concat ss \<and> [] \<notin> set ps \<and> list_all is_utf8 ps"
proof (induction ss)
  case (Cons s ss)
  then obtain ps where ps: "resplit tc limit ss = Ok ps" "concat ps = concat ss" "[] \<notin> set ps" "list_all is_utf8 ps"
    by auto
  obtain qs where "split_sentences_keep_boundaries tc s = Ok qs" "concat qs = s" "[] \<notin> set qs" "list_all is_utf8 qs"
    using split_sentences_ok [OF assms, of s] Cons.prems by auto
  with ps Cons.prems show ?case by auto
qed simp

lemma res_fold_cong:
  "(\<And>x s. x \<in> set xs \<Longrightarrow> f x s = g x s) \<Longrightarrow> res_fold f xs s = res_fold g xs s"
proof (induction xs arbitrary: s)
  case (Cons x xs)
  then show ?case by (cases "g x s") simp_all
qed simp

lemma LF_utf8: "is_utf8 LF"
  by (simp add: is_utf8_ascii byte_val_def)

lemma merge_by_token_size_eq:
  assumes tc: "crates_sound tc" and ss: "list_all is_section ss" "ss \<noteq> []"
  obtains ps cs where "resplit tc (pc_chunk_token_num config) ss = Ok ps"
    and "merged (pc_chunk_token_num config) LF (token_carry config) [] ps cs"
    and "merge_by_token_size tc doc config ss = Ok (numbered (token_build doc) 0
           (if trim (List.last cs) \<noteq> [] then cs else butlast cs))"
    and "list_all is_utf8 ps" and "concat ps = concat ss"
proof -
  have u: "list_all is_utf8 ss" "[] \<notin> set ss" using is_section_simps [OF ss(1)] by auto
  obtain ps where ps: "resplit tc (pc_chunk_token_num config) ss = Ok ps" "concat ps = concat ss"
      "[] \<notin> set ps" "list_all is_utf8 ps"
    using resplit_ok [OF tc u] by blast
  have "concat ss \<noteq> []" using ss(2) u(2) by (cases ss) auto
  then have ne: "ps \<noteq> []" using ps(2) by auto
  obtain cs current where m:
    "res_fold (merge_step (pc_chunk_token_num config) LF (token_carry config) (token_build doc)) ps ([], [], 0)
       = Ok (numbered (token_build doc) 0 cs, current, length cs)"
    "merged (pc_chunk_token_num config) LF (token_carry config) [] ps (cs @ [current])"
    by (rule token_merge.merge [OF LF_utf8 ne ps(4,3), where config = config and doc = doc])
  have "res_fold (token_step doc config) ps ([], [], 0) = Ok (numbered (token_build doc) 0 cs, current, length cs)"
    using res_fold_cong [of ps "token_step doc config"] token_step_merge ps(3) m(1) by metis
  then have "merge_by_token_size tc doc config ss = Ok (numbered (token_build doc) 0
      (if trim (List.last (cs @ [current])) \<noteq> [] then cs @ [current] else butlast (cs @ [current])))"
    using ps(1) by (simp add: merge_by_token_size_def)
  with ps m(2) show thesis using that by blast
qed

lemma placed_token_build: "placed doc (numbered (token_build doc) pos cs)"
  by (rule placed_numbered) simp

lemma number_sections_eq: "number_sections doc ss pos = numbered (token_build doc) pos (filter (\<lambda>s. trim s \<noteq> []) ss)"
  by (induction doc ss pos rule: number_sections.induct) auto

lemma delimited_sections_section:
  "crates_sound tc \<Longrightarrow> texts_ok doc config \<Longrightarrow>
    \<exists>ss. delimited_sections tc doc config = Ok ss \<and> list_all is_section ss"
  by (rule delimited_sections_ok) (simp_all add: texts_ok_def)

text \<open>Without children the token chunker numbers its pieces from zero.\<close>

lemma token_base_returns:
  assumes tc: "crates_sound tc" and t: "texts_ok doc config"
  shows "\<exists>cs. token_base tc doc config = Ok (numbered (token_build doc) 0 cs) \<and> list_all is_utf8 cs"
proof (cases "pc_delimiter_mode config = ''one''")
  case True
  let ?s = "trim (td_content doc)"
  show ?thesis
    using True t utf8_trim [of "td_content doc"]
    by (intro exI [of _ "if ?s = [] then [] else [?s]"]) (simp add: token_base_def texts_ok_def Let_def)
next
  case False
  have u: "is_utf8 (td_content doc)" "list_all is_utf8 (pc_delimiters config)" using t by (simp_all add: texts_ok_def)
  obtain o' where o': "compile_delimiters tc (pc_delimiters config) = Ok o'" "\<And>r. o' = Some r \<Longrightarrow> regex_sound r"
    using compile_delimiters_ok [OF tc u(2)] by auto
  obtain ps where ps: "split_keep_delimiters (td_content doc) o' = Ok ps" "list_all is_utf8 ps"
    using split_keep_ok [OF o'(2) u(1)] by blast
  obtain ss where ss: "delimited_sections tc doc config = Ok ss" "list_all is_section ss"
    using delimited_sections_section [OF tc t] by blast
  show ?thesis
  proof (cases "o' \<noteq> None \<or> list_ex (\<lambda>d. trim d \<noteq> []) (pc_delimiters config)")
    case True
    then show ?thesis using False o'(1) ps
      by (intro exI [of _ "filter (\<lambda>s. trim s \<noteq> []) ps"])
         (auto simp: token_base_def number_sections_eq list_all_iff)
  next
    case no: False
    show ?thesis
    proof (cases "ss = []")
      case True
      then show ?thesis using False no o'(1) ss(1) by (intro exI [of _ "[]"]) (simp add: token_base_def)
    next
      case ne: False
      obtain ps cs where m: "resplit tc (pc_chunk_token_num config) ss = Ok ps"
          "merged (pc_chunk_token_num config) LF (token_carry config) [] ps cs"
          "merge_by_token_size tc doc config ss = Ok (numbered (token_build doc) 0
             (if trim (List.last cs) \<noteq> [] then cs else butlast cs))"
          "list_all is_utf8 ps"
        by (rule merge_by_token_size_eq [OF tc ss(2) ne])
      have "list_all is_utf8 cs"
        using token_merge.merged_utf8 [OF m(2)] m(4) LF_utf8 by simp
      then show ?thesis using False no o'(1) ss(1) ne m(3)
        by (intro exI [of _ "if trim (List.last cs) \<noteq> [] then cs else butlast cs"])
           (auto simp: token_base_def list_all_iff dest: in_set_butlastD)
    qed
  qed
qed

text \<open>Children come after all positions given out, so ids never clash.\<close>

lemma children_of_placed:
  "children_of doc mom parts n = (ds, m) \<Longrightarrow>
     placed doc ds \<and> n \<le> m \<and> map ch_position ds = [n ..< m]"
proof (induction parts arbitrary: n ds m)
  case (Cons part parts)
  show ?case
  proof (cases "trim part = []")
    case True
    with Cons show ?thesis by simp
  next
    case False
    obtain es k where e: "children_of doc mom parts (n + 1) = (es, k)" by (cases "children_of doc mom parts (n + 1)")
    with False Cons.prems have ds: "m = k" "ds = (token_build doc part n)\<lparr>ch_metadata := [(''mom'', mom)]\<rparr> # es"
      by simp_all
    from Cons.IH [OF e] have "placed doc es" "n + 1 \<le> k" "map ch_position es = [n + 1 ..< k]" by auto
    then show ?thesis unfolding ds
      by (simp add: chunk_wf_def token_build_def upt_conv_Cons)
  qed
qed simp

lemma children_loop_ok:
  assumes p: "regex_sound pat"
  shows "list_all (\<lambda>c. is_utf8 (ch_content c)) cs \<Longrightarrow> placed doc cs \<Longrightarrow> distinct (map ch_position cs) \<Longrightarrow>
    \<forall>c \<in> set cs. ch_position c < n \<Longrightarrow>
    \<exists>out. children_loop doc pat cs n = Ok out \<and> placed doc out \<and> distinct (map ch_position out)
      \<and> (\<forall>c \<in> set out. c \<in> set cs \<or> n \<le> ch_position c)"
proof (induction cs arbitrary: n)
  case (Cons c cs)
  obtain ps where ps: "split_keep_delimiters (ch_content c) (Some pat) = Ok ps"
    using split_keep_ok [of "Some pat" "ch_content c"] p Cons.prems(1) by auto
  show ?case
  proof (cases "length ps \<le> 1")
    case True
    obtain out where out: "children_loop doc pat cs n = Ok out" "placed doc out" "distinct (map ch_position out)"
        "\<forall>d \<in> set out. d \<in> set cs \<or> n \<le> ch_position d"
      using Cons.IH [of n] Cons.prems by auto
    have "ch_position c \<notin> ch_position ` set out"
    proof
      assume "ch_position c \<in> ch_position ` set out"
      then obtain d where "d \<in> set out" "ch_position c = ch_position d" by auto
      moreover from this have "n \<le> ch_position d" using out(4) Cons.prems(3) by (auto simp: image_iff)
      ultimately show False using Cons.prems(4) by auto
    qed
    then show ?thesis using True ps out Cons.prems by (auto simp: image_iff)
  next
    case False
    obtain ds m where d: "children_of doc (ch_content c) ps n = (ds, m)" by (cases "children_of doc (ch_content c) ps n")
    note dp = children_of_placed [OF d]
    obtain out where out: "children_loop doc pat cs m = Ok out" "placed doc out" "distinct (map ch_position out)"
        "\<forall>e \<in> set out. e \<in> set cs \<or> m \<le> ch_position e"
      using Cons.IH [of m] Cons.prems dp by fastforce
    have dpos: "ch_position ` set ds = {n ..< m}" using dp by (metis atLeastLessThan_upt image_set)
    have "{n ..< m} \<inter> ch_position ` set out = {}"
      using out(4) Cons.prems(4) by fastforce
    then have "distinct (map ch_position (ds @ out))" using dp out(3) dpos by simp
    moreover have "\<forall>e \<in> set (ds @ out). e \<in> set (c # cs) \<or> n \<le> ch_position e"
    proof
      fix e assume "e \<in> set (ds @ out)"
      then consider "ch_position e \<in> {n ..< m}" | "e \<in> set out"
        using dpos by (metis Un_iff imageI set_append)
      then show "e \<in> set (c # cs) \<or> n \<le> ch_position e" using out(4) dp by cases auto
    qed
    ultimately show ?thesis using False ps d dp out by simp
  qed
qed simp

lemma token_returns:
  assumes tc: "crates_sound tc" and t: "texts_ok doc config"
  shows "\<exists>cs. token_chunk tc doc config = Ok cs \<and> placed doc cs \<and> distinct (map ch_position cs)"
proof -
  obtain cs where cs: "token_base tc doc config = Ok (numbered (token_build doc) 0 cs)" "list_all is_utf8 cs"
    using token_base_returns [OF tc t] by blast
  let ?ns = "numbered (token_build doc) 0 cs"
  have pos: "map ch_position ?ns = [0 ..< length cs]"
    using token_merge.numbered_position [of doc 0 cs] by simp
  have con: "map ch_content ?ns = cs" by (rule token_merge.numbered_content)
  have len: "length ?ns = length cs" by (simp add: numbered_def)
  have d: "distinct (map ch_position ?ns)" unfolding pos by simp
  show ?thesis
  proof (cases "pc_children_delimiters config = [] \<or> compile_children_pattern tc (pc_children_delimiters config) = None")
    case True
    then show ?thesis using cs(1) d placed_token_build by (auto simp: token_chunk_def apply_children_def)
  next
    case False
    then obtain pat where pat: "compile_children_pattern tc (pc_children_delimiters config) = Some pat" by auto
    then have "regex_sound pat"
      using tc by (auto simp: compile_children_pattern_def regex_of_words_def Let_def crates_sound_def split: if_splits)
    moreover have "list_all (\<lambda>c. is_utf8 (ch_content c)) ?ns"
      using cs(2) con by (metis list.pred_map comp_def list.pred_cong)
    moreover have "\<forall>c \<in> set ?ns. ch_position c < length ?ns + 1"
    proof
      fix c assume "c \<in> set ?ns"
      then have "ch_position c \<in> set (map ch_position ?ns)" by simp
      then show "ch_position c < length ?ns + 1" unfolding pos len by simp
    qed
    ultimately show ?thesis using children_loop_ok [of pat ?ns doc "length ?ns + 1"] d placed_token_build False pat cs(1)
      by (auto simp: token_chunk_def apply_children_def)
  qed
qed

interpretation token: chunk_strategy token_chunk
proof
  fix tc doc config assume "crates_sound tc" and "texts_ok doc config"
  from token_returns [OF this] show "\<exists>cs. token_chunk tc doc config = Ok cs \<and> well_chunked doc cs"
    using placed_well_chunked by blast
qed

section \<open>The title strategy\<close>

lemma utf8_str_lines: "is_utf8 s \<Longrightarrow> list_all is_utf8 (str_lines s)"
proof -
  assume "is_utf8 s"
  then have ps: "list_all is_utf8 (split_char (CHR 0x0A) s)" by (intro utf8_split_char) (simp_all add: byte_val_def)
  have "is_utf8 l \<Longrightarrow> is_utf8 (drop_cr l)" for l
  proof (cases "suffix [CHR 0x0D] l")
    case True
    then obtain t where t: "l = t @ [CHR 0x0D]" by (auto simp: suffix_def)
    assume "is_utf8 l"
    then have "is_utf8 t" unfolding t by (subst (asm) is_utf8_append) (simp_all add: is_utf8_ascii byte_val_def)
    then show ?thesis by (simp add: drop_cr_def str_strip_suffix_def t suffix_def)
  qed (simp add: drop_cr_def str_strip_suffix_def)
  with ps show ?thesis
    by (auto simp: str_lines_def Let_def list_all_iff dest: in_set_butlastD)
qed

lemma slice_from_mid: "is_utf8 b \<Longrightarrow> slice_from (a @ b) (length a) = Ok b"
  by (simp add: slice_from_def boundary_utf8)

lemma title_from_rest_ok: "is_char_boundary line n \<Longrightarrow> \<exists>t. title_from_rest line n = Ok t"
  by (simp add: title_from_rest_def slice_from_def)

lemma trim_end_matches_parts: "\<exists>ws. set ws \<subseteq> set es \<and> s = trim_end_matches es s @ concat ws"
proof -
  obtain ws where ws: "set ws \<subseteq> set (map rev es)" "rev s = concat ws @ strip_front (map rev es) (rev s)"
    using strip_front_parts by blast
  have "s = trim_end_matches es s @ concat (map rev (rev ws))"
    using arg_cong [OF ws(2), of rev] by (simp add: trim_end_matches_def rev_concat rev_map)
  moreover have "set (map rev (rev ws)) \<subseteq> set es" using ws(1) by auto
  ultimately show ?thesis by blast
qed

lemma trim_end_matches_single:
  obtains ws where "set ws \<subseteq> {e}" and "s = trim_end_matches [e] s @ concat ws"
  using trim_end_matches_parts [of "[e]" s] unfolding list.set by blast

lemma numbered_section_depth_ok:
  assumes "is_utf8 line"
  shows "\<exists>d. numbered_section_depth line = Ok d \<and> (\<forall>n. d = Some n \<longrightarrow> 0 < n)"
proof -
  let ?P = "\<lambda>ch. is_digit_str ch \<or> ch = ''.'' \<or> ch = DUNHAO \<or> ch = '' ''"
  let ?raw = "concat (takeWhile ?P (chars_of line))"
  let ?head = "trim_end_matches [''.''] (trim_end_matches ['' ''] ?raw)"
  obtain w1 where w1: "set w1 \<subseteq> {'' ''}" "?raw = trim_end_matches ['' ''] ?raw @ concat w1"
    by (rule trim_end_matches_single)
  obtain w2 where w2: "set w2 \<subseteq> {''.''}" "trim_end_matches ['' ''] ?raw = ?head @ concat w2"
    by (rule trim_end_matches_single)
  have raw: "line = ?raw @ concat (dropWhile ?P (chars_of line))"
    by (metis concat_append concat_chars_of takeWhile_dropWhile_id)
  have line: "line = ?head @ concat w2 @ concat w1 @ concat (dropWhile ?P (chars_of line))"
  proof -
    have "line = (trim_end_matches ['' ''] ?raw @ concat w1) @ concat (dropWhile ?P (chars_of line))"
      by (subst w1(2) [symmetric]) (rule raw)
    then show ?thesis by (subst (asm) w2(2)) (simp only: append_assoc)
  qed
  have u: "list_all is_utf8 w2" "list_all is_utf8 w1"
    using w1(1) w2(1) by (auto simp: list_all_iff is_utf8_ascii byte_val_def subset_iff)
  have "list_all is_utf8 (dropWhile ?P (chars_of line))"
    using utf8_chars [OF assms] by (auto simp: list_all_iff dest: set_dropWhileD)
  then have rest: "is_utf8 (concat w2 @ concat w1 @ concat (dropWhile ?P (chars_of line)))"
    using u utf8_concat by (simp add: is_utf8_append)
  have "slice_from line (length ?head) = Ok (concat w2 @ concat w1 @ concat (dropWhile ?P (chars_of line)))"
    using slice_from_mid [OF rest, of ?head] line by simp
  then show ?thesis
    by (auto simp: numbered_section_depth_def Let_def split: list.splits if_splits)
qed

lemma first_level_boundary:
  assumes "\<And>re. re \<in> set res' \<Longrightarrow> regex_sound re" and "is_utf8 line"
  shows "first_level i res' line = Some (d, a) \<Longrightarrow> is_char_boundary line a"
  using assms(1)
proof (induction res' arbitrary: i)
  case (Cons re res')
  have sp: "spans_from 0 line (find_iter re line)" using Cons.prems(2) regex_soundD(1) assms(2) by simp
  show ?case
  proof (cases "find_iter re line")
    case Nil
    with Cons show ?thesis by simp
  next
    case (Cons m ms)
    with sp Cons.prems(1) show ?thesis by (cases m) (auto simp: sp)
  qed
qed simp

lemma builtin_pattern_suffix:
  assumes "is_utf8 line" and "builtin_pattern line = Some (Some (d, r))"
  shows "is_char_boundary line (length line - length r)"
proof -
  have cut: "is_char_boundary line (length line - length r)"
    if "list_all utf8_char es" and "line = concat es @ r" for es
  proof -
    have "is_utf8 r" using utf8_strip_chars [OF that(1)] assms(1) that(2) by simp
    then show ?thesis using boundary_utf8 [of r "concat es"] that(2) by simp
  qed
  have marks: "list_all utf8_char (chars_of ''### '')" "list_all utf8_char (chars_of ''## '')"
      "list_all utf8_char (chars_of ''# '')" "list_all utf8_char [LPAREN]" "list_all utf8_char [DUNHAO]"
      "list_all utf8_char chinese_numerals"
    by (simp_all add: utf8_char_def byte_val_def is_cont_byte_def in_range_def LPAREN_def DUNHAO_def chinese_numerals_def)
  from assms(2) consider
      "line = concat (chars_of ''### '') @ r" | "line = concat (chars_of ''## '') @ r"
    | "line = concat (chars_of ''# '') @ r" | "line = concat [LPAREN] @ r"
    | n where "n \<in> set chinese_numerals" "line = concat [n, DUNHAO] @ r"
    unfolding concat_chars_of
    by (auto simp: builtin_pattern_def str_strip_prefix_def prefix_def
        split: if_splits option.splits dest!: find_SomeD)
  then show ?thesis
  proof cases
    case (5 n)
    then show ?thesis using marks(5,6) by (intro cut [of "[n, DUNHAO]"]) (auto simp: list_all_iff)
  qed (use marks cut in blast)+
qed

lemma content_headings_ok:
  assumes "is_utf8 line" and "\<And>re. re \<in> set custom \<Longrightarrow> regex_sound re"
  shows "\<exists>hs. content_headings custom line = Ok hs"
proof -
  let ?t = "trim line"
  have t: "is_utf8 ?t" using assms(1) by (rule utf8_trim)
  obtain d where d: "numbered_section_depth ?t = Ok d" using numbered_section_depth_ok [OF t] by blast
  have "\<exists>u. title_from_rest ?t a = Ok u" if "first_level 0 custom ?t = Some (k, a)" for k a
    by (rule title_from_rest_ok) (rule first_level_boundary [OF assms(2) t that])
  moreover have "\<exists>u. title_from_rest ?t (length ?t - length r) = Ok u"
    if "builtin_pattern ?t = Some (Some (k, r))" for k r
    by (rule title_from_rest_ok) (rule builtin_pattern_suffix [OF t that])
  ultimately show ?thesis
    using d by (fastforce simp: content_headings_def Let_def split: option.splits prod.splits)
qed

lemma headings_ok:
  assumes tc: "crates_sound tc" and u: "is_utf8 (td_content doc)"
  shows "\<exists>hs. headings tc doc config = Ok hs"
proof -
  let ?custom = "List.map_filter (rx_new tc) (pc_title_levels config)"
  have "re \<in> set ?custom \<Longrightarrow> regex_sound re" for re
    using tc by (auto simp: map_filter_def crates_sound_def)
  then have "\<exists>hs. content_headings ?custom line = Ok hs" if "line \<in> set (str_lines (td_content doc))" for line
    using utf8_str_lines [OF u] that by (intro content_headings_ok) (auto simp: list_all_iff)
  then have "\<exists>hs. outlines_from_content tc doc config = Ok hs"
    unfolding outlines_from_content_def Let_def by (intro res_fold_ok) fastforce
  then show ?thesis by (simp add: headings_def Let_def)
qed

text \<open>Chunks with their ids in ascending order of position.\<close>

lemma section_chunks_placed:
  "placed doc (section_chunks doc config ss) \<and> distinct (map ch_position (section_chunks doc config ss))"
proof -
  let ?f = "\<lambda>(i, s). let content = render s (pc_include_heading_content config)
         in if trim content = [] then None else Some (token_build doc content i)"
  have "placed doc (List.map_filter ?f (List.enumerate n ss))
      \<and> (\<forall>c \<in> set (List.map_filter ?f (List.enumerate n ss)). n \<le> ch_position c)
      \<and> distinct (map ch_position (List.map_filter ?f (List.enumerate n ss)))" for n
  proof (induction ss arbitrary: n)
    case (Cons s ss)
    from Cons [of "Suc n"] show ?case
      by (auto simp: map_filter_simps Let_def image_iff split: option.splits)
  qed (simp add: map_filter_simps)
  then show ?thesis by (simp add: section_chunks_def)
qed

lemma placed_distinct_ids: "placed doc cs \<Longrightarrow> distinct (map ch_position cs) \<Longrightarrow> distinct (map ch_id cs)"
  using placed_well_chunked by (auto simp: well_chunked_def)

lemma root_chunks:
  assumes "list_all (chunk_wf doc) cs"
  shows "list_all (chunk_wf doc) (map (root_chunk doc root_text) (List.enumerate n cs))
    \<and> map ch_id (map (root_chunk doc root_text) (List.enumerate n cs)) = map (chunk_id (td_id doc)) [n ..< n + length cs]"
  using assms
proof (induction cs arbitrary: n)
  case (Cons c cs)
  have "map (chunk_id (td_id doc)) [n ..< n + length (c # cs)]
      = chunk_id (td_id doc) n # map (chunk_id (td_id doc)) [Suc n ..< Suc n + length cs]"
    by (simp add: upt_conv_Cons del: upt_Suc)
  with Cons show ?case by (simp add: root_chunk_def chunk_wf_def Let_def del: upt_Suc)
qed simp

lemma root_option_well_chunked:
  assumes "placed doc cs" and "distinct (map ch_position cs)"
  shows "well_chunked doc (root_option doc config cs)"
proof (cases "pc_root_chunk_as_heading config")
  case False
  then show ?thesis using placed_well_chunked [OF assms] by (simp add: root_option_def)
next
  case True
  show ?thesis
  proof (cases "\<exists>r c ds. cs = r # c # ds")
    case True
    then obtain r c ds where cs: "cs = r # c # ds" by blast
    have w: "list_all (chunk_wf doc) (c # ds)" using assms(1) cs by (simp add: placed_def list_all_iff)
    have d: "distinct (map ch_position (c # ds))" "placed doc (c # ds)" using assms cs by simp_all
    have "distinct (map (chunk_id (td_id doc)) [0 ..< 0 + length (c # ds)])"
      by (simp add: distinct_map inj_on_def chunk_id_inj del: upt_Suc)
    then have "well_chunked doc (map (root_chunk doc root_text) (List.enumerate 0 (c # ds)))" for root_text
      using root_chunks [OF w, of root_text 0] by (simp only: well_chunked_def)
    then show ?thesis using \<open>pc_root_chunk_as_heading config\<close> cs w placed_distinct_ids [OF d(2,1)]
      by (simp add: root_option_def apply_root_as_heading_def Let_def well_chunked_def)
  next
    case False
    then have "apply_root_as_heading cs doc = cs"
      by (auto simp: apply_root_as_heading_def split: list.splits)
    then show ?thesis using placed_well_chunked [OF assms] by (simp add: root_option_def)
  qed
qed

lemma levels_len_pos:
  assumes "hs \<noteq> [] \<or> \<not> list_ex hd_numbered hs"
  shows "1 \<le> levels_len hs config"
proof (cases "pc_title_levels config = [] \<and> list_ex hd_numbered hs")
  case True
  then obtain h where h: "h \<in> set hs" by (auto simp: list_ex_iff)
  then have "hd_depth h + 1 \<le> Max (set (map (\<lambda>h. hd_depth h + 1) hs))" by (intro Max_ge) auto
  with True show ?thesis by (simp add: levels_len_def)
next
  case False
  then show ?thesis by (cases "pc_title_levels config") (auto simp: levels_len_def)
qed

definition group_inv :: "document \<Rightarrow> chunk list \<times> string \<times> nat \<times> string \<Rightarrow> bool" where
  "group_inv doc st \<longleftrightarrow> (case st of (chunks, current, pos, sid) \<Rightarrow>
     placed doc chunks \<and> map ch_position chunks = [0 ..< pos])"

lemma group_fold_inv: "group_inv doc st \<Longrightarrow> group_inv doc (fold (group_step doc config) ss st)"
proof (induction ss arbitrary: st)
  case (Cons s ss)
  have "group_inv doc (group_step doc config s st)"
    using Cons.prems by (cases st) (simp add: group_inv_def group_step_def Let_def)
  with Cons.IH show ?case by simp
qed simp

lemma title_returns:
  assumes tc: "crates_sound tc" and t: "texts_ok doc config"
  shows "\<exists>cs. title_chunk tc doc config = Ok cs \<and> well_chunked doc cs"
proof -
  obtain hs where hs: "headings tc doc config = Ok hs"
    using headings_ok [OF tc, of doc config] t by (auto simp: texts_ok_def)
  have group: "\<exists>cs. chunk_group tc doc config = Ok cs \<and> well_chunked doc cs"
  proof -
    obtain chunks current pos sid
      where st: "fold (group_step doc config) (sections doc hs) ([], [], 0, []) = (chunks, current, pos, sid)"
      by (metis surj_pair)
    with group_fold_inv [of doc "([], [], 0, [])" config "sections doc hs"]
    have "placed doc chunks" "map ch_position chunks = [0 ..< pos]" by (simp_all add: group_inv_def)
    then have "well_chunked doc (root_option doc config
        (if trim current \<noteq> [] then chunks @ [token_build doc current pos] else chunks))"
      by (intro root_option_well_chunked) auto
    then show ?thesis by (simp add: chunk_group_def hs st)
  qed
  have "hs \<noteq> [] \<or> \<not> list_ex hd_numbered hs" by (cases hs) auto
  from levels_len_pos [OF this, of config] obtain target
    where "clamp_levels 1 (levels_len hs config) (case pc_hierarchy config of None \<Rightarrow> 1 | Some h \<Rightarrow> h) = Ok target"
    by (simp add: clamp_levels_def)
  moreover have "well_chunked doc (root_option doc config (section_chunks doc config ss))" for ss
    using section_chunks_placed root_option_well_chunked by blast
  moreover have "well_chunked doc []" by (simp add: well_chunked_def)
  ultimately have "\<exists>cs. chunk_hierarchy tc doc config = Ok cs \<and> well_chunked doc cs"
    by (simp add: chunk_hierarchy_def hs Let_def)
  with group show ?thesis by (simp add: title_chunk_def Let_def)
qed

interpretation title: chunk_strategy title_chunk
  by unfold_locales (rule title_returns)

text \<open>Whatever strategy the configuration names keeps the contract.\<close>

interpretation chosen: chunk_strategy "\<lambda>tc doc config. run_strategy (chunker_for config) tc doc config"
  using naive.returns token.returns title.returns single.returns
  by unfold_locales (simp add: chunker_for_def)

end
