(* ===== verification/Chunk_Spec.thy ===== *)
theory Chunk_Spec
  imports Chunk_Contract
begin

text \<open>
  What the chunkers guarantee, and a pair of crates for which the documented behaviour they rely on
  holds: the regexes the code builds, matched by the functions that describe them.
\<close>

section \<open>Crates that behave as documented\<close>

definition regex_of :: "(string \<Rightarrow> captures list) \<Rightarrow> regex" where
  "regex_of f =
     \<lparr>rx_captures = f,
      rx_split = (\<lambda>s. between 0 s (List.map_filter (\<lambda>c. cap_get c 0) (f s))),
      rx_remove_all = (\<lambda>s. concat (between 0 s (List.map_filter (\<lambda>c. cap_get c 0) (f s))))\<rparr>"

definition word_captures :: "string list \<Rightarrow> string \<Rightarrow> captures list" where
  "word_captures ws s = map (\<lambda>m. [Some m]) (word_spans ws 0 s)"

text \<open>Escaping puts a backslash before every byte; the words of an alternation are read back.\<close>

definition escape_bytes :: "string \<Rightarrow> string" where
  "escape_bytes w = concat (map (\<lambda>c. [CHR 0x5C, c]) w)"

fun read_words :: "string \<Rightarrow> string \<Rightarrow> string list option" where
  "read_words acc [] = Some [acc]"
| "read_words acc [c] = (if c = CHR 0x7C then Some [acc, []] else None)"
| "read_words acc (c # d # cs) =
     (if c = CHR 0x7C then map_option ((#) acc) (read_words [] (d # cs))
      else if c = CHR 0x5C then read_words (acc @ [d]) cs else None)"

definition alternation :: "string \<Rightarrow> string list option" where
  "alternation p =
     (case p of
        [] \<Rightarrow> None
      | c # cs \<Rightarrow>
          if c = CHR 0x28 \<and> cs \<noteq> [] \<and> List.last cs = CHR 0x29
          then (case read_words [] (butlast cs) of
                  None \<Rightarrow> None
                | Some ws \<Rightarrow> if list_all (\<lambda>w. w \<noteq> [] \<and> is_utf8 w) ws then Some ws else None)
          else None)"

definition plain_crates :: text_crates where
  "plain_crates =
     \<lparr>rx_new = (\<lambda>p.
        if p = BACKTICK_PATTERN then Some (regex_of (backtick_captures 0))
        else if p \<in> {POSITION_TAG, ANY_POSITION_TAG, ''(?s)'' @ SENTENCE_BOUNDARY_PATTERN}
        then Some (regex_of (\<lambda>s. []))
        else map_option (\<lambda>ws. regex_of (word_captures ws)) (alternation p)),
      rx_escape = escape_bytes, json_parse = (\<lambda>s. None), json_print = (\<lambda>v. [])\<rparr>"

lemma regex_of_sound:
  assumes "\<And>s. is_utf8 s \<Longrightarrow> spans_from 0 s (List.map_filter (\<lambda>c. cap_get c 0) (f s)) \<and> list_all (group_ok s) (f s)"
  shows "regex_sound (regex_of f)"
  using assms by (simp add: regex_sound_def regex_of_def find_iter_def)

lemma spans_from_bounds:
  "spans_from i s ms \<Longrightarrow> (a, b) \<in> set ms \<Longrightarrow> a \<le> b \<and> is_char_boundary s a \<and> is_char_boundary s b"
proof (induction i s ms rule: spans_from.induct)
  case (2 i s a' b' ms)
  then show ?case using spans_fromD [of b' s ms] by auto
qed simp

lemma find_word_captures: "List.map_filter (\<lambda>c. cap_get c 0) (word_captures ws s) = word_spans ws 0 s"
  by (simp add: word_captures_def map_filter_def cap_get_def comp_def)

lemma word_regex_sound:
  assumes "list_all is_utf8 ws"
  shows "regex_sound (regex_of (word_captures ws))"
proof (rule regex_of_sound)
  fix s assume s: "is_utf8 s"
  have sp: "spans_from 0 s (word_spans ws 0 s)"
    using word_spans_sound [OF s assms, of "[]" s 0] by (simp add: is_char_boundary_def)
  then have "list_all (group_ok s) (word_captures ws s)"
    using spans_from_bounds [OF sp]
    by (auto simp: word_captures_def list_all_iff group_ok_def cap_get_def)
  with sp show "spans_from 0 s (List.map_filter (\<lambda>c. cap_get c 0) (word_captures ws s))
      \<and> list_all (group_ok s) (word_captures ws s)"
    by (simp add: find_word_captures)
qed

lemma backtick_sound:
  assumes s: "is_utf8 s"
  shows "s = q @ t \<Longrightarrow> i \<le> length q \<Longrightarrow> is_char_boundary s i \<Longrightarrow>
    spans_from i s (List.map_filter (\<lambda>c. cap_get c 0) (backtick_captures (length q) t))
    \<and> list_all (group_ok s) (backtick_captures (length q) t)"
proof (induction t arbitrary: q i rule: measure_induct_rule [of length])
  case (less t)
  show ?case
  proof (cases t)
    case Nil
    with less.prems show ?thesis by (simp add: backtick_captures.simps map_filter_simps)
  next
    case (Cons c cs)
    show ?thesis
    proof (cases "c = CHR 0x60 \<and> takeWhile (\<lambda>d. d \<noteq> CHR 0x60) cs \<noteq> [] \<and> dropWhile (\<lambda>d. d \<noteq> CHR 0x60) cs \<noteq> []")
      case False
      have "length cs < length t" using Cons by simp
      from less.IH [OF this, of "q @ [c]" i] backtick_captures_miss [OF False] Cons less.prems show ?thesis by simp
    next
      case True
      then obtain w u where t: "t = CHR 0x60 # w @ CHR 0x60 # u" and w: "w \<noteq> []" "CHR 0x60 \<notin> set w"
        by (rule backtick_split [OF Cons])
      have clean: "starts_clean (CHR 0x60 # v)" for v by (simp add: starts_clean_def is_cont_byte_def)
      have ut: "is_utf8 t" using s less.prems(1) clean [of "w @ CHR 0x60 # u"] t by (simp add: is_utf8_split)
      then have uw: "is_utf8 (w @ CHR 0x60 # u)" unfolding t by (simp add: is_utf8_ascii byte_val_def)
      then have uc: "is_utf8 (CHR 0x60 # u)" using clean [of u] by (simp add: is_utf8_split)
      then have uu: "is_utf8 u" by (simp add: is_utf8_ascii byte_val_def)
      have b: "is_char_boundary s (length q)" "is_char_boundary s (length q + 1)"
          "is_char_boundary s (length q + length w + 1)" "is_char_boundary s (length q + length w + 2)"
        using boundary_utf8 [OF ut, of q] boundary_utf8 [OF uw, of "q @ [CHR 0x60]"]
          boundary_utf8 [OF uc, of "q @ CHR 0x60 # w"] boundary_utf8 [OF uu, of "q @ CHR 0x60 # w @ [CHR 0x60]"]
          less.prems(1) t by simp_all
      have "length u < length t" by (subst t) simp
      from less.IH [OF this, of "q @ CHR 0x60 # w @ [CHR 0x60]" "length q + length w + 2"] b less.prems t
      have rest: "spans_from (length q + length w + 2) s (List.map_filter (\<lambda>c. cap_get c 0) (backtick_captures (length q + length w + 2) u))"
          "list_all (group_ok s) (backtick_captures (length q + length w + 2) u)" by simp_all
      have "group_ok s [Some (length q, length q + length w + 2), Some (length q + 1, length q + length w + 1)]"
        using b by (simp add: group_ok_def cap_get_def)
      with rest b less.prems show ?thesis
        unfolding t backtick_captures_hit [OF w] by (simp add: map_filter_simps cap_get_def)
    qed
  qed
qed

lemma read_words_escaped: "read_words acc (escape_bytes w @ r) = read_words (acc @ w) r"
  by (induction w arbitrary: acc) (simp_all add: escape_bytes_def)

lemma read_words_join:
  "ws \<noteq> [] \<Longrightarrow> list_all (\<lambda>w. w \<noteq> []) ws \<Longrightarrow>
     read_words acc (join_with [CHR 0x7C] (map escape_bytes ws)) = Some ((acc @ hd ws) # tl ws)"
proof (induction ws arbitrary: acc)
  case (Cons w ws)
  show ?case
  proof (cases ws)
    case Nil
    then show ?thesis using read_words_escaped [of acc w "[]"] by simp
  next
    case (Cons v vs)
    have "read_words [] (join_with [CHR 0x7C] (map escape_bytes ws)) = Some ws"
      using Cons.IH [of "[]"] Cons.prems Cons by simp
    moreover obtain d ds where d: "join_with [CHR 0x7C] (map escape_bytes ws) = d # ds"
      using Cons Cons.prems join_with_ne [of "map escape_bytes ws" "[CHR 0x7C]"]
      by (cases "join_with [CHR 0x7C] (map escape_bytes ws)") (auto simp: escape_bytes_def list_all_iff)
    ultimately show ?thesis using Cons by (simp add: read_words_escaped)
  qed
qed simp

lemma plain_crates_sound: "crates_sound plain_crates"
proof -
  have "regex_sound (regex_of (\<lambda>s. []))"
    by (rule regex_of_sound) (simp add: map_filter_simps is_char_boundary_def)
  moreover have "regex_sound (regex_of (backtick_captures 0))"
    by (rule regex_of_sound) (use backtick_sound [of _ "[]" _ 0] in \<open>simp add: is_char_boundary_def\<close>)
  moreover have "regex_sound (regex_of (word_captures ws))" if "alternation p = Some ws" for p ws
    using that by (intro word_regex_sound)
      (auto simp: alternation_def list_all_iff split: list.splits if_splits option.splits)
  ultimately have "regex_sound r" if "rx_new plain_crates p = Some r" for p r
    using that by (auto simp: plain_crates_def split: if_splits)
  moreover have "backtick_regex plain_crates"
    by (simp add: backtick_regex_def plain_crates_def regex_of_def)
  moreover have "position_regex plain_crates"
    by (simp add: position_regex_def plain_crates_def regex_of_def POSITION_TAG_def ANY_POSITION_TAG_def BACKTICK_PATTERN_def Let_def)
  moreover have "rx_new plain_crates (''(?s)'' @ SENTENCE_BOUNDARY_PATTERN) \<noteq> None"
    by (simp add: plain_crates_def)
  ultimately show ?thesis by (simp add: crates_sound_def)
qed

lemma plain_crates_literal: "literal_regex plain_crates" and plain_crates_escape: "escape_ok plain_crates"
proof -
  show "escape_ok plain_crates"
    by (auto simp: escape_ok_def plain_crates_def escape_bytes_def)
  show "literal_regex plain_crates"
    unfolding literal_regex_def
  proof (intro allI impI, elim conjE)
    fix ws :: "string list"
    assume ws: "ws \<noteq> []" "list_all (\<lambda>w. w \<noteq> [] \<and> is_utf8 w) ws"
    let ?j = "join_with [CHR 0x7C] (map escape_bytes ws)"
    have "read_words [] ?j = Some ws"
      using read_words_join [of ws "[]"] ws by (simp add: list_all_iff)
    then have alt: "alternation ([CHR 0x28] @ ?j @ [CHR 0x29]) = Some ws"
      using ws by (simp add: alternation_def)
    obtain w vs where w: "ws = w # vs" using ws(1) by (cases ws) auto
    then obtain c cs where "w = c # cs" using ws(2) by (cases w) auto
    then obtain r where r: "?j = CHR 0x5C # r"
      using w by (cases vs) (auto simp: escape_bytes_def)
    have "[CHR 0x28] @ ?j @ [CHR 0x29] \<notin> {BACKTICK_PATTERN, POSITION_TAG, ANY_POSITION_TAG, ''(?s)'' @ SENTENCE_BOUNDARY_PATTERN}"
      unfolding r by (simp add: BACKTICK_PATTERN_def POSITION_TAG_def ANY_POSITION_TAG_def Let_def)
    then have "rx_new plain_crates ([CHR 0x28] @ ?j @ [CHR 0x29]) = Some (regex_of (word_captures ws))"
      using alt by (simp add: plain_crates_def)
    moreover have "find_iter (regex_of (word_captures ws)) s = word_spans ws 0 s" for s
      by (simp add: find_iter_def regex_of_def find_word_captures)
    moreover have "rx_escape plain_crates = escape_bytes" by (simp add: plain_crates_def)
    ultimately show "\<exists>r. rx_new plain_crates ([CHR 0x28] @ join_with [CHR 0x7C] (map (rx_escape plain_crates) ws) @ [CHR 0x29]) = Some r
        \<and> (\<forall>s. find_iter r s = word_spans ws 0 s)" by auto
  qed
qed

section \<open>The contract\<close>

text \<open>
  C19. Whatever strategy the configuration selects, chunking a document returns: no slice falls inside a
  character and no error is raised. The chunks belong to the document, carry the token count of their
  own text, have no embedding yet, and have pairwise distinct ids.
\<close>

theorem every_strategy_returns:
  assumes "crates_sound tc" and "texts_ok doc config"
  shows "\<exists>cs. run_strategy (chunker_for config) tc doc config = Ok cs
    \<and> distinct (map ch_id cs)
    \<and> (\<forall>c \<in> set cs. ch_doc c = td_id doc \<and> ch_type c = ''text''
          \<and> ch_tokens c = token_count (ch_content c) \<and> ch_embedding c = None)"
  using chosen.returns [OF assms] by (auto simp: well_chunked_def chunk_wf_def list_all_iff)

definition sample_doc :: "string \<Rightarrow> document" where
  "sample_doc content =
     \<lparr>td_id = ''d1'', td_name = ''a.txt'', td_content = content, td_mime = ''text/plain'',
      td_size = length content, td_metadata = []\<rparr>"

definition sample_text :: string where
  "sample_text = ''# One'' @ LF @ ''alpha beta'' @ LF @ ''gamma. delta'' @ LF @ ''# Two'' @ LF @ ''end''"

definition small_config :: "string \<Rightarrow> parser_config" where
  "small_config method =
     default_config\<lparr>pc_chunk_token_num := 4, pc_overlapped_percent := Fin 0, pc_chunk_method := method\<rparr>"

lemma sample_texts_ok: "texts_ok (sample_doc sample_text) (small_config method)"
  by (simp add: texts_ok_def sample_doc_def small_config_def default_config_def sample_text_def
      is_utf8_ascii byte_val_def)

theorem every_strategy_returns_witness:
  "\<exists>cs. run_strategy (chunker_for (small_config ''title'')) plain_crates (sample_doc sample_text) (small_config ''title'') = Ok cs
    \<and> distinct (map ch_id cs)
    \<and> (\<forall>c \<in> set cs. ch_doc c = ''d1'' \<and> ch_type c = ''text''
          \<and> ch_tokens c = token_count (ch_content c) \<and> ch_embedding c = None)"
  using every_strategy_returns [OF plain_crates_sound sample_texts_ok, of "''title''"]
  by (simp add: sample_doc_def)

lemma no_overlap: "pc_overlapped_percent config = Fin 0 \<Longrightarrow> overlap_tokens config = 0"
  by (cases "f32_of_nat (pc_chunk_token_num config)") (simp_all add: overlap_tokens_def f32_round_def)

section \<open>Nothing lost, nothing twice, within the limit\<close>

lemma merged_bound:
  "merged limit glue carry c ss cs \<Longrightarrow> c = [] \<Longrightarrow> (\<And>s. carry s = Ok []) \<Longrightarrow> list_all (\<lambda>s. trim s \<noteq> []) ss \<Longrightarrow>
     \<forall>x \<in> set cs. x \<in> set ss \<or> (silent glue \<and> length x < 2 ^ 48 \<longrightarrow> token_count x \<le> limit)"
proof (induction rule: merged.induct)
  case (merged_last g c)
  then show ?case by (auto simp: fits_def glued_def length_Suc_conv)
next
  case (merged_more g c c' ss cs)
  then have "\<forall>x \<in> set cs. x \<in> set ss \<or> (silent glue \<and> length x < 2 ^ 48 \<longrightarrow> token_count x \<le> limit)" by simp
  with merged_more(2,6,8) show ?case by (auto simp: fits_def glued_def length_Suc_conv)
qed

lemma naive_chunk_merges:
  assumes tc: "crates_sound tc" and t: "texts_ok doc config" and "\<not> position_aware doc"
    and ss: "delimited_sections tc doc config = Ok ss" "list_all is_section ss" "ss \<noteq> []"
  obtains cs where "naive_chunk tc doc config = Ok (numbered (plain_chunk doc) 0 cs)"
    and "merged (pc_chunk_token_num config) (pc_delimiter config) (naive_carry config) [] ss cs"
proof -
  have u: "list_all is_utf8 ss" "[] \<notin> set ss" using is_section_simps [OF ss(2)] by auto
  have d: "is_utf8 (pc_delimiter config)" using t by (simp add: texts_ok_def)
  obtain cs current where m:
    "res_fold (merge_step (pc_chunk_token_num config) (pc_delimiter config) (naive_carry config) (plain_chunk doc)) ss ([], [], 0)
       = Ok (numbered (plain_chunk doc) 0 cs, current, length cs)"
    "merged (pc_chunk_token_num config) (pc_delimiter config) (naive_carry config) [] ss (cs @ [current])"
    by (rule naive_merge.merge [OF d ss(3) u, where doc = doc])
  obtain p where "current = p @ List.last ss" using merged_last_section [OF m(2)] by auto
  moreover have "is_section (List.last ss)" using ss(2,3) by (simp add: list_all_iff)
  ultimately have "trim current \<noteq> []"
    using trim_Nil_suffix [of "List.last ss" p] by (auto simp: is_section_def)
  moreover have "naive_step tc doc config False
      = merge_step (pc_chunk_token_num config) (pc_delimiter config) (naive_carry config) (plain_chunk doc)"
    by (intro ext) (rule naive_step_merge)
  ultimately have "naive_chunk tc doc config = Ok (numbered (plain_chunk doc) 0 (cs @ [current]))"
    using m(1) ss(1,3) \<open>\<not> position_aware doc\<close>
    by (simp add: naive_chunk_def build_chunk_plain)
  with m(2) show thesis using that by blast
qed

text \<open>
  C20. The naive chunker cuts a document without position tags into its sections and merges them: each
  chunk takes the next run of sections behind the text carried over from the chunk before, so that
  every section is in exactly one run and in order, and the positions count from zero. Without an
  overlap the chunks, joined by the delimiter, are the sections joined by the delimiter, and a chunk that is
  not a single section is within the token limit, when the delimiter itself counts no tokens; a single section
  longer than the limit is a chunk by itself.
\<close>

theorem naive_chunks_are_sections:
  assumes "crates_sound tc" and "texts_ok doc config" and "\<not> position_aware doc"
  shows "\<exists>ss cs. delimited_sections tc doc config = Ok ss \<and> list_all is_section ss
    \<and> naive_chunk tc doc config = Ok cs
    \<and> map ch_position cs = [0 ..< length cs]
    \<and> (if ss = [] then cs = []
       else merged (pc_chunk_token_num config) (pc_delimiter config) (naive_carry config) [] ss (map ch_content cs))
    \<and> (overlap_tokens config = 0 \<longrightarrow>
         join_with (pc_delimiter config) (map ch_content cs) = join_with (pc_delimiter config) ss
         \<and> (\<forall>c \<in> set cs. ch_content c \<in> set ss
              \<or> (silent (pc_delimiter config) \<and> length (ch_content c) < 2 ^ 48
                  \<longrightarrow> ch_tokens c \<le> pc_chunk_token_num config)))"
proof -
  obtain ss where ss: "delimited_sections tc doc config = Ok ss" "list_all is_section ss"
    using delimited_sections_section [OF assms(1,2)] by blast
  obtain cs where cs: "naive_chunk tc doc config = Ok cs" "placed doc cs" "map ch_position cs = [0 ..< length cs]"
    using naive_returns [OF assms(1,2)] by blast
  have tok: "ch_tokens c = token_count (ch_content c)" if "c \<in> set cs" for c
    using cs(2) that by (auto simp: placed_def list_all_iff chunk_wf_def)
  show ?thesis
  proof (cases "ss = []")
    case True
    then have "cs = []" using ss(1) cs(1) by (simp add: naive_chunk_def Let_def)
    with True ss cs show ?thesis by auto
  next
    case False
    obtain xs where xs: "naive_chunk tc doc config = Ok (numbered (plain_chunk doc) 0 xs)"
      and m: "merged (pc_chunk_token_num config) (pc_delimiter config) (naive_carry config) [] ss xs"
      by (rule naive_chunk_merges [OF assms ss False])
    have content: "map ch_content cs = xs"
      using xs cs(1) naive_merge.numbered_content [of doc 0 xs] by simp
    have carry: "naive_carry config s = Ok []" if "overlap_tokens config = 0" for s
      using that by (simp add: naive_carry_def)
    have nb: "list_all (\<lambda>s. trim s \<noteq> []) ss" using is_section_simps [OF ss(2)] by simp
    have "ch_content c \<in> set xs" if "c \<in> set cs" for c
      using that content by (metis imageI list.set_map)
    then show ?thesis
      using False ss cs content m tok merged_lossless [OF m refl carry] merged_bound [OF m refl carry nb]
      by (intro exI [of _ ss] exI [of _ cs]) auto
  qed
qed

theorem naive_chunks_are_sections_witness:
  "\<exists>ss cs. delimited_sections plain_crates (sample_doc sample_text) (small_config ''naive'') = Ok ss
    \<and> naive_chunk plain_crates (sample_doc sample_text) (small_config ''naive'') = Ok cs
    \<and> join_with LF (map ch_content cs) = join_with LF ss"
proof -
  have "\<not> position_aware (sample_doc sample_text)" by (simp add: position_aware_def sample_doc_def)
  from naive_chunks_are_sections [OF plain_crates_sound sample_texts_ok this, of "''naive''"]
  show ?thesis using no_overlap [of "small_config ''naive''"] by (auto simp: small_config_def default_config_def)
qed

text \<open>
  The token chunker in its merging mode (no custom delimiters, no children) re-cuts sections over
  the limit at sentence ends, which loses nothing, and merges the pieces in order into runs behind a
  carried overlap, with positions from zero; a last piece of white space only is dropped. Without an
  overlap the chunks joined by line feeds are the pieces joined by line feeds.
\<close>

theorem token_chunks_are_sections:
  assumes "crates_sound tc" and "texts_ok doc config"
    and "pc_delimiter_mode config \<noteq> ''one''" and "pc_delimiters config = []" and "pc_children_delimiters config = []"
    and "delimited_sections tc doc config = Ok ss" and "ss \<noteq> []"
  shows "\<exists>ps xs cs. resplit tc (pc_chunk_token_num config) ss = Ok ps \<and> concat ps = concat ss
    \<and> merged (pc_chunk_token_num config) LF (token_carry config) [] ps xs
    \<and> token_chunk tc doc config = Ok cs
    \<and> map ch_content cs = (if trim (List.last xs) = [] then butlast xs else xs)
    \<and> map ch_position cs = [0 ..< length cs]
    \<and> (token_overlap config = 0 \<longrightarrow> join_with LF xs = join_with LF ps)"
proof -
  have sec: "list_all is_section ss"
    using delimited_sections_section [OF assms(1,2)] assms(6) by auto
  obtain ps xs where m: "resplit tc (pc_chunk_token_num config) ss = Ok ps"
      "merged (pc_chunk_token_num config) LF (token_carry config) [] ps xs"
      "merge_by_token_size tc doc config ss = Ok (numbered (token_build doc) 0
         (if trim (List.last xs) \<noteq> [] then xs else butlast xs))"
      "concat ps = concat ss"
    by (rule merge_by_token_size_eq [OF assms(1) sec assms(7)])
  let ?ys = "if trim (List.last xs) = [] then butlast xs else xs"
  let ?cs = "numbered (token_build doc) 0 ?ys"
  have "compile_delimiters tc [] = Ok None" by (simp add: compile_delimiters_def)
  then have "token_chunk tc doc config = Ok ?cs"
    using assms(3-7) m(3) by (simp add: token_chunk_def token_base_def)
  moreover have "map ch_content ?cs = ?ys" by (rule token_merge.numbered_content)
  moreover have "map ch_position ?cs = [0 ..< length ?cs]"
    using token_merge.numbered_position [of doc 0 ?ys] by (simp add: numbered_def)
  moreover have "join_with LF xs = join_with LF ps" if "token_overlap config = 0"
    using that by (intro merged_lossless [OF m(2) refl]) (simp add: token_carry_def)
  ultimately show ?thesis using m(1,2,4) by (intro exI [of _ ps] exI [of _ xs] exI [of _ ?cs]) simp
qed

theorem token_chunks_are_sections_witness:
  "\<exists>ss ps xs cs. delimited_sections plain_crates (sample_doc sample_text) (small_config ''token'') = Ok ss
    \<and> concat ps = concat ss \<and> token_chunk plain_crates (sample_doc sample_text) (small_config ''token'') = Ok cs
    \<and> map ch_content cs = (if trim (List.last xs) = [] then butlast xs else xs)
    \<and> map ch_position cs = [0 ..< length cs]"
proof -
  have "res_map (\<lambda>ss. ss \<noteq> []) (delimited_sections plain_crates (sample_doc sample_text) (small_config ''token'')) = Ok True"
    by code_simp
  then obtain ss where ss: "delimited_sections plain_crates (sample_doc sample_text) (small_config ''token'') = Ok ss" "ss \<noteq> []"
    by (auto simp: res_map_Ok_iff)
  have m: "pc_delimiter_mode (small_config ''token'') \<noteq> ''one''" "pc_delimiters (small_config ''token'') = []"
      "pc_children_delimiters (small_config ''token'') = []"
    by (simp_all add: small_config_def default_config_def)
  from token_chunks_are_sections [OF plain_crates_sound sample_texts_ok m ss] ss(1)
  show ?thesis by blast
qed

text \<open>
  C33. Cutting a text at the matches of a regex, or at sentence ends, loses nothing: the pieces in order
  are the text, none falls inside a character, and no sentence is empty.
\<close>

theorem cutting_is_lossless:
  assumes "crates_sound tc" and "is_utf8 s" and "rx_new tc p = Some r"
  shows "(\<exists>ps. split_keep_delimiters s (Some r) = Ok ps \<and> concat ps = s \<and> list_all is_utf8 ps)
    \<and> (\<exists>ps. split_sentences_keep_boundaries tc s = Ok ps \<and> concat ps = s \<and> [] \<notin> set ps \<and> list_all is_utf8 ps)"
proof (intro conjI)
  have "regex_sound r" by (rule sound_regex [OF assms(1,3)])
  then show "\<exists>ps. split_keep_delimiters s (Some r) = Ok ps \<and> concat ps = s \<and> list_all is_utf8 ps"
    by (intro split_keep_ok assms(2)) simp
  show "\<exists>ps. split_sentences_keep_boundaries tc s = Ok ps \<and> concat ps = s \<and> [] \<notin> set ps \<and> list_all is_utf8 ps"
    by (rule split_sentences_ok [OF assms(1,2)])
qed

theorem cutting_is_lossless_witness:
  "\<exists>r ps. rx_new plain_crates (''('' @ escape_bytes '','' @ '')'') = Some r
    \<and> split_keep_delimiters ''a,b,c'' (Some r) = Ok ps \<and> concat ps = ''a,b,c''"
proof -
  have "map_option (\<lambda>r. rx_split r ''a,b'') (rx_new plain_crates (''('' @ escape_bytes '','' @ '')'')) = Some [''a'', ''b'']"
    by code_simp
  then obtain r where r: "rx_new plain_crates (''('' @ escape_bytes '','' @ '')'') = Some r" by auto
  have "is_utf8 ''a,b,c''" by (simp add: is_utf8_ascii byte_val_def)
  from cutting_is_lossless [OF plain_crates_sound this r] r show ?thesis by blast
qed

section \<open>The delimiter field\<close>

text \<open>
  C34. The delimiters of a field are the tokens of its grammar (a word between backticks, or a single
  character), each once, longest first, and those of equal length in the order of the field; and when
  there are any, the compiled pattern matches the leftmost place where one of them stands, the
  longest one that stands there.
\<close>

theorem delimiter_field_parsed:
  assumes "backtick_regex tc" and "literal_regex tc" and "escape_ok tc" and "is_utf8 field" and "field \<noteq> []"
  shows "\<exists>ds r. parse_delimiter_field tc field = Ok ds
    \<and> set ds = set (field_tokens (normalize_text_newlines field)) \<and> distinct ds \<and> [] \<notin> set ds
    \<and> sorted_wrt (\<lambda>d e. length (chars_of e) \<le> length (chars_of d)) ds
    \<and> (\<forall>n. filter (\<lambda>d. length (chars_of d) = n) ds
           = filter (\<lambda>d. length (chars_of d) = n) (first_occurrences (field_tokens (normalize_text_newlines field))))
    \<and> delimiter_regex tc field = Ok (Some r)
    \<and> (\<forall>s. find_iter r s = word_spans ds 0 s)"
proof -
  let ?key = "\<lambda>d. - int (length (chars_of d))"
  let ?ts = "first_occurrences (field_tokens (normalize_text_newlines field))"
  obtain ds r where ds: "parse_delimiter_field tc field = Ok ds" "delimiter_regex tc field = Ok (Some r)"
      "\<And>s. find_iter r s = word_spans ds 0 s"
    using delimiter_regex_eq [OF assms] by blast
  have eq: "ds = sort_key ?key ?ts"
    using ds(1) parse_delimiter_field_eq [OF assms(1,4)] by simp
  have "sorted (map ?key ds)" unfolding eq by simp
  then have "sorted_wrt (\<lambda>d e. length (chars_of e) \<le> length (chars_of d)) ds"
    unfolding sorted_map by simp
  moreover have "filter (\<lambda>d. length (chars_of d) = n) ds = filter (\<lambda>d. length (chars_of d) = n) ?ts" for n
  proof -
    have "filter (\<lambda>d. ?key d = - int n) ds = filter (\<lambda>d. ?key d = - int n) ?ts"
      unfolding eq by (rule sort_key_stable)
    then show ?thesis by simp
  qed
  moreover have "distinct ds" and "set ds = set (field_tokens (normalize_text_newlines field))"
    unfolding eq by simp_all
  ultimately show ?thesis using ds field_tokens_ne by (intro exI [of _ ds] exI [of _ r]) auto
qed

theorem delimiter_field_parsed_witness:
  "\<exists>ds. parse_delimiter_field plain_crates (''#'' @ [CHR 0x60] @ ''##'' @ [CHR 0x60] @ LF) = Ok ds
    \<and> set ds = {''#'', ''##'', LF} \<and> distinct ds"
proof -
  let ?f = "''#'' @ [CHR 0x60] @ ''##'' @ [CHR 0x60] @ LF"
  have u: "is_utf8 ?f" by (simp add: is_utf8_ascii byte_val_def)
  have "field_tokens (normalize_text_newlines ?f) = [''#'', ''##'', LF]" by code_simp
  with delimiter_field_parsed [OF _ plain_crates_literal plain_crates_escape u] plain_crates_sound
  show ?thesis by (auto simp: crates_sound_def)
qed

section \<open>The token estimate\<close>

text \<open>
  For a text below \<open>2\<^sup>4\<^sup>8\<close> bytes the estimate, computed in \<open>f64\<close>, is exactly two tokens for three CJK
  characters and one for four others (white space and ASCII punctuation not counted), each rounded
  up, and at least one for a text that is not blank.
\<close>

theorem token_count_is_integer:
  assumes "length s < 2 ^ 48"
  shows "token_count s =
    (let k = (2 * cjk_count s + 2) div 3 + (latin_count s + 3) div 4
     in if k = 0 \<and> trim s \<noteq> [] then 1 else k)"
  unfolding token_count_exact [OF assms] token_estimate_def cdiv_def Let_def
  by (simp add: add.commute)

lemmas count_defs = cjk_count_def latin_count_def chars_of_ascii is_cont_byte_def is_latin_def is_cjk_def
  in_range_def byte_val_def is_ws_char_def ws_encodings_def is_ascii_punct_def Let_def

theorem token_count_is_integer_witness:
  "token_count ''hello, world'' = 3"
proof -
  have counts: "cjk_count ''hello, world'' = 0" "latin_count ''hello, world'' = 10"
    by (simp_all add: count_defs)
  have "length ''hello, world'' < 2 ^ 48" by simp
  from token_count_is_integer [OF this] show ?thesis unfolding counts Let_def by simp
qed

section \<open>Where the code departs from what it says\<close>

definition field_config :: parser_config where
  "field_config = default_config\<lparr>pc_delimiter := LF @ ''!?'', pc_overlapped_percent := Fin 0\<rparr>"

text \<open>
  The naive chunker glues sections with the delimiter field itself. With the documented default field
  of several delimiters, a document \<open>a!b\<close> becomes one chunk that reads \<open>a\<close>, the whole field, \<open>b\<close>: text
  that is not in the document.
\<close>

theorem naive_glue_is_the_field:
  assumes "crates_sound tc" and "literal_regex tc" and "escape_ok tc"
  shows "\<exists>cs. naive_chunk tc (sample_doc ''a!b'') field_config = Ok cs
    \<and> map ch_content cs = [''a'' @ LF @ ''!?b'']"
proof -
  let ?doc = "sample_doc ''a!b''"
  have u: "is_utf8 (LF @ ''!?'')" "is_utf8 ''a!b''" by (simp_all add: is_utf8_ascii byte_val_def)
  have bt: "backtick_regex tc" using assms(1) by (simp add: crates_sound_def)
  obtain ds r where r: "parse_delimiter_field tc (LF @ ''!?'') = Ok ds" "delimiter_regex tc (LF @ ''!?'') = Ok (Some r)"
      "\<And>s. find_iter r s = word_spans ds 0 s"
    using delimiter_regex_eq [OF bt assms(2,3) u(1)] by blast
  have "sort_key (\<lambda>d. - int (length (chars_of d)))
      (first_occurrences (field_tokens (normalize_text_newlines (LF @ ''!?'')))) = [LF, ''!'', ''?'']" by code_simp
  then have ds: "ds = [LF, ''!'', ''?'']"
    using parse_delimiter_field_eq [OF bt u(1)] r(1) by simp
  have sound: "regex_sound r"
    using delimiter_regex_ok [OF assms(1) u(1)] r(2) by auto
  then have "rx_split r ''a!b'' = between 0 ''a!b'' (word_spans [LF, ''!'', ''?''] 0 ''a!b'')"
    using r(3) u(2) by (simp add: regex_sound_def ds)
  also have "\<dots> = [''a'', ''b'']" by code_simp
  finally have split: "rx_split r ''a!b'' = [''a'', ''b'']" .
  have ab: "trim ''a'' = ''a''" "trim ''b'' = ''b''" by (simp_all add: is_graph_char_def)
  have sec: "delimited_sections tc ?doc field_config = Ok [''a'', ''b'']"
    using r(2) split ab by (simp add: delimited_sections_def field_config_def default_config_def sample_doc_def)
  have t: "texts_ok ?doc field_config"
    using u by (simp add: texts_ok_def field_config_def default_config_def sample_doc_def)
  have "token_count ''a'' = token_estimate (cjk_count ''a'') (latin_count ''a'') (trim ''a'' \<noteq> [])"
    and "token_count ''b'' = token_estimate (cjk_count ''b'') (latin_count ''b'') (trim ''b'' \<noteq> [])"
    by (rule token_count_exact, simp)+
  moreover have "cjk_count ''a'' = 0" "latin_count ''a'' = 1" "cjk_count ''b'' = 0" "latin_count ''b'' = 1"
    by (simp_all add: count_defs)
  moreover have "token_count [] = 0"
    by (simp add: token_count_exact token_estimate_def cjk_count_def latin_count_def)
  ultimately have tok: "token_count ''a'' = 1" "token_count ''b'' = 1" "token_count [] = 0"
    by (simp_all add: token_estimate_def cdiv_def ab)
  have "\<not> position_aware ?doc" by (simp add: position_aware_def sample_doc_def)
  moreover have "trim (''a'' @ LF @ ''!?b'') \<noteq> []" by code_simp
  ultimately have "naive_chunk tc ?doc field_config = Ok [plain_chunk ?doc (''a'' @ LF @ ''!?b'') 0]"
    using sec by (simp add: naive_chunk_def naive_step_def visible_token_count_def visible_text_def tok
        field_config_def default_config_def build_chunk_plain)
  then show ?thesis by (simp add: plain_chunk_def)
qed

theorem naive_glue_is_the_field_witness:
  "\<exists>cs. naive_chunk plain_crates (sample_doc ''a!b'') field_config = Ok cs \<and> map ch_content cs = [''a'' @ LF @ ''!?b'']"
  by (rule naive_glue_is_the_field [OF plain_crates_sound plain_crates_literal plain_crates_escape])

text \<open>
  A custom delimiter that is not wrapped in backticks switches the token chunker's merging off
  without cutting anything: the document becomes a single chunk, whatever its size and the limit.
\<close>

theorem bare_delimiters_disable_the_limit:
  assumes "crates_sound tc" and "pc_delimiter_mode config \<noteq> ''one''" and "pc_children_delimiters config = []"
    and "\<forall>d \<in> set (pc_delimiters config). CHR 0x60 \<notin> set d" and "list_ex (\<lambda>d. trim d \<noteq> []) (pc_delimiters config)"
    and "trim (td_content doc) \<noteq> []"
  shows "token_chunk tc doc config = Ok [token_build doc (td_content doc) 0]"
proof -
  obtain r where r: "rx_new tc BACKTICK_PATTERN = Some r" "\<And>s. rx_captures r s = backtick_captures 0 s"
    using assms(1) by (auto simp: crates_sound_def backtick_regex_def)
  have none: "backtick_captures 0 d = []" if "d \<in> set (pc_delimiters config)" for d
    using backtick_captures_skip [of d 0 "[]"] assms(4) that by (simp add: backtick_captures.simps)
  have "list_all (\<lambda>d. backtick_captures 0 d = []) ds \<Longrightarrow>
      res_fold (\<lambda>raw custom. res_bind (expect_regex tc BACKTICK_PATTERN) (\<lambda>r.
         res_map (\<lambda>ws. custom @ ws) (wrapped_words raw (rx_captures r raw)))) ds [] = Ok []" for ds
    by (induction ds) (simp_all add: expect_regex_def r)
  then have "compile_delimiters tc (pc_delimiters config) = Ok None"
    using none by (simp add: compile_delimiters_def list_all_iff)
  then show ?thesis using assms
    by (simp add: token_chunk_def token_base_def split_keep_delimiters_def)
qed

theorem bare_delimiters_disable_the_limit_witness:
  "token_chunk plain_crates (sample_doc ''one;two;three'') ((small_config ''token'')\<lparr>pc_delimiters := ['';'']\<rparr>)
    = Ok [token_build (sample_doc ''one;two;three'') ''one;two;three'' 0]"
  using bare_delimiters_disable_the_limit
    [OF plain_crates_sound, of "(small_config ''token'')\<lparr>pc_delimiters := ['';'']\<rparr>" "sample_doc ''one;two;three''"]
  by (simp add: small_config_def default_config_def sample_doc_def is_graph_char_def)

definition enumerated_text :: string where
  "enumerated_text = hd chinese_numerals @ DUNHAO @ ''A'' @ LF @ ''first'' @ LF @ ''# B'' @ LF @ ''second''"

text \<open>
  A Chinese enumeration (\<open>YI DUN A\<close>, a numeral and an enumeration comma) is collected as the heading \<open>A\<close>, but a line is
  compared with the pending heading without taking the numeral off: the heading never opens a section,
  and since headings are met in order it blocks all that follow. The document of two headings below is
  one section without a heading. Text before the first heading that does match goes into that
  heading's section, and a number with an enumeration comma is not read as a heading at all.
\<close>

theorem enumerated_heading_blocks_sections:
  "headings tc (sample_doc enumerated_text) default_config =
     Ok [\<lparr>hd_title = ''A'', hd_depth = 0, hd_source = Content, hd_numbered = False\<rparr>,
         \<lparr>hd_title = ''B'', hd_depth = 0, hd_source = Content, hd_numbered = False\<rparr>]
   \<and> res_map (sections (sample_doc enumerated_text)) (headings tc (sample_doc enumerated_text) default_config) =
     Ok [\<lparr>sec_heading = [], sec_depth = 0, sec_body = enumerated_text\<rparr>]
   \<and> res_map (sections (sample_doc (''intro'' @ LF @ ''# B'' @ LF @ ''body'')))
       (headings tc (sample_doc (''intro'' @ LF @ ''# B'' @ LF @ ''body'')) default_config) =
     Ok [\<lparr>sec_heading = ''B'', sec_depth = 0, sec_body = ''intro'' @ LF @ ''body''\<rparr>]
   \<and> numbered_section_depth (''1'' @ DUNHAO @ ''A'') = Ok None"
proof (intro conjI)
  show 1: "headings tc (sample_doc enumerated_text) default_config =
     Ok [\<lparr>hd_title = ''A'', hd_depth = 0, hd_source = Content, hd_numbered = False\<rparr>,
         \<lparr>hd_title = ''B'', hd_depth = 0, hd_source = Content, hd_numbered = False\<rparr>]"
    by code_simp
  show "res_map (sections (sample_doc enumerated_text)) (headings tc (sample_doc enumerated_text) default_config) =
     Ok [\<lparr>sec_heading = [], sec_depth = 0, sec_body = enumerated_text\<rparr>]"
    unfolding 1 by code_simp
  show "res_map (sections (sample_doc (''intro'' @ LF @ ''# B'' @ LF @ ''body'')))
       (headings tc (sample_doc (''intro'' @ LF @ ''# B'' @ LF @ ''body'')) default_config) =
     Ok [\<lparr>sec_heading = ''B'', sec_depth = 0, sec_body = ''intro'' @ LF @ ''body''\<rparr>]"
    by code_simp
  show "numbered_section_depth (''1'' @ DUNHAO @ ''A'') = Ok None" by code_simp
qed

end
