(* ===== verification/Task_Executor.thy ===== *)
theory Task_Executor
  imports Rust_F32_Arith
begin

text \<open>
  The task executor (\<^verbatim>\<open>task_executor.rs\<close>): an unbounded channel drained by a management
  loop that runs each task in a worker of its own, at most as many at a time as the semaphore
  has permits. Threads run concurrently, so an operation is cut into the blocks between which
  others may run, and each block is one function on the executor: a call to \<open>submit\<close> clones the
  sender, then sends, then counts; the loop receives, then waits for a permit; a worker starts,
  runs the handler, settles its result, and may resubmit the task. \<open>perform\<close> is one block of any
  thread.

  The handler is not the executor's: it may report progress, and ends with any result or a
  panic. Time does not occur: the backoff of a retry ends when the resubmission happens.
\<close>

section \<open>Tasks\<close>

datatype task_state = TsPending | TsProcessing | TsDone | TsFailed

fun task_state_str :: "task_state \<Rightarrow> string" where
  "task_state_str TsPending = ''pending''"
| "task_state_str TsProcessing = ''processing''"
| "task_state_str TsDone = ''done''"
| "task_state_str TsFailed = ''failed''"

fun doc_run :: "task_state \<Rightarrow> string" where
  "doc_run TsPending = ''UNSTARTED''"
| "doc_run TsProcessing = ''RUNNING''"
| "doc_run TsDone = ''DONE''"
| "doc_run TsFailed = ''FAILED''"

record task_error =
  te_retryable :: bool
  te_message :: string

definition retryable_error :: "string \<Rightarrow> task_error" where
  "retryable_error m = \<lparr>te_retryable = True, te_message = m\<rparr>"

definition permanent_error :: "string \<Rightarrow> task_error" where
  "permanent_error m = \<lparr>te_retryable = False, te_message = m\<rparr>"

record exec_task =
  xt_id :: string
  xt_doc_id :: string
  xt_kb_id :: string
  xt_name :: string
  xt_priority :: i32
  xt_from_page :: nat
  xt_to_page :: i64
  xt_attempts :: nat
  xt_max_retries :: nat
  xt_state :: task_state
  xt_progress :: f32
  xt_message :: string
  xt_created_at :: u64

definition exec_task_new :: "string \<Rightarrow> string \<Rightarrow> string \<Rightarrow> string \<Rightarrow> u64 \<Rightarrow> exec_task" where
  "exec_task_new tid did kid nm now =
     \<lparr>xt_id = tid, xt_doc_id = did, xt_kb_id = kid, xt_name = nm, xt_priority = 0,
      xt_from_page = 0, xt_to_page = - 1, xt_attempts = 0, xt_max_retries = 2,
      xt_state = TsPending, xt_progress = Fin 0, xt_message = ''Queued'', xt_created_at = now\<rparr>"

definition clone_with_state :: "exec_task \<Rightarrow> task_state \<Rightarrow> exec_task" where
  "clone_with_state t st = t\<lparr>xt_state := st\<rparr>"

section \<open>Progress messages\<close>

text \<open>
  \<open>format_progress_message\<close>; \<open>clock\<close> is the time of day as \<open>hhmmss\<close> prints it. \<open>to_page as usize\<close>
  is its 64-bit pattern, and the page numbers are printed after an addition that wraps, as in a
  release build.
\<close>

definition format_progress_message :: "string \<Rightarrow> exec_task \<Rightarrow> f32 \<Rightarrow> string \<Rightarrow> f32 \<times> string" where
  "format_progress_message clock t prog msg =
     (let m1 = (if f32_lt prog (Fin 0) then ''[ERROR]'' @ msg else msg);
          m2 = (if 0 < sint (xt_to_page t) \<and> xt_from_page t < unat (xt_to_page t) \<and> m1 \<noteq> []
                then ''Page('' @ nat_to_str (unat (of_nat (xt_from_page t) + 1 :: u64)) @ ''~'' @
                     int_to_str (sint (xt_to_page t + 1)) @ ''): '' @ m1
                else m1);
          m3 = (if m2 \<noteq> [] then clock @ '' '' @ m2 else m2)
      in (prog, m3))"

section \<open>The executor\<close>

text \<open>
  \<open>Unspawned\<close>: the receiver is still in the executor. \<open>Acquiring t\<close>: the loop has received \<open>t\<close> and
  waits for a permit. \<open>Exited\<close>: the loop has returned and dropped the receiver.
\<close>

datatype loop_state = Unspawned | Receiving | Acquiring exec_task | Exited

text \<open>A call of \<open>submit\<close> under way: it holds a clone of the sender, before and after its \<open>send\<close>.\<close>

datatype call_phase = Cloned | Sent

type_synonym submit_call = "call_phase \<times> exec_task"

text \<open>
  A worker: \<open>Spawned\<close> with its permit, its first statement still to run; \<open>Handling\<close>, in the
  handler; \<open>Backoff\<close>, without the permit, asleep before it resubmits the task.
\<close>

datatype worker = Spawned exec_task | Handling exec_task | Backoff exec_task

fun worker_task :: "worker \<Rightarrow> exec_task" where
  "worker_task (Spawned t) = t"
| "worker_task (Handling t) = t"
| "worker_task (Backoff t) = t"

record executor =
  ex_name :: string
  ex_boot_at :: u64
  ex_tx :: bool
  ex_queue :: "exec_task list"
  ex_loop :: loop_state
  ex_permits :: nat
  ex_max_concurrent :: nat
  ex_pending :: u64
  ex_running :: u64
  ex_done :: u64
  ex_failed :: u64
  ex_current :: "(string, exec_task) hmap"
  ex_calls :: "submit_call list"
  ex_workers :: "worker list"

definition executor_new :: "string \<Rightarrow> u64 \<Rightarrow> nat \<Rightarrow> executor" where
  "executor_new nm boot n =
     \<lparr>ex_name = nm, ex_boot_at = boot, ex_tx = True, ex_queue = [], ex_loop = Unspawned,
      ex_permits = max n 1, ex_max_concurrent = max n 1, ex_pending = 0, ex_running = 0,
      ex_done = 0, ex_failed = 0, ex_current = [], ex_calls = [], ex_workers = []\<rparr>"

record executor_stats =
  st_pending :: u64
  st_running :: u64
  st_done :: u64
  st_failed :: u64

definition stats :: "executor \<Rightarrow> executor_stats" where
  "stats s = \<lparr>st_pending = ex_pending s, st_running = ex_running s, st_done = ex_done s,
              st_failed = ex_failed s\<rparr>"

record executor_status =
  es_name :: string
  es_boot_at :: u64
  es_now :: u64
  es_pending :: u64
  es_running :: u64
  es_done :: u64
  es_failed :: u64
  es_current :: "exec_task list"

definition status :: "u64 \<Rightarrow> executor \<Rightarrow> executor_status" where
  "status now s =
     \<lparr>es_name = ex_name s, es_boot_at = ex_boot_at s, es_now = now, es_pending = ex_pending s,
      es_running = ex_running s, es_done = ex_done s, es_failed = ex_failed s,
      es_current = hvalues (ex_current s)\<rparr>"

definition current :: "string \<Rightarrow> executor \<Rightarrow> exec_task option" where
  "current i s = hget (ex_current s) i"

section \<open>Calls of \<open>submit\<close>\<close>

text \<open>One of several threads, with those before and after it.\<close>

definition pick :: "nat \<Rightarrow> 'a list \<Rightarrow> ('a list \<times> 'a \<times> 'a list) option" where
  "pick i xs = (if i < length xs then Some (take i xs, xs ! i, drop (Suc i) xs) else None)"

definition shut_down :: task_error where
  "shut_down = permanent_error ''Task executor has been shut down''"

text \<open>The sender is cloned under the lock of \<open>tx\<close>, or the call is refused.\<close>

definition submit_begin :: "exec_task \<Rightarrow> executor \<Rightarrow> task_error + executor" where
  "submit_begin t s =
     (if ex_tx s then Inr (s\<lparr>ex_calls := ex_calls s @ [(Cloned, t)]\<rparr>) else Inl shut_down)"

text \<open>\<open>send\<close>: it fails when the receiver is gone, and the call ends without counting.\<close>

definition submit_send :: "nat \<Rightarrow> executor \<Rightarrow> executor option" where
  "submit_send i s =
     (case pick i (ex_calls s) of
        Some (as, (Cloned, t), bs) \<Rightarrow>
          (if ex_loop s = Exited then Some (s\<lparr>ex_calls := as @ bs\<rparr>)
           else Some (s\<lparr>ex_queue := ex_queue s @ [t], ex_calls := as @ (Sent, t) # bs\<rparr>))
      | _ \<Rightarrow> None)"

definition submit_count :: "nat \<Rightarrow> executor \<Rightarrow> executor option" where
  "submit_count i s =
     (case pick i (ex_calls s) of
        Some (as, (Sent, t), bs) \<Rightarrow>
          Some (s\<lparr>ex_pending := ex_pending s + 1, ex_calls := as @ bs\<rparr>)
      | _ \<Rightarrow> None)"

text \<open>\<open>submit\<close> as its caller sees it when no other thread runs in between.\<close>

definition submit :: "exec_task \<Rightarrow> executor \<Rightarrow> (task_error + unit) \<times> executor" where
  "submit t s =
     (case submit_begin t s of
        Inl e \<Rightarrow> (Inl e, s)
      | Inr s1 \<Rightarrow>
          (if ex_loop s1 = Exited then (Inl shut_down, s)
           else (Inr (), s\<lparr>ex_queue := ex_queue s @ [t], ex_pending := ex_pending s + 1\<rparr>)))"

section \<open>The management loop\<close>

definition spawn :: "executor \<Rightarrow> executor" where
  "spawn s = (if ex_loop s = Unspawned then s\<lparr>ex_loop := Receiving\<rparr> else s)"

text \<open>\<open>shutdown\<close> drops the sender, then waits for the loop to exit.\<close>

definition shutdown :: "executor \<Rightarrow> executor" where
  "shutdown s = s\<lparr>ex_tx := False\<rparr>"

definition loop_recv :: "executor \<Rightarrow> executor option" where
  "loop_recv s =
     (case (ex_loop s, ex_queue s) of
        (Receiving, t # q) \<Rightarrow> Some (s\<lparr>ex_queue := q, ex_loop := Acquiring t\<rparr>)
      | _ \<Rightarrow> None)"

text \<open>\<open>recv\<close> answers \<open>None\<close>: nothing is queued and no sender is left, here or in a call.\<close>

definition loop_exit :: "executor \<Rightarrow> executor option" where
  "loop_exit s =
     (if ex_loop s = Receiving \<and> ex_queue s = [] \<and> \<not> ex_tx s \<and> ex_calls s = []
      then Some (s\<lparr>ex_loop := Exited\<rparr>) else None)"

text \<open>The semaphore is never closed, so \<open>acquire_owned\<close> only waits.\<close>

definition loop_acquire :: "executor \<Rightarrow> executor option" where
  "loop_acquire s =
     (case ex_loop s of
        Acquiring t \<Rightarrow>
          (if 0 < ex_permits s
           then Some (s\<lparr>ex_permits := ex_permits s - 1, ex_loop := Receiving,
                        ex_workers := ex_workers s @ [Spawned t]\<rparr>)
           else None)
      | _ \<Rightarrow> None)"

section \<open>Workers\<close>

text \<open>\<open>run_one\<close> up to the call of the handler.\<close>

definition worker_start :: "nat \<Rightarrow> executor \<Rightarrow> executor option" where
  "worker_start i s =
     (case pick i (ex_workers s) of
        Some (as, Spawned t, bs) \<Rightarrow>
          Some (s\<lparr>ex_pending := ex_pending s - 1, ex_running := ex_running s + 1,
                  ex_current := hput (xt_id t) (clone_with_state t TsProcessing) (ex_current s),
                  ex_workers := as @ Handling t # bs\<rparr>)
      | _ \<Rightarrow> None)"

text \<open>The closure behind \<open>ProgressCallback\<close>: it rewrites the entry of the task, if there is one.\<close>

definition set_current :: "string \<Rightarrow> f32 \<Rightarrow> string \<Rightarrow> executor \<Rightarrow> executor" where
  "set_current i prog msg s =
     (case hget (ex_current s) i of
        None \<Rightarrow> s
      | Some c \<Rightarrow>
          s\<lparr>ex_current := hput i (c\<lparr>xt_progress := prog, xt_message := msg\<rparr>) (ex_current s)\<rparr>)"

definition worker_report :: "nat \<Rightarrow> string \<Rightarrow> f32 \<Rightarrow> string \<Rightarrow> executor \<Rightarrow> executor option" where
  "worker_report i clock prog msg s =
     (case pick i (ex_workers s) of
        Some (as, Handling t, bs) \<Rightarrow>
          (case format_progress_message clock t prog msg of (p, m) \<Rightarrow>
             Some (set_current (xt_id t) p m s))
      | _ \<Rightarrow> None)"

datatype handler_result = Indexed nat | Raised task_error | Crashed

definition done_task :: "exec_task \<Rightarrow> nat \<Rightarrow> exec_task" where
  "done_task t n =
     t\<lparr>xt_state := TsDone, xt_progress := Fin 1,
       xt_message := ''Indexed '' @ nat_to_str n @ '' chunks''\<rparr>"

definition retry_task :: "exec_task \<Rightarrow> task_error \<Rightarrow> exec_task" where
  "retry_task t e =
     t\<lparr>xt_attempts := xt_attempts t + 1, xt_state := TsPending, xt_progress := Fin 0,
       xt_message := ''Attempt '' @ nat_to_str (xt_attempts t + 1) @ '' failed: '' @
                     te_message e @ ''; retrying''\<rparr>"

definition failed_task :: "exec_task \<Rightarrow> task_error \<Rightarrow> exec_task" where
  "failed_task t e = t\<lparr>xt_state := TsFailed, xt_progress := Fin 1, xt_message := te_message e\<rparr>"

definition retries :: "exec_task \<Rightarrow> task_error \<Rightarrow> bool" where
  "retries t e \<longleftrightarrow> te_retryable e \<and> xt_attempts t < xt_max_retries t"

text \<open>
  \<open>run_one\<close> from the handler's return to the release of the permit. A panic of the handler
  unwinds the worker: the permit is returned as it is dropped, and nothing else happens.
\<close>

definition worker_finish :: "nat \<Rightarrow> handler_result \<Rightarrow> executor \<Rightarrow> executor option" where
  "worker_finish i r s =
     (case pick i (ex_workers s) of
        Some (as, Handling t, bs) \<Rightarrow>
          (case r of
             Indexed n \<Rightarrow>
               Some (s\<lparr>ex_current := hput (xt_id t) (done_task t n) (ex_current s),
                       ex_done := ex_done s + 1, ex_running := ex_running s - 1,
                       ex_permits := ex_permits s + 1, ex_workers := as @ bs\<rparr>)
           | Raised e \<Rightarrow>
               (if retries t e
                then Some (s\<lparr>ex_current := hput (xt_id t) (retry_task t e) (ex_current s),
                             ex_running := ex_running s - 1, ex_permits := ex_permits s + 1,
                             ex_workers := as @ Backoff (retry_task t e) # bs\<rparr>)
                else Some (s\<lparr>ex_current := hput (xt_id t) (failed_task t e) (ex_current s),
                             ex_failed := ex_failed s + 1, ex_running := ex_running s - 1,
                             ex_permits := ex_permits s + 1, ex_workers := as @ bs\<rparr>))
           | Crashed \<Rightarrow> Some (s\<lparr>ex_permits := ex_permits s + 1, ex_workers := as @ bs\<rparr>))
      | _ \<Rightarrow> None)"

text \<open>After the backoff the worker calls \<open>submit\<close> and ignores its answer.\<close>

definition worker_resubmit :: "nat \<Rightarrow> executor \<Rightarrow> executor option" where
  "worker_resubmit i s =
     (case pick i (ex_workers s) of
        Some (as, Backoff t, bs) \<Rightarrow>
          (let s1 = s\<lparr>ex_workers := as @ bs\<rparr>
           in case submit_begin t s1 of Inl e \<Rightarrow> Some s1 | Inr s2 \<Rightarrow> Some s2)
      | _ \<Rightarrow> None)"

section \<open>Runs\<close>

datatype exec_act =
    Submit exec_task | Spawn | Shutdown
  | Send nat | Count nat | Recv | Exit | Acquire | Start nat
  | Report nat string f32 string | Finish nat handler_result | Resubmit nat

fun perform :: "exec_act \<Rightarrow> executor \<Rightarrow> executor option" where
  "perform (Submit t) s = (case submit_begin t s of Inl e \<Rightarrow> Some s | Inr s' \<Rightarrow> Some s')"
| "perform Spawn s = Some (spawn s)"
| "perform Shutdown s = Some (shutdown s)"
| "perform (Send i) s = submit_send i s"
| "perform (Count i) s = submit_count i s"
| "perform Recv s = loop_recv s"
| "perform Exit s = loop_exit s"
| "perform Acquire s = loop_acquire s"
| "perform (Start i) s = worker_start i s"
| "perform (Report i clock p m) s = worker_report i clock p m s"
| "perform (Finish i r) s = worker_finish i r s"
| "perform (Resubmit i) s = worker_resubmit i s"

primrec exec_run :: "exec_act list \<Rightarrow> executor \<Rightarrow> executor option" where
  "exec_run [] s = Some s"
| "exec_run (a # as) s = (case perform a s of None \<Rightarrow> None | Some s' \<Rightarrow> exec_run as s')"

text \<open>What a caller starts, and what the executor does on its own.\<close>

fun client_act :: "exec_act \<Rightarrow> bool" where
  "client_act (Submit t) = True"
| "client_act Spawn = True"
| "client_act Shutdown = True"
| "client_act _ = False"

fun report_act :: "exec_act \<Rightarrow> bool" where
  "report_act (Report i clock p m) = True"
| "report_act _ = False"

end
