(* ===== verification/Task_Executor_Proofs.thy ===== *)
theory Task_Executor_Proofs
  imports Task_Executor "HOL-Library.Multiset"
begin

text \<open>
  The blocks of the task executor, inverted once (\<open>performE\<close>), and what they keep: the permits and
  the handlers that hold them, the counters and the places they count, the ledger of the tasks,
  and the measure that shrinks with every block but a progress report.
\<close>

section \<open>One block of a thread\<close>

lemma pick_split [simp]: "pick (length as) (as @ x # bs) = Some (as, x, bs)"
  by (simp add: pick_def)

lemma pick_SomeD:
  assumes "pick i xs = Some (as, x, bs)"
  shows "xs = as @ x # bs" and "i = length as"
proof -
  from assms have "i < length xs" "as = take i xs" "x = xs ! i" "bs = drop (Suc i) xs"
    by (auto simp: pick_def split: if_splits)
  then show "xs = as @ x # bs" and "i = length as" by (simp_all add: id_take_nth_drop)
qed

lemma pick_SomeE:
  assumes "pick i xs = Some (as, x, bs)"
  obtains "xs = as @ x # bs" and "i = length as"
  using pick_SomeD [OF assms] by blast

lemma submit_sendE:
  assumes "submit_send i s = Some s'"
  obtains as t bs where "ex_calls s = as @ (Cloned, t) # bs" and "i = length as"
    and "ex_loop s = Exited" and "s' = s\<lparr>ex_calls := as @ bs\<rparr>"
  | as t bs where "ex_calls s = as @ (Cloned, t) # bs" and "i = length as"
    and "ex_loop s \<noteq> Exited"
    and "s' = s\<lparr>ex_queue := ex_queue s @ [t], ex_calls := as @ (Sent, t) # bs\<rparr>"
  using assms
  by (auto simp: submit_send_def elim!: pick_SomeE split: option.splits call_phase.splits if_splits)

lemma submit_countE:
  assumes "submit_count i s = Some s'"
  obtains as t bs where "ex_calls s = as @ (Sent, t) # bs" and "i = length as"
    and "s' = s\<lparr>ex_pending := ex_pending s + 1, ex_calls := as @ bs\<rparr>"
  using assms
  by (auto simp: submit_count_def elim!: pick_SomeE split: option.splits call_phase.splits)

lemma worker_startE:
  assumes "worker_start i s = Some s'"
  obtains as t bs where "ex_workers s = as @ Spawned t # bs" and "i = length as"
    and "s' = s\<lparr>ex_pending := ex_pending s - 1, ex_running := ex_running s + 1,
                ex_current := hput (xt_id t) (clone_with_state t TsProcessing) (ex_current s),
                ex_workers := as @ Handling t # bs\<rparr>"
  using assms
  by (auto simp: worker_start_def elim!: pick_SomeE split: option.splits worker.splits)

lemma worker_reportE:
  assumes "worker_report i clock prog msg s = Some s'"
  obtains as t bs p m where "ex_workers s = as @ Handling t # bs" and "i = length as"
    and "s' = set_current (xt_id t) p m s"
  using assms
  by (auto simp: worker_report_def elim!: pick_SomeE split: option.splits worker.splits prod.splits)

lemma worker_finishE:
  assumes "worker_finish i r s = Some s'"
  obtains (indexed) as t bs n where "ex_workers s = as @ Handling t # bs" and "i = length as"
    and "r = Indexed n"
    and "s' = s\<lparr>ex_current := hput (xt_id t) (done_task t n) (ex_current s),
                ex_done := ex_done s + 1, ex_running := ex_running s - 1,
                ex_permits := ex_permits s + 1, ex_workers := as @ bs\<rparr>"
  | (retried) as t bs e where "ex_workers s = as @ Handling t # bs" and "i = length as"
    and "r = Raised e" and "retries t e"
    and "s' = s\<lparr>ex_current := hput (xt_id t) (retry_task t e) (ex_current s),
                ex_running := ex_running s - 1, ex_permits := ex_permits s + 1,
                ex_workers := as @ Backoff (retry_task t e) # bs\<rparr>"
  | (failed) as t bs e where "ex_workers s = as @ Handling t # bs" and "i = length as"
    and "r = Raised e" and "\<not> retries t e"
    and "s' = s\<lparr>ex_current := hput (xt_id t) (failed_task t e) (ex_current s),
                ex_failed := ex_failed s + 1, ex_running := ex_running s - 1,
                ex_permits := ex_permits s + 1, ex_workers := as @ bs\<rparr>"
  | (crashed) as t bs where "ex_workers s = as @ Handling t # bs" and "i = length as"
    and "r = Crashed" and "s' = s\<lparr>ex_permits := ex_permits s + 1, ex_workers := as @ bs\<rparr>"
proof -
  obtain as t bs where w: "ex_workers s = as @ Handling t # bs" "i = length as"
    using assms
    by (auto simp: worker_finish_def elim!: pick_SomeE split: option.splits worker.splits)
  show thesis
  proof (cases r)
    case (Indexed n)
    with assms w show ?thesis by (intro indexed [OF w]) (auto simp: worker_finish_def)
  next
    case (Raised e)
    show ?thesis
    proof (cases "retries t e")
      case True
      with assms w Raised show ?thesis by (intro retried [OF w]) (auto simp: worker_finish_def)
    next
      case False
      with assms w Raised show ?thesis by (intro failed [OF w]) (auto simp: worker_finish_def)
    qed
  next
    case Crashed
    with assms w show ?thesis by (intro crashed [OF w]) (auto simp: worker_finish_def)
  qed
qed

lemma worker_resubmitE:
  assumes "worker_resubmit i s = Some s'"
  obtains as t bs where "ex_workers s = as @ Backoff t # bs" and "i = length as" and "ex_tx s"
    and "s' = s\<lparr>ex_workers := as @ bs, ex_calls := ex_calls s @ [(Cloned, t)]\<rparr>"
  | as t bs where "ex_workers s = as @ Backoff t # bs" and "i = length as" and "\<not> ex_tx s"
    and "s' = s\<lparr>ex_workers := as @ bs\<rparr>"
  using assms
  by (auto simp: worker_resubmit_def submit_begin_def Let_def elim!: pick_SomeE
      split: option.splits worker.splits if_splits)

lemma loop_recvE:
  assumes "loop_recv s = Some s'"
  obtains t q where "ex_loop s = Receiving" and "ex_queue s = t # q"
    and "s' = s\<lparr>ex_queue := q, ex_loop := Acquiring t\<rparr>"
  using assms by (auto simp: loop_recv_def split: loop_state.splits list.splits)

lemma loop_exitE:
  assumes "loop_exit s = Some s'"
  obtains "ex_loop s = Receiving" and "ex_queue s = []" and "\<not> ex_tx s" and "ex_calls s = []"
    and "s' = s\<lparr>ex_loop := Exited\<rparr>"
  using assms by (auto simp: loop_exit_def split: if_splits)

lemma loop_acquireE:
  assumes "loop_acquire s = Some s'"
  obtains t where "ex_loop s = Acquiring t" and "0 < ex_permits s"
    and "s' = s\<lparr>ex_permits := ex_permits s - 1, ex_loop := Receiving,
                ex_workers := ex_workers s @ [Spawned t]\<rparr>"
  using assms by (auto simp: loop_acquire_def split: loop_state.splits if_splits)

lemmas blockE = submit_sendE submit_countE loop_recvE loop_exitE loop_acquireE worker_startE
  worker_reportE worker_finishE worker_resubmitE

lemma set_current_simps [simp]:
  "ex_tx (set_current i p m s) = ex_tx s" "ex_queue (set_current i p m s) = ex_queue s"
  "ex_loop (set_current i p m s) = ex_loop s" "ex_permits (set_current i p m s) = ex_permits s"
  "ex_max_concurrent (set_current i p m s) = ex_max_concurrent s"
  "ex_pending (set_current i p m s) = ex_pending s" "ex_running (set_current i p m s) = ex_running s"
  "ex_done (set_current i p m s) = ex_done s" "ex_failed (set_current i p m s) = ex_failed s"
  "ex_calls (set_current i p m s) = ex_calls s" "ex_workers (set_current i p m s) = ex_workers s"
  by (simp_all add: set_current_def split: option.split)

lemma retry_task_simps [simp]:
  "xt_id (retry_task t e) = xt_id t" "xt_attempts (retry_task t e) = Suc (xt_attempts t)"
  "xt_max_retries (retry_task t e) = xt_max_retries t"
  by (simp_all add: retry_task_def)

text \<open>A property of the state that every block keeps holds after every run.\<close>

lemma exec_run_append:
  "exec_run (as @ bs) s = (case exec_run as s of None \<Rightarrow> None | Some s' \<Rightarrow> exec_run bs s')"
  by (induction as arbitrary: s) (simp_all split: option.split)

lemma exec_run_keeps:
  assumes "exec_run as s = Some s'" and "I s"
    and "\<And>a s s'. perform a s = Some s' \<Longrightarrow> I s \<Longrightarrow> I s'"
  shows "I s'"
  using assms(1,2)
proof (induction as arbitrary: s)
  case (Cons a as)
  then obtain u where "perform a s = Some u" and "exec_run as u = Some s'"
    by (auto split: option.splits)
  with Cons assms(3) show ?case by blast
qed simp

lemma submit_beginE:
  assumes "perform (Submit t) s = Some s'"
  obtains "ex_tx s" and "s' = s\<lparr>ex_calls := ex_calls s @ [(Cloned, t)]\<rparr>"
  | "\<not> ex_tx s" and "s' = s"
  using assms by (auto simp: submit_begin_def split: if_splits)

section \<open>Permits, counters and the closed channel\<close>

fun holds_permit :: "worker \<Rightarrow> bool" where
  "holds_permit (Backoff t) = False"
| "holds_permit _ = True"

fun handling :: "worker \<Rightarrow> bool" where
  "handling (Handling t) = True"
| "handling _ = False"

fun starting :: "worker \<Rightarrow> bool" where
  "starting (Spawned t) = True"
| "starting _ = False"

fun held :: "loop_state \<Rightarrow> exec_task list" where
  "held (Acquiring t) = [t]"
| "held _ = []"

text \<open>
  The permits are the semaphore's and the workers'; the pending counter counts the queue, the
  task the loop holds and the workers not yet started, less the sends not yet counted; and the
  loop exits only when no task and no sender is left.
\<close>

definition exec_inv :: "executor \<Rightarrow> bool" where
  "exec_inv s \<longleftrightarrow>
     0 < ex_max_concurrent s \<and>
     ex_permits s + length (filter holds_permit (ex_workers s)) = ex_max_concurrent s \<and>
     ex_pending s + of_nat (length (filter (\<lambda>c. fst c = Sent) (ex_calls s))) =
       of_nat (length (ex_queue s) + length (held (ex_loop s)) +
               length (filter starting (ex_workers s))) \<and>
     (ex_loop s = Exited \<longrightarrow> \<not> ex_tx s \<and> ex_queue s = [] \<and> ex_calls s = [])"

lemma exec_inv_new [simp]: "exec_inv (executor_new nm boot n)"
  by (simp add: exec_inv_def executor_new_def)

lemma exec_inv_perform:
  assumes "perform a s = Some s'" and "exec_inv s"
  shows "exec_inv s'"
proof (cases a)
  case (Submit t)
  with assms show ?thesis by (auto elim!: submit_beginE simp: exec_inv_def simp del: perform.simps)
next
  case (Count i)
  from assms(1) [unfolded Count perform.simps] show ?thesis
  proof (cases rule: submit_countE)
    case (1 as t bs)
    with assms(2) show ?thesis by (simp add: exec_inv_def add.assoc)
  qed
next
  case (Start i)
  from assms(1) [unfolded Start perform.simps] show ?thesis
  proof (cases rule: worker_startE)
    case (1 as t bs)
    with assms(2) show ?thesis by (simp add: exec_inv_def diff_add_eq)
  qed
qed (use assms in \<open>auto elim!: blockE simp: exec_inv_def spawn_def shutdown_def split: if_splits\<close>)
lemma perform_max:
  assumes "perform a s = Some s'"
  shows "ex_max_concurrent s' = ex_max_concurrent s"
proof (cases a)
  case (Submit t)
  with assms show ?thesis by (auto elim!: submit_beginE simp del: perform.simps)
qed (use assms in \<open>auto elim!: blockE simp: spawn_def shutdown_def split: if_splits\<close>)

lemma exec_inv_run: "exec_run as s = Some s' \<Longrightarrow> exec_inv s \<Longrightarrow> exec_inv s'"
  by (rule exec_run_keeps [where I = exec_inv]) (auto intro: exec_inv_perform)

section \<open>The ledger\<close>

text \<open>
  How the executor is done with a task: indexed, failed for good, lost to a panic of its
  handler, or dropped because the executor was shut down before its retry.
\<close>

datatype verdict = VDone | VFailed | VCrashed | VLost

datatype exec_event = Accepted exec_task | Started exec_task | Ended exec_task verdict

fun event_of :: "exec_act \<Rightarrow> executor \<Rightarrow> exec_event list" where
  "event_of (Submit t) s = (if ex_tx s then [Accepted t] else [])"
| "event_of (Send i) s =
     (case pick i (ex_calls s) of
        Some (_, (_, t), _) \<Rightarrow> if ex_loop s = Exited then [Ended t VLost] else []
      | _ \<Rightarrow> [])"
| "event_of (Start i) s =
     (case pick i (ex_workers s) of Some (_, w, _) \<Rightarrow> [Started (worker_task w)] | _ \<Rightarrow> [])"
| "event_of (Finish i r) s =
     (case pick i (ex_workers s) of
        Some (_, w, _) \<Rightarrow>
          (case r of
             Indexed n \<Rightarrow> [Ended (worker_task w) VDone]
           | Raised e \<Rightarrow> if retries (worker_task w) e then [] else [Ended (worker_task w) VFailed]
           | Crashed \<Rightarrow> [Ended (worker_task w) VCrashed])
      | _ \<Rightarrow> [])"
| "event_of (Resubmit i) s =
     (case pick i (ex_workers s) of
        Some (_, w, _) \<Rightarrow> if ex_tx s then [] else [Ended (worker_task w) VLost]
      | _ \<Rightarrow> [])"
| "event_of _ s = []"

primrec exec_events :: "exec_act list \<Rightarrow> executor \<Rightarrow> exec_event list" where
  "exec_events [] s = []"
| "exec_events (a # as) s =
     event_of a s @ (case perform a s of None \<Rightarrow> [] | Some s' \<Rightarrow> exec_events as s')"

fun accepted :: "exec_event list \<Rightarrow> exec_task list" where
  "accepted [] = []"
| "accepted (Accepted t # es) = t # accepted es"
| "accepted (_ # es) = accepted es"

fun started :: "exec_event list \<Rightarrow> exec_task list" where
  "started [] = []"
| "started (Started t # es) = t # started es"
| "started (_ # es) = started es"

fun ended :: "exec_event list \<Rightarrow> (exec_task \<times> verdict) list" where
  "ended [] = []"
| "ended (Ended t v # es) = (t, v) # ended es"
| "ended (_ # es) = ended es"

definition verdicts :: "verdict \<Rightarrow> exec_event list \<Rightarrow> nat" where
  "verdicts v es = length (filter (\<lambda>e. snd e = v) (ended es))"

lemma accepted_append [simp]: "accepted (es @ fs) = accepted es @ accepted fs"
  by (induction es rule: accepted.induct) simp_all

lemma started_append [simp]: "started (es @ fs) = started es @ started fs"
  by (induction es rule: started.induct) simp_all

lemma ended_append [simp]: "ended (es @ fs) = ended es @ ended fs"
  by (induction es rule: ended.induct) simp_all

lemma verdicts_simps [simp]:
  "verdicts v [] = 0" "verdicts v (es @ fs) = verdicts v es + verdicts v fs"
  "verdicts v (Accepted t # es) = verdicts v es" "verdicts v (Started t # es) = verdicts v es"
  "verdicts v (Ended t v' # es) = (if v' = v then 1 else 0) + verdicts v es"
  by (simp_all add: verdicts_def)

text \<open>The tasks the executor is not done with, each in one place.\<close>

definition flight :: "executor \<Rightarrow> exec_task list" where
  "flight s = map snd (filter (\<lambda>c. fst c = Cloned) (ex_calls s)) @ ex_queue s @
     held (ex_loop s) @ map worker_task (ex_workers s)"

abbreviation ids :: "exec_task list \<Rightarrow> string multiset" where
  "ids ts \<equiv> mset (map xt_id ts)"

abbreviation ended_ids :: "exec_event list \<Rightarrow> string multiset" where
  "ended_ids es \<equiv> mset (map (\<lambda>e. xt_id (fst e)) (ended es))"

lemma call_phase_neq [simp]: "ph \<noteq> Cloned \<longleftrightarrow> ph = Sent" "ph \<noteq> Sent \<longleftrightarrow> ph = Cloned"
  by (cases ph; simp)+

lemma perform_ledger:
  assumes "perform a s = Some s'"
  shows "ids (flight s) + ids (accepted (event_of a s)) = ended_ids (event_of a s) + ids (flight s')"
proof (cases a)
  case (Submit t)
  with assms show ?thesis
    by (auto elim!: submit_beginE simp: flight_def simp del: perform.simps)
qed (use assms in \<open>auto elim!: blockE simp: flight_def spawn_def shutdown_def split: if_splits\<close>)

lemma add_chain:
  fixes a :: "'a :: ab_semigroup_add"
  assumes "a + b = c + d" and "d + e = f + g"
  shows "a + (b + e) = (c + f) + g"
  by (simp only: assms add.assoc add.assoc [symmetric, of a b e])

lemma run_ledger:
  "exec_run as s = Some s' \<Longrightarrow>
   ids (flight s) + ids (accepted (exec_events as s)) =
     ended_ids (exec_events as s) + ids (flight s')"
proof (induction as arbitrary: s)
  case (Cons a as)
  from Cons.prems obtain u where u: "perform a s = Some u" "exec_run as u = Some s'"
    by (auto split: option.splits)
  from add_chain [OF perform_ledger [OF u(1)] Cons.IH [OF u(2)]] u(1) show ?case by simp
qed simp

section \<open>The counters\<close>

definition counters :: "executor \<Rightarrow> exec_event list \<Rightarrow> executor \<Rightarrow> bool" where
  "counters s es s' \<longleftrightarrow>
     ex_done s' = ex_done s + of_nat (verdicts VDone es) \<and>
     ex_failed s' = ex_failed s + of_nat (verdicts VFailed es) \<and>
     ex_running s' + of_nat (length (filter handling (ex_workers s))) =
       ex_running s + of_nat (length (filter handling (ex_workers s')) + verdicts VCrashed es)"

lemma perform_counters:
  assumes "perform a s = Some s'"
  shows "counters s (event_of a s) s'"
proof (cases a)
  case (Submit t)
  with assms show ?thesis
    by (auto elim!: submit_beginE simp: counters_def simp del: perform.simps)
qed (use assms in \<open>auto elim!: blockE simp: counters_def spawn_def shutdown_def add_ac
       diff_add_eq split: if_splits\<close>)

lemma add_chain_diff:
  fixes u :: "'a :: ab_group_add"
  assumes "u + h = r + (k + c)" and "v + k = u + (l + d)"
  shows "v + h = r + (l + (c + d))"
proof -
  have "(v + h) + (u + k) = (u + h) + (v + k)" by (simp only: ac_simps)
  also have "\<dots> = (r + (l + (c + d))) + (u + k)" unfolding assms by (simp only: ac_simps)
  finally show ?thesis by (simp only: add_right_cancel)
qed

lemma run_counters: "exec_run as s = Some s' \<Longrightarrow> counters s (exec_events as s) s'"
proof (induction as arbitrary: s)
  case (Cons a as)
  from Cons.prems obtain u where u: "perform a s = Some u" "exec_run as u = Some s'"
    by (auto split: option.splits)
  from perform_counters [OF u(1)] Cons.IH [OF u(2)] u(1) show ?case
    using add_chain_diff by (fastforce simp: counters_def)
qed (simp add: counters_def)

text \<open>A task is lost only after a shutdown.\<close>

lemma lost_after_shutdown:
  "exec_run as s = Some s' \<Longrightarrow> exec_inv s \<Longrightarrow> ex_tx s \<Longrightarrow> Shutdown \<notin> set as \<Longrightarrow>
   verdicts VLost (exec_events as s) = 0 \<and> ex_tx s'"
proof (induction as arbitrary: s)
  case (Cons a as)
  from Cons.prems obtain u where u: "perform a s = Some u" "exec_run as u = Some s'"
    by (auto split: option.splits)
  have open_u: "ex_tx u" "verdicts VLost (event_of a s) = 0"
  proof (atomize (full), cases a)
    case (Submit t)
    with u(1) Cons.prems(3) show "ex_tx u \<and> verdicts VLost (event_of a s) = 0"
      by (auto elim!: submit_beginE simp del: perform.simps)
  qed (use u(1) Cons.prems(2-4) in \<open>auto elim!: blockE simp: spawn_def exec_inv_def split: if_splits\<close>)
  with Cons u exec_inv_perform [OF u(1)] show ?case by simp
qed simp

section \<open>Executions left, and work left\<close>

text \<open>The executions a task may still have, where it is.\<close>

definition budget :: "exec_task \<Rightarrow> nat" where
  "budget t = Suc (xt_max_retries t - xt_attempts t)"

fun worker_budget :: "worker \<Rightarrow> nat" where
  "worker_budget (Handling t) = xt_max_retries t - xt_attempts t"
| "worker_budget w = budget (worker_task w)"

definition task_budget :: "string \<Rightarrow> exec_task list \<Rightarrow> nat" where
  "task_budget i ts = sum_list (map budget (filter (\<lambda>t. xt_id t = i) ts))"

definition flight_budget :: "string \<Rightarrow> executor \<Rightarrow> nat" where
  "flight_budget i s =
     task_budget i (map snd (filter (\<lambda>c. fst c = Cloned) (ex_calls s)) @ ex_queue s @
       held (ex_loop s)) +
     sum_list (map worker_budget (filter (\<lambda>w. xt_id (worker_task w) = i) (ex_workers s)))"

lemma task_budget_simps [simp]:
  "task_budget i [] = 0" "task_budget i (ts @ us) = task_budget i ts + task_budget i us"
  "task_budget i (t # ts) = (if xt_id t = i then budget t else 0) + task_budget i ts"
  by (simp_all add: task_budget_def)

lemma budget_start [simp]: "Suc (xt_max_retries t - xt_attempts t) \<le> budget t"
  by (simp add: budget_def)

lemma budget_retry: "retries t e \<Longrightarrow> budget (retry_task t e) = xt_max_retries t - xt_attempts t"
  by (auto simp: budget_def retries_def)

definition starts :: "string \<Rightarrow> exec_event list \<Rightarrow> nat" where
  "starts i es = length (filter (\<lambda>t. xt_id t = i) (started es))"

lemma starts_simps [simp]:
  "starts i [] = 0" "starts i (es @ fs) = starts i es + starts i fs"
  "starts i (Started t # es) = (if xt_id t = i then 1 else 0) + starts i es"
  "starts i (Accepted t # es) = starts i es" "starts i (Ended t v # es) = starts i es"
  by (simp_all add: starts_def)

lemma perform_budget:
  assumes "perform a s = Some s'"
  shows "starts i (event_of a s) + flight_budget i s' \<le>
    task_budget i (accepted (event_of a s)) + flight_budget i s"
proof (cases a)
  case (Submit t)
  with assms show ?thesis
    by (auto elim!: submit_beginE simp: flight_budget_def simp del: perform.simps)
qed (use assms in \<open>auto elim!: blockE simp: flight_budget_def spawn_def shutdown_def budget_retry
       split: if_splits\<close>)

lemma run_budget:
  "exec_run as s = Some s' \<Longrightarrow>
   starts i (exec_events as s) + flight_budget i s' \<le>
     task_budget i (accepted (exec_events as s)) + flight_budget i s"
proof (induction as arbitrary: s)
  case (Cons a as)
  from Cons.prems obtain u where u: "perform a s = Some u" "exec_run as u = Some s'"
    by (auto split: option.splits)
  from perform_budget [OF u(1), of i] Cons.IH [OF u(2)] u(1) show ?case by simp
qed simp

text \<open>Without retryable errors there is one execution per submission.\<close>

fun no_retry :: "exec_act \<Rightarrow> bool" where
  "no_retry (Finish i (Raised e)) = (\<not> te_retryable e)"
| "no_retry _ = True"

definition unstarted :: "executor \<Rightarrow> exec_task list" where
  "unstarted s = map snd (filter (\<lambda>c. fst c = Cloned) (ex_calls s)) @ ex_queue s @
     held (ex_loop s) @ map worker_task (filter starting (ex_workers s))"

definition no_backoff :: "executor \<Rightarrow> bool" where
  "no_backoff s \<longleftrightarrow> (\<forall>t. Backoff t \<notin> set (ex_workers s))"

lemma perform_once:
  assumes "perform a s = Some s'" and "no_retry a" and "no_backoff s"
  shows "ids (started (event_of a s)) + ids (unstarted s') \<subseteq>#
      ids (accepted (event_of a s)) + ids (unstarted s)" (is ?once)
    and "no_backoff s'" (is ?nb)
proof -
  have "?once \<and> ?nb"
  proof (cases a)
    case (Submit t)
    with assms show ?thesis
      by (auto elim!: submit_beginE simp: unstarted_def no_backoff_def simp del: perform.simps)
  qed (use assms in \<open>auto elim!: blockE simp: unstarted_def no_backoff_def spawn_def shutdown_def
         retries_def split: if_splits\<close>)
  then show ?once and ?nb by blast+
qed

lemma run_once:
  "exec_run as s = Some s' \<Longrightarrow> \<forall>a\<in>set as. no_retry a \<Longrightarrow> no_backoff s \<Longrightarrow>
   ids (started (exec_events as s)) + ids (unstarted s') \<subseteq>#
     ids (accepted (exec_events as s)) + ids (unstarted s)"
proof (induction as arbitrary: s)
  case (Cons a as)
  then obtain u where u: "perform a s = Some u" "exec_run as u = Some s'"
    by (auto split: option.splits)
  let ?A = "ids (started (event_of a s))" and ?B = "ids (accepted (event_of a s))"
  from Cons.prems have "no_retry a" "no_backoff s" by simp_all
  note step = perform_once [OF u(1) this]
  from Cons.IH [OF u(2) _ step(2)] Cons.prems(2)
  have "?A + (ids (started (exec_events as u)) + ids (unstarted s')) \<subseteq>#
    ?A + (ids (accepted (exec_events as u)) + ids (unstarted u))"
    by (intro subset_mset.add_left_mono) simp
  also have "\<dots> = ids (accepted (exec_events as u)) + (?A + ids (unstarted u))"
    by (simp only: ac_simps)
  also have "\<dots> \<subseteq># ids (accepted (exec_events as u)) + (?B + ids (unstarted s))"
    using step(1) by (intro subset_mset.add_left_mono)
  finally show ?case using u(1) by (simp add: ac_simps)
qed simp

text \<open>
  The blocks still to run: a task counts eight for each execution it may still have and less than
  eight for its place, a send not yet counted one, the loop one until it has exited.
\<close>

fun call_work :: "submit_call \<Rightarrow> nat" where
  "call_work (Cloned, t) = 8 * budget t + 7"
| "call_work (Sent, t) = 1"

fun worker_work :: "worker \<Rightarrow> nat" where
  "worker_work (Spawned t) = 8 * budget t + 3"
| "worker_work (Handling t) = 8 * budget t + 2"
| "worker_work (Backoff t) = 8 * budget t + 8"

definition work_left :: "executor \<Rightarrow> nat" where
  "work_left s =
     sum_list (map call_work (ex_calls s)) + sum_list (map (\<lambda>t. 8 * budget t + 5) (ex_queue s)) +
     sum_list (map (\<lambda>t. 8 * budget t + 4) (held (ex_loop s))) +
     sum_list (map worker_work (ex_workers s)) + (if ex_loop s = Exited then 0 else 1)"

lemma budget_retry_Suc: "retries t e \<Longrightarrow> budget t = Suc (budget (retry_task t e))"
  by (auto simp: budget_def retries_def)

lemma perform_works:
  assumes "perform a s = Some s'" and "\<not> client_act a"
  shows "(if report_act a then 0 else 1) + work_left s' \<le> work_left s"
  using assms
  by (cases a) (auto elim!: blockE simp: work_left_def budget_retry_Suc)

lemma run_works:
  "exec_run as s = Some s' \<Longrightarrow> \<forall>a\<in>set as. \<not> client_act a \<Longrightarrow>
   length (filter (\<lambda>a. \<not> report_act a) as) + work_left s' \<le> work_left s"
proof (induction as arbitrary: s)
  case (Cons a as)
  then obtain u where u: "perform a s = Some u" "exec_run as u = Some s'"
    by (auto split: option.splits)
  with perform_works [OF u(1)] Cons.IH [OF u(2)] Cons.prems(2) show ?case
    by (auto split: if_splits)
qed simp

section \<open>The executor drains\<close>

definition idle :: "executor \<Rightarrow> bool" where
  "idle s \<longleftrightarrow> ex_calls s = [] \<and> ex_queue s = [] \<and> held (ex_loop s) = [] \<and> ex_workers s = [] \<and>
     (ex_tx s \<or> ex_loop s = Exited)"

definition enabled :: "exec_act \<Rightarrow> executor \<Rightarrow> bool" where
  "enabled a s \<longleftrightarrow> \<not> client_act a \<and> \<not> report_act a \<and> perform a s \<noteq> None"

lemma call_enabled: "ex_calls s = c # cs \<Longrightarrow> enabled (Send 0) s \<or> enabled (Count 0) s"
  by (cases c; cases "fst c")
    (auto simp: enabled_def submit_send_def submit_count_def pick_def)

lemma worker_enabled:
  "ex_workers s = w # ws \<Longrightarrow> enabled (Start 0) s \<or> (\<forall>r. enabled (Finish 0 r) s) \<or> enabled (Resubmit 0) s"
  by (cases w)
    (auto simp: enabled_def worker_start_def worker_finish_def worker_resubmit_def submit_begin_def
      pick_def Let_def split: handler_result.splits if_splits)

lemma loop_enabled:
  assumes "exec_inv s" and "ex_loop s \<noteq> Unspawned" and "ex_calls s = []" and "ex_workers s = []"
    and "\<not> idle s"
  shows "enabled Recv s \<or> enabled Exit s \<or> enabled Acquire s"
  using assms
  by (cases "ex_loop s"; cases "ex_queue s")
    (auto simp: enabled_def idle_def exec_inv_def loop_recv_def loop_exit_def loop_acquire_def)

lemma exec_progress:
  assumes "exec_inv s" and "ex_loop s \<noteq> Unspawned" and "\<not> idle s"
  shows "\<exists>a. enabled a s"
proof (cases "ex_calls s")
  case (Cons c cs)
  then show ?thesis using call_enabled by blast
next
  case Nil
  show ?thesis
  proof (cases "ex_workers s")
    case (Cons w ws)
    then show ?thesis using worker_enabled by blast
  next
    case no_worker: Nil
    from loop_enabled [OF assms(1,2) Nil no_worker assms(3)] show ?thesis by blast
  qed
qed

lemma spawned_stays:
  assumes "perform a s = Some s'" and "ex_loop s \<noteq> Unspawned"
  shows "ex_loop s' \<noteq> Unspawned"
proof (cases a)
  case (Submit t)
  with assms show ?thesis by (auto elim!: submit_beginE simp del: perform.simps)
qed (use assms in \<open>auto elim!: blockE simp: spawn_def shutdown_def split: if_splits\<close>)

lemma spawned_run: "exec_run as s = Some s' \<Longrightarrow> ex_loop s \<noteq> Unspawned \<Longrightarrow> ex_loop s' \<noteq> Unspawned"
  by (rule exec_run_keeps [where I = "\<lambda>s. ex_loop s \<noteq> Unspawned"]) (auto dest: spawned_stays)

lemma spawn_spawns: "exec_run as s = Some s' \<Longrightarrow> Spawn \<in> set as \<Longrightarrow> ex_loop s' \<noteq> Unspawned"
proof (induction as arbitrary: s)
  case (Cons a as)
  then obtain u where u: "perform a s = Some u" "exec_run as u = Some s'"
    by (auto split: option.splits)
  show ?case
  proof (cases "a = Spawn")
    case True
    with u(1) have "ex_loop u \<noteq> Unspawned" by (auto simp: spawn_def split: if_splits)
    with u(2) show ?thesis by (rule spawned_run)
  qed (use Cons u in auto)
qed simp

lemma exec_drains:
  "exec_inv s \<Longrightarrow> ex_loop s \<noteq> Unspawned \<Longrightarrow>
   \<exists>bs s'. (\<forall>b\<in>set bs. \<not> client_act b \<and> \<not> report_act b) \<and> exec_run bs s = Some s' \<and> idle s'"
proof (induction "work_left s" arbitrary: s rule: less_induct)
  case less
  show ?case
  proof (cases "idle s")
    case True
    then show ?thesis by (intro exI [of _ "[]"] exI [of _ s]) simp
  next
    case False
    then obtain a u where a: "\<not> client_act a" "\<not> report_act a" "perform a s = Some u"
      using exec_progress [OF less.prems] by (auto simp: enabled_def)
    with perform_works [OF a(3,1)] have "work_left u < work_left s" by simp
    from less.hyps [OF this exec_inv_perform [OF a(3)] spawned_stays [OF a(3)]] less.prems
    obtain bs s' where "\<forall>b\<in>set bs. \<not> client_act b \<and> \<not> report_act b" "exec_run bs u = Some s'" "idle s'"
      by blast
    with a show ?thesis by (intro exI [of _ "a # bs"] exI [of _ s']) simp
  qed
qed

section \<open>What the registry of tasks says\<close>

fun verdict_state :: "verdict \<Rightarrow> task_state" where
  "verdict_state VDone = TsDone"
| "verdict_state VFailed = TsFailed"
| "verdict_state VCrashed = TsProcessing"
| "verdict_state VLost = TsPending"

definition shows_state :: "executor \<Rightarrow> string \<Rightarrow> task_state \<Rightarrow> bool" where
  "shows_state s i st \<longleftrightarrow> (\<exists>c. current i s = Some c \<and> xt_state c = st)"

definition current_ok :: "exec_event list \<Rightarrow> executor \<Rightarrow> bool" where
  "current_ok es s \<longleftrightarrow>
     (\<forall>(t, v) \<in> set (ended es). shows_state s (xt_id t) (verdict_state v)) \<and>
     (\<forall>t. Handling t \<in> set (ex_workers s) \<longrightarrow> shows_state s (xt_id t) TsProcessing) \<and>
     (\<forall>t. Backoff t \<in> set (ex_workers s) \<longrightarrow> shows_state s (xt_id t) TsPending)"

lemma shows_state_set_current [simp]: "shows_state (set_current i p m s) j st = shows_state s j st"
  by (auto simp: shows_state_def set_current_def current_def split: option.splits if_splits)

lemma shows_state_cong: "ex_current s' = ex_current s \<Longrightarrow> shows_state s' = shows_state s"
  by (simp add: shows_state_def current_def fun_eq_iff)

lemma shows_state_put:
  "ex_current s' = hput i c (ex_current s) \<Longrightarrow>
   shows_state s' j st = (if i = j then xt_state c = st else shows_state s j st)"
  by (simp add: shows_state_def current_def)

lemma task_states [simp]:
  "xt_state (done_task t n) = TsDone" "xt_state (retry_task t e) = TsPending"
  "xt_state (failed_task t e) = TsFailed" "xt_state (clone_with_state t st) = st"
  by (simp_all add: done_task_def retry_task_def failed_task_def clone_with_state_def)

definition known_ids :: "exec_event list \<Rightarrow> executor \<Rightarrow> string list" where
  "known_ids es s = map (\<lambda>e. xt_id (fst e)) (ended es) @ map xt_id (flight s)"

lemma current_ok_same:
  assumes "current_ok es s" and "ex_current s' = ex_current s"
    and "\<And>w. w \<in> set (ex_workers s') \<Longrightarrow> w \<in> set (ex_workers s) \<or> (\<exists>t. w = Spawned t)"
  shows "current_ok es s'"
  using assms shows_state_cong [OF assms(2)] unfolding current_ok_def by (metis worker.distinct(1,3))

lemma current_ok_ended:
  assumes "current_ok es s" and "shows_state s (xt_id t) (verdict_state v)"
  shows "current_ok (es @ [Ended t v]) s"
  using assms by (auto simp: current_ok_def)

lemma current_ok_quiet: "ended fs = [] \<Longrightarrow> current_ok (es @ fs) s = current_ok es s"
  by (simp add: current_ok_def)

text \<open>One worker rewrites the entry of its task, whose id nobody else has.\<close>

lemma current_ok_put:
  assumes "current_ok es s" and "distinct (known_ids es s)"
    and "ex_workers s = as @ w # bs" and "xt_id (worker_task w) = i"
    and "ex_current s' = hput i c (ex_current s)"
    and "ex_workers s' = as @ ws @ bs"
    and "\<And>t. Handling t \<in> set ws \<Longrightarrow> xt_id t = i \<and> xt_state c = TsProcessing"
    and "\<And>t. Backoff t \<in> set ws \<Longrightarrow> xt_id t = i \<and> xt_state c = TsPending"
  shows "current_ok es s'"
proof -
  have "i \<notin> (\<lambda>e. xt_id (fst e)) ` set (ended es)"
    and "i \<notin> (\<lambda>u. xt_id (worker_task u)) ` (set as \<union> set bs)"
    using assms(2,3) by (simp_all add: known_ids_def flight_def image_Un assms(4) [symmetric])
  then have others: "\<And>e. e \<in> set (ended es) \<Longrightarrow> xt_id (fst e) \<noteq> i"
    "\<And>u. u \<in> set as \<union> set bs \<Longrightarrow> xt_id (worker_task u) \<noteq> i"
    by blast+
  have "shows_state s' (xt_id t) (verdict_state v)" if "(t, v) \<in> set (ended es)" for t v
    using assms(1) others(1) [OF that] that
    by (auto simp: current_ok_def shows_state_put [OF assms(5)])
  moreover have "shows_state s' (xt_id t) TsProcessing" if "Handling t \<in> set (ex_workers s')" for t
    using assms(1,3,6,7) others(2) [of "Handling t"] that
    by (auto simp: current_ok_def shows_state_put [OF assms(5)])
  moreover have "shows_state s' (xt_id t) TsPending" if "Backoff t \<in> set (ex_workers s')" for t
    using assms(1,3,6,8) others(2) [of "Backoff t"] that
    by (auto simp: current_ok_def shows_state_put [OF assms(5)])
  ultimately show ?thesis by (auto simp: current_ok_def)
qed

lemma perform_current:
  assumes "perform a s = Some s'" and "exec_inv s" and "current_ok es s"
    and "distinct (known_ids es s)"
  shows "current_ok (es @ event_of a s) s'"
proof (cases a)
  case (Submit t)
  with assms(1,3) show ?thesis
    by (auto elim!: submit_beginE intro!: current_ok_same [of es s] simp: current_ok_quiet
        simp del: perform.simps)
next
  case (Send i)
  with assms(1,2,3) show ?thesis
    by (auto elim!: submit_sendE intro!: current_ok_same [of es s] simp: exec_inv_def)
next
  case (Start i)
  from assms(1) [unfolded Start perform.simps] show ?thesis
  proof (cases rule: worker_startE)
    case (1 as t bs)
    have "current_ok es s'"
      by (rule current_ok_put [OF assms(3,4) 1(1), where ws = "[Handling t]" and i = "xt_id t"
            and c = "clone_with_state t TsProcessing"])
        (use 1 in \<open>auto simp: clone_with_state_def\<close>)
    with 1 Start show ?thesis by (simp add: current_ok_quiet)
  qed
next
  case (Finish i r)
  from assms(1) [unfolded Finish perform.simps] show ?thesis
  proof (cases rule: worker_finishE)
    case (indexed as t bs n)
    have "current_ok es s'"
      by (rule current_ok_put [OF assms(3,4) indexed(1), where ws = "[]" and i = "xt_id t"
            and c = "done_task t n"]) (use indexed in auto)
    then show ?thesis
      using indexed Finish by (auto intro: current_ok_ended simp: shows_state_put)
  next
    case (retried as t bs e)
    have "current_ok es s'"
      by (rule current_ok_put [OF assms(3,4) retried(1), where ws = "[Backoff (retry_task t e)]" and i = "xt_id t"
            and c = "retry_task t e"]) (use retried in auto)
    with retried Finish show ?thesis by simp
  next
    case (failed as t bs e)
    have "current_ok es s'"
      by (rule current_ok_put [OF assms(3,4) failed(1), where ws = "[]" and i = "xt_id t"
            and c = "failed_task t e"]) (use failed in auto)
    then show ?thesis
      using failed Finish by (auto intro: current_ok_ended simp: shows_state_put)
  next
    case (crashed as t bs)
    have "current_ok es s'"
      by (rule current_ok_same [OF assms(3)]) (use crashed in auto)
    moreover have "shows_state s' (xt_id t) TsProcessing"
      using assms(3) crashed by (simp add: current_ok_def shows_state_def current_def)
    ultimately show ?thesis using crashed Finish by (auto intro: current_ok_ended)
  qed
next
  case (Resubmit i)
  from assms(1) [unfolded Resubmit perform.simps] show ?thesis
  proof (cases rule: worker_resubmitE)
    case (1 as t bs)
    with assms(3) Resubmit show ?thesis by (auto intro!: current_ok_same [of es s])
  next
    case (2 as t bs)
    have "current_ok es s'"
      by (rule current_ok_same [OF assms(3)]) (use 2 in auto)
    moreover have "shows_state s' (xt_id t) TsPending"
      using assms(3) 2 by (simp add: current_ok_def shows_state_def current_def)
    ultimately show ?thesis using 2 Resubmit by (auto intro: current_ok_ended)
  qed
next
  case (Report i clock p m)
  with assms(1,3) show ?thesis by (auto elim!: worker_reportE simp: current_ok_def)
qed (use assms(1,3) in \<open>auto elim!: submit_countE loop_recvE loop_exitE loop_acquireE
       intro!: current_ok_same [of es s] simp: spawn_def shutdown_def split: if_splits\<close>)

text \<open>Along a run: no id is accepted twice.\<close>

lemma mset_known_ids: "mset (known_ids es s) = ended_ids es + ids (flight s)"
  by (simp add: known_ids_def)

lemma distinct_sub: "distinct xs \<Longrightarrow> mset xs = mset ys + N \<Longrightarrow> distinct ys"
  by (metis distinct_append mset_append ex_mset mset_eq_imp_distinct_iff)

lemma run_current:
  assumes "exec_run as s = Some s'" and "exec_inv s" and "current_ok es s"
    and "distinct (known_ids es s @ map xt_id (accepted (exec_events as s)))"
  shows "current_ok (es @ exec_events as s) s' \<and> distinct (known_ids (es @ exec_events as s) s')"
  using assms
proof (induction as arbitrary: s es)
  case (Cons a as)
  from Cons.prems(1) obtain u where u: "perform a s = Some u" "exec_run as u = Some s'"
    by (auto split: option.splits)
  have ok: "current_ok (es @ event_of a s) u"
    using perform_current [OF u(1) Cons.prems(2,3)] Cons.prems(4) by simp
  have "mset (known_ids es s @ map xt_id (accepted (exec_events (a # as) s))) =
    mset (known_ids (es @ event_of a s) u @ map xt_id (accepted (exec_events as u)))"
    using perform_ledger [OF u(1)] u(1)
    by (simp add: mset_known_ids)
  with Cons.prems(4) have "distinct (known_ids (es @ event_of a s) u @ map xt_id (accepted (exec_events as u)))"
    using mset_eq_imp_distinct_iff by blast
  from Cons.IH [OF u(2) exec_inv_perform [OF u(1) Cons.prems(2)] ok this] u(1)
  show ?case by simp
qed simp

end
