(* ===== verification/Task_Executor_Spec.thy ===== *)
theory Task_Executor_Spec
  imports Task_Executor_Proofs
begin

text \<open>
  The properties of the task executor, over every interleaving of its threads and of the calls of
  its clients (\<open>exec_run\<close> from \<open>executor_new\<close>).
\<close>

section \<open>A submission without interference\<close>

lemma submit_sequential:
  assumes "exec_inv s" and "ex_tx s"
  shows "exec_run [Submit t, Send (length (ex_calls s)), Count (length (ex_calls s))] s =
           Some (snd (submit t s))"
    and "fst (submit t s) = Inr ()"
proof -
  from assms have "ex_loop s \<noteq> Exited" by (auto simp: exec_inv_def)
  with assms(2) show "fst (submit t s) = Inr ()"
    and "exec_run [Submit t, Send (length (ex_calls s)), Count (length (ex_calls s))] s =
           Some (snd (submit t s))"
    by (simp_all add: submit_def submit_begin_def submit_send_def submit_count_def)
qed

lemma submit_refused: "\<not> ex_tx s \<Longrightarrow> submit t s = (Inl shut_down, s)"
  by (simp add: submit_def submit_begin_def)

section \<open>The ledger\<close>

lemma new_simps [simp]:
  "flight (executor_new nm boot n) = []" "ex_tx (executor_new nm boot n)"
  "ex_workers (executor_new nm boot n) = []" "ex_done (executor_new nm boot n) = 0"
  "ex_failed (executor_new nm boot n) = 0" "ex_running (executor_new nm boot n) = 0"
  "ex_current (executor_new nm boot n) = []" "flight_budget i (executor_new nm boot n) = 0"
  "ex_max_concurrent (executor_new nm boot n) = max n 1"
  by (simp_all add: executor_new_def flight_def flight_budget_def)

text \<open>
  C4. Every accepted task is accounted for: it is in exactly one place of the executor or has
  exactly one verdict. The counters \<open>done\<close> and \<open>failed\<close> count the verdicts, and \<open>running\<close> the
  handlers at work plus one for every handler that has panicked. Without a shutdown no
  accepted task is lost.
\<close>

theorem executor_ledger:
  assumes run: "exec_run as (executor_new nm boot n) = Some s"
    and es: "es = exec_events as (executor_new nm boot n)"
  shows "ids (accepted es) = ended_ids es + ids (flight s) \<and>
    ex_done s = of_nat (verdicts VDone es) \<and> ex_failed s = of_nat (verdicts VFailed es) \<and>
    ex_running s = of_nat (length (filter handling (ex_workers s)) + verdicts VCrashed es) \<and>
    (Shutdown \<notin> set as \<longrightarrow> verdicts VLost es = 0)"
  using run_ledger [OF run] run_counters [OF run] lost_after_shutdown [OF run] es
  by (simp add: counters_def)

definition demo_task :: "string \<Rightarrow> exec_task" where
  "demo_task i = exec_task_new i ''doc'' ''kb'' ''a.txt'' 0"

definition demo_run :: "exec_act list" where
  "demo_run =
     [Submit (demo_task ''a''), Spawn, Send 0, Recv, Count 0, Acquire, Start 0,
      Submit (demo_task ''b''), Send 0, Count 0, Recv,
      Finish 0 (Raised (retryable_error ''busy'')), Acquire, Start 1, Resubmit 0,
      Finish 0 (Indexed 3)]"

theorem executor_ledger_witness:
  "\<exists>s. exec_run demo_run (executor_new ''x'' 0 1) = Some s \<and> ex_done s = 1 \<and> ex_failed s = 0"
proof -
  let ?s = "executor_new ''x'' 0 1"
  have "exec_run demo_run ?s \<noteq> None" by code_simp
  then obtain s where s: "exec_run demo_run ?s = Some s" by blast
  have "verdicts VDone (exec_events demo_run ?s) = 1" "verdicts VFailed (exec_events demo_run ?s) = 0"
    by code_simp+
  with executor_ledger [OF s refl] s show ?thesis by auto
qed

section \<open>Bounded concurrency\<close>

lemma handling_le_holds: "length (filter handling ws) \<le> length (filter holds_permit ws)"
proof (induction ws)
  case (Cons w ws)
  then show ?case by (cases w) simp_all
qed simp

text \<open>
  C24. However submissions, the loop and the workers interleave, no more handlers run at a time
  than the executor was created for, and a permit is never lost: the free permits and the
  workers that hold one add up to the limit, also after handlers have panicked.
\<close>

theorem executor_bounded:
  assumes "exec_run as (executor_new nm boot n) = Some s"
  shows "length (filter handling (ex_workers s)) \<le> max n 1 \<and>
    ex_permits s + length (filter holds_permit (ex_workers s)) = max n 1"
proof -
  have "ex_max_concurrent s = max n 1"
    using exec_run_keeps [OF assms, of "\<lambda>u. ex_max_concurrent u = max n 1"] perform_max by auto
  moreover have "exec_inv s" using exec_inv_run [OF assms] by simp
  ultimately show ?thesis
    using handling_le_holds [of "ex_workers s"] unfolding exec_inv_def by linarith
qed

theorem executor_bounded_witness:
  "\<exists>s. exec_run demo_run (executor_new ''x'' 0 1) = Some s \<and>
       ex_permits s + length (filter holds_permit (ex_workers s)) = 1"
proof -
  have "exec_run demo_run (executor_new ''x'' 0 1) \<noteq> None" by code_simp
  then obtain s where s: "exec_run demo_run (executor_new ''x'' 0 1) = Some s" by blast
  with executor_bounded [OF s] show ?thesis by simp
qed

section \<open>Liveness\<close>

text \<open>
  C2. Once the loop is spawned, the executor drains. Left alone, from whatever state its clients
  have brought it to, it performs at most \<open>work_left\<close> blocks besides progress reports, whatever
  the order of its threads, the results of the handlers and the number of reports; and as long
  as a task is in flight, a call of \<open>submit\<close> under way, or a shutdown still waits for the loop,
  some block can run. So every run reaches a state with nothing in flight, where each accepted
  task has its verdict.
\<close>

theorem executor_drains:
  assumes run: "exec_run as (executor_new nm boot n) = Some s" and spawned: "Spawn \<in> set as"
    and rest: "exec_run bs s = Some s'" and alone: "\<forall>b\<in>set bs. \<not> client_act b"
  shows "length (filter (\<lambda>b. \<not> report_act b) bs) \<le> work_left s \<and>
    (idle s' \<and> ids (accepted (exec_events (as @ bs) (executor_new nm boot n))) =
       ended_ids (exec_events (as @ bs) (executor_new nm boot n)) \<or>
     (\<exists>b. enabled b s')) \<and>
    (\<exists>cs s''. (\<forall>c\<in>set cs. \<not> client_act c) \<and> exec_run cs s' = Some s'' \<and> idle s'')"
proof -
  have all: "exec_run (as @ bs) (executor_new nm boot n) = Some s'"
    using run rest by (simp add: exec_run_append)
  then have inv: "exec_inv s'" by (rule exec_inv_run) simp
  have sp: "ex_loop s' \<noteq> Unspawned" by (rule spawn_spawns [OF all]) (use spawned in simp)
  have "flight s' = []" if "idle s'" using that by (simp add: idle_def flight_def)
  then have "idle s' \<longrightarrow> ids (accepted (exec_events (as @ bs) (executor_new nm boot n))) =
       ended_ids (exec_events (as @ bs) (executor_new nm boot n))"
    using run_ledger [OF all] by simp
  with run_works [OF rest alone] exec_progress [OF inv sp] exec_drains [OF inv sp]
  show ?thesis by fastforce
qed

theorem executor_drains_witness:
  "\<exists>s cs s'. exec_run demo_run (executor_new ''x'' 0 1) = Some s \<and> \<not> idle s \<and>
     exec_run cs s = Some s' \<and> idle s'"
proof -
  let ?n = "executor_new ''x'' 0 1"
  have "exec_run demo_run ?n \<noteq> None" by code_simp
  then obtain s where s: "exec_run demo_run ?n = Some s" by blast
  have "length (ex_calls (the (exec_run demo_run ?n))) = 1" by code_simp
  with s have "\<not> idle s" by (auto simp: idle_def)
  moreover have "Spawn \<in> set demo_run" by (simp add: demo_run_def)
  moreover have "exec_run [] s = Some s" by simp
  ultimately show ?thesis using executor_drains [OF s _ _ , of "[]" s] s by auto
qed

section \<open>Bounded executions\<close>

text \<open>
  C37. The handler is run at most \<open>max_retries + 1\<close> times for a submission of a fresh task (one more
  than the documented maximum), and \<open>max_retries - attempts + 1\<close> times in general; when the id is
  submitted several times, at most as often as these add up to.
\<close>

theorem executions_bounded:
  assumes run: "exec_run as (executor_new nm boot n) = Some s"
    and es: "es = exec_events as (executor_new nm boot n)"
  shows "starts i es \<le>
    (\<Sum>t\<leftarrow>filter (\<lambda>t. xt_id t = i) (accepted es). xt_max_retries t - xt_attempts t + 1)"
proof -
  have "budget = (\<lambda>t. xt_max_retries t - xt_attempts t + 1)" by (simp add: budget_def fun_eq_iff)
  with run_budget [OF run, of i] es show ?thesis by (simp add: task_budget_def)
qed

definition stubborn_run :: "exec_act list" where
  "stubborn_run =
     (let busy = Finish 0 (Raised (retryable_error ''busy''));
          once = [Send 0, Count 0, Recv, Acquire, Start 0, busy]
      in [Submit (demo_task ''a''), Spawn] @ once @ [Resubmit 0] @ once @ [Resubmit 0] @ once)"

theorem executions_bounded_witness:
  "starts ''a'' (exec_events stubborn_run (executor_new ''x'' 0 1)) = 3 \<and>
   3 \<le> (\<Sum>t\<leftarrow>filter (\<lambda>t. xt_id t = ''a'')
           (accepted (exec_events stubborn_run (executor_new ''x'' 0 1))).
         xt_max_retries t - xt_attempts t + 1)"
proof -
  let ?n = "executor_new ''x'' 0 1"
  have "exec_run stubborn_run ?n \<noteq> None" by code_simp
  then obtain s where s: "exec_run stubborn_run ?n = Some s" by blast
  have "starts ''a'' (exec_events stubborn_run ?n) = 3" by code_simp
  with executions_bounded [OF s refl, of "''a''"] show ?thesis by simp
qed

section \<open>The registry of tasks\<close>

text \<open>
  When no id is accepted twice, each accepted task is in one place only, so no two workers
  ever run the same task, and the registry tells its fate: done, failed, still processing for
  a task whose handler panicked, and pending for a task dropped at a shutdown.
\<close>

theorem registry_tells_fate:
  assumes run: "exec_run as (executor_new nm boot n) = Some s"
    and es: "es = exec_events as (executor_new nm boot n)"
    and once: "distinct (map xt_id (accepted es))"
  shows "distinct (map (\<lambda>e. xt_id (fst e)) (ended es) @ map xt_id (flight s)) \<and>
    (\<forall>(t, v) \<in> set (ended es). \<exists>c. current (xt_id t) s = Some c \<and> xt_state c = verdict_state v)"
proof -
  have "current_ok (es @ []) s \<and> distinct (known_ids (es @ []) s)"
    using run_current [OF run, of "[]"] once es
    by (simp add: current_ok_def known_ids_def)
  then show ?thesis by (simp add: current_ok_def known_ids_def shows_state_def)
qed

theorem registry_tells_fate_witness:
  "\<exists>s. exec_run demo_run (executor_new ''x'' 0 1) = Some s \<and>
     (\<exists>c. current ''b'' s = Some c \<and> xt_state c = TsDone)"
proof -
  let ?n = "executor_new ''x'' 0 1"
  have "exec_run demo_run ?n \<noteq> None" by code_simp
  then obtain s where s: "exec_run demo_run ?n = Some s" by blast
  have e: "map (\<lambda>e. (xt_id (fst e), snd e)) (ended (exec_events demo_run ?n)) = [(''b'', VDone)]"
    and d: "distinct (map xt_id (accepted (exec_events demo_run ?n)))"
    by code_simp+
  from e have "\<exists>t. ended (exec_events demo_run ?n) = [(t, VDone)] \<and> xt_id t = ''b''" by auto
  then obtain t where t: "ended (exec_events demo_run ?n) = [(t, VDone)]" "xt_id t = ''b''"
    by blast
  from registry_tells_fate [OF s refl d] t s show ?thesis by auto
qed

lemma current_stays: "perform a s = Some s' \<Longrightarrow> current i s \<noteq> None \<Longrightarrow> current i s' \<noteq> None"
proof (cases a)
  case (Submit t)
  then show "perform a s = Some s' \<Longrightarrow> current i s \<noteq> None \<Longrightarrow> current i s' \<noteq> None"
    by (auto elim!: submit_beginE simp: current_def simp del: perform.simps)
qed (auto elim!: blockE simp: current_def spawn_def shutdown_def set_current_def
       split: if_splits option.splits)

lemma started_current:
  "exec_run as s = Some s' \<Longrightarrow> t \<in> set (started (exec_events as s)) \<Longrightarrow> current (xt_id t) s' \<noteq> None"
proof (induction as arbitrary: s)
  case (Cons a as)
  from Cons.prems(1) obtain u where u: "perform a s = Some u" "exec_run as u = Some s'"
    by (auto split: option.splits)
  show ?case
  proof (cases "t \<in> set (started (event_of a s))")
    case True
    with u(1) have "current (xt_id t) u \<noteq> None"
      by (cases a) (auto elim!: worker_startE simp: current_def split: option.splits
          handler_result.splits if_splits)
    with exec_run_keeps [OF u(2), of "\<lambda>s. current (xt_id t) s \<noteq> None"] current_stays
    show ?thesis by auto
  qed (use Cons u in auto)
qed simp

text \<open>
  The registry never forgets a task it has run: \<open>status\<close>, whose list is documented as the tasks
  currently claimed by a worker, lists every task ever started, with the final state of those
  long finished.
\<close>

theorem registry_keeps_finished:
  assumes "exec_run as (executor_new nm boot n) = Some s"
    and "t \<in> set (started (exec_events as (executor_new nm boot n)))"
  shows "\<exists>c \<in> set (es_current (status now s)). current (xt_id t) s = Some c"
  using started_current [OF assms] hget_hvalues
  by (fastforce simp: status_def current_def)

theorem registry_keeps_finished_witness:
  "\<exists>s. exec_run demo_run (executor_new ''x'' 0 1) = Some s \<and> ex_workers s = [] \<and>
     es_current (status 5 s) \<noteq> []"
proof -
  let ?n = "executor_new ''x'' 0 1"
  have "exec_run demo_run ?n \<noteq> None" by code_simp
  then obtain s where s: "exec_run demo_run ?n = Some s" by blast
  have "length (ex_workers (the (exec_run demo_run ?n))) = 0"
    and "length (started (exec_events demo_run ?n)) = 2"
    by code_simp+
  then have w: "ex_workers s = []" and n: "started (exec_events demo_run ?n) \<noteq> []" using s by auto
  from registry_keeps_finished [OF s hd_in_set [OF n], of 5] w s show ?thesis by auto
qed

section \<open>Two limits\<close>

text \<open>
  A retry that is due after a shutdown is dropped without a word: the worker ends, the task is
  neither done nor failed nor queued, and the registry shows it as pending for ever.
\<close>

theorem shutdown_drops_retries:
  assumes "ex_workers s = as @ Handling t # bs" and "\<not> ex_tx s" and "retries t e"
  shows "\<exists>s'. exec_run [Finish (length as) (Raised e), Resubmit (length as)] s = Some s' \<and>
    ex_workers s' = as @ bs \<and> ex_calls s' = ex_calls s \<and> ex_queue s' = ex_queue s \<and>
    ex_done s' = ex_done s \<and> ex_failed s' = ex_failed s \<and>
    current (xt_id t) s' = Some (retry_task t e) \<and> xt_state (retry_task t e) = TsPending"
  using assms by (simp add: worker_finish_def worker_resubmit_def submit_begin_def current_def Let_def)

definition stopped_run :: "exec_act list" where
  "stopped_run =
     [Submit (demo_task ''a''), Spawn, Send 0, Count 0, Recv, Acquire, Start 0, Shutdown, Exit]"

theorem shutdown_drops_retries_witness:
  "\<exists>s s'. exec_run stopped_run (executor_new ''x'' 0 1) = Some s \<and>
     exec_run [Finish 0 (Raised (retryable_error ''busy'')), Resubmit 0] s = Some s' \<and>
     ex_failed s' = 0 \<and> ex_workers s' = []"
proof -
  let ?n = "executor_new ''x'' 0 1"
  have "exec_run stopped_run ?n \<noteq> None" by code_simp
  then obtain s where s: "exec_run stopped_run ?n = Some s" by blast
  have "map (\<lambda>w. handling w \<and> retries (worker_task w) (retryable_error ''busy''))
        (ex_workers (the (exec_run stopped_run ?n))) = [True]"
    and "\<not> ex_tx (the (exec_run stopped_run ?n))" and "ex_failed (the (exec_run stopped_run ?n)) = 0"
    by code_simp+
  with s obtain w where w: "ex_workers s = [] @ w # []" "handling w"
    "retries (worker_task w) (retryable_error ''busy'')" "\<not> ex_tx s" "ex_failed s = 0"
    by (auto simp: map_eq_Cons_conv)
  then obtain t where "w = Handling t" by (cases w) auto
  with w shutdown_drops_retries [of s "[]" t "[]"] s show ?thesis by auto
qed

text \<open>
  The pending counter is the number of tasks sent and not yet started, less the sends not yet
  counted: a submission counts after it has sent, and a worker can be faster, so that the
  counter wraps below zero for a moment.
\<close>

theorem pending_counts:
  assumes "exec_run as (executor_new nm boot n) = Some s"
  shows "st_pending (stats s) =
    of_nat (length (ex_queue s) + length (held (ex_loop s)) + length (filter starting (ex_workers s))) -
    of_nat (length (filter (\<lambda>c. fst c = Sent) (ex_calls s)))"
  using exec_inv_run [OF assms exec_inv_new] by (simp add: exec_inv_def stats_def eq_diff_eq)

theorem pending_counts_witness:
  "\<exists>s. exec_run [Submit (demo_task ''a''), Spawn, Send 0, Recv, Acquire, Start 0]
         (executor_new ''x'' 0 1) = Some s \<and> st_pending (stats s) = 2 ^ 64 - 1"
proof -
  let ?n = "executor_new ''x'' 0 1"
    and ?as = "[Submit (demo_task ''a''), Spawn, Send 0, Recv, Acquire, Start 0]"
  have "exec_run ?as ?n \<noteq> None" by code_simp
  then obtain s where s: "exec_run ?as ?n = Some s" by blast
  let ?s = "the (exec_run ?as ?n)"
  have "length (ex_queue ?s) + length (held (ex_loop ?s)) + length (filter starting (ex_workers ?s)) = 0"
    and "length (filter (\<lambda>c. fst c = Sent) (ex_calls ?s)) = 1"
    by code_simp+
  with pending_counts [OF s] s show ?thesis by simp
qed

end
