(* ===== verification/Sync_Task.thy ===== *)
theory Sync_Task
  imports Task_Executor_Spec "HOL-Library.List_Lexorder" "HOL-Library.Char_ord"
begin

text \<open>
  Synchronization tasks (the second part of \<^verbatim>\<open>task_executor.rs\<close>): a connector delivers batches of
  documents, the changed ones are handed to the caller's \<open>upsert\<close>, and a summary carries the
  counts and the start of the next poll window; then the handler that runs a synchronization on
  the task executor. The connector and \<open>upsert\<close> are arbitrary; \<open>upsert\<close> has a state of its own.
  Strings are compared byte by byte, so \<open><\<close> on them is Rust's.
\<close>

record sync_task =
  sy_id :: string
  sy_connector_id :: string
  sy_kb_id :: string
  sy_tenant_id :: string
  sy_source_name :: string
  sy_poll_range_start :: "string option"
  sy_timeout_secs :: u64
  sy_auto_parse :: bool
  sy_reindex :: bool
  sy_sync_deleted_files :: bool

definition sync_task_new :: "string \<Rightarrow> string \<Rightarrow> string \<Rightarrow> sync_task" where
  "sync_task_new tid cid kid =
     \<lparr>sy_id = tid, sy_connector_id = cid, sy_kb_id = kid, sy_tenant_id = [], sy_source_name = [],
      sy_poll_range_start = None, sy_timeout_secs = 3600, sy_auto_parse = True,
      sy_reindex = False, sy_sync_deleted_files = False\<rparr>"

record sync_doc =
  sd_id :: string
  sd_semantic_identifier :: string
  sd_extension :: string
  sd_size_bytes :: nat
  sd_doc_updated_at :: string
  sd_blob :: string
  sd_fingerprint :: "string option"
  sd_metadata :: "(string, string) hmap"

record sync_feed =
  sf_batches :: "sync_doc list list"
  sf_file_list :: "string list option"

datatype sync_change = Added | Updated

record sync_summary =
  ss_total :: nat
  ss_added :: nat
  ss_updated :: nat
  ss_deleted :: nat
  ss_skipped :: nat
  ss_failed :: nat
  ss_next_poll_range_start :: "string option"

definition sync_summary_default :: sync_summary where
  "sync_summary_default =
     \<lparr>ss_total = 0, ss_added = 0, ss_updated = 0, ss_deleted = 0, ss_skipped = 0, ss_failed = 0,
      ss_next_poll_range_start = None\<rparr>"

datatype sync_outcome = SyncSuccess sync_summary | SyncTimeout string | SyncFailed string

type_synonym 'u upsert = "'u \<Rightarrow> sync_doc \<Rightarrow> sync_change \<Rightarrow> 'u \<times> bool"

section \<open>One run\<close>

text \<open>What the loop carries: the summary, the known ids, the window, and the state of \<open>upsert\<close>.\<close>

record 'u sync_state =
  sn_summary :: sync_summary
  sn_known :: "string set"
  sn_next :: "string option"
  sn_sink :: 'u

definition unchanged_blob :: "(string, string) hmap \<Rightarrow> sync_doc \<Rightarrow> bool" where
  "unchanged_blob fps doc =
     (case sd_fingerprint doc of
        None \<Rightarrow> False
      | Some fp \<Rightarrow> (case hget fps (sd_id doc) of None \<Rightarrow> False | Some stored \<Rightarrow> stored = fp))"

definition advance_window :: "string option \<Rightarrow> string \<Rightarrow> string option" where
  "advance_window w ts =
     (case w of Some t \<Rightarrow> if t < ts then Some ts else w | None \<Rightarrow> Some ts)"

definition sync_one ::
    "(string, string) hmap \<Rightarrow> 'u upsert \<Rightarrow> sync_doc \<Rightarrow> 'u sync_state \<Rightarrow> 'u sync_state" where
  "sync_one fps upsert doc st =
     (if unchanged_blob fps doc
      then st\<lparr>sn_summary := (sn_summary st)\<lparr>ss_skipped := ss_skipped (sn_summary st) + 1\<rparr>\<rparr>
      else
        (let st = st\<lparr>sn_next := advance_window (sn_next st) (sd_doc_updated_at doc)\<rparr>;
             change = (if sd_id doc \<in> sn_known st then Updated else Added);
             sm = sn_summary st
         in case upsert (sn_sink st) doc change of
              (sink, True) \<Rightarrow>
                st\<lparr>sn_sink := sink, sn_known := insert (sd_id doc) (sn_known st),
                   sn_summary := (case change of
                     Added \<Rightarrow> sm\<lparr>ss_added := ss_added sm + 1\<rparr>
                   | Updated \<Rightarrow> sm\<lparr>ss_updated := ss_updated sm + 1\<rparr>)\<rparr>
            | (sink, False) \<Rightarrow>
                st\<lparr>sn_sink := sink, sn_summary := sm\<lparr>ss_failed := ss_failed sm + 1\<rparr>\<rparr>))"

fun sync_batches ::
    "(string, string) hmap \<Rightarrow> 'u upsert \<Rightarrow> sync_doc list list \<Rightarrow> 'u sync_state \<Rightarrow> 'u sync_state" where
  "sync_batches fps upsert [] st = st"
| "sync_batches fps upsert (batch # batches) st =
     (if batch = [] then sync_batches fps upsert batches st
      else sync_batches fps upsert batches (fold (sync_one fps upsert) batch st))"

definition expects_snapshot :: "sync_task \<Rightarrow> bool" where
  "expects_snapshot task \<longleftrightarrow>
     \<not> sy_reindex task \<and> sy_poll_range_start task \<noteq> None \<and> sy_sync_deleted_files task"

definition stale_ids :: "string list \<Rightarrow> string set \<Rightarrow> string set" where
  "stale_ids snapshot known = Set.filter (\<lambda>i. i \<notin> set snapshot) known"

text \<open>\<open>feed\<close>: what the connector's \<open>generate\<close> answered.\<close>

definition run_sync_task ::
    "sync_task \<Rightarrow> string + sync_feed \<Rightarrow> string set \<Rightarrow> (string, string) hmap \<Rightarrow> 'u upsert \<Rightarrow> 'u \<Rightarrow>
     'u \<times> (string + sync_summary)" where
  "run_sync_task task feed existing fps upsert sink =
     (case feed of
        Inl e \<Rightarrow> (sink, Inl e)
      | Inr f \<Rightarrow>
          (let st = sync_batches fps upsert (sf_batches f)
                      \<lparr>sn_summary = sync_summary_default, sn_known = existing,
                       sn_next = sy_poll_range_start task, sn_sink = sink\<rparr>;
               sm = sn_summary st;
               deleted = (if expects_snapshot task
                          then (case sf_file_list f of
                                  None \<Rightarrow> ss_deleted sm
                                | Some snapshot \<Rightarrow> card (stale_ids snapshot (sn_known st)))
                          else ss_deleted sm)
           in (sn_sink st,
               Inr (sm\<lparr>ss_deleted := deleted,
                       ss_total := ss_added sm + ss_updated sm + deleted,
                       ss_next_poll_range_start := sn_next st\<rparr>))))"

text \<open>
  The run under its timeout. The only point where it can be interrupted is the wait for the
  connector: \<open>None\<close> when the connector has not answered in time.
\<close>

definition execute_sync ::
    "sync_task \<Rightarrow> (string + sync_feed) option \<Rightarrow> string set \<Rightarrow> (string, string) hmap \<Rightarrow> 'u upsert \<Rightarrow>
     'u \<Rightarrow> 'u \<times> sync_outcome" where
  "execute_sync task answer existing fps upsert sink =
     (case answer of
        None \<Rightarrow> (sink, SyncTimeout (''Task timeout after '' @ nat_to_str (unat (sy_timeout_secs task)) @
                                    '' seconds''))
      | Some feed \<Rightarrow>
          (case run_sync_task task feed existing fps upsert sink of
             (sink', Inr sm) \<Rightarrow> (sink', SyncSuccess sm)
           | (sink', Inl e) \<Rightarrow> (sink', SyncFailed e)))"

text \<open>The progress report and the result of the handler.\<close>

definition sync_report :: "sync_outcome \<Rightarrow> f32 \<times> string" where
  "sync_report oc =
     (case oc of
        SyncSuccess sm \<Rightarrow>
          (Fin 1, ''sync summary: total='' @ nat_to_str (ss_total sm) @ '', added='' @
                  nat_to_str (ss_added sm) @ '', updated='' @ nat_to_str (ss_updated sm) @
                  '', deleted='' @ nat_to_str (ss_deleted sm))
      | SyncTimeout m \<Rightarrow> (Fin (- 1), m)
      | SyncFailed m \<Rightarrow> (Fin (- 1), m))"

definition sync_result :: "sync_outcome \<Rightarrow> handler_result" where
  "sync_result oc =
     (case oc of
        SyncSuccess sm \<Rightarrow> Indexed (ss_total sm)
      | SyncTimeout m \<Rightarrow> Raised (permanent_error m)
      | SyncFailed m \<Rightarrow> Raised (permanent_error m))"

text \<open>The handler: the blocks it adds to the executor, as worker \<open>i\<close>, and the new state of the sink.\<close>

definition sync_task_handler ::
    "nat \<Rightarrow> string \<Rightarrow> sync_task \<Rightarrow> (string + sync_feed) option \<Rightarrow> string set \<Rightarrow>
     (string, string) hmap \<Rightarrow> 'u upsert \<Rightarrow> 'u \<Rightarrow> 'u \<times> exec_act list" where
  "sync_task_handler i clock task answer existing fps upsert sink =
     (case execute_sync task answer existing fps upsert sink of
        (sink', oc) \<Rightarrow>
          (sink', (case sync_report oc of (p, m) \<Rightarrow> [Report i clock p m]) @ [Finish i (sync_result oc)]))"

section \<open>What a run does, read off the calls of \<open>upsert\<close>\<close>

type_synonym sync_log = "(sync_doc \<times> sync_change \<times> bool) list"

definition logged :: "'u upsert \<Rightarrow> ('u \<times> sync_log) upsert" where
  "logged upsert = (\<lambda>(sink, lg) doc change.
     case upsert sink doc change of (sink', ok) \<Rightarrow> ((sink', lg @ [(doc, change, ok)]), ok))"

text \<open>Each call is classified by what was known before it: the ids of the start and of the successes.\<close>

fun classified :: "string set \<Rightarrow> sync_log \<Rightarrow> bool" where
  "classified known [] = True"
| "classified known ((doc, change, ok) # lg) =
     (change = (if sd_id doc \<in> known then Updated else Added) \<and>
      classified (if ok then insert (sd_id doc) known else known) lg)"

definition stored_ids :: "sync_log \<Rightarrow> string set" where
  "stored_ids lg = {sd_id doc | doc change. (doc, change, True) \<in> set lg}"

lemma stored_ids_simps [simp]:
  "stored_ids [] = {}" "stored_ids (lg @ lg') = stored_ids lg \<union> stored_ids lg'"
  "stored_ids ((doc, change, ok) # lg) = (if ok then {sd_id doc} else {}) \<union> stored_ids lg"
  by (auto simp: stored_ids_def)

lemma classified_append [simp]:
  "classified known (lg @ lg') \<longleftrightarrow> classified known lg \<and> classified (known \<union> stored_ids lg) lg'"
  by (induction known lg rule: classified.induct) auto

abbreviation calls :: "sync_change \<Rightarrow> bool \<Rightarrow> sync_log \<Rightarrow> nat" where
  "calls change ok lg \<equiv> length (filter (\<lambda>(d, c, k). c = change \<and> k = ok) lg)"

definition sync_inv ::
    "(string, string) hmap \<Rightarrow> string set \<Rightarrow> string option \<Rightarrow> sync_doc list \<Rightarrow> ('u \<times> sync_log) sync_state \<Rightarrow> bool"
  where
  "sync_inv fps existing start fed st \<longleftrightarrow>
     (let lg = snd (sn_sink st); sm = sn_summary st in
      map fst lg = filter (\<lambda>d. \<not> unchanged_blob fps d) fed \<and>
      classified existing lg \<and> sn_known st = existing \<union> stored_ids lg \<and>
      sn_next st = fold (\<lambda>d w. advance_window w (sd_doc_updated_at d)) (map fst lg) start \<and>
      ss_skipped sm = length (filter (unchanged_blob fps) fed) \<and>
      ss_added sm = calls Added True lg \<and> ss_updated sm = calls Updated True lg \<and>
      ss_failed sm = calls Added False lg + calls Updated False lg \<and> ss_deleted sm = 0)"

lemma sync_inv_one:
  assumes "sync_inv fps existing start fed st"
  shows "sync_inv fps existing start (fed @ [doc]) (sync_one fps (logged upsert) doc st)"
proof (cases "unchanged_blob fps doc")
  case True
  with assms show ?thesis by (simp add: sync_inv_def sync_one_def Let_def)
next
  case False
  obtain sink lg where sl: "sn_sink st = (sink, lg)" by (cases "sn_sink st")
  let ?change = "if sd_id doc \<in> sn_known st then Updated else Added"
  obtain sink' ok where u: "upsert sink doc ?change = (sink', ok)"
    by (cases "upsert sink doc ?change")
  with assms False sl show ?thesis
    by (cases ok; cases "sd_id doc \<in> sn_known st")
      (simp_all add: sync_inv_def sync_one_def logged_def Let_def)
qed

lemma sync_inv_fold:
  "sync_inv fps existing start fed st \<Longrightarrow>
   sync_inv fps existing start (fed @ docs) (fold (sync_one fps (logged upsert)) docs st)"
proof (induction docs arbitrary: fed st)
  case (Cons d docs)
  from Cons.IH [OF sync_inv_one [OF Cons.prems, of d]] show ?case by simp
qed simp

lemma sync_inv_batches:
  "sync_inv fps existing start fed st \<Longrightarrow>
   sync_inv fps existing start (fed @ concat batches) (sync_batches fps (logged upsert) batches st)"
proof (induction batches arbitrary: fed st)
  case (Cons b bs)
  from Cons.IH [OF Cons.prems] Cons.IH [OF sync_inv_fold [OF Cons.prems, of b]] show ?case by auto
qed simp

text \<open>The window ends at the latest of its start and the timestamps seen.\<close>

lemma advance_window_None [simp]: "advance_window None t = Some t"
  by (simp add: advance_window_def)

lemma fold_window_Some:
  "fold (\<lambda>d w. advance_window w (f d)) ds (Some t) = Some (Max (insert t (f ` set ds)))"
proof (induction ds arbitrary: t)
  case (Cons d ds)
  have "advance_window (Some t) (f d) = Some (max t (f d))"
    by (auto simp: advance_window_def max_def not_less)
  with Cons.IH [of "max t (f d)"] show ?case
    by (cases "ds = []") (simp_all add: max.assoc Max_insert2 insert_commute)
qed simp

definition latest :: "string option \<Rightarrow> string list \<Rightarrow> string option" where
  "latest start ts =
     (let all = (case start of None \<Rightarrow> ts | Some t \<Rightarrow> t # ts)
      in if all = [] then None else Some (Max (set all)))"

lemma fold_window:
  "fold (\<lambda>d w. advance_window w (f d)) ds w = latest w (map f ds)"
proof (cases w)
  case None
  then show ?thesis
    by (cases ds) (simp_all add: latest_def fold_window_Some)
qed (simp add: latest_def fold_window_Some)

text \<open>
  A synchronization hands to \<open>upsert\<close> exactly the documents whose fingerprint is not the stored
  one, in the order of the feed, each marked as added or updated by what the knowledge base
  and the run have stored so far. The summary counts every document of the feed once, as
  skipped, added, updated or failed; stale documents are counted on incremental runs with a
  snapshot only; and the next window starts at the latest timestamp handed over.
\<close>

theorem sync_run_exact:
  assumes "run_sync_task task (Inr feed) existing fps (logged upsert) (sink, []) = ((sink', lg), Inr sm)"
  shows "map fst lg = filter (\<lambda>d. \<not> unchanged_blob fps d) (concat (sf_batches feed)) \<and>
    classified existing lg \<and>
    ss_skipped sm = length (filter (unchanged_blob fps) (concat (sf_batches feed))) \<and>
    ss_added sm = calls Added True lg \<and> ss_updated sm = calls Updated True lg \<and>
    ss_failed sm = calls Added False lg + calls Updated False lg \<and>
    ss_deleted sm = (case sf_file_list feed of
        Some snapshot \<Rightarrow> if expects_snapshot task
                          then card (stale_ids snapshot (existing \<union> stored_ids lg)) else 0
      | None \<Rightarrow> 0) \<and>
    ss_total sm = ss_added sm + ss_updated sm + ss_deleted sm \<and>
    ss_next_poll_range_start sm =
      latest (sy_poll_range_start task) (map (sd_doc_updated_at \<circ> fst) lg)"
proof -
  let ?init = "\<lparr>sn_summary = sync_summary_default, sn_known = existing,
    sn_next = sy_poll_range_start task, sn_sink = (sink, [])\<rparr>"
  let ?st = "sync_batches fps (logged upsert) (sf_batches feed) ?init"
  have "sync_inv fps existing (sy_poll_range_start task) [] ?init"
    by (simp add: sync_inv_def sync_summary_default_def)
  from sync_inv_batches [OF this, where upsert = upsert and batches = "sf_batches feed"]
  have inv: "sync_inv fps existing (sy_poll_range_start task) (concat (sf_batches feed)) ?st"
    by simp
  obtain d where sink: "sn_sink ?st = (sink', lg)"
    and sm: "sm = (sn_summary ?st)\<lparr>ss_deleted := d,
      ss_total := ss_added (sn_summary ?st) + ss_updated (sn_summary ?st) + d,
      ss_next_poll_range_start := sn_next ?st\<rparr>"
    and del: "d = (if expects_snapshot task
       then (case sf_file_list feed of None \<Rightarrow> ss_deleted (sn_summary ?st)
             | Some snapshot \<Rightarrow> card (stale_ids snapshot (sn_known ?st)))
       else ss_deleted (sn_summary ?st))"
    using assms by (auto simp: run_sync_task_def Let_def)
  show ?thesis
    using inv sink unfolding sm del
    by (simp add: sync_inv_def Let_def fold_window [where f = sd_doc_updated_at] comp_def
        split: option.splits)
qed

definition demo_sync_doc :: "string \<Rightarrow> string \<Rightarrow> string option \<Rightarrow> sync_doc" where
  "demo_sync_doc i ts fp =
     \<lparr>sd_id = i, sd_semantic_identifier = i, sd_extension = ''md'', sd_size_bytes = 1,
      sd_doc_updated_at = ts, sd_blob = [], sd_fingerprint = fp, sd_metadata = []\<rparr>"

definition demo_feed :: sync_feed where
  "demo_feed = \<lparr>sf_batches = [[demo_sync_doc ''a'' ''09'' None, demo_sync_doc ''b'' ''10'' None], [],
      [demo_sync_doc ''c'' ''12'' (Some ''f''), demo_sync_doc ''c'' ''11'' (Some ''g'')]],
    sf_file_list = Some [''a'']\<rparr>"

definition demo_sync_task :: sync_task where
  "demo_sync_task = (sync_task_new ''t'' ''conn'' ''kb'')\<lparr>sy_poll_range_start := Some ''08'',
     sy_sync_deleted_files := True\<rparr>"

text \<open>An upsert that refuses the document \<open>c\<close>, with the number of calls as its state.\<close>

definition demo_upsert :: "nat upsert" where
  "demo_upsert n d c = (n + 1, sd_id d \<noteq> ''c'')"

lemma demo_sync_runs:
  "map_prod snd (\<lambda>r. case r of Inr sm \<Rightarrow> (ss_added sm, ss_failed sm, ss_skipped sm, ss_deleted sm,
       ss_next_poll_range_start sm) | Inl e \<Rightarrow> (0, 0, 0, 0, None))
     (run_sync_task demo_sync_task (Inr demo_feed) {''b''} [(''c'', ''f'')] (logged demo_upsert) (0, [])) =
   ([(demo_sync_doc ''a'' ''09'' None, Added, True), (demo_sync_doc ''b'' ''10'' None, Updated, True),
     (demo_sync_doc ''c'' ''11'' (Some ''g''), Added, False)], (1, 1, 1, 1, Some ''11''))"
  by code_simp

lemma run_sync_Inr:
  obtains sink' lg sm where "run_sync_task task (Inr f) ex fps up (sink, []) = ((sink', lg), Inr sm)"
  by (cases "fst (run_sync_task task (Inr f) ex fps up (sink, []))")
    (auto simp: run_sync_task_def Let_def)

theorem sync_run_exact_witness:
  "\<exists>lg sm. run_sync_task demo_sync_task (Inr demo_feed) {''b''} [(''c'', ''f'')] (logged demo_upsert) (0, [])
       = ((3, lg), Inr sm) \<and> length lg = 3 \<and> classified {''b''} lg \<and>
     ss_total sm = ss_added sm + ss_updated sm + ss_deleted sm \<and> ss_deleted sm = 1 \<and>
     ss_next_poll_range_start sm = Some ''11''"
proof -
  obtain n lg sm where r: "run_sync_task demo_sync_task (Inr demo_feed) {''b''} [(''c'', ''f'')]
      (logged demo_upsert) (0, []) = ((n, lg), Inr sm)"
    by (rule run_sync_Inr)
  have "fst (fst (run_sync_task demo_sync_task (Inr demo_feed) {''b''} [(''c'', ''f'')]
      (logged demo_upsert) (0, []))) = 3"
    by code_simp
  with demo_sync_runs sync_run_exact [OF r] r show ?thesis by auto
qed

text \<open>
  Over one run a document id is counted as added at most once, and never when the knowledge base
  had it before.
\<close>

lemma classified_added:
  "classified known lg \<Longrightarrow>
   distinct (map (sd_id \<circ> fst) (filter (\<lambda>(d, c, k). c = Added \<and> k) lg)) \<and>
   sd_id ` fst ` set (filter (\<lambda>(d, c, k). c = Added \<and> k) lg) \<inter> known = {}"
proof (induction known lg rule: classified.induct)
  case (2 known doc change ok lg)
  then show ?case by (cases ok; cases "sd_id doc \<in> known") auto
qed simp

text \<open>
  A document whose upsert fails is behind the start of the next window: the next incremental
  run asks the source only for later changes, so the document is not fetched again.
\<close>

theorem failed_upsert_skipped_next:
  assumes "run_sync_task task (Inr feed) existing fps (logged upsert) (sink, []) = ((sink', lg), Inr sm)"
    and "(d, c, False) \<in> set lg"
  shows "\<exists>w. ss_next_poll_range_start sm = Some w \<and> sd_doc_updated_at d \<le> w"
proof -
  have "sd_doc_updated_at d \<in> set (map (sd_doc_updated_at \<circ> fst) lg)" using assms(2) by force
  then show ?thesis
    using sync_run_exact [OF assms(1)]
    by (auto simp: latest_def Let_def split: option.splits intro: Max_ge)
qed

theorem failed_upsert_skipped_next_witness:
  "\<exists>lg sm w. run_sync_task demo_sync_task (Inr demo_feed) {''b''} [(''c'', ''f'')] (logged demo_upsert) (0, [])
       = ((3, lg), Inr sm) \<and> ss_next_poll_range_start sm = Some w \<and> ''11'' \<le> w"
proof -
  obtain n lg sm where r: "run_sync_task demo_sync_task (Inr demo_feed) {''b''} [(''c'', ''f'')]
      (logged demo_upsert) (0, []) = ((n, lg), Inr sm)"
    by (rule run_sync_Inr)
  have n: "fst (fst (run_sync_task demo_sync_task (Inr demo_feed) {''b''} [(''c'', ''f'')]
      (logged demo_upsert) (0, []))) = 3"
    by code_simp
  from demo_sync_runs r have "(demo_sync_doc ''c'' ''11'' (Some ''g''), Added, False) \<in> set lg" by simp
  from failed_upsert_skipped_next [OF r this] n r show ?thesis by (auto simp: demo_sync_doc_def)
qed

section \<open>Synchronization on the executor\<close>

lemma sync_result_no_retry: "no_retry (Finish i (sync_result oc))"
  by (cases oc) (simp_all add: sync_result_def permanent_error_def)

text \<open>
  On an executor whose handlers are synchronizations no task is executed twice for one
  submission: timeouts and connector errors are permanent. And a synchronization that times out
  or fails has not called \<open>upsert\<close>.
\<close>

theorem sync_runs_once:
  assumes run: "exec_run as (executor_new nm boot n) = Some s"
    and sync: "\<forall>i r. Finish i r \<in> set as \<longrightarrow> (\<exists>oc. r = sync_result oc)"
  shows "ids (started (exec_events as (executor_new nm boot n))) \<subseteq>#
      ids (accepted (exec_events as (executor_new nm boot n))) \<and>
    (\<forall>oc sink'. execute_sync task answer existing fps upsert sink = (sink', oc) \<longrightarrow>
      (\<forall>sm. oc \<noteq> SyncSuccess sm) \<longrightarrow> sink' = sink)"
proof -
  have "no_retry a" if "a \<in> set as" for a
  proof (cases a)
    case (Finish i r)
    with sync that obtain oc where "r = sync_result oc" by blast
    with Finish sync_result_no_retry show ?thesis by simp
  qed simp_all
  moreover have "no_backoff (executor_new nm boot n)" by (simp add: no_backoff_def)
  moreover have "unstarted (executor_new nm boot n) = []" by (simp add: unstarted_def executor_new_def)
  ultimately have "ids (started (exec_events as (executor_new nm boot n))) + ids (unstarted s) \<subseteq>#
      ids (accepted (exec_events as (executor_new nm boot n)))"
    using run_once [OF run] by simp
  then show ?thesis
    by (auto simp: execute_sync_def run_sync_task_def Let_def
        intro: subset_mset.order_trans [OF mset_subset_eq_add_left] split: option.splits sum.splits prod.splits)
qed

definition failed_sync_run :: "exec_act list" where
  "failed_sync_run = [Submit (demo_task ''a''), Spawn, Send 0, Count 0, Recv, Acquire, Start 0,
     Finish 0 (sync_result (SyncFailed ''down''))]"

theorem sync_runs_once_witness:
  "\<exists>s. exec_run failed_sync_run (executor_new ''x'' 0 1) = Some s \<and>
     ids (started (exec_events failed_sync_run (executor_new ''x'' 0 1))) \<subseteq># {#''a''#}"
proof -
  let ?n = "executor_new ''x'' 0 1"
  have "exec_run failed_sync_run ?n \<noteq> None" by code_simp
  then obtain s where s: "exec_run failed_sync_run ?n = Some s" by blast
  have "map xt_id (accepted (exec_events failed_sync_run ?n)) = [''a'']" by code_simp
  then have a: "ids (accepted (exec_events failed_sync_run ?n)) = {#''a''#}" by simp
  have "\<forall>i r. Finish i r \<in> set failed_sync_run \<longrightarrow> (\<exists>oc. r = sync_result oc)"
    by (auto simp: failed_sync_run_def)
  from sync_runs_once [OF s this, of demo_sync_task None "{}" "[]" demo_upsert 0] a s show ?thesis by auto
qed

end
