(* ===== verification/Entity_Graph.thy ===== *)
theory Entity_Graph
  imports Rust_Str Rust_F32
begin

text \<open>
  The entity graph of a document or of a knowledge base (\<open>EntityGraph\<close> of
  \<^verbatim>\<open>graphrag_enhanced.rs\<close>): named nodes with their connections, its construction, the merge of a
  document's graph into that of its knowledge base, and the bounded searches. Finding entities in
  a text is done by regular expressions and is not modelled: a graph is built from the
  entities found.
\<close>

section \<open>Data\<close>

datatype entity_type =
  Person | Organization | Location | Date | Technology | Product | Event | Concept | Unknown

record ner_entity =
  ne_name :: string
  ne_entity_type :: entity_type
  ne_start :: nat
  ne_end :: nat
  ne_confidence :: f32

record graph_node =
  gn_name :: string
  gn_entity_type :: entity_type
  gn_description :: string
  gn_source_id :: "string list"
  gn_connections :: "(string \<times> f32) list"

type_synonym entity_graph = "(string, graph_node) hmap"

section \<open>Construction\<close>

definition graph_new :: entity_graph where
  "graph_new = []"

definition bare_node :: "string \<Rightarrow> entity_type \<Rightarrow> graph_node" where
  "bare_node name ty = \<lparr>gn_name = name, gn_entity_type = ty, gn_description = [],
     gn_source_id = [], gn_connections = []\<rparr>"

text \<open>\<open>get_mut(name)\<close> and a change of the node.\<close>

definition with_node :: "string \<Rightarrow> (graph_node \<Rightarrow> graph_node) \<Rightarrow> entity_graph \<Rightarrow> entity_graph" where
  "with_node name f g = (case hget g name of None \<Rightarrow> g | Some n \<Rightarrow> hput name (f n) g)"

definition add_entity :: "ner_entity \<Rightarrow> entity_graph \<Rightarrow> entity_graph" where
  "add_entity e g =
     (case hget g (ne_name e) of
        None \<Rightarrow> hput (ne_name e) (bare_node (ne_name e) (ne_entity_type e)) g
      | Some n \<Rightarrow> g)"

definition add_entities :: "ner_entity list \<Rightarrow> entity_graph \<Rightarrow> entity_graph" where
  "add_entities es g = fold add_entity es g"

definition add_node :: "string \<Rightarrow> entity_type \<Rightarrow> string \<Rightarrow> string \<Rightarrow> entity_graph \<Rightarrow> entity_graph" where
  "add_node name ty description source_id g =
     (let n = (case hget g name of None \<Rightarrow> bare_node name ty | Some n \<Rightarrow> n);
          d = (if gn_description n \<noteq> [] then gn_description n @ ''<SEP>'' else gn_description n);
          srcs = gn_source_id n
      in hput name (n\<lparr>gn_description := d @ description,
           gn_source_id := (if source_id \<in> set srcs then srcs else srcs @ [source_id])\<rparr>) g)"

definition set_source_id :: "string \<Rightarrow> string \<Rightarrow> entity_graph \<Rightarrow> entity_graph" where
  "set_source_id name source_id = with_node name (\<lambda>n. n\<lparr>gn_source_id := [source_id]\<rparr>)"

definition append_source_id :: "string \<Rightarrow> string \<Rightarrow> entity_graph \<Rightarrow> entity_graph" where
  "append_source_id name source_id =
     with_node name (\<lambda>n. if source_id \<in> set (gn_source_id n) then n
                         else n\<lparr>gn_source_id := gn_source_id n @ [source_id]\<rparr>)"

definition source_id_of :: "string \<Rightarrow> entity_graph \<Rightarrow> string list" where
  "source_id_of name g = (case hget g name of None \<Rightarrow> [] | Some n \<Rightarrow> gn_source_id n)"

definition remove_node :: "string \<Rightarrow> entity_graph \<Rightarrow> entity_graph" where
  "remove_node name g =
     map (\<lambda>(k, n). (k, n\<lparr>gn_connections := filter (\<lambda>c. fst c \<noteq> name) (gn_connections n)\<rparr>))
       (hdel name g)"

definition set_description :: "string \<Rightarrow> string \<Rightarrow> entity_graph \<Rightarrow> entity_graph" where
  "set_description name d = with_node name (\<lambda>n. n\<lparr>gn_description := d\<rparr>)"

definition set_node_type :: "string \<Rightarrow> entity_type \<Rightarrow> entity_graph \<Rightarrow> entity_graph" where
  "set_node_type name ty = with_node name (\<lambda>n. n\<lparr>gn_entity_type := ty\<rparr>)"

text \<open>An undirected edge: one entry in each endpoint that is a node.\<close>

definition add_relation :: "string \<Rightarrow> string \<Rightarrow> f32 \<Rightarrow> entity_graph \<Rightarrow> entity_graph" where
  "add_relation src target w g =
     with_node target (\<lambda>n. n\<lparr>gn_connections := gn_connections n @ [(src, w)]\<rparr>)
       (with_node src (\<lambda>n. n\<lparr>gn_connections := gn_connections n @ [(target, w)]\<rparr>) g)"

section \<open>Reading\<close>

definition graph_node_names :: "entity_graph \<Rightarrow> string list" where
  "graph_node_names g = map fst g"

definition connections_of :: "string \<Rightarrow> entity_graph \<Rightarrow> (string \<times> f32) list" where
  "connections_of name g = (case hget g name of None \<Rightarrow> [] | Some n \<Rightarrow> gn_connections n)"

definition degree :: "string \<Rightarrow> entity_graph \<Rightarrow> nat" where
  "degree name g = length (connections_of name g)"

definition neighbors :: "string \<Rightarrow> entity_graph \<Rightarrow> string list" where
  "neighbors name g = map fst (connections_of name g)"

definition description_of :: "string \<Rightarrow> entity_graph \<Rightarrow> string option" where
  "description_of name g = map_option gn_description (hget g name)"

definition edge_description :: "string \<Rightarrow> string \<Rightarrow> entity_graph \<Rightarrow> string option" where
  "edge_description a b g = (if b \<in> set (neighbors a g) then Some ''connected'' else None)"

definition node_count :: "entity_graph \<Rightarrow> nat" where
  "node_count g = length g"

definition entities_by_type :: "entity_type \<Rightarrow> entity_graph \<Rightarrow> string list" where
  "entities_by_type ty g = map fst (filter (\<lambda>(k, n). gn_entity_type n = ty) g)"

section \<open>Merging\<close>

text \<open>Equality of two connections: that of the weights is the floats', so no number is unlike itself.\<close>

definition f32_eq :: "f32 \<Rightarrow> f32 \<Rightarrow> bool" where
  "f32_eq a b \<longleftrightarrow> a \<noteq> NaN \<and> a = b"

definition has_connection :: "(string \<times> f32) list \<Rightarrow> string \<times> f32 \<Rightarrow> bool" where
  "has_connection cs c \<longleftrightarrow> (\<exists>d \<in> set cs. fst d = fst c \<and> f32_eq (snd d) (snd c))"

definition merge_connection :: "string \<times> f32 \<Rightarrow> (string \<times> f32) list \<Rightarrow> (string \<times> f32) list" where
  "merge_connection c cs = (if has_connection cs c then cs else cs @ [c])"

definition merge_node :: "string \<times> graph_node \<Rightarrow> entity_graph \<Rightarrow> entity_graph" where
  "merge_node kn g =
     (case kn of (name, node) \<Rightarrow>
       (let target = (case hget g name of None \<Rightarrow> node\<lparr>gn_connections := []\<rparr> | Some n \<Rightarrow> n)
        in hput name (target\<lparr>gn_connections :=
             fold merge_connection (gn_connections node) (gn_connections target)\<rparr>) g))"

definition graph_merge :: "entity_graph \<Rightarrow> entity_graph \<Rightarrow> entity_graph" where
  "graph_merge g other = fold merge_node other g"

section \<open>Searching\<close>

text \<open>
  \<open>dfs\<close> with \<open>k\<close> levels left: the first argument of the recursion is 0 when \<open>depth > max_depth\<close>,
  and \<open>depth\<close> is \<open>max_depth - k\<close> in the body. The visited set is shared by all branches.
\<close>

fun dfs :: "entity_graph \<Rightarrow> nat \<Rightarrow> nat \<Rightarrow> string \<Rightarrow> string set \<times> string list \<Rightarrow> string set \<times> string list"
  where
  "dfs g max_depth 0 name st = st"
| "dfs g max_depth (Suc k) name (visited, results) =
     (if name \<in> visited then (visited, results)
      else case hget g name of
        None \<Rightarrow> (insert name visited, results)
      | Some n \<Rightarrow>
          fold (\<lambda>c st. dfs g max_depth k (fst c) st) (gn_connections n)
            (insert name visited, if k < max_depth then results @ [name] else results))"

definition search_connected :: "string \<Rightarrow> nat \<Rightarrow> entity_graph \<Rightarrow> string list" where
  "search_connected name max_depth g = snd (dfs g max_depth (Suc max_depth) name ({}, []))"

text \<open>
  \<open>dfs_paths\<close>: here a node is left again, so the visited nodes are those of the path. The weights
  are those of the path's edges.
\<close>

type_synonym weighted_path = "string list \<times> f32 list"

fun dfs_paths ::
    "entity_graph \<Rightarrow> nat \<Rightarrow> nat \<Rightarrow> nat \<Rightarrow> string \<Rightarrow> string set \<Rightarrow> string list \<Rightarrow> f32 list \<Rightarrow>
     weighted_path list \<Rightarrow> weighted_path list" where
  "dfs_paths g max_depth max_paths 0 name visited path weights results = results"
| "dfs_paths g max_depth max_paths (Suc k) name visited path weights results =
     (if max_paths \<le> length results \<or> name \<in> visited then results
      else
        (let path = path @ [name];
             results = (if k < max_depth then results @ [(path, weights)] else results)
         in fold (\<lambda>c rs. dfs_paths g max_depth max_paths k (fst c) (insert name visited) path
                     (weights @ [snd c]) rs)
              (connections_of name g) results))"

definition n_hop_paths :: "string \<Rightarrow> nat \<Rightarrow> nat \<Rightarrow> entity_graph \<Rightarrow> weighted_path list" where
  "n_hop_paths name max_depth max_paths g =
     dfs_paths g max_depth max_paths (Suc max_depth) name {} [] [] []"

end
