(* ===== verification/Entity_Graph_Spec.thy ===== *)
theory Entity_Graph_Spec
  imports Entity_Graph
begin

text \<open>
  What the operations on entity graphs guarantee: the merge is a union that keeps what was there,
  a removed node leaves no dangling edge, and the bounded searches only find what is connected.
\<close>

section \<open>Merging\<close>

lemma merge_connections_keep: "\<exists>ds. fold merge_connection cs bs = bs @ ds \<and> set ds \<subseteq> set cs"
proof (induction cs arbitrary: bs)
  case (Cons c cs)
  from Cons.IH [of "merge_connection c bs"] obtain ds
    where ds: "fold merge_connection cs (merge_connection c bs) = merge_connection c bs @ ds"
      "set ds \<subseteq> set cs"
    by blast
  show ?case
  proof (cases "has_connection bs c")
    case True
    then have "merge_connection c bs = bs" by (simp add: merge_connection_def)
    with ds show ?thesis by auto
  next
    case False
    then have "merge_connection c bs = bs @ [c]" by (simp add: merge_connection_def)
    with ds show ?thesis by auto
  qed
qed simp

lemma has_connection_append [simp]:
  "has_connection (as @ bs) c \<longleftrightarrow> has_connection as c \<or> has_connection bs c"
  by (auto simp: has_connection_def)

lemma merge_connections_has:
  assumes "c \<in> set cs" and "snd c \<noteq> NaN"
  shows "has_connection (fold merge_connection cs bs) c"
  using assms
proof (induction cs arbitrary: bs)
  case (Cons d cs)
  show ?case
  proof (cases "c = d")
    case True
    have "has_connection (merge_connection d bs) c"
      using True Cons.prems(2) by (auto simp: merge_connection_def has_connection_def f32_eq_def)
    moreover obtain ds where "fold merge_connection cs (merge_connection d bs) = merge_connection d bs @ ds"
      using merge_connections_keep by blast
    ultimately show ?thesis by simp
  qed (use Cons in simp)
qed simp

text \<open>The connections of a node after the nodes of a list have been merged in.\<close>

lemma merge_nodes_get:
  assumes "distinct (map fst other)"
  shows "hget (fold merge_node other g) name =
    (case hget other name of
       None \<Rightarrow> hget g name
     | Some n \<Rightarrow>
         (let t = (case hget g name of None \<Rightarrow> n\<lparr>gn_connections := []\<rparr> | Some m \<Rightarrow> m)
          in Some (t\<lparr>gn_connections := fold merge_connection (gn_connections n) (gn_connections t)\<rparr>)))"
  using assms
proof (induction other arbitrary: g)
  case (Cons kn other)
  obtain k n where kn: "kn = (k, n)" by (cases kn)
  with Cons.prems have "k \<notin> fst ` set other" by simp
  then have none: "hget other k = None" by (simp add: map_of_eq_None_iff)
  show ?case
    using Cons.IH [of "merge_node kn g"] Cons.prems none kn
    by (cases "name = k") (simp_all add: merge_node_def Let_def split: option.split)
qed simp

text \<open>
  Merging a document's graph into a larger one is a union: the nodes are those of both; a node
  that was there keeps its type, description, sources and connections, in their order; every
  connection of the document with a weight that is a number is present afterwards; and nothing
  is invented.
\<close>

theorem graph_merge_union:
  assumes "distinct (map fst other)"
  shows "(hget (graph_merge g other) name = None \<longleftrightarrow> hget g name = None \<and> hget other name = None) \<and>
    (\<forall>m. hget g name = Some m \<longrightarrow>
       (\<exists>m' ds. hget (graph_merge g other) name = Some m' \<and>
          m' = m\<lparr>gn_connections := gn_connections m @ ds\<rparr> \<and> set ds \<subseteq> set (connections_of name other))) \<and>
    (\<forall>c \<in> set (connections_of name other). snd c \<noteq> NaN \<longrightarrow>
       has_connection (connections_of name (graph_merge g other)) c) \<and>
    set (connections_of name (graph_merge g other)) \<subseteq>
      set (connections_of name g) \<union> set (connections_of name other)"
proof (cases "hget other name")
  case None
  then show ?thesis
    by (auto simp: graph_merge_def merge_nodes_get [OF assms] connections_of_def
        intro: exI [of _ "[]"])
next
  case (Some n)
  let ?t = "case hget g name of None \<Rightarrow> n\<lparr>gn_connections := []\<rparr> | Some m \<Rightarrow> m"
  obtain ds where ds: "fold merge_connection (gn_connections n) (gn_connections ?t) = gn_connections ?t @ ds"
    "set ds \<subseteq> set (gn_connections n)"
    using merge_connections_keep by blast
  have "hget (graph_merge g other) name = Some (?t\<lparr>gn_connections := gn_connections ?t @ ds\<rparr>)"
    using Some by (simp add: graph_merge_def merge_nodes_get [OF assms] ds(1) Let_def)
  moreover have "has_connection (gn_connections ?t @ ds) c" if "c \<in> set (gn_connections n)" "snd c \<noteq> NaN" for c
    using merge_connections_has [OF that, of "gn_connections ?t"] ds(1) by simp
  ultimately show ?thesis
    using Some ds(2) by (cases "hget g name") (auto simp: connections_of_def)
qed

definition demo_node :: "string \<Rightarrow> string list \<Rightarrow> string \<times> graph_node" where
  "demo_node name targets =
     (name, (bare_node name Person)\<lparr>gn_connections := map (\<lambda>t. (t, Fin 1)) targets\<rparr>)"

theorem graph_merge_union_witness:
  "has_connection (connections_of ''a'' (graph_merge [demo_node ''a'' [''b'']]
     [demo_node ''a'' [''b'', ''c''], demo_node ''b'' [''a'']])) (''c'', Fin 1)"
proof -
  have "distinct (map fst [demo_node ''a'' [''b'', ''c''], demo_node ''b'' [''a'']])" by (simp add: demo_node_def)
  from graph_merge_union [OF this, of "[demo_node ''a'' [''b'']]" "''a''"]
  show ?thesis by (simp add: connections_of_def demo_node_def)
qed

section \<open>Removal\<close>

lemma map_of_map_node: "hget (map (\<lambda>(k, n). (k, f n)) g) k = map_option f (hget g k)"
  by (induction g) auto

text \<open>
  A removed node is gone, and no other node is connected to it any more; all other connections
  stay.
\<close>

theorem remove_node_complete:
  "hget (remove_node name g) name = None \<and>
   connections_of other (remove_node name g) =
     (if other = name then [] else filter (\<lambda>c. fst c \<noteq> name) (connections_of other g))"
  by (auto simp: remove_node_def map_of_map_node connections_of_def case_prod_beta split: option.split)

section \<open>Bounded search\<close>

text \<open>A walk: each node is connected to the next.\<close>

fun walk :: "entity_graph \<Rightarrow> string list \<Rightarrow> bool" where
  "walk g (a # b # p) = (b \<in> set (neighbors a g) \<and> walk g (b # p))"
| "walk g p = True"

definition reaches :: "entity_graph \<Rightarrow> string \<Rightarrow> nat \<Rightarrow> string \<Rightarrow> bool" where
  "reaches g a d b \<longleftrightarrow> (\<exists>p. walk g (a # p) \<and> last (a # p) = b \<and> length p \<le> d)"

lemma reaches_refl [simp]: "reaches g a d a"
  by (auto simp: reaches_def intro: exI [of _ "[]"])

lemma reaches_step: "b \<in> set (neighbors a g) \<Longrightarrow> reaches g b d c \<Longrightarrow> reaches g a (Suc d) c"
  unfolding reaches_def
proof (elim exE)
  fix p
  assume "b \<in> set (neighbors a g)" and "walk g (b # p) \<and> last (b # p) = c \<and> length p \<le> d"
  then show "\<exists>q. walk g (a # q) \<and> last (a # q) = c \<and> length q \<le> Suc d"
    by (intro exI [of _ "b # p"]) simp
qed

text \<open>
  What one call of \<open>dfs\<close> adds: new results are nodes within reach, visited and not repeated.
\<close>

definition dfs_adds :: "entity_graph \<Rightarrow> (string \<Rightarrow> bool) \<Rightarrow> string set \<times> string list \<Rightarrow>
    string set \<times> string list \<Rightarrow> bool" where
  "dfs_adds g R st st' \<longleftrightarrow>
     fst st \<subseteq> fst st' \<and>
     (\<exists>new. snd st' = snd st @ new \<and> distinct new \<and> set new \<subseteq> fst st' - fst st \<and>
        (\<forall>b \<in> set new. R b \<and> hget g b \<noteq> None))"

lemma dfs_adds_refl [simp]: "dfs_adds g R st st"
  by (auto simp: dfs_adds_def)

lemma dfs_adds_trans:
  assumes "dfs_adds g R s t" and "dfs_adds g R t u"
  shows "dfs_adds g R s u"
  using assms by (fastforce simp: dfs_adds_def)

lemma dfs_adds_fold:
  assumes "\<And>c st. c \<in> set cs \<Longrightarrow> dfs_adds g R st (f c st)"
  shows "dfs_adds g R st (fold f cs st)"
  using assms
proof (induction cs arbitrary: st)
  case (Cons c cs)
  then have "dfs_adds g R st (f c st)" and "dfs_adds g R (f c st) (fold f cs (f c st))" by simp_all
  then show ?case by (simp add: dfs_adds_trans)
qed simp

lemma dfs_adds_mono: "dfs_adds g R s t \<Longrightarrow> (\<And>b. R b \<Longrightarrow> R' b) \<Longrightarrow> dfs_adds g R' s t"
  by (auto simp: dfs_adds_def)

lemma dfs_sound: "dfs_adds g (reaches g name (k - 1)) st (dfs g max_depth k name st)"
proof (induction k arbitrary: name st)
  case (Suc k)
  obtain visited results where st: "st = (visited, results)" by (cases st)
  show ?case
  proof (cases "name \<in> visited \<or> hget g name = None")
    case True
    then show ?thesis using st by (auto simp: dfs_adds_def split: option.split)
  next
    case False
    then obtain n where n: "hget g name = Some n" "name \<notin> visited" by auto
    let ?st = "(insert name visited, if k < max_depth then results @ [name] else results)"
    let ?R = "reaches g name k"
    have "dfs_adds g ?R st ?st"
      using n st by (auto simp: dfs_adds_def)
    moreover have "dfs_adds g ?R ?st (fold (\<lambda>c st. dfs g max_depth k (fst c) st) (gn_connections n) ?st)"
    proof (rule dfs_adds_fold)
      fix c st
      assume c: "c \<in> set (gn_connections n)"
      show "dfs_adds g ?R st (dfs g max_depth k (fst c) st)"
      proof (cases k)
        case (Suc j)
        have "fst c \<in> set (neighbors name g)" using c n(1) by (auto simp: neighbors_def connections_of_def)
        with Suc show ?thesis
          using Suc.IH [of "fst c" st] by (auto intro: dfs_adds_mono reaches_step)
      qed simp
    qed
    ultimately show ?thesis using n st by (auto intro: dfs_adds_trans)
  qed
qed simp

text \<open>
  The search answers, without repetition, entities of the graph other than the start, each
  connected to it over at most \<open>max_depth\<close> edges; with no depth it answers nothing.
\<close>

theorem search_connected_sound:
  "distinct (search_connected name max_depth g) \<and> name \<notin> set (search_connected name max_depth g) \<and>
   (\<forall>b \<in> set (search_connected name max_depth g). hget g b \<noteq> None \<and> reaches g name max_depth b)"
proof (cases "hget g name")
  case (Some n)
  let ?r = "fold (\<lambda>c st. dfs g max_depth max_depth (fst c) st) (gn_connections n) ({name}, [])"
  have "dfs_adds g (reaches g name max_depth) ({name}, []) ?r"
  proof (rule dfs_adds_fold)
    fix c st
    assume c: "c \<in> set (gn_connections n)"
    show "dfs_adds g (reaches g name max_depth) st (dfs g max_depth max_depth (fst c) st)"
    proof (cases max_depth)
      case (Suc j)
      have "fst c \<in> set (neighbors name g)" using c Some by (auto simp: neighbors_def connections_of_def)
      with dfs_sound [of g "fst c" "Suc j" st max_depth] Suc show ?thesis
        by (auto intro: dfs_adds_mono reaches_step)
    qed simp
  qed
  moreover have "search_connected name max_depth g = snd ?r"
    using Some by (simp add: search_connected_def)
  ultimately show ?thesis by (auto simp: dfs_adds_def)
qed (simp add: search_connected_def)

text \<open>
  C0. The search can miss an entity within its depth: the visited set is shared by all branches, so an
  entity first met at the end of a long branch is not followed again over a shorter one. Here
  \<open>d\<close> is two edges from \<open>a\<close> and is not found with depth two.
\<close>

definition missed_graph :: entity_graph where
  "missed_graph = [demo_node ''a'' [''b'', ''c''], demo_node ''b'' [''c''], demo_node ''c'' [''d''],
     demo_node ''d'' []]"

theorem search_connected_misses:
  "reaches missed_graph ''a'' 2 ''d'' \<and> ''d'' \<notin> set (search_connected ''a'' 2 missed_graph)"
proof
  have "walk missed_graph [''a'', ''c'', ''d'']" by code_simp
  then show "reaches missed_graph ''a'' 2 ''d''"
    by (auto simp: reaches_def intro!: exI [of _ "[''c'', ''d'']"])
  show "''d'' \<notin> set (search_connected ''a'' 2 missed_graph)" by code_simp
qed

section \<open>Paths\<close>

text \<open>A listed path: simple, along connections, with one weight for each edge, of length 1 to \<open>d\<close>.\<close>

definition simple_path :: "entity_graph \<Rightarrow> string \<Rightarrow> nat \<Rightarrow> weighted_path \<Rightarrow> bool" where
  "simple_path g a d pw \<longleftrightarrow>
     (case pw of (p, ws) \<Rightarrow> hd p = a \<and> walk g p \<and> distinct p \<and>
        length p = Suc (length ws) \<and> 0 < length ws \<and> length ws \<le> d)"

lemma walk_snoc: "walk g (p @ [b]) \<longleftrightarrow> walk g p \<and> (p = [] \<or> b \<in> set (neighbors (last p) g))"
  by (induction p rule: walk.induct) auto

lemma fold_keeps:
  assumes "I s" and "\<And>c s. c \<in> set cs \<Longrightarrow> I s \<Longrightarrow> I (f c s)"
  shows "I (fold f cs s)"
  using assms by (induction cs arbitrary: s) auto

lemma dfs_paths_sound:
  assumes "list_all (simple_path g a max_depth) results" and "length results \<le> max_paths"
    and "visited = set path" and "length weights = length path" and "distinct path"
    and "k + length path = Suc max_depth" and "walk g (path @ [name])" and "hd (path @ [name]) = a"
  shows "list_all (simple_path g a max_depth)
           (dfs_paths g max_depth max_paths k name visited path weights results) \<and>
         length (dfs_paths g max_depth max_paths k name visited path weights results) \<le> max_paths"
  using assms
proof (induction k arbitrary: name visited path weights results)
  case (Suc k)
  let ?p = "path @ [name]"
  let ?rs = "if k < max_depth then results @ [(?p, weights)] else results"
  let ?I = "\<lambda>rs. list_all (simple_path g a max_depth) rs \<and> length rs \<le> max_paths"
  show ?case
  proof (cases "max_paths \<le> length results \<or> name \<in> visited")
    case False
    have "simple_path g a max_depth (?p, weights)" if "k < max_depth"
      using that False Suc.prems by (cases path) (auto simp: simple_path_def)
    then have init: "?I ?rs" using False Suc.prems(1,2) by auto
    have "?I (fold (\<lambda>c rs. dfs_paths g max_depth max_paths k (fst c) (insert name visited) ?p
                (weights @ [snd c]) rs) (connections_of name g) ?rs)"
    proof (rule fold_keeps [where I = ?I and s = ?rs, OF init])
      fix c rs
      assume c: "c \<in> set (connections_of name g)" and rs: "?I rs"
      have "walk g (?p @ [fst c])"
        using walk_snoc [of g ?p "fst c"] Suc.prems(7) c
        by (auto simp: neighbors_def simp del: append_assoc)
      moreover have "hd (path @ [name, fst c]) = hd (path @ [name])" by (cases path) simp_all
      ultimately show "?I (dfs_paths g max_depth max_paths k (fst c) (insert name visited) ?p (weights @ [snd c]) rs)"
        using Suc.IH [of rs "insert name visited" ?p "weights @ [snd c]" "fst c"] Suc.prems False rs by auto
    qed
    then show ?thesis using False by (simp add: Let_def)
  qed (use Suc.prems in auto)
qed simp

text \<open>
  C0. Every path listed by \<open>n_hop_paths\<close> starts at the entity, follows connections, visits no entity
  twice, has between one and \<open>max_depth\<close> edges and one weight for each; and at most \<open>max_paths\<close>
  paths are listed.
\<close>

theorem n_hop_paths_sound:
  "list_all (simple_path g name max_depth) (n_hop_paths name max_depth max_paths g) \<and>
   length (n_hop_paths name max_depth max_paths g) \<le> max_paths"
  unfolding n_hop_paths_def
  by (rule dfs_paths_sound) simp_all

end
