(* ===== verification/Search_Mapping.thy ===== *)
theory Search_Mapping
  imports Rust_Json Rust_F32
begin

text \<open>
  The field rules of the chunk mappings (\<^verbatim>\<open>store/search_mapping.rs\<close> and the table in
  \<^verbatim>\<open>settings.rs\<close>): the kind of a metadata field by its name, and what its text must be read as.
  Reading JSON text (\<open>serde_json::from_str\<close>) is the parameter \<open>parse\<close>, \<open>None\<close> for an error.
\<close>

section \<open>The kind of a field\<close>

datatype mapping_flavor = Elasticsearch | OpenSearch

datatype field_kind =
    KInt | KUlong | KLong | KShort | KFloat | KTokens | KLongTokens | KKeyword | KDateTime
  | KNested | KObject | KUnindexedText | KRankFeature | KRankFeatures | KDenseVector nat
  | KBinary | KGeoPoint | KText

definition SEARCH_FIELD_SUFFIX_RULES :: "(string \<times> field_kind) list" where
  "SEARCH_FIELD_SUFFIX_RULES =
     [(''_int'', KInt), (''_ulong'', KUlong), (''_long'', KLong), (''_short'', KShort),
      (''_flt'', KFloat), (''_tks'', KTokens), (''_ltks'', KLongTokens), (''_kwd'', KKeyword),
      (''_nst'', KNested), (''_obj'', KObject), (''_with_weight'', KUnindexedText),
      (''_list'', KUnindexedText), (''_fea'', KRankFeature), (''_feas'', KRankFeatures),
      (''_bin'', KBinary)]"

definition ES_CHUNK_KEYWORD_PATTERN :: string where
  "ES_CHUNK_KEYWORD_PATTERN = ''^(.*_(kwd|id|ids|uid|uids)|uid|id)$''"

definition OPENSEARCH_CHUNK_KEYWORD_PATTERN :: string where
  "OPENSEARCH_CHUNK_KEYWORD_PATTERN = ''^(.*_(kwd|id|ids|uid|uids)|uid)$''"

definition SEARCH_CHUNK_DATE_PATTERN :: string where
  "SEARCH_CHUNK_DATE_PATTERN = ''^.*(_dt|_time|_at)$''"

definition ES_CHUNK_VECTOR_DIMENSIONS :: "nat list" where
  "ES_CHUNK_VECTOR_DIMENSIONS = [512, 768, 1024, 1536]"

definition OPENSEARCH_CHUNK_VECTOR_DIMENSIONS :: "nat list" where
  "OPENSEARCH_CHUNK_VECTOR_DIMENSIONS = [512, 768, 1024, 1536, 2048, 4096, 6144, 8192, 10240]"

text \<open>The matcher for the anchored patterns above.\<close>

definition regex_matches :: "string \<Rightarrow> string \<Rightarrow> bool" where
  "regex_matches pattern field =
     (let body = (case Option.bind (str_strip_prefix ''^'' pattern) (str_strip_suffix ''$'') of
                    None \<Rightarrow> pattern | Some b \<Rightarrow> b)
      in if body = ''.*'' then True
         else if body \<in> {''(.*_(kwd|id|ids|uid|uids)|uid|id)'', ''(.*_(kwd|id|ids|uid|uids)|uid)''}
         then field = ''uid'' \<or> (ends_with body ''|id)'' \<and> field = ''id'')
              \<or> (\<exists>suf \<in> set [''_kwd'', ''_id'', ''_ids'', ''_uid'', ''_uids'']. ends_with field suf)
         else case Option.bind (str_strip_prefix ''.*('' body) (str_strip_suffix '')'') of
                Some alts \<Rightarrow> (\<exists>suf \<in> set (split_char (CHR ''|'') alts). ends_with field suf)
              | None \<Rightarrow> body = field)"

definition parse_u64 :: "string \<Rightarrow> nat option" where
  "parse_u64 s =
     (let ds = (case s of [] \<Rightarrow> [] | c # cs \<Rightarrow> if c = CHR 0x2B then cs else s)
      in if ds = [] \<or> \<not> list_all is_ascii_digit ds \<or> 2 ^ 64 \<le> digits_value ds then None
         else Some (digits_value ds))"

definition vector_field_dimension :: "string \<Rightarrow> nat option" where
  "vector_field_dimension field =
     (case str_strip_suffix ''_vec'' field of
        None \<Rightarrow> None
      | Some s \<Rightarrow> (case parse_u64 (after_last (CHR ''_'') s) of
                     Some n \<Rightarrow> if 0 < n then Some n else None | None \<Rightarrow> None))"

definition keyword_pattern :: "mapping_flavor \<Rightarrow> string" where
  "keyword_pattern fl =
     (case fl of Elasticsearch \<Rightarrow> ES_CHUNK_KEYWORD_PATTERN | OpenSearch \<Rightarrow> OPENSEARCH_CHUNK_KEYWORD_PATTERN)"

definition native_dimensions :: "mapping_flavor \<Rightarrow> nat list" where
  "native_dimensions fl =
     (case fl of Elasticsearch \<Rightarrow> ES_CHUNK_VECTOR_DIMENSIONS | OpenSearch \<Rightarrow> OPENSEARCH_CHUNK_VECTOR_DIMENSIONS)"

definition search_field_kind :: "mapping_flavor \<Rightarrow> string \<Rightarrow> field_kind" where
  "search_field_kind fl field =
     (if field = ''lat_lon'' then KGeoPoint
      else case find (\<lambda>(suf, kind). ends_with field suf) SEARCH_FIELD_SUFFIX_RULES of
        Some (suf, kind) \<Rightarrow> kind
      | None \<Rightarrow>
          if regex_matches (keyword_pattern fl) field then KKeyword
          else if regex_matches SEARCH_CHUNK_DATE_PATTERN field then KDateTime
          else case vector_field_dimension field of
            Some n \<Rightarrow> if n \<in> set (native_dimensions fl) then KDenseVector n else KText
          | None \<Rightarrow> KText)"

section \<open>The values of a field\<close>

definition parse_json_or_string :: "(string \<Rightarrow> json option) \<Rightarrow> string \<Rightarrow> json" where
  "parse_json_or_string parse raw = (case parse raw of Some v \<Rightarrow> v | None \<Rightarrow> JStr raw)"

fun num_is_integer :: "json_num \<Rightarrow> bool" where
  "num_is_integer (FloatNum x) = False"
| "num_is_integer n = True"

fun num_is_u64 :: "json_num \<Rightarrow> bool" where
  "num_is_u64 (PosInt n) = True"
| "num_is_u64 n = False"

fun num_is_finite :: "json_num \<Rightarrow> bool" where
  "num_is_finite (FloatNum x) = f64_is_finite x"
| "num_is_finite n = True"

definition fail_unless :: "bool \<Rightarrow> string \<Rightarrow> unit res" where
  "fail_unless ok msg = (if ok then Ok () else Err msg)"

fun validate_integer_value :: "string \<Rightarrow> json \<Rightarrow> unit res"
  and validate_integer_values :: "string \<Rightarrow> json list \<Rightarrow> unit res" where
  "validate_integer_value name (JNum n) =
     fail_unless (num_is_integer n) (name @ '' must contain an integer or integer array'')"
| "validate_integer_value name (JStr raw) =
     fail_unless (parse_i64 raw \<noteq> None) (name @ '' must contain an integer'')"
| "validate_integer_value name (JArr vs) = validate_integer_values name vs"
| "validate_integer_value name v = Err (name @ '' must contain an integer or integer array'')"
| "validate_integer_values name [] = Ok ()"
| "validate_integer_values name (v # vs) =
     res_bind (validate_integer_value name v) (\<lambda>_. validate_integer_values name vs)"

fun validate_number_value :: "string \<Rightarrow> json \<Rightarrow> unit res"
  and validate_number_values :: "string \<Rightarrow> json list \<Rightarrow> unit res"
  and validate_number_members :: "string \<Rightarrow> (string \<times> json) list \<Rightarrow> unit res" where
  "validate_number_value name (JNum n) =
     fail_unless (num_is_finite n) (name @ '' must contain finite numeric values'')"
| "validate_number_value name (JStr raw) =
     fail_unless (case parse_f64 raw of Some x \<Rightarrow> f64_is_finite x | None \<Rightarrow> False)
       (name @ '' must contain a finite number'')"
| "validate_number_value name (JArr vs) = validate_number_values name vs"
| "validate_number_value name (JObj ms) = validate_number_members name ms"
| "validate_number_value name v = Err (name @ '' must contain finite numeric values'')"
| "validate_number_values name [] = Ok ()"
| "validate_number_values name (v # vs) =
     res_bind (validate_number_value name v) (\<lambda>_. validate_number_values name vs)"
| "validate_number_members name [] = Ok ()"
| "validate_number_members name ((k, v) # ms) =
     res_bind (validate_number_value name v) (\<lambda>_. validate_number_members name ms)"

fun validate_unsigned_value :: "string \<Rightarrow> json \<Rightarrow> unit res"
  and validate_unsigned_values :: "string \<Rightarrow> json list \<Rightarrow> unit res" where
  "validate_unsigned_value name (JNum n) =
     fail_unless (num_is_u64 n) (name @ '' must contain an unsigned integer or array'')"
| "validate_unsigned_value name (JStr raw) =
     fail_unless (parse_u64 raw \<noteq> None) (name @ '' must contain an unsigned integer'')"
| "validate_unsigned_value name (JArr vs) = validate_unsigned_values name vs"
| "validate_unsigned_value name v = Err (name @ '' must contain an unsigned integer or array'')"
| "validate_unsigned_values name [] = Ok ()"
| "validate_unsigned_values name (v # vs) =
     res_bind (validate_unsigned_value name v) (\<lambda>_. validate_unsigned_values name vs)"

fun validate_keyword_value :: "string \<Rightarrow> json \<Rightarrow> unit res"
  and validate_keyword_values :: "string \<Rightarrow> json list \<Rightarrow> unit res" where
  "validate_keyword_value name (JArr vs) = validate_keyword_values name vs"
| "validate_keyword_value name (JObj ms) = Err (name @ '' must contain a scalar or scalar array'')"
| "validate_keyword_value name v = Ok ()"
| "validate_keyword_values name [] = Ok ()"
| "validate_keyword_values name (v # vs) =
     res_bind (validate_keyword_value name v) (\<lambda>_. validate_keyword_values name vs)"

definition validate_geo_point :: "string \<Rightarrow> json \<Rightarrow> unit res" where
  "validate_geo_point name v =
     (let bad = Err (name @ '' must contain a geo-point string, [lon,lat], or lat/lon object'')
      in case v of
        JStr raw \<Rightarrow> if trim raw \<noteq> [] then Ok () else bad
      | JArr vs \<Rightarrow> if length vs = 2 then validate_number_value name v else bad
      | JObj ms \<Rightarrow>
          (case (hget ms ''lat'', hget ms ''lon'') of
             (Some lat, Some lon) \<Rightarrow>
               res_bind (validate_number_value name lat) (\<lambda>_. validate_number_value name lon)
           | _ \<Rightarrow> bad)
      | _ \<Rightarrow> bad)"

definition parsed :: "(string \<Rightarrow> json option) \<Rightarrow> string \<Rightarrow> json res" where
  "parsed parse raw = (case parse raw of Some v \<Rightarrow> Ok v | None \<Rightarrow> Err ''JSON'')"

definition coerce_field ::
    "(string \<Rightarrow> json option) \<Rightarrow> mapping_flavor \<Rightarrow> string \<Rightarrow> string \<Rightarrow> json res" where
  "coerce_field parse fl name raw =
     (let v = parse_json_or_string parse raw;
          kind = search_field_kind fl name
      in if kind \<in> {KInt, KLong, KShort} then res_map (\<lambda>_. v) (validate_integer_value name v)
      else if kind = KUlong then res_map (\<lambda>_. v) (validate_unsigned_value name v)
      else if kind \<in> {KFloat, KRankFeature} then res_map (\<lambda>_. v) (validate_number_value name v)
      else if kind = KKeyword then res_map (\<lambda>_. v) (validate_keyword_value name v)
      else if kind = KNested then
        res_bind (parsed parse raw) (\<lambda>v. case v of
            JArr vs \<Rightarrow> Ok v | _ \<Rightarrow> Err (name @ '' must contain a JSON array for a nested field''))
      else if kind \<in> {KObject, KRankFeatures} then
        res_bind (parsed parse raw) (\<lambda>v. case v of
            JObj ms \<Rightarrow> if kind = KRankFeatures then res_map (\<lambda>_. v) (validate_number_value name v) else Ok v
          | _ \<Rightarrow> Err (name @ '' must contain a JSON object''))
      else case kind of
        KDenseVector n \<Rightarrow>
          res_bind (parsed parse raw) (\<lambda>v. case v of
              JArr vs \<Rightarrow>
                if length vs \<noteq> n
                then Err (name @ '' vector dimension mismatch: expected '' @ nat_to_str n @ '', got ''
                       @ nat_to_str (length vs))
                else res_map (\<lambda>_. v) (validate_number_value name v)
            | _ \<Rightarrow> Err (name @ '' must contain a JSON vector''))
      | KGeoPoint \<Rightarrow> res_map (\<lambda>_. v) (validate_geo_point name v)
      | _ \<Rightarrow> Ok (JStr raw))"

fun coerce_fields ::
    "(string \<Rightarrow> json option) \<Rightarrow> mapping_flavor \<Rightarrow> (string, string) hmap \<Rightarrow> (string \<times> json) list \<Rightarrow>
     (string \<times> json) list res" where
  "coerce_fields parse fl [] acc = Ok acc"
| "coerce_fields parse fl ((name, raw) # ms) acc =
     res_bind (coerce_field parse fl name raw) (\<lambda>v. coerce_fields parse fl ms (hput name v acc))"

text \<open>No text makes the rules panic.\<close>

lemma fail_unless_no_panic [simp]: "fail_unless ok msg \<noteq> Panic"
  by (simp add: fail_unless_def)

lemma validate_integer_no_panic [simp]:
  "validate_integer_value name v \<noteq> Panic" "validate_integer_values name vs \<noteq> Panic"
  by (induction name v and name vs rule: validate_integer_value_validate_integer_values.induct)
     (auto simp: res_bind_Panic_iff)

lemma validate_unsigned_no_panic [simp]:
  "validate_unsigned_value name v \<noteq> Panic" "validate_unsigned_values name vs \<noteq> Panic"
  by (induction name v and name vs rule: validate_unsigned_value_validate_unsigned_values.induct)
     (auto simp: res_bind_Panic_iff)

lemma validate_number_no_panic [simp]:
  "validate_number_value name v \<noteq> Panic" "validate_number_values name vs \<noteq> Panic"
  "validate_number_members name ms \<noteq> Panic"
  by (induction name v and name vs and name ms
      rule: validate_number_value_validate_number_values_validate_number_members.induct)
     (auto simp: res_bind_Panic_iff)

lemma validate_keyword_no_panic [simp]:
  "validate_keyword_value name v \<noteq> Panic" "validate_keyword_values name vs \<noteq> Panic"
  by (induction name v and name vs rule: validate_keyword_value_validate_keyword_values.induct)
     (auto simp: res_bind_Panic_iff)

lemma validate_geo_no_panic [simp]: "validate_geo_point name v \<noteq> Panic"
  by (auto simp: validate_geo_point_def Let_def res_bind_Panic_iff split: json.split option.split)

lemma coerce_field_no_panic [simp]: "coerce_field parse fl name raw \<noteq> Panic"
  by (auto simp: coerce_field_def Let_def res_bind_Panic_iff res_map_Panic_iff parsed_def
      split: json.split option.split field_kind.split)

lemma coerce_fields_no_panic [simp]: "coerce_fields parse fl ms acc \<noteq> Panic"
  by (induction parse fl ms acc rule: coerce_fields.induct) (auto simp: res_bind_Panic_iff)

end
