(* ===== verification/Search_Index.thy ===== *)
theory Search_Index
  imports Tx_Store Search_Mapping Rust_F32_Arith "HOL-Library.Multiset"
begin

text \<open>
  The chunk index: the vector of indexed chunks in memory (\<open>SearchEngine\<close> of \<^verbatim>\<open>search.rs\<close>, its
  storage operations), the JSON file it is saved to, and the vector mirror, with the commit and
  rollback routines of \<^verbatim>\<open>store/mod.rs\<close> and \<^verbatim>\<open>server.rs\<close>. Scoring is not modelled.

  The mirror is a native vector database: its two calls are parameters over a state of any type,
  and answer \<open>None\<close> on success. \<open>parse\<close> is \<open>serde_json::from_str\<close>.
\<close>

section \<open>Chunks\<close>

record indexed_chunk =
  ic_id :: string
  ic_doc_name :: string
  ic_content :: string
  ic_embedding :: "f32 list"
  ic_token_count :: nat
  ic_position :: nat
  ic_metadata :: "(string, string) hmap"

definition chunk_meta :: "string \<Rightarrow> indexed_chunk \<Rightarrow> string option" where
  "chunk_meta key c = hget (ic_metadata c) key"

abbreviation of_doc :: "string \<Rightarrow> indexed_chunk \<Rightarrow> bool" where
  "of_doc doc c \<equiv> chunk_meta ''doc_id'' c = Some doc"

section \<open>The engine\<close>

type_synonym search_engine = "indexed_chunk list"

definition engine_add :: "indexed_chunk \<Rightarrow> search_engine \<Rightarrow> search_engine" where
  "engine_add c cs = cs @ [c]"

definition engine_index :: "indexed_chunk list \<Rightarrow> search_engine \<Rightarrow> search_engine" where
  "engine_index new cs = cs @ new"

definition remove_document :: "string \<Rightarrow> search_engine \<Rightarrow> search_engine \<times> nat" where
  "remove_document doc cs =
     (let kept = filter (\<lambda>c. \<not> of_doc doc c) cs in (kept, length cs - length kept))"

definition remove_chunk :: "string \<Rightarrow> search_engine \<Rightarrow> search_engine \<times> bool" where
  "remove_chunk i cs = (let kept = filter (\<lambda>c. ic_id c \<noteq> i) cs in (kept, length kept \<noteq> length cs))"

definition replace_document :: "string \<Rightarrow> indexed_chunk list \<Rightarrow> search_engine \<Rightarrow> search_engine" where
  "replace_document doc new cs = engine_index new (fst (remove_document doc cs))"

definition chunks_for_document :: "string \<Rightarrow> search_engine \<Rightarrow> indexed_chunk list" where
  "chunks_for_document doc cs = filter (of_doc doc) cs"

definition chunks_for_kb :: "string \<Rightarrow> search_engine \<Rightarrow> indexed_chunk list" where
  "chunks_for_kb kb cs =
     filter (\<lambda>c. ic_embedding c \<noteq> [] \<and> chunk_meta ''kb_id'' c = Some kb) cs"

fun token_counts_for ::
    "string \<Rightarrow> string set \<Rightarrow> search_engine \<Rightarrow> (string, nat) hmap \<Rightarrow> (string, nat) hmap" where
  "token_counts_for kb docs [] counts = counts"
| "token_counts_for kb docs (c # cs) counts =
     (if chunk_meta ''kb_id'' c \<noteq> Some kb then token_counts_for kb docs cs counts
      else case chunk_meta ''doc_id'' c of
             None \<Rightarrow> token_counts_for kb docs cs counts
           | Some doc \<Rightarrow>
               if doc \<notin> docs then token_counts_for kb docs cs counts
               else token_counts_for kb docs cs
                 (hput doc ((case hget counts doc of None \<Rightarrow> 0 | Some n \<Rightarrow> n) + ic_token_count c) counts))"

fun chunk_counts_by_kb :: "search_engine \<Rightarrow> (string, nat) hmap \<Rightarrow> (string, nat) hmap" where
  "chunk_counts_by_kb [] counts = counts"
| "chunk_counts_by_kb (c # cs) counts =
     (if ic_embedding c = [] then chunk_counts_by_kb cs counts
      else case chunk_meta ''kb_id'' c of
             None \<Rightarrow> chunk_counts_by_kb cs counts
           | Some kb \<Rightarrow>
               if trim kb = [] then chunk_counts_by_kb cs counts
               else chunk_counts_by_kb cs
                 (hput kb ((case hget counts kb of None \<Rightarrow> 0 | Some n \<Rightarrow> n) + 1) counts))"

text \<open>
  A chunk as the document of a search mapping, for its errors. A single-precision zero has no
  sign here.
\<close>

definition project_chunk_document ::
    "(string \<Rightarrow> json option) \<Rightarrow> mapping_flavor \<Rightarrow> indexed_chunk \<Rightarrow> (string \<times> json) list res" where
  "project_chunk_document parse fl c =
     res_bind (coerce_fields parse fl (ic_metadata c) []) (\<lambda>doc.
       let doc = hput ''id'' (JStr (ic_id c)) doc;
           doc = hput ''docnm_kwd'' (JStr (ic_doc_name c)) doc;
           doc = hput ''content_with_weight'' (JStr (ic_content c)) doc;
           doc = hput ''content_ltks'' (JStr (ic_content c)) doc;
           doc = hput ''token_num'' (JNum (PosInt (ic_token_count c))) doc;
           n = length (ic_embedding c)
       in if ic_embedding c \<noteq> [] \<and> n \<in> set (native_dimensions fl) then
            if list_all f32_is_finite (ic_embedding c)
            then Ok (hput (''q_'' @ nat_to_str n @ ''_vec'')
                       (JArr (map (\<lambda>x. JNum (FloatNum (f64_of_f32 x))) (ic_embedding c))) doc)
            else Err ''embedding contains a non-finite value''
          else Ok doc)"

text \<open>\<open>validate_replacement_snapshot\<close>: the error of the first chunk that has one.\<close>

fun validate_snapshot :: "(string \<Rightarrow> json option) \<Rightarrow> indexed_chunk list \<Rightarrow> unit res" where
  "validate_snapshot parse [] = Ok ()"
| "validate_snapshot parse (c # cs) =
     res_bind (project_chunk_document parse Elasticsearch c) (\<lambda>_.
     res_bind (project_chunk_document parse OpenSearch c) (\<lambda>_.
     validate_snapshot parse cs))"

text \<open>A chunk that fits both mappings.\<close>

definition valid_chunk :: "(string \<Rightarrow> json option) \<Rightarrow> indexed_chunk \<Rightarrow> bool" where
  "valid_chunk parse c \<longleftrightarrow>
     is_ok (project_chunk_document parse Elasticsearch c) \<and> is_ok (project_chunk_document parse OpenSearch c)"

lemma project_no_panic [simp]: "project_chunk_document parse fl c \<noteq> Panic"
  by (auto simp: project_chunk_document_def res_bind_Panic_iff Let_def)

lemma validate_snapshot_no_panic [simp]: "validate_snapshot parse cs \<noteq> Panic"
  by (induction cs) (auto simp: res_bind_Panic_iff)

lemma validate_snapshot_Ok: "validate_snapshot parse cs = Ok u \<longleftrightarrow> list_all (valid_chunk parse) cs"
  by (induction cs) (auto simp: res_bind_Ok_iff valid_chunk_def is_ok_iff)

lemma validate_snapshot_cases:
  obtains "list_all (valid_chunk parse) cs" "validate_snapshot parse cs = Ok ()"
  | err where "\<not> list_all (valid_chunk parse) cs" "validate_snapshot parse cs = Err err"
  using validate_snapshot_Ok [of parse cs "()"] by (cases "validate_snapshot parse cs") auto

definition engine_from_file ::
    "(string \<Rightarrow> json option) \<Rightarrow> indexed_chunk list contents \<Rightarrow> search_engine res" where
  "engine_from_file parse file =
     (case load_json file of
        Ok (Some cs) \<Rightarrow> res_map (\<lambda>_. cs) (validate_snapshot parse cs)
      | Ok None \<Rightarrow> Err ''read''
      | Err e \<Rightarrow> Err e
      | Panic \<Rightarrow> Panic)"

section \<open>The index with its file and its mirror\<close>

record 'm mirror_ops =
  mo_replace :: "string \<Rightarrow> indexed_chunk list \<Rightarrow> indexed_chunk list \<Rightarrow> 'm \<Rightarrow> 'm \<times> string option"
  mo_sync :: "indexed_chunk list \<Rightarrow> indexed_chunk list \<Rightarrow> 'm \<Rightarrow> 'm \<times> string option"

record 'm chunk_index =
  ix_engine :: search_engine
  ix_disk :: "indexed_chunk list disk"
  ix_mirror :: 'm

definition engine_save :: "write_env \<Rightarrow> 'm chunk_index \<Rightarrow> 'm chunk_index \<times> unit res" where
  "engine_save e ix =
     (case atomic_write_with_mirror e (ix_engine ix) (ix_disk ix) of
        (d, r) \<Rightarrow> (ix\<lparr>ix_disk := d\<rparr>, r))"

text \<open>A call of the mirror whose error is only logged.\<close>

definition mirror_quiet :: "('m \<Rightarrow> 'm \<times> string option) \<Rightarrow> 'm chunk_index \<Rightarrow> 'm chunk_index" where
  "mirror_quiet f ix = ix\<lparr>ix_mirror := fst (f (ix_mirror ix))\<rparr>"

text \<open>\<open>persist_document_change\<close> of \<^verbatim>\<open>server.rs\<close>: the engine already holds the new chunks.\<close>

definition persist_document_change ::
    "'m mirror_ops \<Rightarrow> (string \<Rightarrow> json option) \<Rightarrow> write_env \<Rightarrow> string \<Rightarrow> string \<Rightarrow>
     indexed_chunk list \<Rightarrow> indexed_chunk list \<Rightarrow> 'm chunk_index \<Rightarrow> 'm chunk_index \<times> unit res" where
  "persist_document_change mo parse e doc kb previous cur ix =
     (let undo = (\<lambda>ix. (mirror_quiet (mo_replace mo kb cur previous) ix)
                    \<lparr>ix_engine := replace_document doc previous (ix_engine ix)\<rparr>)
      in case validate_snapshot parse (ix_engine ix) of
        Ok u \<Rightarrow>
          (case mo_replace mo kb previous cur (ix_mirror ix) of
             (m, Some err) \<Rightarrow>
               (undo (ix\<lparr>ix_mirror := m\<rparr>), Err ''Failed to commit document to online vector mirror'')
           | (m, None) \<Rightarrow>
               (case engine_save e (ix\<lparr>ix_mirror := m\<rparr>) of
                  (ix', Ok u) \<Rightarrow> (ix', Ok ())
                | (ix', Err err) \<Rightarrow>
                    (undo ix', Err ''Failed to persist document change to JSON index'')
                | (ix', Panic) \<Rightarrow> (ix', Panic)))
      | Err err \<Rightarrow> (ix, Err err)
      | Panic \<Rightarrow> (ix, Panic))"

text \<open>\<open>persist_online_index\<close> of \<^verbatim>\<open>store/mod.rs\<close>.\<close>

definition persist_online_index ::
    "'m mirror_ops \<Rightarrow> (string \<Rightarrow> json option) \<Rightarrow> write_env \<Rightarrow> indexed_chunk list \<Rightarrow>
     'm chunk_index \<Rightarrow> 'm chunk_index \<times> unit res" where
  "persist_online_index mo parse e previous ix =
     (case validate_snapshot parse (ix_engine ix) of
        Ok u \<Rightarrow>
          (case mo_sync mo previous (ix_engine ix) (ix_mirror ix) of
             (m, Some err) \<Rightarrow> (ix\<lparr>ix_mirror := m, ix_engine := previous\<rparr>, Err err)
           | (m, None) \<Rightarrow>
               (case engine_save e (ix\<lparr>ix_mirror := m\<rparr>) of
                  (ix', Ok u) \<Rightarrow> (ix', Ok ())
                | (ix', Err err) \<Rightarrow>
                    ((mirror_quiet (mo_sync mo (ix_engine ix') previous) ix')\<lparr>ix_engine := previous\<rparr>,
                     Err err)
                | (ix', Panic) \<Rightarrow> (ix', Panic)))
      | Err err \<Rightarrow> (ix, Err err)
      | Panic \<Rightarrow> (ix, Panic))"

definition rollback_online_index ::
    "'m mirror_ops \<Rightarrow> write_env \<Rightarrow> indexed_chunk list \<Rightarrow> 'm chunk_index \<Rightarrow> 'm chunk_index" where
  "rollback_online_index mo e previous ix =
     fst (engine_save e ((mirror_quiet (mo_sync mo (ix_engine ix) previous) ix)\<lparr>ix_engine := previous\<rparr>))"

definition rollback_document_index ::
    "'m mirror_ops \<Rightarrow> write_env \<Rightarrow> string \<Rightarrow> string \<Rightarrow> indexed_chunk list \<Rightarrow> 'm chunk_index \<Rightarrow>
     'm chunk_index" where
  "rollback_document_index mo e doc kb previous ix =
     (let cur = chunks_for_document doc (ix_engine ix)
      in fst (engine_save e ((mirror_quiet (mo_replace mo kb cur previous) ix)
                \<lparr>ix_engine := replace_document doc previous (ix_engine ix)\<rparr>)))"

section \<open>The engine as a map from documents to chunks\<close>

text \<open>
  What the commits rely on, of the index and of the graph checkpoints alike: a store of one value
  per document, where replacing one leaves the others alone. Putting back what was there before
  then undoes a replacement, as far as lookups can tell.
\<close>

locale document_map =
  fixes look :: "string \<Rightarrow> 's \<Rightarrow> 'v" and replace :: "string \<Rightarrow> 'v \<Rightarrow> 's \<Rightarrow> 's"
    and owned :: "string \<Rightarrow> 'v \<Rightarrow> bool"
  assumes look_replace: "owned doc v \<Longrightarrow> look doc (replace doc v s) = v"
    and look_other: "owned doc v \<Longrightarrow> doc' \<noteq> doc \<Longrightarrow> look doc' (replace doc v s) = look doc' s"
    and owned_look: "owned doc (look doc s)"
begin

lemma look_replace_if:
  "owned doc v \<Longrightarrow> look doc' (replace doc v s) = (if doc' = doc then v else look doc' s)"
  by (simp add: look_replace look_other)

lemma undo_replace:
  assumes "owned doc v"
  shows "look doc' (replace doc (look doc s) (replace doc v s)) = look doc' s"
  using assms by (simp add: look_replace_if owned_look)

lemma replace_twice:
  "owned doc v \<Longrightarrow> owned doc w \<Longrightarrow> look doc' (replace doc w (replace doc v s)) = look doc' (replace doc w s)"
  by (simp add: look_replace_if)

end

lemma replace_document_eq: "replace_document doc new cs = filter (\<lambda>c. \<not> of_doc doc c) cs @ new"
  by (simp add: replace_document_def engine_index_def remove_document_def Let_def)

definition all_of_doc :: "string \<Rightarrow> indexed_chunk list \<Rightarrow> bool" where
  "all_of_doc doc cs \<longleftrightarrow> (\<forall>c \<in> set cs. of_doc doc c)"

interpretation engine: document_map chunks_for_document replace_document all_of_doc
proof
  fix doc new cs
  show "all_of_doc doc new \<Longrightarrow> chunks_for_document doc (replace_document doc new cs) = new"
    by (simp add: chunks_for_document_def replace_document_eq all_of_doc_def filter_empty_conv)
next
  fix doc new doc' cs
  assume "all_of_doc doc new" and "doc' \<noteq> doc"
  then have "filter (of_doc doc') new = []" by (auto simp: all_of_doc_def filter_empty_conv)
  moreover have "(\<lambda>c. of_doc doc' c \<and> \<not> of_doc doc c) = of_doc doc'"
    using \<open>doc' \<noteq> doc\<close> by auto
  ultimately show "chunks_for_document doc' (replace_document doc new cs) = chunks_for_document doc' cs"
    by (simp only: chunks_for_document_def replace_document_eq filter_append filter_filter append_Nil2
        conj_commute)
qed (simp add: all_of_doc_def chunks_for_document_def)

text \<open>Undoing a replacement gives back the same chunks, those of the document moved to the end.\<close>

lemma undo_replace_mset:
  assumes "all_of_doc doc new"
  shows "mset (replace_document doc (chunks_for_document doc cs) (replace_document doc new cs)) = mset cs"
proof -
  have "filter (\<lambda>c. \<not> of_doc doc c) new = []"
    using assms by (simp add: all_of_doc_def filter_empty_conv)
  then show ?thesis
    using multiset_partition [of "mset cs" "of_doc doc"]
    by (simp add: replace_document_eq chunks_for_document_def union_commute)
qed

end
