(* ===== verification/Graph_Store.thy ===== *)
theory Graph_Store
  imports Entity_Graph_Spec Search_Index
begin

text \<open>
  The store of graphs (\<^verbatim>\<open>graph_store.rs\<close>): one checkpoint per document, and one merged graph per
  knowledge base, derived from the checkpoints. A replacement works on a copy, writes the copy
  to the file, and only then makes it the current one. The entities of a chunk, found by regular
  expressions, are given by a function.
\<close>

record graph_checkpoint =
  gc_doc_id :: string
  gc_kb_id :: string
  gc_content_hash :: string
  gc_method :: string
  gc_entity_types :: "string list"
  gc_graph :: entity_graph

record graph_artifacts =
  ga_checkpoints :: "(string, graph_checkpoint) hmap"
  ga_kb_graphs :: "(string, entity_graph) hmap"

record graph_store =
  gs_artifacts :: graph_artifacts
  gs_disk :: "graph_artifacts disk"

definition artifacts_default :: graph_artifacts where
  "artifacts_default = \<lparr>ga_checkpoints = [], ga_kb_graphs = []\<rparr>"

definition graph_store_new :: "graph_artifacts contents \<Rightarrow> graph_artifacts disk \<Rightarrow> graph_store res" where
  "graph_store_new file d =
     res_map (\<lambda>loaded. \<lparr>gs_artifacts = (case loaded of None \<Rightarrow> artifacts_default | Some a \<Rightarrow> a),
                        gs_disk = d\<rparr>) (load_json file)"

text \<open>\<open>build_checkpoint\<close>: neighbouring entities of a chunk are related with weight one.\<close>

fun relate_neighbours :: "ner_entity list \<Rightarrow> entity_graph \<Rightarrow> entity_graph" where
  "relate_neighbours (a # b # es) g =
     relate_neighbours (b # es) (add_relation (ne_name a) (ne_name b) (Fin 1) g)"
| "relate_neighbours es g = g"

definition add_chunk_entities ::
    "(string \<Rightarrow> ner_entity list) \<Rightarrow> indexed_chunk \<Rightarrow> entity_graph \<Rightarrow> entity_graph" where
  "add_chunk_entities extract c g =
     (let es = extract (ic_content c) in relate_neighbours es (add_entities es g))"

definition build_checkpoint ::
    "(string \<Rightarrow> ner_entity list) \<Rightarrow> string \<Rightarrow> string \<Rightarrow> string \<Rightarrow> string \<Rightarrow> string list \<Rightarrow>
     indexed_chunk list \<Rightarrow> graph_checkpoint" where
  "build_checkpoint extract doc kb hash method types chunks =
     \<lparr>gc_doc_id = doc, gc_kb_id = kb, gc_content_hash = hash, gc_method = method,
      gc_entity_types = types, gc_graph = fold (add_chunk_entities extract) chunks graph_new\<rparr>"

definition checkpoints_of_kb :: "string \<Rightarrow> graph_artifacts \<Rightarrow> graph_checkpoint list" where
  "checkpoints_of_kb kb a = filter (\<lambda>c. gc_kb_id c = kb) (hvalues (ga_checkpoints a))"

definition merged_graph :: "string \<Rightarrow> graph_artifacts \<Rightarrow> entity_graph" where
  "merged_graph kb a = fold (\<lambda>c g. graph_merge g (gc_graph c)) (checkpoints_of_kb kb a) graph_new"

definition rebuild_kb_graph :: "string \<Rightarrow> graph_artifacts \<Rightarrow> graph_artifacts" where
  "rebuild_kb_graph kb a = a\<lparr>ga_kb_graphs := hput kb (merged_graph kb a) (ga_kb_graphs a)\<rparr>"

definition put_checkpoint :: "string \<Rightarrow> graph_checkpoint option \<Rightarrow> graph_artifacts \<Rightarrow> graph_artifacts" where
  "put_checkpoint doc cp a =
     (let without = hdel doc (ga_checkpoints a)
      in a\<lparr>ga_checkpoints := (case cp of None \<Rightarrow> without | Some c \<Rightarrow> hput doc c without)\<rparr>)"

definition replace_checkpoint ::
    "string \<Rightarrow> graph_checkpoint option \<Rightarrow> graph_artifacts \<Rightarrow> graph_artifacts" where
  "replace_checkpoint doc cp a =
     (let affected = (case cp of Some c \<Rightarrow> Some (gc_kb_id c)
                      | None \<Rightarrow> map_option gc_kb_id (hget (ga_checkpoints a) doc));
          a = put_checkpoint doc cp a
      in case affected of None \<Rightarrow> a | Some kb \<Rightarrow> rebuild_kb_graph kb a)"

text \<open>\<open>replace_snapshot\<close>: no path means nothing to write.\<close>

definition replace_snapshot ::
    "write_env option \<Rightarrow> graph_artifacts \<Rightarrow> graph_store \<Rightarrow> graph_store \<times> unit res" where
  "replace_snapshot e a gs =
     (case tx_persist e a (gs_disk gs) of
        (d, Ok u) \<Rightarrow> (gs\<lparr>gs_artifacts := a, gs_disk := d\<rparr>, Ok ())
      | (d, Err err) \<Rightarrow> (gs\<lparr>gs_disk := d\<rparr>, Err err)
      | (d, Panic) \<Rightarrow> (gs\<lparr>gs_disk := d\<rparr>, Panic))"

definition replace_document_graph ::
    "write_env option \<Rightarrow> string \<Rightarrow> graph_checkpoint option \<Rightarrow> graph_store \<Rightarrow> graph_store \<times> unit res" where
  "replace_document_graph e doc cp gs = replace_snapshot e (replace_checkpoint doc cp (gs_artifacts gs)) gs"

section \<open>Checkpoints per document\<close>

definition checkpoint_of :: "string \<Rightarrow> graph_artifacts \<Rightarrow> graph_checkpoint option" where
  "checkpoint_of doc a = hget (ga_checkpoints a) doc"

lemma checkpoints_replace [simp]:
  "ga_checkpoints (replace_checkpoint doc cp a) =
     (case cp of None \<Rightarrow> hdel doc (ga_checkpoints a) | Some c \<Rightarrow> hput doc c (hdel doc (ga_checkpoints a)))"
  by (simp add: replace_checkpoint_def put_checkpoint_def rebuild_kb_graph_def Let_def split: option.split)

interpretation graphs: document_map checkpoint_of replace_checkpoint "\<lambda>doc cp. True"
  by unfold_locales (auto simp: checkpoint_of_def split: option.split)

text \<open>The derived graphs: each one kept is the merge of the checkpoints of its knowledge base.\<close>

definition graphs_derived :: "graph_artifacts \<Rightarrow> bool" where
  "graphs_derived a \<longleftrightarrow> (\<forall>kb g. hget (ga_kb_graphs a) kb = Some g \<longrightarrow> g = merged_graph kb a)"

definition wf_artifacts :: "graph_artifacts \<Rightarrow> bool" where
  "wf_artifacts a \<longleftrightarrow> keyed gc_doc_id (ga_checkpoints a) \<and> graphs_derived a"

lemma checkpoints_of_kb_other:
  assumes "keyed gc_doc_id (ga_checkpoints a)"
    and "\<And>c. hget (ga_checkpoints a) doc = Some c \<Longrightarrow> gc_kb_id c \<noteq> kb"
    and "\<And>c. cp = Some c \<Longrightarrow> gc_kb_id c \<noteq> kb"
  shows "checkpoints_of_kb kb (replace_checkpoint doc cp a) = checkpoints_of_kb kb a"
proof -
  let ?P = "\<lambda>c. gc_kb_id c = kb"
  have del: "filter ?P (hvalues (hdel doc m)) = filter ?P (hvalues m)"
    if "distinct (map fst m)" "\<And>c. hget m doc = Some c \<Longrightarrow> gc_kb_id c \<noteq> kb" for m
    using that
  proof (induction m)
    case (Cons kv m)
    obtain k v where kv: "kv = (k, v)" by (cases kv)
    show ?case
    proof (cases "k = doc")
      case True
      with Cons.prems kv have "hget m doc = None" by (simp add: map_of_eq_None_iff)
      then have "hdel doc m = m" by (rule hdel_absent)
      with True Cons.prems(2) [of v] kv show ?thesis by simp
    qed (use Cons kv in simp)
  qed simp
  have "doc \<notin> fst ` set (hdel doc (ga_checkpoints a))" by (auto simp: AList.delete_eq)
  then have "hput doc c (hdel doc (ga_checkpoints a)) = hdel doc (ga_checkpoints a) @ [(doc, c)]" for c
    by (rule hput_new)
  then show ?thesis
    using del [of "ga_checkpoints a"] assms
    by (auto simp: checkpoints_of_kb_def keyed_def split: option.split)
qed

text \<open>The base a document leaves when its new checkpoint names another one.\<close>

definition base_left :: "string \<Rightarrow> graph_checkpoint option \<Rightarrow> graph_artifacts \<Rightarrow> string option" where
  "base_left doc cp a =
     (case (hget (ga_checkpoints a) doc, cp) of
        (Some old, Some c) \<Rightarrow> if gc_kb_id c = gc_kb_id old then None else Some (gc_kb_id old)
      | _ \<Rightarrow> None)"

text \<open>
  C40. Replacing the graph of a document rebuilds the merged graph of one knowledge base, after which
  the merged graph of every base, but the one the document has left if it names another now, is the merge of the
  checkpoints of that base; the other documents' checkpoints are not touched. A base that was left keeps its
  old merged graph, with what the document had put there.
\<close>

theorem replace_checkpoint_derived:
  assumes wf: "wf_artifacts a" and doc: "\<And>c. cp = Some c \<Longrightarrow> gc_doc_id c = doc"
  shows "(base_left doc cp a = None \<longrightarrow> wf_artifacts (replace_checkpoint doc cp a)) \<and>
    (\<forall>kb g. base_left doc cp a \<noteq> Some kb \<longrightarrow> hget (ga_kb_graphs (replace_checkpoint doc cp a)) kb = Some g \<longrightarrow>
       g = merged_graph kb (replace_checkpoint doc cp a)) \<and>
    (\<forall>kb. base_left doc cp a = Some kb \<longrightarrow>
       hget (ga_kb_graphs (replace_checkpoint doc cp a)) kb = hget (ga_kb_graphs a) kb) \<and>
    keyed gc_doc_id (ga_checkpoints (replace_checkpoint doc cp a)) \<and>
    checkpoint_of doc (replace_checkpoint doc cp a) = cp \<and>
    (\<forall>other. other \<noteq> doc \<longrightarrow> checkpoint_of other (replace_checkpoint doc cp a) = checkpoint_of other a)"
proof -
  let ?a = "replace_checkpoint doc cp a"
  let ?kb = "case cp of Some c \<Rightarrow> Some (gc_kb_id c) | None \<Rightarrow> map_option gc_kb_id (hget (ga_checkpoints a) doc)"
  from wf have k: "keyed gc_doc_id (ga_checkpoints a)" and d: "graphs_derived a"
    by (auto simp: wf_artifacts_def)
  have merged: "merged_graph kb ?a = merged_graph kb a" if "?kb \<noteq> Some kb" "base_left doc cp a \<noteq> Some kb" for kb
  proof -
    have "gc_kb_id c \<noteq> kb" if "hget (ga_checkpoints a) doc = Some c" for c
      using \<open>?kb \<noteq> Some kb\<close> \<open>base_left doc cp a \<noteq> Some kb\<close> that
      by (cases cp) (auto simp: base_left_def split: if_splits)
    moreover have "gc_kb_id c \<noteq> kb" if "cp = Some c" for c
      using \<open>?kb \<noteq> Some kb\<close> that by simp
    ultimately show ?thesis
      using checkpoints_of_kb_other [OF k, of doc kb cp] by (simp add: merged_graph_def)
  qed
  have same: "merged_graph kb (a'\<lparr>ga_kb_graphs := gs\<rparr>) = merged_graph kb a'" for kb a' gs
    by (simp add: merged_graph_def checkpoints_of_kb_def)
  have gs: "ga_kb_graphs ?a = (case ?kb of None \<Rightarrow> ga_kb_graphs a
      | Some kb \<Rightarrow> hput kb (merged_graph kb ?a) (ga_kb_graphs a))"
    by (auto simp: replace_checkpoint_def rebuild_kb_graph_def same put_checkpoint_def Let_def split: option.split)
  have derived: "g = merged_graph kb ?a" if "base_left doc cp a \<noteq> Some kb" "hget (ga_kb_graphs ?a) kb = Some g" for kb g
    using d that merged [of kb] by (auto simp: graphs_derived_def gs split: option.splits if_splits)
  have left: "hget (ga_kb_graphs ?a) kb = hget (ga_kb_graphs a) kb" if "base_left doc cp a = Some kb" for kb
    using that by (auto simp: base_left_def gs split: option.splits if_splits)
  have keyed: "keyed gc_doc_id (ga_checkpoints ?a)"
    using k doc by (auto intro: keyed_hput keyed_hdel split: option.split)
  have "wf_artifacts ?a" if "base_left doc cp a = None"
    using derived that keyed by (auto simp: wf_artifacts_def graphs_derived_def)
  with derived left keyed show ?thesis by (simp add: graphs.look_replace_if)
qed

definition demo_checkpoint :: graph_checkpoint where
  "demo_checkpoint = build_checkpoint (\<lambda>_. []) ''doc-1'' ''kb-1'' ''hash'' ''light'' [] []"

text \<open>A document of \<open>kb-1\<close> is given a checkpoint that names \<open>kb-2\<close>: the graph of \<open>kb-1\<close> stays.\<close>

definition moved_checkpoint :: graph_checkpoint where
  "moved_checkpoint = demo_checkpoint\<lparr>gc_kb_id := ''kb-2''\<rparr>"

theorem replace_checkpoint_derived_witness:
  "wf_artifacts (replace_checkpoint ''doc-1'' (Some demo_checkpoint) artifacts_default) \<and>
   (let a = replace_checkpoint ''doc-1'' (Some demo_checkpoint) artifacts_default
    in hget (ga_kb_graphs (replace_checkpoint ''doc-1'' (Some moved_checkpoint) a)) ''kb-1'' =
        hget (ga_kb_graphs a) ''kb-1'')"
proof -
  let ?a = "replace_checkpoint ''doc-1'' (Some demo_checkpoint) artifacts_default"
  have "wf_artifacts artifacts_default"
    by (simp add: wf_artifacts_def artifacts_default_def graphs_derived_def)
  moreover have "base_left ''doc-1'' (Some demo_checkpoint) artifacts_default = None"
    by (simp add: base_left_def artifacts_default_def)
  moreover have docs: "Some demo_checkpoint = Some c \<Longrightarrow> gc_doc_id c = ''doc-1''"
      "Some moved_checkpoint = Some c \<Longrightarrow> gc_doc_id c = ''doc-1''" for c
    by (auto simp: moved_checkpoint_def demo_checkpoint_def build_checkpoint_def)
  ultimately have wf: "wf_artifacts ?a" using replace_checkpoint_derived by blast
  moreover have "base_left ''doc-1'' (Some moved_checkpoint) ?a = Some ''kb-1''"
    by (simp add: base_left_def moved_checkpoint_def demo_checkpoint_def build_checkpoint_def)
  moreover note replace_checkpoint_derived [OF wf, of "Some moved_checkpoint" "''doc-1''", OF docs(2)]
  ultimately show ?thesis by (simp add: Let_def)
qed

end
