(* ===== verification/Rust_Split.thy ===== *)
theory Rust_Split
  imports Rust_Str
begin

text \<open>
  \<open>str::split\<close> at a set of characters, and the words between white space.
\<close>

text \<open>\<open>s.split([...])\<close>: the piece being read is \<open>acc\<close>, backwards.\<close>

function split_any :: "string list \<Rightarrow> string \<Rightarrow> string \<Rightarrow> string list" where
  "split_any seps acc s =
     (case s of
        [] \<Rightarrow> [rev acc]
      | c # cs \<Rightarrow>
          (case find (\<lambda>p. p \<noteq> [] \<and> prefix p s) seps of
             Some p \<Rightarrow> rev acc # split_any seps [] (drop (length p) s)
           | None \<Rightarrow> split_any seps (c # acc) cs))"
  by pat_completeness auto

termination
  by (relation "measure (\<lambda>(seps, acc, s). length s)")
     (auto dest: find_SomeD simp: Suc_le_eq dest!: prefix_length_le)

declare split_any.simps [simp del]

text \<open>\<open>s.split_whitespace()\<close>.\<close>

definition split_whitespace :: "string \<Rightarrow> string list" where
  "split_whitespace s = filter (\<lambda>p. p \<noteq> []) (split_any ws_encodings [] s)"

end
