(* ===== verification/Doc_Metadata.thy ===== *)
theory Doc_Metadata
  imports Tx_Store Rust_Json Rust_Split "HOL-Library.List_Lexorder" "HOL-Library.Char_ord"
begin

text \<open>
  \<open>DocumentMetadataStore\<close> of \<^verbatim>\<open>src/api/document_metadata.rs\<close>: one JSON object per document, its
  normalisation, and the batch of updates and deletions. Members of an object are in insertion
  order, and removing one moves the last member into its place, as the \<open>preserve_order\<close> feature
  of \<^verbatim>\<open>serde_json\<close> has it. \<open>to_text\<close> is \<open>serde_json::to_string\<close>.
\<close>

section \<open>Data\<close>

type_synonym json_object = "(string \<times> json) list"

record doc_metadata =
  dm_doc_id :: string
  dm_kb_id :: string
  dm_fields :: json_object

record metadata_update =
  mu_key :: string
  mu_value :: json
  mu_match :: "json option"

record metadata_delete =
  md_key :: string
  md_value :: "json option"

type_synonym metadata_map = "(string, doc_metadata) hmap"

type_synonym metadata_store = "(metadata_map, doc_metadata list) tx_store"

text \<open>\<open>Map::remove\<close>: the last member takes the place of the removed one.\<close>

fun member_remove :: "string \<Rightarrow> json_object \<Rightarrow> json_object" where
  "member_remove key [] = []"
| "member_remove key ((k, v) # ms) =
     (if k = key then (if ms = [] then [] else last ms # butlast ms)
      else (k, v) # member_remove key ms)"

section \<open>Normal form\<close>

text \<open>The separators of a string in a list: a comma, a semicolon, their wide forms, and a bar.\<close>

definition value_separators :: "string list" where
  "value_separators =
     [[CHR 0xE3, CHR 0x80, CHR 0x81], '','', [CHR 0xEF, CHR 0xBC, CHR 0x8C], '';'',
      [CHR 0xEF, CHR 0xBC, CHR 0x9B], ''|'']"

definition split_values :: "string \<Rightarrow> string list" where
  "split_values s = filter (\<lambda>p. p \<noteq> []) (map trim (split_any value_separators [] s))"

fun dedupe :: "(json \<Rightarrow> string) \<Rightarrow> string list \<Rightarrow> json list \<Rightarrow> json list" where
  "dedupe to_text seen [] = []"
| "dedupe to_text seen (v # vs) =
     (if to_text v \<in> set seen then dedupe to_text seen vs
      else v # dedupe to_text (to_text v # seen) vs)"

definition dedupe_values :: "(json \<Rightarrow> string) \<Rightarrow> json list \<Rightarrow> json list" where
  "dedupe_values to_text = dedupe to_text []"

fun normalize_value :: "(json \<Rightarrow> string) \<Rightarrow> json \<Rightarrow> json"
  and normalize_items :: "(json \<Rightarrow> string) \<Rightarrow> json list \<Rightarrow> json list"
  and normalize_members :: "(json \<Rightarrow> string) \<Rightarrow> json_object \<Rightarrow> json_object \<Rightarrow> json_object" where
  "normalize_value to_text (JArr vs) = JArr (dedupe_values to_text (normalize_items to_text vs))"
| "normalize_value to_text (JObj ms) = JObj (normalize_members to_text ms [])"
| "normalize_value to_text v = v"
| "normalize_items to_text [] = []"
| "normalize_items to_text (v # vs) =
     (case v of
        JStr s \<Rightarrow> (if split_values s = [] then [JStr s] else map JStr (split_values s))
      | _ \<Rightarrow> [normalize_value to_text v]) @ normalize_items to_text vs"
| "normalize_members to_text [] acc = acc"
| "normalize_members to_text ((k, v) # ms) acc =
     normalize_members to_text ms
       (if trim k = [] then acc else hput (trim k) (normalize_value to_text v) acc)"

definition normalize_metadata :: "(json \<Rightarrow> string) \<Rightarrow> json_object \<Rightarrow> json_object" where
  "normalize_metadata to_text ms = normalize_members to_text ms []"

section \<open>Comparing and printing values\<close>

text \<open>\<open>Value == Value\<close>: members in any order, numbers of the same kind, floats as floats.\<close>

fun num_eq :: "json_num \<Rightarrow> json_num \<Rightarrow> bool" where
  "num_eq (FloatNum x) (FloatNum y) = (f64_cmp x y = Some Equal)"
| "num_eq m n = (m = n)"

fun json_eq :: "json \<Rightarrow> json \<Rightarrow> bool"
  and items_eq :: "json list \<Rightarrow> json list \<Rightarrow> bool"
  and members_in :: "json_object \<Rightarrow> json_object \<Rightarrow> bool" where
  "json_eq (JArr vs) (JArr ws) = items_eq vs ws"
| "json_eq (JObj ms) (JObj ns) = (length ms = length ns \<and> members_in ms ns)"
| "json_eq (JNum m) (JNum n) = num_eq m n"
| "json_eq v w = (v = w)"
| "items_eq (v # vs) (w # ws) = (json_eq v w \<and> items_eq vs ws)"
| "items_eq vs ws = (vs = ws)"
| "members_in [] ns = True"
| "members_in ((k, v) # ms) ns =
     ((case hget ns k of None \<Rightarrow> False | Some w \<Rightarrow> json_eq v w) \<and> members_in ms ns)"

definition object_eq :: "json_object \<Rightarrow> json_object \<Rightarrow> bool" where
  "object_eq ms ns \<longleftrightarrow> length ms = length ns \<and> members_in ms ns"

definition value_string :: "(json \<Rightarrow> string) \<Rightarrow> json \<Rightarrow> string" where
  "value_string to_text v =
     (case v of JStr s \<Rightarrow> s | JBool b \<Rightarrow> (if b then ''true'' else ''false'') | _ \<Rightarrow> to_text v)"

section \<open>Updates and deletions\<close>

definition match_provided :: "metadata_update \<Rightarrow> bool" where
  "match_provided u = (case mu_match u of None \<Rightarrow> False | Some v \<Rightarrow> v \<noteq> JNull \<and> v \<noteq> JStr [])"

definition matches :: "(json \<Rightarrow> string) \<Rightarrow> metadata_update \<Rightarrow> json \<Rightarrow> bool" where
  "matches to_text u v =
     (case mu_match u of None \<Rightarrow> False | Some e \<Rightarrow> value_string to_text v = value_string to_text e)"

definition apply_update :: "(json \<Rightarrow> string) \<Rightarrow> metadata_update \<Rightarrow> json_object \<Rightarrow> json_object" where
  "apply_update to_text u ms =
     (if trim (mu_key u) = [] then ms
      else case hget ms (mu_key u) of
        None \<Rightarrow> if match_provided u then ms else hput (mu_key u) (mu_value u) ms
      | Some (JArr vs) \<Rightarrow>
          if match_provided u
          then hput (mu_key u) (JArr (map (\<lambda>v. if matches to_text u v then mu_value u else v) vs)) ms
          else hput (mu_key u)
                 (JArr (dedupe_values to_text
                    (vs @ (case mu_value u of JArr new \<Rightarrow> new | v \<Rightarrow> [v])))) ms
      | Some v \<Rightarrow>
          if match_provided u \<and> \<not> matches to_text u v then ms
          else hput (mu_key u) (mu_value u) ms)"

definition apply_updates :: "(json \<Rightarrow> string) \<Rightarrow> metadata_update list \<Rightarrow> json_object \<Rightarrow> json_object" where
  "apply_updates to_text us ms = fold (apply_update to_text) us ms"

definition apply_delete :: "(json \<Rightarrow> string) \<Rightarrow> metadata_delete \<Rightarrow> json_object \<Rightarrow> json_object" where
  "apply_delete to_text d ms =
     (if trim (md_key d) = [] then ms
      else case md_value d of
        None \<Rightarrow> member_remove (md_key d) ms
      | Some e \<Rightarrow>
          (case hget ms (md_key d) of
             None \<Rightarrow> ms
           | Some (JArr vs) \<Rightarrow>
               (let kept = filter (\<lambda>v. value_string to_text v \<noteq> value_string to_text e) vs;
                    ms = hput (md_key d) (JArr kept) ms
                in if kept = [] then member_remove (md_key d) ms else ms)
           | Some v \<Rightarrow>
               if value_string to_text v = value_string to_text e then member_remove (md_key d) ms
               else ms))"

definition apply_deletes :: "(json \<Rightarrow> string) \<Rightarrow> metadata_delete list \<Rightarrow> json_object \<Rightarrow> json_object" where
  "apply_deletes to_text ds ms = fold (apply_delete to_text) ds ms"

section \<open>The store\<close>

definition validate_identity :: "string \<Rightarrow> string \<Rightarrow> unit res" where
  "validate_identity doc kb =
     (if trim doc = [] \<or> trim kb = [] then Err ''Document and knowledge base IDs are required''
      else Ok ())"

fun validate_metadata_records :: "string list \<Rightarrow> doc_metadata list \<Rightarrow> unit res" where
  "validate_metadata_records ids [] = Ok ()"
| "validate_metadata_records ids (r # rs) =
     (case validate_identity (dm_doc_id r) (dm_kb_id r) of
        Ok u \<Rightarrow>
          if dm_doc_id r \<in> set ids then Err (''Duplicate document metadata ID: '' @ dm_doc_id r)
          else validate_metadata_records (dm_doc_id r # ids) rs
      | Err e \<Rightarrow> Err e
      | Panic \<Rightarrow> Panic)"

definition meta_records :: "metadata_map \<Rightarrow> doc_metadata list" where
  "meta_records m = sort_key dm_doc_id (hvalues m)"

text \<open>
  \<open>persist\<close> validates the records before it writes them; a failed validation puts the clone
  back, as a failed write does.
\<close>

definition meta_checked :: "(metadata_map \<Rightarrow> metadata_map \<times> ('a \<times> bool) res) \<Rightarrow>
    metadata_map \<Rightarrow> metadata_map \<times> ('a \<times> bool) res" where
  "meta_checked mutation m =
     (case mutation m of
        (m', Ok (v, True)) \<Rightarrow>
          (case validate_metadata_records [] (meta_records m') of
             Ok u \<Rightarrow> (m', Ok (v, True)) | Err e \<Rightarrow> (m, Err e) | Panic \<Rightarrow> (m', Panic))
      | q \<Rightarrow> q)"

definition meta_mutate ::
  "write_env option \<Rightarrow> (metadata_map \<Rightarrow> metadata_map \<times> ('a \<times> bool) res) \<Rightarrow>
   metadata_store \<Rightarrow> metadata_store \<times> 'a res" where
  "meta_mutate e mutation =
     tx_mutate_if_changed meta_records e (case e of None \<Rightarrow> mutation | Some w \<Rightarrow> meta_checked mutation)"

definition metadata_store_new ::
  "doc_metadata list contents \<Rightarrow> doc_metadata list disk \<Rightarrow> metadata_store res" where
  "metadata_store_new file d =
     (case load_json file of
        Ok None \<Rightarrow> Ok \<lparr>st_mem = [], st_disk = d, st_poisoned = False\<rparr>
      | Ok (Some rs) \<Rightarrow>
          res_map (\<lambda>_. \<lparr>st_mem = hcollect dm_doc_id rs, st_disk = d, st_poisoned = False\<rparr>)
            (validate_metadata_records [] rs)
      | Err err \<Rightarrow> Err err
      | Panic \<Rightarrow> Panic)"

definition meta_replace_step ::
  "string \<Rightarrow> string \<Rightarrow> json_object \<Rightarrow> metadata_map \<Rightarrow> metadata_map \<times> (json_object \<times> bool) res" where
  "meta_replace_step doc kb mf m =
     (hput doc \<lparr>dm_doc_id = doc, dm_kb_id = kb, dm_fields = mf\<rparr> m, Ok (mf, True))"

definition meta_replace ::
  "write_env option \<Rightarrow> (json \<Rightarrow> string) \<Rightarrow> string \<Rightarrow> string \<Rightarrow> json_object \<Rightarrow>
   metadata_store \<Rightarrow> metadata_store \<times> json_object res" where
  "meta_replace e to_text doc kb mf st =
     (case validate_identity doc kb of
        Ok u \<Rightarrow> meta_mutate e (meta_replace_step doc kb (normalize_metadata to_text mf)) st
      | Err err \<Rightarrow> (st, Err err)
      | Panic \<Rightarrow> (st, Panic))"

definition meta_lookup :: "string \<Rightarrow> string \<Rightarrow> metadata_map \<Rightarrow> json_object option" where
  "meta_lookup doc kb m =
     (case hget m doc of None \<Rightarrow> None | Some r \<Rightarrow> if dm_kb_id r = kb then Some (dm_fields r) else None)"

definition meta_get :: "string \<Rightarrow> string \<Rightarrow> metadata_store \<Rightarrow> json_object option res" where
  "meta_get doc kb st = tx_read (meta_lookup doc kb) st"

definition meta_get_for_documents ::
  "string \<Rightarrow> string list option \<Rightarrow> metadata_store \<Rightarrow> (string, json_object) hmap res" where
  "meta_get_for_documents kb docs st =
     tx_read (\<lambda>m. map (\<lambda>r. (dm_doc_id r, dm_fields r))
       (filter (\<lambda>r. dm_kb_id r = kb \<and> (case docs of None \<Rightarrow> True | Some ids \<Rightarrow> dm_doc_id r \<in> set ids)
                    \<and> dm_fields r \<noteq> []) (hvalues m))) st"

definition meta_delete_step :: "string \<Rightarrow> string \<Rightarrow> metadata_map \<Rightarrow> metadata_map \<times> (bool \<times> bool) res" where
  "meta_delete_step doc kb m =
     (let deleted = (case hget m doc of None \<Rightarrow> False | Some r \<Rightarrow> dm_kb_id r = kb)
      in (if deleted then hdel doc m else m, Ok (deleted, deleted)))"

definition meta_delete ::
  "write_env option \<Rightarrow> string \<Rightarrow> string \<Rightarrow> metadata_store \<Rightarrow> metadata_store \<times> bool res" where
  "meta_delete e doc kb st = meta_mutate e (meta_delete_step doc kb) st"

text \<open>
  \<open>batch_update\<close>: the records found, in place; the ones left empty removed; then a record for
  each document that had none. The order of the new records is that of the request, where the
  program takes the order of a hash set.
\<close>

definition updated_fields ::
  "(json \<Rightarrow> string) \<Rightarrow> metadata_update list \<Rightarrow> metadata_delete list \<Rightarrow> json_object \<Rightarrow> json_object" where
  "updated_fields to_text us ds ms = normalize_metadata to_text (apply_deletes to_text ds (apply_updates to_text us ms))"

definition add_fresh ::
  "string \<Rightarrow> json_object \<Rightarrow> string \<Rightarrow> metadata_map \<times> nat \<Rightarrow> metadata_map \<times> nat" where
  "add_fresh kb mf doc mn =
     (if mf = [] then mn
      else (hput doc \<lparr>dm_doc_id = doc, dm_kb_id = kb, dm_fields = mf\<rparr> (fst mn), snd mn + 1))"

definition batch_update_step ::
  "(json \<Rightarrow> string) \<Rightarrow> string \<Rightarrow> string list \<Rightarrow> metadata_update list \<Rightarrow> metadata_delete list \<Rightarrow>
   metadata_map \<Rightarrow> metadata_map \<times> (nat \<times> bool) res" where
  "batch_update_step to_text kb docs us ds m =
     (let upd = updated_fields to_text us ds;
          found = (\<lambda>r. dm_kb_id r = kb \<and> dm_doc_id r \<in> set docs);
          changed = filter (\<lambda>r. found r \<and> \<not> object_eq (upd (dm_fields r)) (dm_fields r)) (hvalues m);
          emptied = map dm_doc_id (filter (\<lambda>r. upd (dm_fields r) = []) changed);
          seen = map dm_doc_id (filter found (hvalues m));
          m = map (\<lambda>(k, r). (k, if found r then r\<lparr>dm_fields := upd (dm_fields r)\<rparr> else r)) m;
          m = fold hdel emptied m;
          fresh = filter (\<lambda>doc. doc \<notin> set seen) (remdups docs)
      in case fold (add_fresh kb (upd [])) fresh (m, length changed) of
           (m, n) \<Rightarrow> (m, Ok (n, 0 < n)))"

definition batch_update ::
  "write_env option \<Rightarrow> (json \<Rightarrow> string) \<Rightarrow> string \<Rightarrow> string list \<Rightarrow> metadata_update list \<Rightarrow>
   metadata_delete list \<Rightarrow> metadata_store \<Rightarrow> metadata_store \<times> nat res" where
  "batch_update e to_text kb docs us ds st =
     (if docs = [] then (st, Ok 0) else meta_mutate e (batch_update_step to_text kb docs us ds) st)"

section \<open>The batch as a function of each document\<close>

text \<open>What the batch leaves for one document, given the record it had.\<close>

definition batch_one ::
  "(json \<Rightarrow> string) \<Rightarrow> string \<Rightarrow> metadata_update list \<Rightarrow> metadata_delete list \<Rightarrow> string \<Rightarrow>
   doc_metadata option \<Rightarrow> doc_metadata option" where
  "batch_one to_text kb us ds doc old =
     (case old of
        Some r \<Rightarrow>
          if dm_kb_id r = kb
          then (let new = updated_fields to_text us ds (dm_fields r)
                in if new = [] \<and> dm_fields r \<noteq> [] then None else Some (r\<lparr>dm_fields := new\<rparr>))
          else if updated_fields to_text us ds [] = [] then old
          else Some \<lparr>dm_doc_id = doc, dm_kb_id = kb, dm_fields = updated_fields to_text us ds []\<rparr>
      | None \<Rightarrow>
          if updated_fields to_text us ds [] = [] then None
          else Some \<lparr>dm_doc_id = doc, dm_kb_id = kb, dm_fields = updated_fields to_text us ds []\<rparr>)"

definition counts_as_update ::
  "(json \<Rightarrow> string) \<Rightarrow> string \<Rightarrow> metadata_update list \<Rightarrow> metadata_delete list \<Rightarrow>
   doc_metadata option \<Rightarrow> bool" where
  "counts_as_update to_text kb us ds old =
     (let fresh = (updated_fields to_text us ds [] \<noteq> [])
      in case old of
        Some r \<Rightarrow> if dm_kb_id r = kb then \<not> object_eq (updated_fields to_text us ds (dm_fields r)) (dm_fields r)
                  else fresh
      | None \<Rightarrow> fresh)"

lemma hget_fold_hdel: "hget (fold hdel ks m) k = (if k \<in> set ks then None else hget m k)"
  by (induction ks arbitrary: m) auto

lemma fold_add_fresh:
  "fold (add_fresh kb new) docs (m, n) = (m', n') \<Longrightarrow>
     hget m' doc = (if doc \<in> set docs \<and> new \<noteq> []
                    then Some \<lparr>dm_doc_id = doc, dm_kb_id = kb, dm_fields = new\<rparr> else hget m doc)
     \<and> n' = n + (if new = [] then 0 else length docs)"
proof (cases "new = []")
  case True
  then have "fold (add_fresh kb new) docs (m, n) = (m, n)"
    by (induction docs) (simp_all add: add_fresh_def)
  with True show "fold (add_fresh kb new) docs (m, n) = (m', n') \<Longrightarrow> ?thesis" by simp
next
  case False
  then show "fold (add_fresh kb new) docs (m, n) = (m', n') \<Longrightarrow> ?thesis"
  proof (induction docs arbitrary: m n)
    case (Cons d docs)
    let ?r = "\<lparr>dm_doc_id = d, dm_kb_id = kb, dm_fields = new\<rparr>"
    from Cons.prems have "fold (add_fresh kb new) docs (hput d ?r m, n + 1) = (m', n')"
      by (simp add: add_fresh_def [of kb new d])
    from Cons.IH [OF this] False show ?case by auto
  qed simp
qed

lemma object_eq_Nil [simp]: "object_eq [] ms \<longleftrightarrow> ms = []"
  by (auto simp: object_eq_def)

lemma hget_map_values: "hget (map (\<lambda>(k, r). (k, f r)) m) k = map_option f (hget m k)"
  by (induction m) auto

lemma keyed_image:
  assumes "keyed key m"
  shows "k \<in> set (map key (filter P (hvalues m))) \<longleftrightarrow> (\<exists>r. hget m k = Some r \<and> P r)"
proof -
  have "r \<in> set (hvalues m) \<and> key r = k \<longleftrightarrow> hget m k = Some r" for r
    using keyed_values [OF assms, of r] keyed_getD [OF assms, of k r] by blast
  then have eq: "r \<in> set (hvalues m) \<and> key r = k \<longleftrightarrow> hget m k = Some r" for r .
  have "k \<in> set (map key (filter P (hvalues m))) \<longleftrightarrow> (\<exists>r. r \<in> set (hvalues m) \<and> P r \<and> key r = k)"
    by (simp only: set_map [of key] set_filter) blast
  then show ?thesis using eq by metis
qed

lemma batch_lookup:
  assumes m: "keyed dm_doc_id m" and run: "batch_update_step to_text kb docs us ds m = (m', Ok (n, b))"
  shows "hget m' doc =
    (if doc \<in> set docs then batch_one to_text kb us ds doc (hget m doc) else hget m doc)"
proof -
  let ?upd = "updated_fields to_text us ds"
  let ?found = "\<lambda>r. dm_kb_id r = kb \<and> dm_doc_id r \<in> set docs"
  let ?changed = "filter (\<lambda>r. ?found r \<and> \<not> object_eq (?upd (dm_fields r)) (dm_fields r)) (hvalues m)"
  let ?emptied = "map dm_doc_id (filter (\<lambda>r. ?upd (dm_fields r) = []) ?changed)"
  let ?seen = "map dm_doc_id (filter ?found (hvalues m))"
  let ?m = "map (\<lambda>(k, r). (k, if ?found r then r\<lparr>dm_fields := ?upd (dm_fields r)\<rparr> else r)) m"
  obtain n' where fold: "fold (add_fresh kb (?upd [])) (filter (\<lambda>doc. doc \<notin> set ?seen) (remdups docs))
      (fold hdel ?emptied ?m, length ?changed) = (m', n')"
    using run by (auto simp: batch_update_step_def Let_def split: prod.splits)
  have emptied: "doc \<in> set ?emptied \<longleftrightarrow>
      (\<exists>r. hget m doc = Some r \<and> ?found r \<and> ?upd (dm_fields r) = [] \<and> dm_fields r \<noteq> [])"
    unfolding filter_filter keyed_image [OF m] by auto
  have seen: "doc \<in> set ?seen \<longleftrightarrow> (\<exists>r. hget m doc = Some r \<and> ?found r)"
    by (rule keyed_image [OF m])
  have id: "hget m doc = Some r \<Longrightarrow> dm_doc_id r = doc" for r
    by (rule keyed_getD [OF m])
  have result: "hget m' doc =
      (if (doc \<in> set docs \<and> doc \<notin> set ?seen) \<and> ?upd [] \<noteq> []
       then Some \<lparr>dm_doc_id = doc, dm_kb_id = kb, dm_fields = ?upd []\<rparr>
       else if doc \<in> set ?emptied then None
       else map_option (\<lambda>r. if ?found r then r\<lparr>dm_fields := ?upd (dm_fields r)\<rparr> else r) (hget m doc))"
    using fold_add_fresh [OF fold, of doc]
    by (simp only: hget_fold_hdel hget_map_values set_filter set_remdups mem_Collect_eq)
  show ?thesis
  proof (cases "hget m doc")
    case None
    then show ?thesis unfolding result emptied seen by (simp add: batch_one_def)
  next
    case (Some r)
    with id have "dm_doc_id r = doc" by simp
    with Some show ?thesis
      unfolding result emptied seen by (auto simp: batch_one_def Let_def)
  qed
qed

lemma batch_count:
  assumes m: "keyed dm_doc_id m" and run: "batch_update_step to_text kb docs us ds m = (m', Ok (n, b))"
  shows "n = card {doc \<in> set docs. counts_as_update to_text kb us ds (hget m doc)} \<and> b = (0 < n)"
proof -
  let ?upd = "updated_fields to_text us ds"
  let ?found = "\<lambda>r. dm_kb_id r = kb \<and> dm_doc_id r \<in> set docs"
  let ?P = "\<lambda>r. ?found r \<and> \<not> object_eq (?upd (dm_fields r)) (dm_fields r)"
  let ?changed = "filter ?P (hvalues m)"
  let ?seen = "map dm_doc_id (filter ?found (hvalues m))"
  let ?fresh = "filter (\<lambda>doc. doc \<notin> set ?seen) (remdups docs)"
  obtain m0 where "fold (add_fresh kb (?upd [])) ?fresh (m0, length ?changed) = (m', n)"
    and b: "b = (0 < n)"
    using run by (auto simp: batch_update_step_def Let_def split: prod.splits)
  from fold_add_fresh [OF this(1)]
  have n: "n = length ?changed + (if ?upd [] = [] then 0 else length ?fresh)" by blast
  have seen: "doc \<in> set ?seen \<longleftrightarrow> (\<exists>r. hget m doc = Some r \<and> ?found r)" for doc
    by (rule keyed_image [OF m])
  have ids: "hget m doc = Some r \<Longrightarrow> dm_doc_id r = doc" for doc r
    by (rule keyed_getD [OF m])
  have "length ?changed = card (set (map dm_doc_id ?changed))"
    using keyed_distinct_key [OF m] by (subst distinct_card) (simp_all add: distinct_map_filter)
  also have "set (map dm_doc_id ?changed) = {doc. \<exists>r. hget m doc = Some r \<and> ?P r}"
    using keyed_image [OF m, of _ ?P] by blast
  finally have changed: "length ?changed = card {doc. \<exists>r. hget m doc = Some r \<and> ?P r}" .
  have "length ?fresh = card (set ?fresh)"
    by (subst distinct_card) simp_all
  also have "set ?fresh = {doc \<in> set docs. \<not> (\<exists>r. hget m doc = Some r \<and> ?found r)}"
    using seen by auto
  finally have fresh: "length ?fresh = card {doc \<in> set docs. \<not> (\<exists>r. hget m doc = Some r \<and> ?found r)}" .
  let ?A = "{doc. \<exists>r. hget m doc = Some r \<and> ?P r}"
  let ?B = "{doc \<in> set docs. ?upd [] \<noteq> [] \<and> \<not> (\<exists>r. hget m doc = Some r \<and> ?found r)}"
  have "?A \<subseteq> set docs" using ids by auto
  then have "finite ?A" by (rule finite_subset) simp
  moreover have "?A \<inter> ?B = {}" by auto
  moreover have "finite ?B" by simp
  ultimately have "card (?A \<union> ?B) = card ?A + card ?B" by (intro card_Un_disjoint)
  moreover have "{doc \<in> set docs. counts_as_update to_text kb us ds (hget m doc)} = ?A \<union> ?B"
    using ids by (auto simp: counts_as_update_def Let_def split: option.splits if_splits)
  moreover have "card ?B = (if ?upd [] = [] then 0 else length ?fresh)"
    using fresh by auto
  ultimately show ?thesis using n changed b by simp
qed

text \<open>
  C39. A batch acts on each requested document on its own: its fields become the normal form of the
  updates followed by the deletions, a record left without fields disappears, a document
  without a record gets one if there is anything to store, and no other document changes. The
  answer is the number of documents whose metadata changed.
\<close>

theorem batch_update_per_document:
  assumes "keyed dm_doc_id m" and "batch_update_step to_text kb docs us ds m = (m', Ok (n, b))"
  shows "(\<forall>doc. hget m' doc =
      (if doc \<in> set docs then batch_one to_text kb us ds doc (hget m doc) else hget m doc)) \<and>
    n = card {doc \<in> set docs. counts_as_update to_text kb us ds (hget m doc)} \<and> b = (0 < n)"
  using batch_lookup [OF assms] batch_count [OF assms] by blast

definition demo_update :: metadata_update where
  "demo_update = \<lparr>mu_key = ''author'', mu_value = JStr ''Ada'', mu_match = None\<rparr>"

theorem batch_update_per_document_witness:
  "hget (fst (batch_update_step (\<lambda>_. []) ''kb'' [''a'', ''a''] [demo_update] [] [])) ''a'' =
     Some \<lparr>dm_doc_id = ''a'', dm_kb_id = ''kb'', dm_fields = [(''author'', JStr ''Ada'')]\<rparr>"
proof -
  have "batch_update_step (\<lambda>_. []) ''kb'' [''a'', ''a''] [demo_update] [] [] =
     (fst (batch_update_step (\<lambda>_. []) ''kb'' [''a'', ''a''] [demo_update] [] []), Ok (1, True))"
    by code_simp
  from batch_update_per_document [OF keyed_Nil this]
  have "hget (fst (batch_update_step (\<lambda>_. []) ''kb'' [''a'', ''a''] [demo_update] [] [])) ''a'' =
     batch_one (\<lambda>_. []) ''kb'' [demo_update] [] ''a'' None" by simp
  also have "\<dots> = Some \<lparr>dm_doc_id = ''a'', dm_kb_id = ''kb'', dm_fields = [(''author'', JStr ''Ada'')]\<rparr>"
    by code_simp
  finally show ?thesis .
qed

section \<open>The normal form is stable\<close>

definition free_of :: "string list \<Rightarrow> string \<Rightarrow> bool" where
  "free_of seps s \<longleftrightarrow> (\<forall>p \<in> set seps. p \<noteq> [] \<longrightarrow> \<not> sublist p s)"

lemma free_of_Nil [simp]: "free_of seps []"
  by (simp add: free_of_def)

lemma free_of_Cons:
  "free_of seps (c # s) \<longleftrightarrow> find (\<lambda>p. p \<noteq> [] \<and> prefix p (c # s)) seps = None \<and> free_of seps s"
  by (auto simp: free_of_def sublist_Cons_right find_None_iff)

lemma free_of_sublist: "free_of seps s \<Longrightarrow> sublist t s \<Longrightarrow> free_of seps t"
  unfolding free_of_def using sublist_order.order.trans by blast

lemma split_any_pieces:
  "\<exists>p ps. split_any seps acc s = (rev acc @ p) # ps \<and> prefix p s \<and> free_of seps p \<and>
     (\<forall>q \<in> set ps. free_of seps q)"
proof (induction seps acc s rule: split_any.induct)
  case (1 seps acc s)
  show ?case
  proof (cases s)
    case Nil
    then show ?thesis by (simp add: split_any.simps)
  next
    case (Cons c cs)
    show ?thesis
    proof (cases "find (\<lambda>p. p \<noteq> [] \<and> prefix p s) seps")
      case None
      from 1(1) [OF Cons None] obtain p ps where
        ih: "split_any seps (c # acc) cs = (rev (c # acc) @ p) # ps" "prefix p cs" "free_of seps p"
          "\<forall>q \<in> set ps. free_of seps q" by blast
      have "\<not> (x \<noteq> [] \<and> prefix x (c # p))" if "x \<in> set seps" for x
      proof -
        have "prefix (c # p) s" using ih(2) Cons by simp
        with that None show ?thesis unfolding find_None_iff by (blast intro: prefix_order.trans)
      qed
      with ih(3) have "free_of seps (c # p)" by (auto simp: free_of_Cons find_None_iff)
      moreover have "split_any seps acc s = (rev acc @ (c # p)) # ps"
        using ih(1) None Cons by (simp add: split_any.simps [of seps acc "c # cs"])
      ultimately show ?thesis using ih(2,4) Cons by (intro exI [of _ "c # p"]) simp
    next
      case (Some x)
      from 1(2) [OF Cons Some] obtain p ps where
        ih: "split_any seps [] (drop (length x) s) = p # ps" "free_of seps p" "\<forall>q \<in> set ps. free_of seps q"
        by auto
      then show ?thesis
        using Some Cons by (simp add: split_any.simps [of seps acc "c # cs"])
    qed
  qed
qed

lemma split_any_free: "free_of seps s \<Longrightarrow> split_any seps acc s = [rev acc @ s]"
proof (induction s arbitrary: acc)
  case (Cons c cs)
  then have "find (\<lambda>p. p \<noteq> [] \<and> prefix p (c # cs)) seps = None" and "free_of seps cs"
    by (simp_all add: free_of_Cons)
  then show ?case
    using Cons.IH [of "c # acc"] by (simp add: split_any.simps [of seps acc "c # cs"])
qed (simp add: split_any.simps)

lemma sublist_trim: "sublist (trim s) s"
  using suffix_imp_sublist [OF trim_start_suffix] prefix_imp_sublist [OF trim_end_prefix]
    sublist_order.order.trans unfolding trim_def by blast

lemma split_values_stable:
  assumes "p \<in> set (split_values s)"
  shows "split_values p = [p]"
proof -
  from assms obtain q where q: "q \<in> set (split_any value_separators [] s)" "p = trim q" "p \<noteq> []"
    by (auto simp: split_values_def)
  with split_any_pieces [of value_separators "[]" s] have "free_of value_separators q" by auto
  with q have "free_of value_separators p" using free_of_sublist [OF _ sublist_trim] by blast
  with q show ?thesis by (simp add: split_values_def split_any_free)
qed

text \<open>A value, and an item of a list, that normalisation leaves alone.\<close>

definition item_stable :: "(json \<Rightarrow> string) \<Rightarrow> json \<Rightarrow> bool" where
  "item_stable to_text v \<longleftrightarrow>
     (case v of JStr s \<Rightarrow> split_values s = [] \<or> split_values s = [s] | _ \<Rightarrow> normalize_value to_text v = v)"

definition members_stable :: "(json \<Rightarrow> string) \<Rightarrow> json_object \<Rightarrow> bool" where
  "members_stable to_text ms \<longleftrightarrow> distinct (map fst ms) \<and>
     (\<forall>(k, v) \<in> set ms. k \<noteq> [] \<and> trim k = k \<and> normalize_value to_text v = v)"

lemma dedupe_subset: "set (dedupe to_text seen vs) \<subseteq> set vs"
  by (induction vs arbitrary: seen) auto

lemma dedupe_distinct: "distinct (map to_text (dedupe to_text seen vs)) \<and>
    set (map to_text (dedupe to_text seen vs)) \<inter> set seen = {}"
proof (induction vs arbitrary: seen)
  case (Cons v vs)
  from Cons.IH [of seen] Cons.IH [of "to_text v # seen"] show ?case by auto
qed simp

lemma dedupe_id: "distinct (map to_text vs) \<Longrightarrow> set (map to_text vs) \<inter> set seen = {} \<Longrightarrow>
    dedupe to_text seen vs = vs"
  by (induction vs arbitrary: seen) auto

lemma normalize_items_stable: "\<forall>v \<in> set vs. item_stable to_text v \<Longrightarrow> normalize_items to_text vs = vs"
  by (induction vs) (auto simp: item_stable_def split: json.splits)

lemma members_stable_hput:
  assumes "members_stable to_text ms" and "k \<noteq> []" and "trim k = k" and "normalize_value to_text v = v"
  shows "members_stable to_text (hput k v ms)"
  using assms set_AList_update [of k v ms] by (auto simp: members_stable_def distinct_update)

lemma normalize_members_stable:
  assumes "members_stable to_text (acc @ ms)"
  shows "normalize_members to_text ms acc = acc @ ms"
  using assms
proof (induction ms arbitrary: acc)
  case (Cons kv ms)
  obtain k v where kv: "kv = (k, v)" by (cases kv)
  with Cons.prems have k: "trim k = k" "k \<noteq> []" "normalize_value to_text v = v" "k \<notin> fst ` set acc"
    by (auto simp: members_stable_def)
  then have "hput k v acc = acc @ [(k, v)]" by (intro hput_new)
  with k kv Cons.IH [of "acc @ [kv]"] Cons.prems show ?case by simp
qed simp

lemma normalize_stable:
  "normalize_value to_text (normalize_value to_text v) = normalize_value to_text v"
  "\<forall>w \<in> set (normalize_items to_text vs). item_stable to_text w"
  "members_stable to_text acc \<Longrightarrow> members_stable to_text (normalize_members to_text ms acc)"
proof (induction to_text v and to_text vs and to_text ms acc
    rule: normalize_value_normalize_items_normalize_members.induct)
  case (1 to_text vs)
  let ?ws = "dedupe_values to_text (normalize_items to_text vs)"
  have "normalize_items to_text ?ws = ?ws"
    using 1 dedupe_subset [of to_text "[]" "normalize_items to_text vs"]
    by (intro normalize_items_stable) (auto simp: dedupe_values_def)
  moreover have "dedupe_values to_text ?ws = ?ws"
    using dedupe_distinct [of to_text "[]"] by (simp add: dedupe_values_def dedupe_id)
  ultimately show ?case by simp
next
  case (2 to_text ms)
  have "members_stable to_text []" by (simp add: members_stable_def)
  from 2 [OF this] normalize_members_stable [of to_text "[]"] show ?case by simp
next
  case (5 to_text v vs)
  have "\<forall>w \<in> set (map JStr (split_values s)). item_stable to_text w" for s
    using split_values_stable [of _ s] by (auto simp: item_stable_def)
  then show ?case
    using 5 by (cases v) (auto simp: item_stable_def)
qed (auto simp: members_stable_hput)

text \<open>
  Normalising metadata is idempotent: what the store keeps is in normal form, and storing what
  was read back changes nothing, down to the order of the members.
\<close>

theorem normalize_metadata_idempotent:
  "normalize_metadata to_text (normalize_metadata to_text ms) = normalize_metadata to_text ms"
proof -
  have "members_stable to_text (normalize_members to_text ms [])"
    by (rule normalize_stable(3)) (simp add: members_stable_def)
  then show ?thesis
    using normalize_members_stable [of to_text "[]"] by (simp add: normalize_metadata_def)
qed

section \<open>The operations of the store\<close>

lemma metadata_records_no_panic: "validate_metadata_records ids rs \<noteq> Panic"
  by (induction rs arbitrary: ids) (auto simp: validate_identity_def)

lemma guarded_checked:
  assumes "guarded_op (keyed dm_doc_id) mutation"
  shows "guarded_op (keyed dm_doc_id) (meta_checked mutation)"
proof
  note op = guarded_op.on_err [OF assms] guarded_op.on_unchanged [OF assms]
    guarded_op.on_changed [OF assms] guarded_op.on_no_panic [OF assms]
  fix m m' :: metadata_map and err v
  assume m: "keyed dm_doc_id m"
  show "m' = m" if "meta_checked mutation m = (m', Err err)"
    using that op(1) [OF m] by (auto simp: meta_checked_def split: prod.splits res.splits bool.splits)
  show "m' = m" if "meta_checked mutation m = (m', Ok (v, False))"
    using that op(2) [OF m] by (auto simp: meta_checked_def split: prod.splits res.splits bool.splits)
  show "keyed dm_doc_id m'" if "meta_checked mutation m = (m', Ok (v, True))"
    using that op(3) [OF m] by (auto simp: meta_checked_def split: prod.splits res.splits bool.splits)
  show "meta_checked mutation m \<noteq> (m', Panic)"
    using op(4) [OF m] by (auto simp: meta_checked_def metadata_records_no_panic split: prod.splits res.splits bool.splits)
qed

interpretation mt_replace: guarded_op "keyed dm_doc_id" "meta_replace_step doc kb mf" for doc kb mf
  by unfold_locales (auto simp: meta_replace_step_def intro: keyed_hput)

interpretation mt_delete: guarded_op "keyed dm_doc_id" "meta_delete_step doc kb" for doc kb
  by unfold_locales (auto simp: meta_delete_step_def Let_def intro: keyed_hdel split: if_splits)

text \<open>A failed call, of whatever cause, leaves the records as they were.\<close>

lemma meta_mutate_err:
  assumes "guarded_op (keyed dm_doc_id) mutation" and "meta_mutate e mutation st = (st', Err err)"
    and "keyed dm_doc_id (st_mem st)"
  shows "st_mem st' = st_mem st"
proof (cases e)
  case None
  with assms show ?thesis by (auto simp: meta_mutate_def intro: guarded_op.store_err)
next
  case (Some w)
  with assms guarded_checked [OF assms(1)] show ?thesis
    by (auto simp: meta_mutate_def intro: guarded_op.store_err)
qed

end
