(* ===== verification/Document_Commit.thy ===== *)
theory Document_Commit
  imports Graph_Store Kb_Registry Doc_Registry Doc_Metadata Task_Queue_Spec
begin

text \<open>
  The commits that keep the stores of a document together (\<open>commit_indexed_document\<close> and
  \<open>delete_document_data\<close> of \<^verbatim>\<open>server.rs\<close>, \<open>reset_document_for_reparse\<close> of \<^verbatim>\<open>api/document.rs\<close>):
  the chunk index, the graphs, the counters of the knowledge base, the document's record, its
  metadata and its tasks, each with its own file. There is no common transaction: a step that
  fails is answered by undoing the earlier ones.

  A commit holds the commit lock. What does not take that lock can act on the document and
  task records meanwhile; the parameter \<open>w\<close> is what it does before the record is marked.
\<close>

section \<open>State\<close>

record ('m, 'j) corpus =
  co_index :: "'m chunk_index"
  co_graphs :: graph_store
  co_kbs :: "'j kb_store"
  co_docs :: "'j doc_store"
  co_meta :: metadata_store
  co_tasks :: task_queue

text \<open>One environment for each write and one reading of the clock for each use of it.\<close>

record commit_env =
  cm_now :: u64
  cm_index :: write_env
  cm_graphs :: "write_env option"
  cm_kbs :: write_env
  cm_kbs_now :: u64
  cm_meta :: "write_env option"
  cm_docs :: write_env
  cm_docs_now :: u64
  cm_tasks :: "write_env option"
  cm_tasks_now :: u64
  cm_meta_back :: "write_env option"
  cm_graphs_back :: "write_env option"
  cm_kbs_back :: write_env
  cm_kbs_back_now :: u64
  cm_index_back :: write_env

definition kb_lookup :: "string \<Rightarrow> 'j kb_store \<Rightarrow> 'j kbase option res" where
  "kb_lookup i st = tx_read (\<lambda>kbs. hget kbs i) st"

text \<open>A read of a store: a poisoned lock panics.\<close>

definition on_read :: "'a res \<Rightarrow> 's \<Rightarrow> ('a \<Rightarrow> 's \<times> 'b res) \<Rightarrow> 's \<times> 'b res" where
  "on_read r s k = (case r of Ok v \<Rightarrow> k v | Err e \<Rightarrow> (s, Err e) | Panic \<Rightarrow> (s, Panic))"

section \<open>Undoing\<close>

definition restore_document_index ::
    "'m mirror_ops \<Rightarrow> write_env \<Rightarrow> string \<Rightarrow> string \<Rightarrow> indexed_chunk list \<Rightarrow>
     ('m, 'j) corpus \<Rightarrow> ('m, 'j) corpus" where
  "restore_document_index mo e doc kb previous s =
     s\<lparr>co_index := rollback_document_index mo e doc kb previous (co_index s)\<rparr>"

definition undo_graphs ::
    "write_env option \<Rightarrow> graph_artifacts \<Rightarrow> ('m, 'j) corpus \<Rightarrow> ('m, 'j) corpus" where
  "undo_graphs e previous s = s\<lparr>co_graphs := fst (replace_snapshot e previous (co_graphs s))\<rparr>"

definition undo_counts ::
    "write_env \<Rightarrow> u64 \<Rightarrow> string \<Rightarrow> u64 \<Rightarrow> u64 \<Rightarrow> ('m, 'j) corpus \<Rightarrow> ('m, 'j) corpus" where
  "undo_counts e now kb chunks documents s =
     s\<lparr>co_kbs := fst (update_counts e now kb chunks documents (co_kbs s))\<rparr>"

section \<open>Committing a document\<close>

text \<open>The index: the new chunks replace the old ones in memory, then the change is persisted.\<close>

definition replace_in_index ::
    "'m mirror_ops \<Rightarrow> (string \<Rightarrow> json option) \<Rightarrow> write_env \<Rightarrow> string \<Rightarrow> string \<Rightarrow>
     indexed_chunk list \<Rightarrow> ('m, 'j) corpus \<Rightarrow> ('m, 'j) corpus \<times> unit res" where
  "replace_in_index mo parse e doc kb indexed s =
     (let ix = co_index s;
          previous = chunks_for_document doc (ix_engine ix);
          ix = ix\<lparr>ix_engine := replace_document doc indexed (ix_engine ix)\<rparr>;
          cur = chunks_for_document doc (ix_engine ix)
      in case persist_document_change mo parse e doc kb previous cur ix of
           (ix, r) \<Rightarrow> (s\<lparr>co_index := ix\<rparr>, r))"

text \<open>The record: \<open>mark_indexed\<close>, and everything undone when it fails or the record is gone.\<close>

definition commit_record ::
    "'m mirror_ops \<Rightarrow> commit_env \<Rightarrow> 'j doc_record \<Rightarrow> u64 \<Rightarrow> u64 \<Rightarrow> string \<Rightarrow>
     indexed_chunk list \<Rightarrow> graph_artifacts \<Rightarrow> ('m, 'j) corpus \<Rightarrow> ('m, 'j) corpus \<times> unit res" where
  "commit_record mo e doc new_count delta msg previous graphs s =
     (let undo = (\<lambda>s. restore_document_index mo (cm_index_back e) (dc_id doc) (dc_kb_id doc) previous
                   (undo_counts (cm_kbs_back e) (cm_kbs_back_now e) (dc_kb_id doc) (- delta) 0
                     (undo_graphs (cm_graphs_back e) graphs s)))
      in case mark_indexed (cm_docs e) (cm_docs_now e) (dc_id doc) (dc_content_hash doc) new_count msg
                (co_docs s) of
           (d, Ok True) \<Rightarrow> (s\<lparr>co_docs := d\<rparr>, Ok ())
         | (d, Ok False) \<Rightarrow>
             (undo (s\<lparr>co_docs := d\<rparr>), Err ''Document metadata disappeared during index commit'')
         | (d, Err err) \<Rightarrow> (undo (s\<lparr>co_docs := d\<rparr>), Err ''Failed to mark document as indexed'')
         | (d, Panic) \<Rightarrow> (s\<lparr>co_docs := d\<rparr>, Panic))"

definition commit_counts ::
    "'m mirror_ops \<Rightarrow> commit_env \<Rightarrow> (('m, 'j) corpus \<Rightarrow> ('m, 'j) corpus) \<Rightarrow> 'j doc_record \<Rightarrow>
     u64 \<Rightarrow> u64 \<Rightarrow> string \<Rightarrow> indexed_chunk list \<Rightarrow> graph_artifacts \<Rightarrow> ('m, 'j) corpus \<Rightarrow>
     ('m, 'j) corpus \<times> unit res" where
  "commit_counts mo e w doc new_count delta msg previous graphs s =
     (case update_counts (cm_kbs e) (cm_kbs_now e) (dc_kb_id doc) delta 0 (co_kbs s) of
        (k, Ok u) \<Rightarrow> commit_record mo e doc new_count delta msg previous graphs (w (s\<lparr>co_kbs := k\<rparr>))
      | (k, Err err) \<Rightarrow>
          (restore_document_index mo (cm_index_back e) (dc_id doc) (dc_kb_id doc) previous
             (undo_graphs (cm_graphs_back e) graphs (s\<lparr>co_kbs := k\<rparr>)),
           Err ''Failed to update KB counts after index commit'')
      | (k, Panic) \<Rightarrow> (s\<lparr>co_kbs := k\<rparr>, Panic))"

definition commit_stores ::
    "'m mirror_ops \<Rightarrow> (string \<Rightarrow> json option) \<Rightarrow> commit_env \<Rightarrow> (('m, 'j) corpus \<Rightarrow> ('m, 'j) corpus) \<Rightarrow>
     'j doc_record \<Rightarrow> u64 \<Rightarrow> indexed_chunk list \<Rightarrow> graph_checkpoint option \<Rightarrow> string \<Rightarrow>
     ('m, 'j) corpus \<Rightarrow> ('m, 'j) corpus \<times> unit res" where
  "commit_stores mo parse e w doc old_count indexed checkpoint msg s =
     (let new_count = of_nat (length indexed);
          delta = new_count - old_count;
          graphs = gs_artifacts (co_graphs s);
          previous = chunks_for_document (dc_id doc) (ix_engine (co_index s))
      in case replace_in_index mo parse (cm_index e) (dc_id doc) (dc_kb_id doc) indexed s of
           (s, Ok u) \<Rightarrow>
             (case replace_document_graph (cm_graphs e) (dc_id doc) checkpoint (co_graphs s) of
                (g, Ok u) \<Rightarrow>
                  commit_counts mo e w doc new_count delta msg previous graphs (s\<lparr>co_graphs := g\<rparr>)
              | (g, Err err) \<Rightarrow>
                  (restore_document_index mo (cm_index_back e) (dc_id doc) (dc_kb_id doc) previous
                     (s\<lparr>co_graphs := g\<rparr>),
                   Err ''Failed to update GraphRAG artifacts after index commit'')
              | (g, Panic) \<Rightarrow> (s\<lparr>co_graphs := g\<rparr>, Panic))
         | (s, r) \<Rightarrow> (s, r))"

definition commit_indexed_document ::
    "'m mirror_ops \<Rightarrow> (string \<Rightarrow> json option) \<Rightarrow> commit_env \<Rightarrow> (('m, 'j) corpus \<Rightarrow> ('m, 'j) corpus) \<Rightarrow>
     'j doc_record \<Rightarrow> string \<Rightarrow> string \<Rightarrow> indexed_chunk list \<Rightarrow> graph_checkpoint option \<Rightarrow> string \<Rightarrow>
     ('m, 'j) corpus \<Rightarrow> ('m, 'j) corpus \<times> unit res" where
  "commit_indexed_document mo parse e w doc task token indexed checkpoint msg s =
     on_read (tq_is_cancelled task (co_tasks s)) s (\<lambda>cancelled.
     on_read (tq_owns_lease (cm_now e) task token (co_tasks s)) s (\<lambda>owns.
     if cancelled \<or> \<not> owns then (s, Err ''Task lease lost before index commit'')
     else on_read (doc_get (dc_id doc) (co_docs s)) s (\<lambda>found.
       case found of
         None \<Rightarrow> (s, Err ''Document metadata was deleted before index commit'')
       | Some cur \<Rightarrow>
           if dc_kb_id cur \<noteq> dc_kb_id doc
           then (s, Err ''Knowledge base not found before index commit'')
           else on_read (kb_lookup (dc_kb_id doc) (co_kbs s)) s (\<lambda>kb.
             if kb = None then (s, Err ''Knowledge base not found before index commit'')
             else commit_stores mo parse e w doc (dc_chunk_count cur) indexed checkpoint msg s))))"

section \<open>What each step can do\<close>

text \<open>An environment in which a write goes through.\<close>

definition write_succeeds :: "write_env \<Rightarrow> bool" where
  "write_succeeds e \<longleftrightarrow> we_read e \<and> we_mirror e \<noteq> Some False \<and>
     fs_mkdir (we_local e) \<and> fs_open (we_local e) \<and> fs_write (we_local e) \<and> fs_rename (we_local e) \<and>
     (fs_no_fsync (we_local e) \<or> fs_sync (we_local e) \<and> fs_sync_parent (we_local e))"

lemma write_succeedsE:
  assumes "write_succeeds e"
  obtains d' where "atomic_write_with_mirror e data d = (d', Ok ())" and "dk_file d' = Some data"
proof (cases "we_mirror e")
  case None
  with assms that show ?thesis
    by (auto simp: write_succeeds_def atomic_write_with_mirror_def atomic_write_local_def Let_def)
next
  case (Some b)
  with assms that show ?thesis
    by (cases b) (auto simp: write_succeeds_def atomic_write_with_mirror_def atomic_write_local_def Let_def)
qed

lemma write_succeeds_we_all_ok [simp]: "write_succeeds we_all_ok"
  by (simp add: write_succeeds_def we_all_ok_def fs_all_ok_def)

definition persist_succeeds :: "write_env option \<Rightarrow> bool" where
  "persist_succeeds e = (case e of None \<Rightarrow> True | Some w \<Rightarrow> write_succeeds w)"

lemma update_counts_cases:
  assumes "update_counts e now i dc dd st = (st', r)"
  obtains "r = Ok ()" "st_mem st' = fst (counts_step now i dc dd (st_mem st))"
    | err where "r = Err err" "st_mem st' = st_mem st"
    | "r = Panic"
proof -
  have step: "counts_step now i dc dd m = (fst (counts_step now i dc dd m), Ok ((), b))
      \<or> counts_step now i dc dd m = (fst (counts_step now i dc dd m), Ok ((), \<not> b))" for m b
    by (cases b) (auto simp: counts_step_def split: option.splits)
  have "tx_mutate_if_changed hvalues (Some e) (counts_step now i dc dd) st = (st', r)"
    using assms by (simp add: update_counts_def kb_mutate_if_changed_def)
  then show ?thesis
    by (cases rule: tx_mutate_cases) (use that step [of "st_mem st" True] in auto)
qed

lemma update_counts_succeeds:
  assumes "write_succeeds e" and "\<not> st_poisoned st"
  shows "update_counts e now i dc dd st = (fst (update_counts e now i dc dd st), Ok ())"
proof -
  obtain st' r where run: "update_counts e now i dc dd st = (st', r)" by fastforce
  then have tx: "tx_mutate_if_changed hvalues (Some e) (counts_step now i dc dd) st = (st', r)"
    by (simp add: update_counts_def kb_mutate_if_changed_def)
  from tx have "r = Ok ()"
  proof (cases rule: tx_mutate_cases)
    case (Lost m v d err)
    with assms(1) show ?thesis by (auto elim: write_succeedsE [of e "hvalues m" "st_disk st"])
  qed (use assms(2) in \<open>auto simp: counts_step_def split: option.splits\<close>)
  with run show ?thesis by simp
qed

lemma with_doc_cases:
  assumes "doc_mutate_if_changed e (with_doc i f) st = (st', r)"
  obtains d where "r = Ok True" "hget (st_mem st) i = Some d"
      "st_mem st' = (if snd (f d) then hput i (fst (f d)) (st_mem st) else st_mem st)"
    | "r = Ok False" "hget (st_mem st) i = None" "st_mem st' = st_mem st"
    | err where "r = Err err" "st_mem st' = st_mem st"
    | "r = Panic"
proof -
  have "tx_mutate_if_changed hvalues (Some e) (with_doc i f) st = (st', r)"
    using assms by (simp add: doc_mutate_if_changed_def)
  then show ?thesis
    by (cases rule: tx_mutate_cases)
       (use that in \<open>auto simp: with_doc_def split: option.splits prod.splits if_splits\<close>)
qed

lemma replace_snapshot_cases:
  assumes "replace_snapshot e a gs = (gs', r)"
  obtains "r = Ok ()" "gs_artifacts gs' = a" | err where "r = Err err" "gs_artifacts gs' = gs_artifacts gs"
  using assms tx_persist_no_panic [of e a "gs_disk gs"] that
  by (auto simp: replace_snapshot_def split: prod.splits res.splits)

lemma replace_snapshot_succeeds:
  assumes "persist_succeeds e"
  shows "gs_artifacts (fst (replace_snapshot e a gs)) = a"
proof (cases e)
  case (Some w)
  with assms have "write_succeeds w" by (simp add: persist_succeeds_def)
  then obtain d' where "atomic_write_with_mirror w a (gs_disk gs) = (d', Ok ())" by (rule write_succeedsE)
  with Some show ?thesis by (simp add: replace_snapshot_def)
qed (simp add: replace_snapshot_def)

text \<open>A change of the index: refused by the validation, undone, or stored.\<close>

lemma replace_in_index_cases:
  assumes "replace_in_index mo parse e doc kb indexed s = (s', r)"
  obtains err where "r = Err err"
      "\<not> list_all (valid_chunk parse) (replace_document doc indexed (ix_engine (co_index s)))"
      "s' = s\<lparr>co_index := (co_index s)\<lparr>ix_engine := replace_document doc indexed (ix_engine (co_index s))\<rparr>\<rparr>"
    | ix err where "r = Err err"
      "list_all (valid_chunk parse) (replace_document doc indexed (ix_engine (co_index s)))"
      "s' = s\<lparr>co_index := ix\<rparr>"
      "ix_engine ix = replace_document doc (chunks_for_document doc (ix_engine (co_index s)))
         (replace_document doc indexed (ix_engine (co_index s)))"
    | ix where "r = Ok ()"
      "list_all (valid_chunk parse) (replace_document doc indexed (ix_engine (co_index s)))"
      "s' = s\<lparr>co_index := ix\<rparr>" "ix_engine ix = replace_document doc indexed (ix_engine (co_index s))"
      "dk_file (ix_disk ix) = Some (ix_engine ix)"
proof -
  let ?new = "replace_document doc indexed (ix_engine (co_index s))"
  let ?ix = "(co_index s)\<lparr>ix_engine := ?new\<rparr>"
  let ?prev = "chunks_for_document doc (ix_engine (co_index s))"
  let ?cur = "chunks_for_document doc ?new"
  obtain ix where run: "persist_document_change mo parse e doc kb ?prev ?cur ?ix = (ix, r)"
      and s': "s' = s\<lparr>co_index := ix\<rparr>"
    using assms by (auto simp: replace_in_index_def Let_def split: prod.splits)
  show ?thesis
  proof (cases rule: validate_snapshot_cases [of parse ?new])
    case (2 err)
    with run s' show ?thesis by (intro that(1) [of err]) (auto simp: persist_document_change_def)
  next
    case 1
    obtain m q where m: "mo_replace mo kb ?prev ?cur (ix_mirror (co_index s)) = (m, q)" by fastforce
    obtain d p where d: "atomic_write_with_mirror e ?new (ix_disk (co_index s)) = (d, p)" by fastforce
    then have "p \<noteq> Panic" using atomic_write_no_panic [of e ?new "ix_disk (co_index s)" d] by auto
    show ?thesis
    proof (cases "q = None \<and> p = Ok ()")
      case True
      with d have "dk_file d = Some ?new" by (auto dest: atomic_write_Ok)
      with True 1 m d run s' show ?thesis
        by (intro that(3)) (auto simp: persist_document_change_def engine_save_def Let_def)
    next
      case False
      with 1 m d run \<open>p \<noteq> Panic\<close> obtain err where "r = Err err" "ix_engine ix = replace_document doc ?prev ?new"
        by (cases q; cases p)
           (auto simp: persist_document_change_def engine_save_def Let_def mirror_quiet_def)
      with 1 s' show ?thesis by (intro that(2))
    qed
  qed
qed

lemma engine_save_engine [simp]: "ix_engine (fst (engine_save e ix)) = ix_engine ix"
  by (simp add: engine_save_def split: prod.split)

lemma rollback_engine [simp]:
  "ix_engine (rollback_document_index mo e doc kb previous ix) = replace_document doc previous (ix_engine ix)"
  by (simp add: rollback_document_index_def Let_def)

lemma restore_simps [simp]:
  "ix_engine (co_index (restore_document_index mo e doc kb previous s)) =
     replace_document doc previous (ix_engine (co_index s))"
  "co_graphs (restore_document_index mo e doc kb previous s) = co_graphs s"
  "co_kbs (restore_document_index mo e doc kb previous s) = co_kbs s"
  "co_docs (restore_document_index mo e doc kb previous s) = co_docs s"
  by (simp_all add: restore_document_index_def)

lemma undo_simps [simp]:
  "co_index (undo_graphs eg a s) = co_index s" "co_kbs (undo_graphs eg a s) = co_kbs s"
  "co_docs (undo_graphs eg a s) = co_docs s"
  "co_index (undo_counts e now kb c n s) = co_index s" "co_graphs (undo_counts e now kb c n s) = co_graphs s"
  "co_docs (undo_counts e now kb c n s) = co_docs s"
  by (simp_all add: undo_graphs_def undo_counts_def)

lemma undo_graphs_artifacts: "persist_succeeds e \<Longrightarrow> gs_artifacts (co_graphs (undo_graphs e a s)) = a"
  by (simp add: undo_graphs_def replace_snapshot_succeeds)

lemma undo_counts_mem:
  assumes "write_succeeds e" and "\<not> st_poisoned (co_kbs s)"
  shows "st_mem (co_kbs (undo_counts e now kb c n s)) = fst (counts_step now kb c n (st_mem (co_kbs s)))"
  using update_counts_succeeds [OF assms, of now kb c n]
  by (auto simp: undo_counts_def elim: update_counts_cases)

section \<open>Failures are undone\<close>

text \<open>The counters of a base.\<close>

definition counts_of :: "string \<Rightarrow> 'j kbs \<Rightarrow> (u64 \<times> u64) option" where
  "counts_of i kbs = map_option (\<lambda>kb. (kb_chunk_count kb, kb_doc_count kb)) (hget kbs i)"

lemma counts_of_step:
  "counts_of j (fst (counts_step now i dc dd kbs)) =
     (if j = i then map_option (\<lambda>(c, d). (count_after c dc, count_after d dd)) (counts_of i kbs)
      else counts_of j kbs)"
  by (auto simp: counts_of_def counts_step_def split: option.split)

text \<open>A search finds the same chunks, and graphs and counters are as before.\<close>

definition same_content :: "('m, 'j) corpus \<Rightarrow> ('m, 'j) corpus \<Rightarrow> bool" where
  "same_content s s' \<longleftrightarrow>
     mset (ix_engine (co_index s')) = mset (ix_engine (co_index s)) \<and>
     (\<forall>d. chunks_for_document d (ix_engine (co_index s')) = chunks_for_document d (ix_engine (co_index s))) \<and>
     gs_artifacts (co_graphs s') = gs_artifacts (co_graphs s) \<and>
     (\<forall>i. counts_of i (st_mem (co_kbs s')) = counts_of i (st_mem (co_kbs s)))"

text \<open>
  What others may do while a commit runs: everything but change what it undoes. The code does not enforce all
  of it: an upload raises the document counter, and the clean-up of a data set and a compiled template write
  graphs, without the commit lock. The theorems that assume \<open>commit_rely\<close> are about commits without such company.
\<close>

definition commit_rely :: "(('m, 'j) corpus \<Rightarrow> ('m, 'j) corpus) \<Rightarrow> bool" where
  "commit_rely w \<longleftrightarrow>
     (\<forall>s. co_index (w s) = co_index s \<and> co_graphs (w s) = co_graphs s \<and> co_kbs (w s) = co_kbs s)"

definition undo_possible :: "commit_env \<Rightarrow> bool" where
  "undo_possible e \<longleftrightarrow> persist_succeeds (cm_graphs_back e) \<and> write_succeeds (cm_kbs_back e)"

lemma same_content_undone:
  assumes "all_of_doc doc indexed"
    and "ix_engine (co_index s') = replace_document doc (chunks_for_document doc (ix_engine (co_index s)))
           (replace_document doc indexed (ix_engine (co_index s)))"
    and "gs_artifacts (co_graphs s') = gs_artifacts (co_graphs s)"
    and "\<And>i. counts_of i (st_mem (co_kbs s')) = counts_of i (st_mem (co_kbs s))"
  shows "same_content s s'"
  using assms undo_replace_mset [OF assms(1)] engine.undo_replace [OF assms(1)]
  by (simp add: same_content_def)

lemma commit_record_Err:
  assumes "commit_record mo e doc n delta msg previous graphs t = (s', Err err)"
    and "undo_possible e" and "\<not> st_poisoned (co_kbs t)"
  shows "ix_engine (co_index s') = replace_document (dc_id doc) previous (ix_engine (co_index t)) \<and>
    gs_artifacts (co_graphs s') = graphs \<and>
    st_mem (co_kbs s') =
      fst (counts_step (cm_kbs_back_now e) (dc_kb_id doc) (- delta) 0 (st_mem (co_kbs t))) \<and>
    st_mem (co_docs s') = st_mem (co_docs t)"
proof -
  obtain d r where run: "mark_indexed (cm_docs e) (cm_docs_now e) (dc_id doc) (dc_content_hash doc) n msg
      (co_docs t) = (d, r)" by fastforce
  let ?undo = "\<lambda>s. restore_document_index mo (cm_index_back e) (dc_id doc) (dc_kb_id doc) previous
      (undo_counts (cm_kbs_back e) (cm_kbs_back_now e) (dc_kb_id doc) (- delta) 0
        (undo_graphs (cm_graphs_back e) graphs s))"
  from assms(1) run have r: "r \<noteq> Ok True" "r \<noteq> Panic" and s': "s' = ?undo (t\<lparr>co_docs := d\<rparr>)"
    by (auto simp: commit_record_def Let_def split: res.splits bool.splits)
  from run [unfolded mark_indexed_def] r have "st_mem d = st_mem (co_docs t)"
    by (cases rule: with_doc_cases) auto
  with assms(2,3) show ?thesis
    by (simp add: s' undo_graphs_artifacts undo_counts_mem undo_possible_def)
qed

text \<open>What a commit that gets past its checks has seen.\<close>

definition commit_ready :: "commit_env \<Rightarrow> 'j doc_record \<Rightarrow> string \<Rightarrow> string \<Rightarrow> 'j doc_record \<Rightarrow>
    ('m, 'j) corpus \<Rightarrow> bool" where
  "commit_ready e doc task token cur s \<longleftrightarrow>
     tq_owns_lease (cm_now e) task token (co_tasks s) = Ok True \<and>
     hget (st_mem (co_docs s)) (dc_id doc) = Some cur \<and> dc_kb_id cur = dc_kb_id doc \<and>
     hget (st_mem (co_kbs s)) (dc_kb_id doc) \<noteq> None \<and>
     \<not> st_poisoned (co_docs s) \<and> \<not> st_poisoned (co_kbs s)"

lemma commit_indexed_cases:
  assumes "commit_indexed_document mo parse e w doc task token indexed checkpoint msg s = (s', r)"
  obtains cur where "commit_ready e doc task token cur s"
      "commit_stores mo parse e w doc (dc_chunk_count cur) indexed checkpoint msg s = (s', r)"
    | err where "r = Err err" "s' = s"
    | "r = Panic" "s' = s"
  using assms that
  by (auto simp: commit_indexed_document_def on_read_def commit_ready_def doc_get_def kb_lookup_def
      tx_read_def split: res.splits if_splits option.splits)

text \<open>The counters of the base survive being raised and lowered again.\<close>

definition no_cut_off :: "'j doc_record \<Rightarrow> indexed_chunk list \<Rightarrow> ('m, 'j) corpus \<Rightarrow> bool" where
  "no_cut_off doc indexed s \<longleftrightarrow>
     (\<forall>cur c d. hget (st_mem (co_docs s)) (dc_id doc) = Some cur \<longrightarrow>
        counts_of (dc_kb_id doc) (st_mem (co_kbs s)) = Some (c, d) \<longrightarrow>
        c < 2 ^ 63 \<and> d < 2 ^ 63 \<and> c + (of_nat (length indexed) - dc_chunk_count cur) < 2 ^ 63)"

lemma count_after_small: "c + d < 2 ^ 63 \<Longrightarrow> count_after c d = c + d"
  using sint_small [of "c + d"] by (simp add: count_after_def)

lemma commit_counts_Err:
  assumes run: "commit_counts mo e w doc n delta msg previous graphs t = (s', Err err)"
    and undo: "undo_possible e" and w: "commit_rely w" and alive: "\<not> st_poisoned (co_kbs t)"
    and small: "\<And>c d. counts_of (dc_kb_id doc) (st_mem (co_kbs t)) = Some (c, d) \<Longrightarrow>
      c < 2 ^ 63 \<and> d < 2 ^ 63 \<and> c + delta < 2 ^ 63"
  shows "ix_engine (co_index s') = replace_document (dc_id doc) previous (ix_engine (co_index t)) \<and>
    gs_artifacts (co_graphs s') = graphs \<and>
    counts_of i (st_mem (co_kbs s')) = counts_of i (st_mem (co_kbs t)) \<and>
    (st_mem (co_docs s') = st_mem (co_docs t) \<or>
     (\<exists>v. co_docs v = co_docs t \<and> st_mem (co_docs s') = st_mem (co_docs (w v))))"
proof -
  obtain k r where upd: "update_counts (cm_kbs e) (cm_kbs_now e) (dc_kb_id doc) delta 0 (co_kbs t) = (k, r)"
    by fastforce
  show ?thesis
  proof (cases r)
    case (Ok u)
    with upd have mem: "st_mem k = fst (counts_step (cm_kbs_now e) (dc_kb_id doc) delta 0 (st_mem (co_kbs t)))"
      by (cases rule: update_counts_cases) auto
    have "\<not> st_poisoned k"
      using upd Ok alive
      by (auto simp: update_counts_def kb_mutate_if_changed_def elim!: tx_mutate_cases)
    let ?v = "t\<lparr>co_kbs := k\<rparr>"
    from run upd Ok have "commit_record mo e doc n delta msg previous graphs (w ?v) = (s', Err err)"
      by (simp add: commit_counts_def)
    from commit_record_Err [OF this undo] w \<open>\<not> st_poisoned k\<close>
    have rec: "ix_engine (co_index s') = replace_document (dc_id doc) previous (ix_engine (co_index t))"
      "gs_artifacts (co_graphs s') = graphs" "st_mem (co_docs s') = st_mem (co_docs (w ?v))"
      "st_mem (co_kbs s') = fst (counts_step (cm_kbs_back_now e) (dc_kb_id doc) (- delta) 0 (st_mem k))"
      by (simp_all add: commit_rely_def)
    have "counts_of i (st_mem (co_kbs s')) = counts_of i (st_mem (co_kbs t))"
      using small
      by (cases "counts_of (dc_kb_id doc) (st_mem (co_kbs t))")
         (auto simp: rec(4) mem counts_of_step count_after_small)
    moreover have "co_docs ?v = co_docs t" by simp
    ultimately show ?thesis using rec(1-3) by blast
  next
    case (Err err')
    with upd have "st_mem k = st_mem (co_kbs t)" by (cases rule: update_counts_cases) auto
    with run upd Err undo show ?thesis
      by (auto simp: commit_counts_def undo_graphs_artifacts undo_possible_def)
  next
    case Panic
    with run upd show ?thesis by (simp add: commit_counts_def)
  qed
qed

text \<open>
  C9. A commit of a valid index that fails leaves everything a search can see as it was: the chunks of every
  document, the graphs and the counters; and the commit itself has not changed any document's record. This
  needs the writes of the undoing to go through, no counter to be cut off, and nobody else to change index, graphs
  or counters meanwhile (\<open>commit_rely\<close>).
\<close>

theorem failed_commit_undone:
  assumes run: "commit_indexed_document mo parse e w doc task token indexed checkpoint msg s = (s', Err err)"
    and own: "all_of_doc (dc_id doc) indexed"
    and valid: "list_all (valid_chunk parse) (replace_document (dc_id doc) indexed (ix_engine (co_index s)))"
    and undo: "undo_possible e" and w: "commit_rely w" and small: "no_cut_off doc indexed s"
  shows "same_content s s' \<and>
    (st_mem (co_docs s') = st_mem (co_docs s) \<or>
     (\<exists>v. co_docs v = co_docs s \<and> st_mem (co_docs s') = st_mem (co_docs (w v))))"
  using run
proof (cases rule: commit_indexed_cases)
  case (1 cur)
  let ?delta = "of_nat (length indexed) - dc_chunk_count cur"
  let ?prev = "chunks_for_document (dc_id doc) (ix_engine (co_index s))"
  obtain t r where rep: "replace_in_index mo parse (cm_index e) (dc_id doc) (dc_kb_id doc) indexed s = (t, r)"
    by fastforce
  from rep show ?thesis
  proof (cases rule: replace_in_index_cases)
    case (2 ix err')
    with 1(2) rep have "s' = s\<lparr>co_index := ix\<rparr>" by (simp add: commit_stores_def Let_def)
    with 2 own show ?thesis by (auto intro: same_content_undone)
  next
    case (3 ix)
    obtain g q where rg: "replace_document_graph (cm_graphs e) (dc_id doc) checkpoint (co_graphs s) = (g, q)"
      by fastforce
    from rg show ?thesis
      unfolding replace_document_graph_def
    proof (cases rule: replace_snapshot_cases)
      case 1
      let ?t = "t\<lparr>co_graphs := g\<rparr>"
      from \<open>commit_stores _ _ _ _ _ _ _ _ _ _ = _\<close> rep 3 rg 1
      have "commit_counts mo e w doc (of_nat (length indexed)) ?delta msg ?prev
          (gs_artifacts (co_graphs s)) ?t = (s', Err err)"
        by (simp add: commit_stores_def Let_def)
      from commit_counts_Err [OF this undo w] \<open>commit_ready _ _ _ _ _ _\<close> 3(3,4) small
      have "ix_engine (co_index s') = replace_document (dc_id doc) ?prev
            (replace_document (dc_id doc) indexed (ix_engine (co_index s)))"
        and "gs_artifacts (co_graphs s') = gs_artifacts (co_graphs s)"
        and "\<And>i. counts_of i (st_mem (co_kbs s')) = counts_of i (st_mem (co_kbs s))"
        and docs: "st_mem (co_docs s') = st_mem (co_docs s) \<or>
          (\<exists>v. co_docs v = co_docs s \<and> st_mem (co_docs s') = st_mem (co_docs (w v)))"
        by (auto simp: no_cut_off_def commit_ready_def)
      from same_content_undone [OF own this(1-3)] docs show ?thesis by blast
    next
      case (2 err')
      with \<open>commit_stores _ _ _ _ _ _ _ _ _ _ = _\<close> rep 3 rg
      have "s' = restore_document_index mo (cm_index_back e) (dc_id doc) (dc_kb_id doc) ?prev
          (t\<lparr>co_graphs := g\<rparr>)"
        by (simp add: commit_stores_def Let_def)
      with 2 3 own show ?thesis by (auto intro: same_content_undone)
    qed
  qed (use valid in auto)
qed (simp_all add: same_content_def)

section \<open>Successful commits\<close>

lemma commit_record_Ok:
  assumes "commit_record mo e doc n delta msg previous graphs t = (s', Ok u)"
  obtains d docs where "s' = t\<lparr>co_docs := docs\<rparr>" and "hget (st_mem (co_docs t)) (dc_id doc) = Some d"
    and "st_mem docs = hput (dc_id doc) (d\<lparr>dc_run := ''DONE'', dc_progress := Fin 1, dc_progress_msg := msg,
      dc_chunk_count := n, dc_indexed_content_hash := dc_content_hash doc,
      dc_updated_at := cm_docs_now e\<rparr>) (st_mem (co_docs t))"
proof -
  obtain docs r where run: "mark_indexed (cm_docs e) (cm_docs_now e) (dc_id doc) (dc_content_hash doc) n msg
      (co_docs t) = (docs, r)" by fastforce
  with assms have r: "r = Ok True" and s': "s' = t\<lparr>co_docs := docs\<rparr>"
    by (auto simp: commit_record_def Let_def split: res.splits bool.splits)
  from run [unfolded mark_indexed_def] r that s' show ?thesis
    by (cases rule: with_doc_cases) auto
qed

lemma commit_stores_Ok:
  assumes run: "commit_stores mo parse e w doc old indexed checkpoint msg s = (s', Ok u)"
  obtains ix g k d docs where
    "list_all (valid_chunk parse) (ix_engine ix)"
    "ix_engine ix = replace_document (dc_id doc) indexed (ix_engine (co_index s))"
    "dk_file (ix_disk ix) = Some (ix_engine ix)"
    "gs_artifacts g = replace_checkpoint (dc_id doc) checkpoint (gs_artifacts (co_graphs s))"
    "st_mem k = fst (counts_step (cm_kbs_now e) (dc_kb_id doc) (of_nat (length indexed) - old) 0
       (st_mem (co_kbs s)))"
    "hget (st_mem (co_docs (w (s\<lparr>co_index := ix, co_graphs := g, co_kbs := k\<rparr>)))) (dc_id doc) = Some d"
    "st_mem docs = hput (dc_id doc) (d\<lparr>dc_run := ''DONE'', dc_progress := Fin 1, dc_progress_msg := msg,
       dc_chunk_count := of_nat (length indexed), dc_indexed_content_hash := dc_content_hash doc,
       dc_updated_at := cm_docs_now e\<rparr>)
       (st_mem (co_docs (w (s\<lparr>co_index := ix, co_graphs := g, co_kbs := k\<rparr>))))"
    "s' = (w (s\<lparr>co_index := ix, co_graphs := g, co_kbs := k\<rparr>))\<lparr>co_docs := docs\<rparr>"
proof -
  obtain t r where rep: "replace_in_index mo parse (cm_index e) (dc_id doc) (dc_kb_id doc) indexed s = (t, r)"
    by fastforce
  with run have "r = Ok ()" by (cases r) (auto simp: commit_stores_def Let_def)
  with rep obtain ix where ix: "t = s\<lparr>co_index := ix\<rparr>" "list_all (valid_chunk parse) (ix_engine ix)"
    "ix_engine ix = replace_document (dc_id doc) indexed (ix_engine (co_index s))"
    "dk_file (ix_disk ix) = Some (ix_engine ix)"
    by (cases rule: replace_in_index_cases) auto
  obtain g q where rg: "replace_document_graph (cm_graphs e) (dc_id doc) checkpoint (co_graphs s) = (g, q)"
    by fastforce
  with run rep \<open>r = Ok ()\<close> ix(1) have "q = Ok ()"
    by (cases q) (auto simp: commit_stores_def Let_def)
  from rg [unfolded replace_document_graph_def] this
  have g: "gs_artifacts g = replace_checkpoint (dc_id doc) checkpoint (gs_artifacts (co_graphs s))"
    by (cases rule: replace_snapshot_cases) auto
  let ?delta = "of_nat (length indexed) - old"
  obtain k p where upd: "update_counts (cm_kbs e) (cm_kbs_now e) (dc_kb_id doc) ?delta 0 (co_kbs s) = (k, p)"
    by fastforce
  with run rep \<open>r = Ok ()\<close> ix(1) rg \<open>q = Ok ()\<close> have p: "p = Ok ()"
    by (cases p) (auto simp: commit_stores_def commit_counts_def Let_def)
  from upd p have k: "st_mem k = fst (counts_step (cm_kbs_now e) (dc_kb_id doc) ?delta 0 (st_mem (co_kbs s)))"
    by (cases rule: update_counts_cases) auto
  let ?v = "s\<lparr>co_index := ix, co_graphs := g, co_kbs := k\<rparr>"
  from run rep \<open>r = Ok ()\<close> ix(1) rg \<open>q = Ok ()\<close> upd p
  have "commit_record mo e doc (of_nat (length indexed)) ?delta msg
      (chunks_for_document (dc_id doc) (ix_engine (co_index s))) (gs_artifacts (co_graphs s)) (w ?v) = (s', Ok u)"
    by (simp add: commit_stores_def commit_counts_def Let_def)
  then show ?thesis
    by (rule commit_record_Ok) (use ix g k that in blast)
qed

text \<open>
  C10. A commit that succeeds held the lease when it looked, and has done all of it: the chunks of
  the document are the new ones and those of the others are untouched, in memory and in the
  file, which is a valid index; the document's graph is the new one; the counter of the base moves by the
  difference; and the record says \<open>DONE\<close> with the number of chunks and the hash of what was indexed.
\<close>

theorem commit_complete:
  assumes run: "commit_indexed_document mo parse e w doc task token indexed checkpoint msg s = (s', Ok u)"
    and own: "all_of_doc (dc_id doc) indexed" and w: "commit_rely w"
  shows "tq_owns_lease (cm_now e) task token (co_tasks s) = Ok True \<and>
    (\<forall>d. chunks_for_document d (ix_engine (co_index s')) =
       (if d = dc_id doc then indexed else chunks_for_document d (ix_engine (co_index s)))) \<and>
    list_all (valid_chunk parse) (ix_engine (co_index s')) \<and>
    dk_file (ix_disk (co_index s')) = Some (ix_engine (co_index s')) \<and>
    gs_artifacts (co_graphs s') = replace_checkpoint (dc_id doc) checkpoint (gs_artifacts (co_graphs s)) \<and>
    (\<exists>cur. hget (st_mem (co_docs s)) (dc_id doc) = Some cur \<and>
       st_mem (co_kbs s') = fst (counts_step (cm_kbs_now e) (dc_kb_id doc)
         (of_nat (length indexed) - dc_chunk_count cur) 0 (st_mem (co_kbs s)))) \<and>
    (\<exists>d'. hget (st_mem (co_docs s')) (dc_id doc) = Some d' \<and> dc_run d' = ''DONE'' \<and>
       dc_chunk_count d' = of_nat (length indexed) \<and> dc_indexed_content_hash d' = dc_content_hash doc)"
  using run
proof (cases rule: commit_indexed_cases)
  case (1 cur)
  from 1(2) show ?thesis
    by (rule commit_stores_Ok)
       (use 1(1) w in \<open>simp add: commit_rely_def commit_ready_def engine.look_replace_if [OF own]\<close>)
qed simp_all

section \<open>The counters agree\<close>

text \<open>The chunks a base is said to have: the sum over its documents.\<close>

definition total_chunks :: "string \<Rightarrow> 'j docs \<Rightarrow> nat" where
  "total_chunks kb docs = (\<Sum>d \<leftarrow> hvalues docs. if dc_kb_id d = kb then unat (dc_chunk_count d) else 0)"

lemma sum_hput:
  fixes f :: "'v \<Rightarrow> nat"
  shows "hget m i = Some d \<Longrightarrow>
    (\<Sum>v \<leftarrow> hvalues (hput i d' m). f v) + f d = (\<Sum>v \<leftarrow> hvalues m. f v) + f d'"
proof (induction m)
  case (Cons kv m)
  obtain k v where kv: "kv = (k, v)" by (cases kv)
  show ?case
  proof (cases "k = i")
    case True
    with Cons.prems kv show ?thesis by simp
  next
    case False
    with Cons kv show ?thesis by simp
  qed
qed simp

definition counted :: "('m, 'j) corpus \<Rightarrow> bool" where
  "counted s \<longleftrightarrow> keyed dc_id (st_mem (co_docs s)) \<and>
     (\<forall>i d. hget (st_mem (co_docs s)) i = Some d \<longrightarrow>
        unat (dc_chunk_count d) = length (chunks_for_document i (ix_engine (co_index s)))) \<and>
     (\<forall>k kb. hget (st_mem (co_kbs s)) k = Some kb \<longrightarrow>
        unat (kb_chunk_count kb) = total_chunks k (st_mem (co_docs s)))"

lemma word_moved:
  fixes c old :: u64
  assumes "unat c = t" and "unat old \<le> t" and "t - unat old + n < 2 ^ 63"
  shows "c + (of_nat n - old) = of_nat (t - unat old + n)"
    and "unat (c + (of_nat n - old)) = t - unat old + n" and "c + (of_nat n - old) < 2 ^ 63"
proof -
  have "of_nat t = c" using assms(1) by auto
  then have "c + (of_nat n - old) = of_nat (t - unat old) + of_nat n"
    using assms(2) by (simp add: of_nat_diff)
  also have "\<dots> = of_nat (t - unat old + n)" by simp
  finally show eq: "c + (of_nat n - old) = of_nat (t - unat old + n)" .
  show u: "unat (c + (of_nat n - old)) = t - unat old + n"
    unfolding eq using assms(3) by (simp add: unat_of_nat del: of_nat_add)
  then show "c + (of_nat n - old) < 2 ^ 63"
    using assms(3) by (simp add: word_less_nat_alt)
qed

lemma unat_moved:
  fixes c old :: u64
  assumes "unat c = t" and "unat old \<le> t" and "t - unat old + n < 2 ^ 63"
  shows "unat (count_after c (of_nat n - old)) = t - unat old + n"
  by (simp only: count_after_small [OF word_moved(3) [OF assms]] word_moved(2) [OF assms])

text \<open>
  Where the number of chunks in the index, in the document's record and in the base's counter agree
  before a commit, they agree after it, whatever the document had before.
\<close>

theorem commit_keeps_counts:
  assumes run: "commit_indexed_document mo parse e (\<lambda>s. s) doc task token indexed checkpoint msg s = (s', Ok u)"
    and own: "all_of_doc (dc_id doc) indexed" and counted: "counted s"
    and bound: "total_chunks (dc_kb_id doc) (st_mem (co_docs s)) + length indexed < 2 ^ 63"
  shows "counted s'"
  using run
proof (cases rule: commit_indexed_cases)
  case (1 cur)
  let ?n = "length indexed" and ?docs = "st_mem (co_docs s)"
  from 1(1) have cur: "hget ?docs (dc_id doc) = Some cur" "dc_kb_id cur = dc_kb_id doc"
    by (simp_all add: commit_ready_def)
  from counted have keyed: "keyed dc_id ?docs"
    and chunks: "\<And>i d. hget ?docs i = Some d \<Longrightarrow>
      unat (dc_chunk_count d) = length (chunks_for_document i (ix_engine (co_index s)))"
    and kbs: "\<And>k kb. hget (st_mem (co_kbs s)) k = Some kb \<Longrightarrow> unat (kb_chunk_count kb) = total_chunks k ?docs"
    by (auto simp: counted_def)
  from 1(2) show ?thesis
  proof (rule commit_stores_Ok)
    fix ix g k d docs
    assume ix: "ix_engine ix = replace_document (dc_id doc) indexed (ix_engine (co_index s))"
      and k: "st_mem k = fst (counts_step (cm_kbs_now e) (dc_kb_id doc) (of_nat ?n - dc_chunk_count cur) 0
        (st_mem (co_kbs s)))"
      and d: "hget (st_mem (co_docs (s\<lparr>co_index := ix, co_graphs := g, co_kbs := k\<rparr>))) (dc_id doc) = Some d"
      and docs: "st_mem docs = hput (dc_id doc) (d\<lparr>dc_run := ''DONE'', dc_progress := Fin 1,
        dc_progress_msg := msg, dc_chunk_count := of_nat ?n,
        dc_indexed_content_hash := dc_content_hash doc, dc_updated_at := cm_docs_now e\<rparr>)
        (st_mem (co_docs (s\<lparr>co_index := ix, co_graphs := g, co_kbs := k\<rparr>)))"
      and s': "s' = s\<lparr>co_index := ix, co_graphs := g, co_kbs := k\<rparr>\<lparr>co_docs := docs\<rparr>"
    let ?new = "d\<lparr>dc_run := ''DONE'', dc_progress := Fin 1, dc_progress_msg := msg,
        dc_chunk_count := of_nat ?n, dc_indexed_content_hash := dc_content_hash doc,
        dc_updated_at := cm_docs_now e\<rparr>"
    from d cur have "d = cur" by simp
    have n: "unat (of_nat ?n :: u64) = ?n"
      using bound by (simp add: unat_of_nat)
    have total: "total_chunks kb (st_mem docs) + (if dc_kb_id cur = kb then unat (dc_chunk_count cur) else 0) =
        total_chunks kb ?docs + (if dc_kb_id cur = kb then ?n else 0)" for kb
      using sum_hput [where f = "\<lambda>d. if dc_kb_id d = kb then unat (dc_chunk_count d) else 0" and d' = ?new, OF cur(1)]
      by (simp add: total_chunks_def docs \<open>d = cur\<close> n)
    have old: "unat (dc_chunk_count cur) \<le> total_chunks (dc_kb_id doc) ?docs"
      using total [of "dc_kb_id doc"] member_le_sum_list
        [of "unat (dc_chunk_count cur)" "map (\<lambda>d. if dc_kb_id d = dc_kb_id doc then unat (dc_chunk_count d) else 0) (hvalues ?docs)"]
        hget_hvalues [OF cur(1)] cur(2)
      by (force simp: total_chunks_def)
    have "keyed dc_id (st_mem docs)"
      using wf_docs_update [OF keyed cur(1), of ?new] by (simp add: docs \<open>d = cur\<close>)
    moreover have "unat (dc_chunk_count r) = length (chunks_for_document i (ix_engine ix))"
      if "hget (st_mem docs) i = Some r" for i r
      using that chunks [of i r] n
      by (auto simp: docs ix engine.look_replace_if [OF own] split: if_splits)
    moreover have "unat (kb_chunk_count kb) = total_chunks i (st_mem docs)"
      if get: "hget (st_mem k) i = Some kb" for i kb
    proof (cases "i = dc_kb_id doc")
      case True
      with get k obtain kb0 where kb0: "hget (st_mem (co_kbs s)) i = Some kb0"
          "kb_chunk_count kb = count_after (kb_chunk_count kb0) (of_nat ?n - dc_chunk_count cur)"
        by (auto simp: counts_step_def split: option.splits)
      from unat_moved [OF kbs [OF kb0(1)], of "dc_chunk_count cur" ?n] kb0(2) True bound old
        total [of "dc_kb_id doc"] cur(2)
      show ?thesis by simp
    next
      case False
      with get k have "hget (st_mem (co_kbs s)) i = Some kb"
        by (auto simp: counts_step_def split: option.splits)
      with kbs total [of i] False cur(2) show ?thesis by simp
    qed
    ultimately show ?thesis by (simp add: counted_def s')
  qed
qed simp_all

section \<open>A rejected index\<close>

lemma commit_ready_stores:
  assumes "commit_ready e doc task token cur s"
  shows "commit_indexed_document mo parse e w doc task token indexed checkpoint msg s =
    commit_stores mo parse e w doc (dc_chunk_count cur) indexed checkpoint msg s"
  using assms
  by (auto simp: commit_ready_def commit_indexed_document_def on_read_def doc_get_def kb_lookup_def
      tq_owns_lease_def tq_is_cancelled_def lease_owned_def tx_read_def split: if_splits option.splits)

lemma invalid_index_rejected:
  assumes "\<not> list_all (valid_chunk parse) (replace_document (dc_id doc) indexed (ix_engine (co_index s)))"
  shows "\<exists>err. commit_stores mo parse e w doc old indexed checkpoint msg s =
    (s\<lparr>co_index := (co_index s)\<lparr>ix_engine := replace_document (dc_id doc) indexed (ix_engine (co_index s))\<rparr>\<rparr>,
     Err err)"
proof -
  obtain t r where rep: "replace_in_index mo parse (cm_index e) (dc_id doc) (dc_kb_id doc) indexed s = (t, r)"
    by fastforce
  from rep assms show ?thesis
    by (cases rule: replace_in_index_cases) (auto simp: commit_stores_def Let_def rep)
qed

text \<open>
  C28. A commit whose chunks do not fit the search mappings answers an error and leaves them in the
  index in memory, where searches find them, while the file and the record keep the old
  state. From then on no commit of any other document succeeds: each one validates the whole
  index.
\<close>

theorem rejected_commit_blocks_others:
  fixes s :: "('m, 'j) corpus"
  assumes ready: "commit_ready e doc task token cur s" and own: "all_of_doc (dc_id doc) indexed"
    and bad: "c \<in> set indexed" "\<not> valid_chunk parse c"
  shows "\<exists>s' err. commit_indexed_document mo parse e w doc task token indexed checkpoint msg s = (s', Err err) \<and>
    chunks_for_document (dc_id doc) (ix_engine (co_index s')) = indexed \<and>
    ix_disk (co_index s') = ix_disk (co_index s) \<and> co_docs s' = co_docs s \<and>
    (\<forall>mo' e' w' doc' task' token' indexed' checkpoint' msg' (t :: ('m, 'j) corpus).
       dc_id doc' \<noteq> dc_id doc \<and> co_index t = co_index s' \<longrightarrow>
       \<not> is_ok (snd (commit_indexed_document mo' parse e' w' doc' task' token' indexed' checkpoint' msg' t)))"
proof -
  let ?new = "replace_document (dc_id doc) indexed (ix_engine (co_index s))"
  let ?s = "s\<lparr>co_index := (co_index s)\<lparr>ix_engine := ?new\<rparr>\<rparr>"
  have "c \<in> set ?new" using bad by (simp add: replace_document_eq)
  with bad(2) have "\<not> list_all (valid_chunk parse) ?new" by (auto simp: list_all_iff)
  from invalid_index_rejected [OF this] commit_ready_stores [OF ready]
  obtain err where run: "commit_indexed_document mo parse e w doc task token indexed checkpoint msg s = (?s, Err err)"
    by metis
  have blocked: "\<not> is_ok (snd (commit_indexed_document mo' parse e' w' doc' task' token' indexed' checkpoint' msg' t))"
    if other: "dc_id doc' \<noteq> dc_id doc" and t: "co_index t = co_index ?s"
    for mo' e' w' doc' task' token' indexed' checkpoint' msg' and t :: "('m, 'j) corpus"
  proof -
    obtain s'' r where run: "commit_indexed_document mo' parse e' w' doc' task' token' indexed' checkpoint' msg' t
        = (s'', r)" by fastforce
    have "c \<in> set (replace_document (dc_id doc') indexed' ?new)"
      using bad(1) own other by (auto simp: replace_document_eq all_of_doc_def)
    with bad(2) t have "\<not> list_all (valid_chunk parse)
        (replace_document (dc_id doc') indexed' (ix_engine (co_index t)))"
      by (auto simp: list_all_iff)
    note rejected = invalid_index_rejected [OF this]
    from run have "\<not> is_ok r"
    proof (cases rule: commit_indexed_cases)
      case (1 cur)
      from 1(2) rejected [of mo' e' w' "dc_chunk_count cur" checkpoint' msg'] show ?thesis by auto
    qed simp_all
    with run show ?thesis by simp
  qed
  show ?thesis
  proof (intro exI conjI allI impI)
    show "commit_indexed_document mo parse e w doc task token indexed checkpoint msg s = (?s, Err err)"
      by (rule run)
  next
    fix mo' :: "'m mirror_ops" and e' :: commit_env and w' :: "('m, 'j) corpus \<Rightarrow> ('m, 'j) corpus"
      and doc' :: "'j doc_record" and task' token' indexed' checkpoint' msg' and t :: "('m, 'j) corpus"
    assume "dc_id doc' \<noteq> dc_id doc \<and> co_index t = co_index ?s"
    then show "\<not> is_ok (snd (commit_indexed_document mo' parse e' w' doc' task' token' indexed' checkpoint' msg' t))"
      using blocked by blast
  qed (simp_all add: engine.look_replace [OF own])
qed

end
