(* ===== verification/Document_Removal.thy ===== *)
theory Document_Removal
  imports Document_Commit
begin

text \<open>
  Taking an indexed document out of the corpus again: the cascade of delete_document_data in
  src/server.rs (index, graph, record and counters, metadata), which undoes what it has done when a
  step fails, and the reset of a document that is parsed again in src/api/document.rs, which
  does not.
\<close>

section \<open>Deleting a document\<close>

definition remove_from_index ::
    "'m mirror_ops \<Rightarrow> (string \<Rightarrow> json option) \<Rightarrow> write_env \<Rightarrow> string \<Rightarrow> string \<Rightarrow>
     ('m, 'j) corpus \<Rightarrow> ('m, 'j) corpus \<times> unit res" where
  "remove_from_index mo parse e doc kb s =
     (let ix = co_index s;
          previous = chunks_for_document doc (ix_engine ix);
          ix = ix\<lparr>ix_engine := fst (remove_document doc (ix_engine ix))\<rparr>
      in case persist_document_change mo parse e doc kb previous [] ix of
           (ix, r) \<Rightarrow> (s\<lparr>co_index := ix\<rparr>, r))"

definition restore_metadata ::
    "write_env option \<Rightarrow> (json \<Rightarrow> string) \<Rightarrow> string \<Rightarrow> string \<Rightarrow> json_object option \<Rightarrow>
     ('m, 'j) corpus \<Rightarrow> ('m, 'j) corpus" where
  "restore_metadata e to_text doc kb previous s =
     (case previous of
        None \<Rightarrow> s
      | Some mf \<Rightarrow> s\<lparr>co_meta := fst (meta_replace e to_text doc kb mf (co_meta s))\<rparr>)"

text \<open>Everything but the metadata is put back.\<close>

definition undo_delete ::
    "'m mirror_ops \<Rightarrow> commit_env \<Rightarrow> 'j doc_record \<Rightarrow> u64 \<Rightarrow> indexed_chunk list \<Rightarrow> graph_artifacts \<Rightarrow>
     ('m, 'j) corpus \<Rightarrow> ('m, 'j) corpus" where
  "undo_delete mo e doc removed previous graphs s =
     restore_document_index mo (cm_index_back e) (dc_id doc) (dc_kb_id doc) previous
       (undo_counts (cm_kbs_back e) (cm_kbs_back_now e) (dc_kb_id doc) removed 1
         (undo_graphs (cm_graphs_back e) graphs s))"

definition delete_record ::
    "'m mirror_ops \<Rightarrow> (json \<Rightarrow> string) \<Rightarrow> commit_env \<Rightarrow> (('m, 'j) corpus \<Rightarrow> ('m, 'j) corpus) \<Rightarrow>
     'j doc_record \<Rightarrow> json_object option \<Rightarrow> (('m, 'j) corpus \<Rightarrow> ('m, 'j) corpus) \<Rightarrow> ('m, 'j) corpus \<Rightarrow>
     ('m, 'j) corpus \<times> unit res" where
  "delete_record mo to_text e w doc mf undo s =
     (let undo = (\<lambda>s. undo (restore_metadata (cm_meta_back e) to_text (dc_id doc) (dc_kb_id doc) mf s));
          s = w s
      in case doc_delete (cm_docs e) (dc_id doc) (co_docs s) of
           (d, Ok True) \<Rightarrow>
             (case tq_cancel_document (cm_tasks e) (cm_tasks_now e) (dc_id doc) (co_tasks s) of
                (q, Panic) \<Rightarrow> (s\<lparr>co_docs := d, co_tasks := q\<rparr>, Panic)
              | (q, r) \<Rightarrow> (s\<lparr>co_docs := d, co_tasks := q\<rparr>, Ok ()))
         | (d, Ok False) \<Rightarrow> (undo (s\<lparr>co_docs := d\<rparr>), Err ''Document metadata was already deleted'')
         | (d, Err err) \<Rightarrow> (undo (s\<lparr>co_docs := d\<rparr>), Err ''Failed to delete document metadata'')
         | (d, Panic) \<Rightarrow> (s\<lparr>co_docs := d\<rparr>, Panic))"

definition delete_metadata ::
    "'m mirror_ops \<Rightarrow> (json \<Rightarrow> string) \<Rightarrow> commit_env \<Rightarrow> (('m, 'j) corpus \<Rightarrow> ('m, 'j) corpus) \<Rightarrow>
     'j doc_record \<Rightarrow> (('m, 'j) corpus \<Rightarrow> ('m, 'j) corpus) \<Rightarrow> ('m, 'j) corpus \<Rightarrow>
     ('m, 'j) corpus \<times> unit res" where
  "delete_metadata mo to_text e w doc undo s =
     on_read (meta_get (dc_id doc) (dc_kb_id doc) (co_meta s)) s (\<lambda>mf.
       case meta_delete (cm_meta e) (dc_id doc) (dc_kb_id doc) (co_meta s) of
         (m, Ok b) \<Rightarrow> delete_record mo to_text e w doc mf undo (s\<lparr>co_meta := m\<rparr>)
       | (m, Err err) \<Rightarrow> (undo (s\<lparr>co_meta := m\<rparr>), Err ''Failed to delete document-level metadata'')
       | (m, Panic) \<Rightarrow> (s\<lparr>co_meta := m\<rparr>, Panic))"

definition delete_document_data ::
    "'m mirror_ops \<Rightarrow> (string \<Rightarrow> json option) \<Rightarrow> (json \<Rightarrow> string) \<Rightarrow> commit_env \<Rightarrow>
     (('m, 'j) corpus \<Rightarrow> ('m, 'j) corpus) \<Rightarrow> 'j doc_record \<Rightarrow> ('m, 'j) corpus \<Rightarrow>
     ('m, 'j) corpus \<times> unit res" where
  "delete_document_data mo parse to_text e w doc s =
     (let graphs = gs_artifacts (co_graphs s);
          previous = chunks_for_document (dc_id doc) (ix_engine (co_index s));
          removed = of_nat (snd (remove_document (dc_id doc) (ix_engine (co_index s))))
      in case remove_from_index mo parse (cm_index e) (dc_id doc) (dc_kb_id doc) s of
           (s, Ok u) \<Rightarrow>
             (case replace_document_graph (cm_graphs e) (dc_id doc) None (co_graphs s) of
                (g, Ok u) \<Rightarrow>
                  (case update_counts (cm_kbs e) (cm_kbs_now e) (dc_kb_id doc) (- removed) (- 1) (co_kbs s) of
                     (k, Ok u) \<Rightarrow>
                       delete_metadata mo to_text e w doc (undo_delete mo e doc removed previous graphs)
                         (s\<lparr>co_graphs := g, co_kbs := k\<rparr>)
                   | (k, Err err) \<Rightarrow>
                       (restore_document_index mo (cm_index_back e) (dc_id doc) (dc_kb_id doc) previous
                          (undo_graphs (cm_graphs_back e) graphs (s\<lparr>co_graphs := g, co_kbs := k\<rparr>)),
                        Err ''Failed to update KB counts during document deletion'')
                   | (k, Panic) \<Rightarrow> (s\<lparr>co_graphs := g, co_kbs := k\<rparr>, Panic))
              | (g, Err err) \<Rightarrow>
                  (restore_document_index mo (cm_index_back e) (dc_id doc) (dc_kb_id doc) previous
                     (s\<lparr>co_graphs := g\<rparr>),
                   Err ''Failed to delete GraphRAG document checkpoint'')
              | (g, Panic) \<Rightarrow> (s\<lparr>co_graphs := g\<rparr>, Panic))
         | (s, r) \<Rightarrow> (s, r))"

lemma remove_from_index_eq:
  "remove_from_index mo parse e doc kb s = replace_in_index mo parse e doc kb [] s"
proof -
  have "fst (remove_document doc cs) = replace_document doc [] cs" for cs
    by (simp add: replace_document_eq remove_document_def Let_def)
  moreover have "chunks_for_document doc (replace_document doc [] cs) = []" for cs
    by (rule engine.look_replace) (simp add: all_of_doc_def)
  ultimately show ?thesis by (simp add: remove_from_index_def replace_in_index_def Let_def)
qed

lemma counts_step_there_and_back:
  assumes "\<And>c d. counts_of i kbs = Some (c, d) \<Longrightarrow> c < 2 ^ 63 \<and> d < 2 ^ 63 \<and> c + x < 2 ^ 63 \<and> d + y < 2 ^ 63"
    and "k = fst (counts_step now i x y kbs)"
  shows "counts_of j (fst (counts_step now' i (- x) (- y) k)) = counts_of j kbs"
  using assms(1)
  by (cases "counts_of i kbs") (auto simp: assms(2) counts_of_step count_after_small)

lemma undo_delete_effect:
  assumes "undo_possible e" and "\<not> st_poisoned (co_kbs t)"
  shows "ix_engine (co_index (undo_delete mo e doc removed previous graphs t)) =
      replace_document (dc_id doc) previous (ix_engine (co_index t)) \<and>
    gs_artifacts (co_graphs (undo_delete mo e doc removed previous graphs t)) = graphs \<and>
    st_mem (co_kbs (undo_delete mo e doc removed previous graphs t)) =
      fst (counts_step (cm_kbs_back_now e) (dc_kb_id doc) removed 1 (st_mem (co_kbs t))) \<and>
    co_docs (undo_delete mo e doc removed previous graphs t) = co_docs t"
  using assms by (simp add: undo_delete_def undo_possible_def undo_graphs_artifacts undo_counts_mem)

lemma doc_delete_cases:
  assumes "doc_delete e i st = (st', r)"
  obtains "r = Ok True" "hget (st_mem st) i \<noteq> None" "st_mem st' = hdel i (st_mem st)"
    | "r = Ok False" "st_mem st' = st_mem st"
    | err where "r = Err err" "st_mem st' = st_mem st"
    | "r = Panic"
proof -
  have "tx_mutate_if_changed hvalues (Some e) (doc_delete_step i) st = (st', r)"
    using assms by (simp add: doc_delete_def doc_mutate_if_changed_def)
  then show ?thesis
    by (cases rule: tx_mutate_cases)
       (use that in \<open>auto simp: doc_delete_step_def Let_def hdel_absent split: if_splits\<close>)
qed

lemma delete_record_cases:
  assumes "delete_record mo to_text e w doc mf undo t = (s', r)"
  obtains d q where "r = Ok ()" "hget (st_mem (co_docs (w t))) (dc_id doc) \<noteq> None"
      "st_mem d = hdel (dc_id doc) (st_mem (co_docs (w t)))"
      "s' = (w t)\<lparr>co_docs := d, co_tasks := q\<rparr>"
      "q = fst (tq_cancel_document (cm_tasks e) (cm_tasks_now e) (dc_id doc) (co_tasks (w t)))"
    | d err where "r = Err err" "st_mem d = st_mem (co_docs (w t))"
      "s' = undo (restore_metadata (cm_meta_back e) to_text (dc_id doc) (dc_kb_id doc) mf ((w t)\<lparr>co_docs := d\<rparr>))"
    | "r = Panic"
proof -
  obtain d p where del: "doc_delete (cm_docs e) (dc_id doc) (co_docs (w t)) = (d, p)" by fastforce
  from del show ?thesis
    by (cases rule: doc_delete_cases)
       (use assms del that in \<open>auto simp: delete_record_def Let_def split: prod.splits res.splits\<close>)
qed

lemma restore_metadata_simps [simp]:
  "co_index (restore_metadata em to_text doc kb mf s) = co_index s"
  "co_graphs (restore_metadata em to_text doc kb mf s) = co_graphs s"
  "co_kbs (restore_metadata em to_text doc kb mf s) = co_kbs s"
  "co_docs (restore_metadata em to_text doc kb mf s) = co_docs s"
  by (simp_all add: restore_metadata_def split: option.split)

lemma meta_delete_Ok:
  assumes "meta_delete e doc kb st = (st', Ok b)"
  shows "meta_lookup doc kb (st_mem st') = None"
proof -
  have "\<exists>c. meta_delete_step doc kb (st_mem st) = (st_mem st', Ok (b, c))"
  proof (cases e)
    case None
    with assms have "tx_mutate_if_changed meta_records None (meta_delete_step doc kb) st = (st', Ok b)"
      by (simp add: meta_delete_def meta_mutate_def)
    then show ?thesis by (cases rule: tx_mutate_cases) auto
  next
    case (Some w)
    with assms have "tx_mutate_if_changed meta_records (Some w) (meta_checked (meta_delete_step doc kb)) st = (st', Ok b)"
      by (simp add: meta_delete_def meta_mutate_def)
    then have "\<exists>c. meta_checked (meta_delete_step doc kb) (st_mem st) = (st_mem st', Ok (b, c))"
      by (cases rule: tx_mutate_cases) auto
    then show ?thesis
      by (auto simp: meta_checked_def split: prod.splits res.splits bool.splits)
  qed
  moreover have "meta_lookup doc kb (fst (meta_delete_step doc kb m)) = None" for m
    by (auto simp: meta_delete_step_def meta_lookup_def Let_def split: option.split)
  ultimately show ?thesis by (metis fst_conv)
qed

lemma delete_metadata_cases:
  assumes run: "delete_metadata mo to_text e w doc undo t = (s', r)" and "r \<noteq> Panic" and w: "commit_rely w"
  obtains mt d v where "r = Ok ()" "meta_lookup (dc_id doc) (dc_kb_id doc) (st_mem mt) = None"
      "v = w (t\<lparr>co_meta := mt\<rparr>)" "st_mem d = hdel (dc_id doc) (st_mem (co_docs v))"
      "s' = v\<lparr>co_docs := d, co_tasks :=
         fst (tq_cancel_document (cm_tasks e) (cm_tasks_now e) (dc_id doc) (co_tasks v))\<rparr>"
    | u err where "r = Err err" "s' = undo u" "co_index u = co_index t" "co_kbs u = co_kbs t"
      "st_mem (co_docs u) = st_mem (co_docs t) \<or>
       (\<exists>v. co_docs v = co_docs t \<and> st_mem (co_docs u) = st_mem (co_docs (w v)))"
proof -
  obtain mf where mf: "meta_get (dc_id doc) (dc_kb_id doc) (co_meta t) = Ok mf"
    using run \<open>r \<noteq> Panic\<close>
    by (auto simp: delete_metadata_def on_read_def meta_get_def tx_read_def split: if_splits)
  obtain mt b where md: "meta_delete (cm_meta e) (dc_id doc) (dc_kb_id doc) (co_meta t) = (mt, b)"
    by fastforce
  show ?thesis
  proof (cases b)
    case (Ok c)
    with run mf md have "delete_record mo to_text e w doc mf undo (t\<lparr>co_meta := mt\<rparr>) = (s', r)"
      by (simp add: delete_metadata_def on_read_def)
    then show ?thesis
    proof (cases rule: delete_record_cases)
      case (1 d q)
      with meta_delete_Ok [OF md [unfolded Ok]] that(1) show ?thesis by blast
    next
      case (2 d err)
      let ?u = "restore_metadata (cm_meta_back e) to_text (dc_id doc) (dc_kb_id doc) mf
        ((w (t\<lparr>co_meta := mt\<rparr>))\<lparr>co_docs := d\<rparr>)"
      have "co_docs (t\<lparr>co_meta := mt\<rparr>) = co_docs t \<and>
          st_mem (co_docs ?u) = st_mem (co_docs (w (t\<lparr>co_meta := mt\<rparr>)))" using 2 by simp
      moreover have "co_index ?u = co_index t" "co_kbs ?u = co_kbs t"
        using w by (simp_all add: commit_rely_def)
      ultimately show ?thesis using that(2) [of err ?u] 2(1,3) by blast
    qed (use \<open>r \<noteq> Panic\<close> in simp)
  next
    case (Err err)
    with run mf md have "s' = undo (t\<lparr>co_meta := mt\<rparr>)" "r = Err ''Failed to delete document-level metadata''"
      by (auto simp: delete_metadata_def on_read_def)
    then show ?thesis using that(2) [of _ "t\<lparr>co_meta := mt\<rparr>"] by simp
  next
    case Panic
    with run mf md \<open>r \<noteq> Panic\<close> show ?thesis by (simp add: delete_metadata_def on_read_def)
  qed
qed

definition chunks_removed :: "'j doc_record \<Rightarrow> ('m, 'j) corpus \<Rightarrow> u64" where
  "chunks_removed doc s = of_nat (length (chunks_for_document (dc_id doc) (ix_engine (co_index s))))"

definition counts_deleted :: "commit_env \<Rightarrow> 'j doc_record \<Rightarrow> ('m, 'j) corpus \<Rightarrow> 'j kbs" where
  "counts_deleted e doc s =
     fst (counts_step (cm_kbs_now e) (dc_kb_id doc) (- chunks_removed doc s) (- 1) (st_mem (co_kbs s)))"

lemma removed_chunks: "of_nat (snd (remove_document (dc_id doc) (ix_engine (co_index s)))) = chunks_removed doc s"
proof -
  have "length cs - length (filter (\<lambda>c. \<not> of_doc d c) cs) = length (filter (of_doc d) cs)" for d cs
    using sum_length_filter_compl [of "of_doc d" cs] by linarith
  then show ?thesis
    by (simp add: remove_document_def Let_def chunks_for_document_def chunks_removed_def)
qed

text \<open>How far a deletion gets: to the metadata, or undone before.\<close>

lemma delete_stores_cases:
  assumes run: "delete_document_data mo parse to_text e w doc s = (s', r)" and "r \<noteq> Panic"
    and ok: "is_ok r \<or> list_all (valid_chunk parse) (ix_engine (co_index s)) \<and> undo_possible e"
  obtains ix g k where
      "delete_metadata mo to_text e w doc (undo_delete mo e doc (chunks_removed doc s)
         (chunks_for_document (dc_id doc) (ix_engine (co_index s))) (gs_artifacts (co_graphs s)))
         (s\<lparr>co_index := ix, co_graphs := g, co_kbs := k\<rparr>) = (s', r)"
      "ix_engine ix = replace_document (dc_id doc) [] (ix_engine (co_index s))"
      "dk_file (ix_disk ix) = Some (ix_engine ix)"
      "gs_artifacts g = replace_checkpoint (dc_id doc) None (gs_artifacts (co_graphs s))"
      "st_mem k = counts_deleted e doc s" "\<not> st_poisoned k"
    | err where "r = Err err"
      "ix_engine (co_index s') = replace_document (dc_id doc)
         (chunks_for_document (dc_id doc) (ix_engine (co_index s)))
         (replace_document (dc_id doc) [] (ix_engine (co_index s)))"
      "gs_artifacts (co_graphs s') = gs_artifacts (co_graphs s)"
      "st_mem (co_kbs s') = st_mem (co_kbs s)" "co_docs s' = co_docs s"
proof -
  note def = delete_document_data_def Let_def removed_chunks remove_from_index_eq
  obtain t p where rep: "replace_in_index mo parse (cm_index e) (dc_id doc) (dc_kb_id doc) [] s = (t, p)"
    by fastforce
  from rep show ?thesis
  proof (cases rule: replace_in_index_cases)
    case (1 err)
    with run rep have "r = Err err" by (simp add: def)
    with 1 ok show ?thesis by (auto simp: replace_document_eq list_all_iff)
  next
    case (2 ix err)
    with run rep have "s' = t" "r = p" by (auto simp: def)
    with 2 show ?thesis by (intro that(2) [of err]) simp_all
  next
    case (3 ix)
    obtain g p' where rg: "replace_document_graph (cm_graphs e) (dc_id doc) None (co_graphs s) = (g, p')"
      by fastforce
    from rg show ?thesis
      unfolding replace_document_graph_def
    proof (cases rule: replace_snapshot_cases)
      case (2 err)
      with run rep 3 rg show ?thesis by (intro that(2)) (auto simp: def)
    next
      case g: 1
      obtain k q where upd: "update_counts (cm_kbs e) (cm_kbs_now e) (dc_kb_id doc)
          (- chunks_removed doc s) (- 1) (co_kbs s) = (k, q)" by fastforce
      note deleting = run [unfolded def] rep 3 rg g upd
      from upd show ?thesis
      proof (cases rule: update_counts_cases)
        case 1
        have "\<not> st_poisoned k"
          using upd 1 by (auto simp: update_counts_def kb_mutate_if_changed_def elim!: tx_mutate_cases)
        with deleting 1 show ?thesis by (intro that(1) [where ix = ix and g = g and k = k]) (auto simp: counts_deleted_def)
      next
        case (2 err)
        with deleting have "\<exists>err. r = Err err" by auto
        with deleting 2 ok show ?thesis
          by (intro that(2)) (auto simp: undo_graphs_artifacts undo_possible_def)
      qed (use deleting \<open>r \<noteq> Panic\<close> in simp)
    qed
  qed
qed

text \<open>
  C22. A deletion that succeeds leaves nothing of the document: no chunk, in memory or in the file,
  no graph, no metadata, no record; the other documents keep their chunks and graphs; and
  the counters of the base are lowered by one document and by the chunks that were removed.
\<close>

theorem deletion_complete:
  assumes run: "delete_document_data mo parse to_text e w doc s = (s', Ok u)" and w: "commit_rely w"
    and meta: "\<And>t. co_meta (w t) = co_meta t"
  shows "(\<forall>d. chunks_for_document d (ix_engine (co_index s')) =
       (if d = dc_id doc then [] else chunks_for_document d (ix_engine (co_index s)))) \<and>
    dk_file (ix_disk (co_index s')) = Some (ix_engine (co_index s')) \<and>
    (\<forall>d. checkpoint_of d (gs_artifacts (co_graphs s')) =
       (if d = dc_id doc then None else checkpoint_of d (gs_artifacts (co_graphs s)))) \<and>
    meta_lookup (dc_id doc) (dc_kb_id doc) (st_mem (co_meta s')) = None \<and>
    hget (st_mem (co_docs s')) (dc_id doc) = None \<and>
    st_mem (co_kbs s') = counts_deleted e doc s"
proof -
  have ok: "Ok u \<noteq> Panic" "is_ok (Ok u) \<or> P" for P by simp_all
  have none: "all_of_doc (dc_id doc) []" by (simp add: all_of_doc_def)
  from run show ?thesis
  proof (rule delete_stores_cases [OF _ ok])
    fix ix g k
    assume dm: "delete_metadata mo to_text e w doc (undo_delete mo e doc (chunks_removed doc s)
         (chunks_for_document (dc_id doc) (ix_engine (co_index s))) (gs_artifacts (co_graphs s)))
         (s\<lparr>co_index := ix, co_graphs := g, co_kbs := k\<rparr>) = (s', Ok u)"
      and stores: "ix_engine ix = replace_document (dc_id doc) [] (ix_engine (co_index s))"
        "dk_file (ix_disk ix) = Some (ix_engine ix)"
        "gs_artifacts g = replace_checkpoint (dc_id doc) None (gs_artifacts (co_graphs s))"
        "st_mem k = counts_deleted e doc s"
    from dm ok(1) w show ?thesis
      by (rule delete_metadata_cases)
         (use stores w meta in \<open>simp_all add: commit_rely_def engine.look_replace_if [OF none]
            graphs.look_replace_if\<close>)
  qed simp_all
qed

text \<open>
  C31. A deletion that fails leaves the chunks of every document, the graphs, the counters and the
  records as they were, when the index is valid, the writes of the undoing go through, no counter is cut off and
  nobody else changes index, graphs or counters meanwhile.
\<close>

theorem failed_deletion_undone:
  assumes run: "delete_document_data mo parse to_text e w doc s = (s', Err err)"
    and valid: "list_all (valid_chunk parse) (ix_engine (co_index s))"
    and undo: "undo_possible e" and w: "commit_rely w"
    and small: "\<And>c d. counts_of (dc_kb_id doc) (st_mem (co_kbs s)) = Some (c, d) \<Longrightarrow>
      c < 2 ^ 63 \<and> d < 2 ^ 63 \<and> c - chunks_removed doc s < 2 ^ 63 \<and> d - 1 < 2 ^ 63"
  shows "same_content s s' \<and>
    (st_mem (co_docs s') = st_mem (co_docs s) \<or>
     (\<exists>v. co_docs v = co_docs s \<and> st_mem (co_docs s') = st_mem (co_docs (w v))))"
proof -
  have none: "all_of_doc (dc_id doc) []" by (simp add: all_of_doc_def)
  have ok: "Err err \<noteq> Panic" "is_ok (Err err) \<or> list_all (valid_chunk parse) (ix_engine (co_index s)) \<and> undo_possible e"
    using valid undo by simp_all
  from run show ?thesis
  proof (rule delete_stores_cases [OF _ ok])
    fix ix g k
    assume dm: "delete_metadata mo to_text e w doc (undo_delete mo e doc (chunks_removed doc s)
         (chunks_for_document (dc_id doc) (ix_engine (co_index s))) (gs_artifacts (co_graphs s)))
         (s\<lparr>co_index := ix, co_graphs := g, co_kbs := k\<rparr>) = (s', Err err)"
      and ix: "ix_engine ix = replace_document (dc_id doc) [] (ix_engine (co_index s))"
      and k: "st_mem k = counts_deleted e doc s" "\<not> st_poisoned k"
    from dm ok(1) w show ?thesis
    proof (rule delete_metadata_cases)
      fix v
      assume s': "s' = undo_delete mo e doc (chunks_removed doc s)
          (chunks_for_document (dc_id doc) (ix_engine (co_index s))) (gs_artifacts (co_graphs s)) v"
        and v: "co_index v = co_index (s\<lparr>co_index := ix, co_graphs := g, co_kbs := k\<rparr>)"
          "co_kbs v = co_kbs (s\<lparr>co_index := ix, co_graphs := g, co_kbs := k\<rparr>)"
          "st_mem (co_docs v) = st_mem (co_docs (s\<lparr>co_index := ix, co_graphs := g, co_kbs := k\<rparr>)) \<or>
           (\<exists>x. co_docs x = co_docs (s\<lparr>co_index := ix, co_graphs := g, co_kbs := k\<rparr>) \<and>
                st_mem (co_docs v) = st_mem (co_docs (w x)))"
      from k(2) v(2) have alive: "\<not> st_poisoned (co_kbs v)" by simp
      note eff = undo_delete_effect [OF undo alive, of mo doc "chunks_removed doc s"
          "chunks_for_document (dc_id doc) (ix_engine (co_index s))" "gs_artifacts (co_graphs s)", folded s']
      have "counts_of i (st_mem (co_kbs s')) = counts_of i (st_mem (co_kbs s))" for i
        using counts_step_there_and_back [of "dc_kb_id doc" "st_mem (co_kbs s)" "- chunks_removed doc s" "- 1",
            OF _ k(1) [unfolded counts_deleted_def], of i] small eff v(2)
        by simp
      with eff v ix show ?thesis by (auto intro: same_content_undone [OF none])
    qed simp
  qed (auto intro: same_content_undone [OF none])
qed

section \<open>Parsing a document again\<close>

definition reparse_counter_release :: "string \<Rightarrow> 'j doc_store \<Rightarrow> (string \<times> u64) option res" where
  "reparse_counter_release i docs =
     res_bind (doc_get i docs) (\<lambda>found. case found of
         None \<Rightarrow> Err (''Document not found: '' @ i)
       | Some d \<Rightarrow> if dc_chunk_count d = 0 then Ok None else Ok (Some (dc_kb_id d, - dc_chunk_count d)))"

text \<open>Both writes only log their errors.\<close>

definition release_counters :: "commit_env \<Rightarrow> string \<Rightarrow> ('m, 'j) corpus \<Rightarrow> ('m, 'j) corpus" where
  "release_counters e i s =
     (case reparse_counter_release i (co_docs s) of
        Ok (Some (kb, delta)) \<Rightarrow>
          let s = s\<lparr>co_kbs := fst (update_counts (cm_kbs e) (cm_kbs_now e) kb delta 0 (co_kbs s))\<rparr>
          in s\<lparr>co_docs := fst (set_chunk_count (cm_docs e) (cm_docs_now e) i 0 (co_docs s))\<rparr>
      | _ \<Rightarrow> s)"

text \<open>\<open>reset_env\<close> and \<open>now\<close> are those of the first write of the record.\<close>

definition reset_document_for_reparse ::
    "'m mirror_ops \<Rightarrow> (string \<Rightarrow> json option) \<Rightarrow> commit_env \<Rightarrow> write_env \<Rightarrow> u64 \<Rightarrow> 'j doc_record \<Rightarrow>
     string option \<Rightarrow> string \<Rightarrow> ('m, 'j) corpus \<Rightarrow> ('m, 'j) corpus \<times> unit res" where
  "reset_document_for_reparse mo parse e reset_env now doc parser_id pipeline_id s =
     (case reset_for_reparse reset_env now (dc_id doc) parser_id pipeline_id (co_docs s) of
        (d, Ok True) \<Rightarrow>
          (let s = release_counters e (dc_id doc) (s\<lparr>co_docs := d\<rparr>);
               previous = ix_engine (co_index s);
               ix = (co_index s)\<lparr>ix_engine := fst (remove_document (dc_id doc) previous)\<rparr>
           in case persist_online_index mo parse (cm_index e) previous ix of
                (ix, Err err) \<Rightarrow>
                  (s\<lparr>co_index := ix\<rparr>, Err (''Failed to commit online search index: '' @ err))
              | (ix, r) \<Rightarrow> (s\<lparr>co_index := ix\<rparr>, r))
      | (d, Ok False) \<Rightarrow> (s\<lparr>co_docs := d\<rparr>, Err ''document not found'')
      | (d, Err err) \<Rightarrow> (s\<lparr>co_docs := d\<rparr>, Err err)
      | (d, Panic) \<Rightarrow> (s\<lparr>co_docs := d\<rparr>, Panic))"

lemma persist_online_index_Err:
  assumes "persist_online_index mo parse e previous ix = (ix', Err err)"
    and "list_all (valid_chunk parse) (ix_engine ix)"
  shows "ix_engine ix' = previous"
proof -
  have "validate_snapshot parse (ix_engine ix) = Ok ()" using assms(2) by (simp add: validate_snapshot_Ok)
  with assms(1) show ?thesis
    by (auto simp: persist_online_index_def mirror_quiet_def split: prod.splits option.splits res.splits)
qed

lemma doc_write_succeeds:
  assumes "write_succeeds e" and "\<not> st_poisoned st" and "hget (st_mem st) i = Some d"
  shows "\<exists>st'. doc_mutate_if_changed e (with_doc i f) st = (st', Ok True) \<and> \<not> st_poisoned st' \<and>
    st_mem st' = (if snd (f d) then hput i (fst (f d)) (st_mem st) else st_mem st)"
proof -
  obtain d' b where f: "f d = (d', b)" by fastforce
  obtain dk where "atomic_write_with_mirror e (hvalues (hput i d' (st_mem st))) (st_disk st) = (dk, Ok ())"
    using assms(1) by (rule write_succeedsE)
  with f assms(2,3) show ?thesis
    by (cases b) (auto simp: doc_mutate_if_changed_def tx_mutate_if_changed_def with_doc_def Let_def)
qed

text \<open>
  The counters are released before the index is changed and are not taken back: when the index
  cannot be persisted, the request fails and the chunks stay, but the record says the document has none.
\<close>

theorem failed_reparse_uncounts:
  assumes run: "reset_document_for_reparse mo parse e reset_env now doc parser_id pipeline_id s = (s', Err err)"
    and get: "hget (st_mem (co_docs s)) (dc_id doc) = Some d" and alive: "\<not> st_poisoned (co_docs s)"
    and writes: "write_succeeds reset_env" "write_succeeds (cm_docs e)"
    and valid: "list_all (valid_chunk parse) (ix_engine (co_index s))"
  shows "ix_engine (co_index s') = ix_engine (co_index s) \<and>
    (\<exists>d'. hget (st_mem (co_docs s')) (dc_id doc) = Some d' \<and> dc_chunk_count d' = 0)"
proof -
  let ?f = "\<lambda>d. (d\<lparr>dc_run := ''UNSTARTED'', dc_progress := Fin 0, dc_progress_msg := [],
      dc_parser_id := (case parser_id of None \<Rightarrow> dc_parser_id d | Some p \<Rightarrow> Some p),
      dc_pipeline_id := (if pipeline_id = [] then None else Some pipeline_id), dc_updated_at := now\<rparr>, True)"
  obtain st where st: "reset_for_reparse reset_env now (dc_id doc) parser_id pipeline_id (co_docs s) = (st, Ok True)"
      "\<not> st_poisoned st" "st_mem st = hput (dc_id doc) (fst (?f d)) (st_mem (co_docs s))"
    using doc_write_succeeds [OF writes(1) alive get, of ?f] unfolding reset_for_reparse_def by auto
  let ?g = "\<lambda>d. if dc_chunk_count d = 0 then (d, False) else (d\<lparr>dc_chunk_count := 0, dc_updated_at := cm_docs_now e\<rparr>, True)"
  have got: "hget (st_mem st) (dc_id doc) = Some (fst (?f d))" using st(3) by simp
  obtain st2 where st2: "set_chunk_count (cm_docs e) (cm_docs_now e) (dc_id doc) 0 st = (st2, Ok True)"
      "st_mem st2 = (if snd (?g (fst (?f d))) then hput (dc_id doc) (fst (?g (fst (?f d)))) (st_mem st) else st_mem st)"
    using doc_write_succeeds [OF writes(2) st(2) got, of ?g] unfolding set_chunk_count_def by auto
  let ?s = "release_counters e (dc_id doc) (s\<lparr>co_docs := st\<rparr>)"
  have released: "co_index ?s = co_index s"
    "\<exists>d'. hget (st_mem (co_docs ?s)) (dc_id doc) = Some d' \<and> dc_chunk_count d' = 0"
    using got st(2) st2
    by (auto simp: release_counters_def reparse_counter_release_def doc_get_def tx_read_def Let_def)
  obtain ix r where per: "persist_online_index mo parse (cm_index e) (ix_engine (co_index s))
      ((co_index s)\<lparr>ix_engine := fst (remove_document (dc_id doc) (ix_engine (co_index s)))\<rparr>) = (ix, r)"
    by fastforce
  with run st(1) released(1) obtain err' where "r = Err err'" and s': "s' = ?s\<lparr>co_index := ix\<rparr>"
    by (auto simp: reset_document_for_reparse_def Let_def split: res.splits)
  moreover have "list_all (valid_chunk parse) (fst (remove_document (dc_id doc) (ix_engine (co_index s))))"
    using valid by (simp add: remove_document_def Let_def list_all_iff)
  ultimately have "ix_engine ix = ix_engine (co_index s)"
    using persist_online_index_Err [of mo parse "cm_index e"] per by simp
  with released(2) show ?thesis by (simp add: s')
qed

end
