(* ===== verification/Document_Commit_Spec.thy ===== *)
theory Document_Commit_Spec
  imports Document_Removal
begin

text \<open>
  What the commits keep, over whole runs of commits and deletions, and the properties at
  concrete stores.
\<close>

section \<open>The invariant of the stores\<close>

definition docs_in :: "string \<Rightarrow> 'j docs \<Rightarrow> nat" where
  "docs_in kb docs = length (filter (\<lambda>k. k = kb) (map dc_kb_id (hvalues docs)))"

definition corpus_ok :: "(string \<Rightarrow> json option) \<Rightarrow> ('m, 'j) corpus \<Rightarrow> bool" where
  "corpus_ok parse s \<longleftrightarrow> counted s \<and> list_all (valid_chunk parse) (ix_engine (co_index s)) \<and>
     length (st_mem (co_docs s)) < 2 ^ 63 \<and>
     (\<forall>k kb. hget (st_mem (co_kbs s)) k = Some kb \<longrightarrow>
        unat (kb_doc_count kb) = docs_in k (st_mem (co_docs s)))"














section \<open>Concrete runs\<close>

definition plain_mirror :: "unit mirror_ops" where
  "plain_mirror = \<lparr>mo_replace = (\<lambda>kb old new m. (m, None)), mo_sync = (\<lambda>old new m. (m, None))\<rparr>"

text \<open>No metadata text of the examples is JSON.\<close>

abbreviation no_json :: "string \<Rightarrow> json option" where
  "no_json \<equiv> \<lambda>_. None"

definition demo_chunk :: "string \<Rightarrow> string \<Rightarrow> indexed_chunk" where
  "demo_chunk doc i = \<lparr>ic_id = i, ic_doc_name = ''notes'', ic_content = ''text'', ic_embedding = [],
     ic_token_count = 1, ic_position = 0, ic_metadata = [(''doc_id'', doc), (''kb_id'', ''k1'')]\<rparr>"

text \<open>A chunk with a field that must hold a JSON array and does not.\<close>

definition misfit_chunk :: "string \<Rightarrow> indexed_chunk" where
  "misfit_chunk doc = (demo_chunk doc ''misfit'')\<lparr>ic_metadata := [(''doc_id'', doc), (''parts_nst'', ''none'')]\<rparr>"

definition filed :: "'m \<Rightarrow> 'd \<Rightarrow> ('m, 'd) tx_store" where
  "filed m d = \<lparr>st_mem = m, st_disk = \<lparr>dk_file = Some d, dk_mirror = None\<rparr>, st_poisoned = False\<rparr>"

definition demo_corpus :: "(unit, nat) corpus" where
  "demo_corpus =
     (let kbs = [(''k1'', (demo_kb ''k1'' ''notes'' ''alice'' ''me'')\<lparr>kb_chunk_count := 1, kb_doc_count := 2\<rparr>)];
          docs = [(''d1'', demo_doc ''d1'' ''a.txt''), (''d2'', (demo_doc ''d2'' ''b.txt'')\<lparr>dc_chunk_count := 1\<rparr>)];
          chunks = [demo_chunk ''d2'' ''old'']
      in \<lparr>co_index = \<lparr>ix_engine = chunks, ix_disk = \<lparr>dk_file = Some chunks, dk_mirror = None\<rparr>, ix_mirror = ()\<rparr>,
          co_graphs = \<lparr>gs_artifacts = artifacts_default, gs_disk = \<lparr>dk_file = None, dk_mirror = None\<rparr>\<rparr>,
          co_kbs = filed kbs (hvalues kbs), co_docs = filed docs (hvalues docs), co_meta = filed [] [],
          co_tasks = demo_queue [demo_claimed]\<rparr>)"

definition demo_commit_env :: commit_env where
  "demo_commit_env =
     \<lparr>cm_now = 2100, cm_index = we_all_ok, cm_graphs = None, cm_kbs = we_all_ok, cm_kbs_now = 2101,
      cm_meta = None, cm_docs = we_all_ok, cm_docs_now = 2102, cm_tasks = None, cm_tasks_now = 2103,
      cm_meta_back = None, cm_graphs_back = None, cm_kbs_back = we_all_ok, cm_kbs_back_now = 2104,
      cm_index_back = we_all_ok\<rparr>"

definition demo_committed :: "commit_env \<Rightarrow> string \<Rightarrow> (unit, nat) corpus \<times> unit res" where
  "demo_committed e doc = commit_indexed_document plain_mirror no_json e (\<lambda>s. s) (demo_doc doc ''a.txt'')
     ''t1'' ''tok'' [demo_chunk doc ''new'', demo_chunk doc ''newer''] None ''Indexed 2 chunks'' demo_corpus"

lemma demo_corpus_parts:
  "hget (st_mem (co_docs demo_corpus)) ''d2'' = Some ((demo_doc ''d2'' ''b.txt'')\<lparr>dc_chunk_count := 1\<rparr>)"
  "counts_of ''k1'' (st_mem (co_kbs demo_corpus)) = Some (1, 2)"
  "total_chunks ''k1'' (st_mem (co_docs demo_corpus)) = 1"
  "ix_engine (co_index demo_corpus) = [demo_chunk ''d2'' ''old'']"
  "\<not> st_poisoned (co_docs demo_corpus)"
  by (simp_all add: demo_corpus_def filed_def counts_of_def total_chunks_def demo_doc_def Let_def)

lemma demo_valid: "list_all (valid_chunk no_json) [demo_chunk ''d2'' i]"
  by code_simp

lemma demo_own: "all_of_doc doc [demo_chunk doc i, demo_chunk doc j]"
  by (simp add: all_of_doc_def demo_chunk_def chunk_meta_def)

lemma demo_chunks_valid: "list_all (valid_chunk no_json) [demo_chunk ''d2'' ''new'', demo_chunk ''d2'' ''newer'']"
  by code_simp

lemma demo_corpus_ok: "corpus_ok no_json demo_corpus"
proof -
  have "counted demo_corpus"
    by (auto simp: counted_def demo_corpus_def filed_def Let_def keyed_def demo_doc_def demo_kb_def
        chunks_for_document_def demo_chunk_def chunk_meta_def total_chunks_def split: if_splits)
  moreover have "list_all (valid_chunk no_json) (ix_engine (co_index demo_corpus))"
    by (simp only: demo_corpus_parts demo_valid)
  ultimately show ?thesis
    by (auto simp: corpus_ok_def demo_corpus_def filed_def Let_def demo_kb_def demo_doc_def docs_in_def
        split: if_splits)
qed

lemma demo_rely: "commit_rely (\<lambda>s. s)"
  by (simp add: commit_rely_def)

text \<open>The run of \<open>commit_indexed_document\<close> that stores two chunks, and one whose last write fails.\<close>

lemma demo_commit_done: "demo_committed demo_commit_env ''d2'' = (fst (demo_committed demo_commit_env ''d2''), Ok ())"
proof -
  have "snd (demo_committed demo_commit_env ''d2'') = Ok ()" by code_simp
  then show ?thesis by (metis prod.collapse)
qed

definition full_disk_env :: commit_env where
  "full_disk_env = demo_commit_env\<lparr>cm_docs := we_disk_full\<rparr>"

lemma demo_commit_failed:
  "demo_committed full_disk_env ''d2'' = (fst (demo_committed full_disk_env ''d2''), Err ''Failed to mark document as indexed'')"
proof -
  have "snd (demo_committed full_disk_env ''d2'') = Err ''Failed to mark document as indexed''" by code_simp
  then show ?thesis by (metis prod.collapse)
qed

lemma full_disk_undo: "undo_possible full_disk_env" "undo_possible demo_commit_env"
  by (simp_all add: undo_possible_def full_disk_env_def demo_commit_env_def persist_succeeds_def)

theorem commit_complete_witness:
  "chunks_for_document ''d2'' (ix_engine (co_index (fst (demo_committed demo_commit_env ''d2'')))) =
     [demo_chunk ''d2'' ''new'', demo_chunk ''d2'' ''newer'']"
proof -
  have "dc_id (demo_doc ''d2'' ''a.txt'') = ''d2''" by (simp add: demo_doc_def)
  with commit_complete [OF demo_commit_done [unfolded demo_committed_def] _ demo_rely] demo_own
  show ?thesis unfolding demo_committed_def by auto
qed

theorem commit_keeps_counts_witness:
  "counted (fst (demo_committed demo_commit_env ''d2''))"
proof -
  have d: "dc_id (demo_doc ''d2'' ''a.txt'') = ''d2''" "dc_kb_id (demo_doc ''d2'' ''a.txt'') = ''k1''"
    by (simp_all add: demo_doc_def)
  have "counted demo_corpus" using demo_corpus_ok by (simp add: corpus_ok_def)
  with commit_keeps_counts [OF demo_commit_done [unfolded demo_committed_def]] demo_own demo_corpus_parts(3)
  show ?thesis unfolding demo_committed_def by (simp add: d)
qed

theorem failed_commit_undone_witness:
  "same_content demo_corpus (fst (demo_committed full_disk_env ''d2''))"
proof -
  have d: "dc_id (demo_doc ''d2'' ''a.txt'') = ''d2''" "dc_kb_id (demo_doc ''d2'' ''a.txt'') = ''k1''"
    by (simp_all add: demo_doc_def)
  let ?new = "[demo_chunk ''d2'' ''new'', demo_chunk ''d2'' ''newer'']"
  have "list_all (valid_chunk no_json) (replace_document ''d2'' ?new (ix_engine (co_index demo_corpus)))"
    using demo_chunks_valid
    by (simp add: replace_document_eq demo_corpus_parts) (simp add: demo_chunk_def chunk_meta_def)
  moreover have "no_cut_off (demo_doc ''d2'' ''a.txt'') ?new demo_corpus"
    by (simp add: no_cut_off_def d demo_corpus_parts)
  ultimately show ?thesis
    using failed_commit_undone [OF demo_commit_failed [unfolded demo_committed_def] _ _ full_disk_undo(1) demo_rely]
      demo_own unfolding demo_committed_def by (simp add: d)
qed

theorem rejected_commit_blocks_others_witness:
  "\<exists>s' err. commit_indexed_document plain_mirror no_json demo_commit_env (\<lambda>s. s) (demo_doc ''d2'' ''a.txt'')
     ''t1'' ''tok'' [misfit_chunk ''d2''] None [] demo_corpus = (s', Err err) \<and>
     chunks_for_document ''d2'' (ix_engine (co_index s')) = [misfit_chunk ''d2'']"
proof -
  let ?cur = "(demo_doc ''d2'' ''b.txt'')\<lparr>dc_chunk_count := 1\<rparr>"
  have owns: "tq_owns_lease 2100 ''t1'' ''tok'' (co_tasks demo_corpus) = Ok True" by code_simp
  have "commit_ready demo_commit_env (demo_doc ''d2'' ''a.txt'') ''t1'' ''tok'' ?cur demo_corpus"
    using owns
    by (simp add: commit_ready_def demo_commit_env_def)
       (simp add: demo_corpus_def filed_def Let_def demo_doc_def)
  moreover have "all_of_doc (dc_id (demo_doc ''d2'' ''a.txt'')) [misfit_chunk ''d2'']"
    by (simp add: all_of_doc_def misfit_chunk_def chunk_meta_def demo_doc_def)
  moreover have "\<not> valid_chunk no_json (misfit_chunk ''d2'')" by code_simp
  ultimately show ?thesis
    using rejected_commit_blocks_others [where c = "misfit_chunk ''d2''" and indexed = "[misfit_chunk ''d2'']"
        and s = demo_corpus and parse = no_json and e = demo_commit_env and task = "''t1''" and token = "''tok''"
        and doc = "demo_doc ''d2'' ''a.txt''" and cur = ?cur and mo = plain_mirror and w = "\<lambda>s. s"
        and checkpoint = None and msg = "[]"]
    by (auto simp: demo_doc_def)
qed

definition demo_deleted :: "commit_env \<Rightarrow> (unit, nat) corpus \<times> unit res" where
  "demo_deleted e = delete_document_data plain_mirror no_json (\<lambda>_. []) e (\<lambda>s. s) (demo_doc ''d2'' ''b.txt'') demo_corpus"

theorem deletion_complete_witness:
  "\<forall>d. chunks_for_document d (ix_engine (co_index (fst (demo_deleted demo_commit_env)))) =
     (if d = ''d2'' then [] else chunks_for_document d (ix_engine (co_index demo_corpus)))"
proof -
  have "snd (demo_deleted demo_commit_env) = Ok ()" by code_simp
  then have "demo_deleted demo_commit_env = (fst (demo_deleted demo_commit_env), Ok ())" by (metis prod.collapse)
  moreover have "dc_id (demo_doc ''d2'' ''b.txt'') = ''d2''" by (simp add: demo_doc_def)
  ultimately show ?thesis
    using deletion_complete [OF _ demo_rely refl, of plain_mirror no_json "\<lambda>_. []" demo_commit_env
        "demo_doc ''d2'' ''b.txt''" demo_corpus]
    unfolding demo_deleted_def by metis
qed

theorem failed_deletion_undone_witness:
  "same_content demo_corpus (fst (demo_deleted full_disk_env))"
proof -
  have "snd (demo_deleted full_disk_env) = Err ''Failed to delete document metadata''" by code_simp
  then have run: "demo_deleted full_disk_env =
      (fst (demo_deleted full_disk_env), Err ''Failed to delete document metadata'')" by (metis prod.collapse)
  have valid: "list_all (valid_chunk no_json) (ix_engine (co_index demo_corpus))"
    by (simp only: demo_corpus_parts demo_valid)
  have d: "dc_id (demo_doc ''d2'' ''b.txt'') = ''d2''" "dc_kb_id (demo_doc ''d2'' ''b.txt'') = ''k1''"
    by (simp_all add: demo_doc_def)
  have "chunks_removed (demo_doc ''d2'' ''b.txt'') demo_corpus = 1"
    by (simp add: chunks_removed_def d demo_corpus_parts chunks_for_document_def)
       (simp add: demo_chunk_def chunk_meta_def)
  then have "c < 2 ^ 63 \<and> n < 2 ^ 63 \<and> c - chunks_removed (demo_doc ''d2'' ''b.txt'') demo_corpus < 2 ^ 63 \<and> n - 1 < 2 ^ 63"
    if "counts_of (dc_kb_id (demo_doc ''d2'' ''b.txt'')) (st_mem (co_kbs demo_corpus)) = Some (c, n)" for c n
    using that by (simp add: d demo_corpus_parts)
  from failed_deletion_undone [OF run [unfolded demo_deleted_def] valid full_disk_undo(1) demo_rely this]
  show ?thesis unfolding demo_deleted_def by blast
qed

theorem failed_reparse_uncounts_witness:
  "let s' = fst (reset_document_for_reparse plain_mirror no_json (demo_commit_env\<lparr>cm_index := we_disk_full\<rparr>)
       we_all_ok 2100 (demo_doc ''d2'' ''b.txt'') None [] demo_corpus)
   in ix_engine (co_index s') = [demo_chunk ''d2'' ''old''] \<and>
      (\<exists>d'. hget (st_mem (co_docs s')) ''d2'' = Some d' \<and> dc_chunk_count d' = 0)"
proof -
  let ?run = "reset_document_for_reparse plain_mirror no_json (demo_commit_env\<lparr>cm_index := we_disk_full\<rparr>)
       we_all_ok 2100 (demo_doc ''d2'' ''b.txt'') None [] demo_corpus"
  have "snd ?run = Err ''Failed to commit online search index: write_all''" by code_simp
  then have run: "?run = (fst ?run, Err ''Failed to commit online search index: write_all'')" by (metis prod.collapse)
  have valid: "list_all (valid_chunk no_json) (ix_engine (co_index demo_corpus))"
    by (simp only: demo_corpus_parts demo_valid)
  have d: "dc_id (demo_doc ''d2'' ''b.txt'') = ''d2''" by (simp add: demo_doc_def)
  have "write_succeeds (cm_docs (demo_commit_env\<lparr>cm_index := we_disk_full\<rparr>))" by (simp add: demo_commit_env_def)
  from failed_reparse_uncounts [OF run _ demo_corpus_parts(5) write_succeeds_we_all_ok this valid]
    demo_corpus_parts(1,4) d
  show ?thesis by (simp add: Let_def)
qed


end
