(* ===== verification/Rust_F32_Ops.thy ===== *)
theory Rust_F32_Ops
  imports Rust_F32_Arith
begin

text \<open>
  The sums, quotients and square roots of \<open>f32\<close>, each rounded once to the nearest single. The
  sign of zero is not kept: a quotient by zero takes the zero as positive, which it is where the
  program divides (by a count, or by a product of norms).
\<close>

fun f32_add :: "f32 \<Rightarrow> f32 \<Rightarrow> f32" where
  "f32_add (Fin p) (Fin q) = f32_round (p + q)"
| "f32_add (Infinite s) (Infinite t) = (if s = t then Infinite s else NaN)"
| "f32_add (Infinite s) (Fin q) = Infinite s"
| "f32_add (Fin p) (Infinite t) = Infinite t"
| "f32_add _ _ = NaN"

fun f32_div :: "f32 \<Rightarrow> f32 \<Rightarrow> f32" where
  "f32_div (Fin p) (Fin q) =
     (if q = 0 then if p = 0 then NaN else Infinite (0 < p) else f32_round (p / q))"
| "f32_div (Infinite s) (Fin q) = Infinite (s = (0 \<le> q))"
| "f32_div (Fin p) (Infinite t) = Fin 0"
| "f32_div _ _ = NaN"

text \<open>\<open>x.clamp(lo, hi)\<close>.\<close>

definition f32_clamp :: "f32 \<Rightarrow> f32 \<Rightarrow> f32 \<Rightarrow> f32" where
  "f32_clamp lo hi x = (if f32_lt x lo then lo else if f32_lt hi x then hi else x)"

section \<open>Square roots\<close>

function isqrt :: "int \<Rightarrow> int" where
  "isqrt n =
     (if n \<le> 0 then 0
      else let r = 2 * isqrt (n div 4) in if (r + 1) * (r + 1) \<le> n then r + 1 else r)"
  by pat_completeness auto

termination
  by (relation "measure nat") auto

declare isqrt.simps [simp del]

lemma isqrt_bounds: "0 \<le> n \<Longrightarrow> 0 \<le> isqrt n \<and> isqrt n * isqrt n \<le> n \<and> n < (isqrt n + 1) * (isqrt n + 1)"
proof (induction n rule: isqrt.induct)
  case (1 n)
  show ?case
  proof (cases "n \<le> 0")
    case True then show ?thesis using "1.prems" by (simp add: isqrt.simps)
  next
    case False
    let ?s = "isqrt (n div 4)"
    from False have "0 \<le> n div 4" by simp
    from "1.IH" [OF False this] have pos: "0 \<le> ?s" and lo: "?s * ?s \<le> n div 4"
      and hi: "n div 4 < (?s + 1) * (?s + 1)" by auto
    from lo have "4 * (?s * ?s) \<le> n" by linarith
    then have lo: "2 * ?s * (2 * ?s) \<le> n" by simp
    from hi have "n < 4 * ((?s + 1) * (?s + 1))" by linarith
    then have hi: "n < (2 * ?s + 2) * (2 * ?s + 2)" by (simp add: algebra_simps)
    have "isqrt n = (if (2 * ?s + 1) * (2 * ?s + 1) \<le> n then 2 * ?s + 1 else 2 * ?s)"
      using False by (subst isqrt.simps) (simp add: Let_def)
    then show ?thesis using pos lo hi by (auto simp: algebra_simps)
  qed
qed

fun f32_sqrt :: "f32 \<Rightarrow> f32" where
  "f32_sqrt (Fin q) =
     (if q < 0 then NaN
      else if q = 0 then Fin 0
      else let u = pow2 (max (exponent_of q div 2 - 23) (- 149));
               x = q / (u * u);
               n = isqrt (floor x);
               m = (if (of_int (2 * n + 1))\<^sup>2 < 4 * x \<or> (of_int (2 * n + 1))\<^sup>2 = 4 * x \<and> odd n
                    then n + 1 else n)
           in Fin (of_int m * u))"
| "f32_sqrt (Infinite s) = (if s then Infinite True else NaN)"
| "f32_sqrt NaN = NaN"

text \<open>
  The significand is the nearest integer to the root of the scaled argument: the root lies
  within one half of it.
\<close>

lemma isqrt_nearest:
  fixes x :: rat
  assumes "0 \<le> x" and n: "n = isqrt (floor x)"
    and m: "m = (if (of_int (2 * n + 1))\<^sup>2 < 4 * x \<or> (of_int (2 * n + 1))\<^sup>2 = 4 * x \<and> odd n then n + 1 else n)"
  shows "m = 0 \<or> (of_int (2 * m) - 1)\<^sup>2 \<le> 4 * x" and "4 * x \<le> (of_int (2 * m) + 1)\<^sup>2"
proof -
  have b: "0 \<le> n" "n * n \<le> floor x" "floor x + 1 \<le> (n + 1) * (n + 1)"
    using isqrt_bounds [of "floor x"] assms(1) by (simp_all add: n)
  from b(2) have lo: "(of_int n :: rat) * of_int n \<le> x" by (simp only: le_floor_iff of_int_mult)
  from b(3) have "(of_int (floor x + 1) :: rat) \<le> of_int ((n + 1) * (n + 1))" by (simp only: of_int_le_iff)
  then have hi: "x < (of_int n + 1) * (of_int n + 1)"
    using floor_correct [of x] by (simp only: of_int_add of_int_mult of_int_1) linarith
  show "m = 0 \<or> (of_int (2 * m) - 1)\<^sup>2 \<le> 4 * x"
  proof (cases "m = n")
    case True
    have "(2 * of_int n - 1 :: rat)\<^sup>2 \<le> 4 * (of_int n * of_int n)" if "n \<noteq> 0"
    proof -
      have "(1::rat) \<le> of_int n" using that b(1) by simp
      then show ?thesis by (simp add: power2_eq_square algebra_simps)
    qed
    with True lo show ?thesis by (cases "n = 0") auto
  next
    case False
    then have "m = n + 1" and "(of_int (2 * n + 1))\<^sup>2 \<le> 4 * x" using m by (auto split: if_splits)
    then show ?thesis by (simp add: algebra_simps)
  qed
  show "4 * x \<le> (of_int (2 * m) + 1)\<^sup>2"
  proof (cases "m = n")
    case True
    then have "4 * x \<le> (of_int (2 * n + 1))\<^sup>2" using m by (auto split: if_splits)
    then show ?thesis using True by (simp add: algebra_simps)
  next
    case False
    then have "m = n + 1" using m by (auto split: if_splits)
    then have "4 * ((of_int n + 1) * (of_int n + 1)) \<le> (of_int (2 * m) + 1 :: rat)\<^sup>2"
      using b(1) by (simp add: power2_eq_square algebra_simps)
    with hi show ?thesis by linarith
  qed
qed

section \<open>Orders and zeros\<close>

lemma f32_round_0 [simp]: "f32_round 0 = Fin 0"
  by (simp add: f32_round_def)

lemma f32_mul_0_0 [simp]: "f32_add (Fin 0) (Fin 0) = Fin 0"
  by simp

lemma f32_le_trans: "f32_le x y \<Longrightarrow> f32_le y z \<Longrightarrow> f32_le x z"
  by (cases x; cases y; cases z) (auto split: if_splits)

lemma f32_lt_imp_le: "f32_lt x y \<Longrightarrow> f32_le x y"
  by (simp add: f32_lt_def)

lemma f32_le_lt_trans: "f32_le x y \<Longrightarrow> f32_lt y z \<Longrightarrow> f32_lt x z"
  by (meson f32_le_trans f32_lt_def)

lemma f32_lt_irrefl [simp]: "\<not> f32_lt x x"
  by (simp add: f32_lt_def)

lemma f32_div_0: "f32_div (Fin 0) y = Fin 0 \<or> f32_div (Fin 0) y = NaN"
  by (cases y) auto

end
