(* ===== verification/Raptor.thy ===== *)
theory Raptor
  imports Rust_F32_Ops Rust_Split Search_Index "HOL-Library.List_Lexorder" "HOL-Library.Char_ord"
begin

text \<open>
  The tree of summaries of a document (\<^verbatim>\<open>raptor.rs\<close>, and \<open>build_raptor_chunks\<close> of \<^verbatim>\<open>server.rs\<close>):
  chunks are clustered by the cosine similarity of their embeddings, each cluster becomes a node
  with an extractive summary, and the nodes are clustered again, layer by layer. The nodes above
  the leaves are indexed beside the chunks.
\<close>

section \<open>Nodes\<close>

record raptor_node =
  rn_id :: string
  rn_content :: string
  rn_embedding :: "f32 list"
  rn_children :: "string list"
  rn_level :: nat
  rn_chunk_count :: nat
  rn_metadata :: "(string, string) hmap"

type_synonym raptor_nodes = "(string, raptor_node) hmap"

record raptor_tree =
  rt_nodes :: raptor_nodes
  rt_root :: "string option"
  rt_threshold :: f32
  rt_max_cluster :: nat
  rt_max_depth :: nat

definition raptor_new :: "f32 \<Rightarrow> raptor_tree" where
  "raptor_new threshold =
     \<lparr>rt_nodes = [], rt_root = None, rt_threshold = threshold, rt_max_cluster = 10, rt_max_depth = 5\<rparr>"

definition with_max_depth :: "nat \<Rightarrow> raptor_tree \<Rightarrow> raptor_tree" where
  "with_max_depth d t = t\<lparr>rt_max_depth := max d 1\<rparr>"

section \<open>Similarity\<close>

definition f32_sum :: "f32 list \<Rightarrow> f32" where
  "f32_sum xs = foldl f32_add (Fin 0) xs"

definition cosine_similarity :: "f32 list \<Rightarrow> f32 list \<Rightarrow> f32" where
  "cosine_similarity a b =
     (if a = [] \<or> b = [] \<or> length a \<noteq> length b then Fin 0
      else let dot = f32_sum (map2 f32_mul a b);
               norm_a = f32_sqrt (f32_sum (map (\<lambda>x. f32_mul x x) a));
               norm_b = f32_sqrt (f32_sum (map (\<lambda>x. f32_mul x x) b))
           in if norm_a = Fin 0 \<or> norm_b = Fin 0 then Fin 0
              else f32_div dot (f32_mul norm_a norm_b))"

text \<open>The clusters hold indices into the nodes; here the nodes' embeddings are all that matters.\<close>

definition cluster_similarity :: "f32 list list \<Rightarrow> nat list \<Rightarrow> nat list \<Rightarrow> f32" where
  "cluster_similarity embs a b =
     (let sims = map (\<lambda>(i, j). cosine_similarity (embs ! i) (embs ! j)) (List.product a b)
      in if sims = [] then Fin 0 else f32_div (f32_sum sims) (f32_of_nat (length sims)))"

section \<open>Clustering\<close>

definition index_pairs :: "nat \<Rightarrow> (nat \<times> nat) list" where
  "index_pairs k = concat (map (\<lambda>i. map (Pair i) [Suc i..<k]) [0..<k])"

fun better_pair ::
    "raptor_tree \<Rightarrow> f32 list list \<Rightarrow> nat list list \<Rightarrow> nat \<times> nat \<Rightarrow>
     f32 \<times> (nat \<times> nat) option \<Rightarrow> f32 \<times> (nat \<times> nat) option" where
  "better_pair t embs cs (i, j) (best, p) =
     (if rt_max_cluster t < length (cs ! i) + length (cs ! j) then (best, p)
      else let sim = cluster_similarity embs (cs ! i) (cs ! j)
        in if f32_lt best sim \<and> f32_le (rt_threshold t) sim then (sim, Some (i, j)) else (best, p))"

definition best_pair :: "raptor_tree \<Rightarrow> f32 list list \<Rightarrow> nat list list \<Rightarrow> (nat \<times> nat) option" where
  "best_pair t embs cs = snd (fold (better_pair t embs cs) (index_pairs (length cs)) (Fin 0, None))"

definition merge_pair :: "nat \<Rightarrow> nat \<Rightarrow> nat list list \<Rightarrow> nat list list" where
  "merge_pair i j cs =
     (let cs = cs[i := cs ! i @ cs ! j] in take j cs @ drop (Suc j) cs)"

lemma index_pairs_iff: "(i, j) \<in> set (index_pairs k) \<longleftrightarrow> i < j \<and> j < k"
  by (auto simp: index_pairs_def image_iff intro!: bexI [of _ i])

lemma fold_better_pair:
  assumes "fold (better_pair t embs cs) ps (b, p) = (b', p')" and "f32_le (Fin 0) b"
  shows "f32_le (Fin 0) b' \<and>
    (p' = p \<or> (\<exists>i j. p' = Some (i, j) \<and> (i, j) \<in> set ps \<and>
       length (cs ! i) + length (cs ! j) \<le> rt_max_cluster t \<and>
       f32_lt (Fin 0) (cluster_similarity embs (cs ! i) (cs ! j)) \<and>
       f32_le (rt_threshold t) (cluster_similarity embs (cs ! i) (cs ! j))))"
  using assms
proof (induction ps arbitrary: b p)
  case Nil then show ?case by simp
next
  case (Cons ij ps)
  obtain i j where ij: "ij = (i, j)" by fastforce
  let ?s = "cluster_similarity embs (cs ! i) (cs ! j)"
  show ?case
  proof (cases "length (cs ! i) + length (cs ! j) \<le> rt_max_cluster t \<and> f32_lt b ?s \<and> f32_le (rt_threshold t) ?s")
    case True
    then have "f32_lt (Fin 0) ?s" using Cons.prems(2) f32_le_lt_trans by blast
    moreover have "fold (better_pair t embs cs) ps (?s, Some (i, j)) = (b', p')"
      using Cons.prems(1) True by (simp add: ij Let_def)
    ultimately show ?thesis
      using Cons.IH [of ?s "Some (i, j)"] True by (auto simp: ij f32_lt_imp_le)
  next
    case False
    then have "fold (better_pair t embs cs) ps (b, p) = (b', p')"
      using Cons.prems(1) by (auto simp: ij Let_def split: if_splits)
    then show ?thesis using Cons.IH Cons.prems(2) by (auto simp: ij)
  qed
qed

lemma best_pair_SomeE:
  assumes "best_pair t embs cs = Some (i, j)"
  obtains "i < j" "j < length cs" "length (cs ! i) + length (cs ! j) \<le> rt_max_cluster t"
    "f32_lt (Fin 0) (cluster_similarity embs (cs ! i) (cs ! j))"
    "f32_le (rt_threshold t) (cluster_similarity embs (cs ! i) (cs ! j))"
proof -
  obtain b' p' where "fold (better_pair t embs cs) (index_pairs (length cs)) (Fin 0, None) = (b', p')" by fastforce
  with fold_better_pair [OF this] assms show thesis
    by (intro that) (auto simp: best_pair_def index_pairs_iff)
qed

lemma length_merge_pair: "i < j \<Longrightarrow> j < length cs \<Longrightarrow> length (merge_pair i j cs) < length cs"
  by (simp add: merge_pair_def Let_def)

function cluster_loop :: "raptor_tree \<Rightarrow> f32 list list \<Rightarrow> nat list list \<Rightarrow> nat list list" where
  "cluster_loop t embs cs =
     (case best_pair t embs cs of
        None \<Rightarrow> cs
      | Some (i, j) \<Rightarrow> cluster_loop t embs (merge_pair i j cs))"
  by pat_completeness auto

termination
  by (relation "measure (\<lambda>(t, embs, cs). length cs)")
     (auto elim!: best_pair_SomeE intro: length_merge_pair)

declare cluster_loop.simps [simp del]

definition raptor_clusters :: "raptor_tree \<Rightarrow> raptor_node list \<Rightarrow> raptor_node list list" where
  "raptor_clusters t nodes =
     map (map ((!) nodes))
       (cluster_loop t (map rn_embedding nodes) (map (\<lambda>i. [i]) [0..<length nodes]))"

section \<open>Summaries\<close>

text \<open>A sentence ends at a full stop (also the wide one), \<open>!\<close>, \<open>?\<close> or a line end.\<close>

definition sentence_ends :: "string list" where
  "sentence_ends = [''.'', [CHR 0xE3, CHR 0x80, CHR 0x82], ''!'', ''?'', [CHR 0x0A]]"

definition extractive_summarize :: "raptor_node list \<Rightarrow> string" where
  "extractive_summarize nodes =
     (let sentences = filter (\<lambda>s. s \<noteq> [] \<and> 5 < length s)
            (map (\<lambda>n. trim (hd (split_any sentence_ends [] (rn_content n)))) (take 5 nodes))
      in if sentences = [] then (case nodes of [] \<Rightarrow> [] | n # _ \<Rightarrow> chars_take 200 (rn_content n))
         else join_with ''. '' sentences @ ''.'')"

text \<open>\<open>avg[i] += v\<close> panics when a later embedding is longer than the first.\<close>

definition add_embedding :: "raptor_node \<Rightarrow> f32 list \<Rightarrow> f32 list res" where
  "add_embedding n avg =
     (let e = rn_embedding n
      in if length avg < length e then Panic
         else Ok (map2 f32_add (take (length e) avg) e @ drop (length e) avg))"

definition average_embedding :: "raptor_node list \<Rightarrow> f32 list res" where
  "average_embedding nodes =
     (case nodes of
        [] \<Rightarrow> Ok []
      | n # _ \<Rightarrow>
          res_map (map (\<lambda>v. f32_div v (f32_of_nat (length nodes))))
            (res_fold add_embedding nodes (replicate (length (rn_embedding n)) (Fin 0))))"

section \<open>Building the tree\<close>

definition layer_id :: "nat \<Rightarrow> nat \<Rightarrow> string" where
  "layer_id level i = ''L'' @ nat_to_str level @ ''-'' @ nat_to_str i"

definition leaf_node :: "nat \<Rightarrow> string \<times> f32 list \<Rightarrow> raptor_node" where
  "leaf_node i c =
     \<lparr>rn_id = layer_id 0 i, rn_content = fst c, rn_embedding = snd c, rn_children = [],
      rn_level = 0, rn_chunk_count = 1, rn_metadata = []\<rparr>"

definition promoted_node :: "nat \<Rightarrow> nat \<Rightarrow> raptor_node \<Rightarrow> raptor_node" where
  "promoted_node level i n = n\<lparr>rn_id := layer_id level i, rn_level := level, rn_chunk_count := 1\<rparr>"

definition summary_node :: "nat \<Rightarrow> nat \<Rightarrow> raptor_node list \<Rightarrow> f32 list \<Rightarrow> raptor_node" where
  "summary_node level i cluster avg =
     \<lparr>rn_id = layer_id level i, rn_content = extractive_summarize cluster, rn_embedding = avg,
      rn_children = map rn_id cluster, rn_level = level,
      rn_chunk_count = sum_list (map rn_chunk_count cluster), rn_metadata = []\<rparr>"

definition add_node_for ::
    "nat \<Rightarrow> raptor_node list \<Rightarrow> raptor_nodes \<times> raptor_node list \<Rightarrow>
     (raptor_nodes \<times> raptor_node list) res" where
  "add_node_for level cluster st =
     (let (nodes, next_level) = st;
          push = (\<lambda>n. (hput (rn_id n) n nodes, next_level @ [n]))
      in case cluster of
        [] \<Rightarrow> Ok st
      | [n] \<Rightarrow> Ok (push (promoted_node level (length next_level) n))
      | _ \<Rightarrow> res_map (\<lambda>avg. push (summary_node level (length next_level) cluster avg))
               (average_embedding cluster))"

text \<open>The loop over the layers: \<open>d\<close> is how many may still be added.\<close>

primrec build_layers ::
    "raptor_tree \<Rightarrow> nat \<Rightarrow> nat \<Rightarrow> raptor_node list \<Rightarrow> raptor_nodes \<Rightarrow>
     (raptor_nodes \<times> raptor_node list) res" where
  "build_layers t 0 level cur nodes = Ok (nodes, cur)"
| "build_layers t (Suc d) level cur nodes =
     (if length cur \<le> 1 then Ok (nodes, cur)
      else res_bind (res_fold (add_node_for (level + 1)) (raptor_clusters t cur) (nodes, []))
             (\<lambda>(nodes, next_level). build_layers t d (level + 1) next_level nodes))"

definition raptor_leaves :: "(string \<times> f32 list) list \<Rightarrow> raptor_node list" where
  "raptor_leaves chunks = map (\<lambda>(i, c). leaf_node i c) (enumerate 0 chunks)"

definition raptor_build :: "(string \<times> f32 list) list \<Rightarrow> raptor_tree \<Rightarrow> raptor_tree \<times> string res" where
  "raptor_build chunks t =
     (if chunks = [] then (t, Err ''No chunks provided'')
      else let leaves = raptor_leaves chunks;
               nodes = fold (\<lambda>n m. hput (rn_id n) n m) leaves (rt_nodes t)
        in case build_layers t (rt_max_depth t) 0 leaves nodes of
             Ok (nodes, cur) \<Rightarrow>
               let t = (case cur of
                          [] \<Rightarrow> t\<lparr>rt_nodes := nodes\<rparr>
                        | r # _ \<Rightarrow> t\<lparr>rt_root := Some (rn_id r),
                            rt_nodes := (if hget nodes (rn_id r) = None then hput (rn_id r) r nodes else nodes)\<rparr>)
               in (t, Ok (case rt_root t of None \<Rightarrow> [] | Some i \<Rightarrow> i))
           | Err e \<Rightarrow> (t, Err e)
           | Panic \<Rightarrow> (t, Panic))"

definition summary_nodes :: "raptor_tree \<Rightarrow> raptor_node list" where
  "summary_nodes t =
     sort_key rn_level (sort_key rn_id (filter (\<lambda>n. 0 < rn_level n) (hvalues (rt_nodes t))))"

section \<open>The chunks of the tree\<close>

definition raptor_chunk ::
    "string \<Rightarrow> string \<Rightarrow> string \<Rightarrow> nat \<Rightarrow> nat \<times> raptor_node \<Rightarrow> indexed_chunk" where
  "raptor_chunk doc kb name chunks = (\<lambda>(position, n).
     \<lparr>ic_id = doc @ ''-raptor-'' @ rn_id n, ic_doc_name = name, ic_content = rn_content n,
      ic_embedding = rn_embedding n, ic_token_count = length (split_whitespace (rn_content n)),
      ic_position = chunks + position,
      ic_metadata =
        [(''doc_id'', doc), (''kb_id'', kb), (''file_name'', name), (''content_type'', ''text''),
         (''raptor_kwd'', ''1''), (''raptor_layer_int'', nat_to_str (rn_level n)),
         (''raptor_method'', ''extractive''), (''source_id'', join_with '','' (rn_children n))]\<rparr>)"

definition build_raptor_chunks ::
    "string \<Rightarrow> string \<Rightarrow> string \<Rightarrow> indexed_chunk list \<Rightarrow> f32 \<Rightarrow> nat \<Rightarrow> indexed_chunk list res" where
  "build_raptor_chunks doc kb name indexed threshold max_depth =
     (let source = map (\<lambda>c. (ic_content c, ic_embedding c)) (filter (\<lambda>c. ic_embedding c \<noteq> []) indexed)
      in if length source < 2 then Ok []
         else case raptor_build source
                     (with_max_depth max_depth (raptor_new (f32_clamp (Fin (- 1)) (Fin 1) threshold))) of
                (t, Ok root_id) \<Rightarrow>
                  Ok (map (raptor_chunk doc kb name (length indexed)) (enumerate 0 (summary_nodes t)))
              | (t, Err e) \<Rightarrow> Err e
              | (t, Panic) \<Rightarrow> Panic)"

end
