(* ===== verification/Raptor_Spec.thy ===== *)
theory Raptor_Spec
  imports Raptor "HOL-Library.Multiset"
begin

text \<open>
  What the summary tree keeps: the clusters of a layer are a partition of it into groups of
  bounded size and of one dimension, so that building never panics; how many nodes there are;
  and what becomes of chunks that resemble no other.
\<close>

section \<open>Clusters\<close>

definition uniform :: "f32 list list \<Rightarrow> nat list \<Rightarrow> bool" where
  "uniform embs c \<longleftrightarrow> (\<forall>i \<in> set c. \<forall>j \<in> set c. length (embs ! i) = length (embs ! j))"

lemma f32_sum_zeros: "\<forall>x \<in> set xs. x = Fin 0 \<Longrightarrow> f32_sum xs = Fin 0"
  unfolding f32_sum_def by (induction xs) auto

lemma similar_same_length:
  assumes "f32_lt (Fin 0) (cluster_similarity embs a b)"
  obtains i j where "i \<in> set a" "j \<in> set b" "length (embs ! i) = length (embs ! j)"
proof -
  let ?sims = "map (\<lambda>(i, j). cosine_similarity (embs ! i) (embs ! j)) (List.product a b)"
  have "\<not> (\<forall>x \<in> set ?sims. x = Fin 0)"
  proof
    assume "\<forall>x \<in> set ?sims. x = Fin 0"
    then have "f32_sum ?sims = Fin 0" by (rule f32_sum_zeros)
    then have "cluster_similarity embs a b \<in> {Fin 0, NaN}"
      unfolding cluster_similarity_def Let_def using f32_div_0 by auto
    then show False using assms by (auto simp: f32_lt_def)
  qed
  then obtain i j where "i \<in> set a" "j \<in> set b" "cosine_similarity (embs ! i) (embs ! j) \<noteq> Fin 0" by auto
  then show thesis by (intro that [of i j]) (auto simp: cosine_similarity_def split: if_splits)
qed

lemma merge_pair_parts:
  assumes "i < j" "j < length cs"
  obtains A x B y C where "cs = A @ x # B @ y # C" "x = cs ! i" "y = cs ! j"
    "merge_pair i j cs = A @ (x @ y) # B @ C"
proof -
  define A where "A = take i cs"
  define B where "B = drop (Suc i) (take j cs)"
  define C where "C = drop (Suc j) cs"
  have l: "length A = i" "length B = j - Suc i" using assms by (simp_all add: A_def B_def)
  have "take j cs = A @ cs ! i # B"
    using assms id_take_nth_drop [of i "take j cs"] by (simp add: A_def B_def min_def)
  then have eq: "cs = A @ cs ! i # B @ cs ! j # C"
    using id_take_nth_drop [of j cs] assms by (simp add: C_def)
  have j: "j = Suc (length A + length B)" using l assms(1) by simp
  have "merge_pair i j (A @ x # B @ y # C) = A @ (x @ y) # B @ C" for x y
    unfolding j l(1) [symmetric] by (simp add: merge_pair_def Let_def nth_append list_update_append)
  from this [of "cs ! i" "cs ! j"] eq show thesis using that by metis
qed

definition clusters_of :: "raptor_tree \<Rightarrow> f32 list list \<Rightarrow> nat list list \<Rightarrow> bool" where
  "clusters_of t embs cs \<longleftrightarrow>
     mset (concat cs) = mset [0..<length embs] \<and>
     (\<forall>c \<in> set cs. c \<noteq> [] \<and> length c \<le> max 1 (rt_max_cluster t) \<and> uniform embs c)"

lemma clusters_of_merge:
  assumes ok: "clusters_of t embs cs" and best: "best_pair t embs cs = Some (i, j)"
  shows "clusters_of t embs (merge_pair i j cs)"
proof -
  from best obtain ij: "i < j" "j < length cs" "length (cs ! i) + length (cs ! j) \<le> rt_max_cluster t"
    and sim: "f32_lt (Fin 0) (cluster_similarity embs (cs ! i) (cs ! j))"
    by (rule best_pair_SomeE)
  from ij(1,2) obtain A x B y C where parts: "cs = A @ x # B @ y # C" "x = cs ! i" "y = cs ! j"
      "merge_pair i j cs = A @ (x @ y) # B @ C" by (rule merge_pair_parts)
  from ok have one: "\<forall>c \<in> set cs. c \<noteq> [] \<and> length c \<le> max 1 (rt_max_cluster t) \<and> uniform embs c"
    by (simp add: clusters_of_def)
  from sim obtain k l where kl: "k \<in> set x" "l \<in> set y" "length (embs ! k) = length (embs ! l)"
    unfolding parts(2,3) [symmetric] by (rule similar_same_length)
  have u: "uniform embs x" "uniform embs y" using one by (simp_all add: parts(1))
  have same: "length (embs ! p) = length (embs ! k)" if "p \<in> set (x @ y)" for p
  proof -
    from that consider "p \<in> set x" | "p \<in> set y" by auto
    then show ?thesis
    proof cases
      case 1 with u(1) kl(1) show ?thesis unfolding uniform_def by blast
    next
      case 2 with u(2) kl(2) have "length (embs ! p) = length (embs ! l)" unfolding uniform_def by blast
      then show ?thesis by (simp only: kl(3))
    qed
  qed
  have "uniform embs (x @ y)" unfolding uniform_def by (intro ballI) (simp only: same)
  moreover have "length (x @ y) \<le> rt_max_cluster t" using ij(3) by (simp add: parts(2,3))
  ultimately show ?thesis using one ok unfolding clusters_of_def parts(4)
    by (auto simp: parts(1) ac_simps)
qed

lemma clusters_of_loop: "clusters_of t embs cs \<Longrightarrow> clusters_of t embs (cluster_loop t embs cs)"
proof (induction t embs cs rule: cluster_loop.induct)
  case (1 t embs cs)
  then show ?case
    by (subst cluster_loop.simps) (auto simp: clusters_of_merge split: option.split)
qed

lemma best_pair_cluster_loop: "best_pair t embs (cluster_loop t embs cs) = None"
proof (induction t embs cs rule: cluster_loop.induct)
  case (1 t embs cs)
  then show ?case by (subst cluster_loop.simps) (auto split: option.split)
qed

lemma clusters_of_singles: "clusters_of t embs (map (\<lambda>i. [i]) [0..<length embs])"
proof -
  have "concat (map (\<lambda>i. [i]) xs) = xs" for xs :: "nat list" by (induction xs) auto
  then show ?thesis by (auto simp: clusters_of_def uniform_def)
qed

lemma fold_better_pair_None:
  assumes "fold (better_pair t embs cs) ps (Fin 0, None) = (b, None)" and "(i, j) \<in> set ps"
    and "length (cs ! i) + length (cs ! j) \<le> rt_max_cluster t"
  shows "\<not> (f32_lt (Fin 0) (cluster_similarity embs (cs ! i) (cs ! j)) \<and>
    f32_le (rt_threshold t) (cluster_similarity embs (cs ! i) (cs ! j)))"
  using assms(1,2)
proof (induction ps)
  case Nil then show ?case by simp
next
  case (Cons ij ps)
  obtain k l where kl: "ij = (k, l)" by fastforce
  let ?ok = "length (cs ! k) + length (cs ! l) \<le> rt_max_cluster t \<and>
    f32_lt (Fin 0) (cluster_similarity embs (cs ! k) (cs ! l)) \<and>
    f32_le (rt_threshold t) (cluster_similarity embs (cs ! k) (cs ! l))"
  have "\<not> ?ok"
  proof
    assume ok: ?ok
    then have "fold (better_pair t embs cs) ps (cluster_similarity embs (cs ! k) (cs ! l), Some (k, l)) = (b, None)"
      using Cons.prems(1) by (simp add: kl Let_def)
    from fold_better_pair [OF this] ok show False by (auto simp: f32_lt_imp_le)
  qed
  then have "fold (better_pair t embs cs) ps (Fin 0, None) = (b, None)"
    using Cons.prems(1) by (auto simp: kl Let_def split: if_splits)
  with Cons.IH Cons.prems(2) \<open>\<not> ?ok\<close> assms(3) show ?case by (auto simp: kl)
qed

lemma best_pair_None_iff:
  "best_pair t embs cs = None \<longleftrightarrow>
     (\<forall>i j. i < j \<and> j < length cs \<and> length (cs ! i) + length (cs ! j) \<le> rt_max_cluster t \<longrightarrow>
        \<not> (f32_lt (Fin 0) (cluster_similarity embs (cs ! i) (cs ! j)) \<and>
           f32_le (rt_threshold t) (cluster_similarity embs (cs ! i) (cs ! j))))" (is "?l \<longleftrightarrow> ?r")
proof
  assume ?l
  then obtain b where "fold (better_pair t embs cs) (index_pairs (length cs)) (Fin 0, None) = (b, None)"
    by (auto simp: best_pair_def prod_eq_iff)
  from fold_better_pair_None [OF this] show ?r by (simp add: index_pairs_iff)
next
  assume ?r
  then show ?l by (cases "best_pair t embs cs") (auto elim!: best_pair_SomeE)
qed

lemma raptor_clusters_mset:
  "mset (concat (raptor_clusters t nodes)) = mset nodes"
  "c \<in> set (raptor_clusters t nodes) \<Longrightarrow> c \<noteq> [] \<and> length c \<le> max 1 (rt_max_cluster t)"
proof -
  let ?cs = "cluster_loop t (map rn_embedding nodes) (map (\<lambda>i. [i]) [0..<length nodes])"
  have ok: "clusters_of t (map rn_embedding nodes) ?cs"
    using clusters_of_loop [OF clusters_of_singles, of t "map rn_embedding nodes"] by simp
  have "concat (raptor_clusters t nodes) = map ((!) nodes) (concat ?cs)"
    by (simp add: raptor_clusters_def map_concat)
  then have "mset (concat (raptor_clusters t nodes)) = image_mset ((!) nodes) (mset [0..<length nodes])"
    using ok by (simp only: clusters_of_def mset_map length_map)
  also have "\<dots> = mset (map ((!) nodes) [0..<length nodes])" by (simp only: mset_map)
  finally show "mset (concat (raptor_clusters t nodes)) = mset nodes" by (simp only: map_nth)
  show "c \<noteq> [] \<and> length c \<le> max 1 (rt_max_cluster t)" if "c \<in> set (raptor_clusters t nodes)"
    using that ok by (auto simp: raptor_clusters_def clusters_of_def)
qed

text \<open>No two clusters that would fit into one are similar enough to be merged.\<close>

definition settled :: "raptor_tree \<Rightarrow> f32 list list \<Rightarrow> nat list list \<Rightarrow> bool" where
  "settled t embs cs =
     list_all (\<lambda>(i, j). rt_max_cluster t < length (cs ! i) + length (cs ! j) \<or>
         \<not> f32_lt (Fin 0) (cluster_similarity embs (cs ! i) (cs ! j)) \<or>
         \<not> f32_le (rt_threshold t) (cluster_similarity embs (cs ! i) (cs ! j)))
       (index_pairs (length cs))"

lemma fold_better_Some: "\<exists>x. snd (fold (better_pair t embs cs) ps (b, Some p)) = Some x"
proof (induction ps arbitrary: b p)
  case (Cons ij ps)
  obtain i j where "ij = (i, j)" by fastforce
  with Cons.IH show ?case by (simp add: Let_def)
qed simp

lemma fold_better_None:
  "snd (fold (better_pair t embs cs) ps (Fin 0, None)) = None \<Longrightarrow>
     list_all (\<lambda>(i, j). rt_max_cluster t < length (cs ! i) + length (cs ! j) \<or>
         \<not> f32_lt (Fin 0) (cluster_similarity embs (cs ! i) (cs ! j)) \<or>
         \<not> f32_le (rt_threshold t) (cluster_similarity embs (cs ! i) (cs ! j))) ps"
proof (induction ps)
  case (Cons ij ps)
  obtain i j where ij: "ij = (i, j)" by fastforce
  show ?case
  proof (cases "better_pair t embs cs ij (Fin 0, None) = (Fin 0, None)")
    case True
    then show ?thesis using Cons by (auto simp: ij Let_def split: if_splits)
  next
    case False
    then obtain b p where "better_pair t embs cs ij (Fin 0, None) = (b, Some p)"
      by (auto simp: ij Let_def split: if_splits)
    then show ?thesis using Cons.prems fold_better_Some [of t embs cs ps b p] by simp
  qed
qed simp

lemma settled_best_pair: "best_pair t embs cs = None \<Longrightarrow> settled t embs cs"
  unfolding best_pair_def settled_def by (rule fold_better_None)

text \<open>
  The clusters of a layer are a partition of its nodes into groups of at most the cluster size
  (or one), and no two of them that would fit into one cluster are similar up to the threshold.
\<close>

theorem raptor_clusters_partition:
  "mset (concat (raptor_clusters t nodes)) = mset nodes \<and>
   list_all (\<lambda>c. c \<noteq> [] \<and> length c \<le> max 1 (rt_max_cluster t)) (raptor_clusters t nodes) \<and>
   settled t (map rn_embedding nodes)
     (cluster_loop t (map rn_embedding nodes) (map (\<lambda>i. [i]) [0..<length nodes]))"
  using raptor_clusters_mset settled_best_pair [OF best_pair_cluster_loop] by (auto simp: list_all_iff)

lemma raptor_clusters_uniform:
  assumes "c \<in> set (raptor_clusters t nodes)" and "m \<in> set c" and "n \<in> set c"
  shows "length (rn_embedding m) = length (rn_embedding n)"
proof -
  let ?embs = "map rn_embedding nodes"
  let ?cs = "cluster_loop t ?embs (map (\<lambda>i. [i]) [0..<length nodes])"
  have ok: "clusters_of t ?embs ?cs"
    using clusters_of_loop [OF clusters_of_singles, of t ?embs] by simp
  from assms(1) obtain idx where is_in: "idx \<in> set ?cs" and c: "c = map ((!) nodes) idx"
    by (auto simp: raptor_clusters_def)
  from assms(2,3) c obtain i j where ij: "i \<in> set idx" "m = nodes ! i" "j \<in> set idx" "n = nodes ! j" by auto
  have "set (concat ?cs) = {0..<length nodes}"
    using ok mset_eq_setD [of "concat ?cs" "[0..<length ?embs]"] by (simp add: clusters_of_def)
  with is_in ij(1,3) have "i < length nodes" "j < length nodes" by auto
  moreover have "uniform ?embs idx" using ok is_in by (simp add: clusters_of_def)
  then have "length (?embs ! i) = length (?embs ! j)" using ij(1,3) unfolding uniform_def by blast
  ultimately show ?thesis by (simp add: ij)
qed

section \<open>Averages\<close>

lemma add_embeddings_Ok:
  assumes "\<forall>n \<in> set ns. length (rn_embedding n) \<le> length avg"
  obtains avg' where "res_fold add_embedding ns avg = Ok avg'" "length avg' = length avg"
  using assms
proof (induction ns arbitrary: avg thesis)
  case Nil then show ?case by simp
next
  case (Cons n ns)
  then have "add_embedding n avg = Ok (map2 f32_add (take (length (rn_embedding n)) avg) (rn_embedding n)
      @ drop (length (rn_embedding n)) avg)" (is "_ = Ok ?avg")
    by (simp add: add_embedding_def Let_def)
  moreover have "length ?avg = length avg" using Cons.prems(2) by simp
  ultimately show ?case
    using Cons.IH [of ?avg] Cons.prems by (metis list.set_intros(2) res_bind.simps(1) res_fold.simps(2))
qed

lemma average_embedding_Ok:
  assumes same: "\<And>m n. m \<in> set c \<Longrightarrow> n \<in> set c \<Longrightarrow> length (rn_embedding m) = length (rn_embedding n)"
  shows "\<exists>avg. average_embedding c = Ok avg"
proof (cases c)
  case Nil then show ?thesis by (simp add: average_embedding_def)
next
  case (Cons n ns)
  have "length (rn_embedding m) \<le> length (replicate (length (rn_embedding n)) (Fin 0))" if "m \<in> set c" for m
    using same [OF that, of n] by (simp only: Cons list.set_intros length_replicate order_refl)
  then obtain avg where "res_fold add_embedding c (replicate (length (rn_embedding n)) (Fin 0)) = Ok avg"
    using add_embeddings_Ok by blast
  then show ?thesis by (simp add: average_embedding_def Cons)
qed

section \<open>Layers\<close>

text \<open>What one cluster becomes at its place in the next layer.\<close>

definition node_for :: "nat \<Rightarrow> nat \<Rightarrow> raptor_node list \<Rightarrow> raptor_node \<Rightarrow> bool" where
  "node_for level i c n \<longleftrightarrow>
     (case c of [m] \<Rightarrow> n = promoted_node level i m
      | _ \<Rightarrow> (\<exists>avg. average_embedding c = Ok avg \<and> n = summary_node level i c avg))"

definition put_nodes :: "raptor_node list \<Rightarrow> raptor_nodes \<Rightarrow> raptor_nodes" where
  "put_nodes = fold (\<lambda>n m. hput (rn_id n) n m)"

lemma put_nodes_simps [simp]:
  "put_nodes [] m = m" "put_nodes (n # ns) m = put_nodes ns (hput (rn_id n) n m)"
  "put_nodes (ns @ ns') m = put_nodes ns' (put_nodes ns m)"
  by (simp_all add: put_nodes_def)

lemma node_for_id: "node_for level i c n \<Longrightarrow> rn_id n = layer_id level i \<and> rn_level n = level"
  by (auto simp: node_for_def promoted_node_def summary_node_def split: list.splits)

lemma layer_Ok:
  assumes "\<And>c. c \<in> set cs \<Longrightarrow> c \<noteq> [] \<and> (\<exists>avg. average_embedding c = Ok avg)"
  obtains new where "res_fold (add_node_for level) cs (nodes, front) = Ok (put_nodes new nodes, front @ new)"
    "length new = length cs" "\<forall>k < length cs. node_for level (length front + k) (cs ! k) (new ! k)"
  using assms
proof (induction cs arbitrary: nodes front thesis)
  case Nil then show ?case by simp
next
  case (Cons c cs)
  from Cons.prems(2) [of c] obtain avg where c: "c \<noteq> []" "average_embedding c = Ok avg" by auto
  obtain n where n: "add_node_for level c (nodes, front) = Ok (hput (rn_id n) n nodes, front @ [n])"
      "node_for level (length front) c n"
  proof (cases c)
    case (Cons m ms)
    with c that show thesis by (cases ms) (auto simp: add_node_for_def node_for_def Let_def)
  qed (use c in simp)
  obtain new where new: "res_fold (add_node_for level) cs (hput (rn_id n) n nodes, front @ [n]) =
        Ok (put_nodes new (hput (rn_id n) n nodes), (front @ [n]) @ new)"
      "length new = length cs" "\<forall>k < length cs. node_for level (length (front @ [n]) + k) (cs ! k) (new ! k)"
    using Cons.IH [of "hput (rn_id n) n nodes" "front @ [n]"] Cons.prems(2) by auto
  show ?case
  proof (rule Cons.prems(1) [of "n # new"])
    show "\<forall>k < length (c # cs). node_for level (length front + k) ((c # cs) ! k) ((n # new) ! k)"
    proof (intro allI impI)
      fix k assume "k < length (c # cs)"
      then show "node_for level (length front + k) ((c # cs) ! k) ((n # new) ! k)"
        using n(2) new(3) by (cases k) auto
    qed
  qed (use n(1) new(1,2) in simp_all)
qed

lemma next_layer:
  obtains new where "res_fold (add_node_for level) (raptor_clusters t cur) (nodes, []) = Ok (put_nodes new nodes, new)"
    "length new = length (raptor_clusters t cur)"
    "\<forall>k < length new. node_for level k (raptor_clusters t cur ! k) (new ! k)"
proof -
  have "c \<noteq> [] \<and> (\<exists>avg. average_embedding c = Ok avg)" if "c \<in> set (raptor_clusters t cur)" for c
    using average_embedding_Ok [OF raptor_clusters_uniform [OF that]] raptor_clusters_mset(2) [OF that] by simp
  from layer_Ok [where nodes = nodes and front = "[]", OF this] that show thesis by auto
qed

text \<open>
  All layers: their number, their sizes, and the names and levels of their nodes. The map of
  the tree is the old one with the layers put into it.
\<close>

definition layers_from :: "nat \<Rightarrow> nat \<Rightarrow> nat \<Rightarrow> raptor_node list list \<Rightarrow> bool" where
  "layers_from level d n layers \<longleftrightarrow>
     length layers \<le> d \<and> (\<forall>l \<in> set layers. length l \<le> n) \<and>
     (\<forall>k < length layers. \<forall>i < length (layers ! k).
        rn_id (layers ! k ! i) = layer_id (level + k + 1) i \<and> rn_level (layers ! k ! i) = level + k + 1)"

lemma layers_from_Cons:
  assumes "layers_from (Suc level) d (length new) layers" and "length new \<le> n"
    and "\<forall>i < length new. rn_id (new ! i) = layer_id (Suc level) i \<and> rn_level (new ! i) = Suc level"
  shows "layers_from level (Suc d) n (new # layers)"
  unfolding layers_from_def
proof (intro conjI allI impI)
  fix k i assume "k < length (new # layers)" "i < length ((new # layers) ! k)"
  then show "rn_id ((new # layers) ! k ! i) = layer_id (level + k + 1) i"
      "rn_level ((new # layers) ! k ! i) = level + k + 1"
    using assms(1,3) by (cases k; simp add: layers_from_def)+
qed (use assms(1,2) in \<open>auto simp: layers_from_def\<close>)

lemma length_clusters: "length (raptor_clusters t cur) \<le> length cur"
proof -
  have "length xss \<le> length (concat xss)" if "\<forall>xs \<in> set xss. xs \<noteq> []" for xss :: "raptor_node list list"
    using that by (induction xss) (auto simp: Suc_le_eq neq_Nil_conv)
  then have "length (raptor_clusters t cur) \<le> length (concat (raptor_clusters t cur))"
    using raptor_clusters_mset(2) by blast
  also have "\<dots> = length cur" by (metis raptor_clusters_mset(1) size_mset)
  finally show ?thesis .
qed

text \<open>Embeddings of which no two are similar, and what a node says.\<close>

definition unrelated :: "f32 \<Rightarrow> f32 list list \<Rightarrow> bool" where
  "unrelated threshold embs \<longleftrightarrow>
     list_all (\<lambda>(i, j). let s = cluster_similarity embs [i] [j]
                         in \<not> (f32_lt (Fin 0) s \<and> f32_le threshold s)) (index_pairs (length embs))"

definition node_body :: "raptor_node \<Rightarrow> string \<times> f32 list" where
  "node_body n = (rn_content n, rn_embedding n)"

lemma clusters_unrelated:
  assumes "unrelated (rt_threshold t) (map rn_embedding nodes)"
  shows "raptor_clusters t nodes = map (\<lambda>n. [n]) nodes"
proof -
  let ?singles = "map (\<lambda>i. [i]) [0..<length nodes]"
  have "best_pair t (map rn_embedding nodes) ?singles = None"
    unfolding best_pair_None_iff
    using assms by (auto simp: unrelated_def list_all_iff index_pairs_iff Let_def)
  then have "cluster_loop t (map rn_embedding nodes) ?singles = ?singles"
    by (subst cluster_loop.simps) simp
  then show ?thesis unfolding raptor_clusters_def by (intro nth_equalityI) simp_all
qed

lemma layer_unrelated:
  assumes "unrelated (rt_threshold t) (map rn_embedding cur)"
    and "length new = length (raptor_clusters t cur)"
    and "\<forall>k < length new. node_for level k (raptor_clusters t cur ! k) (new ! k)"
  shows "map node_body new = map node_body cur"
proof (rule nth_equalityI)
  note singles = clusters_unrelated [OF assms(1)]
  show "length (map node_body new) = length (map node_body cur)" using assms(2) by (simp add: singles)
  fix k assume "k < length (map node_body new)"
  then have "k < length new" "k < length cur" using assms(2) by (simp_all add: singles)
  with assms(3) [rule_format, of k] have "node_for level k [cur ! k] (new ! k)" by (simp add: singles)
  then show "map node_body new ! k = map node_body cur ! k"
    using \<open>k < length new\<close> \<open>k < length cur\<close> by (simp add: node_for_def promoted_node_def node_body_def)
qed

lemma bodies_embeddings: "map node_body ms = map node_body ns \<Longrightarrow> map rn_embedding ms = map rn_embedding ns"
  by (drule arg_cong [of _ _ "map snd"]) (simp add: node_body_def comp_def)

definition copies_of :: "nat \<Rightarrow> raptor_node list \<Rightarrow> raptor_node list list \<Rightarrow> bool" where
  "copies_of d cur layers \<longleftrightarrow> length layers = d \<and> (\<forall>l \<in> set layers. map node_body l = map node_body cur)"

lemma clusters_ne: "cur \<noteq> [] \<Longrightarrow> raptor_clusters t cur \<noteq> []"
  using raptor_clusters_mset(1) [of t cur] by auto

lemma build_layers_Ok:
  obtains layers where "build_layers t d level cur nodes = Ok (put_nodes (concat layers) nodes, last (cur # layers))"
    "layers_from level d (length cur) layers" "cur = [] \<or> [] \<notin> set layers"
    "unrelated (rt_threshold t) (map rn_embedding cur) \<and> 1 < length cur \<longrightarrow> copies_of d cur layers"
proof (induction d arbitrary: level cur nodes thesis)
  case 0 then show ?case by (force simp: layers_from_def copies_of_def)
next
  case (Suc d)
  show ?case
  proof (cases "length cur \<le> 1")
    case True
    then show ?thesis by (intro Suc.prems [of "[]"]) (simp_all add: layers_from_def)
  next
    case False
    obtain new where new: "res_fold (add_node_for (Suc level)) (raptor_clusters t cur) (nodes, []) =
          Ok (put_nodes new nodes, new)" "length new = length (raptor_clusters t cur)"
        "\<forall>k < length new. node_for (Suc level) k (raptor_clusters t cur ! k) (new ! k)"
      by (rule next_layer)
    obtain layers where rest: "build_layers t d (Suc level) new (put_nodes new nodes) =
          Ok (put_nodes (concat layers) (put_nodes new nodes), last (new # layers))"
        "layers_from (Suc level) d (length new) layers" "new = [] \<or> [] \<notin> set layers"
        "unrelated (rt_threshold t) (map rn_embedding new) \<and> 1 < length new \<longrightarrow> copies_of d new layers"
      by (rule Suc.IH)
    from False have "cur \<noteq> []" by auto
    then have "raptor_clusters t cur \<noteq> []" by (rule clusters_ne)
    then have ne: "new \<noteq> []" using new(2) by auto
    have "layers_from level (Suc d) (length cur) (new # layers)"
      using rest(2) new(2,3) length_clusters [of t cur] by (intro layers_from_Cons) (auto dest: node_for_id)
    moreover have "copies_of (Suc d) cur (new # layers)"
      if "unrelated (rt_threshold t) (map rn_embedding cur)"
    proof -
      have same: "map node_body new = map node_body cur" by (rule layer_unrelated [OF that new(2,3)])
      then have "length new = length cur" by (rule map_eq_imp_length_eq)
      with same rest(4) that False show ?thesis
        using bodies_embeddings [OF same] by (simp add: copies_of_def)
    qed
    ultimately show ?thesis using False new(1) rest(1,3) ne by (intro Suc.prems [of "new # layers"]) simp_all
  qed
qed

lemma layer_id_inj [simp]: "layer_id a i = layer_id b j \<longleftrightarrow> a = b \<and> i = j"
proof
  have digits: "takeWhile (\<lambda>c. c \<noteq> CHR ''-'') (nat_to_str n @ CHR ''-'' # s) = nat_to_str n" for n s
    using nat_to_str_digits [of n] by (subst takeWhile_append2) (auto simp: is_ascii_digit_def)
  assume "layer_id a i = layer_id b j"
  then have eq: "nat_to_str a @ CHR ''-'' # nat_to_str i = nat_to_str b @ CHR ''-'' # nat_to_str j"
    by (simp add: layer_id_def)
  then have "nat_to_str a = nat_to_str b" using digits by metis
  with eq show "a = b \<and> i = j" by (simp add: nat_to_str_inj)
qed simp

lemma put_nodes_new:
  "distinct (map rn_id ns) \<Longrightarrow> rn_id ` set ns \<inter> fst ` set m = {} \<Longrightarrow>
    put_nodes ns m = m @ map (\<lambda>n. (rn_id n, n)) ns"
  by (induction ns arbitrary: m) (auto simp: hput_new)

lemma distinct_layer_ids:
  assumes "\<forall>k < length ls. \<forall>i < length (ls ! k). rn_id (ls ! k ! i) = layer_id (a + k) i"
  shows "distinct (map rn_id (concat ls)) \<and>
    rn_id ` set (concat ls) \<subseteq> {layer_id k i |k i. a \<le> k}"
  using assms
proof (induction ls arbitrary: a)
  case Nil then show ?case by simp
next
  case (Cons l ls)
  have l: "rn_id (l ! i) = layer_id a i" if "i < length l" for i
    using Cons.prems that by force
  have "\<forall>k < length ls. \<forall>i < length (ls ! k). rn_id (ls ! k ! i) = layer_id (Suc a + k) i"
    using Cons.prems by force
  from Cons.IH [OF this] have IH: "distinct (map rn_id (concat ls))"
      "rn_id ` set (concat ls) \<subseteq> {layer_id k i |k i. Suc a \<le> k}" by auto
  have ids: "map rn_id l = map (layer_id a) [0..<length l]" by (intro nth_equalityI) (simp_all add: l)
  have "distinct (map rn_id l)" unfolding ids by (simp add: distinct_map inj_on_def)
  moreover have set_l: "rn_id ` set l = layer_id a ` {0..<length l}"
    using arg_cong [OF ids, of set] by (simp only: set_map set_upt)
  moreover have "layer_id a i \<notin> rn_id ` set (concat ls)" for i
  proof
    assume "layer_id a i \<in> rn_id ` set (concat ls)"
    with IH(2) have "layer_id a i \<in> {layer_id k i |k i. Suc a \<le> k}" by (rule subsetD)
    then show False by simp
  qed
  then have "rn_id ` set l \<inter> rn_id ` set (concat ls) = {}" unfolding set_l by blast
  moreover have "rn_id ` set l \<subseteq> {layer_id k i |k i. a \<le> k}" unfolding set_l by blast
  moreover have "{layer_id k i |k i. Suc a \<le> k} \<subseteq> {layer_id k i |k i. a \<le> k}"
    using Suc_leD by blast
  with IH(2) have "rn_id ` set (concat ls) \<subseteq> {layer_id k i |k i. a \<le> k}" by (rule subset_trans)
  ultimately show ?case using IH(1) by (simp del: set_concat add: image_Un)
qed

lemma leaf_bodies: "map node_body (raptor_leaves chunks) = chunks"
  by (intro nth_equalityI) (simp_all add: raptor_leaves_def leaf_node_def node_body_def nth_enumerate_eq)

lemma leaf_embeddings: "map rn_embedding (raptor_leaves chunks) = map snd chunks"
  using arg_cong [OF leaf_bodies [of chunks], of "map snd"] by (simp add: node_body_def comp_def)

text \<open>The nodes above the leaves of a tree built afresh are those of the layers.\<close>

lemma raptor_build_layers:
  assumes ne: "chunks \<noteq> []" and fresh: "rt_nodes t = []"
  obtains layers t' i where "raptor_build chunks t = (t', Ok i)"
    "layers_from 0 (rt_max_depth t) (length chunks) layers"
    "build_layers t (rt_max_depth t) 0 (raptor_leaves chunks) (put_nodes (raptor_leaves chunks) []) =
       Ok (rt_nodes t', last (raptor_leaves chunks # layers))"
    "rt_nodes t' = map (\<lambda>n. (rn_id n, n)) (raptor_leaves chunks @ concat layers)"
    "rt_root t' = Some i" "hget (rt_nodes t') i \<noteq> None"
    "unrelated (rt_threshold t) (map snd chunks) \<and> 1 < length chunks \<longrightarrow>
       copies_of (rt_max_depth t) (raptor_leaves chunks) layers"
proof -
  let ?ls = "raptor_leaves chunks"
  have len: "length ?ls = length chunks" by (simp add: raptor_leaves_def)
  have leaf: "rn_id (?ls ! i) = layer_id 0 i" if "i < length chunks" for i
    using that by (simp add: raptor_leaves_def leaf_node_def nth_enumerate_eq split: prod.splits)
  obtain layers where run: "build_layers t (rt_max_depth t) 0 ?ls (put_nodes ?ls []) =
        Ok (put_nodes (concat layers) (put_nodes ?ls []), last (?ls # layers))"
      and layers: "layers_from 0 (rt_max_depth t) (length ?ls) layers" "?ls = [] \<or> [] \<notin> set layers"
      and copies: "unrelated (rt_threshold t) (map rn_embedding ?ls) \<and> 1 < length ?ls \<longrightarrow>
        copies_of (rt_max_depth t) ?ls layers"
    by (rule build_layers_Ok)
  let ?all = "?ls @ concat layers"
  have "\<forall>k < length (?ls # layers). \<forall>i < length ((?ls # layers) ! k). rn_id ((?ls # layers) ! k ! i) = layer_id (0 + k) i"
  proof (intro allI impI)
    fix k i assume "k < length (?ls # layers)" "i < length ((?ls # layers) ! k)"
    then show "rn_id ((?ls # layers) ! k ! i) = layer_id (0 + k) i"
      using layers(1) by (cases k) (auto simp: leaf len layers_from_def)
  qed
  then have dist: "distinct (map rn_id ?all)"
    using distinct_layer_ids [of "?ls # layers" 0] by simp
  have nodes: "put_nodes (concat layers) (put_nodes ?ls []) = map (\<lambda>n. (rn_id n, n)) ?all"
    using put_nodes_new [of ?all "[]"] dist by simp
  have "last (?ls # layers) \<in> set (?ls # layers)" by (rule last_in_set) simp
  moreover have "[] \<notin> set (?ls # layers)" using layers(2) ne len by auto
  ultimately obtain r rs where r: "last (?ls # layers) = r # rs" "r # rs \<in> set (?ls # layers)"
    by (metis list.exhaust)
  have "r \<in> set (concat (?ls # layers))"
    unfolding set_concat using r(2) by (intro UN_I [of "r # rs"]) simp_all
  with r(1) have cur: "last (?ls # layers) = r # rs" "r \<in> set ?all" by (simp_all only: concat.simps)
  have found: "hget (map (\<lambda>n. (rn_id n, n)) ns) (rn_id m) \<noteq> None" if "m \<in> set ns" for m ns
    using that by (induction ns) auto
  let ?t = "t\<lparr>rt_root := Some (rn_id r), rt_nodes := map (\<lambda>n. (rn_id n, n)) ?all\<rparr>"
  have "build_layers t (rt_max_depth t) 0 ?ls (put_nodes ?ls []) = Ok (map (\<lambda>n. (rn_id n, n)) ?all, r # rs)"
    using run by (simp only: nodes cur(1))
  then have "raptor_build chunks t = (?t, Ok (rn_id r))"
    using ne fresh found [OF cur(2)]
    by (simp add: raptor_build_def Let_def put_nodes_def [symmetric]) auto
  then show thesis
  proof (rule that [of ?t "rn_id r" layers])
    show "build_layers t (rt_max_depth t) 0 ?ls (put_nodes ?ls []) = Ok (rt_nodes ?t, last (?ls # layers))"
      unfolding run nodes by simp
    show "hget (rt_nodes ?t) (rn_id r) \<noteq> None" using found [OF cur(2)] by simp
    show "unrelated (rt_threshold t) (map snd chunks) \<and> 1 < length chunks \<longrightarrow>
        copies_of (rt_max_depth t) ?ls layers"
      using copies by (simp only: leaf_embeddings len)
  qed (use layers(1) len in simp_all)
qed

text \<open>
  C38. Building a tree never panics, whatever the dimensions of the embeddings; it fails only when
  there are no chunks, and otherwise answers the root, which is a node of the tree.
\<close>

theorem raptor_build_total:
  "case raptor_build chunks (with_max_depth d (raptor_new threshold)) of
     (t, Ok i) \<Rightarrow> chunks \<noteq> [] \<and> rt_root t = Some i \<and> hget (rt_nodes t) i \<noteq> None
   | (t, Err e) \<Rightarrow> chunks = []
   | (t, Panic) \<Rightarrow> False"
proof (cases "chunks = []")
  case True then show ?thesis by (simp add: raptor_build_def)
next
  case False
  moreover have "rt_nodes (with_max_depth d (raptor_new threshold)) = []"
    by (simp add: with_max_depth_def raptor_new_def)
  ultimately obtain t i where "raptor_build chunks (with_max_depth d (raptor_new threshold)) = (t, Ok i)"
      "rt_root t = Some i" "hget (rt_nodes t) i \<noteq> None"
    by (rule raptor_build_layers)
  with False show ?thesis by simp
qed

section \<open>The chunks of the tree\<close>

lemma mset_summary_nodes:
  "mset (summary_nodes t) = mset (filter (\<lambda>n. 0 < rn_level n) (hvalues (rt_nodes t)))"
  by (simp add: summary_nodes_def)

lemma hvalues_of_nodes: "hvalues (map (\<lambda>n. (rn_id n, n)) ns) = ns"
  by (induction ns) simp_all

lemma length_concat_le: "\<forall>l \<in> set ls. length l \<le> n \<Longrightarrow> length (concat ls) \<le> length ls * n"
  by (induction ls) auto

lemma layers_positive: "layers_from 0 d n layers \<Longrightarrow> x \<in> set (concat layers) \<Longrightarrow> 0 < rn_level x"
  unfolding layers_from_def by (auto simp: in_set_conv_nth)

lemma leaves_zero: "x \<in> set (raptor_leaves chunks) \<Longrightarrow> rn_level x = 0"
  by (auto simp: raptor_leaves_def leaf_node_def)

lemma summary_of_layers:
  assumes "rt_nodes t = map (\<lambda>n. (rn_id n, n)) (raptor_leaves chunks @ concat layers)"
    and "layers_from 0 d n layers"
  shows "mset (summary_nodes t) = mset (concat layers)"
proof -
  have "filter (\<lambda>x. 0 < rn_level x) (raptor_leaves chunks) = []"
    by (simp add: filter_empty_conv leaves_zero)
  moreover have "filter (\<lambda>x. 0 < rn_level x) (concat layers) = concat layers"
    using layers_positive [OF assms(2)] by (intro filter_True) blast
  ultimately show ?thesis unfolding mset_summary_nodes assms(1) hvalues_of_nodes filter_append by simp
qed

lemma of_doc_raptor_chunk [simp]: "of_doc doc (raptor_chunk doc kb name k pn)"
  by (cases pn) (simp add: raptor_chunk_def chunk_meta_def)

text \<open>
  C36. Summarising a document never fails or panics. The chunks it adds belong to the document, have
  distinct names, and are at most as many as its own, once for every layer allowed.
\<close>

theorem raptor_chunks_bounded:
  "\<exists>rs. build_raptor_chunks doc kb name indexed threshold d = Ok rs \<and> all_of_doc doc rs \<and>
     distinct (map ic_id rs) \<and>
     length rs \<le> max d 1 * length (filter (\<lambda>c. ic_embedding c \<noteq> []) indexed)"
proof -
  let ?source = "map (\<lambda>c. (ic_content c, ic_embedding c)) (filter (\<lambda>c. ic_embedding c \<noteq> []) indexed)"
  let ?t = "with_max_depth d (raptor_new (f32_clamp (Fin (- 1)) (Fin 1) threshold))"
  show ?thesis
  proof (cases "length ?source < 2")
    case True then show ?thesis by (simp add: build_raptor_chunks_def Let_def all_of_doc_def)
  next
    case False
    then have ne: "?source \<noteq> []" by auto
    have fresh: "rt_nodes ?t = []" and depth: "rt_max_depth ?t = max d 1"
      by (simp_all add: with_max_depth_def raptor_new_def)
    obtain layers t i where run: "raptor_build ?source ?t = (t, Ok i)"
        and layers: "layers_from 0 (max d 1) (length ?source) layers"
        and nodes: "rt_nodes t = map (\<lambda>n. (rn_id n, n)) (raptor_leaves ?source @ concat layers)"
      by (rule raptor_build_layers [OF ne fresh, unfolded depth])
    have all: "mset (summary_nodes t) = mset (concat layers)"
      by (rule summary_of_layers [OF nodes layers])
    have "\<forall>k < length layers. \<forall>i < length (layers ! k). rn_id (layers ! k ! i) = layer_id (1 + k) i"
      using layers by (simp add: layers_from_def)
    from conjunct1 [OF distinct_layer_ids [OF this]] have "distinct (map rn_id (concat layers))" .
    moreover have "mset (map rn_id (summary_nodes t)) = mset (map rn_id (concat layers))"
      by (simp only: mset_map all)
    ultimately have ids: "distinct (map rn_id (summary_nodes t))"
      by (rule iffD2 [OF mset_eq_imp_distinct_iff, rotated])
    have "length (summary_nodes t) = length (concat layers)" by (rule mset_eq_length [OF all])
    also have "\<dots> \<le> length layers * length ?source"
      using layers by (intro length_concat_le) (simp add: layers_from_def)
    also have "\<dots> \<le> max d 1 * length ?source"
      using layers by (intro mult_le_mono1) (simp add: layers_from_def)
    finally have len: "length (summary_nodes t) \<le> max d 1 * length ?source" .
    let ?rs = "map (raptor_chunk doc kb name (length indexed)) (enumerate 0 (summary_nodes t))"
    have names: "map ic_id ?rs = map (\<lambda>n. doc @ ''-raptor-'' @ rn_id n) (summary_nodes t)"
      by (intro nth_equalityI) (simp_all add: raptor_chunk_def nth_enumerate_eq)
    have "distinct (map ic_id ?rs)"
      unfolding names using ids by (simp add: distinct_map inj_on_def)
    moreover have "all_of_doc doc ?rs" by (simp add: all_of_doc_def)
    ultimately show ?thesis using False run len by (simp add: build_raptor_chunks_def Let_def)
  qed
qed

text \<open>
  C35. When no two of the embedded chunks of a document are similar, they are not summarised but copied: every layer
  up to the last repeats all of them, so that the document is indexed once more for every layer allowed. (A chunk
  unlike the others may still be merged later, when two of those others have been merged before.)
\<close>

theorem unrelated_chunks_copied:
  assumes source: "source = map (\<lambda>c. (ic_content c, ic_embedding c)) (filter (\<lambda>c. ic_embedding c \<noteq> []) indexed)"
    and two: "1 < length source"
    and unrel: "unrelated (f32_clamp (Fin (- 1)) (Fin 1) threshold) (map snd source)"
  shows "\<exists>rs. build_raptor_chunks doc kb name indexed threshold d = Ok rs \<and>
    mset (map (\<lambda>c. (ic_content c, ic_embedding c)) rs) = mset (concat (replicate (max d 1) source))"
proof -
  let ?t = "with_max_depth d (raptor_new (f32_clamp (Fin (- 1)) (Fin 1) threshold))"
  have ne: "source \<noteq> []" using two by auto
  have fresh: "rt_nodes ?t = []" and depth: "rt_max_depth ?t = max d 1"
    and thr: "rt_threshold ?t = f32_clamp (Fin (- 1)) (Fin 1) threshold"
    by (simp_all add: with_max_depth_def raptor_new_def)
  obtain layers t i where run: "raptor_build source ?t = (t, Ok i)"
      and layers: "layers_from 0 (max d 1) (length source) layers"
      and nodes: "rt_nodes t = map (\<lambda>n. (rn_id n, n)) (raptor_leaves source @ concat layers)"
      and "unrelated (f32_clamp (Fin (- 1)) (Fin 1) threshold) (map snd source) \<and> 1 < length source \<longrightarrow>
        copies_of (max d 1) (raptor_leaves source) layers"
    by (rule raptor_build_layers [OF ne fresh, unfolded depth thr])
  then have copies: "copies_of (max d 1) (raptor_leaves source) layers" using two unrel by blast
  let ?rs = "map (raptor_chunk doc kb name (length indexed)) (enumerate 0 (summary_nodes t))"
  have "map (map node_body) layers = replicate (max d 1) source"
    using copies by (intro replicate_eqI) (auto simp: copies_of_def leaf_bodies)
  then have bodies: "map node_body (concat layers) = concat (replicate (max d 1) source)"
    by (simp only: map_concat)
  have "map (\<lambda>c. (ic_content c, ic_embedding c)) ?rs = map node_body (summary_nodes t)"
    by (intro nth_equalityI) (simp_all add: raptor_chunk_def nth_enumerate_eq node_body_def)
  then have "mset (map (\<lambda>c. (ic_content c, ic_embedding c)) ?rs) = mset (map node_body (concat layers))"
    by (simp only: mset_map summary_of_layers [OF nodes layers])
  moreover have "build_raptor_chunks doc kb name indexed threshold d = Ok ?rs"
    using run two unfolding build_raptor_chunks_def Let_def source [symmetric] by simp
  ultimately show ?thesis unfolding bodies by blast
qed

definition demo_leaf :: "string \<Rightarrow> string \<Rightarrow> f32 list \<Rightarrow> indexed_chunk" where
  "demo_leaf i text e =
     \<lparr>ic_id = i, ic_doc_name = ''a.txt'', ic_content = text, ic_embedding = e, ic_token_count = 1,
      ic_position = 0, ic_metadata = [(''doc_id'', ''d1'')]\<rparr>"

lemma demo_unrelated: "unrelated (f32_clamp (Fin (- 1)) (Fin 1) (Fin (7 / 10))) [[Fin 1, Fin 0], [Fin 0, Fin 1]]"
  by code_simp

theorem unrelated_chunks_copied_witness:
  "\<exists>rs. build_raptor_chunks ''d1'' ''k1'' ''a.txt''
       [demo_leaf ''c1'' ''alpha'' [Fin 1, Fin 0], demo_leaf ''c2'' ''beta'' [Fin 0, Fin 1]] (Fin (7 / 10)) 3 = Ok rs \<and>
     mset (map (\<lambda>c. (ic_content c, ic_embedding c)) rs) =
       mset [(''alpha'', [Fin 1, Fin 0]), (''beta'', [Fin 0, Fin 1]), (''alpha'', [Fin 1, Fin 0]),
             (''beta'', [Fin 0, Fin 1]), (''alpha'', [Fin 1, Fin 0]), (''beta'', [Fin 0, Fin 1])]"
  using unrelated_chunks_copied [of "[(''alpha'', [Fin 1, Fin 0]), (''beta'', [Fin 0, Fin 1])]"
      "[demo_leaf ''c1'' ''alpha'' [Fin 1, Fin 0], demo_leaf ''c2'' ''beta'' [Fin 0, Fin 1]]"
      "Fin (7 / 10)" "''d1''" "''k1''" "''a.txt''" 3] demo_unrelated
  by (simp add: demo_leaf_def numeral_3_eq_3)

end
