(* ===== verification/Document_Worker.thy ===== *)
theory Document_Worker
  imports Document_Removal Raptor_Spec Chunk_Strategies
begin

text \<open>
  The worker of a parse task (\<^verbatim>\<open>server.rs\<close>: \<open>queue_document_processing\<close>, \<open>process_document\<close>,
  \<open>document_executor_handler\<close>): it claims the task, shows the document as running, waits for the
  pipeline while it renews its lease, commits the chunks, and settles the task and the document.

  The pipeline (parsers, chunking, embedding) is outside: its answer is an input, and so are the
  parsed configuration and the entities of a chunk. While it waits, and at the points of its run that
  the record \<open>others\<close> names, other requests and workers act on the same stores.
  The log of ingestion runs is not modelled: it is written and its errors are ignored.
\<close>

section \<open>What surrounds the worker\<close>

record ('m, 'j) others =
  ot_claim :: "('m, 'j) corpus \<Rightarrow> ('m, 'j) corpus"
  ot_start :: "('m, 'j) corpus \<Rightarrow> ('m, 'j) corpus"
  ot_read :: "('m, 'j) corpus \<Rightarrow> ('m, 'j) corpus"
  ot_parsed :: "('m, 'j) corpus \<Rightarrow> ('m, 'j) corpus"
  ot_lock :: "('m, 'j) corpus \<Rightarrow> ('m, 'j) corpus"
  ot_commit :: "('m, 'j) corpus \<Rightarrow> ('m, 'j) corpus"
  ot_settle :: "('m, 'j) corpus \<Rightarrow> ('m, 'j) corpus"
  ot_end :: "('m, 'j) corpus \<Rightarrow> ('m, 'j) corpus"

definition alone :: "('m, 'j) others" where
  "alone = \<lparr>ot_claim = \<lambda>s. s, ot_start = \<lambda>s. s, ot_read = \<lambda>s. s, ot_parsed = \<lambda>s. s, ot_lock = \<lambda>s. s,
            ot_commit = \<lambda>s. s, ot_settle = \<lambda>s. s, ot_end = \<lambda>s. s\<rparr>"

text \<open>The outcomes of the worker's writes and its readings of the clock.\<close>

record worker_env =
  wk_worker :: string
  wk_token :: string
  wk_claim :: "write_env option"
  wk_claim_now :: u64
  wk_start :: write_env
  wk_start_now :: u64
  wk_check_now :: u64
  wk_renew :: "write_env option"
  wk_renew_now :: u64
  wk_commit :: commit_env
  wk_settle :: "write_env option"
  wk_settle_now :: u64
  wk_settle_written :: u64
  wk_end :: write_env
  wk_end_now :: u64

text \<open>The fields of \<open>ParserConfig\<close> the worker reads.\<close>

record worker_config =
  wc_raptor_enabled :: bool
  wc_raptor_depth :: nat
  wc_raptor_threshold :: f32
  wc_graphrag_enabled :: bool
  wc_graphrag_method :: string
  wc_graphrag_entity_types :: "string list"

record pipeline =
  pl_config :: "string \<Rightarrow> worker_config res"
  pl_ready :: "unit res"
  pl_chunks :: "chunk list res"
  pl_extract :: "string \<Rightarrow> ner_entity list"

definition TASK_LEASE_DURATION_MS :: u64 where
  "TASK_LEASE_DURATION_MS = 30000"

definition TASK_COMMIT_LEASE_DURATION_MS :: u64 where
  "TASK_COMMIT_LEASE_DURATION_MS = 120000"

section \<open>Small steps\<close>

text \<open>A status write whose error is only logged.\<close>

definition show_status ::
    "write_env \<Rightarrow> u64 \<Rightarrow> string \<Rightarrow> string \<Rightarrow> f32 \<Rightarrow> string \<Rightarrow> ('m, 'j) corpus \<Rightarrow> ('m, 'j) corpus \<times> unit res" where
  "show_status e now i run progress msg s =
     (case update_status e now i run progress msg (co_docs s) of
        (d, Panic) \<Rightarrow> (s\<lparr>co_docs := d\<rparr>, Panic) | (d, r) \<Rightarrow> (s\<lparr>co_docs := d\<rparr>, Ok ()))"

definition retryable_processing_error :: "string \<Rightarrow> bool" where
  "retryable_processing_error msg =
     list_all (\<lambda>part. \<not> str_contains msg part)
       [''Embedding is not configured'', ''Requested embedding model'', ''Global embedding model'',
        ''Provider is disabled'', ''Knowledge base not found'', ''Uploaded file is missing'',
        ''Invalid upload path'', ''Invalid parser configuration'', ''Processing cancelled'']"

definition settle_task ::
    "worker_env \<Rightarrow> string \<Rightarrow> string \<Rightarrow> string \<Rightarrow> f32 \<Rightarrow> string \<Rightarrow> ('m, 'j) corpus \<Rightarrow> ('m, 'j) corpus \<times> bool res" where
  "settle_task e task token status progress msg s =
     (case tq_update_claimed (wk_settle e) (wk_settle_now e) (wk_settle_written e) task token status progress
             msg (co_tasks s) of
        (q, r) \<Rightarrow> (s\<lparr>co_tasks := q\<rparr>, r))"

section \<open>The steps of the worker\<close>

text \<open>A cancelled task is not claimed; its document is shown as cancelled.\<close>

definition worker_begin ::
    "worker_env \<Rightarrow> ('m, 'j) others \<Rightarrow> string \<Rightarrow> 'j doc_record \<Rightarrow> ('m, 'j) corpus \<Rightarrow>
     ('m, 'j) corpus \<times> task_lease option res" where
  "worker_begin e ot task doc s =
     on_read (tq_is_cancelled task (co_tasks s)) s (\<lambda>cancelled.
     if cancelled then
       (case show_status (wk_start e) (wk_start_now e) (dc_id doc) ''CANCELLED'' (Fin 1)
               ''Processing cancelled'' s of
          (s, r) \<Rightarrow> (s, res_map (\<lambda>_. None) r))
     else
       let s = ot_claim ot s
       in case tq_claim (wk_claim e) (wk_claim_now e) (wk_token e) task (wk_worker e)
                 TASK_LEASE_DURATION_MS ''Parsing document'' (co_tasks s) of
            (q, Ok (Some l)) \<Rightarrow>
              (case show_status (wk_start e) (wk_start_now e) (dc_id doc) ''RUNNING'' f32_0_05
                      ''Parsing document'' (ot_start ot (s\<lparr>co_tasks := q\<rparr>)) of
                 (s, r) \<Rightarrow> (s, res_map (\<lambda>_. Some l) r))
          | (q, Ok None) \<Rightarrow> (s\<lparr>co_tasks := q\<rparr>, Ok None)
          | (q, Err err) \<Rightarrow> (s\<lparr>co_tasks := q\<rparr>, Ok None)
          | (q, Panic) \<Rightarrow> (s\<lparr>co_tasks := q\<rparr>, Panic))"

definition worker_prepare :: "pipeline \<Rightarrow> 'j doc_record \<Rightarrow> ('m, 'j) corpus \<Rightarrow> worker_config res" where
  "worker_prepare pl doc s =
     res_bind (kb_lookup (dc_kb_id doc) (co_kbs s)) (\<lambda>found. case found of
         None \<Rightarrow> Err ''Knowledge base not found''
       | Some kb \<Rightarrow>
           (case pl_config pl (kb_parser_config kb) of
              Ok config \<Rightarrow> res_map (\<lambda>_. config) (pl_ready pl)
            | Err err \<Rightarrow> Err (''Invalid parser configuration: '' @ err)
            | Panic \<Rightarrow> Panic))"

text \<open>The renewals of the lease while the pipeline works; a failed one ends the wait.\<close>

fun lease_beats ::
    "string \<Rightarrow> string \<Rightarrow> ((('m, 'j) corpus \<Rightarrow> ('m, 'j) corpus) \<times> u64 \<times> write_env option) list \<Rightarrow>
     ('m, 'j) corpus \<Rightarrow> ('m, 'j) corpus \<times> unit res" where
  "lease_beats task token [] s = (s, Ok ())"
| "lease_beats task token ((w, now, e) # bs) s =
     (let s = w s
      in case tq_renew_lease e now task token TASK_LEASE_DURATION_MS (co_tasks s) of
           (q, Ok True) \<Rightarrow> lease_beats task token bs (s\<lparr>co_tasks := q\<rparr>)
         | (q, Ok False) \<Rightarrow> (s\<lparr>co_tasks := q\<rparr>, Err ''Task lease lost'')
         | (q, Err err) \<Rightarrow> (s\<lparr>co_tasks := q\<rparr>, Err ''Failed to renew task lease'')
         | (q, Panic) \<Rightarrow> (s\<lparr>co_tasks := q\<rparr>, Panic))"

definition stamp_chunk :: "'j doc_record \<Rightarrow> chunk \<Rightarrow> indexed_chunk" where
  "stamp_chunk doc c =
     \<lparr>ic_id = ch_id c, ic_doc_name = dc_name doc, ic_content = ch_content c,
      ic_embedding = (case ch_embedding c of None \<Rightarrow> [] | Some e \<Rightarrow> e), ic_token_count = ch_tokens c,
      ic_position = ch_position c,
      ic_metadata = hput ''content_type'' (ch_type c) (hput ''file_name'' (dc_name doc)
        (hput ''kb_id'' (dc_kb_id doc) (hput ''doc_id'' (dc_id doc) (ch_metadata c))))\<rparr>"

definition worker_chunks :: "worker_config \<Rightarrow> 'j doc_record \<Rightarrow> chunk list \<Rightarrow> indexed_chunk list res" where
  "worker_chunks config doc chunks =
     (let indexed = map (stamp_chunk doc) chunks
      in if wc_raptor_enabled config
         then res_map (\<lambda>more. indexed @ more)
                (build_raptor_chunks (dc_id doc) (dc_kb_id doc) (dc_name doc) indexed
                   (wc_raptor_threshold config) (wc_raptor_depth config))
         else Ok indexed)"

definition worker_graph ::
    "pipeline \<Rightarrow> worker_config \<Rightarrow> 'j doc_record \<Rightarrow> chunk list \<Rightarrow> graph_checkpoint option" where
  "worker_graph pl config doc chunks =
     (if wc_graphrag_enabled config
      then Some (build_checkpoint (pl_extract pl) (dc_id doc) (dc_kb_id doc) (dc_content_hash doc)
             (wc_graphrag_method config) (wc_graphrag_entity_types config) (map (stamp_chunk doc) chunks))
      else None)"

definition indexed_message :: "nat \<Rightarrow> string" where
  "indexed_message n = ''Indexed '' @ nat_to_str n @ '' chunks''"

text \<open>From the pipeline's chunks to the commit; the lease is checked, renewed, and checked again.\<close>

definition worker_store ::
    "'m mirror_ops \<Rightarrow> (string \<Rightarrow> json option) \<Rightarrow> worker_env \<Rightarrow> ('m, 'j) others \<Rightarrow> string \<Rightarrow> string \<Rightarrow>
     'j doc_record \<Rightarrow> indexed_chunk list \<Rightarrow> graph_checkpoint option \<Rightarrow> ('m, 'j) corpus \<Rightarrow>
     ('m, 'j) corpus \<times> nat res" where
  "worker_store mo parse e ot task token doc indexed checkpoint s =
     on_read (tq_is_cancelled task (co_tasks s)) s (\<lambda>cancelled.
     if cancelled then (s, Err ''Processing cancelled'')
     else case tq_renew_lease (wk_renew e) (wk_renew_now e) task token TASK_COMMIT_LEASE_DURATION_MS
                 (co_tasks s) of
        (q, Ok True) \<Rightarrow>
          (case commit_indexed_document mo parse (wk_commit e) (ot_commit ot) doc task token indexed
                  checkpoint (indexed_message (length indexed)) (ot_lock ot (s\<lparr>co_tasks := q\<rparr>)) of
             (s, r) \<Rightarrow> (s, res_map (\<lambda>_. length indexed) r))
      | (q, Ok False) \<Rightarrow> (s\<lparr>co_tasks := q\<rparr>, Err ''Task lease lost before index commit'')
      | (q, Err err) \<Rightarrow> (s\<lparr>co_tasks := q\<rparr>, Err err)
      | (q, Panic) \<Rightarrow> (s\<lparr>co_tasks := q\<rparr>, Panic))"

definition worker_index ::
    "'m mirror_ops \<Rightarrow> (string \<Rightarrow> json option) \<Rightarrow> worker_env \<Rightarrow> pipeline \<Rightarrow> ('m, 'j) others \<Rightarrow> string \<Rightarrow>
     string \<Rightarrow> 'j doc_record \<Rightarrow> worker_config \<Rightarrow> chunk list \<Rightarrow> ('m, 'j) corpus \<Rightarrow>
     ('m, 'j) corpus \<times> nat res" where
  "worker_index mo parse e pl ot task token doc config chunks s =
     on_read (tq_is_cancelled task (co_tasks s)) s (\<lambda>cancelled.
     if cancelled then (s, Err ''Processing cancelled'')
     else on_read (tq_owns_lease (wk_check_now e) task token (co_tasks s)) s (\<lambda>owns.
       if \<not> owns then (s, Err ''Task lease lost'')
       else if list_ex (\<lambda>c. ch_embedding c = None) chunks
       then (s, Err ''Embedding did not produce vectors for every chunk'')
       else on_read (worker_chunks config doc chunks) s (\<lambda>indexed.
         worker_store mo parse e ot task token doc indexed (worker_graph pl config doc chunks) s)))"

definition worker_process ::
    "'m mirror_ops \<Rightarrow> (string \<Rightarrow> json option) \<Rightarrow> worker_env \<Rightarrow> pipeline \<Rightarrow> ('m, 'j) others \<Rightarrow>
     ((('m, 'j) corpus \<Rightarrow> ('m, 'j) corpus) \<times> u64 \<times> write_env option) list \<Rightarrow> string \<Rightarrow> string \<Rightarrow>
     'j doc_record \<Rightarrow> ('m, 'j) corpus \<Rightarrow> ('m, 'j) corpus \<times> nat res" where
  "worker_process mo parse e pl ot beats task token doc s =
     (let s = ot_read ot s
      in on_read (worker_prepare pl doc s) s (\<lambda>config.
         case lease_beats task token beats s of
           (s, Ok u) \<Rightarrow>
             (let s = ot_parsed ot s
              in on_read (pl_chunks pl) s (\<lambda>chunks.
                   worker_index mo parse e pl ot task token doc config chunks s))
         | (s, Err err) \<Rightarrow> (s, Err err)
         | (s, Panic) \<Rightarrow> (s, Panic)))"

section \<open>Settling\<close>

text \<open>The document follows the task only where the claim still held.\<close>

definition settle_both ::
    "worker_env \<Rightarrow> ('m, 'j) others \<Rightarrow> string \<Rightarrow> string \<Rightarrow> 'j doc_record \<Rightarrow> string \<Rightarrow> string \<Rightarrow> f32 \<Rightarrow> string \<Rightarrow>
     ('m, 'j) corpus \<Rightarrow> ('m, 'j) corpus \<times> unit res" where
  "settle_both e ot task token doc status run progress msg s =
     (case settle_task e task token status progress msg s of
        (s, Ok True) \<Rightarrow> show_status (wk_end e) (wk_end_now e) (dc_id doc) run progress msg (ot_end ot s)
      | (s, Ok False) \<Rightarrow> (s, Ok ())
      | (s, Err err) \<Rightarrow> (s, Ok ())
      | (s, Panic) \<Rightarrow> (s, Panic))"

definition worker_settle ::
    "worker_env \<Rightarrow> ('m, 'j) others \<Rightarrow> string \<Rightarrow> task_lease \<Rightarrow> 'j doc_record \<Rightarrow> nat res \<Rightarrow>
     ('m, 'j) corpus \<Rightarrow> ('m, 'j) corpus \<times> unit res" where
  "worker_settle e ot task l doc result s =
     (case result of
        Ok n \<Rightarrow>
          (case settle_task e task (tl_token l) ''done'' (Fin 1) (indexed_message n) s of
             (s, Panic) \<Rightarrow> (s, Panic) | (s, r) \<Rightarrow> (s, Ok ()))
      | Err err \<Rightarrow>
          on_read (tq_is_cancelled task (co_tasks s)) s (\<lambda>cancelled.
          if cancelled then
            (case settle_task e task (tl_token l) ''cancelled'' (Fin 1) ''Processing cancelled'' s of
               (s, Panic) \<Rightarrow> (s, Panic)
             | (s, r) \<Rightarrow> show_status (wk_end e) (wk_end_now e) (dc_id doc) ''CANCELLED'' (Fin 1)
                          ''Processing cancelled'' (ot_end ot s))
          else on_read (if retryable_processing_error err then tq_can_retry task (co_tasks s) else Ok False) s
            (\<lambda>again.
             if again
             then settle_both e ot task (tl_token l) doc ''pending'' ''UNSTARTED'' (Fin 0)
                    (''Attempt '' @ nat_to_str (unat (tl_attempt l)) @ '' failed: '' @ err @ ''; retrying'') s
             else settle_both e ot task (tl_token l) doc ''failed'' ''FAILED'' (Fin 1) err s))
      | Panic \<Rightarrow> (s, Panic))"

definition process_document ::
    "'m mirror_ops \<Rightarrow> (string \<Rightarrow> json option) \<Rightarrow> worker_env \<Rightarrow> pipeline \<Rightarrow> ('m, 'j) others \<Rightarrow>
     ((('m, 'j) corpus \<Rightarrow> ('m, 'j) corpus) \<times> u64 \<times> write_env option) list \<Rightarrow> string \<Rightarrow>
     'j doc_record \<Rightarrow> ('m, 'j) corpus \<Rightarrow> ('m, 'j) corpus \<times> unit res" where
  "process_document mo parse e pl ot beats task doc s =
     (case worker_begin e ot task doc s of
        (s, Ok (Some l)) \<Rightarrow>
          (case worker_process mo parse e pl ot beats task (tl_token l) doc s of
             (s, r) \<Rightarrow> worker_settle e ot task l doc r (ot_settle ot s))
      | (s, Ok None) \<Rightarrow> (s, Ok ())
      | (s, Err err) \<Rightarrow> (s, Err err)
      | (s, Panic) \<Rightarrow> (s, Panic))"

section \<open>Queueing and the executor\<close>

text \<open>
  \<open>queue_document_processing\<close>: whether the upload is there and what the executor's channel answers
  are inputs; the clock is read by the queue and by the status write.
\<close>

definition queue_document_processing ::
    "write_env option \<Rightarrow> u64 \<Rightarrow> string \<Rightarrow> write_env \<Rightarrow> u64 \<Rightarrow> write_env option \<Rightarrow> u64 \<Rightarrow> bool \<Rightarrow> unit res \<Rightarrow>
     string \<Rightarrow> 'j doc_record \<Rightarrow> int \<Rightarrow> ('m, 'j) corpus \<Rightarrow> ('m, 'j) corpus \<times> string res" where
  "queue_document_processing eq now uuid ed now' ec now'' is_file submitted owner doc priority s =
     (if \<not> is_file then (s, Err ''Uploaded file is missing'')
      else case tq_push_document_unique eq now uuid owner (''Parse '' @ dc_name doc) (dc_id doc)
                  (dc_kb_id doc) priority (co_tasks s) of
        (q, Ok (task, created)) \<Rightarrow>
          (let s = s\<lparr>co_tasks := q\<rparr>;
               answer = (\<lambda>s. (s, case submitted of
                    Ok u \<Rightarrow> Ok task
                  | Err err \<Rightarrow> Err (''Failed to queue the parse task: '' @ err)
                  | Panic \<Rightarrow> Panic))
           in if \<not> created then answer s
              else case update_status ed now' (dc_id doc) ''UNSTARTED'' (Fin 0) ''Queued for parsing''
                          (co_docs s) of
                 (d, Ok b) \<Rightarrow> answer (s\<lparr>co_docs := d\<rparr>)
               | (d, Err err) \<Rightarrow>
                   (case tq_request_cancel ec now'' task q of
                      (q, Panic) \<Rightarrow> (s\<lparr>co_docs := d, co_tasks := q\<rparr>, Panic)
                    | (q, r) \<Rightarrow> (s\<lparr>co_docs := d, co_tasks := q\<rparr>, Err err))
               | (d, Panic) \<Rightarrow> (s\<lparr>co_docs := d\<rparr>, Panic))
      | (q, Err err) \<Rightarrow> (s\<lparr>co_tasks := q\<rparr>, Err err)
      | (q, Panic) \<Rightarrow> (s\<lparr>co_tasks := q\<rparr>, Panic))"

text \<open>What the executor is told when the worker is through: the status of the task decides.\<close>

definition executor_answer :: "string \<Rightarrow> nat res" where
  "executor_answer status =
     (if status \<in> {''done'', ''pending'', ''running''} then Ok 0
      else if status = ''cancelled'' then Err ''Processing cancelled''
      else Err (''Document processing failed: '' @ status))"

definition document_executor_handler ::
    "'m mirror_ops \<Rightarrow> (string \<Rightarrow> json option) \<Rightarrow> worker_env \<Rightarrow> pipeline \<Rightarrow> ('m, 'j) others \<Rightarrow>
     ((('m, 'j) corpus \<Rightarrow> ('m, 'j) corpus) \<times> u64 \<times> write_env option) list \<Rightarrow> bool \<Rightarrow> string \<Rightarrow> string \<Rightarrow>
     ('m, 'j) corpus \<Rightarrow> ('m, 'j) corpus \<times> nat res" where
  "document_executor_handler mo parse e pl ot beats is_file task doc_id s =
     on_read (doc_get doc_id (co_docs s)) s (\<lambda>found. case found of
         None \<Rightarrow> (s, Err ''Document metadata is missing'')
       | Some doc \<Rightarrow>
           if \<not> is_file then (s, Err ''Uploaded file is missing'')
           else (case process_document mo parse e pl ot beats task doc s of
                   (s, Ok u) \<Rightarrow>
                     on_read (tq_get task (co_tasks s)) s (\<lambda>t.
                       (s, executor_answer (case t of None \<Rightarrow> [] | Some t \<Rightarrow> tk_status t)))
                 | (s, Err err) \<Rightarrow> (s, Err err)
                 | (s, Panic) \<Rightarrow> (s, Panic)))"

end
