(* ===== verification/Document_Worker_Spec.thy ===== *)
theory Document_Worker_Spec
  imports Document_Worker Document_Commit_Spec
begin

text \<open>
  What a run of the worker leaves: the chunks of the document are the old ones or exactly the new
  ones; on its own, the worker leaves the task and the document telling the same; and the cases
  in which they do not.
\<close>

section \<open>The chunks of the document\<close>

abbreviation doc_chunks :: "string \<Rightarrow> ('m, 'j) corpus \<Rightarrow> indexed_chunk list" where
  "doc_chunks d s \<equiv> chunks_for_document d (ix_engine (co_index s))"

text \<open>
  What others do to the chunks of a document while its worker runs: leave them alone, or put one of the
  contents of \<open>A\<close> in their place (a deletion puts the empty list, an edit by hand its result).
\<close>

definition writes_only :: "string \<Rightarrow> indexed_chunk list set \<Rightarrow> (('m, 'j) corpus \<Rightarrow> ('m, 'j) corpus) \<Rightarrow> bool" where
  "writes_only d A w \<longleftrightarrow> (\<forall>s. doc_chunks d (w s) = doc_chunks d s \<or> doc_chunks d (w s) \<in> A)"

definition others_write ::
    "string \<Rightarrow> indexed_chunk list set \<Rightarrow> ('m, 'j) others \<Rightarrow>
     ((('m, 'j) corpus \<Rightarrow> ('m, 'j) corpus) \<times> u64 \<times> write_env option) list \<Rightarrow> bool" where
  "others_write d A ot beats \<longleftrightarrow>
     list_all (writes_only d A)
       ([ot_claim ot, ot_start ot, ot_read ot, ot_parsed ot, ot_lock ot, ot_commit ot, ot_settle ot, ot_end ot]
        @ map fst beats)"

lemma writes_onlyD:
  "writes_only d A w \<Longrightarrow> A \<subseteq> C \<Longrightarrow> doc_chunks d s \<in> C \<Longrightarrow> doc_chunks d (w s) \<in> C"
  unfolding writes_only_def by (metis subsetD)

lemma all_of_doc_chunks [simp]: "all_of_doc d (chunks_for_document d cs)"
  by (rule engine.owned_look)

text \<open>A commit keeps the chunks within every set that has the new ones and what others write.\<close>

lemma commit_record_chunks:
  assumes "commit_record mo e doc n delta msg previous graphs t = (s', r)"
    and "all_of_doc (dc_id doc) previous" and "previous \<in> C" and "doc_chunks (dc_id doc) t \<in> C"
  shows "doc_chunks (dc_id doc) s' \<in> C"
  using assms
  by (auto simp: commit_record_def Let_def engine.look_replace split: prod.splits res.splits bool.splits)

lemma commit_counts_chunks:
  assumes "commit_counts mo e w doc n delta msg previous graphs t = (s', r)"
    and "all_of_doc (dc_id doc) previous" and "previous \<in> C" and "doc_chunks (dc_id doc) t \<in> C"
    and "writes_only (dc_id doc) A w" and "A \<subseteq> C"
  shows "doc_chunks (dc_id doc) s' \<in> C"
proof -
  obtain k q where upd: "update_counts (cm_kbs e) (cm_kbs_now e) (dc_kb_id doc) delta 0 (co_kbs t) = (k, q)"
    by fastforce
  show ?thesis
  proof (cases q)
    case (Ok u)
    with upd assms(1) have "commit_record mo e doc n delta msg previous graphs (w (t\<lparr>co_kbs := k\<rparr>)) = (s', r)"
      by (simp add: commit_counts_def)
    from commit_record_chunks [OF this assms(2,3)] writes_onlyD [OF assms(5,6), of "t\<lparr>co_kbs := k\<rparr>"] assms(4)
    show ?thesis by simp
  qed (use assms upd in \<open>auto simp: commit_counts_def engine.look_replace\<close>)
qed

lemma commit_chunks:
  assumes run: "commit_indexed_document mo parse e w doc task token indexed checkpoint msg s = (s', r)"
    and own: "all_of_doc (dc_id doc) indexed" and C: "indexed \<in> C" "doc_chunks (dc_id doc) s \<in> C"
    and w: "writes_only (dc_id doc) A w" "A \<subseteq> C"
  shows "doc_chunks (dc_id doc) s' \<in> C"
  using run
proof (cases rule: commit_indexed_cases)
  case (1 cur)
  obtain t q where rep: "replace_in_index mo parse (cm_index e) (dc_id doc) (dc_kb_id doc) indexed s = (t, q)"
    by fastforce
  from rep show ?thesis
  proof (cases rule: replace_in_index_cases)
    case (1 err)
    with \<open>commit_stores _ _ _ _ _ _ _ _ _ _ = _\<close> rep have "s' = t" by (simp add: commit_stores_def Let_def)
    with 1(3) own C(1) show ?thesis by (simp add: engine.look_replace)
  next
    case (2 ix err)
    with \<open>commit_stores _ _ _ _ _ _ _ _ _ _ = _\<close> rep have "s' = t" "r = Err err"
      by (simp_all add: commit_stores_def Let_def)
    with 2(3,4) C(2) show ?thesis by (simp add: engine.look_replace)
  next
    case (3 ix)
    then have t: "doc_chunks (dc_id doc) t = indexed" using own by (simp add: engine.look_replace)
    obtain g p where rg: "replace_document_graph (cm_graphs e) (dc_id doc) checkpoint (co_graphs t) = (g, p)"
      by fastforce
    show ?thesis
    proof (cases p)
      case (Ok u)
      with 3(1) rep rg \<open>commit_stores _ _ _ _ _ _ _ _ _ _ = _\<close>
      have "commit_counts mo e w doc (of_nat (length indexed)) (of_nat (length indexed) - dc_chunk_count cur) msg
          (doc_chunks (dc_id doc) s) (gs_artifacts (co_graphs s)) (t\<lparr>co_graphs := g\<rparr>) = (s', r)"
        by (simp add: commit_stores_def Let_def)
      from commit_counts_chunks [OF this _ C(2) _ w] t C(1) show ?thesis by simp
    qed (use 3(1) rep rg t C \<open>commit_stores _ _ _ _ _ _ _ _ _ _ = _\<close> in
        \<open>auto simp: commit_stores_def Let_def engine.look_replace\<close>)
  qed
qed (use C in simp_all)

text \<open>The worker's other steps do not touch the index.\<close>

lemma show_status_index:
  "show_status e now i run p msg s = (s', r) \<Longrightarrow> co_index s' = co_index s"
  by (auto simp: show_status_def split: prod.splits res.splits)

lemma settle_task_index:
  "settle_task e task token status p msg s = (s', r) \<Longrightarrow> co_index s' = co_index s"
  by (auto simp: settle_task_def split: prod.splits)

lemma lease_beats_chunks:
  "lease_beats task token beats s = (s', r) \<Longrightarrow> list_all (writes_only d A) (map fst beats) \<Longrightarrow> A \<subseteq> C \<Longrightarrow>
    doc_chunks d s \<in> C \<Longrightarrow> doc_chunks d s' \<in> C"
proof (induction task token beats s rule: lease_beats.induct)
  case (2 task token w now e bs s)
  have "doc_chunks d (w s) \<in> C" using 2 writes_onlyD [of d A w C s] by simp
  with 2 show ?case
    by (cases "tq_renew_lease e now task token TASK_LEASE_DURATION_MS (co_tasks (w s))")
       (auto simp: Let_def split: res.splits bool.splits)
qed simp

lemma all_of_doc_stamped: "all_of_doc (dc_id doc) (map (stamp_chunk doc) chunks)"
  by (auto simp: all_of_doc_def stamp_chunk_def chunk_meta_def)

lemma raptor_chunks_own:
  "build_raptor_chunks doc kb name indexed threshold d = Ok rs \<Longrightarrow> all_of_doc doc rs"
  by (auto simp: build_raptor_chunks_def all_of_doc_def Let_def split: if_splits prod.splits res.splits)

lemma worker_chunks_own:
  assumes "worker_chunks config doc chunks = Ok indexed"
  shows "all_of_doc (dc_id doc) indexed"
proof -
  have "all_of_doc (dc_id doc) more"
    if "build_raptor_chunks (dc_id doc) kb name cs thr d = Ok more" for kb name cs thr d more
    using that by (rule raptor_chunks_own)
  with assms all_of_doc_stamped [of doc chunks] show ?thesis
    by (auto simp: worker_chunks_def Let_def res_map_Ok_iff all_of_doc_def split: if_splits)
qed

text \<open>What the worker may put in the index: all the chunks made of what the pipeline answered, embedded.\<close>

definition new_chunks :: "pipeline \<Rightarrow> 'j doc_record \<Rightarrow> indexed_chunk list set" where
  "new_chunks pl doc =
     {cs. \<exists>config chunks. pl_chunks pl = Ok chunks \<and> list_all (\<lambda>c. ch_embedding c \<noteq> None) chunks \<and>
        worker_chunks config doc chunks = Ok cs}"

lemma worker_index_chunks:
  assumes run: "worker_index mo parse e pl ot task token doc config chunks t = (s', r)"
    and chunks: "pl_chunks pl = Ok chunks" and ot: "others_write (dc_id doc) A ot beats"
    and C: "A \<subseteq> C" "new_chunks pl doc \<subseteq> C" "doc_chunks (dc_id doc) t \<in> C"
  shows "doc_chunks (dc_id doc) s' \<in> C"
proof -
  have store: ?thesis
    if "worker_store mo parse e ot task token doc indexed checkpoint t = (s', r)"
      "\<not> list_ex (\<lambda>c. ch_embedding c = None) chunks" "worker_chunks config doc chunks = Ok indexed"
    for indexed checkpoint
  proof -
    have new: "indexed \<in> C"
      using that(2,3) chunks C(2) by (auto simp: new_chunks_def list_all_iff list_ex_iff)
    obtain q p where renew: "tq_renew_lease (wk_renew e) (wk_renew_now e) task token
        TASK_COMMIT_LEASE_DURATION_MS (co_tasks t) = (q, p)" by fastforce
    obtain u c where com: "commit_indexed_document mo parse (wk_commit e) (ot_commit ot) doc task token indexed
        checkpoint (indexed_message (length indexed)) (ot_lock ot (t\<lparr>co_tasks := q\<rparr>)) = (u, c)" by fastforce
    have "doc_chunks (dc_id doc) (ot_lock ot (t\<lparr>co_tasks := q\<rparr>)) \<in> C"
      using ot C by (intro writes_onlyD [where A = A and w = "ot_lock ot"]) (simp_all add: others_write_def)
    from commit_chunks [OF com worker_chunks_own [OF that(3)] new this _ C(1)] ot
    have "doc_chunks (dc_id doc) u \<in> C" by (simp add: others_write_def)
    with that(1) renew com C(3) show ?thesis
      by (auto simp: worker_store_def on_read_def split: res.splits bool.splits if_splits)
  qed
  with run C(3) show ?thesis by (auto simp: worker_index_def on_read_def split: res.splits if_splits)
qed

lemma worker_process_chunks:
  assumes run: "worker_process mo parse e pl ot beats task token doc s = (s', r)"
    and ot: "others_write (dc_id doc) A ot beats"
    and C: "A \<subseteq> C" "new_chunks pl doc \<subseteq> C" "doc_chunks (dc_id doc) s \<in> C"
  shows "doc_chunks (dc_id doc) s' \<in> C"
proof -
  note kept = ot [unfolded others_write_def, simplified]
  obtain t q where beats: "lease_beats task token beats (ot_read ot s) = (t, q)" by fastforce
  have read: "doc_chunks (dc_id doc) (ot_read ot s) \<in> C"
    using kept C by (intro writes_onlyD [where A = A and w = "ot_read ot"]) simp_all
  with lease_beats_chunks [OF beats _ C(1)] kept have t: "doc_chunks (dc_id doc) t \<in> C" by simp
  then have pt: "doc_chunks (dc_id doc) (ot_parsed ot t) \<in> C"
    using kept C by (intro writes_onlyD [where A = A and w = "ot_parsed ot"]) simp_all
  show ?thesis
  proof (cases "worker_prepare pl doc (ot_read ot s)")
    case (Ok config)
    show ?thesis
    proof (cases q)
      case q: (Ok u)
      show ?thesis
      proof (cases "pl_chunks pl")
        case chunks: (Ok chunks)
        with run Ok beats q have "worker_index mo parse e pl ot task token doc config chunks (ot_parsed ot t) = (s', r)"
          by (simp add: worker_process_def on_read_def Let_def)
        then show ?thesis by (rule worker_index_chunks [OF _ chunks ot C(1,2) pt])
      qed (use run Ok beats q pt in \<open>auto simp: worker_process_def on_read_def Let_def\<close>)
    qed (use run Ok beats t in \<open>auto simp: worker_process_def on_read_def Let_def\<close>)
  qed (use run read in \<open>auto simp: worker_process_def on_read_def Let_def\<close>)
qed

lemma worker_begin_chunks:
  assumes "worker_begin e ot task doc s = (s', r)" and "others_write d A ot beats"
    and "A \<subseteq> C" and "doc_chunks d s \<in> C"
  shows "doc_chunks d s' \<in> C"
proof -
  have claim: "doc_chunks d (ot_claim ot s) \<in> C"
    using assms(2-4) by (intro writes_onlyD [where A = A and w = "ot_claim ot"]) (simp_all add: others_write_def)
  have start: "doc_chunks d (ot_start ot t) \<in> C" if "co_index t = co_index (ot_claim ot s)" for t
    using assms(2,3) claim that by (intro writes_onlyD [where A = A and w = "ot_start ot"]) (simp_all add: others_write_def)
  show ?thesis
    using assms(1,4) claim start
    by (auto simp: worker_begin_def on_read_def Let_def
        split: res.splits prod.splits option.splits if_splits dest!: show_status_index)
qed

lemma settle_both_chunks:
  assumes "settle_both e ot task token doc status run p msg s = (s', r)"
    and "writes_only d A (ot_end ot)" "A \<subseteq> C" "doc_chunks d s \<in> C"
  shows "doc_chunks d s' \<in> C"
proof -
  have "doc_chunks d (ot_end ot t) \<in> C" if "co_index t = co_index s" for t
    using assms(2-4) that by (intro writes_onlyD [where A = A and w = "ot_end ot"]) simp_all
  with assms(1,4) show ?thesis
    by (auto simp: settle_both_def split: res.splits prod.splits bool.splits
        dest!: show_status_index settle_task_index)
qed

lemma worker_settle_chunks:
  assumes "worker_settle e ot task l doc result s = (s', r)"
    and "writes_only d A (ot_end ot)" "A \<subseteq> C" "doc_chunks d s \<in> C"
  shows "doc_chunks d s' \<in> C"
proof (cases result)
  case (Ok n)
  with assms(1,4) show ?thesis
    by (auto simp: worker_settle_def split: res.splits prod.splits dest!: settle_task_index)
next
  case (Err err)
  have "doc_chunks d (ot_end ot t) \<in> C" if "co_index t = co_index s" for t
    using assms(2-4) that by (intro writes_onlyD [where A = A and w = "ot_end ot"]) simp_all
  then have "doc_chunks d t' \<in> C"
    if "(case settle_task e task (tl_token l) ''cancelled'' (Fin 1) ''Processing cancelled'' s of
            (s, Panic) \<Rightarrow> (s, Panic)
          | (s, q) \<Rightarrow> show_status (wk_end e) (wk_end_now e) (dc_id doc) ''CANCELLED'' (Fin 1)
                       ''Processing cancelled'' (ot_end ot s)) = (t', r)" for t'
    using that assms(4)
    by (auto split: res.splits prod.splits dest!: show_status_index settle_task_index)
  with assms Err show ?thesis
    by (auto simp: worker_settle_def on_read_def dest: settle_both_chunks split: res.splits if_splits)
qed (use assms in \<open>auto simp: worker_settle_def\<close>)

text \<open>
  C8. Whatever happens to a run of the worker (a lost lease, a cancellation, a failed write, a poisoned lock)
  and whatever others write to the document meanwhile, the document has in the end the chunks it had, or a
  content that somebody else has written, or exactly the chunks made of what the pipeline answered, each of
  them embedded; never a mixture.
\<close>

theorem worker_old_or_new:
  assumes run: "process_document mo parse e pl ot beats task doc s = (s', r)"
    and others: "others_write (dc_id doc) A ot beats"
  shows "doc_chunks (dc_id doc) s' \<in> insert (doc_chunks (dc_id doc) s) A \<or>
    (\<exists>config chunks. pl_chunks pl = Ok chunks \<and> list_all (\<lambda>c. ch_embedding c \<noteq> None) chunks \<and>
       worker_chunks config doc chunks = Ok (doc_chunks (dc_id doc) s'))"
proof -
  let ?C = "insert (doc_chunks (dc_id doc) s) (A \<union> new_chunks pl doc)"
  have C: "A \<subseteq> ?C" "new_chunks pl doc \<subseteq> ?C" by auto
  obtain t q where start: "worker_begin e ot task doc s = (t, q)" by fastforce
  have t: "doc_chunks (dc_id doc) t \<in> ?C" by (rule worker_begin_chunks [OF start others C(1)]) simp
  have "doc_chunks (dc_id doc) s' \<in> ?C"
  proof (cases "\<exists>l. q = Ok (Some l)")
    case False
    with run start t show ?thesis by (auto simp: process_document_def split: res.splits option.splits)
  next
    case True
    then obtain l where l: "q = Ok (Some l)" ..
    obtain u p where proc: "worker_process mo parse e pl ot beats task (tl_token l) doc t = (u, p)" by fastforce
    with run start l have settle: "worker_settle e ot task l doc p (ot_settle ot u) = (s', r)"
      by (simp add: process_document_def)
    have "doc_chunks (dc_id doc) (ot_settle ot u) \<in> ?C"
      using others worker_process_chunks [OF proc others C t]
      by (intro writes_onlyD [where w = "ot_settle ot", OF _ C(1)]) (simp_all add: others_write_def)
    with others show ?thesis
      by (intro worker_settle_chunks [OF settle _ C(1)]) (simp_all add: others_write_def)
  qed
  then show ?thesis by (auto simp: new_chunks_def)
qed

section \<open>A cancelled worker\<close>

text \<open>
  C30. A worker that ends with an error after its task was cancelled shows the document as cancelled, whatever
  the document has become since: the status is written without asking for the lease. A document that was
  queued and indexed again by another worker is then shown as cancelled, with its new chunks.
\<close>

theorem cancelled_worker_overwrites:
  assumes run: "worker_settle e alone task l doc (Err err) s = (s', r)" and "r \<noteq> Panic"
    and cancelled: "tq_is_cancelled task (co_tasks s) = Ok True"
    and doc: "hget (st_mem (co_docs s)) (dc_id doc) = Some d" "\<not> st_poisoned (co_docs s)"
    and written: "write_succeeds (wk_end e)"
  shows "co_index s' = co_index s \<and>
    (\<exists>d'. hget (st_mem (co_docs s')) (dc_id doc) = Some d' \<and> dc_run d' = ''CANCELLED'' \<and>
       dc_chunk_count d' = dc_chunk_count d \<and> dc_indexed_content_hash d' = dc_indexed_content_hash d)"
proof -
  obtain t q where settle: "settle_task e task (tl_token l) ''cancelled'' (Fin 1) ''Processing cancelled'' s = (t, q)"
    by fastforce
  then have t: "co_docs t = co_docs s" "co_index t = co_index s"
    by (auto simp: settle_task_def split: prod.splits)
  have shown: "show_status (wk_end e) (wk_end_now e) (dc_id doc) ''CANCELLED'' (Fin 1) ''Processing cancelled'' t
      = (s', r)"
    using run cancelled settle assms(2)
    by (cases q) (auto simp: worker_settle_def on_read_def alone_def)
  obtain st where st: "update_status (wk_end e) (wk_end_now e) (dc_id doc) ''CANCELLED'' (Fin 1)
      ''Processing cancelled'' (co_docs t) = (st, Ok True)"
    "st_mem st = hput (dc_id doc) (d\<lparr>dc_run := ''CANCELLED'', dc_progress := Fin 1,
        dc_progress_msg := ''Processing cancelled'', dc_chunk_count := dc_chunk_count d,
        dc_updated_at := wk_end_now e\<rparr>) (st_mem (co_docs s))"
    using doc_write_succeeds [OF written doc(2,1), of "\<lambda>d. (d\<lparr>dc_run := ''CANCELLED'', dc_progress := Fin 1,
        dc_progress_msg := ''Processing cancelled'', dc_chunk_count := dc_chunk_count d,
        dc_updated_at := wk_end_now e\<rparr>, True)"]
    unfolding update_status_def update_parse_result_def t by auto
  with shown have "s' = t\<lparr>co_docs := st\<rparr>" by (simp add: show_status_def)
  with st(2) t show ?thesis by simp
qed

section \<open>The worker on its own\<close>

definition lease_until :: "string \<Rightarrow> string \<Rightarrow> u64 \<Rightarrow> task_queue \<Rightarrow> bool" where
  "lease_until task token limit q \<longleftrightarrow> \<not> st_poisoned (tq_store q) \<and>
     (\<exists>t. find_task task (tq_tasks q) = Some t \<and> tk_status t = ''running'' \<and> tk_lease_token t = token \<and>
        limit \<le> tk_lease_expires_at t \<and> \<not> tk_cancel_requested t)"

text \<open>The task is settled before a lease taken or renewed on the way can run out.\<close>

definition in_time :: "u64 \<Rightarrow> worker_env \<Rightarrow> (u64 \<times> write_env option) list \<Rightarrow> bool" where
  "in_time limit e ticks \<longleftrightarrow> limit \<le> sat_add (wk_claim_now e) TASK_LEASE_DURATION_MS \<and>
     list_all (\<lambda>(n, x). limit \<le> sat_add n TASK_LEASE_DURATION_MS) ticks \<and>
     limit \<le> sat_add (wk_renew_now e) TASK_COMMIT_LEASE_DURATION_MS \<and> wk_settle_now e < limit"

abbreviation quiet_beats ::
    "(u64 \<times> write_env option) list \<Rightarrow> ((('m, 'j) corpus \<Rightarrow> ('m, 'j) corpus) \<times> u64 \<times> write_env option) list" where
  "quiet_beats \<equiv> map (\<lambda>(n, x). (\<lambda>s. s, n, x))"

text \<open>The document is registered and its store is alive.\<close>

definition doc_shown :: "string \<Rightarrow> ('m, 'j) corpus \<Rightarrow> bool" where
  "doc_shown d s \<longleftrightarrow> \<not> st_poisoned (co_docs s) \<and> hget (st_mem (co_docs s)) d \<noteq> None"

lemma find_updated:
  "find_task i ts = Some t \<Longrightarrow> tk_id t' = i \<Longrightarrow> find_task i (upd_task i t' ts) = Some t'"
  unfolding find_task_def by (induction ts) (auto split: if_splits)

lemma find_task_id: "find_task i ts = Some t \<Longrightarrow> tk_id t = i"
  by (auto dest: find_task_SomeD)

lemma renewed_lease:
  assumes "tq_renew_lease e now task token dur q = (q', r)" and "r \<noteq> Panic"
    and "lease_until task token limit q" and "limit \<le> sat_add now dur"
  shows "lease_until task token limit q'"
proof (cases "dur = 0")
  case True with assms show ?thesis by (simp add: tq_renew_lease_def)
next
  case False
  from assms(3) obtain t where t: "\<not> st_poisoned (tq_store q)" "find_task task (tq_tasks q) = Some t"
      "tk_status t = ''running''" "tk_lease_token t = token" "limit \<le> tk_lease_expires_at t"
      "\<not> tk_cancel_requested t" by (auto simp: lease_until_def)
  obtain st where st: "tx_mutate_if_changed (\<lambda>ts. ts) e (renew_step now task token dur) (tq_store q) = (st, r)"
      and q': "q' = q\<lparr>tq_store := st\<rparr>"
    using assms(1) False by (auto simp: tq_renew_lease_def tq_mutate_if_changed_def split: prod.splits)
  have alive: "\<not> st_poisoned st" using st by (cases rule: tx_mutate_cases) (use t(1) assms(2) in auto)
  consider "st_mem st = tq_tasks q"
    | "st_mem st = upd_task task (t\<lparr>tk_lease_expires_at := sat_add now dur, tk_updated_at := now\<rparr>) (tq_tasks q)"
    using tq_renewing.store_atomic [OF st assms(2)] t(2) by (auto simp: renew_step_def split: if_splits)
  then show ?thesis
  proof cases
    case 1 with t alive show ?thesis by (auto simp: lease_until_def q')
  next
    case 2
    with find_updated [OF t(2)] find_task_id [OF t(2)] t alive assms(4) show ?thesis
      by (simp add: lease_until_def q')
  qed
qed

lemma beats_keep:
  assumes "lease_beats task token (quiet_beats ticks) s = (s', r)" and "r \<noteq> Panic"
    and "lease_until task token limit (co_tasks s)"
    and "list_all (\<lambda>(n, x). limit \<le> sat_add n TASK_LEASE_DURATION_MS) ticks"
  shows "lease_until task token limit (co_tasks s') \<and> co_docs s' = co_docs s"
  using assms
proof (induction ticks arbitrary: s)
  case Nil then show ?case by simp
next
  case (Cons nx ticks)
  obtain n x where nx: "nx = (n, x)" by fastforce
  obtain q p where renew: "tq_renew_lease x n task token TASK_LEASE_DURATION_MS (co_tasks s) = (q, p)"
    by fastforce
  with Cons.prems(1,2) have "p \<noteq> Panic" by (auto simp: nx Let_def)
  from renewed_lease [OF renew this Cons.prems(3)] Cons.prems(4)
  have "lease_until task token limit q" by (simp add: nx)
  with Cons.IH [of "s\<lparr>co_tasks := q\<rparr>"] Cons.prems renew show ?case
    by (auto simp: nx Let_def split: res.splits bool.splits)
qed

lemma with_doc_shown:
  assumes "doc_mutate_if_changed e (with_doc i f) st = (st', r)" and "r \<noteq> Panic" and "\<not> st_poisoned st"
  shows "\<not> st_poisoned st' \<and> (hget (st_mem st') d \<noteq> None \<longleftrightarrow> hget (st_mem st) d \<noteq> None)"
proof
  have "tx_mutate_if_changed hvalues (Some e) (with_doc i f) st = (st', r)"
    using assms(1) by (simp add: doc_mutate_if_changed_def)
  then show "\<not> st_poisoned st'" by (cases rule: tx_mutate_cases) (use assms(2,3) in auto)
  from assms(1) show "hget (st_mem st') d \<noteq> None \<longleftrightarrow> hget (st_mem st) d \<noteq> None"
    by (cases rule: with_doc_cases) (use assms(2) in auto)
qed

lemma tasks_of_undo [simp]:
  "co_tasks (restore_document_index mo e doc kb previous s) = co_tasks s"
  "co_tasks (undo_graphs eg a s) = co_tasks s" "co_tasks (undo_counts ek now kb c n s) = co_tasks s"
  by (simp_all add: restore_document_index_def undo_graphs_def undo_counts_def)

lemma commit_record_docs:
  assumes run: "commit_record mo e doc n delta msg previous graphs t = (s', r)" and "r \<noteq> Panic"
    and "doc_shown d t"
  shows "doc_shown d s' \<and> co_tasks s' = co_tasks t"
proof -
  obtain m q where mark: "mark_indexed (cm_docs e) (cm_docs_now e) (dc_id doc) (dc_content_hash doc) n msg
      (co_docs t) = (m, q)" by fastforce
  with run assms(2) have "q \<noteq> Panic" by (auto simp: commit_record_def Let_def)
  from with_doc_shown [OF mark [unfolded mark_indexed_def] this] assms(3)
  have "\<not> st_poisoned m" "hget (st_mem m) d \<noteq> None" by (auto simp: doc_shown_def)
  with run mark assms(2) show ?thesis
    by (auto simp: commit_record_def Let_def doc_shown_def split: res.splits bool.splits)
qed

lemma commit_docs:
  assumes run: "commit_indexed_document mo parse e (\<lambda>s. s) doc task token indexed checkpoint msg s = (s', r)"
    and "r \<noteq> Panic" and "doc_shown d s"
  shows "doc_shown d s' \<and> co_tasks s' = co_tasks s"
  using run
proof (cases rule: commit_indexed_cases)
  case (1 cur)
  obtain t q where rep: "replace_in_index mo parse (cm_index e) (dc_id doc) (dc_kb_id doc) indexed s = (t, q)"
    by fastforce
  then obtain ix where t: "t = s\<lparr>co_index := ix\<rparr>" by (auto simp: replace_in_index_def Let_def split: prod.splits)
  obtain g p where rg: "replace_document_graph (cm_graphs e) (dc_id doc) checkpoint (co_graphs s) = (g, p)"
    by fastforce
  obtain k c where upd: "update_counts (cm_kbs e) (cm_kbs_now e) (dc_kb_id doc)
      (of_nat (length indexed) - dc_chunk_count cur) 0 (co_kbs s) = (k, c)" by fastforce
  show ?thesis
  proof (cases "q = Ok () \<and> p = Ok () \<and> c = Ok ()")
    case True
    with 1(2) rep t rg upd have "commit_record mo e doc (of_nat (length indexed))
        (of_nat (length indexed) - dc_chunk_count cur) msg (doc_chunks (dc_id doc) s) (gs_artifacts (co_graphs s))
        (s\<lparr>co_index := ix, co_graphs := g, co_kbs := k\<rparr>) = (s', r)"
      by (simp add: commit_stores_def commit_counts_def Let_def)
    from commit_record_docs [OF this assms(2), of d] assms(3) show ?thesis by (simp add: doc_shown_def)
  next
    case False
    with 1(2) rep t rg upd assms(2,3) show ?thesis
      by (cases q; cases p; cases c) (auto simp: commit_stores_def commit_counts_def Let_def doc_shown_def)
  qed
qed (use assms(2,3) in simp_all)

lemma commit_done:
  assumes run: "commit_indexed_document mo parse e (\<lambda>s. s) doc task token indexed checkpoint msg s = (s', Ok u)"
    and own: "all_of_doc (dc_id doc) indexed"
  shows "doc_chunks (dc_id doc) s' = indexed \<and>
    (\<exists>d. hget (st_mem (co_docs s')) (dc_id doc) = Some d \<and> dc_run d = ''DONE'' \<and>
       dc_chunk_count d = of_nat (length indexed))"
  using run
proof (cases rule: commit_indexed_cases)
  case (1 cur)
  from 1(2) show ?thesis by (rule commit_stores_Ok) (simp add: engine.look_replace [OF own])
qed simp_all

lemma worker_store_views:
  assumes run: "worker_store mo parse e alone task token doc indexed checkpoint s = (s', r)" and "r \<noteq> Panic"
    and lease: "lease_until task token limit (co_tasks s)"
    and time: "limit \<le> sat_add (wk_renew_now e) TASK_COMMIT_LEASE_DURATION_MS"
    and doc: "doc_shown (dc_id doc) s" and own: "all_of_doc (dc_id doc) indexed"
  shows "lease_until task token limit (co_tasks s') \<and> doc_shown (dc_id doc) s' \<and>
    (\<forall>n. r = Ok n \<longrightarrow> doc_chunks (dc_id doc) s' = indexed \<and>
       (\<exists>d. hget (st_mem (co_docs s')) (dc_id doc) = Some d \<and> dc_run d = ''DONE'' \<and>
          dc_chunk_count d = of_nat (length indexed)))"
proof -
  from lease have "tq_is_cancelled task (co_tasks s) = Ok False"
    by (auto simp: lease_until_def tq_is_cancelled_def tx_read_def)
  obtain q p where renew: "tq_renew_lease (wk_renew e) (wk_renew_now e) task token
      TASK_COMMIT_LEASE_DURATION_MS (co_tasks s) = (q, p)" by fastforce
  with run assms(2) \<open>tq_is_cancelled _ _ = _\<close> have "p \<noteq> Panic" by (auto simp: worker_store_def on_read_def)
  from renewed_lease [OF renew this lease time] have q: "lease_until task token limit q" .
  show ?thesis
  proof (cases "p = Ok True")
    case False
    with run renew q doc assms(2) \<open>tq_is_cancelled _ _ = _\<close> show ?thesis
      by (auto simp: worker_store_def on_read_def doc_shown_def split: res.splits bool.splits)
  next
    case True
    obtain u c where com: "commit_indexed_document mo parse (wk_commit e) (\<lambda>s. s) doc task token indexed
        checkpoint (indexed_message (length indexed)) (s\<lparr>co_tasks := q\<rparr>) = (u, c)" by fastforce
    with run True renew \<open>tq_is_cancelled _ _ = _\<close> have s': "s' = u" "r = res_map (\<lambda>_. length indexed) c"
      by (simp_all add: worker_store_def on_read_def alone_def)
    then have "c \<noteq> Panic" using assms(2) by auto
    from commit_docs [OF com this, of "dc_id doc"] doc
    have kept: "doc_shown (dc_id doc) u" "co_tasks u = q" by (simp_all add: doc_shown_def)
    have "doc_chunks (dc_id doc) u = indexed \<and>
       (\<exists>d. hget (st_mem (co_docs u)) (dc_id doc) = Some d \<and> dc_run d = ''DONE'' \<and>
          dc_chunk_count d = of_nat (length indexed))" if "c = Ok ()"
      using commit_done [OF com [unfolded that] own] .
    with kept q s' show ?thesis by (cases c) auto
  qed
qed

lemma worker_process_views:
  assumes run: "worker_process mo parse e pl alone (quiet_beats ticks) task token doc s = (s', r)" and "r \<noteq> Panic"
    and lease: "lease_until task token limit (co_tasks s)" and time: "in_time limit e ticks"
    and doc: "doc_shown (dc_id doc) s"
  shows "lease_until task token limit (co_tasks s') \<and> doc_shown (dc_id doc) s' \<and>
    (\<forall>n. r = Ok n \<longrightarrow> (\<exists>config chunks d. pl_chunks pl = Ok chunks \<and>
       worker_chunks config doc chunks = Ok (doc_chunks (dc_id doc) s') \<and>
       hget (st_mem (co_docs s')) (dc_id doc) = Some d \<and> dc_run d = ''DONE'' \<and>
       dc_chunk_count d = of_nat (length (doc_chunks (dc_id doc) s'))))"
proof -
  obtain t q where beats: "lease_beats task token (quiet_beats ticks) s = (t, q)" by fastforce
  show ?thesis
  proof (cases "worker_prepare pl doc s")
    case (Ok config)
    with run beats assms(2) have "q \<noteq> Panic" by (auto simp: worker_process_def on_read_def alone_def)
    from beats_keep [OF beats this lease] time doc
    have t: "lease_until task token limit (co_tasks t)" "doc_shown (dc_id doc) t"
      by (simp_all add: in_time_def doc_shown_def)
    have step: "worker_index mo parse e pl alone task token doc config chunks t = (s', r)"
      if "q = Ok u" "pl_chunks pl = Ok chunks" for u chunks
      using that run Ok beats by (simp add: worker_process_def on_read_def alone_def)
    show ?thesis
    proof (cases "(\<exists>u. q = Ok u) \<and> (\<exists>chunks. pl_chunks pl = Ok chunks)")
      case False
      with run Ok beats t assms(2) show ?thesis
        by (cases q; cases "pl_chunks pl") (auto simp: worker_process_def on_read_def alone_def)
    next
      case True
      then obtain u chunks where chunks: "q = Ok u" "pl_chunks pl = Ok chunks" by blast
      show ?thesis
      proof (cases "\<exists>indexed. worker_chunks config doc chunks = Ok indexed \<and>
          worker_store mo parse e alone task token doc indexed (worker_graph pl config doc chunks) t = (s', r)")
        case False
        with step [OF chunks] t assms(2) show ?thesis
          by (auto simp: worker_index_def on_read_def split: res.splits if_splits)
      next
        case True
        then obtain indexed where indexed: "worker_chunks config doc chunks = Ok indexed"
          "worker_store mo parse e alone task token doc indexed (worker_graph pl config doc chunks) t = (s', r)"
          by blast
        from worker_store_views [OF indexed(2) assms(2) t(1) _ t(2) worker_chunks_own [OF indexed(1)]]
          time chunks(2) indexed(1) show ?thesis by (auto simp: in_time_def)
      qed
    qed
  qed (use run lease doc assms(2) in \<open>auto simp: worker_process_def on_read_def alone_def\<close>)
qed

lemma persist_succeedsE:
  assumes "persist_succeeds e"
  obtains d' where "tx_persist e data d = (d', Ok ())"
proof (cases e)
  case (Some w)
  with assms that show ?thesis by (auto simp: persist_succeeds_def elim: write_succeedsE [of w data d])
qed (use that in simp)

lemma stored_when_changed:
  assumes "tx_mutate_if_changed snap e f st = (st', r)" and "persist_succeeds e" and "\<not> st_poisoned st"
    and "f (st_mem st) = (m, Ok (v, True))"
  shows "r = Ok v \<and> st_mem st' = m \<and> \<not> st_poisoned st'"
  using assms(1)
proof (cases rule: tx_mutate_cases)
  case (Lost m' v' d err)
  obtain d' where "tx_persist e (snap m') (st_disk st) = (d', Ok ())" using assms(2) by (rule persist_succeedsE)
  with Lost show ?thesis by simp
qed (use assms(3,4) in auto)

lemma settle_task_done:
  assumes run: "settle_task e task token status p msg s = (s', r)" and "r \<noteq> Panic"
    and lease: "lease_until task token limit (co_tasks s)" and "wk_settle_now e < limit"
    and "persist_succeeds (wk_settle e)" and "f32_is_finite p" "f32_in_unit p" "status \<noteq> ''running''"
  shows "r = Ok True \<and> co_docs s' = co_docs s \<and> co_index s' = co_index s \<and>
    (\<exists>t. find_task task (tq_tasks (co_tasks s')) = Some t \<and> tk_status t = status)"
proof -
  from lease obtain t where t: "\<not> st_poisoned (tq_store (co_tasks s))"
      "find_task task (tq_tasks (co_tasks s)) = Some t" "tk_status t = ''running''" "tk_lease_token t = token"
      "limit \<le> tk_lease_expires_at t" by (auto simp: lease_until_def)
  let ?f = "update_claimed_step (wk_settle_now e) (wk_settle_written e) task token status p msg"
  obtain st where st: "tx_mutate_if_changed (\<lambda>ts. ts) (wk_settle e) ?f (tq_store (co_tasks s)) = (st, r)"
      and s': "s' = s\<lparr>co_tasks := (co_tasks s)\<lparr>tq_store := st\<rparr>\<rparr>"
    using run by (auto simp: settle_task_def tq_update_claimed_def tq_mutate_if_changed_def split: prod.splits)
  have "\<not> tk_lease_expires_at t \<le> wk_settle_now e" using t(5) assms(4) by simp
  let ?t = "t\<lparr>tk_status := status, tk_progress := p\<rparr>"
  obtain m q where m: "append_task_message (tk_message t) msg = (m, q)" by fastforce
  have step: "?f (tq_tasks (co_tasks s)) = (upd_task task (settle_status status
      (?t\<lparr>tk_message := m, tk_updated_at := wk_settle_written e\<rparr>)) (tq_tasks (co_tasks s)), Ok (True, True))"
    if "q = Ok u" for u
    using that t m assms(6-8) \<open>\<not> tk_lease_expires_at t \<le> _\<close> by (simp add: update_claimed_step_def Let_def)
  have "q = Ok ()"
  proof (cases q)
    case Panic
    then have "snd (?f (tq_tasks (co_tasks s))) = Panic"
      using t m assms(6-8) \<open>\<not> tk_lease_expires_at t \<le> _\<close> by (simp add: update_claimed_step_def Let_def)
    with st t(1) assms(2) show ?thesis by (cases rule: tx_mutate_cases) auto
  qed (use m append_task_message_no_err in auto)
  from stored_when_changed [OF st assms(5) t(1) step [OF this]]
  have r: "r = Ok True" and mem: "st_mem st = upd_task task (settle_status status
      (?t\<lparr>tk_message := m, tk_updated_at := wk_settle_written e\<rparr>)) (tq_tasks (co_tasks s))" by simp_all
  have "tk_id (settle_status status (?t\<lparr>tk_message := m, tk_updated_at := wk_settle_written e\<rparr>)) = task"
    "tk_status (settle_status status (?t\<lparr>tk_message := m, tk_updated_at := wk_settle_written e\<rparr>)) = status"
    using find_task_id [OF t(2)] by (simp_all add: settle_status_def clear_task_lease_def)
  with find_updated [OF t(2) this(1)] r mem show ?thesis by (simp add: s')
qed

lemma show_status_done:
  assumes "write_succeeds e" and "doc_shown d s"
  shows "\<exists>s'. show_status e now d run p msg s = (s', Ok ()) \<and> co_tasks s' = co_tasks s \<and> co_index s' = co_index s \<and>
    doc_shown d s' \<and> (\<exists>x. hget (st_mem (co_docs s')) d = Some x \<and> dc_run x = run)"
proof -
  from assms(2) obtain x where x: "\<not> st_poisoned (co_docs s)" "hget (st_mem (co_docs s)) d = Some x"
    by (auto simp: doc_shown_def)
  from doc_write_succeeds [OF assms(1) x, of "\<lambda>x. (x\<lparr>dc_run := run, dc_progress := p, dc_progress_msg := msg,
      dc_chunk_count := dc_chunk_count x, dc_updated_at := now\<rparr>, True)"]
  show ?thesis by (auto simp: show_status_def update_status_def update_parse_result_def doc_shown_def)
qed

lemma claim_taken:
  assumes "find_task task (tq_tasks q) = Some t" and "claimable now t" and "\<not> st_poisoned (tq_store q)"
    and "persist_succeeds e" and "worker \<noteq> []" and "limit \<le> sat_add now TASK_LEASE_DURATION_MS"
  shows "\<exists>q' l. tq_claim e now token task worker TASK_LEASE_DURATION_MS msg q = (q', Ok (Some l)) \<and>
    tl_token l = token \<and> lease_until task token limit q'"
proof -
  let ?f = "claim_step now token task worker TASK_LEASE_DURATION_MS msg"
  let ?t = "claimed_task now token worker TASK_LEASE_DURATION_MS msg t"
  obtain st r where st: "tx_mutate_if_changed (\<lambda>ts. ts) e ?f (tq_store q) = (st, r)" by fastforce
  have "?f (tq_tasks q) = (upd_task task ?t (tq_tasks q),
      Ok (Some \<lparr>tl_token = token, tl_attempt = tk_retry_count ?t\<rparr>, True))"
    using assms(1,2) by (simp add: claim_step_def Let_def claimed_task_def)
  from stored_when_changed [OF st assms(4,3) this]
  have r: "r = Ok (Some \<lparr>tl_token = token, tl_attempt = tk_retry_count ?t\<rparr>)"
    and mem: "st_mem st = upd_task task ?t (tq_tasks q)" "\<not> st_poisoned st" by simp_all
  have "tk_id ?t = task" using find_task_id [OF assms(1)] by (simp add: claimed_task_def)
  with find_updated [OF assms(1) this] mem assms(2,6)
  have "lease_until task token limit (q\<lparr>tq_store := st\<rparr>)"
    by (simp add: lease_until_def claimed_task_def claimable_def)
  with st r assms(5) show ?thesis
    by (auto simp: tq_claim_def tq_mutate_if_changed_def TASK_LEASE_DURATION_MS_def)
qed

text \<open>
  C5. A worker that claims a claimable task, runs on its own, settles in time and whose writes of the task and of
  the document's status go through leaves the task and the document telling the same, whatever becomes of the
  pipeline, the commit and the renewals of the lease:
  done and \<open>DONE\<close>, with the chunks made of the pipeline's answer in the index and their number in the
  record; or pending again and \<open>UNSTARTED\<close>; or failed and \<open>FAILED\<close>.
\<close>

theorem worker_views_agree:
  assumes run: "process_document mo parse e pl alone (quiet_beats ticks) task doc s = (s', Ok ())"
    and claim: "find_task task (tq_tasks (co_tasks s)) = Some t" "claimable (wk_claim_now e) t"
      "\<not> st_poisoned (tq_store (co_tasks s))" "wk_worker e \<noteq> []"
    and doc: "doc_shown (dc_id doc) s" and time: "in_time limit e ticks"
    and writes: "persist_succeeds (wk_claim e)" "write_succeeds (wk_start e)"
      "persist_succeeds (wk_settle e)" "write_succeeds (wk_end e)"
  shows "\<exists>t' d'. find_task task (tq_tasks (co_tasks s')) = Some t' \<and>
    hget (st_mem (co_docs s')) (dc_id doc) = Some d' \<and>
    (tk_status t' = ''done'' \<and> dc_run d' = ''DONE'' \<and>
       (\<exists>config chunks. pl_chunks pl = Ok chunks \<and>
          worker_chunks config doc chunks = Ok (doc_chunks (dc_id doc) s') \<and>
          dc_chunk_count d' = of_nat (length (doc_chunks (dc_id doc) s'))) \<or>
     tk_status t' = ''pending'' \<and> dc_run d' = ''UNSTARTED'' \<or>
     tk_status t' = ''failed'' \<and> dc_run d' = ''FAILED'')"
proof -
  have lim: "limit \<le> sat_add (wk_claim_now e) TASK_LEASE_DURATION_MS" using time by (simp add: in_time_def)
  have "tq_is_cancelled task (co_tasks s) = Ok False"
    using claim(1-3) by (simp add: tq_is_cancelled_def tx_read_def claimable_def)
  moreover obtain q l where taken: "tq_claim (wk_claim e) (wk_claim_now e) (wk_token e) task (wk_worker e)
      TASK_LEASE_DURATION_MS ''Parsing document'' (co_tasks s) = (q, Ok (Some l))"
    "tl_token l = wk_token e" "lease_until task (wk_token e) limit q"
    using claim_taken [OF claim(1-3) writes(1) claim(4) lim, of "wk_token e" "''Parsing document''"] by blast
  moreover have "doc_shown (dc_id doc) (s\<lparr>co_tasks := q\<rparr>)" using doc by (simp add: doc_shown_def)
  from show_status_done [OF writes(2) this, of "wk_start_now e" "''RUNNING''" f32_0_05 "''Parsing document''"]
  obtain u where shown: "show_status (wk_start e) (wk_start_now e) (dc_id doc) ''RUNNING'' f32_0_05
      ''Parsing document'' (s\<lparr>co_tasks := q\<rparr>) = (u, Ok ())" "co_tasks u = q" "doc_shown (dc_id doc) u"
    by auto
  ultimately have start: "worker_begin e alone task doc s = (u, Ok (Some l))"
    using shown by (simp add: worker_begin_def on_read_def alone_def)
  obtain v p where proc: "worker_process mo parse e pl alone (quiet_beats ticks) task (wk_token e) doc u = (v, p)"
    by fastforce
  with run start taken(2) have settle: "worker_settle e alone task l doc p v = (s', Ok ())"
    by (simp add: process_document_def alone_def)
  then have "p \<noteq> Panic" by (auto simp: worker_settle_def)
  from worker_process_views [OF proc this _ time shown(3)] taken(3) shown(2)
  have v: "lease_until task (wk_token e) limit (co_tasks v)" "doc_shown (dc_id doc) v"
    and finished: "\<And>n. p = Ok n \<Longrightarrow> \<exists>config chunks d. pl_chunks pl = Ok chunks \<and>
       worker_chunks config doc chunks = Ok (doc_chunks (dc_id doc) v) \<and>
       hget (st_mem (co_docs v)) (dc_id doc) = Some d \<and> dc_run d = ''DONE'' \<and>
       dc_chunk_count d = of_nat (length (doc_chunks (dc_id doc) v))"
    by auto
  have before: "wk_settle_now e < limit" using time by (simp add: in_time_def)
  have both: ?thesis
    if "settle_both e alone task (wk_token e) doc status run p' msg v = (s', Ok ())"
      and "f32_is_finite p'" "f32_in_unit p'" and "(status, run) \<in> {(''pending'', ''UNSTARTED''), (''failed'', ''FAILED'')}"
    for status run p' msg
  proof -
    obtain w r where set: "settle_task e task (wk_token e) status p' msg v = (w, r)" by fastforce
    with that(1) have "r \<noteq> Panic" by (auto simp: settle_both_def)
    from settle_task_done [OF set this v(1) before writes(3) that(2,3)] that(4)
    obtain t' where w: "r = Ok True" "co_docs w = co_docs v"
      "find_task task (tq_tasks (co_tasks w)) = Some t'" "tk_status t' = status" by auto
    from w(2) v(2) have "doc_shown (dc_id doc) w" by (simp add: doc_shown_def)
    from show_status_done [OF writes(4) this, of "wk_end_now e" run p' msg] that(1) set w
    show ?thesis using that(4) by (auto simp: settle_both_def alone_def)
  qed
  show ?thesis
  proof (cases p)
    case (Ok n)
    obtain w r where set: "settle_task e task (wk_token e) ''done'' (Fin 1) (indexed_message n) v = (w, r)"
      by fastforce
    with settle Ok taken(2) have r: "r \<noteq> Panic" and s': "s' = w"
      by (auto simp: worker_settle_def split: res.splits)
    from settle_task_done [OF set r v(1) before writes(3)] finished [OF Ok] s' show ?thesis by auto
  next
    case (Err err)
    have "tq_is_cancelled task (co_tasks v) = Ok False"
      using v(1) by (auto simp: lease_until_def tq_is_cancelled_def tx_read_def)
    with settle Err taken(2) both [of "''pending''" "''UNSTARTED''" "Fin 0"] both [of "''failed''" "''FAILED''" "Fin 1"]
    show ?thesis by (auto simp: worker_settle_def on_read_def split: res.splits if_splits)
  qed (use \<open>p \<noteq> Panic\<close> in simp)
qed

section \<open>Concrete runs\<close>

definition demo_worker :: "commit_env \<Rightarrow> worker_env" where
  "demo_worker e =
     \<lparr>wk_worker = ''w1'', wk_token = ''tok'', wk_claim = Some we_all_ok, wk_claim_now = 3000, wk_start = we_all_ok,
      wk_start_now = 3010, wk_check_now = 3100, wk_renew = Some we_all_ok, wk_renew_now = 3200,
      wk_commit = e\<lparr>cm_now := 3300\<rparr>, wk_settle = Some we_all_ok, wk_settle_now = 3400,
      wk_settle_written = 3401, wk_end = we_all_ok, wk_end_now = 3500\<rparr>"

definition demo_pipeline :: pipeline where
  "demo_pipeline =
     \<lparr>pl_config = (\<lambda>_. Ok \<lparr>wc_raptor_enabled = False, wc_raptor_depth = 0, wc_raptor_threshold = Fin 0,
        wc_graphrag_enabled = False, wc_graphrag_method = [], wc_graphrag_entity_types = []\<rparr>),
      pl_ready = Ok (),
      pl_chunks = Ok [\<lparr>ch_id = ''c1'', ch_content = ''text'', ch_type = ''text'', ch_doc = [], ch_position = 0,
        ch_tokens = 1, ch_embedding = Some [], ch_metadata = []\<rparr>],
      pl_extract = (\<lambda>_. [])\<rparr>"

definition worker_start :: "(unit, nat) corpus" where
  "worker_start = demo_corpus\<lparr>co_tasks := demo_queue [demo_task]\<rparr>"

definition worker_run :: "commit_env \<Rightarrow> (unit, nat) corpus \<times> unit res" where
  "worker_run e = process_document plain_mirror no_json (demo_worker e) demo_pipeline alone
     (quiet_beats [(3050, Some we_all_ok)]) ''t1'' (demo_doc ''d2'' ''b.txt'') worker_start"

lemma worker_runs:
  "worker_run demo_commit_env = (fst (worker_run demo_commit_env), Ok ())"
  "worker_run full_disk_env = (fst (worker_run full_disk_env), Ok ())"
proof -
  have "snd (worker_run demo_commit_env) = Ok ()" "snd (worker_run full_disk_env) = Ok ()" by code_simp+
  then show "worker_run demo_commit_env = (fst (worker_run demo_commit_env), Ok ())"
    "worker_run full_disk_env = (fst (worker_run full_disk_env), Ok ())" by (metis prod.collapse)+
qed

lemma worker_statuses:
  "map_option tk_status (find_task ''t1'' (tq_tasks (co_tasks (fst (worker_run demo_commit_env))))) = Some ''done''"
  "map_option tk_status (find_task ''t1'' (tq_tasks (co_tasks (fst (worker_run full_disk_env))))) = Some ''pending''"
  by code_simp+

lemma doc_id_demo: "dc_id (demo_doc ''d2'' ''b.txt'') = ''d2''"
  by (simp add: demo_doc_def)

text \<open>A run that ends well, and one whose commit meets a full disk: the old chunk stays.\<close>

theorem worker_old_or_new_witness:
  "let s' = fst (worker_run full_disk_env)
   in doc_chunks ''d2'' s' = doc_chunks ''d2'' worker_start \<or>
     (\<exists>config chunks. pl_chunks demo_pipeline = Ok chunks \<and> list_all (\<lambda>c. ch_embedding c \<noteq> None) chunks \<and>
        worker_chunks config (demo_doc ''d2'' ''b.txt'') chunks = Ok (doc_chunks ''d2'' s'))"
proof -
  have "others_write ''d2'' {} (alone :: (unit, nat) others) (quiet_beats [(3050, Some we_all_ok)])"
    by (simp add: others_write_def alone_def writes_only_def)
  with worker_old_or_new [OF worker_runs(2) [unfolded worker_run_def]] doc_id_demo
  show ?thesis unfolding Let_def worker_run_def by auto
qed

theorem worker_views_agree_witness:
  "\<exists>d'. hget (st_mem (co_docs (fst (worker_run demo_commit_env)))) ''d2'' = Some d' \<and> dc_run d' = ''DONE'' \<and>
     dc_chunk_count d' = of_nat (length (doc_chunks ''d2'' (fst (worker_run demo_commit_env))))"
proof -
  have t: "find_task ''t1'' (tq_tasks (co_tasks worker_start)) = Some demo_task"
    "claimable (wk_claim_now (demo_worker demo_commit_env)) demo_task"
    "\<not> st_poisoned (tq_store (co_tasks worker_start))" "wk_worker (demo_worker demo_commit_env) \<noteq> []"
    by code_simp+
  have d: "doc_shown (dc_id (demo_doc ''d2'' ''b.txt'')) worker_start"
    by (simp add: doc_id_demo doc_shown_def worker_start_def demo_corpus_parts)
  have i: "in_time 33000 (demo_worker demo_commit_env) [(3050, Some we_all_ok)]" by code_simp
  have w: "persist_succeeds (wk_claim (demo_worker demo_commit_env))"
    "write_succeeds (wk_start (demo_worker demo_commit_env))"
    "persist_succeeds (wk_settle (demo_worker demo_commit_env))"
    "write_succeeds (wk_end (demo_worker demo_commit_env))"
    by (simp_all add: demo_worker_def persist_succeeds_def)
  from worker_views_agree [OF worker_runs(1) [unfolded worker_run_def] t d i w, folded worker_run_def]
    worker_statuses(1)
  show ?thesis unfolding doc_id_demo by auto
qed

definition cancelled_start :: "(unit, nat) corpus" where
  "cancelled_start = demo_corpus\<lparr>co_tasks := demo_queue [demo_claimed\<lparr>tk_cancel_requested := True\<rparr>]\<rparr>"

definition cancelled_run :: "(unit, nat) corpus \<times> unit res" where
  "cancelled_run = worker_settle (demo_worker demo_commit_env) alone ''t1'' \<lparr>tl_token = ''tok'', tl_attempt = 1\<rparr>
     (demo_doc ''d2'' ''b.txt'') (Err ''Task lease lost'') cancelled_start"

theorem cancelled_worker_overwrites_witness:
  "\<exists>d'. hget (st_mem (co_docs (fst cancelled_run))) ''d2'' = Some d' \<and> dc_run d' = ''CANCELLED'' \<and>
     dc_chunk_count d' = 1"
proof -
  have "snd cancelled_run = Ok ()" by code_simp
  then have run: "cancelled_run = (fst cancelled_run, Ok ())" by (metis prod.collapse)
  have c: "tq_is_cancelled ''t1'' (co_tasks cancelled_start) = Ok True" by code_simp
  have d: "hget (st_mem (co_docs cancelled_start)) (dc_id (demo_doc ''d2'' ''b.txt''))
      = Some ((demo_doc ''d2'' ''b.txt'')\<lparr>dc_chunk_count := 1\<rparr>)" "\<not> st_poisoned (co_docs cancelled_start)"
    by (simp_all add: doc_id_demo cancelled_start_def demo_corpus_parts)
  have w: "write_succeeds (wk_end (demo_worker demo_commit_env))" by (simp add: demo_worker_def)
  from cancelled_worker_overwrites [OF run [unfolded cancelled_run_def] _ c d w, folded cancelled_run_def]
  show ?thesis by (auto simp: doc_id_demo)
qed

end
