(* ===== verification/Spec2Isabelle.thy ===== *)
theory Spec2Isabelle
  imports Task_Queue_Spec Password_Flow Agent_Checkpoints Doc_Registry Calc_Spec Chunk_Spec Sync_Task Document_Commit_Spec Document_Worker_Spec
begin

text \<open>
  A verification library for RayRAG, a retrieval-augmented-generation server in Rust. It models the
  parts of \<^verbatim>\<open>src/\<close> whose behaviour is decided by the program itself: who may enter and
  read what, which work is done and by whom, what is stored, and the pieces of pure computation
  a user's text goes through. The theories follow the source; this one imports them all.

  \<^bold>\<open>How the program's parts interact.\<close> An HTTP handler resolves a bearer token to an account
  (\<^verbatim>\<open>auth.rs\<close>), asks the tenant memberships and the knowledge-base registry (\<^verbatim>\<open>kb.rs\<close>) whether the
  account may see a base, records uploaded documents (\<^verbatim>\<open>api/document.rs\<close>) under names made unique by
  \<^verbatim>\<open>naming.rs\<close>, and queues their parsing (\<^verbatim>\<open>api/features.rs\<close>). Workers claim queued tasks under leases,
  chunk the text, and commit the chunks with the document's graph, counters and record.
  Accounts come from the sign-up handler or an OAuth login, behind a registration gate and a whitelist;
  lost passwords are reset with a captcha and a mailed code. An agent run that waits for its user is
  kept as a checkpoint. Every store keeps a value behind a lock and a snapshot of it in a file
  (\<^verbatim>\<open>persistence.rs\<close>); a mutation whose write fails is undone.

  \<^bold>\<open>Shared theories.\<close>
  \<^item> \<open>RR_Prelude\<close>: the result of a fallible Rust function (\<open>Ok\<close>, \<open>Err\<close>, \<open>Panic\<close>), saturating
    arithmetic, association lists for \<open>HashMap\<close>.
  \<^item> \<open>Rust_Str\<close>: strings as UTF-8 bytes, with slices that panic off a character boundary, trimming,
    case conversion, splitting and integer parsing. \<open>Rust_F32\<close>, \<open>Rust_F64\<close>: floating point as exact rationals; \<open>Rust_F64\<close>
    rounds every operation once, to nearest even.
  \<^item> \<open>Persistence\<close> and \<open>Tx_Store\<close>: the atomic replacement of a file with the outcome of every system
    call in an environment record, and the lock-clone-mutate-write-or-restore shape of the stores. The
    locale \<open>guarded_op\<close> (with \<open>clean_op\<close> below it) states what a mutation closure must promise; each store
    interprets it on its own closures and gets its invariant and its agreement with the file from it.

  \<^bold>\<open>Components.\<close>
  \<^item> \<open>Task_Queue\<close>, \<open>Task_Queue_Proofs\<close>, \<open>Task_Queue_Spec\<close> (\<^verbatim>\<open>api/features.rs\<close>, \<open>Task\<close>, \<open>TaskQueue\<close>): every
    public operation of the queue, the start-up recovery, the in-memory tasks and their staging; the
    step relation \<open>tq_step\<close> of its calls; the abstract lease automaton \<open>phase_step\<close> each task follows.
    The calls include \<open>update\<close>, which asks for no lease.
    Lease exclusion, finality, retry bounds and the order of the pending list are read off these.
  \<^item> \<open>Tenants\<close> and \<open>Kb_Registry\<close> (\<^verbatim>\<open>kb.rs\<close>, access checks of \<^verbatim>\<open>server.rs\<close>): memberships, knowledge bases, and
    the checks that join them; the locale \<open>directory\<close> is what the registry asks of the memberships.
  \<^item> \<open>Users\<close>, \<open>Users_Spec\<close> (\<^verbatim>\<open>auth.rs\<close>): accounts, passwords, legacy hashes, sessions.
  \<^item> \<open>One_Time_Codes\<close>, \<open>Captcha_Image\<close> (\<^verbatim>\<open>captcha.rs\<close>, \<^verbatim>\<open>password_reset.rs\<close>): the two stores of codes, both interpretations of
    the locale \<open>one_shot\<close>, and the drawing of the captcha.
  \<^item> \<open>Whitelist\<close>, \<open>Registration\<close>, \<open>Password_Flow\<close> (\<^verbatim>\<open>registration_whitelist.rs\<close>, \<^verbatim>\<open>user_register.rs\<close>, \<^verbatim>\<open>oauth_config.rs\<close>,
    handlers of \<^verbatim>\<open>server.rs\<close>, \<^verbatim>\<open>api/system.rs\<close>, \<^verbatim>\<open>api/password_flow.rs\<close>): the flows over these stores.
  \<^item> \<open>Agent_Checkpoints\<close> (\<^verbatim>\<open>agent_checkpoint.rs\<close>): validated checkpoints and their claims; its mutations
    follow a second discipline (copy, validate, write, replace), the locale \<open>staged_op\<close>.
  \<^item> \<open>Naming\<close>, \<open>Doc_Registry\<close> (\<^verbatim>\<open>naming.rs\<close>, \<^verbatim>\<open>api/document.rs\<close>): first free names and the document registry.
  \<^item> \<open>Calc_Helpers\<close>, \<open>Calc_Eval\<close>, \<open>Calc_Parser\<close>, \<open>Calc_Arith\<close>, \<open>Calc_Spec\<close> (\<^verbatim>\<open>harness/arithmetic.rs\<close>): the expression
    calculator offered to the language model: parser, whitelist check, evaluator, rendering.
  \<^item> \<open>Rust_Json\<close>, \<open>Rust_F32_Arith\<close>, \<open>Chunk_Tokens\<close>, \<open>Chunk_Text\<close>, \<open>Chunk_Strategies\<close>, \<open>Chunk_Title\<close> (\<^verbatim>\<open>chunk/\<close>): the token
    estimate, the delimiter field, sentences, position tags, and the four chunking strategies. \<open>Chunk_Proofs\<close>
    shows that texts stay UTF-8 (no slice panics) and proves the merge of sections once, in the locale
    \<open>section_merge\<close>; \<open>Chunk_Contract\<close> states the trait \<open>ChunkStrategy\<close> as a locale that every strategy
    interprets; \<open>Chunk_Spec\<close> has the properties and crates that behave as documented.

  \<^item> \<open>Task_Executor\<close>, \<open>Task_Executor_Proofs\<close>, \<open>Task_Executor_Spec\<close>, \<open>Sync_Task\<close> (\<^verbatim>\<open>task_executor.rs\<close>): the in-process
    executor as a step relation over its loop, workers, permits and callers, from submission to shutdown, and
    the synchronisation of a data source.
  \<^item> \<open>Search_Mapping\<close> (\<^verbatim>\<open>settings.rs\<close>, \<^verbatim>\<open>store/search_mapping.rs\<close>) and \<open>Search_Index\<close> (\<^verbatim>\<open>search.rs\<close>, \<^verbatim>\<open>store/mod.rs\<close>): the field
    rules of a chunk, the vector of indexed chunks, its persistence and its roll-back.
  \<^item> \<open>Entity_Graph\<close>, \<open>Entity_Graph_Spec\<close> (\<^verbatim>\<open>graphrag_enhanced.rs\<close>) and \<open>Graph_Store\<close> (\<^verbatim>\<open>graph_store.rs\<close>): entity graphs, their
    merge and bounded searches; one checkpoint per document and one merged graph per base.
  \<^item> \<open>Doc_Metadata\<close> (\<^verbatim>\<open>api/document_metadata.rs\<close>): the metadata object of each document.
  \<^item> \<open>Document_Commit\<close>, \<open>Document_Removal\<close>, \<open>Document_Commit_Spec\<close> (\<^verbatim>\<open>server.rs\<close>, \<^verbatim>\<open>api/document.rs\<close>): where these
    components meet. Committing or deleting a document changes six stores with a file each and no common
    transaction; the record \<open>corpus\<close> holds them all, every failing step undoes the earlier ones, and
    the theorems say what is restored, what is not, and that the counters agree over whole runs
    (\<open>corpus_call\<close>).
  \<^item> \<open>Rust_F32_Ops\<close>, \<open>Rust_Split\<close>, \<open>Raptor\<close>, \<open>Raptor_Spec\<close> (\<^verbatim>\<open>raptor.rs\<close>, \<open>build_raptor_chunks\<close>): the tree of summaries
    of a document, from the similarity of rounded vectors to the chunks that are indexed.
  \<^item> \<open>Document_Worker\<close>, \<open>Document_Worker_Spec\<close> (\<open>process_document\<close> and its callers in \<^verbatim>\<open>server.rs\<close>): the run of a
    parse task over the corpus and the queue, on top of the commit; what it leaves in the index, the
    task and the record.
  \<^bold>\<open>Parameters.\<close> Clocks, fresh UUIDs, salts and tokens are arguments of the operations that read them.
  Argon2, SHA-256, the transport decryption, the mailer, the OAuth provider, the PNG encoder, JSON values, the
  \<open>regex\<close> crate and floating-point functions such as \<open>powf\<close> are parameters; what is relied on is a named
  hypothesis (\<open>crypto_ok\<close>, \<open>env_ok\<close>, ..) with a concrete instance in a witness. The system calls of
  \<^verbatim>\<open>persistence.rs\<close> are Boolean outcomes, so that every combination of failures is covered.

  A commit holds the commit lock; what other requests do to records and tasks meanwhile is the parameter
  \<open>w\<close>, of which a theorem assumes only \<open>commit_rely\<close>: that it leaves index, graphs and counters alone,
  which uploads, data-set clean-ups and compiled templates, working without that lock, do not. What happens around a worker is the
  record \<open>others\<close>; the answer of the parsing pipeline is the record \<open>pipeline\<close>. The vector mirror and the JSON texts are parameters.

  \<^bold>\<open>Termination and fuel.\<close> The calculator's parser runs on fuel \<open>parse_fuel\<close>, seventeen times the number
  of characters plus seventeen: each character passes at most sixteen levels of precedence.
  \<open>Calc_Spec.parser_returns\<close> shows that this is always enough and that more changes nothing. The loops
  of \<open>Naming\<close> and of the code generators are bounded by the code itself. All other recursion is
  structural or has a measure.

  \<^bold>\<open>What the groups of theorems show.\<close> For each store: every sequence of calls keeps the invariant and
  leaves memory and file equal, failures included (\<open>.._sound\<close>). For each protocol: what may happen
  between a grant and its end (lease, claim, code, session), over arbitrary interleavings. For each
  computation: totality, exactness or the error. Properties about errors record where the code does
  not do what it or its comments say; the manifest lists them as findings.

  \<^bold>\<open>Not modelled.\<close> The scoring of searches (rounded products over a vendored vector store), metadata filters and summaries, the
  pipelines driven by language models (agents, the extraction of entities, wiki compilation, RAPTOR summaries written by a model), the removal of upload files, the
  readers of binary document formats, the clients of remote services, the web pages and the
  transport of HTTP: their results are those of code outside \<^verbatim>\<open>src/\<close>. Also left out are the store of
  conversations (\<^verbatim>\<open>llm.rs\<close>), metadata filters and chunk votes (\<^verbatim>\<open>metadata_filter.rs\<close>, \<^verbatim>\<open>chunk_feedback.rs\<close>), and
  the hand edits of single chunks (\<^verbatim>\<open>api/chunks.rs\<close>).
\<close>

end
